(* ===== verification/JsNumber.thy ===== *)
theory JsNumber
  imports Complex_Main "HOL-Library.Log_Nat"
begin

text \<open>
  JavaScript numbers. The finite values of the program are modelled by rationals, and
  every arithmetic operation whose result may be inexact goes through \<open>fl\<close>, the
  rounding to the nearest number with a 53-bit significand, ties to even, which is what
  IEEE 754 double arithmetic prescribes for results in the normal range. The exponent
  range is not bounded: overflow to an infinity and the subnormal range are outside the
  model. \<open>jsnum\<close> adds the special values for the places where the code compares
  arbitrary numbers; on it structural equality is \<open>Object.is\<close>.
\<close>

section \<open>Rounding to the nearest even integer\<close>

definition rne :: "rat \<Rightarrow> int" where
  "rne q = (let f = \<lfloor>q\<rfloor>; r = q - of_int f in
     if r < 1 / 2 then f else if 1 / 2 < r then f + 1 else if even f then f else f + 1)"

lemma rne_of_int [simp]: "rne (of_int n) = n"
  by (simp add: rne_def)

lemma rne_floor_bounds: "\<lfloor>q\<rfloor> \<le> rne q" "rne q \<le> \<lfloor>q\<rfloor> + 1"
  by (auto simp: rne_def Let_def)

lemma rne_mono: "p \<le> q \<Longrightarrow> rne p \<le> rne q"
proof -
  assume le: "p \<le> q"
  have f: "\<lfloor>p\<rfloor> \<le> \<lfloor>q\<rfloor>" using le by (rule floor_mono)
  show ?thesis
  proof (cases "\<lfloor>p\<rfloor> = \<lfloor>q\<rfloor>")
    case True
    then show ?thesis using le by (auto simp: rne_def Let_def)
  next
    case False
    with f have "\<lfloor>p\<rfloor> + 1 \<le> \<lfloor>q\<rfloor>" by simp
    then show ?thesis
      using rne_floor_bounds(2)[of p] rne_floor_bounds(1)[of q] by linarith
  qed
qed

lemma rne_le_of_int: "q \<le> of_int n \<Longrightarrow> rne q \<le> n"
  using rne_mono[of q "of_int n"] by simp

lemma rne_ge_of_int: "of_int n \<le> q \<Longrightarrow> n \<le> rne q"
  using rne_mono[of "of_int n" q] by simp

section \<open>The binary exponent of a positive rational\<close>

definition flog2 :: "rat \<Rightarrow> int" where
  "flog2 x = (let (n, d) = quotient_of x; e = bitlen n - bitlen d in
     if x < 2 powi e then e - 1 else e)"

lemma bitlen_powi_bounds:
  assumes "0 < n"
  shows "(2::rat) powi (bitlen n - 1) \<le> of_int n" "of_int n < (2::rat) powi bitlen n"
proof -
  have nn: "0 \<le> bitlen n - 1"
    using assms bitlen_nonneg[of n] bitlen_eq_zero_iff[of n] by linarith
  have b: "2 ^ nat (bitlen n - 1) \<le> n" "n < 2 ^ nat (bitlen n)"
    using bitlen_bounds[of n] assms by auto
  have "(2::rat) powi (bitlen n - 1) = of_int (2 ^ nat (bitlen n - 1))"
    using nn by (simp add: power_int_nonneg_exp)
  also have "\<dots> \<le> of_int n" using b(1) by (simp only: of_int_le_iff)
  finally show "(2::rat) powi (bitlen n - 1) \<le> of_int n" .
  have "(of_int n :: rat) < of_int (2 ^ nat (bitlen n))" using b(2) by (simp only: of_int_less_iff)
  also have "\<dots> = 2 powi bitlen n" using nn by (simp add: power_int_nonneg_exp)
  finally show "of_int n < (2::rat) powi bitlen n" .
qed

lemma flog2_bounds:
  assumes "0 < x"
  shows "2 powi flog2 x \<le> x" "x < 2 powi (flog2 x + 1)"
proof -
  obtain n d where q: "quotient_of x = (n, d)" by (cases "quotient_of x")
  have d: "0 < d" using quotient_of_denom_pos[OF q] .
  have x: "x = of_int n / of_int d" using quotient_of_div[OF q] .
  have n: "0 < n" using assms d unfolding x by (simp add: zero_less_divide_iff)
  define e where "e = bitlen n - bitlen d"
  have nb: "(2::rat) powi (bitlen n - 1) \<le> of_int n" "of_int n < (2::rat) powi bitlen n"
    using bitlen_powi_bounds[OF n] by auto
  have db: "(2::rat) powi (bitlen d - 1) \<le> of_int d" "of_int d < (2::rat) powi bitlen d"
    using bitlen_powi_bounds[OF d] by auto
  have dpos: "(0::rat) < of_int d" using d by simp
  have lo: "2 powi (e - 1) < x"
  proof -
    have "2 powi (e - 1) * of_int d < 2 powi (e - 1) * (2::rat) powi bitlen d"
      using db(2) by (intro mult_strict_left_mono) auto
    also have "\<dots> = 2 powi (bitlen n - 1)"
      by (simp add: e_def flip: power_int_add)
    also have "\<dots> \<le> of_int n" by (rule nb(1))
    finally show ?thesis using dpos by (simp add: x field_simps)
  qed
  have hi: "x < 2 powi (e + 1)"
  proof -
    have "of_int n < (2::rat) powi bitlen n" by (rule nb(2))
    also have "\<dots> = 2 powi (e + 1) * 2 powi (bitlen d - 1)"
      by (simp add: e_def flip: power_int_add)
    also have "\<dots> \<le> 2 powi (e + 1) * of_int d"
      using db(1) by (intro mult_left_mono) auto
    finally show ?thesis using dpos by (simp add: x field_simps)
  qed
  have fl: "flog2 x = (if x < 2 powi e then e - 1 else e)"
    by (simp add: flog2_def q e_def)
  show "2 powi flog2 x \<le> x" using lo by (auto simp: fl)
  show "x < 2 powi (flog2 x + 1)" using hi by (auto simp: fl)
qed

lemma powi2_le_iff: "(2::rat) powi a \<le> 2 powi b \<longleftrightarrow> a \<le> b"
  using power_int_increasing[of a b "2::rat"] power_int_strict_increasing[of b a "2::rat"]
  by (metis leD leI one_le_numeral one_less_numeral_iff semiring_norm(76))

lemma powi2_less_iff: "(2::rat) powi a < 2 powi b \<longleftrightarrow> a < b"
  using powi2_le_iff[of b a] by (simp add: not_le[symmetric])

lemma flog2_mono:
  assumes "0 < x" "x \<le> y"
  shows "flog2 x \<le> flog2 y"
proof -
  have y: "0 < y" using assms by simp
  have "2 powi flog2 x < (2::rat) powi (flog2 y + 1)"
    using flog2_bounds(1)[OF assms(1)] flog2_bounds(2)[OF y] assms(2) by simp
  then show ?thesis by (simp add: powi2_less_iff)
qed

section \<open>Rounding to a double\<close>

definition fl_pos :: "rat \<Rightarrow> rat" where
  "fl_pos x = (let u = 2 powi (flog2 x - 52) in of_int (rne (x / u)) * u)"

definition fl :: "rat \<Rightarrow> rat" where
  "fl x = (if x = 0 then 0 else if 0 < x then fl_pos x else - fl_pos (- x))"

lemma fl_0 [simp]: "fl 0 = 0"
  by (simp add: fl_def)

lemma fl_minus: "fl (- x) = - fl x"
  by (simp add: fl_def)

lemma fl_pos_bounds:
  assumes "0 < x"
  shows "2 powi flog2 x \<le> fl_pos x" "fl_pos x \<le> 2 powi (flog2 x + 1)"
proof -
  define u :: rat where "u = 2 powi (flog2 x - 52)"
  have u: "0 < u" by (simp add: u_def)
  have lo: "2 powi flog2 x = of_int (2 ^ 52) * u"
    using power_int_add[of "2::rat" 52 "flog2 x - 52"] by (simp add: u_def)
  have hi: "2 powi (flog2 x + 1) = of_int (2 ^ 53) * u"
    using power_int_add[of "2::rat" 53 "flog2 x - 52"] by (simp add: u_def add.commute)
  have "of_int (2 ^ 52) \<le> x / u"
    using flog2_bounds(1)[OF assms] u unfolding lo by (simp add: le_divide_eq)
  then have "2 ^ 52 \<le> rne (x / u)" by (rule rne_ge_of_int)
  then have "(of_int (2 ^ 52) :: rat) \<le> of_int (rne (x / u))" by (simp only: of_int_le_iff)
  then have "of_int (2 ^ 52) * u \<le> of_int (rne (x / u)) * u"
    using u by (intro mult_right_mono) auto
  then show "2 powi flog2 x \<le> fl_pos x" unfolding lo by (simp add: fl_pos_def u_def Let_def)
  have "x / u \<le> of_int (2 ^ 53)"
    using flog2_bounds(2)[OF assms] u unfolding hi by (simp add: divide_le_eq)
  then have "rne (x / u) \<le> 2 ^ 53" by (rule rne_le_of_int)
  then have "(of_int (rne (x / u)) :: rat) \<le> of_int (2 ^ 53)" by (simp only: of_int_le_iff)
  then have "of_int (rne (x / u)) * u \<le> of_int (2 ^ 53) * u"
    using u by (intro mult_right_mono) auto
  then show "fl_pos x \<le> 2 powi (flog2 x + 1)" unfolding hi by (simp add: fl_pos_def u_def Let_def)
qed

lemma fl_pos_pos: "0 < x \<Longrightarrow> 0 < fl_pos x"
proof -
  assume x: "0 < x"
  have "(0::rat) < 2 powi flog2 x" by simp
  then show ?thesis using fl_pos_bounds(1)[OF x] by (rule less_le_trans)
qed

lemma fl_pos_mono:
  assumes "0 < x" "x \<le> y"
  shows "fl_pos x \<le> fl_pos y"
proof (cases "flog2 x = flog2 y")
  case True
  define u :: rat where "u = 2 powi (flog2 y - 52)"
  have u: "0 < u" by (simp add: u_def)
  have "rne (x / u) \<le> rne (y / u)" using assms(2) u by (intro rne_mono divide_right_mono) auto
  then have "(of_int (rne (x / u)) :: rat) \<le> of_int (rne (y / u))" by (simp only: of_int_le_iff)
  then have "of_int (rne (x / u)) * u \<le> of_int (rne (y / u)) * u"
    using u by (intro mult_right_mono) auto
  then show ?thesis using True by (simp add: fl_pos_def u_def Let_def)
next
  case False
  have y: "0 < y" using assms by simp
  have "flog2 x + 1 \<le> flog2 y" using flog2_mono[OF assms] False by simp
  then have "(2::rat) powi (flog2 x + 1) \<le> 2 powi flog2 y" by (simp add: powi2_le_iff)
  then show ?thesis using fl_pos_bounds(2)[OF assms(1)] fl_pos_bounds(1)[OF y] by linarith
qed

lemma fl_pos_eq: "0 < x \<Longrightarrow> fl x = fl_pos x"
  by (simp add: fl_def)

lemma fl_gt_0 [simp]: "0 < fl x \<longleftrightarrow> 0 < x"
  using fl_pos_pos[of x] fl_pos_pos[of "- x"] by (auto simp: fl_def not_less)

lemma fl_lt_0 [simp]: "fl x < 0 \<longleftrightarrow> x < 0"
  using fl_gt_0[of "- x"] by (simp add: fl_minus)

lemma fl_eq_0 [simp]: "fl x = 0 \<longleftrightarrow> x = 0"
  using fl_gt_0[of x] fl_lt_0[of x] by (metis fl_0 less_irrefl linorder_less_linear)

lemma fl_ge_0 [simp]: "0 \<le> fl x \<longleftrightarrow> 0 \<le> x"
  using fl_lt_0[of x] by linarith

lemma fl_mono: "x \<le> y \<Longrightarrow> fl x \<le> fl y"
proof -
  assume le: "x \<le> y"
  consider "0 < x" | "x \<le> 0" "0 \<le> y" | "y < 0" by linarith
  then show ?thesis
  proof cases
    case 1
    then show ?thesis using le fl_pos_mono[OF 1 le] by (simp add: fl_pos_eq)
  next
    case 2
    then have "fl x \<le> 0" "0 \<le> fl y" using fl_gt_0[of x] by (simp_all add: not_less[symmetric])
    then show ?thesis by linarith
  next
    case 3
    then have "fl_pos (- y) \<le> fl_pos (- x)" using le by (intro fl_pos_mono) auto
    then show ?thesis using 3 le by (simp add: fl_def)
  qed
qed

lemma fl_pos_of_multiple:
  assumes "x = of_int j * 2 powi (flog2 x - 52)"
  shows "fl_pos x = x"
proof -
  have "x / 2 powi (flog2 x - 52) = of_int j" by (subst assms) simp
  then have "rne (x / 2 powi (flog2 x - 52)) = j" by simp
  then show ?thesis using assms by (simp add: fl_pos_def Let_def)
qed

lemma fl_pos_exact:
  assumes "0 < k" "k < 2 ^ 53"
  shows "fl_pos (of_int k * 2 powi m) = of_int k * 2 powi m"
proof -
  let ?x = "of_int k * (2::rat) powi m"
  have pos: "0 < ?x" using assms(1) by simp
  have "(of_int k :: rat) < of_int (2 ^ 53)" using assms(2) by (simp only: of_int_less_iff)
  then have "?x < 2 powi 53 * 2 powi m" by simp
  also have "\<dots> = 2 powi (53 + m)" by (simp add: power_int_add)
  finally have "2 powi flog2 ?x < (2::rat) powi (53 + m)"
    using flog2_bounds(1)[OF pos] by linarith
  then have le: "0 \<le> m - (flog2 ?x - 52)" by (simp add: powi2_less_iff)
  define d where "d = nat (m - (flog2 ?x - 52))"
  have m: "m = int d + (flog2 ?x - 52)" using le by (simp add: d_def)
  have "?x = of_int (k * 2 ^ d) * 2 powi (flog2 ?x - 52)"
    by (subst m) (simp add: power_int_add)
  then show ?thesis by (rule fl_pos_of_multiple)
qed

lemma fl_exact:
  assumes "\<bar>k\<bar> < 2 ^ 53"
  shows "fl (of_int k * 2 powi m) = of_int k * 2 powi m"
proof -
  consider "k = 0" | "0 < k" | "k < 0" by linarith
  then show ?thesis
  proof cases
    case 2
    then show ?thesis using assms by (simp add: fl_def fl_pos_exact)
  next
    case 3
    then have "fl_pos (of_int (- k) * 2 powi m) = of_int (- k) * 2 powi m"
      using assms by (intro fl_pos_exact) auto
    moreover have "of_int k * (2::rat) powi m < 0" using 3 by (simp add: mult_neg_pos)
    ultimately show ?thesis by (simp add: fl_def not_less)
  qed simp
qed

lemma fl_of_int [simp]: "\<bar>k\<bar> < 2 ^ 53 \<Longrightarrow> fl (of_int k) = of_int k"
  using fl_exact[of k 0] by simp

lemma fl_of_nat: "n < 2 ^ 53 \<Longrightarrow> fl (of_nat n) = of_nat n"
  using fl_of_int[of "int n"] by simp

lemma fl_numeral_le: "x \<le> of_int k \<Longrightarrow> \<bar>k\<bar> < 2 ^ 53 \<Longrightarrow> fl x \<le> of_int k"
  using fl_mono[of x "of_int k"] by simp

section \<open>The interface of a rounding function\<close>

text \<open>The relative error of one rounding is at most 2 to the -53.\<close>

lemma rne_error: "of_int (rne q) \<le> q + 1 / 2"
  by (auto simp: rne_def Let_def) linarith+

lemma fl_upper:
  assumes "0 \<le> x"
  shows "fl x \<le> x * (1 + 1 / 2 ^ 53)"
proof (cases "x = 0")
  case False
  with assms have x: "0 < x" by simp
  define u :: rat where "u = 2 powi (flog2 x - 52)"
  have u: "0 < u" by (simp add: u_def)
  have "2 powi flog2 x = u * 2 ^ 52"
    using power_int_add[of "2::rat" "flog2 x - 52" 52] by (simp add: u_def)
  then have ux: "u * 2 ^ 52 \<le> x" using flog2_bounds(1)[OF x] by simp
  have "fl x = of_int (rne (x / u)) * u" by (simp add: fl_pos_eq[OF x] fl_pos_def u_def Let_def)
  also have "\<dots> \<le> (x / u + 1 / 2) * u" using rne_error[of "x / u"] u by (intro mult_right_mono) auto
  also have "\<dots> = x + u / 2" using u by (simp add: field_simps)
  also have "\<dots> \<le> x * (1 + 1 / 2 ^ 53)" using ux by (simp add: field_simps)
  finally show ?thesis .
qed simp

text \<open>
  What the clients use of rounding: it is monotone, keeps zero and keeps every
  integer below 2 to the 53. Sums of integer-valued weights are then exact, and sums
  of non-negative weights never decrease.
\<close>

locale rounding =
  fixes rnd :: "rat \<Rightarrow> rat"
  assumes rnd_mono: "x \<le> y \<Longrightarrow> rnd x \<le> rnd y"
    and rnd_int: "\<bar>k\<bar> < 2 ^ 53 \<Longrightarrow> rnd (of_int k) = of_int k"
begin

lemma rnd_zero: "rnd 0 = 0"
  using rnd_int[of 0] by simp

lemma rnd_nonneg: "0 \<le> x \<Longrightarrow> 0 \<le> rnd x"
  using rnd_mono[of 0 x] by (simp add: rnd_zero)

lemma rnd_le_int: "x \<le> of_int k \<Longrightarrow> \<bar>k\<bar> < 2 ^ 53 \<Longrightarrow> rnd x \<le> of_int k"
  using rnd_mono[of x "of_int k"] by (simp add: rnd_int)

lemma rnd_ge_int: "of_int k \<le> x \<Longrightarrow> \<bar>k\<bar> < 2 ^ 53 \<Longrightarrow> of_int k \<le> rnd x"
  using rnd_mono[of "of_int k" x] by (simp add: rnd_int)

lemma rnd_sum_of_int:
  "\<lbrakk>\<And>k. k \<in> set ks \<Longrightarrow> 0 \<le> k; 0 \<le> a; a + sum_list ks < 2 ^ 53\<rbrakk> \<Longrightarrow>
    fold (\<lambda>k acc. rnd (acc + of_int k)) ks (of_int a) = of_int (a + sum_list ks)"
proof (induction ks arbitrary: a)
  case Nil
  then show ?case by simp
next
  case (Cons k ks)
  have nn: "0 \<le> sum_list ks" using Cons.prems(1) by (intro sum_list_nonneg) auto
  have k: "0 \<le> k" using Cons.prems(1) by simp
  have step: "rnd (of_int a + of_int k) = of_int (a + k)"
    using rnd_int[of "a + k"] Cons.prems(2,3) nn k by simp
  show ?case
    using Cons.IH[of "a + k"] Cons.prems k by (simp add: step add.assoc)
qed

end

interpretation double: rounding fl
  by unfold_locales (auto simp: fl_mono)

section \<open>Numbers with the special values\<close>

datatype jsnum = Fin rat | NegZero | NaN | PosInf | NegInf

text \<open>The order of the finite values and infinities; a comparison with \<open>NaN\<close> is false.\<close>

fun js_less :: "jsnum \<Rightarrow> jsnum \<Rightarrow> bool" where
  "js_less NaN _ = False"
| "js_less _ NaN = False"
| "js_less NegInf y = (y \<noteq> NegInf)"
| "js_less _ NegInf = False"
| "js_less PosInf _ = False"
| "js_less _ PosInf = True"
| "js_less (Fin x) (Fin y) = (x < y)"
| "js_less (Fin x) NegZero = (x < 0)"
| "js_less NegZero (Fin y) = (0 < y)"
| "js_less NegZero NegZero = False"

fun js_num_eq :: "jsnum \<Rightarrow> jsnum \<Rightarrow> bool" where
  "js_num_eq NaN _ = False"
| "js_num_eq _ NaN = False"
| "js_num_eq (Fin x) NegZero = (x = 0)"
| "js_num_eq NegZero (Fin y) = (y = 0)"
| "js_num_eq x y = (x = y)"

definition js_le :: "jsnum \<Rightarrow> jsnum \<Rightarrow> bool" where
  "js_le x y \<longleftrightarrow> js_less x y \<or> js_num_eq x y"

lemma js_less_trans: "js_less x y \<Longrightarrow> js_less y z \<Longrightarrow> js_less x z"
  by (cases x; cases y; cases z) auto

lemma js_less_irrefl [simp]: "\<not> js_less x x"
  by (cases x) auto

lemma js_trichotomy: "x \<noteq> NaN \<Longrightarrow> y \<noteq> NaN \<Longrightarrow> js_less x y \<or> js_num_eq x y \<or> js_less y x"
  by (cases x; cases y) auto

lemma js_less_asym: "js_less x y \<Longrightarrow> \<not> js_le y x"
  unfolding js_le_def by (cases x; cases y) auto

lemma js_le_NaN [simp]: "\<not> js_le NaN x" "\<not> js_le x NaN"
  by (cases x; simp add: js_le_def)+

end
