(* ===== verification/Prelude.thy ===== *)
theory Prelude
  imports JsNumber "HOL-Library.AList" "HOL-Library.Char_ord" "HOL-Library.List_Lexorder"
    "HOL-Library.Sublist"
begin

text \<open>
  Shared vocabulary of the development.

  A \<open>string\<close> stands for a JavaScript string whose code units are at most 255: length,
  equality and the order \<open><\<close> are then those of JavaScript, and \<open>utf8\<close> is what
  \<open>TextEncoder\<close> produces for it. Times are integers (milliseconds). A \<open>Map\<close> of the
  program whose order of insertion matters is an association list with \<open>AList.update\<close>
  (in place, or appended) and \<open>AList.delete\<close>; one whose order does not matter is a
  function to \<open>option\<close>. A call that can throw returns a sum, \<open>Inl\<close> for the error.
\<close>

section \<open>Collections of facts\<close>

named_theorems store_simps \<open>laws of the key-value stores\<close>
named_theorems step_defs \<open>definitions of handlers and steps\<close>

type_synonym ms = int
type_synonym ('k, 'v) jsmap = "('k \<times> 'v) list"

section \<open>Strings\<close>

definition quoted :: "string \<Rightarrow> string" where
  "quoted s = CHR 0x22 # s @ [CHR 0x22]"

definition utf8_char :: "char \<Rightarrow> nat list" where
  "utf8_char c = (let n = of_char c in if n < 128 then [n] else [192 + n div 64, 128 + n mod 64])"

definition utf8 :: "string \<Rightarrow> nat list" where
  "utf8 s = concat (map utf8_char s)"

fun show_nat :: "nat \<Rightarrow> string" where
  "show_nat n = (if n < 10 then [char_of (48 + n)] else show_nat (n div 10) @ [char_of (48 + n mod 10)])"

declare show_nat.simps [simp del]

text \<open>The last element of a list of words joined by a separator, as \<open>join\<close> does.\<close>

fun join :: "string \<Rightarrow> string list \<Rightarrow> string" where
  "join sep [] = []"
| "join sep [w] = w"
| "join sep (w # ws) = w @ sep @ join sep ws"

lemma append_sep_cancel:
  "\<lbrakk>a @ s # b = a' @ s # b'; s \<notin> set a; s \<notin> set a'\<rbrakk> \<Longrightarrow> a = a' \<and> b = b'"
  by (induction a arbitrary: a') (auto simp: Cons_eq_append_conv append_eq_Cons_conv)

section \<open>Options and errors\<close>

text \<open>\<open>x ?? d\<close>: the value unless it is null or undefined.\<close>

abbreviation nullish :: "'a option \<Rightarrow> 'a \<Rightarrow> 'a" where
  "nullish x d \<equiv> case_option d (\<lambda>v. v) x"

text \<open>Running a call that may throw and continuing with its value.\<close>

definition ebind :: "'e + 'a \<Rightarrow> ('a \<Rightarrow> 'e + 'b) \<Rightarrow> 'e + 'b" where
  "ebind r k = (case r of Inl e \<Rightarrow> Inl e | Inr v \<Rightarrow> k v)"

lemma ebind_simps [simp]: "ebind (Inl e) k = Inl e" "ebind (Inr v) k = k v"
  by (simp_all add: ebind_def)

lemma ebind_eq_Inr: "ebind r k = Inr w \<longleftrightarrow> (\<exists>v. r = Inr v \<and> k v = Inr w)"
  by (cases r) auto

lemma ebind_eq_Inl: "ebind r k = Inl e \<longleftrightarrow> r = Inl e \<or> (\<exists>v. r = Inr v \<and> k v = Inl e)"
  by (cases r) auto

text \<open>A throwing function mapped over a list: the first error wins.\<close>

fun emap :: "('a \<Rightarrow> 'e + 'b) \<Rightarrow> 'a list \<Rightarrow> 'e + 'b list" where
  "emap f [] = Inr []"
| "emap f (x # xs) = ebind (f x) (\<lambda>y. ebind (emap f xs) (\<lambda>ys. Inr (y # ys)))"

lemma emap_eq_Inr: "emap f xs = Inr ys \<longleftrightarrow> list_all2 (\<lambda>x y. f x = Inr y) xs ys"
  by (induction xs arbitrary: ys) (auto simp: ebind_eq_Inr list_all2_Cons1)

lemma emap_Inr_iff: "(\<exists>ys. emap f xs = Inr ys) \<longleftrightarrow> (\<forall>x\<in>set xs. \<exists>y. f x = Inr y)"
  by (induction xs) (auto simp: ebind_eq_Inr)

lemma emap_cong [fundef_cong]:
  "xs = ys \<Longrightarrow> (\<And>x. x \<in> set ys \<Longrightarrow> f x = g x) \<Longrightarrow> emap f xs = emap g ys"
  by (induction ys arbitrary: xs) auto

section \<open>Maps in order of insertion\<close>

lemma map_of_update: "map_of (AList.update k v m) = (map_of m)(k \<mapsto> v)"
  by (rule AList.update_conv')

lemma map_of_delete: "map_of (AList.delete k m) = (map_of m)(k := None)"
  by (rule AList.delete_conv')

lemma length_update_le: "length (AList.update k v m) \<le> Suc (length m)"
  by (induction m) auto

lemma map_of_eq_None: "map_of m k = None \<longleftrightarrow> k \<notin> fst ` set m"
  by (rule map_of_eq_None_iff)

lemma update_fresh: "k \<notin> fst ` set m \<Longrightarrow> AList.update k v m = m @ [(k, v)]"
  by (induction m) auto

lemma keys_delete: "fst ` set (AList.delete k m) = fst ` set m - {k}"
  by (simp add: AList.delete_eq image_def) force

lemma delete_absent: "k \<notin> fst ` set m \<Longrightarrow> AList.delete k m = m"
  by (simp add: AList.delete_eq filter_id_conv) force

text \<open>\<open>m.delete(k); m.set(k, v)\<close>: the entry moves to the most recently used end.\<close>

definition move_to_end :: "'k \<Rightarrow> 'v \<Rightarrow> ('k, 'v) jsmap \<Rightarrow> ('k, 'v) jsmap" where
  "move_to_end k v m = AList.update k v (AList.delete k m)"

lemma move_to_end_append: "move_to_end k v m = AList.delete k m @ [(k, v)]"
  unfolding move_to_end_def by (rule update_fresh) (simp add: keys_delete)

lemma map_of_move_to_end [simp]: "map_of (move_to_end k v m) = (map_of m)(k \<mapsto> v)"
  by (simp add: move_to_end_def map_of_update map_of_delete)

lemma distinct_move_to_end [simp]:
  "distinct (map fst m) \<Longrightarrow> distinct (map fst (move_to_end k v m))"
  by (simp add: move_to_end_def AList.distinct_update AList.distinct_delete)

lemma move_to_end_not_Nil [simp]: "move_to_end k v m \<noteq> []"
  by (simp add: move_to_end_append)

lemma length_delete: "distinct (map fst m) \<Longrightarrow>
    length (AList.delete k m) = (if k \<in> fst ` set m then length m - 1 else length m)"
proof (induction m)
  case (Cons p m)
  then show ?case
    by (cases p) (auto simp: AList.delete_eq delete_absent[unfolded AList.delete_eq]
      dest: length_pos_if_in_set intro!: Suc_pred)
qed simp

lemma length_move_to_end: "distinct (map fst m) \<Longrightarrow>
    length (move_to_end k v m) = (if k \<in> fst ` set m then length m else Suc (length m))"
  by (auto simp: move_to_end_append length_delete dest: length_pos_if_in_set)

text \<open>\<open>[...new Set(xs)]\<close>: the first occurrence of each element, in order.\<close>

definition remdups_first :: "'a list \<Rightarrow> 'a list" where
  "remdups_first xs = rev (remdups (rev xs))"

lemma set_remdups_first [simp]: "set (remdups_first xs) = set xs"
  by (simp add: remdups_first_def)

lemma distinct_remdups_first [simp]: "distinct (remdups_first xs)"
  by (simp add: remdups_first_def)

lemma remdups_first_distinct: "distinct xs \<Longrightarrow> remdups_first xs = xs"
  by (simp add: remdups_first_def distinct_remdups_id)

section \<open>A key-value store\<close>

text \<open>
  The contract of every storage the code reads and writes by key: a write is read back,
  a deleted key is absent, and no operation touches another key.
\<close>

locale kv_store =
  fixes get :: "'s \<Rightarrow> 'k \<Rightarrow> 'v option"
    and put :: "'k \<Rightarrow> 'v \<Rightarrow> 's \<Rightarrow> 's"
    and del :: "'k \<Rightarrow> 's \<Rightarrow> 's"
  assumes get_put: "get (put k v s) j = (if j = k then Some v else get s j)"
    and get_del: "get (del k s) j = (if j = k then None else get s j)"
begin

lemma put_overwrites: "get (put k v (put k w s)) = get (put k v s)"
  by (auto simp: get_put)

lemma del_idem: "get (del k (del k s)) = get (del k s)"
  by (auto simp: get_del)

lemma put_comm: "j \<noteq> k \<Longrightarrow> get (put j v (put k w s)) = get (put k w (put j v s))"
  by (auto simp: get_put)

end

interpretation fun_store: kv_store "\<lambda>m. m" "\<lambda>k v m. m(k \<mapsto> v)" "\<lambda>k m. m(k := None)"
  by unfold_locales auto

interpretation alist_store: kv_store map_of AList.update AList.delete
  by unfold_locales (auto simp: map_of_update map_of_delete)

section \<open>Invariants of state machines\<close>

inductive reaches :: "('s \<Rightarrow> 's \<Rightarrow> bool) \<Rightarrow> 's \<Rightarrow> 's \<Rightarrow> bool" for step where
  here: "reaches step s s"
| there: "reaches step s t \<Longrightarrow> step t u \<Longrightarrow> reaches step s u"

lemma reaches_trans: "reaches step s t \<Longrightarrow> reaches step t u \<Longrightarrow> reaches step s u"
  by (rotate_tac, induction rule: reaches.induct) (auto intro: reaches.intros)

text \<open>
  An invariant holds at the start and is kept by every step; then it holds in every
  reachable state, and anything that grows along steps has grown along a whole run.
\<close>

locale machine =
  fixes step :: "'s \<Rightarrow> 's \<Rightarrow> bool" and inv :: "'s \<Rightarrow> bool"
  assumes inv_step: "inv s \<Longrightarrow> step s t \<Longrightarrow> inv t"
begin

lemma inv_reaches: "reaches step s t \<Longrightarrow> inv s \<Longrightarrow> inv t"
  by (induction rule: reaches.induct) (auto intro: inv_step)

lemma mono_reaches:
  assumes "\<And>s t. inv s \<Longrightarrow> step s t \<Longrightarrow> R s t" "\<And>s. R s s" "\<And>s t u. R s t \<Longrightarrow> R t u \<Longrightarrow> R s u"
  shows "reaches step s t \<Longrightarrow> inv s \<Longrightarrow> R s t"
proof (induction rule: reaches.induct)
  case (here s)
  show ?case by (rule assms(2))
next
  case (there s t u)
  then have "inv t" by (blast intro: inv_reaches)
  with there show ?case by (blast intro: assms)
qed

end

end
