(* ===== verification/Bucketing.thy ===== *)
theory Bucketing
  imports Prelude "HOL-Library.Word"
begin

text \<open>
  The deterministic bucketing of \<open>packages/evaluation-core/src/hash.ts\<close> and
  \<open>assignment.ts\<close>: FNV-1a over the UTF-8 bytes, an avalanche mix, the point in
  \<open>[0, 1)\<close>, and the walk over the cumulative weights. The hash is a 32-bit word, so
  \<open>Math.imul\<close> and \<open>>>> 0\<close> are word multiplication; the point is a rational; the
  running sum of the weights is rounded by \<open>fl\<close> at each addition.
\<close>

unbundle bit_operations_syntax

section \<open>The hash\<close>

definition FNV_OFFSET_BASIS :: "32 word" where "FNV_OFFSET_BASIS = 0x811c9dc5"
definition FNV_PRIME :: "32 word" where "FNV_PRIME = 0x01000193"
definition MIX_1 :: "32 word" where "MIX_1 = 0x7feb352d"
definition MIX_2 :: "32 word" where "MIX_2 = 0x846ca68b"
definition UINT32_SPACE :: rat where "UINT32_SPACE = 0x100000000"

definition mix32 :: "32 word \<Rightarrow> 32 word" where
  "mix32 v = (let
     h = v XOR drop_bit 16 v;
     h = h * MIX_1;
     h = h XOR drop_bit 15 h;
     h = h * MIX_2
   in h XOR drop_bit 16 h)"

definition fnv_step :: "nat \<Rightarrow> 32 word \<Rightarrow> 32 word" where
  "fnv_step b h = (h XOR of_nat b) * FNV_PRIME"

definition hashToUnitInterval :: "string \<Rightarrow> rat" where
  "hashToUnitInterval s = of_nat (unat (mix32 (fold fnv_step (utf8 s) FNV_OFFSET_BASIS))) / UINT32_SPACE"

lemma hash_unit_interval: "0 \<le> hashToUnitInterval s \<and> hashToUnitInterval s < 1"
proof -
  define n where "n = unat (mix32 (fold fnv_step (utf8 s) FNV_OFFSET_BASIS))"
  have "n < 2 ^ 32" unfolding n_def using unsigned_less[of "mix32 _", where 'a = nat] by simp
  then have "(of_nat n :: rat) < of_nat (2 ^ 32)" by (simp only: of_nat_less_iff)
  then show ?thesis
    by (simp add: hashToUnitInterval_def UINT32_SPACE_def flip: n_def)
qed

text \<open>
  The division and the scaling to 100 are exact in doubles, so the model needs no
  rounding for the point.
\<close>

lemma hash_point_exact:
  "fl (hashToUnitInterval s) = hashToUnitInterval s"
  "fl (hashToUnitInterval s * 100) = hashToUnitInterval s * 100"
proof -
  define n where "n = unat (mix32 (fold fnv_step (utf8 s) FNV_OFFSET_BASIS))"
  have n: "n < 2 ^ 32" unfolding n_def using unsigned_less[of "mix32 _", where 'a = nat] by simp
  have h: "hashToUnitInterval s = of_int (int n) * 2 powi (- 32)"
    by (simp add: hashToUnitInterval_def n_def UINT32_SPACE_def power_int_minus field_simps)
  show "fl (hashToUnitInterval s) = hashToUnitInterval s"
    unfolding h by (rule fl_exact) (use n in simp)
  have "hashToUnitInterval s * 100 = of_int (int (n * 100)) * 2 powi (- 32)"
    by (simp add: h)
  moreover have "fl (of_int (int (n * 100)) * 2 powi (- 32)) = of_int (int (n * 100)) * 2 powi (- 32)"
    by (rule fl_exact) (use n in simp)
  ultimately show "fl (hashToUnitInterval s * 100) = hashToUnitInterval s * 100" by (simp only:)
qed

section \<open>Fractional evaluation\<close>

record share =
  variantName :: string
  weight :: rat

type_synonym rollout = "share list"

text \<open>The loop over the shares, with the running sum and the last name seen.\<close>

fun pick_share :: "rat \<Rightarrow> rat \<Rightarrow> string \<Rightarrow> rollout \<Rightarrow> string" where
  "pick_share point cumulative lastName [] = lastName"
| "pick_share point cumulative lastName (sh # shs) =
     (let cumulative = fl (cumulative + weight sh) in
      if point < cumulative then variantName sh
      else pick_share point cumulative (variantName sh) shs)"

definition hash_point :: "string \<Rightarrow> string \<Rightarrow> rat" where
  "hash_point salt targetingKey = hashToUnitInterval (salt @ '':'' @ targetingKey) * 100"

definition fractionalEval :: "string \<Rightarrow> string \<Rightarrow> rollout \<Rightarrow> string" where
  "fractionalEval salt targetingKey ro = pick_share (hash_point salt targetingKey) 0 [] ro"

definition assign :: "string \<Rightarrow> (string, rat) jsmap \<Rightarrow> string \<Rightarrow> string" where
  "assign salt allocation targetingKey =
     fractionalEval salt targetingKey
       (map (\<lambda>(n, w). \<lparr>variantName = n, weight = w\<rparr>) (sort_key fst allocation))"

lemma hash_point_bounds: "0 \<le> hash_point salt k" "hash_point salt k < 100"
  using hash_unit_interval[of "salt @ '':'' @ k"] by (simp_all add: hash_point_def)

lemma pick_share_mem: "pick_share p c l ro \<in> insert l (variantName ` set ro)"
  by (induction p c l ro rule: pick_share.induct) (auto simp: Let_def)

lemma fractionalEval_mem: "ro \<noteq> [] \<Longrightarrow> fractionalEval salt k ro \<in> variantName ` set ro"
  using pick_share_mem[of _ "fl (0 + weight (hd ro))" "variantName (hd ro)" "tl ro"]
  by (cases ro) (auto simp: fractionalEval_def Let_def)

lemma assign_mem: "allocation \<noteq> [] \<Longrightarrow> assign salt allocation k \<in> fst ` set allocation"
proof -
  assume "allocation \<noteq> []"
  then have "sort_key fst allocation \<noteq> []" by (metis set_empty set_sort)
  then show ?thesis
    using fractionalEval_mem[of "map (\<lambda>(n, w). \<lparr>variantName = n, weight = w\<rparr>) (sort_key fst allocation)" salt k]
    unfolding assign_def by (auto simp: image_iff split_beta)
qed

text \<open>Shares of weight zero at the front take nobody.\<close>

lemma pick_share_zero: "\<lbrakk>weight sh = 0; c \<le> p; fl c = c\<rbrakk> \<Longrightarrow>
    pick_share p c l (sh # shs) = pick_share p c (variantName sh) shs"
  by (simp add: Let_def)

text \<open>
  Two shares, the second the complement of the first: the shape every percentage
  rollout has. The point decides alone.
\<close>

lemma fractionalEval_two:
  "fractionalEval salt k [\<lparr>variantName = a, weight = w\<rparr>, \<lparr>variantName = b, weight = w'\<rparr>]
     = (if hash_point salt k < fl w then a else b)"
  by (simp add: fractionalEval_def Let_def)

text \<open>
  Integer weights add up exactly, so the walk is the choice of the first share whose
  exact cumulative weight exceeds the point.
\<close>

lemma pick_share_cumulative:
  assumes "\<And>sh. sh \<in> set (take (Suc i) ro) \<Longrightarrow> weight sh = of_int (wt sh) \<and> 0 \<le> wt sh"
    and "i < length ro" and "0 \<le> c" and "c + (\<Sum>sh\<leftarrow>take (Suc i) ro. wt sh) < 2 ^ 53"
    and "of_int (c + (\<Sum>sh\<leftarrow>take i ro. wt sh)) \<le> p"
    and "p < of_int (c + (\<Sum>sh\<leftarrow>take (Suc i) ro. wt sh))"
  shows "pick_share p (of_int c) l ro = variantName (ro ! i)"
  using assms
proof (induction ro arbitrary: i c l)
  case Nil
  then show ?case by simp
next
  case (Cons sh ro)
  have w: "weight sh = of_int (wt sh)" "0 \<le> wt sh" using Cons.prems(1)[of sh] by simp_all
  have nn: "0 \<le> (\<Sum>sh\<leftarrow>take n ro. wt sh)" if "n \<le> i" for n
    using Cons.prems(1) that set_take_subset_set_take[OF that, of ro]
    by (intro sum_list_nonneg) auto
  have sum: "fl (of_int c + weight sh) = of_int (c + wt sh)"
    using Cons.prems(3,4) w nn[of i] by (simp flip: of_int_add)
  show ?case
  proof (cases i)
    case 0
    then show ?thesis using Cons.prems(6) by (simp add: sum)
  next
    case (Suc j)
    have "of_int (c + wt sh) \<le> p"
    proof -
      have "c + wt sh \<le> c + (\<Sum>sh\<leftarrow>take i (sh # ro). wt sh)" using nn[of j] Suc by simp
      then show ?thesis using Cons.prems(5) by (metis of_int_le_iff order_trans)
    qed
    then have "\<not> p < of_int (c + wt sh)" by simp
    moreover have "pick_share p (of_int (c + wt sh)) (variantName sh) ro = variantName (ro ! j)"
      using Cons.prems Suc w by (intro Cons.IH) (auto simp: add.assoc)
    ultimately show ?thesis using Suc by (simp add: sum Let_def del: of_int_add)
  qed
qed

end
