(* ===== verification/Json.thy ===== *)
theory Json
  imports Prelude "HOL-Library.Multiset"
begin

text \<open>
  JavaScript values: what \<open>JSON.parse\<close> returns and what the parse functions of the program
  take as \<open>unknown\<close>. An object is the list of its own enumerable properties, in order.
  \<open>JInherited\<close> is a member found on \<open>Object.prototype\<close>; no parsed document holds one.
\<close>

datatype jsval = Undefined | Null | JBool bool | JNum jsnum | JStr string
  | JArr "jsval list" | JObj "(string \<times> jsval) list" | JInherited string

definition is_array :: "jsval \<Rightarrow> bool" where
  "is_array v = (case v of JArr _ \<Rightarrow> True | _ \<Rightarrow> False)"

text \<open>\<open>typeof v === "object" && v !== null\<close>, and the same without the arrays.\<close>

fun is_object :: "jsval \<Rightarrow> bool" where
  "is_object (JArr _) = True"
| "is_object (JObj _) = True"
| "is_object _ = False"

fun is_record :: "jsval \<Rightarrow> bool" where
  "is_record (JObj _) = True"
| "is_record _ = False"

text \<open>
  \<open>v.k\<close> for a name \<open>k\<close> that no prototype defines, and \<open>Object.keys(v)\<close>.
\<close>

fun jprop :: "jsval \<Rightarrow> string \<Rightarrow> jsval" where
  "jprop (JObj ps) k = (case map_of ps k of None \<Rightarrow> Undefined | Some v \<Rightarrow> v)"
| "jprop _ k = Undefined"

fun own_keys :: "jsval \<Rightarrow> string list" where
  "own_keys (JObj ps) = map fst ps"
| "own_keys (JArr vs) = map show_nat [0..<length vs]"
| "own_keys _ = []"

text \<open>Both \<open>assertExactKeys\<close> and \<open>hasExactKeys\<close> compare the sorted key lists.\<close>

definition exact_keys :: "jsval \<Rightarrow> string list \<Rightarrow> bool" where
  "exact_keys v expected \<longleftrightarrow> sort (own_keys v) = sort expected"

lemma exact_keys_refl: "mset (map fst ps) = mset expected \<Longrightarrow> exact_keys (JObj ps) expected"
  unfolding exact_keys_def by (metis mset_sort own_keys.simps(1) properties_for_sort sorted_sort)

lemma exact_keys_mem: "exact_keys v expected \<Longrightarrow> set (own_keys v) = set expected"
  unfolding exact_keys_def by (metis set_sort)

text \<open>White space as \<open>String.prototype.trim\<close> removes it, within the modelled code units.\<close>

definition js_space :: "char \<Rightarrow> bool" where
  "js_space c \<longleftrightarrow> (of_char c :: nat) \<in> {9, 10, 11, 12, 13, 32, 160}"

definition trim :: "string \<Rightarrow> string" where
  "trim s = rev (dropWhile js_space (rev (dropWhile js_space s)))"

lemma trim_empty_iff: "trim s = [] \<longleftrightarrow> list_all js_space s"
proof -
  have "trim s = [] \<longleftrightarrow> (\<forall>x\<in>set (dropWhile js_space s). js_space x)"
    by (simp add: trim_def)
  also have "\<dots> \<longleftrightarrow> dropWhile js_space s = []"
    using hd_dropWhile[of js_space s] by (metis hd_in_set list.set_cases equals0D set_empty)
  finally show ?thesis by (simp add: list_all_iff)
qed

text \<open>A key of the decimal digits only, as the patterns of the program test, and its \<open>Number\<close> value.\<close>

definition is_digit :: "char \<Rightarrow> bool" where
  "is_digit c \<longleftrightarrow> 48 \<le> (of_char c :: nat) \<and> (of_char c :: nat) \<le> 57"

definition read_nat :: "string \<Rightarrow> nat" where
  "read_nat s = foldl (\<lambda>n c. 10 * n + (of_char c - 48)) 0 s"

lemma read_nat_snoc: "read_nat (s @ [c]) = 10 * read_nat s + (of_char c - 48)"
  by (simp add: read_nat_def)

lemma read_show_nat [simp]: "read_nat (show_nat n) = n"
proof (induction n rule: show_nat.induct)
  case (1 n)
  show ?case
  proof (cases "n < 10")
    case True
    then have "(of_char (char_of (48 + n) :: char) :: nat) = 48 + n" by simp
    then show ?thesis using True by (simp add: show_nat.simps[of n] read_nat_def)
  next
    case False
    then show ?thesis using 1 by (simp add: show_nat.simps[of n] read_nat_snoc)
  qed
qed

lemma show_nat_digits: "list_all is_digit (show_nat n)"
proof (induction n rule: show_nat.induct)
  case (1 n)
  have "is_digit (char_of (48 + n mod 10))" "n < 10 \<Longrightarrow> is_digit (char_of (48 + n))"
    by (simp_all add: is_digit_def)
  with 1 show ?case by (subst show_nat.simps) auto
qed

lemma show_nat_not_Nil [simp]: "show_nat n \<noteq> []"
  by (subst show_nat.simps) simp

lemma show_nat_inj: "show_nat a = show_nat b \<Longrightarrow> a = b"
  by (metis read_show_nat)

text \<open>A string as \<open>JSON.stringify\<close> writes it.\<close>

definition hex_digit :: "nat \<Rightarrow> char" where
  "hex_digit n = (if n < 10 then char_of (48 + n) else char_of (87 + n))"

definition json_char :: "char \<Rightarrow> string" where
  "json_char c = (let n = of_char c :: nat in
     if c = CHR 0x22 then [CHR 0x5C, CHR 0x22]
     else if c = CHR 0x5C then [CHR 0x5C, CHR 0x5C]
     else if n = 8 then [CHR 0x5C, CHR ''b'']
     else if n = 9 then [CHR 0x5C, CHR ''t'']
     else if n = 10 then [CHR 0x5C, CHR ''n'']
     else if n = 12 then [CHR 0x5C, CHR ''f'']
     else if n = 13 then [CHR 0x5C, CHR ''r'']
     else if n < 32 then CHR 0x5C # ''u00'' @ [hex_digit (n div 16), hex_digit (n mod 16)]
     else [c])"

definition json_string :: "string \<Rightarrow> string" where
  "json_string s = quoted (concat (map json_char s))"

text \<open>Reading one escaped character back; the escapes form a prefix code.\<close>

definition unhex :: "char \<Rightarrow> nat" where
  "unhex c = (let n = of_char c in if n < 58 then n - 48 else n - 87)"

fun read_char :: "string \<Rightarrow> (char \<times> string) option" where
  "read_char [] = None"
| "read_char (c # s) =
     (if c \<noteq> CHR 0x5C then Some (c, s)
      else case s of
          [] \<Rightarrow> None
        | e # t \<Rightarrow>
            if e = CHR ''u'' then Some (char_of (16 * unhex (t ! 2) + unhex (t ! 3)), drop 4 t)
            else Some (if e = CHR ''b'' then char_of (8 :: nat) else if e = CHR ''t'' then char_of (9 :: nat)
              else if e = CHR ''n'' then char_of (10 :: nat) else if e = CHR ''f'' then char_of (12 :: nat)
              else if e = CHR ''r'' then char_of (13 :: nat) else e, t))"

lemma of_char_hex_digit: "n < 16 \<Longrightarrow> of_char (hex_digit n) = (if n < 10 then 48 + n else 87 + n)"
  by (simp add: hex_digit_def)

lemma unhex_hex: "n < 16 \<Longrightarrow> unhex (hex_digit n) = n"
  using of_char_hex_digit[of n] by (simp add: unhex_def Let_def)

lemma json_char_control:
  assumes "of_char c = n" "n \<in> {8, 9, 10, 12, 13 :: nat}"
  shows "json_char c = [CHR 0x5C, if n = 8 then CHR ''b'' else if n = 9 then CHR ''t'' else if n = 10 then CHR ''n''
    else if n = 12 then CHR ''f'' else CHR ''r'']"
proof -
  have "c \<noteq> CHR 0x22" "c \<noteq> CHR 0x5C" using assms by auto
  with assms show ?thesis unfolding json_char_def Let_def by auto
qed

lemma reads_back: "json_char c \<noteq> [] \<and> hd (json_char c) \<noteq> CHR 0x22 \<and> read_char (json_char c @ x) = Some (c, x)"
proof -
  let ?n = "of_char c :: nat"
  have c: "char_of ?n = c" by simp
  consider "c = CHR 0x22 \<or> c = CHR 0x5C" | "?n \<in> {8, 9, 10, 12, 13}"
    | "?n < 32" "c \<noteq> CHR 0x22" "c \<noteq> CHR 0x5C" "?n \<noteq> 8" "?n \<noteq> 9" "?n \<noteq> 10" "?n \<noteq> 12" "?n \<noteq> 13"
    | "32 \<le> ?n" "c \<noteq> CHR 0x22" "c \<noteq> CHR 0x5C" by fastforce
  then show ?thesis
  proof cases
    case 1
    then have "json_char c = [CHR 0x5C, c]" by (auto simp: json_char_def)
    with 1 show ?thesis by auto
  next
    case 2
    note e = json_char_control[OF refl 2]
    have "c = char_of (8::nat) \<or> c = char_of (9::nat) \<or> c = char_of (10::nat) \<or> c = char_of (12::nat) \<or> c = char_of (13::nat)"
      using 2 c by (metis insert_iff singletonD)
    with 2 c show ?thesis unfolding e by (auto simp del: char_of_nat)
  next
    case 3
    have d: "?n div 16 < 16" "?n mod 16 < 16" using 3(1) by auto
    have "json_char c = CHR 0x5C # ''u00'' @ [hex_digit (?n div 16), hex_digit (?n mod 16)]"
      unfolding json_char_def Let_def using 3 by (simp only: if_False if_True)
    then show ?thesis using c by (simp add: unhex_hex[OF d(1)] unhex_hex[OF d(2)])
  next
    case 4
    then have "json_char c = [c]" unfolding json_char_def Let_def by auto
    with 4 show ?thesis by simp
  qed
qed

lemma json_char_cancel: "json_char c @ x = json_char d @ y \<Longrightarrow> c = d \<and> x = y"
  by (metis reads_back option.inject prod.inject)

lemma json_chars_cancel:
  "concat (map json_char a) @ CHR 0x22 # x = concat (map json_char b) @ CHR 0x22 # y \<Longrightarrow> a = b \<and> x = y"
proof (induction a arbitrary: b)
  case Nil
  show ?case
  proof (cases b)
    case (Cons d ds)
    with Nil reads_back[of d "[]"] show ?thesis by (cases "json_char d") auto
  qed (use Nil in simp)
next
  case (Cons c cs)
  show ?case
  proof (cases b)
    case Nil
    with Cons.prems reads_back[of c "[]"] show ?thesis by (cases "json_char c") auto
  next
    case (Cons d ds)
    then have "c = d \<and> concat (map json_char cs) @ CHR 0x22 # x = concat (map json_char ds) @ CHR 0x22 # y"
      using Cons.prems json_char_cancel[of c _ d] by simp
    with Cons Cons.IH[of ds] show ?thesis by simp
  qed
qed

lemma json_string_cancel: "json_string a @ x = json_string b @ y \<Longrightarrow> a = b \<and> x = y"
  using json_chars_cancel[of a x b y] by (simp add: json_string_def quoted_def)

end
