(* ===== verification/Conditions.thy ===== *)
theory Conditions
  imports Json
begin

text \<open>
  Targeting Conditions, \<open>packages/evaluation-core/src/conditions.ts\<close> and the leaf
  schemas of \<open>packages/contracts/src/leaf-schemas-flag.ts\<close>. Attribute values are
  dynamically typed, so they are the JavaScript values of \<open>Json\<close>. The regular expression
  engine is a parameter \<open>rx\<close> of the matcher: \<open>rx pattern subject\<close> is \<open>None\<close> when
  \<open>new RegExp(pattern)\<close> throws, else the result of \<open>test\<close>. Logging is not modelled.
\<close>

section \<open>Values\<close>

text \<open>
  \<open>Object.is\<close>: numbers and strings by value, arrays and objects by identity. The
  attributes of a request and the stored Conditions never share an array or an object,
  so two of them are never identical.
\<close>

fun object_is :: "jsval \<Rightarrow> jsval \<Rightarrow> bool" where
  "object_is Undefined Undefined = True"
| "object_is Null Null = True"
| "object_is (JBool a) (JBool b) = (a = b)"
| "object_is (JNum a) (JNum b) = (a = b)"
| "object_is (JStr a) (JStr b) = (a = b)"
| "object_is _ _ = False"

datatype condition_operator = Eq | Neq | Gt | Lt | Gte | Lte | In | NotIn | Matches | NotMatches

record condition =
  attribute :: string
  operator :: condition_operator
  "value" :: jsval

record evaluation_context =
  targetingKey :: string
  idType :: string
  attributes :: "string \<rightharpoonup> jsval"

text \<open>The operators \<open>in\<close> and \<open>not_in\<close> require an array; the schema refinement.\<close>

fun scalar_condition_value :: "jsval \<Rightarrow> bool" where
  "scalar_condition_value (JBool _) = True"
| "scalar_condition_value (JStr _) = True"
| "scalar_condition_value (JNum n) = (n \<notin> {NaN, PosInf, NegInf})"
| "scalar_condition_value _ = False"

definition condition_schema :: "condition \<Rightarrow> bool" where
  "condition_schema c \<longleftrightarrow>
     (case value c of JArr vs \<Rightarrow> list_all scalar_condition_value vs | v \<Rightarrow> scalar_condition_value v) \<and>
     (operator c \<in> {In, NotIn} \<longrightarrow> is_array (value c))"

section \<open>Matching\<close>

datatype condition_error = NoConditions | InvalidRegex

text \<open>
  The attribute bag is a plain object, so \<open>context.attributes[attribute]\<close> also finds what
  the object inherits: reading one of these names without an own attribute gives a
  built-in function (or the prototype itself), written \<open>JInherited\<close>, not \<open>undefined\<close>.
\<close>

definition object_prototype_members :: "string list" where
  "object_prototype_members =
     [''constructor'', ''__defineGetter__'', ''__defineSetter__'', ''hasOwnProperty'',
      ''__lookupGetter__'', ''__lookupSetter__'', ''isPrototypeOf'', ''propertyIsEnumerable'',
      ''toString'', ''valueOf'', ''__proto__'', ''toLocaleString'']"

text \<open>The two own attributes come first; a missing attribute and \<open>undefined\<close> read as null.\<close>

definition contextValue :: "evaluation_context \<Rightarrow> string \<Rightarrow> jsval" where
  "contextValue ctx a =
     (if a = ''targetingKey'' then JStr (targetingKey ctx)
      else if a = ''idType'' then JStr (idType ctx)
      else case attributes ctx a of
          None \<Rightarrow> if a \<in> set object_prototype_members then JInherited a else Null
        | Some Undefined \<Rightarrow> Null | Some v \<Rightarrow> v)"

definition comparableValues :: "jsval \<Rightarrow> jsval list" where
  "comparableValues v = (case v of JArr vs \<Rightarrow> vs | _ \<Rightarrow> [v])"

definition anyEquals :: "jsval \<Rightarrow> jsval \<Rightarrow> bool" where
  "anyEquals actual expected = list_ex (\<lambda>v. object_is v expected) (comparableValues actual)"

definition intersects :: "jsval \<Rightarrow> jsval list \<Rightarrow> bool" where
  "intersects actual expected =
     list_ex (\<lambda>a. list_ex (object_is a) expected) (comparableValues actual)"

definition compareNumbers :: "jsval \<Rightarrow> jsval \<Rightarrow> (jsnum \<Rightarrow> jsnum \<Rightarrow> bool) \<Rightarrow> bool" where
  "compareNumbers actual expected p =
     (case (actual, expected) of (JNum a, JNum b) \<Rightarrow> p a b | _ \<Rightarrow> False)"

definition matchesRegex ::
  "(string \<Rightarrow> string \<Rightarrow> bool option) \<Rightarrow> jsval \<Rightarrow> jsval \<Rightarrow> condition_error + bool" where
  "matchesRegex rx actual expected =
     (case (actual, expected) of
        (JStr a, JStr e) \<Rightarrow> (case rx e a of None \<Rightarrow> Inl InvalidRegex | Some b \<Rightarrow> Inr b)
      | _ \<Rightarrow> Inr False)"

definition matchesCondition ::
  "(string \<Rightarrow> string \<Rightarrow> bool option) \<Rightarrow> condition \<Rightarrow> evaluation_context \<Rightarrow> condition_error + bool"
where
  "matchesCondition rx c ctx = (let actual = contextValue ctx (attribute c) in
     if actual = Null \<or> actual = Undefined then Inr False
     else case operator c of
       Eq \<Rightarrow> Inr (anyEquals actual (value c))
     | Neq \<Rightarrow> Inr (\<not> anyEquals actual (value c))
     | Gt \<Rightarrow> Inr (compareNumbers actual (value c) (\<lambda>a b. js_less b a))
     | Lt \<Rightarrow> Inr (compareNumbers actual (value c) js_less)
     | Gte \<Rightarrow> Inr (compareNumbers actual (value c) (\<lambda>a b. js_le b a))
     | Lte \<Rightarrow> Inr (compareNumbers actual (value c) js_le)
     | In \<Rightarrow> Inr (case value c of JArr vs \<Rightarrow> intersects actual vs | _ \<Rightarrow> False)
     | NotIn \<Rightarrow> Inr (case value c of JArr vs \<Rightarrow> \<not> intersects actual vs | _ \<Rightarrow> False)
     | Matches \<Rightarrow> matchesRegex rx actual (value c)
     | NotMatches \<Rightarrow> ebind (matchesRegex rx actual (value c)) (\<lambda>b. Inr (\<not> b)))"

text \<open>\<open>every\<close> stops at the first Condition that does not match, so a later one cannot throw.\<close>

fun every_condition ::
  "(string \<Rightarrow> string \<Rightarrow> bool option) \<Rightarrow> condition list \<Rightarrow> evaluation_context \<Rightarrow> condition_error + bool"
where
  "every_condition rx [] ctx = Inr True"
| "every_condition rx (c # cs) ctx =
     ebind (matchesCondition rx c ctx) (\<lambda>b. if b then every_condition rx cs ctx else Inr False)"

definition matchesConditions ::
  "(string \<Rightarrow> string \<Rightarrow> bool option) \<Rightarrow> condition list \<Rightarrow> evaluation_context \<Rightarrow> condition_error + bool"
where
  "matchesConditions rx cs ctx =
     (if cs = [] then Inl NoConditions else every_condition rx cs ctx)"

section \<open>Lemmas\<close>

lemma object_is_refl_scalar: "scalar_condition_value v \<Longrightarrow> object_is v v"
  by (cases v) auto

lemma object_is_eq: "object_is a b \<Longrightarrow> a = b"
  by (cases a; cases b) auto

lemma object_is_sym: "object_is a b = object_is b a"
  by (cases a; cases b) auto

lemma anyEquals_scalar:
  "\<not> is_array v \<Longrightarrow> anyEquals v w = object_is v w"
  by (cases v) (auto simp: anyEquals_def comparableValues_def is_array_def)

lemma intersects_singleton: "intersects v [w] = anyEquals v w"
  by (simp add: intersects_def anyEquals_def)

lemma every_condition_True:
  "every_condition rx cs ctx = Inr True \<longleftrightarrow> (\<forall>c\<in>set cs. matchesCondition rx c ctx = Inr True)"
  by (induction cs) (auto simp: ebind_eq_Inr split: if_splits)

lemma every_condition_append:
  "every_condition rx (cs @ ds) ctx =
     ebind (every_condition rx cs ctx) (\<lambda>b. if b then every_condition rx ds ctx else Inr False)"
proof (induction cs)
  case (Cons c cs)
  then show ?case by (cases "matchesCondition rx c ctx") auto
qed simp

lemma matchesCondition_throws:
  "matchesCondition rx c ctx = Inl e \<Longrightarrow>
     e = InvalidRegex \<and> operator c \<in> {Matches, NotMatches} \<and>
     (\<exists>p s. value c = JStr p \<and> rx p s = None)"
  by (auto simp: matchesCondition_def matchesRegex_def Let_def ebind_eq_Inl
      split: if_splits condition_operator.splits jsval.splits option.splits)

lemma every_condition_throws:
  "every_condition rx cs ctx = Inl e \<Longrightarrow> e = InvalidRegex \<and>
     (\<exists>c\<in>set cs. \<exists>p s. operator c \<in> {Matches, NotMatches} \<and> value c = JStr p \<and> rx p s = None)"
  by (induction cs) (auto simp: ebind_eq_Inl dest!: matchesCondition_throws split: if_splits)

lemma matchesCondition_absent:
  "contextValue ctx (attribute c) \<in> {Null, Undefined} \<Longrightarrow> matchesCondition rx c ctx = Inr False"
  by (auto simp: matchesCondition_def)

text \<open>
  Complementary operators: on a present attribute exactly one of a pair matches; on an
  absent one neither does.
\<close>

definition complement_pair :: "condition_operator \<Rightarrow> condition_operator \<Rightarrow> bool" where
  "complement_pair o1 o2 \<longleftrightarrow> (o1, o2) \<in> {(Eq, Neq), (In, NotIn), (Matches, NotMatches)}"

lemma matchesCondition_complement:
  assumes "complement_pair (operator c) o2" "is_array (value c) \<or> operator c \<noteq> In"
    and "contextValue ctx (attribute c) \<notin> {Null, Undefined}"
    and "matchesCondition rx c ctx = Inr b"
  shows "matchesCondition rx (c\<lparr>operator := o2\<rparr>) ctx = Inr (\<not> b)"
  using assms
  by (auto simp: complement_pair_def matchesCondition_def Let_def is_array_def split: jsval.splits)

end
