(* ===== verification/Evaluate.thy ===== *)
theory Evaluate
  imports Bucketing Conditions
begin

text \<open>
  The evaluator of \<open>packages/evaluation-core/src\<close>: \<open>types.ts\<close>, \<open>errors.ts\<close>,
  \<open>evaluate.ts\<close> and \<open>resolution-reason.ts\<close>. The Provider and the Assignment Store
  are the interfaces the code takes as dependencies: functions that return a value or
  throw. An awaited read of either changes no state of the evaluator.
\<close>

section \<open>Configuration\<close>

record percentage_rollout =
  percentage :: rat
  salt :: string

record variant =
  variant_id :: string
  variant_name :: string
  variant_value :: jsval

record targeting_rule =
  rule_id :: string
  rule_flagId :: string
  priority :: int
  conditions :: "condition list"
  rule_variantId :: string
  percentageRollout :: "percentage_rollout option"

record run_config =
  runId :: string
  run_salt :: string
  allocation :: "(string, rat) jsmap"
  variantSet :: "variant list"
  run_targetingRules :: "targeting_rule list"
  run_targetingKey :: string
  configHash :: "string option"

record flag_config =
  flagKey :: string
  flag_appId :: string
  flag_environmentId :: string
  flag_experimentId :: "string option"
  enabled :: bool
  defaultVariant :: string
  variants :: "variant list"
  availableVariantNames :: "string list"
  flag_targetingRules :: "targeting_rule list"
  flag_rollout :: "percentage_rollout option"

datatype experiment_status = Draft | Running | Ended | Archived

record experiment_config =
  experimentId :: string
  exp_appId :: string
  exp_environmentId :: string
  targetingKeyType :: string
  status :: experiment_status
  liveRunId :: "string option"
  liveRun :: "run_config option"

record assignment_entry =
  entry_runId :: string
  entry_variant :: string

section \<open>Errors\<close>

text \<open>
  The four error classes with the fields the evaluator reads, and everything else that can
  be thrown: another \<open>Error\<close> with its message, or a value that is no \<open>Error\<close>.
\<close>

datatype stale_reason = R_ERROR | R_STALE

datatype thrown =
  AssignmentStoreError string
| ProviderError string string stale_reason
| EvaluatePathError string string
| ConditionMatchError string string
| OtherError string
| NotAnError

definition INTERNAL :: string where "INTERNAL = ''INTERNAL_SERVER_ERROR''"

definition condition_thrown :: "condition_error \<Rightarrow> thrown" where
  "condition_thrown e = (case e of
     NoConditions \<Rightarrow> ConditionMatchError ''resolved Targeting Rule has no Conditions'' INTERNAL
   | InvalidRegex \<Rightarrow> ConditionMatchError ''Invalid regex condition'' INTERNAL)"

record provider =
  getFlag :: "string \<Rightarrow> string \<Rightarrow> string \<Rightarrow> thrown + flag_config"
  getExperiment :: "string \<Rightarrow> string \<Rightarrow> string \<Rightarrow> thrown + experiment_config"
  getFlags :: "string \<Rightarrow> string \<Rightarrow> thrown + flag_config list"

record deps =
  provider_of :: provider
  getAll :: "string \<Rightarrow> string \<Rightarrow> string \<Rightarrow> thrown + (string \<rightharpoonup> assignment_entry)"
  regex :: "string \<Rightarrow> string \<Rightarrow> bool option"

record evaluate_input =
  in_appId :: string
  in_environmentId :: string
  in_flagKey :: string
  evaluationContext :: evaluation_context

section \<open>Results\<close>

record exposure_decision =
  ex_appId :: string
  ex_environmentId :: string
  ex_experimentId :: string
  ex_flagKey :: string
  ex_idType :: string
  ex_liveRunId :: string
  ex_targetingKey :: string
  ex_variant :: string

datatype result_kind = Disabled | NullExperiment | NoLiveRun | HoldoverReplay | RuleMatchDirect
  | RuleMatchPercentage | FreshAssignment | BaselineRollout | NoMatchDefault | ErrorKind

datatype rule_selection = Direct | PercentageRollout

datatype reason =
  ReasonHoldover string
| RuleMatched string int rule_selection "rollout option"
| ReasonFresh
| DefaultDisabled
| ReasonBaseline rollout
| ReasonNoMatch
| ReasonFailed stale_reason

record evaluate_result =
  kind :: result_kind
  res_variant :: "string option"
  res_reason :: reason
  res_experimentId :: "string option"
  isHoldover :: bool
  priorRunId :: "string option"
  res_liveRunId :: "string option"
  exposure_of :: "exposure_decision option"
  errorCode :: "string option"
  errorMessage :: "string option"

definition base_result :: "result_kind \<Rightarrow> string option \<Rightarrow> reason \<Rightarrow> evaluate_result" where
  "base_result k v r = \<lparr>kind = k, res_variant = v, res_reason = r, res_experimentId = None,
     isHoldover = False, priorRunId = None, res_liveRunId = None, exposure_of = None,
     errorCode = None, errorMessage = None\<rparr>"

definition exposure :: "evaluate_input \<Rightarrow> string \<Rightarrow> string \<Rightarrow> string \<Rightarrow> exposure_decision" where
  "exposure i e r v =
     \<lparr>ex_appId = in_appId i, ex_environmentId = in_environmentId i, ex_experimentId = e,
      ex_flagKey = in_flagKey i, ex_idType = idType (evaluationContext i), ex_liveRunId = r,
      ex_targetingKey = targetingKey (evaluationContext i), ex_variant = v\<rparr>"

definition defaultResult :: "result_kind \<Rightarrow> string \<Rightarrow> evaluate_result" where
  "defaultResult k v = base_result k (Some v) DefaultDisabled"

definition fresh :: "evaluate_input \<Rightarrow> string \<Rightarrow> string \<Rightarrow> string \<Rightarrow> evaluate_result" where
  "fresh i e r v = (base_result FreshAssignment (Some v) ReasonFresh)
     \<lparr>res_experimentId := Some e, res_liveRunId := Some r, exposure_of := Some (exposure i e r v)\<rparr>"

definition rolloutReason :: "string \<Rightarrow> percentage_rollout option \<Rightarrow> rollout option" where
  "rolloutReason name ro =
     map_option (\<lambda>p. [\<lparr>variantName = name, weight = percentage p\<rparr>]) ro"

definition variantNameForId :: "variant list \<Rightarrow> string \<Rightarrow> thrown + string" where
  "variantNameForId vs vid = (case find (\<lambda>v. variant_id v = vid) vs of
     None \<Rightarrow> Inl (EvaluatePathError
       (''Targeting Rule variantId '' @ quoted vid @ '' names no Variant'') INTERNAL)
   | Some v \<Rightarrow> Inr (variant_name v))"

text \<open>The error result keeps the Default Variant when the Flag had been read.\<close>

definition error_code_of :: "thrown \<Rightarrow> string" where
  "error_code_of t = (case t of AssignmentStoreError _ \<Rightarrow> INTERNAL | ProviderError _ c _ \<Rightarrow> c
     | EvaluatePathError _ c \<Rightarrow> c | ConditionMatchError _ c \<Rightarrow> c | _ \<Rightarrow> INTERNAL)"

definition error_message_of :: "thrown \<Rightarrow> string" where
  "error_message_of t = (case t of AssignmentStoreError m \<Rightarrow> m | ProviderError m _ _ \<Rightarrow> m
     | EvaluatePathError m _ \<Rightarrow> m | ConditionMatchError m _ \<Rightarrow> m | OtherError m \<Rightarrow> m
     | NotAnError \<Rightarrow> ''Evaluation failed'')"

definition errorResult :: "string option \<Rightarrow> thrown \<Rightarrow> evaluate_result" where
  "errorResult v t =
     (base_result ErrorKind v (ReasonFailed (case t of ProviderError _ _ r \<Rightarrow> r | _ \<Rightarrow> R_ERROR)))
       \<lparr>errorCode := Some (error_code_of t), errorMessage := Some (error_message_of t)\<rparr>"

section \<open>The evaluate path\<close>

definition conditions_hold :: "deps \<Rightarrow> targeting_rule \<Rightarrow> evaluation_context \<Rightarrow> thrown + bool" where
  "conditions_hold d rule ctx = (case matchesConditions (regex d) (conditions rule) ctx of
     Inl e \<Rightarrow> Inl (condition_thrown e) | Inr b \<Rightarrow> Inr b)"

definition evaluateTargetingRule ::
  "deps \<Rightarrow> evaluate_input \<Rightarrow> flag_config \<Rightarrow> string option \<Rightarrow> run_config option \<Rightarrow> targeting_rule
     \<Rightarrow> thrown + evaluate_result option" where
  "evaluateTargetingRule d i flag eid run rule =
     ebind (conditions_hold d rule (evaluationContext i)) (\<lambda>holds.
     if \<not> holds then Inr None else
     ebind (variantNameForId (variants flag) (rule_variantId rule)) (\<lambda>direct.
     let ro = percentageRollout rule;
         v = (case ro of None \<Rightarrow> direct
              | Some p \<Rightarrow> fractionalEval (salt p) (targetingKey (evaluationContext i))
                  [\<lparr>variantName = direct, weight = percentage p\<rparr>,
                   \<lparr>variantName = defaultVariant flag, weight = fl (100 - percentage p)\<rparr>])
     in Inr (Some ((base_result (if ro = None then RuleMatchDirect else RuleMatchPercentage) (Some v)
          (RuleMatched (rule_id rule) (priority rule)
             (if ro = None then Direct else PercentageRollout) (rolloutReason direct ro)))
        \<lparr>res_experimentId := eid,
         res_liveRunId := map_option runId run,
         exposure_of := (case (eid, run) of
            (Some e, Some r) \<Rightarrow> Some (exposure i e (runId r) v) | _ \<Rightarrow> None)\<rparr>))))"

text \<open>The loop over the sorted rules: the first match returns, an error stops the walk.\<close>

fun first_match ::
  "deps \<Rightarrow> evaluate_input \<Rightarrow> flag_config \<Rightarrow> string option \<Rightarrow> run_config option \<Rightarrow> targeting_rule list
     \<Rightarrow> thrown + evaluate_result option" where
  "first_match d i flag eid run [] = Inr None"
| "first_match d i flag eid run (rule # rules) =
     ebind (evaluateTargetingRule d i flag eid run rule) (\<lambda>m. case m of
       Some res \<Rightarrow> Inr (Some res) | None \<Rightarrow> first_match d i flag eid run rules)"

definition baseline_message :: "flag_config \<Rightarrow> nat \<Rightarrow> string" where
  "baseline_message flag n =
     ''FlagConfig '' @ flag_appId flag @ ''/'' @ flag_environmentId flag @ ''/'' @ flagKey flag
       @ '': a baseline rollout needs exactly one non-Default Variant to roll into, found ''
       @ show_nat n"

definition unmatchedResult ::
  "evaluate_input \<Rightarrow> flag_config \<Rightarrow> string option \<Rightarrow> thrown + evaluate_result" where
  "unmatchedResult i flag eid = (case flag_rollout flag of
     None \<Rightarrow> Inr ((base_result NoMatchDefault (Some (defaultVariant flag)) ReasonNoMatch)
       \<lparr>res_experimentId := eid\<rparr>)
   | Some ro \<Rightarrow>
     (let scope = (if availableVariantNames flag \<noteq> [] then availableVariantNames flag
                   else map variant_name (variants flag));
          candidates = filter (\<lambda>n. n \<noteq> defaultVariant flag) scope
      in case candidates of
         [target] \<Rightarrow> if target = [] then Inl (EvaluatePathError (baseline_message flag 1) INTERNAL)
           else let weights = [\<lparr>variantName = target, weight = percentage ro\<rparr>,
                     \<lparr>variantName = defaultVariant flag, weight = fl (100 - percentage ro)\<rparr>]
            in Inr ((base_result BaselineRollout
                  (Some (fractionalEval (salt ro) (targetingKey (evaluationContext i)) weights))
                  (ReasonBaseline weights))\<lparr>res_experimentId := eid\<rparr>)
       | _ \<Rightarrow> Inl (EvaluatePathError (baseline_message flag (length candidates)) INTERNAL)))"

definition evaluateFlagOnly ::
  "deps \<Rightarrow> evaluate_input \<Rightarrow> flag_config \<Rightarrow> string option \<Rightarrow> thrown + evaluate_result" where
  "evaluateFlagOnly d i flag eid =
     ebind (first_match d i flag eid None (sort_key priority (flag_targetingRules flag)))
       (\<lambda>m. case m of Some res \<Rightarrow> Inr res | None \<Rightarrow> unmatchedResult i flag eid)"

definition evaluateLiveRun ::
  "deps \<Rightarrow> evaluate_input \<Rightarrow> flag_config \<Rightarrow> string \<Rightarrow> run_config \<Rightarrow> thrown + evaluate_result" where
  "evaluateLiveRun d i flag eid run = (let rules = sort_key priority (run_targetingRules run) in
     if rules = [] then
       Inr (fresh i eid (runId run)
         (assign (run_salt run) (allocation run) (targetingKey (evaluationContext i))))
     else ebind (first_match d i flag (Some eid) (Some run) rules) (\<lambda>m. case m of
       Some res \<Rightarrow> Inr res
     | None \<Rightarrow> Inr ((base_result NoMatchDefault (Some (defaultVariant flag)) ReasonNoMatch)
         \<lparr>res_experimentId := Some eid, res_liveRunId := Some (runId run),
          exposure_of := Some (exposure i eid (runId run) (defaultVariant flag))\<rparr>)))"

text \<open>
  What happens once the enabled Flag with a controlling Experiment is known: the identity
  type check, the holdover read (an \<open>AssignmentStoreError\<close> is rethrown, any other failure
  reads as no holdovers), the replay, and the live Run or the Flag alone.
\<close>

definition holdovers :: "deps \<Rightarrow> evaluate_input \<Rightarrow> thrown + (string \<rightharpoonup> assignment_entry)" where
  "holdovers d i =
     (case getAll d (in_appId i) (idType (evaluationContext i)) (targetingKey (evaluationContext i)) of
        Inr held \<Rightarrow> Inr held
      | Inl (AssignmentStoreError m) \<Rightarrow> Inl (AssignmentStoreError m)
      | Inl _ \<Rightarrow> Inr Map.empty)"

definition holdover_result :: "assignment_entry \<Rightarrow> evaluate_result" where
  "holdover_result h =
     (base_result HoldoverReplay (Some (entry_variant h)) (ReasonHoldover (entry_runId h)))
       \<lparr>isHoldover := True, priorRunId := Some (entry_runId h)\<rparr>"

definition idtype_error :: "evaluate_input \<Rightarrow> experiment_config \<Rightarrow> thrown" where
  "idtype_error i e = EvaluatePathError
     (''Evaluation idType '' @ quoted (idType (evaluationContext i))
       @ '' does not match Experiment targetingKeyType '' @ quoted (targetingKeyType e))
     ''VALIDATION_ERROR''"

definition evaluate_experiment ::
  "deps \<Rightarrow> evaluate_input \<Rightarrow> flag_config \<Rightarrow> string \<Rightarrow> thrown + evaluate_result" where
  "evaluate_experiment d i flag eid =
     ebind (getExperiment (provider_of d) (in_appId i) (in_environmentId i) eid) (\<lambda>e.
     if idType (evaluationContext i) \<noteq> targetingKeyType e then Inl (idtype_error i e) else
     ebind (holdovers d i) (\<lambda>held. case held eid of
       Some h \<Rightarrow> Inr (holdover_result h)
     | None \<Rightarrow> (case liveRun e of
         None \<Rightarrow> evaluateFlagOnly d i flag (Some eid)
       | Some run \<Rightarrow> evaluateLiveRun d i flag eid run)))"

text \<open>The try block, and the catch that turns every throw into an error result.\<close>

definition evaluate_flag :: "deps \<Rightarrow> evaluate_input \<Rightarrow> flag_config \<Rightarrow> thrown + evaluate_result" where
  "evaluate_flag d i flag =
     (if \<not> enabled flag then Inr (defaultResult Disabled (defaultVariant flag))
      else case flag_experimentId flag of
        None \<Rightarrow> evaluateFlagOnly d i flag None
      | Some eid \<Rightarrow> evaluate_experiment d i flag eid)"

definition evaluatePath :: "deps \<Rightarrow> evaluate_input \<Rightarrow> evaluate_result" where
  "evaluatePath d i =
     (case getFlag (provider_of d) (in_appId i) (in_environmentId i) (in_flagKey i) of
        Inl t \<Rightarrow> errorResult None t
      | Inr flag \<Rightarrow> (case evaluate_flag d i flag of
          Inl t \<Rightarrow> errorResult (Some (defaultVariant flag)) t
        | Inr res \<Rightarrow> res))"

section \<open>The flat reason vocabulary\<close>

datatype resolution_reason = R_SPLIT | R_TARGETING_MATCH | R_DEFAULT | R_DISABLED | R_CACHED

definition resolutionReasonFor :: "result_kind \<Rightarrow> resolution_reason" where
  "resolutionReasonFor k =
     (if k = Disabled then R_DISABLED
      else if k = RuleMatchDirect \<or> k = RuleMatchPercentage then R_TARGETING_MATCH
      else if k = HoldoverReplay then R_CACHED
      else if k = NoMatchDefault \<or> k = NoLiveRun \<or> k = NullExperiment then R_DEFAULT
      else R_SPLIT)"

section \<open>Lemmas\<close>

lemmas result_defs = base_result_def defaultResult_def fresh_def errorResult_def holdover_result_def

lemma base_result_simps [simp]:
  "kind (base_result k v r) = k" "res_variant (base_result k v r) = v"
  "res_reason (base_result k v r) = r" "exposure_of (base_result k v r) = None"
  "res_liveRunId (base_result k v r) = None" "res_experimentId (base_result k v r) = None"
  "isHoldover (base_result k v r) = False" "priorRunId (base_result k v r) = None"
  "errorCode (base_result k v r) = None" "errorMessage (base_result k v r) = None"
  by (simp_all add: base_result_def)

text \<open>What a matched rule returns.\<close>

definition rule_result ::
  "evaluate_input \<Rightarrow> flag_config \<Rightarrow> string option \<Rightarrow> run_config option \<Rightarrow> targeting_rule \<Rightarrow> string
     \<Rightarrow> string \<Rightarrow> evaluate_result" where
  "rule_result i flag eid run rule direct v =
     (base_result (if percentageRollout rule = None then RuleMatchDirect else RuleMatchPercentage)
        (Some v) (RuleMatched (rule_id rule) (priority rule)
           (if percentageRollout rule = None then Direct else PercentageRollout)
           (rolloutReason direct (percentageRollout rule))))
      \<lparr>res_experimentId := eid, res_liveRunId := map_option runId run,
       exposure_of := (case (eid, run) of
          (Some e, Some r) \<Rightarrow> Some (exposure i e (runId r) v) | _ \<Rightarrow> None)\<rparr>"

lemma evaluateTargetingRule_Some:
  assumes "evaluateTargetingRule d i flag eid run rule = Inr (Some res)"
  shows "\<exists>direct v. res = rule_result i flag eid run rule direct v
    \<and> conditions_hold d rule (evaluationContext i) = Inr True
    \<and> variantNameForId (variants flag) (rule_variantId rule) = Inr direct
    \<and> v \<in> {direct, defaultVariant flag} \<and> (percentageRollout rule = None \<longrightarrow> v = direct)"
proof (cases "percentageRollout rule")
  case None
  with assms show ?thesis
    by (auto simp: evaluateTargetingRule_def ebind_eq_Inr Let_def rule_result_def
        cong: option.case_cong split: if_splits)
next
  case (Some p)
  with assms show ?thesis
    by (auto simp: evaluateTargetingRule_def ebind_eq_Inr Let_def rule_result_def fractionalEval_two
        cong: option.case_cong split: if_splits)
qed

lemma evaluateTargetingRule_None:
  "evaluateTargetingRule d i flag eid run rule = Inr None
     \<longleftrightarrow> conditions_hold d rule (evaluationContext i) = Inr False"
  by (auto simp: evaluateTargetingRule_def ebind_eq_Inr Let_def split: if_splits)

lemma first_match_Some:
  "first_match d i flag eid run rules = Inr (Some res) \<Longrightarrow>
     \<exists>pre rule post. rules = pre @ rule # post \<and>
       (\<forall>q\<in>set pre. conditions_hold d q (evaluationContext i) = Inr False) \<and>
       evaluateTargetingRule d i flag eid run rule = Inr (Some res)"
proof (induction rules)
  case (Cons r rules)
  from Cons.prems obtain m where m: "evaluateTargetingRule d i flag eid run r = Inr m"
    and rest: "(case m of Some res \<Rightarrow> Inr (Some res) | None \<Rightarrow> first_match d i flag eid run rules)
       = Inr (Some res)"
    by (auto simp: ebind_eq_Inr)
  show ?case
  proof (cases m)
    case (Some r')
    with m rest show ?thesis by (intro exI[of _ "[]"]) auto
  next
    case None
    with rest Cons.IH obtain pre rule post where "rules = pre @ rule # post"
      "\<forall>q\<in>set pre. conditions_hold d q (evaluationContext i) = Inr False"
      "evaluateTargetingRule d i flag eid run rule = Inr (Some res)" by auto
    with None m show ?thesis
      by (intro exI[of _ "r # pre"]) (auto simp: evaluateTargetingRule_None)
  qed
qed simp

lemma first_match_None:
  "first_match d i flag eid run rules = Inr None \<longleftrightarrow>
     (\<forall>r\<in>set rules. conditions_hold d r (evaluationContext i) = Inr False)"
proof (induction rules)
  case (Cons r rules)
  show ?case
  proof (cases "conditions_hold d r (evaluationContext i) = Inr False")
    case True
    then have "evaluateTargetingRule d i flag eid run r = Inr None"
      by (simp add: evaluateTargetingRule_None)
    with True Cons.IH show ?thesis by simp
  next
    case False
    then have "evaluateTargetingRule d i flag eid run r \<noteq> Inr None"
      by (simp add: evaluateTargetingRule_None)
    with False show ?thesis
      by (cases "evaluateTargetingRule d i flag eid run r") (auto split: option.splits)
  qed
qed simp

lemma first_match_rule:
  assumes "first_match d i flag eid run rules = Inr (Some res)"
  shows "\<exists>rule\<in>set rules. \<exists>direct v. res = rule_result i flag eid run rule direct v
    \<and> conditions_hold d rule (evaluationContext i) = Inr True
    \<and> variantNameForId (variants flag) (rule_variantId rule) = Inr direct
    \<and> v \<in> {direct, defaultVariant flag}"
proof -
  from first_match_Some[OF assms] obtain rule where mem: "rule \<in> set rules"
    and ev: "evaluateTargetingRule d i flag eid run rule = Inr (Some res)"
    by (metis in_set_conv_decomp)
  from evaluateTargetingRule_Some[OF ev] mem show ?thesis by blast
qed

lemma rule_result_simps [simp]:
  "kind (rule_result i flag eid run rule direct v) \<noteq> ErrorKind"
  "res_variant (rule_result i flag eid run rule direct v) = Some v"
  "res_liveRunId (rule_result i flag eid run rule direct v) = map_option runId run"
  "res_experimentId (rule_result i flag eid run rule direct v) = eid"
  "exposure_of (rule_result i flag None run rule direct v) = None"
  "exposure_of (rule_result i flag eid None rule direct v) = None"
  "exposure_of (rule_result i flag (Some e) (Some r) rule direct v) = Some (exposure i e (runId r) v)"
  "isHoldover (rule_result i flag eid run rule direct v) = False"
  by (simp_all add: rule_result_def split: option.splits)

lemma rule_result_kind:
  "kind (rule_result i flag eid run rule direct v) \<in> {RuleMatchDirect, RuleMatchPercentage}"
  by (simp add: rule_result_def)

lemma variantNameForId_Inr:
  "variantNameForId vs vid = Inr n \<Longrightarrow> n \<in> variant_name ` set vs"
  by (auto simp: variantNameForId_def find_Some_iff split: option.splits)

text \<open>The variants a Flag can serve outside a Run.\<close>

definition flag_names :: "flag_config \<Rightarrow> string set" where
  "flag_names flag =
     {defaultVariant flag} \<union> set (availableVariantNames flag) \<union> variant_name ` set (variants flag)"

lemma unmatchedResult_Inr:
  assumes "unmatchedResult i flag eid = Inr res"
  shows "kind res \<in> {NoMatchDefault, BaselineRollout}" "exposure_of res = None" "res_liveRunId res = None"
    "\<exists>v\<in>flag_names flag. res_variant res = Some v"
proof -
  define scope where "scope = (if availableVariantNames flag \<noteq> [] then availableVariantNames flag
                   else map variant_name (variants flag))"
  have scope: "set scope \<subseteq> flag_names flag" by (auto simp: scope_def flag_names_def)
  have all: "kind res \<in> {NoMatchDefault, BaselineRollout} \<and> exposure_of res = None
    \<and> res_liveRunId res = None \<and> (\<exists>v\<in>flag_names flag. res_variant res = Some v)"
  proof (cases "flag_rollout flag")
    case None
    with assms show ?thesis by (auto simp: unmatchedResult_def flag_names_def)
  next
    case (Some ro)
    with assms obtain target where cand: "filter (\<lambda>n. n \<noteq> defaultVariant flag) scope = [target]"
      and "kind res = BaselineRollout" "exposure_of res = None" "res_liveRunId res = None"
      and "res_variant res \<in> {Some target, Some (defaultVariant flag)}"
      unfolding unmatchedResult_def Let_def scope_def[symmetric]
      by (auto simp: fractionalEval_two split: list.splits if_splits)
    moreover from cand have "target \<in> set scope"
      by (metis filter_is_subset list.set_intros(1) subsetD)
    ultimately show ?thesis using scope by (auto simp: flag_names_def)
  qed
  then show "kind res \<in> {NoMatchDefault, BaselineRollout}" "exposure_of res = None"
    "res_liveRunId res = None" "\<exists>v\<in>flag_names flag. res_variant res = Some v" by blast+
qed

lemma evaluateFlagOnly_Inr:
  assumes "evaluateFlagOnly d i flag eid = Inr res"
  shows "exposure_of res = None" "res_liveRunId res = None"
    "\<exists>v\<in>flag_names flag. res_variant res = Some v"
    "kind res \<in> {RuleMatchDirect, RuleMatchPercentage, NoMatchDefault, BaselineRollout}"
proof -
  from assms obtain m
    where m: "first_match d i flag eid None (sort_key priority (flag_targetingRules flag)) = Inr m"
      and res: "(case m of Some res \<Rightarrow> Inr res | None \<Rightarrow> unmatchedResult i flag eid) = Inr res"
    by (auto simp: evaluateFlagOnly_def ebind_eq_Inr)
  have "exposure_of res = None \<and> res_liveRunId res = None
    \<and> (\<exists>v\<in>flag_names flag. res_variant res = Some v)
    \<and> kind res \<in> {RuleMatchDirect, RuleMatchPercentage, NoMatchDefault, BaselineRollout}"
  proof (cases m)
    case None
    with res unmatchedResult_Inr[of i flag eid res] show ?thesis by auto
  next
    case (Some r)
    from first_match_rule[OF m[unfolded Some]] obtain rule direct v
      where "r = rule_result i flag eid None rule direct v"
        and "v \<in> flag_names flag" by (auto simp: flag_names_def dest: variantNameForId_Inr)
    with Some res have "res = rule_result i flag eid None rule direct v" by simp
    with \<open>v \<in> flag_names flag\<close> show ?thesis
      using rule_result_kind[of i flag eid None rule direct v] by auto
  qed
  then show "exposure_of res = None" "res_liveRunId res = None"
    "\<exists>v\<in>flag_names flag. res_variant res = Some v"
    "kind res \<in> {RuleMatchDirect, RuleMatchPercentage, NoMatchDefault, BaselineRollout}" by blast+
qed

lemma evaluateLiveRun_Inr:
  assumes "evaluateLiveRun d i flag eid run = Inr res"
  shows "\<exists>v. res_variant res = Some v \<and> exposure_of res = Some (exposure i eid (runId run) v)
      \<and> (v \<in> flag_names flag \<or> v = assign (run_salt run) (allocation run) (targetingKey (evaluationContext i)))"
    "res_liveRunId res = Some (runId run)" "res_experimentId res = Some eid" "\<not> isHoldover res"
    "kind res \<in> {FreshAssignment, RuleMatchDirect, RuleMatchPercentage, NoMatchDefault}"
proof -
  define rules where "rules = sort_key priority (run_targetingRules run)"
  have "(\<exists>v. res_variant res = Some v \<and> exposure_of res = Some (exposure i eid (runId run) v)
      \<and> (v \<in> flag_names flag \<or> v = assign (run_salt run) (allocation run) (targetingKey (evaluationContext i))))
    \<and> res_liveRunId res = Some (runId run) \<and> res_experimentId res = Some eid \<and> \<not> isHoldover res
    \<and> kind res \<in> {FreshAssignment, RuleMatchDirect, RuleMatchPercentage, NoMatchDefault}"
  proof (cases "rules = []")
    case True
    with assms show ?thesis by (auto simp: evaluateLiveRun_def Let_def rules_def fresh_def)
  next
    case False
    with assms obtain m where m: "first_match d i flag (Some eid) (Some run) rules = Inr m"
      and res: "(case m of Some res \<Rightarrow> Inr res
        | None \<Rightarrow> Inr ((base_result NoMatchDefault (Some (defaultVariant flag)) ReasonNoMatch)
         \<lparr>res_experimentId := Some eid, res_liveRunId := Some (runId run),
          exposure_of := Some (exposure i eid (runId run) (defaultVariant flag))\<rparr>)) = (Inr res :: thrown + evaluate_result)"
      unfolding evaluateLiveRun_def Let_def rules_def[symmetric] ebind_eq_Inr if_not_P[OF False]
      by (elim exE conjE) (rule that)
    show ?thesis
    proof (cases m)
      case None
      with res show ?thesis by (auto simp: flag_names_def)
    next
      case (Some r)
      from first_match_rule[OF m[unfolded Some]] obtain rule direct v
        where "r = rule_result i flag (Some eid) (Some run) rule direct v"
          and "v \<in> flag_names flag" by (auto simp: flag_names_def dest: variantNameForId_Inr)
      with Some res have "res = rule_result i flag (Some eid) (Some run) rule direct v" by simp
      with \<open>v \<in> flag_names flag\<close> show ?thesis
        using rule_result_kind[of i flag "Some eid" "Some run" rule direct v] by auto
    qed
  qed
  then show "\<exists>v. res_variant res = Some v \<and> exposure_of res = Some (exposure i eid (runId run) v)
      \<and> (v \<in> flag_names flag \<or> v = assign (run_salt run) (allocation run) (targetingKey (evaluationContext i)))"
    "res_liveRunId res = Some (runId run)" "res_experimentId res = Some eid" "\<not> isHoldover res"
    "kind res \<in> {FreshAssignment, RuleMatchDirect, RuleMatchPercentage, NoMatchDefault}" by blast+
qed

text \<open>The ways an evaluation can end, by the data the dependencies returned.\<close>

lemma evaluatePath_Inr:
  assumes "getFlag (provider_of d) (in_appId i) (in_environmentId i) (in_flagKey i) = Inr flag"
    and "evaluate_flag d i flag = Inr res"
  shows "evaluatePath d i = res"
  using assms by (simp add: evaluatePath_def)

lemma errorResult_simps [simp]:
  "kind (errorResult v t) = ErrorKind" "exposure_of (errorResult v t) = None"
  "res_variant (errorResult v t) = v" "errorCode (errorResult v t) = Some (error_code_of t)"
  by (simp_all add: errorResult_def)

text \<open>The four ways an enabled Flag with an Experiment ends without an error.\<close>

lemma evaluate_experiment_cases:
  assumes "evaluate_experiment d i flag eid = Inr res"
  shows "\<exists>e held. getExperiment (provider_of d) (in_appId i) (in_environmentId i) eid = Inr e
    \<and> idType (evaluationContext i) = targetingKeyType e \<and> holdovers d i = Inr held
    \<and> (case held eid of Some h \<Rightarrow> res = holdover_result h
       | None \<Rightarrow> (case liveRun e of None \<Rightarrow> evaluateFlagOnly d i flag (Some eid) = Inr res
           | Some run \<Rightarrow> evaluateLiveRun d i flag eid run = Inr res))"
  using assms by (auto simp: evaluate_experiment_def ebind_eq_Inr split: if_splits option.splits)

lemma holdover_result_simps [simp]:
  "kind (holdover_result h) = HoldoverReplay" "res_variant (holdover_result h) = Some (entry_variant h)"
  "exposure_of (holdover_result h) = None" "isHoldover (holdover_result h)"
  "priorRunId (holdover_result h) = Some (entry_runId h)" "res_liveRunId (holdover_result h) = None"
  by (simp_all add: holdover_result_def)

lemma evaluate_experiment_not_error:
  assumes "evaluate_experiment d i flag eid = Inr res"
  shows "kind res \<noteq> ErrorKind"
  using evaluate_experiment_cases[OF assms] evaluateFlagOnly_Inr(4) evaluateLiveRun_Inr(5)
  by (fastforce split: option.splits)

lemma evaluate_flag_not_error:
  assumes "evaluate_flag d i flag = Inr res"
  shows "kind res \<noteq> ErrorKind"
proof -
  consider "\<not> enabled flag" | "enabled flag" "flag_experimentId flag = None"
    | eid where "enabled flag" "flag_experimentId flag = Some eid" by blast
  then show ?thesis
  proof cases
    case 1 with assms show ?thesis by (auto simp: evaluate_flag_def defaultResult_def)
  next
    case 2 with assms evaluateFlagOnly_Inr(4) show ?thesis by (fastforce simp: evaluate_flag_def)
  next
    case 3 with assms evaluate_experiment_not_error show ?thesis by (simp add: evaluate_flag_def)
  qed
qed

section \<open>What an evaluation depends on\<close>

text \<open>
  The flag-only path never looks at the Assignment Store, and the Experiment path looks
  only at the entry of the Flag's own Experiment.
\<close>

lemma conditions_hold_cong: "regex d = regex d' \<Longrightarrow> conditions_hold d r c = conditions_hold d' r c"
  by (simp add: conditions_hold_def)

lemma evaluateTargetingRule_cong:
  "regex d = regex d' \<Longrightarrow>
     evaluateTargetingRule d i flag eid run r = evaluateTargetingRule d' i flag eid run r"
  by (simp add: evaluateTargetingRule_def conditions_hold_cong[of d d'])

lemma first_match_cong:
  "regex d = regex d' \<Longrightarrow> first_match d i flag eid run rs = first_match d' i flag eid run rs"
  by (induction rs) (simp_all add: evaluateTargetingRule_cong[of d d'])

lemma evaluateFlagOnly_cong:
  "regex d = regex d' \<Longrightarrow> evaluateFlagOnly d i flag eid = evaluateFlagOnly d' i flag eid"
  by (simp add: evaluateFlagOnly_def first_match_cong[of d d'])

lemma evaluateLiveRun_cong:
  "regex d = regex d' \<Longrightarrow> evaluateLiveRun d i flag eid run = evaluateLiveRun d' i flag eid run"
  by (simp add: evaluateLiveRun_def Let_def first_match_cong[of d d'])

lemma holdovers_Inr:
  "getAll d (in_appId i) (idType (evaluationContext i)) (targetingKey (evaluationContext i)) = Inr held
     \<Longrightarrow> holdovers d i = Inr held"
  by (simp add: holdovers_def)

text \<open>When the walk over sorted rules cannot throw, and when the fallthrough cannot.\<close>

definition rule_total :: "deps \<Rightarrow> evaluate_input \<Rightarrow> flag_config \<Rightarrow> targeting_rule \<Rightarrow> bool" where
  "rule_total d i flag r \<longleftrightarrow> conditions r \<noteq> [] \<and> rule_variantId r \<in> variant_id ` set (variants flag)
     \<and> (\<forall>c\<in>set (conditions r). \<forall>p s. operator c \<in> {Matches, NotMatches} \<and> value c = JStr p
          \<longrightarrow> regex d p s \<noteq> None)"

lemma conditions_hold_total:
  assumes "rule_total d i flag r"
  shows "\<exists>b. conditions_hold d r ctx = Inr b"
proof (cases "every_condition (regex d) (conditions r) ctx")
  case (Inl e)
  from every_condition_throws[OF this] assms show ?thesis unfolding rule_total_def by metis
next
  case (Inr b)
  with assms show ?thesis by (simp add: conditions_hold_def matchesConditions_def rule_total_def)
qed

lemma variantNameForId_total:
  "vid \<in> variant_id ` set vs \<Longrightarrow> \<exists>n. variantNameForId vs vid = Inr n"
  by (cases "find (\<lambda>v. variant_id v = vid) vs")
    (auto simp: variantNameForId_def find_None_iff)

lemma evaluateTargetingRule_total:
  assumes "rule_total d i flag r"
  shows "\<exists>m. evaluateTargetingRule d i flag eid run r = Inr m"
proof -
  obtain b where "conditions_hold d r (evaluationContext i) = Inr b"
    using conditions_hold_total[OF assms] by blast
  moreover obtain n where "variantNameForId (variants flag) (rule_variantId r) = Inr n"
    using variantNameForId_total[of "rule_variantId r" "variants flag"] assms
    unfolding rule_total_def by blast
  ultimately show ?thesis by (cases b) (simp_all add: evaluateTargetingRule_def Let_def)
qed

lemma first_match_total:
  "list_all (rule_total d i flag) rs \<Longrightarrow> \<exists>m. first_match d i flag eid run rs = Inr m"
proof (induction rs)
  case (Cons r rs)
  then obtain m where "evaluateTargetingRule d i flag eid run r = Inr m"
    using evaluateTargetingRule_total by fastforce
  with Cons show ?case by (cases m) auto
qed simp

definition rollout_total :: "flag_config \<Rightarrow> bool" where
  "rollout_total flag \<longleftrightarrow> flag_rollout flag = None \<or>
     (\<exists>t. t \<noteq> [] \<and> filter (\<lambda>n. n \<noteq> defaultVariant flag)
        (if availableVariantNames flag \<noteq> [] then availableVariantNames flag
         else map variant_name (variants flag)) = [t])"

lemma unmatchedResult_total: "rollout_total flag \<Longrightarrow> \<exists>res. unmatchedResult i flag eid = Inr res"
  by (auto simp: unmatchedResult_def rollout_total_def Let_def split: option.splits)

lemma evaluateFlagOnly_total:
  assumes "list_all (rule_total d i flag) (flag_targetingRules flag)" "rollout_total flag"
  shows "\<exists>res. evaluateFlagOnly d i flag eid = Inr res"
proof -
  obtain m where "first_match d i flag eid None (sort_key priority (flag_targetingRules flag)) = Inr m"
    using first_match_total[of d i flag "sort_key priority (flag_targetingRules flag)" eid None] assms(1)
    unfolding list_all_iff set_sort by blast
  with unmatchedResult_total[OF assms(2)] show ?thesis
    by (cases m) (simp_all add: evaluateFlagOnly_def)
qed

lemma evaluateLiveRun_total:
  assumes "list_all (rule_total d i flag) (run_targetingRules run)"
  shows "\<exists>res. evaluateLiveRun d i flag eid run = Inr res"
proof -
  obtain m where "first_match d i flag (Some eid) (Some run) (sort_key priority (run_targetingRules run)) = Inr m"
    using first_match_total[of d i flag "sort_key priority (run_targetingRules run)" "Some eid" "Some run"]
      assms(1) unfolding list_all_iff set_sort by blast
  then show ?thesis by (cases m) (simp_all add: evaluateLiveRun_def Let_def)
qed

end
