(* ===== verification/EvaluateProps.thy ===== *)
theory EvaluateProps
  imports Evaluate
begin

text \<open>
  The properties of the evaluator: when a result carries an exposure, sticky holdovers,
  isolation between Experiments, the error results, rule order and percentage rollouts.
  The concrete input of the witnesses comes first: one App with one Flag, an Experiment
  with a live Run, and stored holdovers as an argument.
\<close>

section \<open>A concrete configuration\<close>

definition sample_condition :: condition where
  "sample_condition = \<lparr>attribute = ''plan'', operator = Eq, value = JStr ''pro''\<rparr>"

definition sample_rule :: "string \<Rightarrow> int \<Rightarrow> targeting_rule" where
  "sample_rule n p = \<lparr>rule_id = n, rule_flagId = ''f1'', priority = p,
     conditions = [sample_condition], rule_variantId = ''v2'', percentageRollout = None\<rparr>"

definition sample_run :: run_config where
  "sample_run = \<lparr>runId = ''run1'', run_salt = ''salt'', allocation = [(''on'', 0), (''off'', 100)],
     variantSet = [], run_targetingRules = [], run_targetingKey = ''user'', configHash = None\<rparr>"

definition sample_flag :: flag_config where
  "sample_flag = \<lparr>flagKey = ''f'', flag_appId = ''app'', flag_environmentId = ''env'',
     flag_experimentId = Some ''e1'', enabled = True, defaultVariant = ''off'',
     variants = [\<lparr>variant_id = ''v1'', variant_name = ''off'', variant_value = Null\<rparr>,
                 \<lparr>variant_id = ''v2'', variant_name = ''on'', variant_value = Null\<rparr>],
     availableVariantNames = [], flag_targetingRules = [sample_rule ''r2'' 2, sample_rule ''r1'' 1],
     flag_rollout = None\<rparr>"

definition sample_experiment :: "run_config option \<Rightarrow> experiment_config" where
  "sample_experiment run = \<lparr>experimentId = ''e1'', exp_appId = ''app'', exp_environmentId = ''env'',
     targetingKeyType = ''user'', status = Running, liveRunId = map_option runId run, liveRun = run\<rparr>"

definition sample_deps ::
  "flag_config \<Rightarrow> experiment_config \<Rightarrow> (thrown + (string \<rightharpoonup> assignment_entry)) \<Rightarrow> deps" where
  "sample_deps f e held =
     \<lparr>provider_of = \<lparr>getFlag = (\<lambda>_ _ _. Inr f), getExperiment = (\<lambda>_ _ _. Inr e), getFlags = (\<lambda>_ _. Inr [f])\<rparr>,
      getAll = (\<lambda>_ _ _. held), regex = (\<lambda>p s. Some (p = s))\<rparr>"

definition sample_input :: evaluate_input where
  "sample_input = \<lparr>in_appId = ''app'', in_environmentId = ''env'', in_flagKey = ''f'',
     evaluationContext = \<lparr>targetingKey = ''u1'', idType = ''user'', attributes = [''plan'' \<mapsto> JStr ''pro'']\<rparr>\<rparr>"

lemmas sample_defs = sample_condition_def sample_rule_def sample_run_def sample_flag_def
  sample_experiment_def sample_deps_def sample_input_def

section \<open>Exposures\<close>

text \<open>
  C1: an evaluation carries an exposure exactly when it reached a live Run: the Flag was
  read and is enabled, its Experiment was read, its targeting key type is the caller's
  \<open>idType\<close>, no holdover is stored for it, and the live Run decided without a throw. The
  exposure then names this input, the Experiment and the live Run, and the served
  Variant; nothing else ever exposes.
\<close>

theorem exposure_iff_live_run:
  "exposure_of (evaluatePath d i) = Some x \<longleftrightarrow>
     (\<exists>flag eid e run held res v.
        getFlag (provider_of d) (in_appId i) (in_environmentId i) (in_flagKey i) = Inr flag
      \<and> enabled flag \<and> flag_experimentId flag = Some eid
      \<and> getExperiment (provider_of d) (in_appId i) (in_environmentId i) eid = Inr e
      \<and> idType (evaluationContext i) = targetingKeyType e
      \<and> holdovers d i = Inr held \<and> held eid = None \<and> liveRun e = Some run
      \<and> evaluateLiveRun d i flag eid run = Inr res
      \<and> evaluatePath d i = res \<and> res_variant res = Some v \<and> res_liveRunId res = Some (runId run)
      \<and> x = exposure i eid (runId run) v)"
    (is "?L \<longleftrightarrow> ?R")
proof
  assume x: ?L
  show ?R
  proof (cases "getFlag (provider_of d) (in_appId i) (in_environmentId i) (in_flagKey i)")
    case (Inl t)
    with x show ?thesis by (simp add: evaluatePath_def)
  next
    case flag: (Inr flag)
    with x obtain res where res: "evaluate_flag d i flag = Inr res" "evaluatePath d i = res"
      by (cases "evaluate_flag d i flag") (simp_all add: evaluatePath_def)
    with x have x': "exposure_of res = Some x" by simp
    have en: "enabled flag" using res(1) x' by (auto simp: evaluate_flag_def defaultResult_def split: if_splits)
    obtain eid where eid: "flag_experimentId flag = Some eid"
      using res x' en evaluateFlagOnly_Inr(1) by (fastforce simp: evaluate_flag_def split: option.splits)
    with res en have ex: "evaluate_experiment d i flag eid = Inr res" by (simp add: evaluate_flag_def)
    from evaluate_experiment_cases[OF ex] obtain e held
      where e: "getExperiment (provider_of d) (in_appId i) (in_environmentId i) eid = Inr e"
        "idType (evaluationContext i) = targetingKeyType e" "holdovers d i = Inr held"
        and c: "case held eid of Some h \<Rightarrow> res = holdover_result h
          | None \<Rightarrow> (case liveRun e of None \<Rightarrow> evaluateFlagOnly d i flag (Some eid) = Inr res
              | Some run \<Rightarrow> evaluateLiveRun d i flag eid run = Inr res)" by blast
    from c x' have h: "held eid = None" by (auto split: option.splits)
    with c x' obtain run where run: "liveRun e = Some run" "evaluateLiveRun d i flag eid run = Inr res"
      using evaluateFlagOnly_Inr(1)[of d i flag "Some eid" res] by (cases "liveRun e") auto
    with evaluateLiveRun_Inr(1,2)[OF run(2)] x' flag res(2) en eid e h show ?thesis by auto
  qed
next
  assume ?R
  then show ?L using evaluateLiveRun_Inr(1) by fastforce
qed

section \<open>Holdovers\<close>



text \<open>
  C3: Experiments are isolated. Two Assignment Stores that agree on the Experiment the
  Flag names give the same result, whatever else they hold; and a Flag with no Experiment
  does not depend on the store at all.
\<close>

theorem holdover_isolation:
  assumes "getFlag (provider_of d) (in_appId i) (in_environmentId i) (in_flagKey i) = Inr flag"
    and "getAll d (in_appId i) (idType (evaluationContext i)) (targetingKey (evaluationContext i)) = Inr h1"
    and "g (in_appId i) (idType (evaluationContext i)) (targetingKey (evaluationContext i)) = Inr h2"
    and "\<forall>eid. flag_experimentId flag = Some eid \<longrightarrow> h1 eid = h2 eid"
  shows "evaluatePath (d\<lparr>getAll := g\<rparr>) i = evaluatePath d i"
proof -
  let ?d = "d\<lparr>getAll := g\<rparr>"
  have ho: "holdovers ?d i = Inr h2" "holdovers d i = Inr h1"
    using assms(2,3) by (simp_all add: holdovers_Inr)
  have fo: "evaluateFlagOnly ?d i flag x = evaluateFlagOnly d i flag x" for x
    by (rule evaluateFlagOnly_cong) simp
  have lr: "evaluateLiveRun ?d i flag x run = evaluateLiveRun d i flag x run" for x run
    by (rule evaluateLiveRun_cong) simp
  have "evaluate_experiment ?d i flag eid = evaluate_experiment d i flag eid"
    if "flag_experimentId flag = Some eid" for eid
    using assms(4) that
    by (cases "getExperiment (provider_of d) (in_appId i) (in_environmentId i) eid")
      (simp_all add: evaluate_experiment_def ho fo lr split: option.split)
  then have "evaluate_flag ?d i flag = evaluate_flag d i flag"
    by (auto simp: evaluate_flag_def fo split: option.splits)
  with assms(1) show ?thesis by (simp add: evaluatePath_def)
qed

lemma holdover_isolation_witness:
  "evaluatePath (sample_deps sample_flag (sample_experiment (Some sample_run))
      (Inr [''e2'' \<mapsto> \<lparr>entry_runId = ''r'', entry_variant = ''x''\<rparr>])) sample_input
   = evaluatePath (sample_deps sample_flag (sample_experiment (Some sample_run)) (Inr Map.empty)) sample_input"
  using holdover_isolation[of "sample_deps sample_flag (sample_experiment (Some sample_run)) (Inr Map.empty)"
      sample_input sample_flag Map.empty
      "\<lambda>_ _ _. Inr [''e2'' \<mapsto> \<lparr>entry_runId = ''r'', entry_variant = ''x''\<rparr>]"
      "[''e2'' \<mapsto> \<lparr>entry_runId = ''r'', entry_variant = ''x''\<rparr>]"]
  by (simp add: sample_defs)

section \<open>Errors\<close>

text \<open>
  C4: a well-formed configuration never ends in an error. The Flag is read; when it is
  enabled, its rules have Conditions whose patterns compile and name its Variants, its
  baseline rollout has exactly one target, and, when it names an Experiment, that is read,
  has the caller's \<open>idType\<close>, well-formed Run rules, and the Assignment Store does not
  throw an \<open>AssignmentStoreError\<close>. Any other failure of the store is survived.
\<close>

theorem well_formed_never_errors:
  assumes "getFlag (provider_of d) (in_appId i) (in_environmentId i) (in_flagKey i) = Inr flag"
    and "list_all (rule_total d i flag) (flag_targetingRules flag)" and "rollout_total flag"
    and "\<forall>eid. flag_experimentId flag = Some eid \<longrightarrow>
      (\<exists>e. getExperiment (provider_of d) (in_appId i) (in_environmentId i) eid = Inr e
        \<and> targetingKeyType e = idType (evaluationContext i)
        \<and> (\<forall>run. liveRun e = Some run \<longrightarrow> list_all (rule_total d i flag) (run_targetingRules run)))"
    and "\<forall>m. getAll d (in_appId i) (idType (evaluationContext i)) (targetingKey (evaluationContext i))
      \<noteq> Inl (AssignmentStoreError m)"
  shows "kind (evaluatePath d i) \<noteq> ErrorKind"
proof -
  have ho: "\<exists>held. holdovers d i = Inr held"
    using assms(5) by (simp add: holdovers_def split: sum.splits thrown.splits)
  have "\<exists>res. evaluate_experiment d i flag eid = Inr res" if eid: "flag_experimentId flag = Some eid" for eid
  proof -
    from assms(4) eid obtain e
      where e: "getExperiment (provider_of d) (in_appId i) (in_environmentId i) eid = Inr e"
        "targetingKeyType e = idType (evaluationContext i)"
        "\<And>run. liveRun e = Some run \<Longrightarrow> list_all (rule_total d i flag) (run_targetingRules run)" by blast
    from ho obtain held where "holdovers d i = Inr held" by blast
    with e evaluateLiveRun_total[OF e(3)] evaluateFlagOnly_total[OF assms(2,3), of "Some eid"]
    show ?thesis by (auto simp: evaluate_experiment_def split: option.splits)
  qed
  then have "\<exists>res. evaluate_flag d i flag = Inr res"
    using evaluateFlagOnly_total[OF assms(2,3), of None]
    by (auto simp: evaluate_flag_def split: option.splits)
  with evaluatePath_Inr[OF assms(1)] evaluate_flag_not_error show ?thesis by metis
qed

lemma well_formed_never_errors_witness:
  "kind (evaluatePath (sample_deps sample_flag (sample_experiment (Some sample_run)) (Inl NotAnError))
      sample_input) \<noteq> ErrorKind"
  by (rule well_formed_never_errors[of _ _ sample_flag])
    (auto simp: sample_defs rule_total_def rollout_total_def)

text \<open>
  C15: fail safe. Whatever a dependency throws after the Flag was read, the result still
  carries the Flag's Default Variant, no exposure, and the error code of the thrown
  error (\<open>INTERNAL_SERVER_ERROR\<close> when it is none of the known ones); only when the Flag
  itself cannot be read is there no Variant.
\<close>

theorem error_keeps_default:
  "kind (evaluatePath d i) = ErrorKind \<longleftrightarrow>
     (case getFlag (provider_of d) (in_appId i) (in_environmentId i) (in_flagKey i) of
        Inl t \<Rightarrow> evaluatePath d i = errorResult None t
      | Inr flag \<Rightarrow> (\<exists>t. evaluate_flag d i flag = Inl t
          \<and> res_variant (evaluatePath d i) = Some (defaultVariant flag)
          \<and> exposure_of (evaluatePath d i) = None
          \<and> errorCode (evaluatePath d i) = Some (error_code_of t)))"
proof (cases "getFlag (provider_of d) (in_appId i) (in_environmentId i) (in_flagKey i)")
  case (Inr flag)
  then show ?thesis
    using evaluate_flag_not_error[of d i flag]
    by (cases "evaluate_flag d i flag") (auto simp: evaluatePath_def)
qed (simp add: evaluatePath_def)

section \<open>Rules and rollouts\<close>



text \<open>
  C17: ramping up a percentage rollout never takes a Variant away: whoever is in the target
  at \<open>p\<close> percent is in it at any higher percentage of the same salt, nobody is at 0, and
  everybody is at 100.
\<close>

theorem rollout_ramp_up:
  fixes p q :: rat and a b s k :: string
  assumes "a \<noteq> b" and "p \<le> q"
  defines "in_target w \<equiv>
    fractionalEval s k [\<lparr>variantName = a, weight = w\<rparr>, \<lparr>variantName = b, weight = fl (100 - w)\<rparr>] = a"
  shows "(in_target p \<longrightarrow> in_target q) \<and> \<not> in_target 0 \<and> in_target 100"
proof -
  have "in_target w \<longleftrightarrow> hash_point s k < fl w" for w
    using assms(1) by (auto simp: in_target_def fractionalEval_two)
  moreover have "fl p \<le> fl q" using assms(2) by (rule fl_mono)
  moreover have "fl 100 = (100 :: rat)" using fl_of_int[of 100] by simp
  ultimately show ?thesis using hash_point_bounds[of s k] by auto
qed

lemma rollout_ramp_up_witness:
  "fractionalEval ''s'' ''u'' [\<lparr>variantName = ''on'', weight = 100\<rparr>,
     \<lparr>variantName = ''off'', weight = fl (100 - 100)\<rparr>] = ''on''"
  using rollout_ramp_up[of "''on''" "''off''" 0 100 "''s''" "''u''"] by simp



end
