(* ===== verification/Identity.thy ===== *)
theory Identity
  imports Json
begin

text \<open>
  Entity identity, \<open>packages/privacy/src\<close>: the versioned hash of a Targeting Key
  (\<open>hash.ts\<close>), key versions (\<open>app-identity-key.ts\<close>, \<open>derived-salt-store-versions.ts\<close>),
  the hashes retained over all epochs and the joins over them (\<open>entity-privacy.ts\<close>), and
  the storage names built from a hash (\<open>storage-keys-kv.ts\<close>,
  \<open>storage-keys-durable-objects.ts\<close> of the contracts). HMAC-SHA256 is a parameter: a
  function of the key bytes and the message to the hex digest.
\<close>

section \<open>Errors and the salt store\<close>

datatype privacy_error =
  EmptyIdType | ColonInIdType | EmptySalt string string | MalformedHash | NotAnAppVersion string
| NoAppAnchor | NoRetainedHash | SaltStoreFailed string

type_synonym salt_bytes = "nat list"

record salt_store =
  currentKeyVersion :: "string \<Rightarrow> privacy_error + string"
  saltFor :: "string \<Rightarrow> string \<Rightarrow> privacy_error + salt_bytes"
  retainedKeyVersions :: "string \<Rightarrow> privacy_error + string list"
  saltsFor :: "(string \<Rightarrow> string \<Rightarrow> privacy_error + salt_bytes list) option"

section \<open>Key versions\<close>

abbreviation "COLON \<equiv> CHR 0x3A"

definition INITIAL_APP_IDENTITY_KEY_VERSION :: string where
  "INITIAL_APP_IDENTITY_KEY_VERSION = ''app-v1''"

definition HISTORICAL_SHARED_ROOT_KEY_VERSIONS :: "string list" where
  "HISTORICAL_SHARED_ROOT_KEY_VERSIONS = [''local-v1'', ''v1'']"

definition isHistoricalSharedRootKeyVersion :: "string \<Rightarrow> bool" where
  "isHistoricalSharedRootKeyVersion v \<longleftrightarrow> v \<in> set HISTORICAL_SHARED_ROOT_KEY_VERSIONS"

definition isAppIdentityKeyVersion :: "string \<Rightarrow> bool" where
  "isAppIdentityKeyVersion v \<longleftrightarrow> take 5 v = ''app-v'' \<and> drop 5 v \<noteq> [] \<and> list_all is_digit (drop 5 v)"

text \<open>Exact below \<open>2 ^ 53\<close>, where \<open>Number\<close> and the increment are.\<close>

definition appIdentityVersionNumber :: "string \<Rightarrow> nat option" where
  "appIdentityVersionNumber v = (if isAppIdentityKeyVersion v then Some (read_nat (drop 5 v)) else None)"

definition nextAppIdentityVersion :: "string \<Rightarrow> privacy_error + string" where
  "nextAppIdentityVersion v = (case appIdentityVersionNumber v of
     None \<Rightarrow> Inl (NotAnAppVersion v)
   | Some n \<Rightarrow> Inr (''app-v'' @ show_nat (n + 1)))"

lemma isAppIdentityKeyVersion_show [simp]: "isAppIdentityKeyVersion (''app-v'' @ show_nat n)"
  by (simp add: isAppIdentityKeyVersion_def show_nat_digits)

lemma appIdentityVersionNumber_show [simp]: "appIdentityVersionNumber (''app-v'' @ show_nat n) = Some n"
  by (simp only: appIdentityVersionNumber_def isAppIdentityKeyVersion_show) simp

lemma app_version_no_colon: "isAppIdentityKeyVersion v \<Longrightarrow> COLON \<notin> set v \<and> v \<noteq> []"
proof -
  assume v: "isAppIdentityKeyVersion v"
  have "\<not> is_digit COLON" by (simp add: is_digit_def)
  with v have "COLON \<notin> set (drop 5 v)" by (auto simp: isAppIdentityKeyVersion_def list_all_iff)
  moreover have "COLON \<notin> set (take 5 v)" using v by (simp add: isAppIdentityKeyVersion_def)
  moreover have "set v = set (take 5 v) \<union> set (drop 5 v)"
    by (metis append_take_drop_id set_append)
  moreover have "v \<noteq> []" using v by (auto simp: isAppIdentityKeyVersion_def)
  ultimately show ?thesis by simp
qed

lemma nextAppIdentityVersion_app:
  "isAppIdentityKeyVersion v \<Longrightarrow> \<exists>w. nextAppIdentityVersion v = Inr w \<and> isAppIdentityKeyVersion w
     \<and> the (appIdentityVersionNumber w) = Suc (the (appIdentityVersionNumber v))"
  using isAppIdentityKeyVersion_show[of "Suc (the (appIdentityVersionNumber v))"]
    appIdentityVersionNumber_show[of "Suc (the (appIdentityVersionNumber v))"]
  by (intro exI[of _ "''app-v'' @ show_nat (Suc (the (appIdentityVersionNumber v)))"])
    (auto simp: nextAppIdentityVersion_def appIdentityVersionNumber_def[of v])

lemma historical_not_app: "isHistoricalSharedRootKeyVersion v \<Longrightarrow> \<not> isAppIdentityKeyVersion v"
  by (auto simp: isHistoricalSharedRootKeyVersion_def HISTORICAL_SHARED_ROOT_KEY_VERSIONS_def
      isAppIdentityKeyVersion_def)

section \<open>Targeting Key hashes\<close>

record hash_input =
  hi_appId :: string
  hi_idType :: string
  hi_targetingKey :: string
  hi_keyVersion :: "string option"
  hi_salt :: "salt_bytes option"

definition validateIdType :: "string \<Rightarrow> privacy_error + unit" where
  "validateIdType t = (if t = [] then Inl EmptyIdType
     else if COLON \<in> set t then Inl ColonInIdType else Inr ())"

definition targetingHashMessage :: "string \<Rightarrow> string \<Rightarrow> privacy_error + string" where
  "targetingHashMessage t k = ebind (validateIdType t) (\<lambda>_. Inr (t @ [COLON] @ k))"

definition computeTargetingKeyHash ::
  "(salt_bytes \<Rightarrow> string \<Rightarrow> string) \<Rightarrow> salt_store \<Rightarrow> hash_input \<Rightarrow> privacy_error + string" where
  "computeTargetingKeyHash hmac store i =
     ebind (case hi_keyVersion i of Some v \<Rightarrow> Inr v | None \<Rightarrow> currentKeyVersion store (hi_appId i)) (\<lambda>v.
     ebind (case hi_salt i of Some s \<Rightarrow> Inr s | None \<Rightarrow> saltFor store (hi_appId i) v) (\<lambda>s.
     if s = [] then Inl (EmptySalt (hi_appId i) v) else
     ebind (targetingHashMessage (hi_idType i) (hi_targetingKey i)) (\<lambda>m.
     Inr (v @ [COLON] @ hmac s m))))"

definition keyVersionOf :: "string \<Rightarrow> privacy_error + string" where
  "keyVersionOf h = (let v = takeWhile (\<lambda>c. c \<noteq> COLON) h in
     if COLON \<notin> set h \<or> v = [] then Inl MalformedHash else Inr v)"

lemma keyVersionOf_prefix: "\<lbrakk>COLON \<notin> set v; v \<noteq> []\<rbrakk> \<Longrightarrow> keyVersionOf (v @ [COLON] @ d) = Inr v"
  by (simp add: keyVersionOf_def takeWhile_append takeWhile_eq_all_conv)

lemma targetingHashMessage_inj:
  "\<lbrakk>targetingHashMessage t k = Inr m; targetingHashMessage t' k' = Inr m\<rbrakk> \<Longrightarrow> t = t' \<and> k = k'"
  by (auto simp: targetingHashMessage_def validateIdType_def ebind_eq_Inr split: if_splits
      dest!: append_sep_cancel)

lemma computeTargetingKeyHash_Inr:
  "computeTargetingKeyHash hmac store i = Inr h \<Longrightarrow> \<exists>v s m. h = v @ [COLON] @ hmac s m \<and> s \<noteq> []
     \<and> targetingHashMessage (hi_idType i) (hi_targetingKey i) = Inr m
     \<and> (hi_keyVersion i = Some v \<or> hi_keyVersion i = None \<and> currentKeyVersion store (hi_appId i) = Inr v)
     \<and> (hi_salt i = Some s \<or> hi_salt i = None \<and> saltFor store (hi_appId i) v = Inr s)"
  by (cases "hi_keyVersion i"; cases "hi_salt i")
    (auto simp: computeTargetingKeyHash_def ebind_eq_Inr split: if_splits)

section \<open>Retained epochs\<close>

definition push_new :: "string list \<Rightarrow> string \<Rightarrow> string list" where
  "push_new hashes h = (if h \<in> set hashes then hashes else hashes @ [h])"

fun hash_salts ::
  "(salt_bytes \<Rightarrow> string \<Rightarrow> string) \<Rightarrow> salt_store \<Rightarrow> hash_input \<Rightarrow> string \<Rightarrow> salt_bytes list
     \<Rightarrow> string list \<Rightarrow> privacy_error + string list" where
  "hash_salts hmac store i v [] hashes = Inr hashes"
| "hash_salts hmac store i v (s # ss) hashes =
     ebind (computeTargetingKeyHash hmac store (i\<lparr>hi_keyVersion := Some v, hi_salt := Some s\<rparr>))
       (\<lambda>h. hash_salts hmac store i v ss (push_new hashes h))"

fun hash_versions ::
  "(salt_bytes \<Rightarrow> string \<Rightarrow> string) \<Rightarrow> salt_store \<Rightarrow> hash_input \<Rightarrow> string list
     \<Rightarrow> string list \<Rightarrow> privacy_error + string list" where
  "hash_versions hmac store i [] hashes = Inr hashes"
| "hash_versions hmac store i (v # vs) hashes =
     ebind (case saltsFor store of Some f \<Rightarrow> f (hi_appId i) v
            | None \<Rightarrow> ebind (saltFor store (hi_appId i) v) (\<lambda>s. Inr [s]))
       (\<lambda>ss. ebind (hash_salts hmac store i v ss hashes) (\<lambda>hashes. hash_versions hmac store i vs hashes))"

definition computeRetainedTargetingKeyHashes ::
  "(salt_bytes \<Rightarrow> string \<Rightarrow> string) \<Rightarrow> salt_store \<Rightarrow> hash_input \<Rightarrow> privacy_error + string list" where
  "computeRetainedTargetingKeyHashes hmac store i =
     ebind (retainedKeyVersions store (hi_appId i)) (\<lambda>vs. hash_versions hmac store i vs [])"

lemma push_new [simp]:
  "distinct hs \<Longrightarrow> distinct (push_new hs h)" "set (push_new hs h) = insert h (set hs)"
  by (auto simp: push_new_def)

lemma push_new_prefix: "prefix hs (push_new hs h)"
  by (simp add: push_new_def)

lemma hash_salts_Inr:
  "hash_salts hmac store i v ss hs = Inr hs' \<Longrightarrow> (distinct hs \<longrightarrow> distinct hs') \<and> prefix hs hs'
     \<and> set hs' = set hs \<union> {h. \<exists>s\<in>set ss.
         computeTargetingKeyHash hmac store (i\<lparr>hi_keyVersion := Some v, hi_salt := Some s\<rparr>) = Inr h}"
proof (induction ss arbitrary: hs)
  case (Cons s ss)
  from Cons.prems obtain h
    where h: "computeTargetingKeyHash hmac store (i\<lparr>hi_keyVersion := Some v, hi_salt := Some s\<rparr>) = Inr h"
      and rest: "hash_salts hmac store i v ss (push_new hs h) = Inr hs'" by (auto simp: ebind_eq_Inr)
  show ?case
    using Cons.IH[OF rest] h push_new_prefix[of hs h]
    by (auto intro: prefix_order.trans)
qed simp

text \<open>What the salt store answers for one version.\<close>

definition salts_of :: "salt_store \<Rightarrow> string \<Rightarrow> string \<Rightarrow> privacy_error + salt_bytes list" where
  "salts_of store app v = (case saltsFor store of Some f \<Rightarrow> f app v
     | None \<Rightarrow> ebind (saltFor store app v) (\<lambda>s. Inr [s]))"

lemma hash_versions_Inr:
  "hash_versions hmac store i vs hs = Inr hs' \<Longrightarrow> (distinct hs \<longrightarrow> distinct hs') \<and> prefix hs hs'
     \<and> set hs' = set hs \<union> {h. \<exists>v\<in>set vs. \<exists>ss. \<exists>s\<in>set ss. salts_of store (hi_appId i) v = Inr ss \<and>
         computeTargetingKeyHash hmac store (i\<lparr>hi_keyVersion := Some v, hi_salt := Some s\<rparr>) = Inr h}"
proof (induction vs arbitrary: hs)
  case (Cons v vs)
  from Cons.prems obtain ss hs1 where ss: "salts_of store (hi_appId i) v = Inr ss"
    and h1: "hash_salts hmac store i v ss hs = Inr hs1"
    and rest: "hash_versions hmac store i vs hs1 = Inr hs'"
    by (auto simp: ebind_eq_Inr salts_of_def)
  have "set hs' = set hs \<union> {h. \<exists>s\<in>set ss.
         computeTargetingKeyHash hmac store (i\<lparr>hi_keyVersion := Some v, hi_salt := Some s\<rparr>) = Inr h}
     \<union> {h. \<exists>v\<in>set vs. \<exists>ss. \<exists>s\<in>set ss. salts_of store (hi_appId i) v = Inr ss \<and>
         computeTargetingKeyHash hmac store (i\<lparr>hi_keyVersion := Some v, hi_salt := Some s\<rparr>) = Inr h}"
    using hash_salts_Inr[OF h1] Cons.IH[OF rest] by simp
  also have "\<dots> = set hs \<union> {h. \<exists>w\<in>set (v # vs). \<exists>ss. \<exists>s\<in>set ss. salts_of store (hi_appId i) w = Inr ss \<and>
         computeTargetingKeyHash hmac store (i\<lparr>hi_keyVersion := Some w, hi_salt := Some s\<rparr>) = Inr h}"
    using ss by auto
  finally show ?case
    using hash_salts_Inr[OF h1] Cons.IH[OF rest] by (blast intro: prefix_order.trans)
qed simp

section \<open>Families and joins\<close>

definition canonicalizeSharedRootTargetingKeyHash :: "string \<Rightarrow> privacy_error + string" where
  "canonicalizeSharedRootTargetingKeyHash h =
     (if COLON \<notin> set h then Inr h else
      ebind (keyVersionOf h) (\<lambda>v.
        if v = HISTORICAL_SHARED_ROOT_KEY_VERSIONS ! 0
        then Inr (HISTORICAL_SHARED_ROOT_KEY_VERSIONS ! 1 @ [COLON] @ drop (length v + 1) h)
        else Inr h))"

text \<open>\<open>find\<close> with a predicate that may throw: it stops at the first hit or throw.\<close>

fun find_version :: "(string \<Rightarrow> bool) \<Rightarrow> string list \<Rightarrow> privacy_error + string option" where
  "find_version P [] = Inr None"
| "find_version P (h # hs) =
     ebind (keyVersionOf h) (\<lambda>v. if P v then Inr (Some h) else find_version P hs)"

definition entityFamilyHash :: "string list \<Rightarrow> privacy_error + string" where
  "entityFamilyHash hs = ebind (find_version isAppIdentityKeyVersion hs) (\<lambda>a. case a of
     None \<Rightarrow> Inl NoAppAnchor | Some h \<Rightarrow> Inr h)"

definition entityFamilyHashForRetained :: "string list \<Rightarrow> privacy_error + string" where
  "entityFamilyHashForRetained hs =
     ebind (find_version isHistoricalSharedRootKeyVersion hs) (\<lambda>shared. case shared of
       Some h \<Rightarrow> canonicalizeSharedRootTargetingKeyHash h
     | None \<Rightarrow> ebind (find_version isAppIdentityKeyVersion hs) (\<lambda>app. case app of
         Some h \<Rightarrow> Inr h
       | None \<Rightarrow> (case hs of [] \<Rightarrow> Inl NoRetainedHash
           | h # _ \<Rightarrow> canonicalizeSharedRootTargetingKeyHash h)))"

definition computeEntityFamilyHash ::
  "(salt_bytes \<Rightarrow> string \<Rightarrow> string) \<Rightarrow> salt_store \<Rightarrow> hash_input \<Rightarrow> privacy_error + string" where
  "computeEntityFamilyHash hmac store i =
     ebind (computeRetainedTargetingKeyHashes hmac store i) entityFamilyHashForRetained"

record entity_privacy_identity =
  epi_appId :: string
  epi_idType :: string
  targetingKeyHashes :: "string list"
  entityFamily :: string

definition resolveEntityPrivacyIdentity ::
  "(salt_bytes \<Rightarrow> string \<Rightarrow> string) \<Rightarrow> salt_store \<Rightarrow> hash_input \<Rightarrow> privacy_error + entity_privacy_identity" where
  "resolveEntityPrivacyIdentity hmac store i =
     ebind (computeRetainedTargetingKeyHashes hmac store i) (\<lambda>hs.
     ebind (entityFamilyHashForRetained hs) (\<lambda>f.
     Inr \<lparr>epi_appId = hi_appId i, epi_idType = hi_idType i, targetingKeyHashes = hs, entityFamily = f\<rparr>))"

definition canonicalizeAnalysisEntityHash :: "string list \<Rightarrow> privacy_error + string" where
  "canonicalizeAnalysisEntityHash hs = (if hs = [] then Inl NoRetainedHash else Inr (last hs))"

record analysis_row =
  row_hash :: string

definition analysisRowsForEntity ::
  "'a analysis_row_scheme list \<Rightarrow> string list \<Rightarrow> 'a analysis_row_scheme list" where
  "analysisRowsForEntity rows hs = filter (\<lambda>r. row_hash r \<in> set hs) rows"

definition joinMetricEventsToExposures ::
  "'a analysis_row_scheme list \<Rightarrow> 'b analysis_row_scheme list \<Rightarrow> string list
     \<Rightarrow> privacy_error + ('a analysis_row_scheme list \<times> 'b analysis_row_scheme list)" where
  "joinMetricEventsToExposures ex me hs = (if hs = [] then Inl NoRetainedHash
     else Inr (analysisRowsForEntity ex hs, analysisRowsForEntity me hs))"

text \<open>The alias map of the groups; a later group overwrites an earlier one.\<close>

definition group_aliases :: "string list \<Rightarrow> (string \<rightharpoonup> string) \<Rightarrow> (string \<rightharpoonup> string)" where
  "group_aliases g m = (if g = [] then m else fold (\<lambda>h m. m(h \<mapsto> last g)) g m)"

definition alias_map :: "string list list \<Rightarrow> (string \<rightharpoonup> string)" where
  "alias_map groups = fold group_aliases groups Map.empty"

record loose_row =
  loose_hash :: jsval

definition canonicalize_row ::
  "(string \<rightharpoonup> string) \<Rightarrow> 'a loose_row_scheme \<Rightarrow> privacy_error + 'a loose_row_scheme" where
  "canonicalize_row alias r = (case loose_hash r of
     JStr h \<Rightarrow> if COLON \<notin> set h then Inr r else
       ebind (case alias h of Some c \<Rightarrow> Inr c | None \<Rightarrow> canonicalizeSharedRootTargetingKeyHash h)
         (\<lambda>c. Inr (if c = h then r else r\<lparr>loose_hash := JStr c\<rparr>))
   | _ \<Rightarrow> Inr r)"

definition canonicalizeAnalysisRows ::
  "'a loose_row_scheme list \<Rightarrow> string list list \<Rightarrow> privacy_error + 'a loose_row_scheme list" where
  "canonicalizeAnalysisRows rows groups = emap (canonicalize_row (alias_map groups)) rows"

section \<open>Storage names\<close>

definition assignmentKey :: "string \<Rightarrow> string \<Rightarrow> string \<Rightarrow> string" where
  "assignmentKey app t h = ''assignment:'' @ app @ [COLON] @ t @ [COLON] @ h"

definition assignmentWriterName :: "string \<Rightarrow> string \<Rightarrow> string \<Rightarrow> string" where
  "assignmentWriterName app t h = app @ [COLON] @ t @ [COLON] @ h"

lemma assignmentWriterName_inj:
  assumes eq: "assignmentWriterName a t h = assignmentWriterName a' t' h'"
    and nc: "COLON \<notin> set a" "COLON \<notin> set a'" "COLON \<notin> set t" "COLON \<notin> set t'"
  shows "a = a' \<and> t = t' \<and> h = h'"
proof -
  have "a = a' \<and> t @ COLON # h = t' @ COLON # h'"
    using eq nc by (intro append_sep_cancel) (simp_all add: assignmentWriterName_def)
  then show ?thesis using append_sep_cancel[of t COLON h t' h'] nc by blast
qed

lemma assignmentKey_writer: "assignmentKey a t h = ''assignment:'' @ assignmentWriterName a t h"
  by (simp add: assignmentKey_def assignmentWriterName_def)

section \<open>Lemmas on families and joins\<close>

lemma find_version_append:
  "find_version P (xs @ ys) = ebind (find_version P xs) (\<lambda>r. case r of
     Some h \<Rightarrow> Inr (Some h) | None \<Rightarrow> find_version P ys)"
proof (induction xs)
  case (Cons x xs)
  then show ?case by (cases "keyVersionOf x") auto
qed simp

lemma group_aliases_apply:
  "group_aliases g m h = (if h \<in> set g then Some (last g) else m h)"
proof -
  have "fold (\<lambda>h m. m(h \<mapsto> c)) xs m h = (if h \<in> set xs then Some c else m h)" for xs c
    by (induction xs arbitrary: m) auto
  then show ?thesis by (simp add: group_aliases_def)
qed

lemma fold_group_aliases:
  assumes "pairwise (\<lambda>g g'. set g \<inter> set g' = {}) (set groups)"
  shows "fold group_aliases groups m h =
    (case find (\<lambda>g. h \<in> set g) groups of Some g \<Rightarrow> Some (last g) | None \<Rightarrow> m h)"
  using assms
proof (induction groups arbitrary: m)
  case (Cons g groups)
  have "set g' \<inter> set g = {}" if "g' \<in> set groups" "g' \<noteq> g" for g'
    using Cons.prems that by (auto simp: pairwise_insert)
  moreover have "find (\<lambda>g. h \<in> set g) groups \<in> {None, Some g}" if "h \<in> set g"
  proof (cases "find (\<lambda>g. h \<in> set g) groups")
    case (Some g')
    then have "g' \<in> set groups" "h \<in> set g'" by (auto simp: find_Some_iff)
    with calculation that Some show ?thesis by auto
  qed simp
  ultimately show ?case
    using Cons by (auto simp: pairwise_insert group_aliases_apply split: option.splits)
qed simp

lemma alias_map_member:
  assumes "pairwise (\<lambda>g g'. set g \<inter> set g' = {}) (set groups)" "g \<in> set groups" "h \<in> set g"
  shows "alias_map groups h = Some (last g)"
proof (cases "find (\<lambda>g. h \<in> set g) groups")
  case None
  with assms show ?thesis by (auto simp: find_None_iff)
next
  case (Some g')
  then have "g' \<in> set groups" "h \<in> set g'" by (auto simp: find_Some_iff)
  with assms have "g' = g" by (auto simp: pairwise_def)
  with Some show ?thesis by (simp add: alias_map_def fold_group_aliases[OF assms(1)])
qed

section \<open>Properties\<close>

text \<open>
  A hash separates Entities. Two hashes made under colon-free key versions with the
  same salt are equal only for the same version, \<open>idType\<close> and Targeting Key, unless HMAC
  itself collides on the two messages; and the version is read back from the hash.
\<close>

theorem hash_separates_entities:
  assumes "computeTargetingKeyHash hmac store i = Inr h" "hi_keyVersion i = Some v" "hi_salt i = Some s"
    and "computeTargetingKeyHash hmac store' j = Inr h'" "hi_keyVersion j = Some w" "hi_salt j = Some s"
    and "isAppIdentityKeyVersion v \<or> isHistoricalSharedRootKeyVersion v"
    and "isAppIdentityKeyVersion w \<or> isHistoricalSharedRootKeyVersion w"
    and "\<forall>m m'. hmac s m = hmac s m' \<longrightarrow> m = m'"
  shows "keyVersionOf h = Inr v \<and>
    (h = h' \<longleftrightarrow> v = w \<and> hi_idType i = hi_idType j \<and> hi_targetingKey i = hi_targetingKey j)"
proof -
  have ok: "COLON \<notin> set u \<and> u \<noteq> []"
    if "isAppIdentityKeyVersion u \<or> isHistoricalSharedRootKeyVersion u" for u
  proof (cases "isAppIdentityKeyVersion u")
    case True
    then show ?thesis by (rule app_version_no_colon)
  next
    case False
    with that have "u \<in> {''local-v1'', ''v1''}"
      by (simp add: isHistoricalSharedRootKeyVersion_def HISTORICAL_SHARED_ROOT_KEY_VERSIONS_def)
    then show ?thesis by auto
  qed
  obtain m where h: "h = v @ [COLON] @ hmac s m"
    and m: "targetingHashMessage (hi_idType i) (hi_targetingKey i) = Inr m"
    using computeTargetingKeyHash_Inr[OF assms(1)] assms(2,3) by auto
  obtain m' where h': "h' = w @ [COLON] @ hmac s m'"
    and m': "targetingHashMessage (hi_idType j) (hi_targetingKey j) = Inr m'"
    using computeTargetingKeyHash_Inr[OF assms(4)] assms(5,6) by auto
  have "v = w \<and> hmac s m = hmac s m'" if "h = h'"
    using that append_sep_cancel[of v COLON "hmac s m" w "hmac s m'"] ok[OF assms(7)] ok[OF assms(8)]
    by (simp add: h h')
  then have "h = h' \<longleftrightarrow> v = w \<and> m = m'" using assms(9) h h' by blast
  moreover have "m = m' \<longleftrightarrow> hi_idType i = hi_idType j \<and> hi_targetingKey i = hi_targetingKey j"
  proof
    assume "m = m'"
    with m m' show "hi_idType i = hi_idType j \<and> hi_targetingKey i = hi_targetingKey j"
      by (intro targetingHashMessage_inj[of _ _ m]) simp_all
  next
    assume "hi_idType i = hi_idType j \<and> hi_targetingKey i = hi_targetingKey j"
    with m m' show "m = m'" by simp
  qed
  moreover have "keyVersionOf h = Inr v"
    unfolding h using ok[OF assms(7)] by (intro keyVersionOf_prefix) simp_all
  ultimately show ?thesis by blast
qed

definition sample_salts :: salt_store where
  "sample_salts = \<lparr>currentKeyVersion = (\<lambda>_. Inr ''app-v1''), saltFor = (\<lambda>_ _. Inr [1]),
     retainedKeyVersions = (\<lambda>_. Inr [''app-v1'']), saltsFor = None\<rparr>"

definition sample_hash_input :: "string \<Rightarrow> hash_input" where
  "sample_hash_input k = \<lparr>hi_appId = ''a'', hi_idType = ''user'', hi_targetingKey = k,
     hi_keyVersion = Some ''app-v1'', hi_salt = Some [1]\<rparr>"

lemma hash_separates_entities_witness:
  "computeTargetingKeyHash (\<lambda>s m. m) sample_salts (sample_hash_input ''k'')
     \<noteq> computeTargetingKeyHash (\<lambda>s m. m) sample_salts (sample_hash_input ''l'')"
  using hash_separates_entities[of "\<lambda>s m. m" sample_salts "sample_hash_input ''k''" _ "''app-v1''" "[1]"
      sample_salts "sample_hash_input ''l''" _ "''app-v1''"]
  by (simp add: sample_hash_input_def computeTargetingKeyHash_def targetingHashMessage_def
      validateIdType_def isAppIdentityKeyVersion_def is_digit_def)

text \<open>
  The family of an Entity outlives new key epochs. Once the retained hashes hold an
  anchor (a shared-root or an App epoch), minting a later App epoch, whose hash comes
  last, leaves the family hash as it is.
\<close>

theorem family_hash_stable:
  assumes "entityFamilyHashForRetained hs = Inr f"
    and "\<exists>h\<in>set hs. \<exists>v. keyVersionOf h = Inr v
       \<and> (isHistoricalSharedRootKeyVersion v \<or> isAppIdentityKeyVersion v)"
    and "keyVersionOf new = Inr w" and "isAppIdentityKeyVersion w"
  shows "entityFamilyHashForRetained (hs @ [new]) = Inr f"
proof -
  have not_shared: "find_version isHistoricalSharedRootKeyVersion [new] = Inr None"
    and app: "find_version isAppIdentityKeyVersion [new] = Inr (Some new)"
    using assms(3,4) historical_not_app by auto
  have found: "\<exists>r. find_version P hs = Inr (Some r)"
    if "find_version P hs = Inr x" "h \<in> set hs" "keyVersionOf h = Inr v" "P v" for P x h v
    using that by (induction hs) (auto simp: ebind_eq_Inr split: if_splits)
  obtain shared where sh: "find_version isHistoricalSharedRootKeyVersion hs = Inr shared"
    using assms(1) by (auto simp: entityFamilyHashForRetained_def ebind_eq_Inr)
  show ?thesis
  proof (cases shared)
    case (Some h)
    with assms(1) sh show ?thesis
      by (simp add: entityFamilyHashForRetained_def find_version_append)
  next
    case None
    then obtain a where "find_version isAppIdentityKeyVersion hs = Inr a"
      using assms(1) sh by (auto simp: entityFamilyHashForRetained_def ebind_eq_Inr)
    then obtain r where "find_version isAppIdentityKeyVersion hs = Inr (Some r)"
      using found assms(2) sh None by (metis (no_types, opaque_lifting) Inr_inject option.distinct(1))
    with assms(1) sh None not_shared show ?thesis
      by (simp add: entityFamilyHashForRetained_def find_version_append)
  qed
qed

lemma family_hash_stable_witness:
  "entityFamilyHashForRetained [''local-v1:d'', ''app-v1:e'', ''app-v2:f''] = Inr ''v1:d''"
  using family_hash_stable[of "[''local-v1:d'', ''app-v1:e'']" "''v1:d''" "''app-v2:f''" "''app-v2''"]
  by (simp add: entityFamilyHashForRetained_def keyVersionOf_def isHistoricalSharedRootKeyVersion_def
      HISTORICAL_SHARED_ROOT_KEY_VERSIONS_def canonicalizeSharedRootTargetingKeyHash_def
      isAppIdentityKeyVersion_def is_digit_def)

text \<open>
  C19: analysis rows join exactly per Entity. With the retained hashes of each Entity as
  pairwise disjoint groups, two rows come out under one hash if and only if their hashes
  belong to the same Entity, whatever epoch each row was written under.
\<close>

theorem analysis_rows_join_per_entity:
  assumes "canonicalizeAnalysisRows rows groups = Inr out"
    and "pairwise (\<lambda>g g'. set g \<inter> set g' = {}) (set groups)"
    and "\<forall>g\<in>set groups. \<forall>h\<in>set g. COLON \<in> set h"
    and "i < length rows" "loose_hash (rows ! i) = JStr h" "g \<in> set groups" "h \<in> set g"
    and "j < length rows" "loose_hash (rows ! j) = JStr h'" "g' \<in> set groups" "h' \<in> set g'"
  shows "loose_hash (out ! i) = loose_hash (out ! j) \<longleftrightarrow> g = g'"
proof -
  have canon: "loose_hash (out ! k) = JStr (last gk)"
    if "k < length rows" "loose_hash (rows ! k) = JStr x" "gk \<in> set groups" "x \<in> set gk" for k x gk
  proof -
    have "canonicalize_row (alias_map groups) (rows ! k) = Inr (out ! k)"
      using assms(1) that(1) unfolding canonicalizeAnalysisRows_def emap_eq_Inr
      by (simp add: list_all2_conv_all_nth)
    then have "out ! k = (if last gk = x then rows ! k else (rows ! k)\<lparr>loose_hash := JStr (last gk)\<rparr>)"
      using that assms(3) alias_map_member[OF assms(2) that(3,4)]
      by (auto simp: canonicalize_row_def)
    with that show ?thesis by simp
  qed
  have mem: "last g \<in> set g" "last g' \<in> set g'" using assms(7,11) by (auto intro!: last_in_set)
  have "g = g'" if "last g = last g'"
    using mem that assms(2,6,10) by (auto simp: pairwise_def)
  then show ?thesis
    using canon[OF assms(4-7)] canon[OF assms(8-11)] by auto
qed

lemma analysis_rows_join_per_entity_witness:
  "(\<exists>out. canonicalizeAnalysisRows [\<lparr>loose_hash = JStr ''v1:d''\<rparr>, \<lparr>loose_hash = JStr ''app-v1:e''\<rparr>]
      [[''v1:d'', ''app-v1:e'']] = Inr out \<and> loose_hash (out ! 0) = loose_hash (out ! 1))"
  using analysis_rows_join_per_entity[of "[\<lparr>loose_hash = JStr ''v1:d''\<rparr>, \<lparr>loose_hash = JStr ''app-v1:e''\<rparr>]"
      "[[''v1:d'', ''app-v1:e'']]"
      "[\<lparr>loose_hash = JStr ''app-v1:e''\<rparr>, \<lparr>loose_hash = JStr ''app-v1:e''\<rparr>]" 0 "''v1:d''"
      "[''v1:d'', ''app-v1:e'']" 1 "''app-v1:e''" "[''v1:d'', ''app-v1:e'']"]
  by (simp add: canonicalizeAnalysisRows_def canonicalize_row_def alias_map_def group_aliases_def
      pairwise_def)

end
