(* ===== verification/IdentityLifecycle.thy ===== *)
theory IdentityLifecycle
  imports Identity
begin

text \<open>
  The App identity record and its destructive reset, \<open>packages/privacy/src\<close>:
  \<open>app-identity-lifecycle.ts\<close>, \<open>app-identity-record.ts\<close>, \<open>app-identity-reset.ts\<close>,
  the provisioning of \<open>app-identity-store.ts\<close> and the salt store of
  \<open>derived-salt-store.ts\<close>. A thrown error is its message. The encryption of the stored
  record is not modelled: the store keeps the canonical record. The purgers and releasers
  of a reset, the random key and the failures of a save are the environment of one call,
  so a crash at any point is a call whose environment fails there.
\<close>

section \<open>The lifecycle\<close>

datatype reset_store = RunsAndCredentials | Delivery | AssignmentsStore | Analytics | RetryClaims
  | EntityDeletions | PrivacySubjectRefs

datatype reset_release = EvaluationRelease | EventIngestRelease

definition store_name :: "reset_store \<Rightarrow> string" where
  "store_name s = (case s of RunsAndCredentials \<Rightarrow> ''runs_and_credentials'' | Delivery \<Rightarrow> ''delivery''
     | AssignmentsStore \<Rightarrow> ''assignments'' | Analytics \<Rightarrow> ''analytics'' | RetryClaims \<Rightarrow> ''retry_claims''
     | EntityDeletions \<Rightarrow> ''entity_deletions'' | PrivacySubjectRefs \<Rightarrow> ''privacy_subject_refs'')"

definition release_name :: "reset_release \<Rightarrow> string" where
  "release_name r = (case r of EvaluationRelease \<Rightarrow> ''evaluation'' | EventIngestRelease \<Rightarrow> ''event_ingest'')"

definition APP_IDENTITY_RESET_STORES :: "reset_store list" where
  "APP_IDENTITY_RESET_STORES = [RunsAndCredentials, Delivery, AssignmentsStore, Analytics, RetryClaims,
     EntityDeletions, PrivacySubjectRefs]"

definition APP_IDENTITY_RESET_RELEASES :: "reset_release list" where
  "APP_IDENTITY_RESET_RELEASES = [EvaluationRelease, EventIngestRelease]"

datatype lifecycle_state = ActiveState | BlockedState | PurgingState | ActivationPending

record lifecycle =
  lc_state :: lifecycle_state
  trafficBlocked :: bool
  resetId :: "string option"
  proofs :: "reset_store \<Rightarrow> string option"
  releaseProofs :: "reset_release \<Rightarrow> string option"

definition ACTIVE_APP_IDENTITY_LIFECYCLE :: lifecycle where
  "ACTIVE_APP_IDENTITY_LIFECYCLE = \<lparr>lc_state = ActiveState, trafficBlocked = False, resetId = None,
     proofs = (\<lambda>_. None), releaseProofs = (\<lambda>_. None)\<rparr>"

definition blockedAppIdentityLifecycle :: "string \<Rightarrow> string + lifecycle" where
  "blockedAppIdentityLifecycle rid =
     (if trim rid = [] then Inl ''privacy: App identity resetId is empty''
      else Inr \<lparr>lc_state = BlockedState, trafficBlocked = True, resetId = Some rid,
        proofs = (\<lambda>_. None), releaseProofs = (\<lambda>_. None)\<rparr>)"

definition withAppIdentityResetProof :: "lifecycle \<Rightarrow> reset_store \<Rightarrow> string \<Rightarrow> string + lifecycle" where
  "withAppIdentityResetProof l s p =
     (if \<not> trafficBlocked l \<or> lc_state l = ActiveState
      then Inl ''privacy: cannot record reset proof before traffic is blocked''
      else if trim p = [] then Inl (''privacy: '' @ store_name s @ '' reset proof is empty'')
      else Inr \<lparr>lc_state = PurgingState, trafficBlocked = True, resetId = resetId l,
        proofs = (proofs l)(s := Some p), releaseProofs = releaseProofs l\<rparr>)"

fun first_missing :: "('a \<Rightarrow> string option) \<Rightarrow> 'a list \<Rightarrow> 'a option" where
  "first_missing f [] = None"
| "first_missing f (x # xs) = (if f x = None then Some x else first_missing f xs)"

definition assertAppIdentityResetProved :: "lifecycle \<Rightarrow> string + unit" where
  "assertAppIdentityResetProved l = (case first_missing (proofs l) APP_IDENTITY_RESET_STORES of
     Some s \<Rightarrow> Inl (''privacy: cannot activate before '' @ store_name s @ '' purge proof'')
   | None \<Rightarrow> Inr ())"

definition assertAppIdentityResetReleased :: "lifecycle \<Rightarrow> string + unit" where
  "assertAppIdentityResetReleased l = (case first_missing (releaseProofs l) APP_IDENTITY_RESET_RELEASES of
     Some r \<Rightarrow> Inl (''privacy: cannot activate before '' @ release_name r @ '' release proof'')
   | None \<Rightarrow> Inr ())"

definition activationPendingAppIdentityLifecycle :: "lifecycle \<Rightarrow> string + lifecycle" where
  "activationPendingAppIdentityLifecycle l = ebind (assertAppIdentityResetProved l) (\<lambda>_.
     Inr \<lparr>lc_state = ActivationPending, trafficBlocked = True, resetId = resetId l,
       proofs = proofs l, releaseProofs = releaseProofs l\<rparr>)"

definition withAppIdentityResetReleaseProof ::
  "lifecycle \<Rightarrow> reset_release \<Rightarrow> string \<Rightarrow> string + lifecycle" where
  "withAppIdentityResetReleaseProof l r p =
     (if lc_state l \<noteq> ActivationPending \<or> \<not> trafficBlocked l
      then Inl ''privacy: cannot record reset release before activation is pending''
      else if trim p = [] then Inl (''privacy: '' @ release_name r @ '' reset release proof is empty'')
      else Inr (l\<lparr>releaseProofs := (releaseProofs l)(r := Some p)\<rparr>))"

definition activeAppIdentityLifecycle :: "lifecycle \<Rightarrow> string + lifecycle" where
  "activeAppIdentityLifecycle l = ebind (assertAppIdentityResetReleased l) (\<lambda>_.
     Inr (l\<lparr>lc_state := ActiveState, trafficBlocked := False\<rparr>))"

definition assertAppIdentityTrafficAllowed :: "lifecycle \<Rightarrow> string + unit" where
  "assertAppIdentityTrafficAllowed l = (if lc_state l \<noteq> ActiveState \<or> trafficBlocked l
     then Inl ''privacy: App identity traffic is blocked'' else Inr ())"

section \<open>Parsing a stored lifecycle\<close>

definition assertExactKeys :: "jsval \<Rightarrow> string list \<Rightarrow> string + unit" where
  "assertExactKeys v ks = (if exact_keys v ks then Inr ()
     else Inl ''privacy: App identity lifecycle contains unknown or missing fields'')"

definition parse_state :: "jsval \<Rightarrow> lifecycle_state option" where
  "parse_state v = (if v = JStr ''active'' then Some ActiveState
     else if v = JStr ''blocked'' then Some BlockedState
     else if v = JStr ''purging'' then Some PurgingState
     else if v = JStr ''activation_pending'' then Some ActivationPending else None)"

definition parse_proof :: "jsval \<Rightarrow> string option option" where
  "parse_proof v = (case v of Null \<Rightarrow> Some None
     | JStr p \<Rightarrow> if trim p = [] then None else Some (Some p) | _ \<Rightarrow> None)"

definition parseLifecycleHeader ::
  "jsval \<Rightarrow> string + (lifecycle_state \<times> bool \<times> string option)" where
  "parseLifecycleHeader raw = (case parse_state (jprop raw ''state'') of
     None \<Rightarrow> Inl ''privacy: ambiguous App identity lifecycle state''
   | Some st \<Rightarrow> (case jprop raw ''trafficBlocked'' of
       JBool b \<Rightarrow> (if (if st = ActiveState then b else \<not> b)
          then Inl ''privacy: inconsistent App identity traffic block''
          else (case parse_proof (jprop raw ''resetId'') of
            None \<Rightarrow> Inl ''privacy: ambiguous App identity resetId''
          | Some rid \<Rightarrow> Inr (st, b, rid)))
     | _ \<Rightarrow> Inl ''privacy: ambiguous App identity traffic block''))"

fun parse_named ::
  "('a \<Rightarrow> string) \<Rightarrow> string \<Rightarrow> jsval \<Rightarrow> 'a list \<Rightarrow> ('a \<Rightarrow> string option) \<Rightarrow> string + ('a \<Rightarrow> string option)"
where
  "parse_named nm msg raw [] acc = Inr acc"
| "parse_named nm msg raw (x # xs) acc = (case parse_proof (jprop raw (nm x)) of
     None \<Rightarrow> Inl (''privacy: ambiguous '' @ nm x @ msg)
   | Some p \<Rightarrow> parse_named nm msg raw xs (acc(x := p)))"

definition parseProofs :: "jsval \<Rightarrow> string + (reset_store \<Rightarrow> string option)" where
  "parseProofs v = (if \<not> is_object v then Inl ''privacy: ambiguous App identity reset proofs''
     else ebind (assertExactKeys v (map store_name APP_IDENTITY_RESET_STORES)) (\<lambda>_.
       parse_named store_name '' reset proof'' v APP_IDENTITY_RESET_STORES (\<lambda>_. None)))"

definition parseReleaseProofs :: "jsval \<Rightarrow> string + (reset_release \<Rightarrow> string option)" where
  "parseReleaseProofs v = (if \<not> is_object v then Inl ''privacy: ambiguous App identity reset release proofs''
     else ebind (assertExactKeys v (map release_name APP_IDENTITY_RESET_RELEASES)) (\<lambda>_.
       parse_named release_name '' reset release proof'' v APP_IDENTITY_RESET_RELEASES (\<lambda>_. None)))"

definition lifecycle_keys :: "string list" where
  "lifecycle_keys = [''state'', ''trafficBlocked'', ''resetId'', ''proofs'', ''releaseProofs'']"

definition parseAppIdentityLifecycle :: "jsval \<Rightarrow> string + lifecycle" where
  "parseAppIdentityLifecycle v = (if \<not> is_object v then Inl ''privacy: ambiguous App identity lifecycle''
     else ebind (assertExactKeys v lifecycle_keys) (\<lambda>_.
     ebind (parseLifecycleHeader v) (\<lambda>(st, b, rid).
     ebind (parseProofs (jprop v ''proofs'')) (\<lambda>ps.
     ebind (parseReleaseProofs (jprop v ''releaseProofs'')) (\<lambda>rs.
     Inr \<lparr>lc_state = st, trafficBlocked = b, resetId = rid, proofs = ps, releaseProofs = rs\<rparr>)))))"

text \<open>What \<open>JSON.stringify\<close> writes of a lifecycle.\<close>

definition nullable :: "string option \<Rightarrow> jsval" where
  "nullable p = (case p of None \<Rightarrow> Null | Some s \<Rightarrow> JStr s)"

definition state_json :: "lifecycle_state \<Rightarrow> jsval" where
  "state_json st = JStr (case st of ActiveState \<Rightarrow> ''active'' | BlockedState \<Rightarrow> ''blocked''
     | PurgingState \<Rightarrow> ''purging'' | ActivationPending \<Rightarrow> ''activation_pending'')"

definition lifecycle_json :: "lifecycle \<Rightarrow> jsval" where
  "lifecycle_json l = JObj
     [(''state'', state_json (lc_state l)), (''trafficBlocked'', JBool (trafficBlocked l)),
      (''resetId'', nullable (resetId l)),
      (''proofs'', JObj (map (\<lambda>s. (store_name s, nullable (proofs l s))) APP_IDENTITY_RESET_STORES)),
      (''releaseProofs'',
        JObj (map (\<lambda>r. (release_name r, nullable (releaseProofs l r))) APP_IDENTITY_RESET_RELEASES))]"

section \<open>The identity record\<close>

datatype epoch_role = Lookup | RetainedRole | ActiveRole

record epoch =
  ep_version :: string
  ep_key :: salt_bytes
  ep_role :: epoch_role

record identity_record =
  currentVersion :: string
  epochs :: "epoch list"
  lifecycle_of :: lifecycle

definition assertEpochShape :: "epoch \<Rightarrow> string set \<Rightarrow> string + string set" where
  "assertEpochShape e versions =
     (if ep_version e \<in> versions then Inl (''privacy: ambiguous App identity epoch '' @ ep_version e)
      else if ep_role e = Lookup \<and> isAppIdentityKeyVersion (ep_version e)
        then Inl (''privacy: App identity epoch '' @ ep_version e @ '' cannot be lookup-only'')
      else if ep_role e \<noteq> Lookup \<and> isHistoricalSharedRootKeyVersion (ep_version e)
        then Inl (''privacy: historical shared-root epoch '' @ ep_version e @ '' is lookup-only'')
      else if ep_key e = [] then Inl (''privacy: empty App identity key for '' @ ep_version e)
      else Inr (insert (ep_version e) versions))"

fun check_epochs :: "epoch list \<Rightarrow> string set \<Rightarrow> string list \<Rightarrow> string + string list" where
  "check_epochs [] versions active = Inr active"
| "check_epochs (e # es) versions active = ebind (assertEpochShape e versions) (\<lambda>versions.
     check_epochs es versions (if ep_role e = ActiveRole then active @ [ep_version e] else active))"

definition assertUniqueEpochs :: "epoch list \<Rightarrow> string + string" where
  "assertUniqueEpochs es = ebind (check_epochs es {} []) (\<lambda>active. case active of
     [v] \<Rightarrow> Inr v
   | _ \<Rightarrow> Inl ''privacy: App identity record must have exactly one active current epoch'')"

text \<open>The lifecycle of a record in memory is checked by parsing it as the object it is.\<close>

definition assertCanonicalAppIdentityRecord :: "identity_record \<Rightarrow> string + identity_record" where
  "assertCanonicalAppIdentityRecord r =
     (if epochs r = [] then Inl ''privacy: App identity record has no epochs''
      else if \<not> isAppIdentityKeyVersion (currentVersion r)
        then Inl ''privacy: current App identity version must be an app-vN epoch''
      else ebind (assertUniqueEpochs (epochs r)) (\<lambda>v.
        if v \<noteq> currentVersion r
        then Inl ''privacy: App identity record must have exactly one active current epoch''
        else ebind (parseAppIdentityLifecycle (lifecycle_json (lifecycle_of r))) (\<lambda>l.
          Inr \<lparr>currentVersion = currentVersion r, epochs = epochs r, lifecycle_of = l\<rparr>)))"

section \<open>The store and the reset\<close>

text \<open>
  One App's durable record, and actions on it that return or throw. A save writes the
  canonical record, or fails without writing.
\<close>

type_synonym 'a act = "identity_record option \<Rightarrow> (string + 'a) \<times> identity_record option"

definition abind :: "'a act \<Rightarrow> ('a \<Rightarrow> 'b act) \<Rightarrow> 'b act" where
  "abind m k st = (case m st of (Inl e, st) \<Rightarrow> (Inl e, st) | (Inr v, st) \<Rightarrow> k v st)"

definition areturn :: "'a \<Rightarrow> 'a act" where "areturn v st = (Inr v, st)"

definition athrow :: "string \<Rightarrow> 'a act" where "athrow e st = (Inl e, st)"

definition alift :: "string + 'a \<Rightarrow> 'a act" where "alift r st = (r, st)"

record reset_env =
  purgers :: "reset_store \<Rightarrow> string \<Rightarrow> string list \<Rightarrow> string + string"
  releasers :: "reset_release \<Rightarrow> identity_record \<Rightarrow> string + string"
  save_fails :: "identity_record \<Rightarrow> string option"
  fresh_key :: salt_bytes

definition save_record :: "reset_env \<Rightarrow> identity_record \<Rightarrow> unit act" where
  "save_record env r st = (case assertCanonicalAppIdentityRecord r of
     Inl e \<Rightarrow> (Inl e, st)
   | Inr c \<Rightarrow> (case save_fails env r of Some e \<Rightarrow> (Inl e, st) | None \<Rightarrow> (Inr (), Some c)))"

definition requireAppIdentityRecord :: "identity_record act" where
  "requireAppIdentityRecord st = (case st of
     None \<Rightarrow> (Inl ''privacy: App identity is unprovisioned'', st)
   | Some r \<Rightarrow> (assertCanonicalAppIdentityRecord r, st))"

fun purge_stores :: "reset_env \<Rightarrow> string list \<Rightarrow> reset_store list \<Rightarrow> identity_record \<Rightarrow> identity_record act" where
  "purge_stores env destroyed [] current = areturn current"
| "purge_stores env destroyed (s # ss) current =
     (if proofs (lifecycle_of current) s \<noteq> None then purge_stores env destroyed ss current
      else abind (alift (purgers env s (currentVersion current) destroyed)) (\<lambda>p.
        abind (alift (withAppIdentityResetProof (lifecycle_of current) s p)) (\<lambda>l.
        abind (save_record env (current\<lparr>lifecycle_of := l\<rparr>)) (\<lambda>_.
          purge_stores env destroyed ss (current\<lparr>lifecycle_of := l\<rparr>)))))"

definition purgePendingStores :: "reset_env \<Rightarrow> identity_record \<Rightarrow> identity_record act" where
  "purgePendingStores env current =
     purge_stores env (remdups_first (map ep_version (epochs current))) APP_IDENTITY_RESET_STORES current"

fun release_sinks :: "reset_env \<Rightarrow> reset_release list \<Rightarrow> identity_record \<Rightarrow> identity_record act" where
  "release_sinks env [] current = areturn current"
| "release_sinks env (r # rs) current =
     (if releaseProofs (lifecycle_of current) r \<noteq> None then release_sinks env rs current
      else abind (alift (releasers env r current)) (\<lambda>p.
        abind (alift (withAppIdentityResetReleaseProof (lifecycle_of current) r p)) (\<lambda>l.
        abind (save_record env (current\<lparr>lifecycle_of := l\<rparr>)) (\<lambda>_.
          release_sinks env rs (current\<lparr>lifecycle_of := l\<rparr>)))))"

definition releasePendingSinks :: "reset_env \<Rightarrow> identity_record \<Rightarrow> identity_record act" where
  "releasePendingSinks env current = release_sinks env APP_IDENTITY_RESET_RELEASES current"

text \<open>\<open>runReset\<close>: block, purge, rotate the key, release, activate; each stage is skipped
  when the stored record shows it is behind.\<close>

definition begin_reset :: "reset_env \<Rightarrow> string \<Rightarrow> identity_record \<Rightarrow> identity_record act" where
  "begin_reset env rid current =
     (if lc_state (lifecycle_of current) = ActiveState then
        abind (alift (blockedAppIdentityLifecycle rid)) (\<lambda>l.
        abind (save_record env (current\<lparr>lifecycle_of := l\<rparr>)) (\<lambda>_.
          areturn (current\<lparr>lifecycle_of := l\<rparr>)))
      else if resetId (lifecycle_of current) \<noteq> Some rid
        then athrow ''privacy: a different App identity reset is already running''
      else areturn current)"

definition purge_and_rotate :: "reset_env \<Rightarrow> identity_record \<Rightarrow> identity_record act" where
  "purge_and_rotate env current =
     (if lc_state (lifecycle_of current) = ActivationPending then areturn current
      else abind (purgePendingStores env current) (\<lambda>current.
        abind (alift (assertAppIdentityResetProved (lifecycle_of current))) (\<lambda>_.
        abind (alift (case nextAppIdentityVersion (currentVersion current) of
            Inl _ \<Rightarrow> Inl (''privacy: cannot advance non-app identity version '' @ currentVersion current)
          | Inr v \<Rightarrow> Inr v)) (\<lambda>v.
        abind (alift (activationPendingAppIdentityLifecycle (lifecycle_of current))) (\<lambda>l.
        let next = \<lparr>currentVersion = v,
              epochs = [\<lparr>ep_version = v, ep_key = fresh_key env, ep_role = ActiveRole\<rparr>],
              lifecycle_of = l\<rparr>
        in abind (save_record env next) (\<lambda>_. areturn next))))))"

definition runReset :: "reset_env \<Rightarrow> string \<Rightarrow> identity_record act" where
  "runReset env rid =
     abind requireAppIdentityRecord (\<lambda>current.
     if lc_state (lifecycle_of current) = ActiveState \<and> resetId (lifecycle_of current) = Some rid
     then areturn current
     else abind (begin_reset env rid current) (\<lambda>current.
       abind (purge_and_rotate env current) (\<lambda>current.
       abind (releasePendingSinks env current) (\<lambda>current.
       abind (alift (activeAppIdentityLifecycle (lifecycle_of current))) (\<lambda>l.
       abind (save_record env (current\<lparr>lifecycle_of := l\<rparr>)) (\<lambda>_.
         areturn (current\<lparr>lifecycle_of := l\<rparr>)))))))"

datatype reset_serialization = Durable | TestSerialization | ProcessLocal

definition resetCompromisedAppIdentity ::
  "reset_serialization \<Rightarrow> reset_env \<Rightarrow> string \<Rightarrow> identity_record act" where
  "resetCompromisedAppIdentity ser env rid = (if ser = ProcessLocal
     then athrow ''privacy: compromised App identity reset requires a durable serialized owner''
     else runReset env rid)"

section \<open>What parsing accepts\<close>

definition good_text :: "string option \<Rightarrow> bool" where
  "good_text p \<longleftrightarrow> (\<forall>t. p = Some t \<longrightarrow> trim t \<noteq> [])"

definition wf_lifecycle :: "lifecycle \<Rightarrow> bool" where
  "wf_lifecycle l \<longleftrightarrow> (trafficBlocked l \<longleftrightarrow> lc_state l \<noteq> ActiveState) \<and> good_text (resetId l)
     \<and> (\<forall>s. good_text (proofs l s)) \<and> (\<forall>r. good_text (releaseProofs l r))"

lemma all_stores: "s \<in> set APP_IDENTITY_RESET_STORES"
  by (cases s) (simp_all add: APP_IDENTITY_RESET_STORES_def)

lemma all_releases: "r \<in> set APP_IDENTITY_RESET_RELEASES"
  by (cases r) (simp_all add: APP_IDENTITY_RESET_RELEASES_def)

lemma parse_proof_nullable: "parse_proof (nullable p) = (if good_text p then Some p else None)"
  by (cases p) (auto simp: parse_proof_def nullable_def good_text_def)

lemma parse_state_json [simp]: "parse_state (state_json st) = Some st"
  by (cases st) (simp_all add: parse_state_def state_json_def)

lemma store_name_inj [simp]: "store_name a = store_name b \<longleftrightarrow> a = b"
  by (cases a; cases b) (simp_all add: store_name_def)

lemma release_name_inj [simp]: "release_name a = release_name b \<longleftrightarrow> a = b"
  by (cases a; cases b) (simp_all add: release_name_def)

lemma jprop_named:
  assumes "\<And>a b. nm a = nm b \<longleftrightarrow> a = b" "x \<in> set xs"
  shows "jprop (JObj (map (\<lambda>s. (nm s, nullable (f s))) xs)) (nm x) = nullable (f x)"
  using assms(2) by (induction xs) (auto simp: assms(1))

lemma parse_named_json:
  assumes "\<And>a b. nm a = nm b \<longleftrightarrow> a = b" and "set ys \<subseteq> set xs"
  shows "parse_named nm msg (JObj (map (\<lambda>s. (nm s, nullable (f s))) xs)) ys acc =
    (case find (\<lambda>y. \<not> good_text (f y)) ys of
       Some y \<Rightarrow> Inl (''privacy: ambiguous '' @ nm y @ msg)
     | None \<Rightarrow> Inr (\<lambda>x. if x \<in> set ys then f x else acc x))"
  using assms(2)
proof (induction ys arbitrary: acc)
  case (Cons y ys)
  have "jprop (JObj (map (\<lambda>s. (nm s, nullable (f s))) xs)) (nm y) = nullable (f y)"
    using Cons.prems by (intro jprop_named assms(1)) auto
  moreover have "(\<lambda>x. if x \<in> set ys then f x else (acc(y := f y)) x)
      = (\<lambda>x. if x \<in> set (y # ys) then f x else acc x)" by auto
  ultimately show ?case
    using Cons by (auto simp: parse_proof_nullable fun_upd_def split: option.splits)
qed simp

lemma exact_keys_named:
  "exact_keys (JObj (map (\<lambda>s. (nm s, nullable (f s))) xs)) (map nm xs)"
  by (simp add: exact_keys_def comp_def)

lemma parseProofs_json:
  "parseProofs (JObj (map (\<lambda>s. (store_name s, nullable (f s))) APP_IDENTITY_RESET_STORES)) =
    (case find (\<lambda>s. \<not> good_text (f s)) APP_IDENTITY_RESET_STORES of
       Some s \<Rightarrow> Inl (''privacy: ambiguous '' @ store_name s @ '' reset proof'') | None \<Rightarrow> Inr f)"
  by (simp add: parseProofs_def assertExactKeys_def exact_keys_named parse_named_json all_stores
      cong: option.case_cong)

lemma parseReleaseProofs_json:
  "parseReleaseProofs (JObj (map (\<lambda>s. (release_name s, nullable (f s))) APP_IDENTITY_RESET_RELEASES)) =
    (case find (\<lambda>s. \<not> good_text (f s)) APP_IDENTITY_RESET_RELEASES of
       Some s \<Rightarrow> Inl (''privacy: ambiguous '' @ release_name s @ '' reset release proof'') | None \<Rightarrow> Inr f)"
  by (simp add: parseReleaseProofs_def assertExactKeys_def exact_keys_named parse_named_json all_releases
      cong: option.case_cong)

lemma lifecycle_json_props [simp]:
  "jprop (lifecycle_json l) ''state'' = state_json (lc_state l)"
  "jprop (lifecycle_json l) ''trafficBlocked'' = JBool (trafficBlocked l)"
  "jprop (lifecycle_json l) ''resetId'' = nullable (resetId l)"
  "jprop (lifecycle_json l) ''proofs'' =
     JObj (map (\<lambda>s. (store_name s, nullable (proofs l s))) APP_IDENTITY_RESET_STORES)"
  "jprop (lifecycle_json l) ''releaseProofs'' =
     JObj (map (\<lambda>r. (release_name r, nullable (releaseProofs l r))) APP_IDENTITY_RESET_RELEASES)"
  "is_object (lifecycle_json l)"
  by (simp_all add: lifecycle_json_def)

lemma lifecycle_json_keys [simp]: "assertExactKeys (lifecycle_json l) lifecycle_keys = Inr ()"
  by (simp add: assertExactKeys_def exact_keys_def lifecycle_json_def lifecycle_keys_def)

lemma parseLifecycleHeader_json:
  "parseLifecycleHeader (lifecycle_json l) =
     (if trafficBlocked l \<longleftrightarrow> lc_state l = ActiveState
      then Inl ''privacy: inconsistent App identity traffic block''
      else if good_text (resetId l) then Inr (lc_state l, trafficBlocked l, resetId l)
      else Inl ''privacy: ambiguous App identity resetId'')"
  by (auto simp: parseLifecycleHeader_def parse_proof_nullable)

lemma parse_lifecycle_json:
  "wf_lifecycle l \<Longrightarrow> parseAppIdentityLifecycle (lifecycle_json l) = Inr l"
  by (auto simp: parseAppIdentityLifecycle_def parseLifecycleHeader_json parseProofs_json
      parseReleaseProofs_json wf_lifecycle_def find_None_iff split: option.splits
      dest!: find_Some_iff[THEN iffD1])

lemma parse_lifecycle_json_Inr:
  assumes "parseAppIdentityLifecycle (lifecycle_json l) = Inr l'"
  shows "l' = l \<and> wf_lifecycle l"
proof -
  have "find (\<lambda>s. \<not> good_text (proofs l s)) APP_IDENTITY_RESET_STORES = None"
    "find (\<lambda>r. \<not> good_text (releaseProofs l r)) APP_IDENTITY_RESET_RELEASES = None"
    "(trafficBlocked l \<longleftrightarrow> lc_state l \<noteq> ActiveState) \<and> good_text (resetId l)"
    using assms by (auto simp: parseAppIdentityLifecycle_def parseLifecycleHeader_json parseProofs_json
      parseReleaseProofs_json ebind_eq_Inr split: if_splits option.splits)
  then have "wf_lifecycle l"
    using all_stores all_releases by (auto simp: wf_lifecycle_def find_None_iff)
  with assms show ?thesis by (simp add: parse_lifecycle_json)
qed

section \<open>Canonical records and saving\<close>

definition canonical :: "identity_record \<Rightarrow> bool" where
  "canonical r \<longleftrightarrow> epochs r \<noteq> [] \<and> isAppIdentityKeyVersion (currentVersion r)
     \<and> assertUniqueEpochs (epochs r) = Inr (currentVersion r) \<and> wf_lifecycle (lifecycle_of r)"

lemma canonical_Inr: "assertCanonicalAppIdentityRecord r = Inr c \<longleftrightarrow> c = r \<and> canonical r"
  by (auto simp: assertCanonicalAppIdentityRecord_def canonical_def ebind_eq_Inr parse_lifecycle_json
      dest: parse_lifecycle_json_Inr split: if_splits)

lemma canonical_Inl: "\<not> canonical r \<Longrightarrow> \<exists>e. assertCanonicalAppIdentityRecord r = Inl e"
  using canonical_Inr[of r] by (cases "assertCanonicalAppIdentityRecord r") auto

lemma canonical_single:
  "\<lbrakk>isAppIdentityKeyVersion v; k \<noteq> []; wf_lifecycle l\<rbrakk> \<Longrightarrow>
     canonical \<lparr>currentVersion = v, epochs = [\<lparr>ep_version = v, ep_key = k, ep_role = ActiveRole\<rparr>],
       lifecycle_of = l\<rparr>"
  using historical_not_app[of v]
  by (auto simp: canonical_def assertUniqueEpochs_def assertEpochShape_def)

lemma canonical_lifecycle: "canonical r \<Longrightarrow> canonical (r\<lparr>lifecycle_of := l\<rparr>) \<longleftrightarrow> wf_lifecycle l"
  by (simp add: canonical_def)

lemma save_record_cases:
  obtains (failed) e where "save_record env r st = (Inl e, st)" "\<not> canonical r \<or> save_fails env r \<noteq> None"
  | (saved) "canonical r" "save_record env r st = (Inr (), Some r)"
proof (cases "canonical r")
  case True
  then have "assertCanonicalAppIdentityRecord r = Inr r" by (simp add: canonical_Inr)
  with True that show ?thesis by (cases "save_fails env r") (auto simp: save_record_def)
next
  case False
  then obtain e where "assertCanonicalAppIdentityRecord r = Inl e" using canonical_Inl by blast
  with False that(1) show ?thesis by (simp add: save_record_def)
qed

lemma first_missing_None: "first_missing f xs = None \<longleftrightarrow> (\<forall>x\<in>set xs. f x \<noteq> None)"
  by (induction xs) auto

lemma proved_iff: "assertAppIdentityResetProved l = Inr () \<longleftrightarrow> (\<forall>s. proofs l s \<noteq> None)"
  using all_stores first_missing_None[of "proofs l" APP_IDENTITY_RESET_STORES]
  by (auto simp: assertAppIdentityResetProved_def split: option.splits)

lemma released_iff: "assertAppIdentityResetReleased l = Inr () \<longleftrightarrow> (\<forall>r. releaseProofs l r \<noteq> None)"
  using all_releases first_missing_None[of "releaseProofs l" APP_IDENTITY_RESET_RELEASES]
  by (auto simp: assertAppIdentityResetReleased_def split: option.splits)

section \<open>The reset as a state machine\<close>

text \<open>
  The abstract steps a stored record may take under the reset \<open>rid\<close>: this is the
  contract, and \<open>runReset\<close> is shown to do nothing else, however it fails.
\<close>

inductive reset_step :: "string \<Rightarrow> identity_record \<Rightarrow> identity_record \<Rightarrow> bool" for rid where
  block: "\<lbrakk>lc_state (lifecycle_of r) = ActiveState; resetId (lifecycle_of r) \<noteq> Some rid;
     blockedAppIdentityLifecycle rid = Inr l\<rbrakk> \<Longrightarrow> reset_step rid r (r\<lparr>lifecycle_of := l\<rparr>)"
| purge: "\<lbrakk>lc_state (lifecycle_of r) \<in> {BlockedState, PurgingState}; resetId (lifecycle_of r) = Some rid;
     proofs (lifecycle_of r) s = None; withAppIdentityResetProof (lifecycle_of r) s p = Inr l\<rbrakk>
     \<Longrightarrow> reset_step rid r (r\<lparr>lifecycle_of := l\<rparr>)"
| rotate: "\<lbrakk>lc_state (lifecycle_of r) \<in> {BlockedState, PurgingState}; resetId (lifecycle_of r) = Some rid;
     activationPendingAppIdentityLifecycle (lifecycle_of r) = Inr l;
     nextAppIdentityVersion (currentVersion r) = Inr v; k \<noteq> []\<rbrakk>
     \<Longrightarrow> reset_step rid r \<lparr>currentVersion = v,
           epochs = [\<lparr>ep_version = v, ep_key = k, ep_role = ActiveRole\<rparr>], lifecycle_of = l\<rparr>"
| release: "\<lbrakk>lc_state (lifecycle_of r) = ActivationPending; resetId (lifecycle_of r) = Some rid;
     releaseProofs (lifecycle_of r) x = None; withAppIdentityResetReleaseProof (lifecycle_of r) x p = Inr l\<rbrakk>
     \<Longrightarrow> reset_step rid r (r\<lparr>lifecycle_of := l\<rparr>)"
| activate: "\<lbrakk>lc_state (lifecycle_of r) = ActivationPending; resetId (lifecycle_of r) = Some rid;
     activeAppIdentityLifecycle (lifecycle_of r) = Inr l\<rbrakk>
     \<Longrightarrow> reset_step rid r (r\<lparr>lifecycle_of := l\<rparr>)"

inductive_cases reset_stepE: "reset_step rid r r'"

text \<open>What each state of a stored record promises.\<close>

definition single_epoch :: "identity_record \<Rightarrow> bool" where
  "single_epoch r \<longleftrightarrow> map ep_version (epochs r) = [currentVersion r]"

definition phase_inv :: "identity_record \<Rightarrow> bool" where
  "phase_inv r \<longleftrightarrow> (let l = lifecycle_of r in case lc_state l of
     ActiveState \<Rightarrow> resetId l = None \<or>
       (\<forall>s. proofs l s \<noteq> None) \<and> (\<forall>x. releaseProofs l x \<noteq> None) \<and> single_epoch r
   | BlockedState \<Rightarrow> resetId l \<noteq> None \<and> (\<forall>s. proofs l s = None) \<and> (\<forall>x. releaseProofs l x = None)
   | PurgingState \<Rightarrow> resetId l \<noteq> None \<and> (\<forall>x. releaseProofs l x = None)
   | ActivationPending \<Rightarrow> resetId l \<noteq> None \<and> (\<forall>s. proofs l s \<noteq> None) \<and> single_epoch r)"

definition reset_inv :: "identity_record \<Rightarrow> bool" where
  "reset_inv r \<longleftrightarrow> canonical r \<and> phase_inv r"

lemmas lifecycle_op_defs = blockedAppIdentityLifecycle_def withAppIdentityResetProof_def
  activationPendingAppIdentityLifecycle_def withAppIdentityResetReleaseProof_def
  activeAppIdentityLifecycle_def

lemma unit_sum: "(x :: string + unit) = Inr () \<or> (\<exists>e. x = Inl e)"
  by (cases x) auto

lemma reset_step_canonical:
  assumes "canonical r" "reset_step rid r r'"
  shows "canonical r'"
  using assms(2)
proof cases
  case (block l)
  then show ?thesis using assms(1)
    by (auto simp: canonical_lifecycle blockedAppIdentityLifecycle_def wf_lifecycle_def good_text_def
        split: if_splits)
next
  case (purge s p l)
  then show ?thesis using assms(1)
    by (auto simp: canonical_lifecycle withAppIdentityResetProof_def wf_lifecycle_def good_text_def
        canonical_def split: if_splits)
next
  case (rotate l v k)
  then have "isAppIdentityKeyVersion v"
    using nextAppIdentityVersion_app[of "currentVersion r"] assms(1) by (auto simp: canonical_def)
  moreover have "wf_lifecycle l" using rotate assms(1)
    by (auto simp: activationPendingAppIdentityLifecycle_def ebind_eq_Inr wf_lifecycle_def canonical_def)
  ultimately show ?thesis using rotate(1,6) by (simp add: canonical_single)
next
  case (release x p l)
  then show ?thesis using assms(1)
    by (auto simp: canonical_lifecycle withAppIdentityResetReleaseProof_def wf_lifecycle_def
        good_text_def canonical_def split: if_splits)
next
  case (activate l)
  then show ?thesis using assms(1)
    by (auto simp: canonical_lifecycle activeAppIdentityLifecycle_def ebind_eq_Inr wf_lifecycle_def
        canonical_def)
qed

lemma reset_step_phase:
  assumes "phase_inv r" "reset_step rid r r'"
  shows "phase_inv r'"
  using assms(2)
proof cases
  case (block l)
  then show ?thesis
    by (auto simp: phase_inv_def blockedAppIdentityLifecycle_def Let_def split: if_splits)
next
  case (purge s p l)
  then show ?thesis using assms(1)
    by (auto simp: phase_inv_def withAppIdentityResetProof_def Let_def split: if_splits)
next
  case (rotate l v k)
  then show ?thesis using assms(1) unit_sum[of "assertAppIdentityResetProved (lifecycle_of r)"]
    by (auto simp: phase_inv_def activationPendingAppIdentityLifecycle_def Let_def ebind_eq_Inr
        single_epoch_def proved_iff)
next
  case (release x p l)
  then show ?thesis using assms(1)
    by (auto simp: phase_inv_def withAppIdentityResetReleaseProof_def Let_def single_epoch_def
        split: if_splits)
next
  case (activate l)
  then show ?thesis using assms(1)
    by (auto simp: phase_inv_def activeAppIdentityLifecycle_def Let_def ebind_eq_Inr single_epoch_def
        released_iff)
qed

interpretation reset: machine "\<lambda>r r'. \<exists>rid. reset_step rid r r'" reset_inv
  by unfold_locales (auto simp: reset_inv_def intro: reset_step_canonical reset_step_phase)

section \<open>The code refines the state machine\<close>

text \<open>
  \<open>evolves b step m r Q\<close>: run on the stored record \<open>r\<close>, the action leaves a record reached
  by steps; if it returns, \<open>Q\<close> holds of the value and that record; and it does return when
  the environment is benign (\<open>b\<close>).
\<close>

definition evolves ::
  "bool \<Rightarrow> (identity_record \<Rightarrow> identity_record \<Rightarrow> bool) \<Rightarrow> 'a act \<Rightarrow> identity_record
     \<Rightarrow> ('a \<Rightarrow> identity_record \<Rightarrow> bool) \<Rightarrow> bool" where
  "evolves b step m r Q \<longleftrightarrow> (\<exists>r'. snd (m (Some r)) = Some r' \<and> reaches step r r'
     \<and> (\<forall>v. fst (m (Some r)) = Inr v \<longrightarrow> Q v r') \<and> (b \<longrightarrow> (\<exists>v. fst (m (Some r)) = Inr v)))"

lemma evolves_return: "Q v r \<Longrightarrow> evolves b step (areturn v) r Q"
  by (simp add: evolves_def areturn_def reaches.here)

lemma evolves_throw: "\<not> b \<Longrightarrow> evolves b step (athrow e) r Q"
  by (simp add: evolves_def athrow_def reaches.here)

lemma evolves_lift:
  "(\<And>v. x = Inr v \<Longrightarrow> Q v r) \<Longrightarrow> (b \<Longrightarrow> \<exists>v. x = Inr v) \<Longrightarrow> evolves b step (alift x) r Q"
  by (simp add: evolves_def alift_def reaches.here)

lemma evolves_bind:
  assumes "evolves b step m r Q" "\<And>v r'. Q v r' \<Longrightarrow> evolves b step (k v) r' Q'"
  shows "evolves b step (abind m k) r Q'"
proof -
  obtain r1 where r1: "snd (m (Some r)) = Some r1" "reaches step r r1"
    "\<forall>v. fst (m (Some r)) = Inr v \<longrightarrow> Q v r1" "b \<longrightarrow> (\<exists>v. fst (m (Some r)) = Inr v)"
    using assms(1) by (auto simp: evolves_def)
  obtain x where m: "m (Some r) = (x, Some r1)" using r1(1) by (cases "m (Some r)") auto
  show ?thesis
  proof (cases x)
    case (Inl e)
    with m r1 show ?thesis by (auto simp: evolves_def abind_def)
  next
    case (Inr v)
    then have "evolves b step (k v) r1 Q'" using assms(2) r1(3) m by simp
    then obtain r2 where "snd (k v (Some r1)) = Some r2" "reaches step r1 r2"
      "\<forall>w. fst (k v (Some r1)) = Inr w \<longrightarrow> Q' w r2" "b \<longrightarrow> (\<exists>w. fst (k v (Some r1)) = Inr w)"
      unfolding evolves_def by blast
    with Inr m r1(2) show ?thesis by (auto simp: evolves_def abind_def intro: reaches_trans)
  qed
qed

lemma evolves_save:
  assumes "canonical new \<Longrightarrow> step r new" "b \<Longrightarrow> canonical new \<and> save_fails env new = None"
  shows "evolves b step (save_record env new) r (\<lambda>_ r'. r' = new \<and> canonical new)"
  by (cases rule: save_record_cases[of env new "Some r"])
    (use assms in \<open>auto simp: evolves_def intro: reaches.intros\<close>)

text \<open>An environment in which nothing fails.\<close>

definition benign :: "reset_env \<Rightarrow> bool" where
  "benign env \<longleftrightarrow> (\<forall>s v ds. \<exists>p. purgers env s v ds = Inr p \<and> trim p \<noteq> [])
     \<and> (\<forall>x r. \<exists>p. releasers env x r = Inr p \<and> trim p \<noteq> [])
     \<and> (\<forall>r. save_fails env r = None) \<and> fresh_key env \<noteq> []"

definition in_reset :: "string \<Rightarrow> identity_record \<Rightarrow> bool" where
  "in_reset rid r \<longleftrightarrow> reset_inv r \<and> resetId (lifecycle_of r) = Some rid \<and> lc_state (lifecycle_of r) \<noteq> ActiveState"

lemma reset_step_inv: "reset_inv r \<Longrightarrow> reset_step rid r r' \<Longrightarrow> reset_inv r'"
  using reset.inv_step by blast

lemma begin_reset_evolves:
  assumes "reset_inv r" "resetId (lifecycle_of r) \<noteq> Some rid \<or> lc_state (lifecycle_of r) \<noteq> ActiveState"
    and "b \<Longrightarrow> benign env \<and> trim rid \<noteq> []
      \<and> (lc_state (lifecycle_of r) = ActiveState \<or> resetId (lifecycle_of r) = Some rid)"
  shows "evolves b (reset_step rid) (begin_reset env rid r) r (\<lambda>v r'. v = r' \<and> in_reset rid r')"
proof (cases "lc_state (lifecycle_of r) = ActiveState")
  case True
  then have rid: "resetId (lifecycle_of r) \<noteq> Some rid" using assms(2) by simp
  have step: "reset_step rid r (r\<lparr>lifecycle_of := l\<rparr>)" if "blockedAppIdentityLifecycle rid = Inr l" for l
    using True rid that by (rule reset_step.block)
  have can: "canonical (r\<lparr>lifecycle_of := l\<rparr>)" if "blockedAppIdentityLifecycle rid = Inr l" for l
    using reset_step_inv[OF assms(1) step[OF that]] by (simp add: reset_inv_def)
  have fin: "in_reset rid (r\<lparr>lifecycle_of := l\<rparr>)" if l: "blockedAppIdentityLifecycle rid = Inr l" for l
    using reset_step_inv[OF assms(1) step[OF l]] l
    by (auto simp: in_reset_def blockedAppIdentityLifecycle_def split: if_splits)
  have blocked: "b \<Longrightarrow> \<exists>l. blockedAppIdentityLifecycle rid = Inr l"
    using assms(3) by (simp add: blockedAppIdentityLifecycle_def)
  have nofail: "b \<Longrightarrow> save_fails env x = None" for x using assms(3) by (simp add: benign_def)
  show ?thesis
    unfolding begin_reset_def if_P[OF True]
    by (rule evolves_bind[OF evolves_lift[where Q = "\<lambda>l r'. blockedAppIdentityLifecycle rid = Inr l \<and> r' = r"]],
        use blocked in blast, use blocked in blast,
        rule evolves_bind[OF evolves_save])
      (auto intro!: evolves_return step can fin nofail)
next
  case False
  then show ?thesis
    using assms by (auto simp: begin_reset_def in_reset_def intro: evolves_return evolves_throw)
qed

text \<open>One stage of the loops: ask for a proof, record it in the lifecycle, save, go on.\<close>

lemma evolves_stage:
  assumes step: "\<And>p l. ext = Inr p \<Longrightarrow> f p = Inr l \<Longrightarrow> step r (r\<lparr>lifecycle_of := l\<rparr>)"
    and ok: "b \<Longrightarrow> \<exists>p l. ext = Inr p \<and> f p = Inr l \<and> canonical (r\<lparr>lifecycle_of := l\<rparr>)"
    and nofail: "\<And>x. b \<Longrightarrow> save_fails env x = None"
    and rest: "\<And>p l. ext = Inr p \<Longrightarrow> f p = Inr l \<Longrightarrow>
      evolves b step (k (r\<lparr>lifecycle_of := l\<rparr>)) (r\<lparr>lifecycle_of := l\<rparr>) Q"
  shows "evolves b step (abind (alift ext) (\<lambda>p. abind (alift (f p)) (\<lambda>l.
    abind (save_record env (r\<lparr>lifecycle_of := l\<rparr>)) (\<lambda>_. k (r\<lparr>lifecycle_of := l\<rparr>))))) r Q"
proof (rule evolves_bind)
  show "evolves b step (alift ext) r (\<lambda>p r'. r' = r \<and> ext = Inr p)"
    using ok by (intro evolves_lift) auto
next
  fix p r' assume p: "r' = r \<and> ext = Inr p"
  show "evolves b step (abind (alift (f p)) (\<lambda>l.
    abind (save_record env (r\<lparr>lifecycle_of := l\<rparr>)) (\<lambda>_. k (r\<lparr>lifecycle_of := l\<rparr>)))) r' Q"
  proof (rule evolves_bind)
    show "evolves b step (alift (f p)) r' (\<lambda>l r''. r'' = r \<and> f p = Inr l)"
      using ok p by (intro evolves_lift) auto
  next
    fix l r'' assume l: "r'' = r \<and> f p = Inr l"
    have "evolves b step (save_record env (r\<lparr>lifecycle_of := l\<rparr>)) r
        (\<lambda>_ r'. r' = r\<lparr>lifecycle_of := l\<rparr> \<and> canonical (r\<lparr>lifecycle_of := l\<rparr>))"
      using step ok nofail p l by (intro evolves_save) auto
    then show "evolves b step (abind (save_record env (r\<lparr>lifecycle_of := l\<rparr>))
        (\<lambda>_. k (r\<lparr>lifecycle_of := l\<rparr>))) r'' Q"
      using rest p l by (auto intro: evolves_bind)
  qed
qed

lemma purge_stores_evolves:
  assumes "in_reset rid r" "lc_state (lifecycle_of r) \<noteq> ActivationPending" "b \<Longrightarrow> benign env"
  shows "evolves b (reset_step rid) (purge_stores env ds ss r) r
    (\<lambda>v r'. v = r' \<and> in_reset rid r' \<and> lc_state (lifecycle_of r') \<noteq> ActivationPending
       \<and> (\<forall>s. s \<in> set ss \<or> proofs (lifecycle_of r) s \<noteq> None \<longrightarrow> proofs (lifecycle_of r') s \<noteq> None))"
  using assms(1,2)
proof (induction ss arbitrary: r)
  case Nil
  then show ?case by (auto intro: evolves_return)
next
  case (Cons s ss)
  show ?case
  proof (cases "proofs (lifecycle_of r) s = None")
    case False
    have "evolves b (reset_step rid) (purge_stores env ds ss r) r
      (\<lambda>v r'. v = r' \<and> in_reset rid r' \<and> lc_state (lifecycle_of r') \<noteq> ActivationPending
       \<and> (\<forall>s. s \<in> set ss \<or> proofs (lifecycle_of r) s \<noteq> None \<longrightarrow> proofs (lifecycle_of r') s \<noteq> None))"
      by (rule Cons.IH[OF Cons.prems])
    with False show ?thesis by (auto simp: evolves_def)
  next
    case True
    have st: "lc_state (lifecycle_of r) \<in> {BlockedState, PurgingState}"
      using Cons.prems by (cases "lc_state (lifecycle_of r)") (auto simp: in_reset_def)
    have tb: "trafficBlocked (lifecycle_of r)"
      using Cons.prems by (auto simp: in_reset_def reset_inv_def canonical_def wf_lifecycle_def)
    have step: "reset_step rid r (r\<lparr>lifecycle_of := l\<rparr>)"
      if "withAppIdentityResetProof (lifecycle_of r) s p = Inr l" for p l
      using st True Cons.prems that by (intro reset_step.purge) (auto simp: in_reset_def)
    have next_in: "in_reset rid (r\<lparr>lifecycle_of := l\<rparr>) \<and> lc_state l \<noteq> ActivationPending
        \<and> canonical (r\<lparr>lifecycle_of := l\<rparr>)
        \<and> (\<forall>t. t = s \<or> proofs (lifecycle_of r) t \<noteq> None \<longrightarrow> proofs l t \<noteq> None)"
      if l: "withAppIdentityResetProof (lifecycle_of r) s p = Inr l" for p l
      using reset_step_inv[OF _ step[OF l]] Cons.prems l
      by (auto simp: in_reset_def reset_inv_def withAppIdentityResetProof_def split: if_splits)
    have ok: "b \<Longrightarrow> \<exists>l. withAppIdentityResetProof (lifecycle_of r) s p = Inr l" if "trim p \<noteq> []" for p
      using st tb that by (auto simp: withAppIdentityResetProof_def)
    have nofail: "b \<Longrightarrow> save_fails env x = None" for x using assms(3) by (simp add: benign_def)
    have purge_ok: "b \<Longrightarrow> \<exists>p. purgers env s (currentVersion r) ds = Inr p \<and> trim p \<noteq> []"
      using assms(3) by (simp add: benign_def)
    have rest: "evolves b (reset_step rid) (purge_stores env ds ss (r\<lparr>lifecycle_of := l\<rparr>)) (r\<lparr>lifecycle_of := l\<rparr>)
      (\<lambda>v r'. v = r' \<and> in_reset rid r' \<and> lc_state (lifecycle_of r') \<noteq> ActivationPending
       \<and> (\<forall>t. t \<in> set (s # ss) \<or> proofs (lifecycle_of r) t \<noteq> None \<longrightarrow> proofs (lifecycle_of r') t \<noteq> None))"
      if l: "withAppIdentityResetProof (lifecycle_of r) s p = Inr l" for p l
      using Cons.IH[of "r\<lparr>lifecycle_of := l\<rparr>"] next_in[OF l] by (fastforce simp: evolves_def)
    have "evolves b (reset_step rid) (abind (alift (purgers env s (currentVersion r) ds)) (\<lambda>p.
        abind (alift (withAppIdentityResetProof (lifecycle_of r) s p)) (\<lambda>l.
        abind (save_record env (r\<lparr>lifecycle_of := l\<rparr>)) (\<lambda>_.
          purge_stores env ds ss (r\<lparr>lifecycle_of := l\<rparr>))))) r
      (\<lambda>v r'. v = r' \<and> in_reset rid r' \<and> lc_state (lifecycle_of r') \<noteq> ActivationPending
       \<and> (\<forall>t. t \<in> set (s # ss) \<or> proofs (lifecycle_of r) t \<noteq> None \<longrightarrow> proofs (lifecycle_of r') t \<noteq> None))"
      using purge_ok ok next_in by (intro evolves_stage step nofail rest) blast+
    with True show ?thesis by simp
  qed
qed

lemma release_sinks_evolves:
  assumes "in_reset rid r" "lc_state (lifecycle_of r) = ActivationPending" "b \<Longrightarrow> benign env"
  shows "evolves b (reset_step rid) (release_sinks env xs r) r
    (\<lambda>v r'. v = r' \<and> in_reset rid r' \<and> lc_state (lifecycle_of r') = ActivationPending
       \<and> (\<forall>x. x \<in> set xs \<or> releaseProofs (lifecycle_of r) x \<noteq> None \<longrightarrow> releaseProofs (lifecycle_of r') x \<noteq> None))"
  using assms(1,2)
proof (induction xs arbitrary: r)
  case Nil
  then show ?case by (auto intro: evolves_return)
next
  case (Cons x xs)
  show ?case
  proof (cases "releaseProofs (lifecycle_of r) x = None")
    case False
    with Cons.IH[OF Cons.prems] show ?thesis by (auto simp: evolves_def)
  next
    case True
    have tb: "trafficBlocked (lifecycle_of r)"
      using Cons.prems by (auto simp: in_reset_def reset_inv_def canonical_def wf_lifecycle_def)
    have step: "reset_step rid r (r\<lparr>lifecycle_of := l\<rparr>)"
      if "withAppIdentityResetReleaseProof (lifecycle_of r) x p = Inr l" for p l
      using True Cons.prems that by (intro reset_step.release) (auto simp: in_reset_def)
    have next_in: "in_reset rid (r\<lparr>lifecycle_of := l\<rparr>) \<and> lc_state l = ActivationPending
        \<and> canonical (r\<lparr>lifecycle_of := l\<rparr>)
        \<and> (\<forall>t. t = x \<or> releaseProofs (lifecycle_of r) t \<noteq> None \<longrightarrow> releaseProofs l t \<noteq> None)"
      if l: "withAppIdentityResetReleaseProof (lifecycle_of r) x p = Inr l" for p l
      using reset_step_inv[OF _ step[OF l]] Cons.prems l
      by (auto simp: in_reset_def reset_inv_def withAppIdentityResetReleaseProof_def split: if_splits)
    have ok: "\<exists>l. withAppIdentityResetReleaseProof (lifecycle_of r) x p = Inr l" if "trim p \<noteq> []" for p
      using Cons.prems tb that by (auto simp: withAppIdentityResetReleaseProof_def)
    have nofail: "b \<Longrightarrow> save_fails env z = None" for z using assms(3) by (simp add: benign_def)
    have rel_ok: "b \<Longrightarrow> \<exists>p. releasers env x r = Inr p \<and> trim p \<noteq> []"
      using assms(3) by (simp add: benign_def)
    have rest: "evolves b (reset_step rid) (release_sinks env xs (r\<lparr>lifecycle_of := l\<rparr>)) (r\<lparr>lifecycle_of := l\<rparr>)
      (\<lambda>v r'. v = r' \<and> in_reset rid r' \<and> lc_state (lifecycle_of r') = ActivationPending
       \<and> (\<forall>t. t \<in> set (x # xs) \<or> releaseProofs (lifecycle_of r) t \<noteq> None \<longrightarrow> releaseProofs (lifecycle_of r') t \<noteq> None))"
      if l: "withAppIdentityResetReleaseProof (lifecycle_of r) x p = Inr l" for p l
      using Cons.IH[of "r\<lparr>lifecycle_of := l\<rparr>"] next_in[OF l] by (fastforce simp: evolves_def)
    have "evolves b (reset_step rid) (abind (alift (releasers env x r)) (\<lambda>p.
        abind (alift (withAppIdentityResetReleaseProof (lifecycle_of r) x p)) (\<lambda>l.
        abind (save_record env (r\<lparr>lifecycle_of := l\<rparr>)) (\<lambda>_.
          release_sinks env xs (r\<lparr>lifecycle_of := l\<rparr>))))) r
      (\<lambda>v r'. v = r' \<and> in_reset rid r' \<and> lc_state (lifecycle_of r') = ActivationPending
       \<and> (\<forall>t. t \<in> set (x # xs) \<or> releaseProofs (lifecycle_of r) t \<noteq> None \<longrightarrow> releaseProofs (lifecycle_of r') t \<noteq> None))"
      using rel_ok ok next_in by (intro evolves_stage step nofail rest) blast+
    with True show ?thesis by simp
  qed
qed

lemma canonical_key: "canonical \<lparr>currentVersion = v,
     epochs = [\<lparr>ep_version = v, ep_key = k, ep_role = ActiveRole\<rparr>], lifecycle_of = l\<rparr> \<Longrightarrow> k \<noteq> []"
  by (auto simp: canonical_def assertUniqueEpochs_def assertEpochShape_def ebind_eq_Inr split: if_splits)

lemma purge_and_rotate_evolves:
  assumes "in_reset rid r" "b \<Longrightarrow> benign env"
  shows "evolves b (reset_step rid) (purge_and_rotate env r) r
    (\<lambda>v r'. v = r' \<and> in_reset rid r' \<and> lc_state (lifecycle_of r') = ActivationPending)"
proof (cases "lc_state (lifecycle_of r) = ActivationPending")
  case True
  with assms show ?thesis by (auto simp: purge_and_rotate_def intro: evolves_return)
next
  case False
  let ?next = "\<lambda>v l. \<lparr>currentVersion = v,
     epochs = [\<lparr>ep_version = v, ep_key = fresh_key env, ep_role = ActiveRole\<rparr>], lifecycle_of = l\<rparr>"
  let ?Q = "\<lambda>v r'. v = r' \<and> in_reset rid r' \<and> lc_state (lifecycle_of r') = ActivationPending"
  have rotate: "evolves b (reset_step rid)
      (abind (alift (assertAppIdentityResetProved (lifecycle_of r1))) (\<lambda>_.
        abind (alift (case nextAppIdentityVersion (currentVersion r1) of
            Inl _ \<Rightarrow> Inl (''privacy: cannot advance non-app identity version '' @ currentVersion r1)
          | Inr v \<Rightarrow> Inr v)) (\<lambda>v.
        abind (alift (activationPendingAppIdentityLifecycle (lifecycle_of r1))) (\<lambda>l.
        abind (save_record env (?next v l)) (\<lambda>_. areturn (?next v l)))))) r1 ?Q"
    if r1: "in_reset rid r1" "lc_state (lifecycle_of r1) \<noteq> ActivationPending"
      "\<forall>s. proofs (lifecycle_of r1) s \<noteq> None" for r1
  proof -
    have st: "lc_state (lifecycle_of r1) \<in> {BlockedState, PurgingState}"
      using r1(1,2) by (cases "lc_state (lifecycle_of r1)") (auto simp: in_reset_def)
    have proved: "assertAppIdentityResetProved (lifecycle_of r1) = Inr ()" using r1(3) by (simp add: proved_iff)
    obtain v where v: "nextAppIdentityVersion (currentVersion r1) = Inr v"
      using r1(1) nextAppIdentityVersion_app by (auto simp: in_reset_def reset_inv_def canonical_def)
    obtain l where l: "activationPendingAppIdentityLifecycle (lifecycle_of r1) = Inr l"
      using proved by (simp add: activationPendingAppIdentityLifecycle_def)
    have step: "reset_step rid r1 (?next v l)" if "fresh_key env \<noteq> []"
      using st r1(1) v l that by (intro reset_step.rotate) (auto simp: in_reset_def)
    have fin: "in_reset rid (?next v l) \<and> lc_state l = ActivationPending \<and> canonical (?next v l)"
      if "fresh_key env \<noteq> []"
      using reset_step_inv[OF _ step[OF that]] r1(1) l
      by (auto simp: in_reset_def reset_inv_def activationPendingAppIdentityLifecycle_def ebind_eq_Inr)
    have key: "fresh_key env \<noteq> []" if "canonical (?next v l)" using canonical_key[OF that] .
    have save: "evolves b (reset_step rid) (save_record env (?next v l)) r1
        (\<lambda>_ r'. r' = ?next v l \<and> canonical (?next v l))"
      using step key fin assms(2) by (intro evolves_save) (auto simp: benign_def)
    have "evolves b (reset_step rid) (abind (save_record env (?next v l)) (\<lambda>_. areturn (?next v l))) r1 ?Q"
      by (rule evolves_bind[OF save]) (use key fin in \<open>auto intro!: evolves_return\<close>)
    then show ?thesis
      by (simp add: proved v l abind_def alift_def evolves_def)
  qed
  show ?thesis
    unfolding purge_and_rotate_def if_not_P[OF False] purgePendingStores_def Let_def
    by (rule evolves_bind[OF purge_stores_evolves[OF assms(1) False assms(2)]])
      (use all_stores in \<open>auto intro!: rotate\<close>)
qed

lemma runReset_evolves:
  assumes "reset_inv r"
    and "b \<Longrightarrow> benign env \<and> trim rid \<noteq> []
      \<and> (lc_state (lifecycle_of r) = ActiveState \<or> resetId (lifecycle_of r) = Some rid)"
  shows "evolves b (reset_step rid) (runReset env rid) r
    (\<lambda>v r'. v = r' \<and> reset_inv r' \<and> lc_state (lifecycle_of r') = ActiveState
       \<and> resetId (lifecycle_of r') = Some rid)"
    (is "evolves b ?step _ r ?Q")
proof -
  have req: "evolves b ?step requireAppIdentityRecord r (\<lambda>v r'. v = r \<and> r' = r)"
    using assms(1) canonical_Inr[of r]
    by (auto simp: evolves_def requireAppIdentityRecord_def reset_inv_def reaches.here)
  have final: "evolves b ?step (abind (alift (activeAppIdentityLifecycle (lifecycle_of r1))) (\<lambda>l.
       abind (save_record env (r1\<lparr>lifecycle_of := l\<rparr>)) (\<lambda>_. areturn (r1\<lparr>lifecycle_of := l\<rparr>)))) r1 ?Q"
    if r1: "in_reset rid r1" "lc_state (lifecycle_of r1) = ActivationPending"
      "\<forall>x. releaseProofs (lifecycle_of r1) x \<noteq> None" for r1
  proof -
    obtain l where l: "activeAppIdentityLifecycle (lifecycle_of r1) = Inr l"
      using r1(3) released_iff[of "lifecycle_of r1"] by (simp add: activeAppIdentityLifecycle_def)
    have step: "?step r1 (r1\<lparr>lifecycle_of := l\<rparr>)"
      using r1 l by (intro reset_step.activate) (auto simp: in_reset_def)
    have fin: "?Q (r1\<lparr>lifecycle_of := l\<rparr>) (r1\<lparr>lifecycle_of := l\<rparr>) \<and> canonical (r1\<lparr>lifecycle_of := l\<rparr>)"
      using reset_step_inv[OF _ step] r1(1) l
      by (auto simp: in_reset_def reset_inv_def activeAppIdentityLifecycle_def ebind_eq_Inr)
    have save: "evolves b ?step (save_record env (r1\<lparr>lifecycle_of := l\<rparr>)) r1
        (\<lambda>_ r'. r' = r1\<lparr>lifecycle_of := l\<rparr> \<and> canonical (r1\<lparr>lifecycle_of := l\<rparr>))"
      using step fin assms(2) by (intro evolves_save) (auto simp: benign_def)
    have "evolves b ?step (abind (save_record env (r1\<lparr>lifecycle_of := l\<rparr>))
        (\<lambda>_. areturn (r1\<lparr>lifecycle_of := l\<rparr>))) r1 ?Q"
      by (rule evolves_bind[OF save]) (use fin in \<open>auto intro!: evolves_return\<close>)
    then show ?thesis by (simp add: l abind_def alift_def evolves_def)
  qed
  have main: "evolves b ?step (abind (begin_reset env rid r) (\<lambda>current.
       abind (purge_and_rotate env current) (\<lambda>current.
       abind (releasePendingSinks env current) (\<lambda>current.
       abind (alift (activeAppIdentityLifecycle (lifecycle_of current))) (\<lambda>l.
       abind (save_record env (current\<lparr>lifecycle_of := l\<rparr>)) (\<lambda>_.
         areturn (current\<lparr>lifecycle_of := l\<rparr>))))))) r ?Q"
    if "resetId (lifecycle_of r) \<noteq> Some rid \<or> lc_state (lifecycle_of r) \<noteq> ActiveState"
  proof (rule evolves_bind[OF begin_reset_evolves[OF assms(1) that assms(2)]], assumption)
    fix v1 r1 assume 1: "v1 = r1 \<and> in_reset rid r1"
    then have r1: "in_reset rid r1" by simp
    have ben: "b \<Longrightarrow> benign env" using assms(2) by blast
    show "evolves b ?step (abind (purge_and_rotate env v1) (\<lambda>current.
       abind (releasePendingSinks env current) (\<lambda>current.
       abind (alift (activeAppIdentityLifecycle (lifecycle_of current))) (\<lambda>l.
       abind (save_record env (current\<lparr>lifecycle_of := l\<rparr>)) (\<lambda>_.
         areturn (current\<lparr>lifecycle_of := l\<rparr>)))))) r1 ?Q"
      unfolding conjunct1[OF 1] releasePendingSinks_def
      by (rule evolves_bind[OF purge_and_rotate_evolves[OF r1 ben]], assumption,
          clarify, rule evolves_bind[OF release_sinks_evolves[OF _ _ ben]])
        (use all_releases in \<open>auto intro!: final\<close>)
  qed
  show ?thesis
    unfolding runReset_def
    by (rule evolves_bind[OF req])
      (use main assms(1) in \<open>auto intro!: evolves_return\<close>)
qed

section \<open>Versions only grow\<close>

definition version_number :: "identity_record \<Rightarrow> nat" where
  "version_number r = the (appIdentityVersionNumber (currentVersion r))"

text \<open>
  The version counts double, and one more while its purge is under way: every step keeps
  or raises this rank.
\<close>

definition rank :: "identity_record \<Rightarrow> nat" where
  "rank r = 2 * version_number r
     + (if lc_state (lifecycle_of r) \<in> {BlockedState, PurgingState} then 1 else 0)"

lemma reset_step_rank:
  assumes "reset_inv r" "reset_step rid r r'"
  shows "rank r \<le> rank r'"
  using assms(2)
proof cases
  case (rotate l v k)
  then have "version_number r' = Suc (version_number r)"
    using nextAppIdentityVersion_app[of "currentVersion r"] assms(1)
    by (auto simp: reset_inv_def canonical_def version_number_def)
  then show ?thesis by (simp add: rank_def)
qed (auto simp: rank_def version_number_def lifecycle_op_defs ebind_eq_Inr split: if_splits)

lemma reset_reaches_rank:
  "reaches (\<lambda>r r'. \<exists>rid. reset_step rid r r') r r' \<Longrightarrow> reset_inv r \<Longrightarrow> rank r \<le> rank r'"
  by (erule reset.mono_reaches[rotated 3]) (auto intro: reset_step_rank order.trans)

lemma reaches_mono:
  assumes "\<And>s t. step s t \<Longrightarrow> step' s t"
  shows "reaches step s t \<Longrightarrow> reaches step' s t"
  by (induction rule: reaches.induct) (auto intro: reaches.intros assms)

text \<open>A history: calls of the reset with any ids, each in its own environment.\<close>

definition run_calls ::
  "(reset_env \<times> string) list \<Rightarrow> identity_record option \<Rightarrow> identity_record option" where
  "run_calls calls st = fold (\<lambda>(env, rid) st. snd (runReset env rid st)) calls st"

lemma run_calls_reaches:
  assumes "reset_inv r"
  shows "\<exists>r'. run_calls calls (Some r) = Some r' \<and> reaches (\<lambda>r r'. \<exists>rid. reset_step rid r r') r r'
    \<and> reset_inv r'"
  using assms
proof (induction calls arbitrary: r)
  case Nil
  then show ?case by (auto simp: run_calls_def reaches.here)
next
  case (Cons c calls)
  obtain env rid where c: "c = (env, rid)" by (cases c)
  from runReset_evolves[OF Cons.prems, of False env rid] obtain r1
    where r1: "snd (runReset env rid (Some r)) = Some r1" "reaches (reset_step rid) r r1"
    by (auto simp: evolves_def)
  have r1': "reaches (\<lambda>r r'. \<exists>rid. reset_step rid r r') r r1"
    using r1(2) by (rule reaches_mono[rotated]) blast
  then have "reset_inv r1" using Cons.prems by (rule reset.inv_reaches)
  from Cons.IH[OF this] r1 r1' c show ?case
    by (auto simp: run_calls_def intro: reaches_trans)
qed

section \<open>Provisioning\<close>

definition mintInitialAppIdentityRecord :: "salt_bytes \<Rightarrow> salt_bytes \<Rightarrow> string + identity_record" where
  "mintInitialAppIdentityRecord secret key =
     (if secret = [] then Inl ''privacy: empty root privacy secret''
      else Inr \<lparr>currentVersion = INITIAL_APP_IDENTITY_KEY_VERSION,
        epochs = map (\<lambda>v. \<lparr>ep_version = v, ep_key = secret, ep_role = Lookup\<rparr>) HISTORICAL_SHARED_ROOT_KEY_VERSIONS
          @ [\<lparr>ep_version = INITIAL_APP_IDENTITY_KEY_VERSION, ep_key = key, ep_role = ActiveRole\<rparr>],
        lifecycle_of = ACTIVE_APP_IDENTITY_LIFECYCLE\<rparr>)"

text \<open>The put runs alone per App, so it decides between racing mints.\<close>

definition putIfAbsent :: "identity_record \<Rightarrow> identity_record act" where
  "putIfAbsent r st = (case st of
     Some existing \<Rightarrow> (assertCanonicalAppIdentityRecord existing, st)
   | None \<Rightarrow> (case assertCanonicalAppIdentityRecord r of
       Inl e \<Rightarrow> (Inl e, st) | Inr c \<Rightarrow> (assertCanonicalAppIdentityRecord c, Some c)))"

definition provisionAppIdentity :: "salt_bytes \<Rightarrow> salt_bytes \<Rightarrow> identity_record act" where
  "provisionAppIdentity secret key st = (case st of
     Some existing \<Rightarrow> (assertCanonicalAppIdentityRecord existing, st)
   | None \<Rightarrow> abind (alift (mintInitialAppIdentityRecord secret key)) (\<lambda>m.
       abind (putIfAbsent m) (\<lambda>w. alift (assertCanonicalAppIdentityRecord w))) st)"

lemma mint_inv:
  "mintInitialAppIdentityRecord secret key = Inr r \<Longrightarrow> key \<noteq> [] \<Longrightarrow> reset_inv r"
  by (auto simp: mintInitialAppIdentityRecord_def reset_inv_def canonical_def phase_inv_def
      wf_lifecycle_def good_text_def ACTIVE_APP_IDENTITY_LIFECYCLE_def assertUniqueEpochs_def
      assertEpochShape_def HISTORICAL_SHARED_ROOT_KEY_VERSIONS_def INITIAL_APP_IDENTITY_KEY_VERSION_def
      isHistoricalSharedRootKeyVersion_def isAppIdentityKeyVersion_def is_digit_def split: if_splits)

section \<open>The salt store of a record\<close>

definition salt_error :: "string + 'a \<Rightarrow> privacy_error + 'a" where
  "salt_error r = (case r of Inl e \<Rightarrow> Inl (SaltStoreFailed e) | Inr v \<Rightarrow> Inr v)"

definition live_record :: "identity_record \<Rightarrow> privacy_error + identity_record" where
  "live_record r = salt_error (ebind (assertAppIdentityTrafficAllowed (lifecycle_of r)) (\<lambda>_. Inr r))"

definition identity_salt_for :: "string list option \<Rightarrow> identity_record \<Rightarrow> string \<Rightarrow> privacy_error + salt_bytes" where
  "identity_salt_for allowed r v =
     (if (case allowed of Some vs \<Rightarrow> v \<notin> set vs | None \<Rightarrow> False)
      then Inl (SaltStoreFailed (''privacy: unknown salt version '' @ v))
      else ebind (live_record r) (\<lambda>r.
        if isHistoricalSharedRootKeyVersion v \<or> isAppIdentityKeyVersion v then
          (case find (\<lambda>e. ep_version e = v) (epochs r) of
             None \<Rightarrow> Inl (SaltStoreFailed (''privacy: unknown salt version '' @ v))
           | Some e \<Rightarrow> if isHistoricalSharedRootKeyVersion v \<and> ep_role e \<noteq> Lookup
               then Inl (SaltStoreFailed (''privacy: historical shared-root epoch '' @ v @ '' is lookup-only''))
               else Inr (ep_key e))
        else Inl (SaltStoreFailed (''privacy: unknown salt version '' @ v))))"

definition makeIdentitySaltStore ::
  "string list option \<Rightarrow> (string \<Rightarrow> identity_record) \<Rightarrow> salt_store" where
  "makeIdentitySaltStore allowed provisioned =
     \<lparr>currentKeyVersion = (\<lambda>app. ebind (live_record (provisioned app)) (\<lambda>r. Inr (currentVersion r))),
      saltFor = (\<lambda>app v. identity_salt_for allowed (provisioned app) v),
      retainedKeyVersions = (\<lambda>app. ebind (live_record (provisioned app)) (\<lambda>r.
        Inr (case allowed of None \<Rightarrow> map ep_version (epochs r)
             | Some vs \<Rightarrow> filter (\<lambda>v. v \<in> set vs) (map ep_version (epochs r))))),
      saltsFor = None\<rparr>"

lemma computeTargetingKeyHash_current:
  assumes "hi_keyVersion i = None" "hi_salt i = None"
  shows "computeTargetingKeyHash hmac st i =
    ebind (currentKeyVersion st (hi_appId i)) (\<lambda>v. ebind (saltFor st (hi_appId i) v) (\<lambda>s.
      computeTargetingKeyHash hmac st (i\<lparr>hi_keyVersion := Some v, hi_salt := Some s\<rparr>)))"
  using assms by (simp add: computeTargetingKeyHash_def cong: if_cong)

text \<open>
  The contract between a salt store and the retained hashes: the version new hashes are
  written under is retained, and its salt is one the retained lookup answers with.
\<close>

locale retained_salts =
  fixes store :: "'c \<Rightarrow> salt_store" and ok :: "'c \<Rightarrow> string \<Rightarrow> bool"
  assumes current_retained: "ok c app \<Longrightarrow> currentKeyVersion (store c) app = Inr v \<Longrightarrow>
      retainedKeyVersions (store c) app = Inr vs \<Longrightarrow> v \<in> set vs"
    and current_salt: "ok c app \<Longrightarrow> currentKeyVersion (store c) app = Inr v \<Longrightarrow>
      saltFor (store c) app v = Inr s \<Longrightarrow> \<exists>ss. salts_of (store c) app v = Inr ss \<and> s \<in> set ss"
begin

lemma written_hash_retained:
  assumes "ok c (hi_appId i)" "hi_keyVersion i = None" "hi_salt i = None"
    and "computeTargetingKeyHash hmac (store c) i = Inr h"
    and "computeRetainedTargetingKeyHashes hmac (store c) i = Inr hs"
  shows "h \<in> set hs"
proof -
  from assms(4,2,3) obtain v s where v: "currentKeyVersion (store c) (hi_appId i) = Inr v"
    and s: "saltFor (store c) (hi_appId i) v = Inr s"
    and h: "computeTargetingKeyHash hmac (store c) (i\<lparr>hi_keyVersion := Some v, hi_salt := Some s\<rparr>) = Inr h"
    unfolding computeTargetingKeyHash_current[OF assms(2,3)] ebind_eq_Inr by blast
  from assms(5) obtain vs where vs: "retainedKeyVersions (store c) (hi_appId i) = Inr vs"
    and hs: "hash_versions hmac (store c) i vs [] = Inr hs"
    by (auto simp: computeRetainedTargetingKeyHashes_def ebind_eq_Inr)
  have "v \<in> set vs" using current_retained[OF assms(1) v vs] .
  moreover obtain ss where "salts_of (store c) (hi_appId i) v = Inr ss" "s \<in> set ss"
    using current_salt[OF assms(1) v s] by blast
  ultimately show ?thesis using hash_versions_Inr[OF hs] h by auto
qed

end

lemma check_epochs_active:
  "check_epochs es vs active = Inr active' \<Longrightarrow> set active' \<subseteq> set active \<union> ep_version ` set es"
proof (induction es arbitrary: vs active)
  case (Cons e es)
  then obtain vs1 where
    "check_epochs es vs1 (if ep_role e = ActiveRole then active @ [ep_version e] else active) = Inr active'"
    by (auto simp: ebind_eq_Inr)
  from Cons.IH[OF this] show ?case by (auto split: if_splits)
qed simp

lemma canonical_current_epoch:
  assumes "canonical r" shows "currentVersion r \<in> ep_version ` set (epochs r)"
proof -
  obtain active where a: "check_epochs (epochs r) {} [] = Inr active"
    and "(case active of [v] \<Rightarrow> Inr v
      | _ \<Rightarrow> Inl ''privacy: App identity record must have exactly one active current epoch'')
      = (Inr (currentVersion r) :: string + string)"
    using assms unfolding canonical_def assertUniqueEpochs_def ebind_eq_Inr by blast
  then have "active = [currentVersion r]" by (simp split: list.splits)
  with check_epochs_active[OF a] show ?thesis by simp
qed

interpretation identity_salts:
  retained_salts "makeIdentitySaltStore None" "\<lambda>provisioned app. canonical (provisioned app)"
proof unfold_locales
  fix c app v vs
  assume "canonical (c app)" "currentKeyVersion (makeIdentitySaltStore None c) app = Inr v"
    "retainedKeyVersions (makeIdentitySaltStore None c) app = Inr vs"
  then show "v \<in> set vs"
    using canonical_current_epoch[of "c app"]
    by (auto simp: makeIdentitySaltStore_def live_record_def salt_error_def ebind_eq_Inr split: sum.splits)
next
  fix c app v s
  assume "saltFor (makeIdentitySaltStore None c) app v = Inr s"
  then show "\<exists>ss. salts_of (makeIdentitySaltStore None c) app v = Inr ss \<and> s \<in> set ss"
    by (simp add: salts_of_def makeIdentitySaltStore_def)
qed

section \<open>Properties\<close>

definition sample_record :: "lifecycle \<Rightarrow> identity_record" where
  "sample_record l = \<lparr>currentVersion = ''app-v1'',
     epochs = [\<lparr>ep_version = ''app-v1'', ep_key = [7], ep_role = ActiveRole\<rparr>], lifecycle_of = l\<rparr>"

definition sample_env :: reset_env where
  "sample_env = \<lparr>purgers = (\<lambda>_ _ _. Inr ''p''), releasers = (\<lambda>_ _. Inr ''r''), save_fails = (\<lambda>_. None),
     fresh_key = [8]\<rparr>"

definition sample_blocked :: lifecycle where
  "sample_blocked = \<lparr>lc_state = BlockedState, trafficBlocked = True, resetId = Some ''r1'',
     proofs = (\<lambda>_. None), releaseProofs = (\<lambda>_. None)\<rparr>"

lemma trim_letter [simp]: "trim ''r1'' \<noteq> []" "trim ''p'' \<noteq> []" "trim ''r'' \<noteq> []"
  by (simp_all add: trim_empty_iff js_space_def)

lemma sample_record_inv [simp]:
  "reset_inv (sample_record sample_blocked)" "reset_inv (sample_record ACTIVE_APP_IDENTITY_LIFECYCLE)"
  by (auto simp: reset_inv_def phase_inv_def sample_record_def sample_blocked_def
      ACTIVE_APP_IDENTITY_LIFECYCLE_def wf_lifecycle_def good_text_def isAppIdentityKeyVersion_def is_digit_def
      intro!: canonical_single)

lemma sample_env_benign [simp]: "benign sample_env"
  by (simp add: benign_def sample_env_def)

text \<open>
  C20: a compromised App gets no traffic before its purge is complete. From a record whose
  reset has begun, after any history of reset calls, with any ids and with purgers,
  releasers and saves failing anywhere, traffic is allowed only once every store's purge
  and both releases are proved, the old keys are gone, and the key version has advanced.
\<close>

theorem reset_gates_traffic:
  assumes "reset_inv r" and "lc_state (lifecycle_of r) \<in> {BlockedState, PurgingState}"
  shows "\<exists>r'. run_calls calls (Some r) = Some r' \<and>
    (assertAppIdentityTrafficAllowed (lifecycle_of r') = Inr () \<longrightarrow>
       (\<forall>s. proofs (lifecycle_of r') s \<noteq> None) \<and> (\<forall>x. releaseProofs (lifecycle_of r') x \<noteq> None)
       \<and> map ep_version (epochs r') = [currentVersion r'] \<and> version_number r < version_number r')"
proof -
  obtain r' where r': "run_calls calls (Some r) = Some r'"
    "reaches (\<lambda>r r'. \<exists>rid. reset_step rid r r') r r'" "reset_inv r'"
    using run_calls_reaches[OF assms(1)] by blast
  show ?thesis
  proof (intro exI[of _ r'] conjI impI r'(1))
    assume "assertAppIdentityTrafficAllowed (lifecycle_of r') = Inr ()"
    then have active: "lc_state (lifecycle_of r') = ActiveState"
      by (simp add: assertAppIdentityTrafficAllowed_def split: if_splits)
    have "rank r \<le> rank r'" by (rule reset_reaches_rank[OF r'(2) assms(1)])
    with active assms(2) show grown: "version_number r < version_number r'" by (auto simp: rank_def)
    have "r' \<noteq> r" using active assms(2) by auto
    have "resetId (lifecycle_of r') \<noteq> None"
      using r'(2) assms
    proof (induction rule: reaches.induct)
      case (here r)
      then show ?case by (auto simp: reset_inv_def phase_inv_def Let_def)
    next
      case (there s t u)
      from there.hyps(2) obtain rid where "reset_step rid t u" by blast
      then show ?case
        by (cases) (auto simp: lifecycle_op_defs ebind_eq_Inr split: if_splits)
    qed
    with active r'(3) show "\<forall>s. proofs (lifecycle_of r') s \<noteq> None"
      "\<forall>x. releaseProofs (lifecycle_of r') x \<noteq> None" "map ep_version (epochs r') = [currentVersion r']"
      by (auto simp: reset_inv_def phase_inv_def Let_def single_epoch_def)
  qed
qed

lemma reset_gates_traffic_witness:
  "\<exists>r'. run_calls [(sample_env\<lparr>purgers := \<lambda>_ _ _. Inl ''down''\<rparr>, ''r1''), (sample_env, ''r1'')]
     (Some (sample_record sample_blocked)) = Some r' \<and>
     (assertAppIdentityTrafficAllowed (lifecycle_of r') = Inr () \<longrightarrow> 1 < version_number r')"
  using reset_gates_traffic[OF sample_record_inv(1),
      of "[(sample_env\<lparr>purgers := \<lambda>_ _ _. Inl ''down''\<rparr>, ''r1''), (sample_env, ''r1'')]"]
  by (auto simp: sample_record_def sample_blocked_def version_number_def appIdentityVersionNumber_def
      isAppIdentityKeyVersion_def is_digit_def read_nat_def)

text \<open>
  C21: a reset completes, and completing is final. Whatever earlier attempt left behind,
  a call under the same id in which nothing fails returns the active record of that reset,
  stored as returned; every later call under that id, in any environment, returns that
  record and changes nothing.
\<close>

theorem reset_completes:
  assumes "reset_inv r" "benign env" "trim rid \<noteq> []"
    and "lc_state (lifecycle_of r) = ActiveState \<or> resetId (lifecycle_of r) = Some rid"
  shows "\<exists>v. runReset env rid (Some r) = (Inr v, Some v) \<and> lc_state (lifecycle_of v) = ActiveState
    \<and> resetId (lifecycle_of v) = Some rid \<and> reset_inv v
    \<and> (\<forall>env'. runReset env' rid (Some v) = (Inr v, Some v))"
proof -
  from runReset_evolves[OF assms(1), of True env rid] assms(2-4) obtain v
    where v: "fst (runReset env rid (Some r)) = Inr v" "snd (runReset env rid (Some r)) = Some v"
      and inv: "reset_inv v" "lc_state (lifecycle_of v) = ActiveState" "resetId (lifecycle_of v) = Some rid"
    by (auto simp: evolves_def)
  have "assertCanonicalAppIdentityRecord v = Inr v"
    using inv(1) by (simp add: reset_inv_def canonical_Inr)
  then have "runReset env' rid (Some v) = (Inr v, Some v)" for env'
    using inv by (simp add: runReset_def abind_def requireAppIdentityRecord_def areturn_def)
  with v inv show ?thesis by (metis prod.collapse)
qed

lemma reset_completes_witness:
  "\<exists>v. runReset sample_env ''r1'' (Some (sample_record sample_blocked)) = (Inr v, Some v)
     \<and> lc_state (lifecycle_of v) = ActiveState"
  using reset_completes[OF sample_record_inv(1) sample_env_benign, of "''r1''"]
  by (auto simp: sample_record_def sample_blocked_def)

text \<open>
  C22: the code of a reset does only the steps of the machine. Started on a record that
  satisfies the invariant, a call leaves a record reached by blocking, proving, rotating,
  releasing and activating steps of its own id, keeps the invariant, and returns only the
  record it stored.
\<close>

theorem reset_refines_machine:
  assumes "reset_inv r"
  shows "\<exists>r'. snd (runReset env rid (Some r)) = Some r' \<and> reaches (reset_step rid) r r' \<and> reset_inv r'
    \<and> (\<forall>v. fst (runReset env rid (Some r)) = Inr v \<longrightarrow> v = r')"
proof -
  from runReset_evolves[OF assms, of False env rid] obtain r' where
    r': "snd (runReset env rid (Some r)) = Some r'" "reaches (reset_step rid) r r'"
    "\<forall>v. fst (runReset env rid (Some r)) = Inr v \<longrightarrow> v = r'" by (auto simp: evolves_def)
  have "reaches (\<lambda>r r'. \<exists>rid. reset_step rid r r') r r'"
    using r'(2) by (rule reaches_mono[rotated]) blast
  with assms have "reset_inv r'" by (blast intro: reset.inv_reaches)
  with r' show ?thesis by blast
qed

lemma reset_refines_machine_witness:
  "\<exists>r'. snd (runReset sample_env ''r2'' (Some (sample_record ACTIVE_APP_IDENTITY_LIFECYCLE))) = Some r'
     \<and> reset_inv r'"
  using reset_refines_machine[OF sample_record_inv(2), of sample_env "''r2''"] by blast

text \<open>
  provisioning is first writer wins. The first provisioning of an App stores a
  canonical record that satisfies the invariant of the reset; every later one, whatever
  root secret and key it brings, returns that record and changes nothing.
\<close>

theorem provision_first_wins:
  assumes "secret \<noteq> []" and "key \<noteq> []"
  shows "\<exists>r. provisionAppIdentity secret key None = (Inr r, Some r) \<and> reset_inv r
    \<and> assertAppIdentityTrafficAllowed (lifecycle_of r) = Inr ()
    \<and> (\<forall>secret' key'. provisionAppIdentity secret' key' (Some r) = (Inr r, Some r))"
proof -
  obtain m where m: "mintInitialAppIdentityRecord secret key = Inr m"
    using assms(1) by (simp add: mintInitialAppIdentityRecord_def)
  have inv: "reset_inv m" using mint_inv[OF m assms(2)] .
  then have can: "assertCanonicalAppIdentityRecord m = Inr m" by (simp add: reset_inv_def canonical_Inr)
  have "assertAppIdentityTrafficAllowed (lifecycle_of m) = Inr ()"
    using m by (auto simp: mintInitialAppIdentityRecord_def assertAppIdentityTrafficAllowed_def
        ACTIVE_APP_IDENTITY_LIFECYCLE_def split: if_splits)
  with m can inv show ?thesis
    by (simp add: provisionAppIdentity_def putIfAbsent_def abind_def alift_def)
qed

lemma provision_first_wins_witness:
  "\<exists>r. provisionAppIdentity [1] [2] None = (Inr r, Some r) \<and> reset_inv r"
  using provision_first_wins[of "[1]" "[2]"] by blast

text \<open>
  nothing written is lost to privacy. Under a salt store over a canonical identity
  record, the hash new rows are written under is one of the retained hashes that export,
  deletion and the Assignment reads go through.
\<close>

theorem written_hash_is_retained:
  assumes "canonical (provisioned (hi_appId i))" "hi_keyVersion i = None" "hi_salt i = None"
    and "computeTargetingKeyHash hmac (makeIdentitySaltStore None provisioned) i = Inr h"
    and "computeRetainedTargetingKeyHashes hmac (makeIdentitySaltStore None provisioned) i = Inr hs"
  shows "h \<in> set hs"
  using assms by (rule identity_salts.written_hash_retained)

lemma written_hash_is_retained_witness:
  "''app-v1:user:k'' \<in> set [''app-v1:user:k'']"
  by (rule written_hash_is_retained[where hmac = "\<lambda>s m. m" and provisioned = "\<lambda>_. sample_record ACTIVE_APP_IDENTITY_LIFECYCLE"
        and i = "\<lparr>hi_appId = ''a'', hi_idType = ''user'', hi_targetingKey = ''k'', hi_keyVersion = None, hi_salt = None\<rparr>"])
    (use sample_record_inv(2) in \<open>simp_all add: reset_inv_def makeIdentitySaltStore_def sample_record_def
      computeTargetingKeyHash_def computeRetainedTargetingKeyHashes_def live_record_def salt_error_def
      assertAppIdentityTrafficAllowed_def ACTIVE_APP_IDENTITY_LIFECYCLE_def identity_salt_for_def
      isAppIdentityKeyVersion_def is_digit_def targetingHashMessage_def validateIdType_def push_new_def
      isHistoricalSharedRootKeyVersion_def HISTORICAL_SHARED_ROOT_KEY_VERSIONS_def\<close>)

text \<open>
  C23: a stored lifecycle is read back exactly when it is consistent. Writing a lifecycle
  as JSON and parsing it returns the same lifecycle if traffic is blocked just in the
  states that are not active and no id or proof is blank; otherwise parsing throws.
\<close>

theorem lifecycle_roundtrip:
  "parseAppIdentityLifecycle (lifecycle_json l) = Inr l' \<longleftrightarrow> l' = l \<and> wf_lifecycle l"
  using parse_lifecycle_json parse_lifecycle_json_Inr by blast

end
