(* ===== verification/AssignmentStore.thy ===== *)
theory AssignmentStore
  imports Evaluate Identity
begin

text \<open>
  The Assignment Store of \<open>apps/evaluation-api/src/assignment\<close>: values and merges
  (\<open>assignment-store.ts\<close>), the per-Entity writer (\<open>assignment-store-writer.ts\<close>) with its
  reset fence (\<open>app-identity-reset-fence.ts\<close>), the KV reader (\<open>kv-assignment-store.ts\<close>)
  and the in-memory store (\<open>in-memory-assignment-store.ts\<close>). The writer runs each
  operation alone (\<open>blockConcurrencyWhile\<close>), so an operation is one step on its durable
  storage and the shared KV; which KV calls of the step fail is an argument. A stored KV
  string is what parsing it gives: not JSON, not the schema, or a value. A source time is
  an integer, \<open>None\<close> when undefined or not finite. Experiment ids are made by the server
  and are no names of \<open>Object.prototype\<close>.
\<close>

section \<open>Values\<close>

type_synonym assignment_value = "(string, assignment_entry) jsmap"

record hashed_put =
  hp_appId :: string
  hp_experimentId :: string
  hp_idType :: string
  hp_targetingKeyHash :: string
  hp_identityVersion :: "string option"
  hp_runId :: string
  hp_source :: "ms option"
  hp_variant :: string

datatype put_status = Stored | Existing

definition entryFrom :: "hashed_put \<Rightarrow> assignment_entry" where
  "entryFrom i = \<lparr>entry_runId = hp_runId i, entry_variant = hp_variant i\<rparr>"

definition mergeAssignmentValue :: "assignment_value \<Rightarrow> hashed_put \<Rightarrow> assignment_value" where
  "mergeAssignmentValue v i =
     (if map_of v (hp_experimentId i) \<noteq> None then v else v @ [(hp_experimentId i, entryFrom i)])"

definition conflict_message :: "string \<Rightarrow> string" where
  "conflict_message e = ''Conflicting Assignment for Experiment '' @ quoted e
     @ '' across retained identity epochs''"

fun merge_entries :: "assignment_value \<Rightarrow> assignment_value \<Rightarrow> thrown + assignment_value" where
  "merge_entries merged [] = Inr merged"
| "merge_entries merged ((e, entry) # es) = (case map_of merged e of
     None \<Rightarrow> merge_entries (merged @ [(e, entry)]) es
   | Some x \<Rightarrow> if entry_runId x \<noteq> entry_runId entry \<or> entry_variant x \<noteq> entry_variant entry
       then Inl (AssignmentStoreError (conflict_message e)) else merge_entries merged es)"

fun merge_values :: "assignment_value \<Rightarrow> assignment_value list \<Rightarrow> thrown + assignment_value" where
  "merge_values merged [] = Inr merged"
| "merge_values merged (v # vs) = ebind (merge_entries merged v) (\<lambda>merged. merge_values merged vs)"

definition mergeRetainedAssignmentValues :: "assignment_value list \<Rightarrow> thrown + assignment_value" where
  "mergeRetainedAssignmentValues vs = merge_values [] vs"

section \<open>The KV namespace\<close>

datatype kv_blob = NotJson | NotEnvelope string | Envelope assignment_value

type_synonym assignment_kv = "string \<rightharpoonup> kv_blob"

definition serializeAssignmentValue :: "assignment_value \<Rightarrow> kv_blob" where
  "serializeAssignmentValue v = Envelope v"

definition parseAssignmentValue :: "kv_blob \<Rightarrow> string \<Rightarrow> thrown + assignment_value" where
  "parseAssignmentValue b key = (case b of
     NotJson \<Rightarrow> Inl (AssignmentStoreError (''Malformed assignment KV JSON for key '' @ quoted key))
   | NotEnvelope m \<Rightarrow> Inl (AssignmentStoreError (''Invalid assignment KV blob for key '' @ quoted key @ '': '' @ m))
   | Envelope v \<Rightarrow> Inr v)"

definition readAssignmentValue :: "bool \<Rightarrow> assignment_kv \<Rightarrow> string \<Rightarrow> thrown + assignment_value" where
  "readAssignmentValue get_fails kv key =
     (if get_fails then Inl (AssignmentStoreError (''Assignment KV read failed for key '' @ quoted key))
      else case kv key of None \<Rightarrow> Inr [] | Some b \<Rightarrow> parseAssignmentValue b key)"

section \<open>The per-Entity writer\<close>

record writer =
  winners :: "(string, hashed_put) jsmap"
  cutoff :: "ms option"
  fence :: "string list option"

record kv_io =
  get_fails :: bool
  put_fails :: bool
  delete_fails :: bool
  has_delete :: bool

type_synonym writer_state = "writer \<times> assignment_kv"

definition requireDestroyedIdentityVersions :: "string list \<Rightarrow> thrown + string list" where
  "requireDestroyedIdentityVersions vs = (if vs = [] \<or> [] \<in> set vs
     then Inl (OtherError ''App identity reset requires destroyed identity versions'')
     else Inr (remdups_first vs))"

definition readAppIdentityResetFence :: "writer \<Rightarrow> thrown + string list" where
  "readAppIdentityResetFence w = (case fence w of None \<Rightarrow> Inr []
     | Some vs \<Rightarrow> requireDestroyedIdentityVersions vs)"

definition isAppIdentityVersionReset :: "writer \<Rightarrow> string \<Rightarrow> thrown + bool" where
  "isAppIdentityVersionReset w v = ebind (readAppIdentityResetFence w) (\<lambda>vs. Inr (v \<in> set vs))"

definition extendAppIdentityResetFence :: "writer \<Rightarrow> string list \<Rightarrow> thrown + (writer \<times> string list)" where
  "extendAppIdentityResetFence w vs =
     ebind (requireDestroyedIdentityVersions vs) (\<lambda>required.
     ebind (readAppIdentityResetFence w) (\<lambda>existing.
     let next = sort (remdups_first (existing @ required)) in Inr (w\<lparr>fence := Some next\<rparr>, next)))"

definition privacy_thrown :: "privacy_error \<Rightarrow> thrown" where
  "privacy_thrown e = OtherError (case e of
     EmptyIdType \<Rightarrow> ''privacy: idType must not be empty''
   | ColonInIdType \<Rightarrow> ''privacy: idType must not contain '' @ [CHR 0x27, COLON, CHR 0x27]
   | EmptySalt a v \<Rightarrow> ''privacy: empty salt for app='' @ a @ '' version='' @ v
   | MalformedHash \<Rightarrow> ''privacy: malformed targeting_key_hash (no version prefix)''
   | NotAnAppVersion v \<Rightarrow> ''privacy: cannot advance non-app identity version '' @ v
   | NoAppAnchor \<Rightarrow> ''privacy: no App-scoped targeting_key_hash for Entity family''
   | NoRetainedHash \<Rightarrow> ''privacy: no retained targeting_key_hash for Entity family''
   | SaltStoreFailed m \<Rightarrow> m)"

definition lift_privacy :: "privacy_error + 'a \<Rightarrow> thrown + 'a" where
  "lift_privacy r = (case r of Inl e \<Rightarrow> Inl (privacy_thrown e) | Inr v \<Rightarrow> Inr v)"

definition kv_key :: "hashed_put \<Rightarrow> string" where
  "kv_key i = assignmentKey (hp_appId i) (hp_idType i) (hp_targetingKeyHash i)"

definition writeThrough :: "kv_io \<Rightarrow> hashed_put \<Rightarrow> assignment_kv \<Rightarrow> (thrown + unit) \<times> assignment_kv" where
  "writeThrough io i kv = (case readAssignmentValue (get_fails io) kv (kv_key i) of
     Inl e \<Rightarrow> (Inl e, kv)
   | Inr current \<Rightarrow> (let next = mergeAssignmentValue current i in
       if next = current then (Inr (), kv)
       else if put_fails io then (Inl (OtherError ''KV put failed''), kv)
       else (Inr (), kv(kv_key i \<mapsto> serializeAssignmentValue next))))"

text \<open>The checks of \<open>put\<close>, then the first touch or the existing winner.\<close>

definition put_admitted :: "writer \<Rightarrow> hashed_put \<Rightarrow> thrown + unit" where
  "put_admitted w i = (case hp_source i of
     None \<Rightarrow> Inl (OtherError ''assignment-store: sourceCreatedAtMs is required'')
   | Some t \<Rightarrow>
     ebind (case hp_identityVersion i of Some v \<Rightarrow> Inr v
            | None \<Rightarrow> lift_privacy (keyVersionOf (hp_targetingKeyHash i))) (\<lambda>v.
     ebind (isAppIdentityVersionReset w v) (\<lambda>reset.
     if reset then Inl (OtherError ''assignment-store: App identity generation was reset'')
     else case cutoff w of
       Some c \<Rightarrow> if t \<le> c then Inl (OtherError ''assignment-store: Assignment predates Entity deletion cutoff'')
                 else Inr ()
     | None \<Rightarrow> Inr ())))"

definition writer_put ::
  "kv_io \<Rightarrow> hashed_put \<Rightarrow> writer_state \<Rightarrow> (thrown + put_status \<times> assignment_entry) \<times> writer_state" where
  "writer_put io i s = (case s of (w, kv) \<Rightarrow> (case put_admitted w i of
     Inl e \<Rightarrow> (Inl e, w, kv)
   | Inr _ \<Rightarrow> (case map_of (winners w) (hp_experimentId i) of
       Some existing \<Rightarrow> (case writeThrough io existing kv of
           (Inl e, kv) \<Rightarrow> (Inl e, w, kv)
         | (Inr _, kv) \<Rightarrow> (Inr (Existing, entryFrom existing), w, kv))
     | None \<Rightarrow> (let w = w\<lparr>winners := winners w @ [(hp_experimentId i, i)]\<rparr> in
         case writeThrough io i kv of
           (Inl e, kv) \<Rightarrow> (Inl e, w, kv)
         | (Inr _, kv) \<Rightarrow> (Inr (Stored, entryFrom i), w, kv)))))"

record entity_identity =
  ei_appId :: string
  ei_idType :: string
  ei_targetingKeyHash :: string

definition identity_key :: "entity_identity \<Rightarrow> string" where
  "identity_key e = assignmentKey (ei_appId e) (ei_idType e) (ei_targetingKeyHash e)"

definition rewriteKvFromDurableWinners ::
  "kv_io \<Rightarrow> entity_identity \<Rightarrow> writer \<Rightarrow> assignment_kv \<Rightarrow> (thrown + unit) \<times> assignment_kv" where
  "rewriteKvFromDurableWinners io ident w kv =
     (if \<not> has_delete io then (Inl (OtherError ''assignment-store: Assignment KV delete is unavailable''), kv)
      else let v = foldl mergeAssignmentValue [] (map snd (winners w)); key = identity_key ident in
        if v = [] then (if delete_fails io then (Inl (OtherError ''KV delete failed''), kv)
                        else (Inr (), kv(key := None)))
        else if put_fails io then (Inl (OtherError ''KV put failed''), kv)
        else (Inr (), kv(key \<mapsto> serializeAssignmentValue v)))"

definition predates :: "ms \<Rightarrow> hashed_put \<Rightarrow> bool" where
  "predates c a = (case hp_source a of None \<Rightarrow> True | Some t \<Rightarrow> t \<le> c)"

definition deleteEntity ::
  "kv_io \<Rightarrow> entity_identity \<Rightarrow> ms \<Rightarrow> writer_state \<Rightarrow> (thrown + string) \<times> writer_state" where
  "deleteEntity io ident before s = (case s of (w, kv) \<Rightarrow>
     let c = (case cutoff w of None \<Rightarrow> before | Some p \<Rightarrow> max p before);
         w = w\<lparr>winners := filter (\<lambda>(k, a). \<not> predates c a) (winners w), cutoff := Some c\<rparr>
     in case rewriteKvFromDurableWinners io ident w kv of
       (Inl e, kv) \<Rightarrow> (Inl e, w, kv)
     | (Inr _, kv) \<Rightarrow> (Inr ''assignment-do-cutoff-tombstone-v2'', w, kv))"

record writer_export =
  exp_assignments :: assignment_value
  tombstoned :: bool

fun export_entries :: "(string, hashed_put) jsmap \<Rightarrow> thrown + assignment_value" where
  "export_entries [] = Inr []"
| "export_entries ((k, a) # ws) =
     (if k = [] \<or> hp_experimentId a \<noteq> k then Inl (OtherError ''assignment-store: durable winner key is invalid'')
      else ebind (export_entries ws) (\<lambda>v. Inr ((k, entryFrom a) # v)))"

definition exportEntity :: "writer \<Rightarrow> thrown + writer_export" where
  "exportEntity w = ebind (export_entries (winners w)) (\<lambda>v.
     if cutoff w \<noteq> None then Inr \<lparr>exp_assignments = v, tombstoned = True\<rparr>
     else ebind (readAppIdentityResetFence w) (\<lambda>f.
       Inr \<lparr>exp_assignments = v, tombstoned = (f \<noteq> [])\<rparr>))"

definition resetApp ::
  "kv_io \<Rightarrow> entity_identity \<Rightarrow> string list \<Rightarrow> writer_state \<Rightarrow> (thrown + assignment_value \<times> string list) \<times> writer_state"
where
  "resetApp io ident destroyed s = (case s of (w, kv) \<Rightarrow> (case extendAppIdentityResetFence w destroyed of
     Inl e \<Rightarrow> (Inl e, w, kv)
   | Inr (w, fenced) \<Rightarrow> (let w = w\<lparr>winners := []\<rparr> in
       case rewriteKvFromDurableWinners io ident w kv of
         (Inl e, kv) \<Rightarrow> (Inl e, w, kv)
       | (Inr _, kv) \<Rightarrow> (case exportEntity w of
           Inl e \<Rightarrow> (Inl e, w, kv)
         | Inr x \<Rightarrow> if exp_assignments x \<noteq> []
             then (Inl (OtherError ''assignment-store: App reset winner purge proof is not empty''), w, kv)
             else (Inr (exp_assignments x, fenced), w, kv)))))"

section \<open>Reading over the retained identities\<close>

record assignment_identity =
  ai_appId :: string
  ai_idType :: string
  ai_targetingKey :: string
  ai_identityVersion :: "string option"

definition identity_hash_input :: "assignment_identity \<Rightarrow> hash_input" where
  "identity_hash_input i = \<lparr>hi_appId = ai_appId i, hi_idType = ai_idType i, hi_targetingKey = ai_targetingKey i,
     hi_keyVersion = None, hi_salt = None\<rparr>"

definition hashedAssignmentIdentity ::
  "(salt_bytes \<Rightarrow> string \<Rightarrow> string) \<Rightarrow> salt_store \<Rightarrow> assignment_identity \<Rightarrow> thrown + string \<times> string" where
  "hashedAssignmentIdentity hmac st i =
     ebind (lift_privacy (computeTargetingKeyHash hmac st
       ((identity_hash_input i)\<lparr>hi_keyVersion := ai_identityVersion i\<rparr>))) (\<lambda>h.
     Inr (assignmentKey (ai_appId i) (ai_idType i) h, h))"

definition retainedAssignmentIdentities ::
  "(salt_bytes \<Rightarrow> string \<Rightarrow> string) \<Rightarrow> salt_store \<Rightarrow> assignment_identity \<Rightarrow> thrown + (string \<times> string) list" where
  "retainedAssignmentIdentities hmac st i =
     ebind (case ai_identityVersion i of None \<Rightarrow> Inr ()
            | Some v \<Rightarrow> ebind (lift_privacy (currentKeyVersion st (ai_appId i))) (\<lambda>c.
                if c \<noteq> v then Inl (AssignmentStoreError ''App identity generation changed during Assignment read'')
                else Inr ())) (\<lambda>_.
     ebind (lift_privacy (computeRetainedTargetingKeyHashes hmac st (identity_hash_input i))) (\<lambda>hs.
     Inr (map (\<lambda>h. (h, assignmentKey (ai_appId i) (ai_idType i) h)) hs)))"

definition assignmentValueToMap :: "assignment_value \<Rightarrow> (string \<rightharpoonup> assignment_entry)" where
  "assignmentValueToMap v = map_of v"

text \<open>\<open>kv_getAll\<close>: which reads fail is a predicate on the key.\<close>

definition kv_getAll ::
  "(salt_bytes \<Rightarrow> string \<Rightarrow> string) \<Rightarrow> salt_store \<Rightarrow> (string \<Rightarrow> bool) \<Rightarrow> assignment_kv \<Rightarrow> assignment_identity
     \<Rightarrow> thrown + (string \<rightharpoonup> assignment_entry)" where
  "kv_getAll hmac st fails kv i =
     ebind (retainedAssignmentIdentities hmac st i) (\<lambda>ids.
     ebind (emap (\<lambda>(h, k). readAssignmentValue (fails k) kv k) ids) (\<lambda>vs.
     ebind (mergeRetainedAssignmentValues vs) (\<lambda>v. Inr (assignmentValueToMap v))))"

section \<open>The in-memory store\<close>

text \<open>The lock per writer name makes the check and the writes of one put one step.\<close>

record memory_store =
  entityValues :: "(string, assignment_value) jsmap"
  writerValues :: "(string, assignment_entry) jsmap"

definition winner_key :: "hashed_put \<Rightarrow> string" where
  "winner_key i = assignmentWriterName (hp_appId i) (hp_idType i) (hp_targetingKeyHash i)
     @ [CHR 0x1F] @ hp_experimentId i"

definition memory_putHashed ::
  "hashed_put \<Rightarrow> memory_store \<Rightarrow> (thrown + put_status \<times> assignment_entry) \<times> memory_store" where
  "memory_putHashed i m = (case map_of (writerValues m) (winner_key i) of
     Some a \<Rightarrow> (Inr (Existing, a), m)
   | None \<Rightarrow> (let a = entryFrom i;
         current = (case map_of (entityValues m) (kv_key i) of None \<Rightarrow> [] | Some v \<Rightarrow> v)
       in (Inr (Stored, a), m\<lparr>writerValues := AList.update (winner_key i) a (writerValues m),
            entityValues := AList.update (kv_key i) (mergeAssignmentValue current i) (entityValues m)\<rparr>)))"

definition memory_getAll ::
  "(salt_bytes \<Rightarrow> string \<Rightarrow> string) \<Rightarrow> salt_store \<Rightarrow> memory_store \<Rightarrow> assignment_identity
     \<Rightarrow> thrown + (string \<rightharpoonup> assignment_entry)" where
  "memory_getAll hmac st m i =
     ebind (retainedAssignmentIdentities hmac st i) (\<lambda>ids.
     ebind (mergeRetainedAssignmentValues
       (map (\<lambda>(h, k). case map_of (entityValues m) k of None \<Rightarrow> [] | Some v \<Rightarrow> v) ids)) (\<lambda>v.
     Inr (assignmentValueToMap v)))"

definition memory_put ::
  "(salt_bytes \<Rightarrow> string \<Rightarrow> string) \<Rightarrow> salt_store \<Rightarrow> assignment_identity \<Rightarrow> hashed_put \<Rightarrow> memory_store
     \<Rightarrow> (thrown + put_status \<times> assignment_entry) \<times> memory_store" where
  "memory_put hmac st i p m = (case memory_getAll hmac st m i of
     Inl e \<Rightarrow> (Inl e, m)
   | Inr held \<Rightarrow> (case held (hp_experimentId p) of
       Some a \<Rightarrow> (Inr (Existing, a), m)
     | None \<Rightarrow> (case hashedAssignmentIdentity hmac st i of
         Inl e \<Rightarrow> (Inl e, m)
       | Inr (_, h) \<Rightarrow> memory_putHashed (p\<lparr>hp_appId := ai_appId i, hp_idType := ai_idType i,
            hp_targetingKeyHash := h, hp_identityVersion := ai_identityVersion i\<rparr>) m)))"

section \<open>First touch wins\<close>

text \<open>
  The contract both stores owe: a winner, once recorded, survives every put, a put that
  answers answers with the recorded winner, and one answered as stored recorded it.
\<close>

locale first_touch =
  fixes winner :: "'s \<Rightarrow> 'k \<Rightarrow> 'v option"
    and put :: "'i \<Rightarrow> 's \<Rightarrow> ('e + put_status \<times> 'v) \<times> 's"
    and key :: "'i \<Rightarrow> 'k"
  assumes keeps: "winner s k = Some v \<Longrightarrow> winner (snd (put i s)) k = Some v"
    and answers: "fst (put i s) = Inr (st, v) \<Longrightarrow> winner (snd (put i s)) (key i) = Some v"
begin

lemma fold_keeps: "winner s k = Some v \<Longrightarrow> winner (fold (\<lambda>i s. snd (put i s)) is s) k = Some v"
  by (induction "is" arbitrary: s) (auto intro: keeps)

lemma later_answer_agrees:
  assumes "fst (put i s) = Inr (st, v)"
    and "fst (put j (fold (\<lambda>i s. snd (put i s)) is (snd (put i s)))) = Inr (st', w)"
    and "key i = key j"
  shows "w = v"
  using answers[OF assms(1)] fold_keeps answers[OF assms(2)] keeps assms(3)
  by (metis option.inject)

end

interpretation memory: first_touch "\<lambda>m k. map_of (writerValues m) k" memory_putHashed winner_key
  by unfold_locales (auto simp: memory_putHashed_def map_of_update Let_def split: option.splits)

lemma writer_put_winners:
  "winners (fst (snd (writer_put io i s))) = (case put_admitted (fst s) i of
     Inl _ \<Rightarrow> winners (fst s)
   | Inr _ \<Rightarrow> if map_of (winners (fst s)) (hp_experimentId i) = None
       then winners (fst s) @ [(hp_experimentId i, i)] else winners (fst s))"
  by (cases s) (auto simp: writer_put_def Let_def split: sum.splits option.splits prod.splits)

lemma writer_put_answer:
  "fst (writer_put io i s) = Inr (st, a) \<Longrightarrow>
     \<exists>x. map_of (winners (fst (snd (writer_put io i s)))) (hp_experimentId i) = Some x \<and> a = entryFrom x"
  by (cases s; cases "map_of (winners (fst s)) (hp_experimentId i)")
    (auto simp: writer_put_def Let_def map_add_def split: sum.splits prod.splits)

lemma map_of_append_keeps: "map_of m k = Some v \<Longrightarrow> map_of (m @ n) k = Some v"
  by (simp add: map_add_def)

interpretation durable: first_touch
  "\<lambda>(s :: writer_state) k. map_option entryFrom (map_of (winners (fst s)) k)"
  "case_prod writer_put" "\<lambda>(io, i). hp_experimentId i"
  by unfold_locales
    (auto simp: writer_put_winners map_add_def split: sum.splits dest: writer_put_answer)

section \<open>The writer as a state machine\<close>

definition put_version :: "hashed_put \<Rightarrow> thrown + string" where
  "put_version i = (case hp_identityVersion i of Some v \<Rightarrow> Inr v
     | None \<Rightarrow> lift_privacy (keyVersionOf (hp_targetingKeyHash i)))"

inductive writer_step :: "writer_state \<Rightarrow> writer_state \<Rightarrow> bool" where
  put: "writer_step s (snd (writer_put io i s))"
| delete: "writer_step s (snd (deleteEntity io ident before s))"
| reset: "writer_step s (snd (resetApp io ident destroyed s))"

text \<open>
  No winner is older than the deletion cutoff or belongs to a destroyed identity version,
  and both bars only rise.
\<close>

definition fenced :: "writer \<Rightarrow> string set" where
  "fenced w = (case fence w of None \<Rightarrow> {} | Some f \<Rightarrow> set f)"

definition guard_inv :: "writer_state \<Rightarrow> bool" where
  "guard_inv s \<longleftrightarrow> (\<forall>x\<in>snd ` set (winners (fst s)).
     (\<forall>c. cutoff (fst s) = Some c \<longrightarrow> \<not> predates c x) \<and>
     (\<forall>v. put_version x = Inr v \<longrightarrow> v \<notin> fenced (fst s)))"

definition bars_rise :: "writer_state \<Rightarrow> writer_state \<Rightarrow> bool" where
  "bars_rise s t \<longleftrightarrow> fenced (fst s) \<subseteq> fenced (fst t) \<and>
     (\<forall>c. cutoff (fst s) = Some c \<longrightarrow> (\<exists>c'. cutoff (fst t) = Some c' \<and> c \<le> c'))"

lemma put_admitted_Inr:
  assumes "put_admitted w i = Inr u"
  shows "\<exists>t. hp_source i = Some t \<and> (\<forall>c. cutoff w = Some c \<longrightarrow> c < t)"
    "\<exists>v. put_version i = Inr v \<and> v \<notin> fenced w"
proof -
  obtain t v b where "hp_source i = Some t" "put_version i = Inr v"
    "isAppIdentityVersionReset w v = Inr b" "\<not> b"
    "\<forall>c. cutoff w = Some c \<longrightarrow> c < t"
    using assms by (auto simp: put_admitted_def ebind_eq_Inr put_version_def split: option.splits if_splits)
  moreover then have "v \<notin> fenced w"
    by (auto simp: isAppIdentityVersionReset_def ebind_eq_Inr readAppIdentityResetFence_def fenced_def
        requireDestroyedIdentityVersions_def split: option.splits if_splits)
  ultimately show "\<exists>t. hp_source i = Some t \<and> (\<forall>c. cutoff w = Some c \<longrightarrow> c < t)"
    "\<exists>v. put_version i = Inr v \<and> v \<notin> fenced w" by blast+
qed

lemma writer_put_bars:
  "cutoff (fst (snd (writer_put io i s))) = cutoff (fst s)"
  "fence (fst (snd (writer_put io i s))) = fence (fst s)"
  by (cases s; auto simp: writer_put_def Let_def split: sum.splits option.splits prod.splits)+

lemma deleteEntity_writer:
  "fst (snd (deleteEntity io ident before s)) =
    (let c = (case cutoff (fst s) of None \<Rightarrow> before | Some p \<Rightarrow> max p before) in
     (fst s)\<lparr>winners := filter (\<lambda>(k, a). \<not> predates c a) (winners (fst s)), cutoff := Some c\<rparr>)"
  by (cases s) (auto simp: deleteEntity_def Let_def split: sum.splits prod.splits)

lemma resetApp_writer:
  "fst (snd (resetApp io ident destroyed s)) = (case extendAppIdentityResetFence (fst s) destroyed of
     Inl _ \<Rightarrow> fst s | Inr (w, _) \<Rightarrow> w\<lparr>winners := []\<rparr>)"
  by (cases s) (auto simp: resetApp_def Let_def split: sum.splits prod.splits)

lemma extend_fence:
  "extendAppIdentityResetFence w vs = Inr (w', f) \<Longrightarrow>
     w' = w\<lparr>fence := Some f\<rparr> \<and> set f = fenced w \<union> set vs \<and> [] \<notin> set vs"
  by (auto simp: extendAppIdentityResetFence_def ebind_eq_Inr Let_def requireDestroyedIdentityVersions_def
      readAppIdentityResetFence_def fenced_def split: if_splits option.splits)

lemma guard_put: "guard_inv s \<Longrightarrow> guard_inv (snd (writer_put io i s))"
proof (cases "put_admitted (fst s) i")
  case (Inl e)
  assume "guard_inv s"
  with Inl show ?thesis by (simp add: guard_inv_def writer_put_winners writer_put_bars fenced_def)
next
  case (Inr u)
  assume "guard_inv s"
  moreover from put_admitted_Inr[OF Inr]
  have "(\<forall>c. cutoff (fst s) = Some c \<longrightarrow> \<not> predates c i) \<and> (\<forall>v. put_version i = Inr v \<longrightarrow> v \<notin> fenced (fst s))"
    by (auto simp: predates_def)
  ultimately show ?thesis using Inr
    by (auto simp: guard_inv_def writer_put_winners writer_put_bars fenced_def split: if_splits)
qed

lemma guard_delete: "guard_inv s \<Longrightarrow> guard_inv (snd (deleteEntity io ident before s))"
  by (auto simp: guard_inv_def deleteEntity_writer Let_def fenced_def)

lemma guard_reset: "guard_inv s \<Longrightarrow> guard_inv (snd (resetApp io ident destroyed s))"
  by (auto simp: guard_inv_def resetApp_writer split: sum.splits)

lemma step_bars: "writer_step s t \<Longrightarrow> bars_rise s t"
proof (induction rule: writer_step.induct)
  case (put s io i)
  then show ?case by (simp add: bars_rise_def writer_put_bars fenced_def)
next
  case (delete s io ident before)
  then show ?case by (simp add: bars_rise_def deleteEntity_writer Let_def fenced_def)
next
  case (reset s io ident destroyed)
  then show ?case
    by (auto simp: bars_rise_def resetApp_writer fenced_def dest!: extend_fence split: sum.splits)
qed

interpretation assignment_writer: machine writer_step guard_inv
  by unfold_locales (auto elim!: writer_step.cases intro: guard_put guard_delete guard_reset)

lemma bars_rise_refl: "bars_rise s s"
  by (simp add: bars_rise_def)

lemma bars_rise_trans: "bars_rise s t \<Longrightarrow> bars_rise t u \<Longrightarrow> bars_rise s u"
  unfolding bars_rise_def by (meson order_trans)

lemma reaches_bars: "reaches writer_step s t \<Longrightarrow> guard_inv s \<Longrightarrow> bars_rise s t"
  by (rule assignment_writer.mono_reaches[OF step_bars bars_rise_refl bars_rise_trans])

section \<open>KV and the durable winners\<close>

definition kv_value :: "assignment_kv \<Rightarrow> string \<Rightarrow> assignment_value option" where
  "kv_value kv key = (case kv key of None \<Rightarrow> Some [] | Some (Envelope v) \<Rightarrow> Some v | _ \<Rightarrow> None)"

text \<open>One Entity's durable storage: one winner per Experiment, all of that Entity.\<close>

definition winners_ok :: "string \<Rightarrow> writer \<Rightarrow> bool" where
  "winners_ok key w \<longleftrightarrow> distinct (map fst (winners w)) \<and>
     (\<forall>(k, x)\<in>set (winners w). hp_experimentId x = k \<and> kv_key x = key)"

text \<open>Every entry readers see is the durable winner's.\<close>

definition consistent :: "string \<Rightarrow> writer_state \<Rightarrow> bool" where
  "consistent key s \<longleftrightarrow> winners_ok key (fst s) \<and> (\<exists>v. kv_value (snd s) key = Some v \<and>
     (\<forall>e a. map_of v e = Some a \<longrightarrow> (\<exists>x. map_of (winners (fst s)) e = Some x \<and> entryFrom x = a)))"

lemma map_of_mergeAssignmentValue:
  "map_of (mergeAssignmentValue v i) = (case map_of v (hp_experimentId i) of
     Some _ \<Rightarrow> map_of v | None \<Rightarrow> (map_of v)(hp_experimentId i \<mapsto> entryFrom i))"
  by (auto simp: mergeAssignmentValue_def map_add_def fun_eq_iff split: option.splits)

lemma writeThrough_value:
  assumes "kv_value kv (kv_key i) = Some v"
  shows "\<exists>v'. kv_value (snd (writeThrough io i kv)) (kv_key i) = Some v' \<and> (v' = v \<or> v' = mergeAssignmentValue v i)
    \<and> (fst (writeThrough io i kv) = Inr u \<longrightarrow> v' = mergeAssignmentValue v i)"
  using assms
  by (auto simp: writeThrough_def readAssignmentValue_def kv_value_def parseAssignmentValue_def Let_def
      serializeAssignmentValue_def split: option.splits kv_blob.splits if_splits)

lemma foldl_merge:
  "map_of (foldl mergeAssignmentValue v xs) e = (case map_of v e of Some a \<Rightarrow> Some a
     | None \<Rightarrow> map_option entryFrom (find (\<lambda>x. hp_experimentId x = e) xs))"
  by (induction xs arbitrary: v) (auto simp: map_of_mergeAssignmentValue split: option.splits)

lemma find_winner:
  "winners_ok key w \<Longrightarrow> find (\<lambda>x. hp_experimentId x = e) (map snd (winners w)) = map_of (winners w) e"
proof -
  have "(\<forall>(k, x)\<in>set ws. hp_experimentId x = k) \<Longrightarrow>
      find (\<lambda>x. hp_experimentId x = e) (map snd ws) = map_of ws e" for ws :: "(string \<times> hashed_put) list"
    by (induction ws) auto
  then show "winners_ok key w \<Longrightarrow> ?thesis" by (auto simp: winners_ok_def)
qed

text \<open>A rewrite that succeeds makes the KV value exactly the winners.\<close>

lemma rewrite_exact:
  assumes "winners_ok key w" "fst (rewriteKvFromDurableWinners io ident w kv) = Inr u" "identity_key ident = key"
  shows "\<exists>v. kv_value (snd (rewriteKvFromDurableWinners io ident w kv)) key = Some v
    \<and> (\<forall>e. map_of v e = map_option entryFrom (map_of (winners w) e))"
proof -
  define v where "v = foldl mergeAssignmentValue [] (map snd (winners w))"
  have "map_of v e = map_option entryFrom (map_of (winners w) e)" for e
    by (simp add: v_def foldl_merge find_winner[OF assms(1)])
  moreover have "kv_value (snd (rewriteKvFromDurableWinners io ident w kv)) key = Some v"
    using assms(2,3) by (auto simp: rewriteKvFromDurableWinners_def Let_def v_def kv_value_def
        serializeAssignmentValue_def split: if_splits)
  ultimately show ?thesis by blast
qed

lemma winners_ok_put:
  assumes "winners_ok key (fst s)" "kv_key i = key"
  shows "winners_ok key (fst (snd (writer_put io i s)))"
  using assms
  by (auto simp: winners_ok_def writer_put_winners map_of_eq_None image_iff split: sum.splits)

lemma put_visible:
  assumes "consistent key s" "kv_key i = key"
  shows "consistent key (snd (writer_put io i s)) \<and>
    (\<forall>st a. fst (writer_put io i s) = Inr (st, a) \<longrightarrow>
       (\<exists>v. kv_value (snd (snd (writer_put io i s))) key = Some v \<and> map_of v (hp_experimentId i) = Some a))"
proof (cases "put_admitted (fst s) i")
  case (Inl e)
  then show ?thesis using assms(1) by (cases s) (auto simp: writer_put_def)
next
  case (Inr u)
  obtain w kv where s: "s = (w, kv)" by (cases s)
  from assms(1) obtain v where ok: "winners_ok key w" and v: "kv_value kv key = Some v"
    and sub: "\<And>e a. map_of v e = Some a \<Longrightarrow> \<exists>x. map_of (winners w) e = Some x \<and> entryFrom x = a"
    by (auto simp: consistent_def s)
  define x where "x = (case map_of (winners w) (hp_experimentId i) of Some y \<Rightarrow> y | None \<Rightarrow> i)"
  define w' where "w' = (if map_of (winners w) (hp_experimentId i) = None
      then w\<lparr>winners := winners w @ [(hp_experimentId i, i)]\<rparr> else w)"
  have x: "kv_key x = key" "hp_experimentId x = hp_experimentId i" "map_of (winners w') (hp_experimentId i) = Some x"
    using ok assms(2)
    by (auto simp: x_def w'_def winners_ok_def map_add_def split: option.splits dest: map_of_SomeD)
  have res: "writer_put io i s = (case writeThrough io x kv of (Inl e, kv') \<Rightarrow> (Inl e, w', kv')
      | (Inr _, kv') \<Rightarrow> (Inr (if map_of (winners w) (hp_experimentId i) = None then Stored else Existing,
             entryFrom x), w', kv'))"
    using Inr by (cases "map_of (winners w) (hp_experimentId i)")
      (auto simp: writer_put_def s x_def w'_def Let_def split: prod.splits sum.splits)
  have ok': "winners_ok key w'"
    using ok assms(2) by (auto simp: w'_def winners_ok_def map_of_eq_None image_iff)
  have sub': "\<exists>y. map_of (winners w') e = Some y \<and> entryFrom y = a" if "map_of v e = Some a" for e a
    using sub[OF that] by (auto simp: w'_def map_add_def)
  have merged: "\<exists>y. map_of (winners w') e = Some y \<and> entryFrom y = a"
    if "map_of (mergeAssignmentValue v x) e = Some a" for e a
    using that sub' x(2,3) by (auto simp: map_of_mergeAssignmentValue split: option.splits if_splits)
  have at_i: "map_of (mergeAssignmentValue v x) (hp_experimentId i) = Some (entryFrom x)"
    using sub'[of "hp_experimentId i"] x(2,3)
    by (auto simp: map_of_mergeAssignmentValue split: option.splits)
  obtain r kv' where wt: "writeThrough io x kv = (r, kv')" by (cases "writeThrough io x kv")
  from writeThrough_value[of kv x v io "()"] v x(1) wt obtain v' where
    v': "kv_value kv' key = Some v'" "v' = v \<or> v' = mergeAssignmentValue v x"
    "r = Inr () \<longrightarrow> v' = mergeAssignmentValue v x" by auto
  show ?thesis using res wt v' ok' sub' merged at_i
    by (cases r) (auto simp: consistent_def)
qed

lemma merge_entries_lookup:
  "merge_entries m v = Inr m' \<Longrightarrow>
     map_of m' e = (case map_of m e of Some a \<Rightarrow> Some a | None \<Rightarrow> map_of v e)"
proof (induction m v arbitrary: m' rule: merge_entries.induct)
  case (2 m d x es)
  show ?case
  proof (cases "map_of m d")
    case None
    with "2.prems" have "merge_entries (m @ [(d, x)]) es = Inr m'" by simp
    from "2.IH"(1)[OF None this] None show ?thesis by (cases "map_of m e") (auto simp: map_add_def)
  next
    case (Some y)
    with "2.prems" have *: "\<not> (entry_runId y \<noteq> entry_runId x \<or> entry_variant y \<noteq> entry_variant x)"
      and "merge_entries m es = Inr m'" by (auto split: if_splits)
    from "2.IH"(2)[OF Some * this(2)] Some show ?thesis by (cases "map_of m e") auto
  qed
qed (auto split: option.split)

lemma merge_entries_member:
  "merge_entries m v = Inr m' \<Longrightarrow> (e, b) \<in> set v \<Longrightarrow> map_of m' e = Some b"
proof (induction m v arbitrary: m' rule: merge_entries.induct)
  case (2 m d x es)
  show ?case
  proof (cases "map_of m d")
    case None
    with "2.prems" have m': "merge_entries (m @ [(d, x)]) es = Inr m'" by simp
    from "2.IH"(1)[OF None m'] merge_entries_lookup[OF m', of d] None "2.prems"(2) show ?thesis
      by (auto simp: map_add_def)
  next
    case (Some y)
    with "2.prems" have *: "\<not> (entry_runId y \<noteq> entry_runId x \<or> entry_variant y \<noteq> entry_variant x)"
      and m': "merge_entries m es = Inr m'" by (auto split: if_splits)
    from * have "y = x" by simp
    with "2.IH"(2)[OF Some * m'] merge_entries_lookup[OF m', of d] Some "2.prems"(2) show ?thesis by auto
  qed
qed simp

lemma merge_values_lookup:
  "merge_values m vs = Inr m' \<Longrightarrow> map_of m' e = (case map_of m e of Some a \<Rightarrow> Some a
     | None \<Rightarrow> map_of (concat vs) e)"
  by (induction m vs arbitrary: m' rule: merge_values.induct)
    (auto simp: ebind_eq_Inr merge_entries_lookup map_add_def split: option.splits)

text \<open>Every entry of every value that was merged is the entry of the result.\<close>

lemma merge_values_all_agree:
  "merge_values m vs = Inr m' \<Longrightarrow> v \<in> set vs \<Longrightarrow> (e, b) \<in> set v \<Longrightarrow> map_of m' e = Some b"
proof (induction m vs arbitrary: m' rule: merge_values.induct)
  case (2 m w vs)
  then obtain m1 where m1: "merge_entries m w = Inr m1" "merge_values m1 vs = Inr m'"
    by (auto simp: ebind_eq_Inr)
  show ?case
  proof (cases "v \<in> set vs")
    case True
    with "2.IH"[OF m1(2)] "2.prems"(3) show ?thesis by simp
  next
    case False
    with "2.prems" have "(e, b) \<in> set w" by simp
    then have "map_of m1 e = Some b" using merge_entries_member[OF m1(1)] by blast
    then show ?thesis using merge_values_lookup[OF m1(2), of e] by simp
  qed
qed simp

text \<open>A failed merge has two values that disagree.\<close>

lemma merge_entries_disagree:
  "merge_entries m v = Inl t \<Longrightarrow>
     \<exists>e a b. (map_of m e = Some a \<or> (e, a) \<in> set v) \<and> (e, b) \<in> set v \<and> a \<noteq> b"
proof (induction m v rule: merge_entries.induct)
  case (2 m d x es)
  show ?case
  proof (cases "map_of m d")
    case None
    with "2.prems" have "merge_entries (m @ [(d, x)]) es = Inl t" by simp
    from "2.IH"(1)[OF None this] obtain e a b where
      "map_of (m @ [(d, x)]) e = Some a \<or> (e, a) \<in> set es" "(e, b) \<in> set es" "a \<noteq> b" by blast
    moreover have "map_of m e = Some a \<or> (e, a) = (d, x)" if "map_of (m @ [(d, x)]) e = Some a"
      using that by (auto simp: map_add_def split: option.splits if_splits)
    ultimately show ?thesis by (metis list.set_intros)
  next
    case (Some y)
    show ?thesis
    proof (cases "y = x")
      case True
      then have *: "\<not> (entry_runId y \<noteq> entry_runId x \<or> entry_variant y \<noteq> entry_variant x)" by simp
      with Some "2.prems" have "merge_entries m es = Inl t" by simp
      from "2.IH"(2)[OF Some * this] show ?thesis by (metis list.set_intros(2))
    next
      case False
      with Some show ?thesis by (metis list.set_intros(1))
    qed
  qed
qed simp

lemma merge_values_disagree:
  assumes "merge_values m vs = Inl t" "\<And>e a. map_of m e = Some a \<Longrightarrow> \<exists>v\<in>us. (e, a) \<in> set v"
  shows "\<exists>v\<in>us \<union> set vs. \<exists>w\<in>us \<union> set vs. \<exists>e a b. (e, a) \<in> set v \<and> (e, b) \<in> set w \<and> a \<noteq> b"
  using assms
proof (induction m vs arbitrary: us rule: merge_values.induct)
  case (2 m w vs)
  show ?case
  proof (cases "merge_entries m w")
    case (Inl t')
    from merge_entries_disagree[OF this] obtain e a b where
      eab: "map_of m e = Some a \<or> (e, a) \<in> set w" "(e, b) \<in> set w" "a \<noteq> b" by blast
    obtain v where "v \<in> us \<union> set (w # vs)" "(e, a) \<in> set v"
      using eab(1) "2.prems"(2) by (metis UnI1 UnI2 list.set_intros(1))
    with eab show ?thesis by (metis UnI2 list.set_intros(1))
  next
    case (Inr m1)
    have src: "\<exists>v\<in>insert w us. (e, a) \<in> set v" if "map_of m1 e = Some a" for e a
    proof (cases "map_of m e")
      case None
      with that merge_entries_lookup[OF Inr, of e] have "map_of w e = Some a" by simp
      then show ?thesis by (metis insertI1 map_of_SomeD)
    next
      case (Some a')
      with that merge_entries_lookup[OF Inr, of e] "2.prems"(2) show ?thesis by simp
    qed
    have "merge_values m1 vs = Inl t" using "2.prems"(1) Inr by simp
    from "2.IH"[OF this src] show ?thesis by simp
  qed
qed simp

lemma merge_values_conflict:
  "merge_values m vs = Inl t \<Longrightarrow> \<exists>e. t = AssignmentStoreError (conflict_message e)"
proof -
  have "merge_entries m v = Inl t \<Longrightarrow> \<exists>e. t = AssignmentStoreError (conflict_message e)" for m v t
    by (induction m v rule: merge_entries.induct) (auto split: option.splits if_splits)
  then show "merge_values m vs = Inl t \<Longrightarrow> ?thesis"
    by (induction m vs rule: merge_values.induct) (auto simp: ebind_eq_Inl)
qed

section \<open>Properties\<close>

definition sample_identity :: entity_identity where
  "sample_identity = \<lparr>ei_appId = ''a'', ei_idType = ''user'', ei_targetingKeyHash = ''app-v1:h''\<rparr>"

definition sample_put :: "ms \<Rightarrow> string \<Rightarrow> hashed_put" where
  "sample_put t v = \<lparr>hp_appId = ''a'', hp_experimentId = ''e1'', hp_idType = ''user'',
     hp_targetingKeyHash = ''app-v1:h'', hp_identityVersion = Some ''app-v1'', hp_runId = ''r1'',
     hp_source = Some t, hp_variant = v\<rparr>"

definition sample_io :: kv_io where
  "sample_io = \<lparr>get_fails = False, put_fails = False, delete_fails = False, has_delete = True\<rparr>"

definition empty_writer :: writer where
  "empty_writer = \<lparr>winners = [], cutoff = None, fence = None\<rparr>"

lemmas sample_writer_defs = sample_identity_def sample_put_def sample_io_def empty_writer_def

text \<open>
  C24: the first touch wins for ever. Between two answered puts for one Experiment on an
  Entity's writer, with any puts in between and any KV failures, the second answer carries
  the assignment of the first.
\<close>

theorem first_touch_wins:
  assumes "fst (writer_put io i s) = Inr (st, a)"
    and "fst (writer_put io' j (fold (\<lambda>(io, k) s. snd (writer_put io k s)) history
           (snd (writer_put io i s)))) = Inr (st', b)"
    and "hp_experimentId i = hp_experimentId j"
  shows "b = a"
  using durable.later_answer_agrees[of "(io, i)" s st a "(io', j)" history st' b] assms
  by (simp add: case_prod_beta')

lemma first_touch_wins_witness:
  "fst (writer_put sample_io (sample_put 2 ''on'') (snd (writer_put sample_io (sample_put 1 ''off'') (empty_writer, Map.empty))))
     = Inr (Existing, \<lparr>entry_runId = ''r1'', entry_variant = ''off''\<rparr>)"
proof -
  let ?s = "(empty_writer, Map.empty)"
  have 1: "fst (writer_put sample_io (sample_put 1 ''off'') ?s)
      = Inr (Stored, \<lparr>entry_runId = ''r1'', entry_variant = ''off''\<rparr>)"
    by (simp add: writer_put_def sample_writer_defs put_admitted_def isAppIdentityVersionReset_def
        readAppIdentityResetFence_def writeThrough_def readAssignmentValue_def mergeAssignmentValue_def
        entryFrom_def Let_def)
  have 2: "\<exists>b. fst (writer_put sample_io (sample_put 2 ''on'') (snd (writer_put sample_io (sample_put 1 ''off'') ?s)))
      = Inr (Existing, b)"
    by (simp add: writer_put_def sample_writer_defs put_admitted_def isAppIdentityVersionReset_def
        readAppIdentityResetFence_def writeThrough_def readAssignmentValue_def mergeAssignmentValue_def
        entryFrom_def Let_def serializeAssignmentValue_def parseAssignmentValue_def kv_key_def)
  then obtain b where b: "fst (writer_put sample_io (sample_put 2 ''on'')
      (snd (writer_put sample_io (sample_put 1 ''off'') ?s))) = Inr (Existing, b)" by blast
  from first_touch_wins[OF 1, of sample_io "sample_put 2 ''on''" "[]"] b
  show ?thesis by (simp add: sample_put_def)
qed

text \<open>
  C25: an answered put is visible. If what readers see in KV is the durable winners', it
  stays so through every put, failed ones included; and a put that answers with an
  assignment leaves exactly that assignment in KV for the Experiment.
\<close>

theorem answered_put_is_visible:
  assumes "consistent (kv_key i) s"
  shows "consistent (kv_key i) (snd (writer_put io i s)) \<and>
    (\<forall>st a. fst (writer_put io i s) = Inr (st, a) \<longrightarrow>
       (\<exists>v. kv_value (snd (snd (writer_put io i s))) (kv_key i) = Some v \<and> map_of v (hp_experimentId i) = Some a))"
  using assms refl by (rule put_visible)

lemma answered_put_is_visible_witness:
  "consistent (kv_key (sample_put 1 ''on'')) (snd (writer_put (sample_io\<lparr>put_fails := True\<rparr>) (sample_put 1 ''on'')
     (empty_writer, Map.empty)))"
proof -
  have "consistent (kv_key (sample_put 1 ''on'')) (empty_writer, Map.empty)"
    by (simp add: consistent_def winners_ok_def empty_writer_def kv_value_def)
  from answered_put_is_visible[OF this] show ?thesis by blast
qed



text \<open>
  A completed deletion or App reset leaves in KV exactly the surviving winners, for
  every Experiment, whatever an interrupted operation had left there before.
\<close>

theorem deletion_restores_kv:
  assumes "winners_ok (identity_key ident) (fst s)" and "fst (deleteEntity io ident before s) = Inr prf"
  shows "\<exists>v. kv_value (snd (snd (deleteEntity io ident before s))) (identity_key ident) = Some v
    \<and> (\<forall>e. map_of v e = map_option entryFrom (map_of (winners (fst (snd (deleteEntity io ident before s)))) e))"
proof -
  obtain w kv where s: "s = (w, kv)" by (cases s)
  let ?w = "fst (snd (deleteEntity io ident before s))"
  have "winners_ok (identity_key ident) ?w"
    using assms(1) by (auto simp: deleteEntity_writer Let_def winners_ok_def s distinct_map_filter)
  moreover have "fst (rewriteKvFromDurableWinners io ident ?w kv) = Inr ()"
    "snd (snd (deleteEntity io ident before s)) = snd (rewriteKvFromDurableWinners io ident ?w kv)"
    using assms(2) by (auto simp: deleteEntity_def s Let_def split: sum.splits prod.splits)
  ultimately show ?thesis using rewrite_exact by fastforce
qed

lemma deletion_restores_kv_witness:
  "\<exists>v. kv_value (snd (snd (deleteEntity sample_io sample_identity 5 (empty_writer, Map.empty)))) (identity_key sample_identity)
     = Some v"
  using deletion_restores_kv[of sample_identity "(empty_writer, Map.empty)" sample_io 5]
  by (auto simp: sample_writer_defs winners_ok_def deleteEntity_def rewriteKvFromDurableWinners_def Let_def)

text \<open>
  reading over retained epochs never guesses. Merging the values of all retained
  identities returns the assignment every one of them that has the Experiment agrees on,
  and throws an \<open>AssignmentStoreError\<close> exactly when two of them disagree.
\<close>

theorem retained_merge_agrees:
  assumes "\<forall>v\<in>set vs. distinct (map fst v)"
  shows "(case mergeRetainedAssignmentValues vs of
      Inr m \<Rightarrow> (\<forall>v\<in>set vs. \<forall>e a. map_of v e = Some a \<longrightarrow> map_of m e = Some a)
        \<and> (\<forall>e a. map_of m e = Some a \<longrightarrow> (\<exists>v\<in>set vs. map_of v e = Some a))
    | Inl t \<Rightarrow> (\<exists>e. t = AssignmentStoreError (conflict_message e))
        \<and> (\<exists>v\<in>set vs. \<exists>w\<in>set vs. \<exists>e a b. map_of v e = Some a \<and> map_of w e = Some b \<and> a \<noteq> b))"
proof (cases "mergeRetainedAssignmentValues vs")
  case (Inr m)
  then have m: "merge_values [] vs = Inr m" by (simp add: mergeRetainedAssignmentValues_def)
  have look: "map_of m e = map_of (concat vs) e" for e using merge_values_lookup[OF m, of e] by simp
  have keep: "map_of m e = Some a" if v: "v \<in> set vs" "map_of v e = Some a" for v e a
  proof -
    have "\<exists>b. map_of (concat vs) e = Some b"
      using v by (induction vs) (auto simp: map_add_def split: option.splits)
    then obtain b where b: "map_of m e = Some b" using look by auto
    from merge_values_all_agree[OF m v(1) map_of_SomeD[OF v(2)]] b show ?thesis by simp
  qed
  have from_some: "\<exists>v\<in>set vs. map_of v e = Some a" if "map_of m e = Some a" for e a
    using that unfolding look by (induction vs) (auto simp: map_add_def split: option.splits)
  from keep from_some Inr show ?thesis by auto
next
  case (Inl t)
  then have t: "merge_values [] vs = Inl t" by (simp add: mergeRetainedAssignmentValues_def)
  obtain v w e a b where "v \<in> set vs" "w \<in> set vs" "(e, a) \<in> set v" "(e, b) \<in> set w" "a \<noteq> b"
    using merge_values_disagree[OF t, of "{}"] by auto
  moreover from this assms have "map_of v e = Some a" "map_of w e = Some b" by auto
  ultimately have "\<exists>v\<in>set vs. \<exists>w\<in>set vs. \<exists>e a b. map_of v e = Some a \<and> map_of w e = Some b \<and> a \<noteq> b"
    by blast
  with merge_values_conflict[OF t] Inl show ?thesis by simp
qed

lemma retained_merge_agrees_witness:
  "case mergeRetainedAssignmentValues [[(''e'', entryFrom (sample_put 1 ''on''))], [(''e'', entryFrom (sample_put 2 ''on''))]] of
     Inr m \<Rightarrow> map_of m ''e'' = Some (entryFrom (sample_put 1 ''on'')) | Inl _ \<Rightarrow> False"
  using retained_merge_agrees[of "[[(''e'', entryFrom (sample_put 1 ''on''))], [(''e'', entryFrom (sample_put 2 ''on''))]]"]
  by (simp add: mergeRetainedAssignmentValues_def entryFrom_def sample_put_def)

end
