(* ===== verification/ExposureClaim.thy ===== *)
theory ExposureClaim
  imports Json
begin

text \<open>
  Exposure Ticket redemption claims, \<open>apps/evaluation-api/src\<close>:
  \<open>exposure-redemption-claim-core.ts\<close> (the claim state machine), the storage, alarm and
  paged sweep of \<open>exposure-redemption-do-handler.ts\<close>, and the parsers of
  \<open>exposure-redemption-claim.ts\<close>. Every mutation runs in one storage transaction and an
  alarm tick awaits storage only, so each is one step on the storage of the Durable Object.
\<close>

section \<open>Storage\<close>

datatype delivery = Pending | Sealed | Accepted

record exposure_binding =
  eb_ticketFingerprint :: string
  eb_delivery :: delivery
  eb_expiresAt :: ms

record ticket_binding =
  tb_ownerExposureId :: string
  tb_delivery :: delivery
  tb_expiresAt :: ms

text \<open>What a storage key can hold: the two kinds of binding, the sweep cursor, the floor.\<close>

datatype claim_value = ExposureV exposure_binding | TicketV ticket_binding
  | CursorV string "ms option" | FloorV ms

record claim_do =
  entries :: "(string, claim_value) jsmap"
  alarm :: "ms option"

definition EXPOSURE_REDEMPTION_CLAIM_TTL_MS :: ms where
  "EXPOSURE_REDEMPTION_CLAIM_TTL_MS = 24 * 60 * 60 * 1000"

definition EXPOSURE_REDEMPTION_PENDING_LEASE_MS :: ms where
  "EXPOSURE_REDEMPTION_PENDING_LEASE_MS = 30000"

definition EXPOSURE_REDEMPTION_SWEEP_PAGE_SIZE :: nat where
  "EXPOSURE_REDEMPTION_SWEEP_PAGE_SIZE = 128"

definition EXPOSURE_KEY_PREFIX :: string where "EXPOSURE_KEY_PREFIX = ''exposure:''"
definition TICKET_KEY_PREFIX :: string where "TICKET_KEY_PREFIX = ''ticket:''"
definition SWEEP_CURSOR_KEY :: string where "SWEEP_CURSOR_KEY = ''__sweep_after''"
definition PENDING_EXPIRY_FLOOR_KEY :: string where "PENDING_EXPIRY_FLOOR_KEY = ''__pending_expiry_floor''"

definition ekey :: "string \<Rightarrow> string" where "ekey e = EXPOSURE_KEY_PREFIX @ e"
definition tkey :: "string \<Rightarrow> string" where "tkey t = TICKET_KEY_PREFIX @ t"

definition getExposure :: "claim_do \<Rightarrow> string \<Rightarrow> exposure_binding option" where
  "getExposure d e = (case map_of (entries d) (ekey e) of Some (ExposureV r) \<Rightarrow> Some r | _ \<Rightarrow> None)"

definition getTicket :: "claim_do \<Rightarrow> string \<Rightarrow> ticket_binding option" where
  "getTicket d t = (case map_of (entries d) (tkey t) of Some (TicketV r) \<Rightarrow> Some r | _ \<Rightarrow> None)"

definition put_value :: "string \<Rightarrow> claim_value \<Rightarrow> claim_do \<Rightarrow> claim_do" where
  "put_value k v d = d\<lparr>entries := AList.update k v (entries d)\<rparr>"

definition delete_key :: "string \<Rightarrow> claim_do \<Rightarrow> claim_do" where
  "delete_key k d = d\<lparr>entries := AList.delete k (entries d)\<rparr>"

definition putExposure :: "string \<Rightarrow> exposure_binding \<Rightarrow> claim_do \<Rightarrow> claim_do" where
  "putExposure e r = put_value (ekey e) (ExposureV r)"

definition putTicket :: "string \<Rightarrow> ticket_binding \<Rightarrow> claim_do \<Rightarrow> claim_do" where
  "putTicket t r = put_value (tkey t) (TicketV r)"

definition get_cursor :: "claim_do \<Rightarrow> (string \<times> ms option) option" where
  "get_cursor d = (case map_of (entries d) SWEEP_CURSOR_KEY of Some (CursorV a n) \<Rightarrow> Some (a, n) | _ \<Rightarrow> None)"

definition get_floor :: "claim_do \<Rightarrow> ms option" where
  "get_floor d = (case map_of (entries d) PENDING_EXPIRY_FLOOR_KEY of Some (FloorV n) \<Rightarrow> Some n | _ \<Rightarrow> None)"

definition rememberPendingExpiryFloor :: "ms \<Rightarrow> claim_do \<Rightarrow> claim_do" where
  "rememberPendingExpiryFloor x d = put_value PENDING_EXPIRY_FLOOR_KEY
     (FloorV (case get_floor d of None \<Rightarrow> x | Some f \<Rightarrow> min f x)) d"

definition setExpiryAlarm :: "ms \<Rightarrow> claim_do \<Rightarrow> claim_do" where
  "setExpiryAlarm x d = (case alarm d of
     None \<Rightarrow> d\<lparr>alarm := Some x\<rparr>
   | Some a \<Rightarrow> if a > x then d\<lparr>alarm := Some x\<rparr> else rememberPendingExpiryFloor x d)"

section \<open>The claim state machine\<close>

record claim_args =
  ca_exposureId :: string
  ca_ticket :: string
  ca_now :: ms

datatype claim_outcome = Acquired | ResumeAck | Deduplicated | Conflict | Busy
datatype ack_outcome = AckAccepted | AlreadyAccepted

definition liveExposure :: "claim_do \<Rightarrow> string \<Rightarrow> ms \<Rightarrow> exposure_binding option \<times> claim_do" where
  "liveExposure d e now = (case getExposure d e of
     None \<Rightarrow> (None, d)
   | Some r \<Rightarrow> if eb_expiresAt r \<le> now then (None, delete_key (ekey e) d) else (Some r, d))"

definition liveTicket :: "claim_do \<Rightarrow> string \<Rightarrow> ms \<Rightarrow> ticket_binding option \<times> claim_do" where
  "liveTicket d t now = (case getTicket d t of
     None \<Rightarrow> (None, d)
   | Some r \<Rightarrow> if tb_expiresAt r \<le> now then (None, delete_key (tkey t) d) else (Some r, d))"

definition claimAgainstExistingExposure ::
  "claim_args \<Rightarrow> exposure_binding \<Rightarrow> claim_do \<Rightarrow> claim_outcome \<times> claim_do" where
  "claimAgainstExistingExposure i x d =
     (if eb_ticketFingerprint x \<noteq> ca_ticket i then (Conflict, d)
      else if eb_delivery x = Accepted then (Deduplicated, d)
      else if eb_delivery x = Pending then (Busy, d)
      else case liveTicket d (ca_ticket i) (ca_now i) of
        (Some t, d) \<Rightarrow> (if tb_ownerExposureId t = ca_exposureId i then ResumeAck else Deduplicated, d)
      | (None, d) \<Rightarrow> (Deduplicated, d))"

definition claimAgainstExistingTicket ::
  "claim_args \<Rightarrow> ticket_binding \<Rightarrow> claim_do \<Rightarrow> claim_outcome \<times> claim_do" where
  "claimAgainstExistingTicket i t d =
     (if tb_delivery t = Pending then (Busy, d)
      else (Deduplicated, putExposure (ca_exposureId i)
        \<lparr>eb_ticketFingerprint = ca_ticket i, eb_delivery = tb_delivery t, eb_expiresAt = tb_expiresAt t\<rparr> d))"

definition acquirePendingClaim :: "claim_args \<Rightarrow> claim_do \<Rightarrow> claim_outcome \<times> claim_do" where
  "acquirePendingClaim i d = (let x = ca_now i + EXPOSURE_REDEMPTION_PENDING_LEASE_MS in
     (Acquired, putTicket (ca_ticket i)
        \<lparr>tb_ownerExposureId = ca_exposureId i, tb_delivery = Pending, tb_expiresAt = x\<rparr>
        (putExposure (ca_exposureId i)
          \<lparr>eb_ticketFingerprint = ca_ticket i, eb_delivery = Pending, eb_expiresAt = x\<rparr> d)))"

definition applyExposureRedemptionClaim :: "claim_args \<Rightarrow> claim_do \<Rightarrow> claim_outcome \<times> claim_do" where
  "applyExposureRedemptionClaim i d = (case liveExposure d (ca_exposureId i) (ca_now i) of
     (Some x, d) \<Rightarrow> claimAgainstExistingExposure i x d
   | (None, d) \<Rightarrow> (case liveTicket d (ca_ticket i) (ca_now i) of
       (Some t, d) \<Rightarrow> claimAgainstExistingTicket i t d
     | (None, d) \<Rightarrow> acquirePendingClaim i d))"

definition applyExposureRedemptionRelease :: "claim_args \<Rightarrow> claim_do \<Rightarrow> claim_do" where
  "applyExposureRedemptionRelease i d = (case liveExposure d (ca_exposureId i) (ca_now i) of
     (None, d) \<Rightarrow> d
   | (Some x, d) \<Rightarrow> if eb_ticketFingerprint x \<noteq> ca_ticket i \<or> eb_delivery x \<noteq> Pending then d
       else case liveTicket (delete_key (ekey (ca_exposureId i)) d) (ca_ticket i) (ca_now i) of
         (Some t, d) \<Rightarrow> if tb_ownerExposureId t = ca_exposureId i \<and> tb_delivery t = Pending
             then delete_key (tkey (ca_ticket i)) d else d
       | (None, d) \<Rightarrow> d)"

definition applyExposureRedemptionMarkSealed :: "claim_args \<Rightarrow> claim_do \<Rightarrow> (string + unit) \<times> claim_do" where
  "applyExposureRedemptionMarkSealed i d = (case liveExposure d (ca_exposureId i) (ca_now i) of
     (None, d) \<Rightarrow> (Inl ''exposure redemption claim is missing or mismatched at markSealed'', d)
   | (Some x, d) \<Rightarrow>
       if eb_ticketFingerprint x \<noteq> ca_ticket i
       then (Inl ''exposure redemption claim is missing or mismatched at markSealed'', d)
       else if eb_delivery x = Accepted \<or> eb_delivery x = Sealed then (Inr (), d)
       else case liveTicket d (ca_ticket i) (ca_now i) of
         (None, d) \<Rightarrow> (Inl ''exposure redemption ticket binding missing while exposure claim is live at markSealed'', d)
       | (Some t, d) \<Rightarrow>
           if tb_ownerExposureId t \<noteq> ca_exposureId i
           then (Inl ''exposure redemption ticket owner mismatches exposure claim at markSealed'', d)
           else let x = ca_now i + EXPOSURE_REDEMPTION_CLAIM_TTL_MS in
             (Inr (), setExpiryAlarm x
               (putTicket (ca_ticket i)
                 \<lparr>tb_ownerExposureId = tb_ownerExposureId t, tb_delivery = Sealed, tb_expiresAt = x\<rparr>
                 (putExposure (ca_exposureId i)
                   \<lparr>eb_ticketFingerprint = ca_ticket i, eb_delivery = Sealed, eb_expiresAt = x\<rparr> d))))"

definition applyExposureRedemptionAcknowledge ::
  "claim_args \<Rightarrow> claim_do \<Rightarrow> (string + ack_outcome) \<times> claim_do" where
  "applyExposureRedemptionAcknowledge i d = (case liveExposure d (ca_exposureId i) (ca_now i) of
     (None, d) \<Rightarrow> (Inl ''exposure redemption claim is missing or mismatched at acknowledge'', d)
   | (Some x, d) \<Rightarrow>
       if eb_ticketFingerprint x \<noteq> ca_ticket i
       then (Inl ''exposure redemption claim is missing or mismatched at acknowledge'', d)
       else if eb_delivery x = Accepted then (Inr AlreadyAccepted, d)
       else if eb_delivery x \<noteq> Sealed
       then (Inl ''exposure redemption claim must be sealed before acknowledge'', d)
       else case liveTicket d (ca_ticket i) (ca_now i) of
         (None, d) \<Rightarrow> (Inl ''exposure redemption ticket binding missing while exposure claim is live at acknowledge'', d)
       | (Some t, d) \<Rightarrow>
           if tb_ownerExposureId t \<noteq> ca_exposureId i
           then (Inl ''exposure redemption ticket owner mismatches exposure claim at acknowledge'', d)
           else let x = tb_expiresAt t in
             (Inr AckAccepted, setExpiryAlarm x
               (putTicket (ca_ticket i)
                 \<lparr>tb_ownerExposureId = tb_ownerExposureId t, tb_delivery = Accepted, tb_expiresAt = x\<rparr>
                 (putExposure (ca_exposureId i)
                   \<lparr>eb_ticketFingerprint = ca_ticket i, eb_delivery = Accepted, eb_expiresAt = x\<rparr> d))))"

section \<open>The alarm sweep\<close>

definition minExpiry :: "ms option \<Rightarrow> ms option \<Rightarrow> ms option" where
  "minExpiry a b = (case a of None \<Rightarrow> b | Some x \<Rightarrow> (case b of None \<Rightarrow> a | Some y \<Rightarrow> Some (min x y)))"

definition claimRecordExpiresAt :: "string \<Rightarrow> claim_value \<Rightarrow> ms option" where
  "claimRecordExpiresAt k v =
     (if \<not> (prefix EXPOSURE_KEY_PREFIX k \<or> prefix TICKET_KEY_PREFIX k) then None
      else case v of ExposureV r \<Rightarrow> Some (eb_expiresAt r) | TicketV r \<Rightarrow> Some (tb_expiresAt r) | _ \<Rightarrow> None)"

fun collectExpiredKeys :: "(string, claim_value) jsmap \<Rightarrow> ms \<Rightarrow> string list \<times> ms option" where
  "collectExpiredKeys [] now = ([], None)"
| "collectExpiredKeys ((k, v) # es) now = (let (ks, n) = collectExpiredKeys es now in
     case claimRecordExpiresAt k v of
       None \<Rightarrow> (ks, n)
     | Some x \<Rightarrow> if x \<le> now then (k # ks, n) else (ks, minExpiry (Some x) n))"

text \<open>\<open>storage.list\<close>: the entries after the cursor in key order, one page of them.\<close>

definition sweep_page :: "claim_do \<Rightarrow> (string, claim_value) jsmap" where
  "sweep_page d = take EXPOSURE_REDEMPTION_SWEEP_PAGE_SIZE
     (sort_key fst (filter (\<lambda>(k, v). case get_cursor d of None \<Rightarrow> True | Some (a, _) \<Rightarrow> a < k) (entries d)))"

definition takeExpiryWithPendingFloor :: "ms option \<Rightarrow> claim_do \<Rightarrow> ms option \<times> claim_do" where
  "takeExpiryWithPendingFloor n d = (case get_floor d of
     None \<Rightarrow> (minExpiry n None, d)
   | Some f \<Rightarrow> (minExpiry n (Some f), delete_key PENDING_EXPIRY_FLOOR_KEY d))"

definition deleteExpired :: "ms \<Rightarrow> claim_do \<Rightarrow> ms option \<times> claim_do" where
  "deleteExpired now d = (let page = sweep_page d;
       (ks, pn) = collectExpiredKeys page now;
       d1 = fold delete_key ks d;
       n = minExpiry (case get_cursor d of None \<Rightarrow> None | Some (_, c) \<Rightarrow> c) pn
     in if length page \<ge> EXPOSURE_REDEMPTION_SWEEP_PAGE_SIZE
        then (Some now, put_value SWEEP_CURSOR_KEY (CursorV (fst (last page)) n) d1)
        else takeExpiryWithPendingFloor n
          (if get_cursor d \<noteq> None then delete_key SWEEP_CURSOR_KEY d1 else d1))"

text \<open>The alarm that fired is cleared by the runtime before the handler runs.\<close>

definition runExposureRedemptionClaimAlarm :: "ms \<Rightarrow> claim_do \<Rightarrow> claim_do" where
  "runExposureRedemptionClaimAlarm now d = (case deleteExpired now (d\<lparr>alarm := None\<rparr>) of
     (None, d) \<Rightarrow> d | (Some n, d) \<Rightarrow> setExpiryAlarm n d)"

section \<open>The client of the Durable Object\<close>

definition exposureRedemptionClaimScopeName :: "string \<Rightarrow> string \<Rightarrow> string" where
  "exposureRedemptionClaimScopeName app env = app @ [CHR 0x1F] @ env"

definition parseClaimOutcome :: "jsval \<Rightarrow> string + claim_outcome" where
  "parseClaimOutcome v = (if \<not> is_object v then Inl ''exposure redemption claim returned an invalid outcome''
     else if jprop v ''status'' = JStr ''acquired'' then Inr Acquired
     else if jprop v ''status'' = JStr ''resume_ack'' then Inr ResumeAck
     else if jprop v ''status'' = JStr ''deduplicated'' then Inr Deduplicated
     else if jprop v ''status'' = JStr ''conflict'' then Inr Conflict
     else if jprop v ''status'' = JStr ''busy'' then Inr Busy
     else Inl ''exposure redemption claim returned an invalid outcome'')"

definition parseAcknowledgeOutcome :: "jsval \<Rightarrow> string + ack_outcome" where
  "parseAcknowledgeOutcome v = (if \<not> is_object v then Inl ''exposure redemption acknowledge returned an invalid outcome''
     else if jprop v ''status'' = JStr ''accepted'' then Inr AckAccepted
     else if jprop v ''status'' = JStr ''already_accepted'' then Inr AlreadyAccepted
     else Inl ''exposure redemption acknowledge returned an invalid outcome'')"

definition parseOk :: "jsval \<Rightarrow> string + unit" where
  "parseOk v = (if is_object v \<and> jprop v ''ok'' = JBool True then Inr ()
     else Inl ''exposure redemption claim returned an invalid ok response'')"

text \<open>The body the Durable Object answers a claim with.\<close>

definition outcome_json :: "claim_outcome \<Rightarrow> jsval" where
  "outcome_json c = JObj [(''status'', JStr (case c of Acquired \<Rightarrow> ''acquired'' | ResumeAck \<Rightarrow> ''resume_ack''
     | Deduplicated \<Rightarrow> ''deduplicated'' | Conflict \<Rightarrow> ''conflict'' | Busy \<Rightarrow> ''busy''))]"

datatype claim_fault = TransportFault | HttpFault int | ProtocolFault | OtherFault

definition RETRYABLE_EXPOSURE_REJECTION_CODE :: string where
  "RETRYABLE_EXPOSURE_REJECTION_CODE = ''SERVICE_UNAVAILABLE''"

definition exposureClaimFaultCode :: "claim_fault \<Rightarrow> string" where
  "exposureClaimFaultCode f = (case f of
     TransportFault \<Rightarrow> RETRYABLE_EXPOSURE_REJECTION_CODE
   | HttpFault s \<Rightarrow> (if s \<in> {400, 404, 409} then ''INTERNAL_SERVER_ERROR'' else RETRYABLE_EXPOSURE_REJECTION_CODE)
   | ProtocolFault \<Rightarrow> ''INTERNAL_SERVER_ERROR''
   | OtherFault \<Rightarrow> ''INTERNAL_SERVER_ERROR'')"

lemma parse_outcome_json [simp]: "parseClaimOutcome (outcome_json c) = Inr c"
  by (cases c) (simp_all add: parseClaimOutcome_def outcome_json_def)

section \<open>Operations as one alphabet\<close>

datatype claim_op = OpClaim claim_args | OpRelease claim_args | OpSeal claim_args | OpAck claim_args | OpAlarm ms

fun op_time :: "claim_op \<Rightarrow> ms" where
  "op_time (OpClaim i) = ca_now i"
| "op_time (OpRelease i) = ca_now i"
| "op_time (OpSeal i) = ca_now i"
| "op_time (OpAck i) = ca_now i"
| "op_time (OpAlarm now) = now"

fun apply_op :: "claim_op \<Rightarrow> claim_do \<Rightarrow> claim_do" where
  "apply_op (OpClaim i) d = snd (applyExposureRedemptionClaim i d)"
| "apply_op (OpRelease i) d = applyExposureRedemptionRelease i d"
| "apply_op (OpSeal i) d = snd (applyExposureRedemptionMarkSealed i d)"
| "apply_op (OpAck i) d = snd (applyExposureRedemptionAcknowledge i d)"
| "apply_op (OpAlarm now) d = runExposureRedemptionClaimAlarm now d"

section \<open>Views of the storage\<close>

lemma key_distinct [simp]:
  "ekey e = ekey e' \<longleftrightarrow> e = e'" "tkey t = tkey t' \<longleftrightarrow> t = t'"
  "ekey e \<noteq> tkey t" "tkey t \<noteq> ekey e"
  "ekey e \<noteq> SWEEP_CURSOR_KEY" "tkey t \<noteq> SWEEP_CURSOR_KEY"
  "SWEEP_CURSOR_KEY \<noteq> ekey e" "SWEEP_CURSOR_KEY \<noteq> tkey t"
  "ekey e \<noteq> PENDING_EXPIRY_FLOOR_KEY" "tkey t \<noteq> PENDING_EXPIRY_FLOOR_KEY"
  "PENDING_EXPIRY_FLOOR_KEY \<noteq> ekey e" "PENDING_EXPIRY_FLOOR_KEY \<noteq> tkey t"
  "SWEEP_CURSOR_KEY \<noteq> PENDING_EXPIRY_FLOOR_KEY" "PENDING_EXPIRY_FLOOR_KEY \<noteq> SWEEP_CURSOR_KEY"
  by (simp_all add: ekey_def tkey_def EXPOSURE_KEY_PREFIX_def TICKET_KEY_PREFIX_def
      SWEEP_CURSOR_KEY_def PENDING_EXPIRY_FLOOR_KEY_def)

lemma put_value_entries [simp]:
  "map_of (entries (put_value k v d)) = (map_of (entries d))(k \<mapsto> v)" "alarm (put_value k v d) = alarm d"
  by (simp_all add: put_value_def map_of_update)

lemma delete_key_entries [simp]:
  "map_of (entries (delete_key k d)) = (map_of (entries d))(k := None)" "alarm (delete_key k d) = alarm d"
  by (simp_all add: delete_key_def map_of_delete)

lemma view_puts [simp]:
  "getExposure (putExposure e r d) e' = (if e' = e then Some r else getExposure d e')"
  "getTicket (putExposure e r d) t = getTicket d t"
  "getTicket (putTicket t r' d) t' = (if t' = t then Some r' else getTicket d t')"
  "getExposure (putTicket t r' d) e = getExposure d e"
  by (simp_all add: getExposure_def getTicket_def putExposure_def putTicket_def)

lemma view_deletes [simp]:
  "getExposure (delete_key (ekey e) d) e' = (if e' = e then None else getExposure d e')"
  "getTicket (delete_key (ekey e) d) t = getTicket d t"
  "getTicket (delete_key (tkey t) d) t' = (if t' = t then None else getTicket d t')"
  "getExposure (delete_key (tkey t) d) e = getExposure d e"
  by (simp_all add: getExposure_def getTicket_def)

lemma view_system [simp]:
  "getExposure (setExpiryAlarm x d) e = getExposure d e" "getTicket (setExpiryAlarm x d) t = getTicket d t"
  "getExposure (d\<lparr>alarm := a\<rparr>) e = getExposure d e" "getTicket (d\<lparr>alarm := a\<rparr>) t = getTicket d t"
  by (simp_all add: getExposure_def getTicket_def setExpiryAlarm_def rememberPendingExpiryFloor_def
      split: option.splits)

lemmas claim_branches = applyExposureRedemptionClaim_def claimAgainstExistingExposure_def
  claimAgainstExistingTicket_def acquirePendingClaim_def liveExposure_def liveTicket_def Let_def

lemmas mutation_branches = applyExposureRedemptionRelease_def applyExposureRedemptionMarkSealed_def
  applyExposureRedemptionAcknowledge_def liveExposure_def liveTicket_def Let_def

section \<open>A claim keeps its ticket\<close>

definition wf_do :: "claim_do \<Rightarrow> bool" where
  "wf_do d \<longleftrightarrow> distinct (map fst (entries d))"

lemma wf_basic [simp]:
  "wf_do d \<Longrightarrow> wf_do (put_value k v d)" "wf_do d \<Longrightarrow> wf_do (delete_key k d)"
  "wf_do (d\<lparr>alarm := a\<rparr>) = wf_do d"
  by (simp_all add: wf_do_def put_value_def delete_key_def AList.distinct_update AList.distinct_delete)

lemma wf_derived [simp]:
  "wf_do d \<Longrightarrow> wf_do (putExposure e r d)" "wf_do d \<Longrightarrow> wf_do (putTicket t r' d)"
  "wf_do d \<Longrightarrow> wf_do (setExpiryAlarm x d)" "wf_do d \<Longrightarrow> wf_do (fold delete_key ks d)"
  by (simp_all add: putExposure_def putTicket_def setExpiryAlarm_def rememberPendingExpiryFloor_def
      split: option.splits) (induction ks arbitrary: d; simp)

lemma wf_apply: "wf_do d \<Longrightarrow> wf_do (apply_op op d)"
proof (cases op)
  case (OpClaim i)
  then show "wf_do d \<Longrightarrow> ?thesis" by (auto simp: claim_branches split: option.splits if_splits)
next
  case (OpRelease i)
  then show "wf_do d \<Longrightarrow> ?thesis" by (auto simp: mutation_branches split: option.splits if_splits)
next
  case (OpSeal i)
  then show "wf_do d \<Longrightarrow> ?thesis" by (auto simp: mutation_branches split: option.splits if_splits)
next
  case (OpAck i)
  then show "wf_do d \<Longrightarrow> ?thesis" by (auto simp: mutation_branches split: option.splits if_splits)
next
  case (OpAlarm now)
  then show "wf_do d \<Longrightarrow> ?thesis"
    by (auto simp: runExposureRedemptionClaimAlarm_def deleteExpired_def Let_def
        takeExpiryWithPendingFloor_def split: option.splits prod.splits)
qed

text \<open>The sweep deletes exactly the expired bindings of its page.\<close>

lemma collectExpiredKeys_mem:
  "k \<in> set (fst (collectExpiredKeys es now)) \<longleftrightarrow>
     (\<exists>v x. (k, v) \<in> set es \<and> claimRecordExpiresAt k v = Some x \<and> x \<le> now)"
  by (induction es) (auto simp: Let_def split: prod.splits option.splits if_splits)

lemma fold_delete_entries:
  "map_of (entries (fold delete_key ks d)) k = (if k \<in> set ks then None else map_of (entries d) k)"
  by (induction ks arbitrary: d) auto

lemma fold_delete_alarm [simp]: "alarm (fold delete_key ks d) = alarm d"
  by (induction ks arbitrary: d) auto

lemma page_subset: "set (sweep_page d) \<subseteq> set (entries d)"
  by (auto simp: sweep_page_def dest!: in_set_takeD)

lemma sweep_keeps:
  assumes "wf_do d" "map_of (entries d) k = Some v"
    "claimRecordExpiresAt k v = None \<or> (\<exists>x. claimRecordExpiresAt k v = Some x \<and> now < x)"
  shows "k \<notin> set (fst (collectExpiredKeys (sweep_page d) now))"
proof
  assume "k \<in> set (fst (collectExpiredKeys (sweep_page d) now))"
  then obtain v' x where v': "(k, v') \<in> set (sweep_page d)" "claimRecordExpiresAt k v' = Some x" "x \<le> now"
    by (auto simp: collectExpiredKeys_mem)
  with page_subset have "(k, v') \<in> set (entries d)" by blast
  with assms(1,2) have "v' = v" by (simp add: wf_do_def)
  with v' assms(3) show False by auto
qed

lemma alarm_ticket:
  assumes "wf_do d" "getTicket d t = Some r" "now < tb_expiresAt r"
  shows "getTicket (runExposureRedemptionClaimAlarm now d) t = Some r"
proof -
  let ?d = "d\<lparr>alarm := None\<rparr>"
  have t: "map_of (entries ?d) (tkey t) = Some (TicketV r)"
    using assms(2) by (auto simp: getTicket_def split: option.splits claim_value.splits)
  have "tkey t \<notin> set (fst (collectExpiredKeys (sweep_page ?d) now))"
    using assms by (intro sweep_keeps[OF _ t]) (auto simp: claimRecordExpiresAt_def tkey_def)
  then have "map_of (entries (snd (deleteExpired now ?d))) (tkey t) = Some (TicketV r)"
    using t by (auto simp: deleteExpired_def Let_def takeExpiryWithPendingFloor_def fold_delete_entries
        split: prod.splits option.splits)
  then have "getTicket (snd (deleteExpired now ?d)) t = Some r" by (simp add: getTicket_def)
  then show ?thesis
    by (auto simp: runExposureRedemptionClaimAlarm_def split: prod.splits option.splits)
qed

text \<open>
  What an operation can do to a live ticket binding: its owner stays, a sealed one stays
  sealed, its expiry stays or is renewed for the full window; only the owner's release
  of a pending one removes it.
\<close>

lemma ticket_kept:
  assumes "wf_do d" "getTicket d t = Some r" "op_time op < tb_expiresAt r"
    and "tb_delivery r = Pending \<longrightarrow>
      (\<forall>i. op = OpRelease i \<longrightarrow> ca_ticket i \<noteq> t \<or> ca_exposureId i \<noteq> tb_ownerExposureId r)"
  shows "\<exists>r'. getTicket (apply_op op d) t = Some r' \<and> tb_ownerExposureId r' = tb_ownerExposureId r
    \<and> (tb_delivery r \<noteq> Pending \<longrightarrow> tb_delivery r' \<noteq> Pending)
    \<and> tb_expiresAt r' \<in> {tb_expiresAt r, op_time op + EXPOSURE_REDEMPTION_CLAIM_TTL_MS}"
proof (cases op)
  case (OpClaim i)
  then show ?thesis using assms(2,3)
    by (auto simp: claim_branches split: option.splits if_splits)
next
  case (OpRelease i)
  then show ?thesis using assms(2-4)
    by (auto simp: mutation_branches split: option.splits if_splits)
next
  case (OpSeal i)
  then show ?thesis using assms(2,3)
    by (auto simp: mutation_branches split: option.splits if_splits)
next
  case (OpAck i)
  then show ?thesis using assms(2,3)
    by (auto simp: mutation_branches split: option.splits if_splits)
next
  case (OpAlarm now)
  then show ?thesis using assms alarm_ticket by auto
qed

lemma ticket_kept_history:
  assumes "wf_do d" "getTicket d t = Some r"
    and "\<forall>op\<in>set ops. op_time op < tb_expiresAt r
      \<and> tb_expiresAt r \<le> op_time op + EXPOSURE_REDEMPTION_CLAIM_TTL_MS
      \<and> (tb_delivery r = Pending \<longrightarrow>
          (\<forall>i. op = OpRelease i \<longrightarrow> ca_ticket i \<noteq> t \<or> ca_exposureId i \<noteq> tb_ownerExposureId r))"
  shows "\<exists>r'. getTicket (fold apply_op ops d) t = Some r' \<and> tb_ownerExposureId r' = tb_ownerExposureId r
    \<and> (tb_delivery r \<noteq> Pending \<longrightarrow> tb_delivery r' \<noteq> Pending) \<and> tb_expiresAt r \<le> tb_expiresAt r'"
proof -
  have "\<exists>r'. getTicket (fold apply_op ops d') t = Some r' \<and> tb_ownerExposureId r' = tb_ownerExposureId r
    \<and> (tb_delivery r \<noteq> Pending \<longrightarrow> tb_delivery r' \<noteq> Pending) \<and> tb_expiresAt r \<le> tb_expiresAt r'"
    if "wf_do d'" "getTicket d' t = Some r1" "tb_ownerExposureId r1 = tb_ownerExposureId r"
      "tb_delivery r \<noteq> Pending \<longrightarrow> tb_delivery r1 \<noteq> Pending" "tb_expiresAt r \<le> tb_expiresAt r1" for d' r1
    using that assms(3)
  proof (induction ops arbitrary: d' r1)
    case (Cons op ops)
    obtain r2 where r2: "getTicket (apply_op op d') t = Some r2" "tb_ownerExposureId r2 = tb_ownerExposureId r1"
      "tb_delivery r1 \<noteq> Pending \<longrightarrow> tb_delivery r2 \<noteq> Pending"
      "tb_expiresAt r2 \<in> {tb_expiresAt r1, op_time op + EXPOSURE_REDEMPTION_CLAIM_TTL_MS}"
      using ticket_kept[OF Cons.prems(1,2), of op] Cons.prems(3-6) by auto
    show ?case
      using Cons.IH[OF wf_apply[OF Cons.prems(1)] r2(1)] r2 Cons.prems(3-6) by auto
  qed auto
  from this[OF assms(1,2)] show ?thesis by simp
qed

section \<open>Claims and what was sealed\<close>

text \<open>The storage with the set of tickets a seal has ever been confirmed for.\<close>

inductive claim_step :: "claim_do \<times> string set \<Rightarrow> claim_do \<times> string set \<Rightarrow> bool" where
  step: "claim_step (d, S) (apply_op op d, case op of
     OpSeal i \<Rightarrow> if fst (applyExposureRedemptionMarkSealed i d) = Inr () then insert (ca_ticket i) S else S
   | _ \<Rightarrow> S)"

definition sealed_inv :: "claim_do \<times> string set \<Rightarrow> bool" where
  "sealed_inv s \<longleftrightarrow> (\<forall>t r. getTicket (fst s) t = Some r \<longrightarrow> tb_delivery r \<noteq> Pending \<longrightarrow> t \<in> snd s)
     \<and> (\<forall>e r. getExposure (fst s) e = Some r \<longrightarrow> eb_delivery r \<noteq> Pending \<longrightarrow> eb_ticketFingerprint r \<in> snd s)"

lemma getTicket_value: "getTicket d t = Some r \<longleftrightarrow> map_of (entries d) (tkey t) = Some (TicketV r)"
  by (auto simp: getTicket_def split: option.splits claim_value.splits)

lemma getExposure_value: "getExposure d e = Some r \<longleftrightarrow> map_of (entries d) (ekey e) = Some (ExposureV r)"
  by (auto simp: getExposure_def split: option.splits claim_value.splits)

lemma setExpiryAlarm_value:
  "k \<noteq> PENDING_EXPIRY_FLOOR_KEY \<Longrightarrow> map_of (entries (setExpiryAlarm x d)) k = map_of (entries d) k"
  by (auto simp: setExpiryAlarm_def rememberPendingExpiryFloor_def split: option.splits)

lemma alarm_shrinks:
  assumes "k \<noteq> SWEEP_CURSOR_KEY" "k \<noteq> PENDING_EXPIRY_FLOOR_KEY"
    and "map_of (entries (runExposureRedemptionClaimAlarm now d)) k = Some v"
  shows "map_of (entries d) k = Some v"
proof -
  have "map_of (entries (snd (deleteExpired now (d\<lparr>alarm := None\<rparr>)))) k = Some v"
    using assms by (auto simp: runExposureRedemptionClaimAlarm_def setExpiryAlarm_value
        split: prod.splits option.splits)
  then show ?thesis
    using assms(1,2) by (auto simp: deleteExpired_def Let_def takeExpiryWithPendingFloor_def fold_delete_entries
        split: prod.splits option.splits if_splits)
qed

lemma sealed_step: "sealed_inv s \<Longrightarrow> claim_step s s' \<Longrightarrow> sealed_inv s'"
proof (erule claim_step.cases)
  fix d S op
  assume inv: "sealed_inv s" and s: "s = (d, S)" and s': "s' = (apply_op op d, case op of
     OpSeal i \<Rightarrow> if fst (applyExposureRedemptionMarkSealed i d) = Inr () then insert (ca_ticket i) S else S
   | _ \<Rightarrow> S)"
  show "sealed_inv s'"
  proof (cases op)
    case (OpClaim i)
    then show ?thesis using inv unfolding s s'
      by (auto simp: sealed_inv_def claim_branches split: option.splits if_splits)
  next
    case (OpRelease i)
    then show ?thesis using inv unfolding s s'
      by (auto simp: sealed_inv_def mutation_branches split: option.splits if_splits)
  next
    case (OpSeal i)
    then show ?thesis using inv unfolding s s'
      by (auto simp: sealed_inv_def mutation_branches split: option.splits if_splits)
  next
    case (OpAck i)
    have "ca_ticket i \<in> S"
      if "getExposure d (ca_exposureId i) = Some x" "eb_delivery x = Sealed" "eb_ticketFingerprint x = ca_ticket i" for x
      using that inv unfolding s sealed_inv_def by (metis delivery.distinct(1) fst_conv snd_conv)
    with OpAck show ?thesis using inv unfolding s s'
      by (auto simp: sealed_inv_def mutation_branches split: option.splits if_splits)
  next
    case (OpAlarm now)
    have "getTicket d t = Some r" if "getTicket (runExposureRedemptionClaimAlarm now d) t = Some r" for t r
      using that unfolding getTicket_value by (rule alarm_shrinks[rotated 2]) simp_all
    moreover have "getExposure d e = Some r" if "getExposure (runExposureRedemptionClaimAlarm now d) e = Some r" for e r
      using that unfolding getExposure_value by (rule alarm_shrinks[rotated 2]) simp_all
    ultimately show ?thesis using inv OpAlarm unfolding s s' sealed_inv_def
      by (simp only: apply_op.simps claim_op.case fst_conv snd_conv) blast
  qed
qed

interpretation claims: machine claim_step sealed_inv
  by unfold_locales (rule sealed_step)

section \<open>The sweep loses no sealed claim\<close>

definition sealed_ticket :: "claim_do \<Rightarrow> string \<Rightarrow> bool" where
  "sealed_ticket d t \<longleftrightarrow> (\<exists>r. getTicket d t = Some r \<and> tb_delivery r \<noteq> Pending)"

text \<open>
  While a sealed ticket is stored the alarm is armed; while a paged drain is under way its
  continuation is due, and what lies behind the cursor is remembered by the cursor's
  expiry or by the floor.
\<close>

definition gc_inv :: "ms \<times> claim_do \<Rightarrow> bool" where
  "gc_inv s \<longleftrightarrow> (case s of (now, d) \<Rightarrow> wf_do d
     \<and> ((\<exists>t. sealed_ticket d t) \<longrightarrow> alarm d \<noteq> None)
     \<and> (\<forall>a n. get_cursor d = Some (a, n) \<longrightarrow> (\<exists>x\<le>now. alarm d = Some x)
         \<and> (\<forall>t. sealed_ticket d t \<and> tkey t \<le> a \<longrightarrow> n \<noteq> None \<or> get_floor d \<noteq> None)))"

lemma system_views [simp]:
  "get_cursor (putExposure e r d) = get_cursor d" "get_cursor (putTicket t r' d) = get_cursor d"
  "get_cursor (delete_key (ekey e) d) = get_cursor d" "get_cursor (delete_key (tkey t) d) = get_cursor d"
  "get_floor (putExposure e r d) = get_floor d" "get_floor (putTicket t r' d) = get_floor d"
  "get_floor (delete_key (ekey e) d) = get_floor d" "get_floor (delete_key (tkey t) d) = get_floor d"
  "alarm (putExposure e r d) = alarm d" "alarm (putTicket t r' d) = alarm d"
  by (simp_all add: get_cursor_def get_floor_def putExposure_def putTicket_def)

lemma setExpiryAlarm_system:
  "get_cursor (setExpiryAlarm x d) = get_cursor d"
  "alarm (setExpiryAlarm x d) = (case alarm d of None \<Rightarrow> Some x | Some a \<Rightarrow> Some (min a x))"
  "alarm d = Some a \<Longrightarrow> a \<le> x \<Longrightarrow> get_floor (setExpiryAlarm x d) \<noteq> None"
  by (auto simp: setExpiryAlarm_def rememberPendingExpiryFloor_def get_cursor_def get_floor_def
      split: option.splits)

lemma setExpiryAlarm_floor: "get_floor d \<noteq> None \<Longrightarrow> get_floor (setExpiryAlarm x d) \<noteq> None"
  by (auto simp: setExpiryAlarm_def rememberPendingExpiryFloor_def get_floor_def split: option.splits)

text \<open>Operations that seal nothing new and leave the alarm, the cursor and the floor alone.\<close>

lemma gc_shrink:
  assumes "gc_inv (now, d)" "now \<le> now'" "wf_do d'" "alarm d' = alarm d" "get_cursor d' = get_cursor d"
    "get_floor d' = get_floor d" "\<And>t. sealed_ticket d' t \<Longrightarrow> sealed_ticket d t"
  shows "gc_inv (now', d')"
proof -
  have arm: "(\<exists>t. sealed_ticket d t) \<longrightarrow> alarm d \<noteq> None"
    and cur: "\<And>a n. get_cursor d = Some (a, n) \<Longrightarrow> (\<exists>x\<le>now. alarm d = Some x)
         \<and> (\<forall>t. sealed_ticket d t \<and> tkey t \<le> a \<longrightarrow> n \<noteq> None \<or> get_floor d \<noteq> None)"
    using assms(1) by (auto simp: gc_inv_def)
  show ?thesis
    unfolding gc_inv_def prod.case assms(4-6)
  proof (intro conjI allI impI)
    fix a n assume an: "get_cursor d = Some (a, n)"
    show "\<exists>x\<le>now'. alarm d = Some x" using cur[OF an] assms(2) by (meson order.trans)
    show "n \<noteq> None \<or> get_floor d \<noteq> None" if "sealed_ticket d' t \<and> tkey t \<le> a" for t
      using cur[OF an] assms(7) that by blast
  qed (use assms(3,7) arm in blast)+
qed

lemma sealed_ticket_puts [simp]:
  "sealed_ticket (putExposure e r d) t = sealed_ticket d t"
  "sealed_ticket (putTicket t' r' d) t = (if t = t' then tb_delivery r' \<noteq> Pending else sealed_ticket d t)"
  "sealed_ticket (delete_key (ekey e) d) t = sealed_ticket d t"
  "sealed_ticket (delete_key (tkey t') d) t = (t \<noteq> t' \<and> sealed_ticket d t)"
  "sealed_ticket (setExpiryAlarm x d) t = sealed_ticket d t"
  by (auto simp: sealed_ticket_def)

text \<open>A seal or an acknowledgement of a ticket, armed at a time in the future.\<close>

lemma gc_arm:
  assumes "gc_inv (now, d)" "now \<le> now'" "now' < x"
  shows "gc_inv (now', setExpiryAlarm x (putTicket t r (putExposure e r' d)))"
proof -
  let ?d = "putTicket t r (putExposure e r' d)"
  have wf: "wf_do (setExpiryAlarm x ?d)" using assms(1) by (simp add: gc_inv_def)
  have "(\<exists>y\<le>now'. alarm (setExpiryAlarm x ?d) = Some y)
      \<and> (\<forall>u. sealed_ticket (setExpiryAlarm x ?d) u \<and> tkey u \<le> a \<longrightarrow>
           n \<noteq> None \<or> get_floor (setExpiryAlarm x ?d) \<noteq> None)"
    if "get_cursor (setExpiryAlarm x ?d) = Some (a, n)" for a n
  proof -
    from that assms(1) obtain y where "y \<le> now" "alarm ?d = Some y"
      by (auto simp: gc_inv_def setExpiryAlarm_system)
    with assms(2,3) setExpiryAlarm_system(3)[of ?d y x] show ?thesis
      by (auto simp: setExpiryAlarm_system(2))
  qed
  then show ?thesis using wf
    by (auto simp: gc_inv_def setExpiryAlarm_system(2) split: option.splits)
qed

text \<open>What one sweep reads: a page in key order, or everything behind the cursor.\<close>

lemma collectExpiredKeys_next:
  "snd (collectExpiredKeys es now) = None \<longleftrightarrow>
     (\<forall>(k, v)\<in>set es. \<forall>x. claimRecordExpiresAt k v = Some x \<longrightarrow> x \<le> now)"
  by (induction es) (auto simp: Let_def minExpiry_def split: prod.splits option.splits if_splits)

lemma take_sorted_covers:
  assumes "p \<in> set (sort_key fst xs)" "take n (sort_key fst xs) \<noteq> []"
    "fst p < fst (last (take n (sort_key fst xs)))"
  shows "p \<in> set (take n (sort_key fst xs))"
proof (rule ccontr)
  let ?s = "sort_key fst xs"
  assume "p \<notin> set (take n ?s)"
  then have "p \<in> set (drop n ?s)" using assms(1) by (metis Un_iff append_take_drop_id set_append)
  moreover have "sorted (map fst (take n ?s @ drop n ?s))" by simp
  ultimately have "fst (last (take n ?s)) \<le> fst p"
    using assms(2) by (auto simp: sorted_append simp del: append_take_drop_id)
  with assms(3) show False by simp
qed

lemma page_of_ticket:
  assumes "sealed_ticket d t" "case get_cursor d of None \<Rightarrow> True | Some (a, _) \<Rightarrow> a < tkey t"
    and "length (sweep_page d) < EXPOSURE_REDEMPTION_SWEEP_PAGE_SIZE
      \<or> sweep_page d \<noteq> [] \<and> tkey t \<le> fst (last (sweep_page d))" and "wf_do d"
  shows "\<exists>r. getTicket d t = Some r \<and> (tkey t, TicketV r) \<in> set (sweep_page d)"
proof -
  let ?xs = "filter (\<lambda>(k, v). case get_cursor d of None \<Rightarrow> True | Some (a, _) \<Rightarrow> a < k) (entries d)"
  obtain r where r: "getTicket d t = Some r" using assms(1) by (auto simp: sealed_ticket_def)
  then have "(tkey t, TicketV r) \<in> set (entries d)" by (simp add: getTicket_value map_of_SomeD)
  with assms(2) have mem: "(tkey t, TicketV r) \<in> set (sort_key fst ?xs)" by auto
  have "(tkey t, TicketV r) \<in> set (sweep_page d)"
  proof (cases "length (sweep_page d) < EXPOSURE_REDEMPTION_SWEEP_PAGE_SIZE")
    case True
    then have "sweep_page d = sort_key fst ?xs" by (simp add: sweep_page_def)
    with mem show ?thesis by (simp only:)
  next
    case False
    with assms(3) have ne: "sweep_page d \<noteq> []" and le: "tkey t \<le> fst (last (sweep_page d))" by auto
    show ?thesis
    proof (cases "tkey t = fst (last (sweep_page d))")
      case True
      moreover have "last (sweep_page d) \<in> set (entries d)" using ne page_subset by (meson last_in_set subsetD)
      ultimately have "last (sweep_page d) = (tkey t, TicketV r)"
        using r assms(4) by (cases "last (sweep_page d)") (auto simp: getTicket_value wf_do_def)
      with ne show ?thesis by (metis last_in_set)
    next
      case False
      with le have lt: "tkey t < fst (last (sweep_page d))" by simp
      show ?thesis using take_sorted_covers[OF mem] ne lt unfolding sweep_page_def by simp
    qed
  qed
  with r show ?thesis by blast
qed

lemma delete_system:
  "get_cursor (delete_key PENDING_EXPIRY_FLOOR_KEY d) = get_cursor d"
  "get_cursor (delete_key SWEEP_CURSOR_KEY d) = None"
  by (simp_all add: get_cursor_def)

lemma gc_alarm:
  assumes "gc_inv (now, d)" "now \<le> now'"
  shows "gc_inv (now', runExposureRedemptionClaimAlarm now' d)"
proof -
  define d0 where "d0 = d\<lparr>alarm := None\<rparr>"
  define ks where "ks = fst (collectExpiredKeys (sweep_page d0) now')"
  define pn where "pn = snd (collectExpiredKeys (sweep_page d0) now')"
  define d1 where "d1 = fold delete_key ks d0"
  define n where "n = minExpiry (case get_cursor d of None \<Rightarrow> None | Some (_, c) \<Rightarrow> c) pn"
  have wf: "wf_do d" using assms(1) by (simp add: gc_inv_def)
  have d0 [simp]: "get_cursor d0 = get_cursor d" "get_floor d0 = get_floor d" "alarm d0 = None" "wf_do d0"
    "getTicket d0 t = getTicket d t" "sealed_ticket d0 t = sealed_ticket d t" for t
    using wf by (simp_all add: d0_def get_cursor_def get_floor_def sealed_ticket_def)
  have keys: "SWEEP_CURSOR_KEY \<notin> set ks" "PENDING_EXPIRY_FLOOR_KEY \<notin> set ks"
    unfolding ks_def collectExpiredKeys_mem
    by (auto simp: claimRecordExpiresAt_def EXPOSURE_KEY_PREFIX_def TICKET_KEY_PREFIX_def
        SWEEP_CURSOR_KEY_def PENDING_EXPIRY_FLOOR_KEY_def)
  have d1 [simp]: "get_cursor d1 = get_cursor d" "get_floor d1 = get_floor d" "alarm d1 = None" "wf_do d1"
    using keys d0(1,2) by (simp_all add: d1_def get_cursor_def get_floor_def fold_delete_entries)
  have sub: "sealed_ticket d t \<and> tkey t \<notin> set ks" if "sealed_ticket d1 t" for t
  proof -
    from that obtain r where "map_of (entries d1) (tkey t) = Some (TicketV r)" "tb_delivery r \<noteq> Pending"
      unfolding sealed_ticket_def getTicket_value by blast
    then show ?thesis
      by (auto simp: d1_def fold_delete_entries sealed_ticket_def getTicket_value d0_def split: if_splits)
  qed
  have live: "pn \<noteq> None" if "sealed_ticket d1 t" "(tkey t, TicketV r) \<in> set (sweep_page d0)" for t r
  proof
    assume "pn = None"
    moreover have "claimRecordExpiresAt (tkey t) (TicketV r) = Some (tb_expiresAt r)"
      by (simp add: claimRecordExpiresAt_def tkey_def)
    ultimately have "tkey t \<in> set ks"
      using that(2) unfolding pn_def ks_def collectExpiredKeys_next collectExpiredKeys_mem by fastforce
    with sub[OF that(1)] show False by simp
  qed
  have behind: "(case get_cursor d of None \<Rightarrow> None | Some (_, c) \<Rightarrow> c) \<noteq> None \<or> get_floor d \<noteq> None"
    if "sealed_ticket d1 t" "\<not> (case get_cursor d of None \<Rightarrow> True | Some (a, _) \<Rightarrow> a < tkey t)" for t
    using that assms(1) sub[OF that(1)] by (auto simp: gc_inv_def not_less split: option.splits)
  have remembered: "n \<noteq> None \<or> get_floor d \<noteq> None"
    if "sealed_ticket d1 t" "length (sweep_page d0) < EXPOSURE_REDEMPTION_SWEEP_PAGE_SIZE
      \<or> sweep_page d0 \<noteq> [] \<and> tkey t \<le> fst (last (sweep_page d0))" for t
  proof (cases "case get_cursor d of None \<Rightarrow> True | Some (a, _) \<Rightarrow> a < tkey t")
    case True
    with page_of_ticket[of d0 t] sub[OF that(1)] that(2) obtain r
      where "(tkey t, TicketV r) \<in> set (sweep_page d0)" by auto
    from live[OF that(1) this] show ?thesis by (auto simp: n_def minExpiry_def split: option.splits)
  next
    case False
    from behind[OF that(1) this] show ?thesis by (auto simp: n_def minExpiry_def split: option.splits)
  qed
  show ?thesis
  proof (cases "length (sweep_page d0) \<ge> EXPOSURE_REDEMPTION_SWEEP_PAGE_SIZE")
    case True
    let ?c = "put_value SWEEP_CURSOR_KEY (CursorV (fst (last (sweep_page d0))) n) d1"
    have run: "runExposureRedemptionClaimAlarm now' d = ?c\<lparr>alarm := Some now'\<rparr>"
      using True by (simp add: runExposureRedemptionClaimAlarm_def deleteExpired_def Let_def split_beta
          ks_def pn_def n_def d1_def d0_def setExpiryAlarm_def get_cursor_def)
    have ne: "sweep_page d0 \<noteq> []" using True by (auto simp: EXPOSURE_REDEMPTION_SWEEP_PAGE_SIZE_def)
    have st: "sealed_ticket (?c\<lparr>alarm := Some now'\<rparr>) t = sealed_ticket d1 t" for t
      by (simp add: sealed_ticket_def getTicket_def)
    have fl: "get_floor (?c\<lparr>alarm := Some now'\<rparr>) = get_floor d"
      using d1(2) by (simp add: get_floor_def)
    have cu: "get_cursor (?c\<lparr>alarm := Some now'\<rparr>) = Some (fst (last (sweep_page d0)), n)"
      by (simp add: get_cursor_def)
    show ?thesis
      unfolding run gc_inv_def prod.case fl cu st using remembered ne by auto
  next
    case False
    let ?e = "if get_cursor d \<noteq> None then delete_key SWEEP_CURSOR_KEY d1 else d1"
    let ?f = "if get_floor d = None then ?e else delete_key PENDING_EXPIRY_FLOOR_KEY ?e"
    have fe: "get_floor ?e = get_floor d" using d1(2) by (simp add: get_floor_def)
    have del: "deleteExpired now' d0 = (minExpiry n (get_floor d), ?f)"
      using False fe by (auto simp: deleteExpired_def Let_def split_beta ks_def pn_def n_def d1_def
          takeExpiryWithPendingFloor_def split: option.splits)
    have cu: "get_cursor ?f = None" using d1(1) by (cases "get_cursor d") (simp_all add: delete_system)
    have st: "sealed_ticket ?f t = sealed_ticket d1 t" for t by (simp add: sealed_ticket_def getTicket_def)
    have al: "alarm ?f = None" by simp
    have armed: "minExpiry n (get_floor d) \<noteq> None" if "sealed_ticket d1 t" for t
      using remembered[OF that] False by (auto simp: minExpiry_def split: option.splits)
    show ?thesis
      using armed cu st al del
      by (auto simp: gc_inv_def runExposureRedemptionClaimAlarm_def d0_def[symmetric] setExpiryAlarm_system
          split: option.splits)
  qed
qed

lemma gc_live:
  assumes "gc_inv (now, d)" "now \<le> now'"
  shows "gc_inv (now', snd (liveExposure d e now'))" "gc_inv (now', snd (liveTicket d t now'))"
    "gc_inv (now', delete_key (ekey e) d)" "gc_inv (now', delete_key (tkey t) d)" "gc_inv (now', d)"
    "gc_inv (now', putExposure e r d)" "tb_delivery q = Pending \<Longrightarrow> gc_inv (now', putTicket t q d)"
proof -
  have wf: "wf_do d" using assms(1) by (simp add: gc_inv_def)
  show a: "gc_inv (now', delete_key (ekey e) d)" "gc_inv (now', delete_key (tkey t) d)" "gc_inv (now', d)"
    "gc_inv (now', putExposure e r d)" "tb_delivery q = Pending \<Longrightarrow> gc_inv (now', putTicket t q d)"
    using wf by (auto intro!: gc_shrink[OF assms] split: if_splits)
  then show "gc_inv (now', snd (liveExposure d e now'))" "gc_inv (now', snd (liveTicket d t now'))"
    by (auto simp: liveExposure_def liveTicket_def split: option.splits)
qed

lemma gc_apply:
  assumes "gc_inv (now, d)" "now \<le> op_time op"
  shows "gc_inv (op_time op, apply_op op d)"
proof (cases op)
  case (OpClaim i)
  then have le: "now \<le> ca_now i" using assms(2) by simp
  have 1: "gc_inv (ca_now i, delete_key (ekey (ca_exposureId i)) d)" "gc_inv (ca_now i, d)"
    using gc_live[OF assms(1) le] by blast+
  note 2 = gc_live[OF 1(1) order.refl] gc_live[OF 1(2) order.refl]
  note 3 = gc_live(6)[OF 2(4) order.refl] gc_live(6)[OF 2(11) order.refl]
    gc_live(6)[OF 1(1) order.refl] gc_live(6)[OF 1(2) order.refl]
  show ?thesis using OpClaim 1 2 3
    by (auto simp: claim_branches intro!: gc_live(7)[OF _ order.refl] split: option.splits if_splits)
next
  case (OpRelease i)
  then have le: "now \<le> ca_now i" using assms(2) by simp
  have 1: "gc_inv (ca_now i, delete_key (ekey (ca_exposureId i)) d)" "gc_inv (ca_now i, d)"
    using gc_live[OF assms(1) le] by blast+
  show ?thesis using OpRelease 1 gc_live(4)[OF 1(1) order.refl]
    by (auto simp: mutation_branches split: option.splits if_splits)
next
  case (OpSeal i)
  then have le: "now \<le> ca_now i" using assms(2) by simp
  have 1: "gc_inv (ca_now i, delete_key (ekey (ca_exposureId i)) d)" "gc_inv (ca_now i, d)"
    using gc_live[OF assms(1) le] by blast+
  have arm: "gc_inv (ca_now i, setExpiryAlarm (ca_now i + EXPOSURE_REDEMPTION_CLAIM_TTL_MS)
      (putTicket t r (putExposure e r' d)))" for t r e r'
    by (rule gc_arm[OF 1(2) order.refl]) (simp add: EXPOSURE_REDEMPTION_CLAIM_TTL_MS_def)
  show ?thesis using OpSeal 1 arm gc_live(4)[OF 1(2) order.refl]
    by (auto simp: mutation_branches split: option.splits if_splits)
next
  case (OpAck i)
  then have le: "now \<le> ca_now i" using assms(2) by simp
  have 1: "gc_inv (ca_now i, delete_key (ekey (ca_exposureId i)) d)" "gc_inv (ca_now i, d)"
    using gc_live[OF assms(1) le] by blast+
  show ?thesis using OpAck 1 gc_live(4)[OF 1(2) order.refl]
    by (auto simp: mutation_branches not_le intro!: gc_arm[OF 1(2) order.refl] split: option.splits if_splits)
next
  case (OpAlarm now')
  with assms show ?thesis by (simp add: gc_alarm)
qed

inductive clocked_step :: "ms \<times> claim_do \<Rightarrow> ms \<times> claim_do \<Rightarrow> bool" where
  tick: "now \<le> op_time op \<Longrightarrow> clocked_step (now, d) (op_time op, apply_op op d)"

interpretation sweeps: machine clocked_step gc_inv
  by unfold_locales (auto elim!: clocked_step.cases intro: gc_apply)

section \<open>Properties\<close>

definition empty_do :: claim_do where "empty_do = \<lparr>entries = [], alarm = None\<rparr>"

definition sample_args :: "string \<Rightarrow> ms \<Rightarrow> claim_args" where
  "sample_args e now = \<lparr>ca_exposureId = e, ca_ticket = ''t1'', ca_now = now\<rparr>"

lemma empty_do_views [simp]:
  "wf_do empty_do" "getExposure empty_do e = None" "getTicket empty_do t = None"
  "get_cursor empty_do = None" "get_floor empty_do = None" "alarm empty_do = None"
  by (simp_all add: empty_do_def wf_do_def getExposure_def getTicket_def get_cursor_def get_floor_def)



text \<open>
  A claim answers for what was appended. In every storage reached from the empty one,
  a claim is answered as deduplicated or to be acknowledged only for a ticket some seal
  was confirmed for: a never-appended ticket is never reported as redeemed.
\<close>

theorem deduplicated_was_sealed:
  assumes "reaches claim_step (empty_do, {}) (d, S)"
    and "fst (applyExposureRedemptionClaim i d) \<in> {Deduplicated, ResumeAck}"
  shows "ca_ticket i \<in> S"
proof -
  have "sealed_inv (empty_do, {})" by (simp add: sealed_inv_def)
  with assms(1) have inv: "sealed_inv (d, S)" by (rule claims.inv_reaches)
  have e: "eb_ticketFingerprint x \<in> S" if "getExposure d e = Some x" "eb_delivery x \<noteq> Pending" for e x
    using inv that by (auto simp: sealed_inv_def)
  have t: "u \<in> S" if "getTicket d u = Some y" "tb_delivery y \<noteq> Pending" for u y
    using inv that by (auto simp: sealed_inv_def)
  show ?thesis
    using assms(2) e[of "ca_exposureId i"] t[of "ca_ticket i"]
    by (auto simp: claim_branches split: option.splits if_splits)
qed

lemma deduplicated_was_sealed_witness:
  "''t1'' \<in> ({''t1''} :: string set)"
proof -
  let ?a = "sample_args ''e1'' 1"
  let ?d = "snd (applyExposureRedemptionMarkSealed ?a (snd (applyExposureRedemptionClaim ?a empty_do)))"
  have "reaches claim_step (empty_do, {}) (?d, {''t1''})"
    using claim_step.step[of empty_do "{}" "OpClaim ?a"]
      claim_step.step[of "snd (applyExposureRedemptionClaim ?a empty_do)" "{}" "OpSeal ?a"]
    by (auto simp: claim_branches mutation_branches sample_args_def EXPOSURE_REDEMPTION_PENDING_LEASE_MS_def
        intro: reaches.there[OF reaches.there[OF reaches.here]])
  moreover have "fst (applyExposureRedemptionClaim ?a ?d) \<in> {Deduplicated, ResumeAck}"
    by (simp add: claim_branches mutation_branches sample_args_def EXPOSURE_REDEMPTION_PENDING_LEASE_MS_def
        EXPOSURE_REDEMPTION_CLAIM_TTL_MS_def)
  ultimately show ?thesis using deduplicated_was_sealed[of ?d "{''t1''}" ?a] by (simp add: sample_args_def)
qed

text \<open>
  nothing is lost to a crash. A claim is acquired exactly when neither its exposure id
  nor its ticket has an unexpired binding: an abandoned claim stops blocking when its lease
  ends, and an acquired claim holds for the lease of 30 seconds.
\<close>

theorem claim_acquired_iff:
  "fst (applyExposureRedemptionClaim i d) = Acquired \<longleftrightarrow>
     (\<forall>x. getExposure d (ca_exposureId i) = Some x \<longrightarrow> eb_expiresAt x \<le> ca_now i)
   \<and> (\<forall>y. getTicket d (ca_ticket i) = Some y \<longrightarrow> tb_expiresAt y \<le> ca_now i)"
  by (auto simp: claim_branches split: option.splits if_splits)

lemma claim_acquired_iff_witness:
  "fst (applyExposureRedemptionClaim (sample_args ''e1'' 1) empty_do) = Acquired"
  using claim_acquired_iff[of "sample_args ''e1'' 1" empty_do] by simp

text \<open>
  C28: the sweep never orphans a sealed claim. From the empty storage, under a clock that
  does not run backwards, whenever a sealed or accepted ticket is stored the alarm is
  armed, also in the middle of a drain over several pages.
\<close>

theorem sealed_claims_stay_armed:
  assumes "reaches clocked_step (start, empty_do) (now, d)"
    and "getTicket d t = Some r" "tb_delivery r \<noteq> Pending"
  shows "alarm d \<noteq> None"
proof -
  have "gc_inv (start, empty_do)" by (simp add: gc_inv_def sealed_ticket_def)
  with assms(1) have "gc_inv (now, d)" by (rule sweeps.inv_reaches)
  with assms(2,3) show ?thesis by (auto simp: gc_inv_def sealed_ticket_def)
qed

lemma sealed_claims_stay_armed_witness:
  "alarm (apply_op (OpSeal (sample_args ''e1'' 1)) (apply_op (OpClaim (sample_args ''e1'' 1)) empty_do)) \<noteq> None"
proof -
  let ?a = "sample_args ''e1'' 1"
  have 1: "clocked_step (0, empty_do) (1, apply_op (OpClaim ?a) empty_do)"
    using clocked_step.tick[of 0 "OpClaim ?a" empty_do] by (simp add: sample_args_def)
  have 2: "clocked_step (1, apply_op (OpClaim ?a) empty_do)
      (1, apply_op (OpSeal ?a) (apply_op (OpClaim ?a) empty_do))"
    using clocked_step.tick[of 1 "OpSeal ?a"] by (simp add: sample_args_def)
  have "reaches clocked_step (0, empty_do) (1, apply_op (OpSeal ?a) (apply_op (OpClaim ?a) empty_do))"
    by (rule reaches.there, rule reaches.there, rule reaches.here, rule 1, rule 2)
  then show ?thesis
    by (rule sealed_claims_stay_armed[where t = "''t1''" and r = "\<lparr>tb_ownerExposureId = ''e1'',
        tb_delivery = Sealed, tb_expiresAt = 1 + EXPOSURE_REDEMPTION_CLAIM_TTL_MS\<rparr>"])
      (simp_all add: claim_branches mutation_branches sample_args_def EXPOSURE_REDEMPTION_PENDING_LEASE_MS_def)
qed

end
