(* ===== verification/ExposureSweep.thy ===== *)
theory ExposureSweep
  imports ExposureClaim
begin

text \<open>
  The expiry sweep of the redemption claims (\<open>deleteExpired\<close> and the alarm of
  \<open>apps/evaluation-api/src/exposure-redemption-do-handler.ts\<close>) terminates. Each alarm reads
  one page behind the cursor and re-arms itself for the next; the number of keys behind the
  cursor bounds the number of alarms.
\<close>

definition expired :: "ms \<Rightarrow> string \<Rightarrow> claim_value \<Rightarrow> bool" where
  "expired now k v \<longleftrightarrow> (\<exists>x. claimRecordExpiresAt k v = Some x \<and> x \<le> now)"

definition system_keys :: "string set" where
  "system_keys = {SWEEP_CURSOR_KEY, PENDING_EXPIRY_FLOOR_KEY}"

definition after_cursor :: "claim_do \<Rightarrow> string \<Rightarrow> bool" where
  "after_cursor d k = (case get_cursor d of None \<Rightarrow> True | Some (a, _) \<Rightarrow> a < k)"

text \<open>What a sweep still has to read, the cursor's own key included.\<close>

definition unread :: "claim_do \<Rightarrow> string set" where
  "unread d = {k \<in> insert SWEEP_CURSOR_KEY (fst ` set (entries d)). after_cursor d k}"

lemma finite_unread [simp]: "finite (unread d)"
  by (simp add: unread_def)

lemma card_unread: "card (unread d) \<le> length (entries d) + 1"
proof -
  have "card (unread d) \<le> card (insert SWEEP_CURSOR_KEY (fst ` set (entries d)))"
    by (intro card_mono) (auto simp: unread_def)
  also have "\<dots> \<le> card (fst ` set (entries d)) + 1" by (simp add: card_insert_if)
  also have "card (fst ` set (entries d)) \<le> length (entries d)"
    using card_image_le card_length le_trans by (metis List.finite_set)
  finally show ?thesis by simp
qed

lemma sweep_page_alarm [simp]: "sweep_page (d\<lparr>alarm := x\<rparr>) = sweep_page d" "get_cursor (d\<lparr>alarm := x\<rparr>) = get_cursor d"
  "after_cursor (d\<lparr>alarm := x\<rparr>) = after_cursor d"
  by (simp_all add: sweep_page_def get_cursor_def after_cursor_def fun_eq_iff)

lemma page_keys:
  assumes "wf_do d"
  shows "distinct (map fst (sweep_page d))" "fst ` set (sweep_page d) \<subseteq> unread d"
proof -
  have "distinct (map fst (sort_key fst (filter (\<lambda>(k, v). case get_cursor d of None \<Rightarrow> True | Some (a, _) \<Rightarrow> a < k) (entries d))))"
    using assms unfolding wf_do_def
    by (metis (no_types, lifting) distinct_map_filter mset_map mset_sort mset_eq_imp_distinct_iff)
  then show "distinct (map fst (sweep_page d))" unfolding sweep_page_def take_map[symmetric] by (rule distinct_take)
  show "fst ` set (sweep_page d) \<subseteq> unread d"
    by (auto simp: sweep_page_def unread_def after_cursor_def dest!: in_set_takeD split: option.splits)
qed

lemma sorted_last: "sorted (map f xs) \<Longrightarrow> x \<in> set xs \<Longrightarrow> f x \<le> f (last xs)"
  by (induction xs) auto

lemma page_mem:
  assumes "wf_do d" "map_of (entries d) k = Some v"
  shows "(k, v) \<in> set (sweep_page d) \<longleftrightarrow> after_cursor d k \<and>
    (length (sweep_page d) < EXPOSURE_REDEMPTION_SWEEP_PAGE_SIZE \<or> sweep_page d \<noteq> [] \<and> k \<le> fst (last (sweep_page d)))"
proof -
  let ?f = "\<lambda>(k, v). case get_cursor d of None \<Rightarrow> True | Some (a, _) \<Rightarrow> a < k"
  let ?s = "sort_key fst (filter ?f (entries d))"
  have page: "sweep_page d = take EXPOSURE_REDEMPTION_SWEEP_PAGE_SIZE ?s" by (simp add: sweep_page_def)
  have mem: "(k, v) \<in> set ?s \<longleftrightarrow> after_cursor d k"
    using assms(2) map_of_SomeD[OF assms(2)] by (simp add: after_cursor_def)
  show ?thesis
  proof (cases "length (sweep_page d) < EXPOSURE_REDEMPTION_SWEEP_PAGE_SIZE")
    case True
    then have "sweep_page d = ?s" unfolding page by simp
    with mem True show ?thesis by simp
  next
    case False
    then have ne: "sweep_page d \<noteq> []" by (auto simp: EXPOSURE_REDEMPTION_SWEEP_PAGE_SIZE_def)
    have "k \<le> fst (last (sweep_page d))" if "(k, v) \<in> set (sweep_page d)"
    proof -
      have "sorted (map fst (sweep_page d))" by (simp add: page take_map[symmetric] sorted_wrt_take)
      from sorted_last[OF this that] show ?thesis by simp
    qed
    moreover have "(k, v) \<in> set (sweep_page d)" if "after_cursor d k" "k \<le> fst (last (sweep_page d))"
    proof (cases "k = fst (last (sweep_page d))")
      case True
      have "last (sweep_page d) \<in> set (entries d)" using ne page_subset by (meson last_in_set subsetD)
      then have "last (sweep_page d) = (k, v)"
        using True assms map_of_SomeD[OF assms(2)] unfolding wf_do_def by (metis eq_key_imp_eq_value prod.collapse)
      with ne show ?thesis by (metis last_in_set)
    next
      case False
      then show ?thesis
        using take_sorted_covers[of "(k, v)" "filter ?f (entries d)"] mem that ne unfolding page by simp
    qed
    moreover have "(k, v) \<in> set ?s" if "(k, v) \<in> set (sweep_page d)" using that unfolding page by (rule in_set_takeD)
    ultimately show ?thesis using mem ne False by blast
  qed
qed

lemma deleted_keys:
  assumes "wf_do d" "map_of (entries d) k = Some v"
  shows "k \<in> set (fst (collectExpiredKeys (sweep_page d) now)) \<longleftrightarrow> expired now k v \<and> (k, v) \<in> set (sweep_page d)"
proof -
  have "v' = v" if "(k, v') \<in> set (sweep_page d)" for v'
    using that page_subset[of d] assms map_of_SomeD[OF assms(2)] unfolding wf_do_def by (meson eq_key_imp_eq_value subsetD)
  then show ?thesis by (auto simp: collectExpiredKeys_mem expired_def)
qed

text \<open>One alarm: a full page moves the cursor and fires again, a short one ends the sweep.\<close>

lemma alarm_swept:
  assumes "wf_do d" "k \<notin> system_keys"
  shows "map_of (entries (runExposureRedemptionClaimAlarm now d)) k =
    (case map_of (entries d) k of None \<Rightarrow> None
     | Some v \<Rightarrow> if expired now k v \<and> (k, v) \<in> set (sweep_page d) then None else Some v)"
proof -
  have "map_of (entries (runExposureRedemptionClaimAlarm now d)) k =
      map_of (entries (fold delete_key (fst (collectExpiredKeys (sweep_page d) now)) (d\<lparr>alarm := None\<rparr>))) k"
    using assms(2) by (auto simp: runExposureRedemptionClaimAlarm_def deleteExpired_def Let_def takeExpiryWithPendingFloor_def
        system_keys_def setExpiryAlarm_def rememberPendingExpiryFloor_def split: prod.splits option.splits)
  then show ?thesis
    using deleted_keys[OF assms(1)] by (auto simp: fold_delete_entries split: option.splits)
qed

lemma full_page:
  assumes "wf_do d" "EXPOSURE_REDEMPTION_SWEEP_PAGE_SIZE \<le> length (sweep_page d)"
  shows "alarm (runExposureRedemptionClaimAlarm now d) = Some now"
    and "after_cursor (runExposureRedemptionClaimAlarm now d) k \<longleftrightarrow> fst (last (sweep_page d)) < k"
    and "fst ` set (entries (runExposureRedemptionClaimAlarm now d)) \<subseteq> insert SWEEP_CURSOR_KEY (fst ` set (entries d))"
proof -
  let ?run = "runExposureRedemptionClaimAlarm now d"
  obtain n where run: "?run = (put_value SWEEP_CURSOR_KEY (CursorV (fst (last (sweep_page d))) n)
      (fold delete_key (fst (collectExpiredKeys (sweep_page d) now)) (d\<lparr>alarm := None\<rparr>)))\<lparr>alarm := Some now\<rparr>"
    using assms(2) by (auto simp: runExposureRedemptionClaimAlarm_def deleteExpired_def Let_def split_beta setExpiryAlarm_def)
  show "alarm ?run = Some now" unfolding run by simp
  show "after_cursor ?run k \<longleftrightarrow> fst (last (sweep_page d)) < k"
    unfolding run by (simp add: after_cursor_def get_cursor_def)
  show "fst ` set (entries ?run) \<subseteq> insert SWEEP_CURSOR_KEY (fst ` set (entries d))"
  proof
    fix k assume "k \<in> fst ` set (entries ?run)"
    then have "map_of (entries ?run) k \<noteq> None" by (simp add: map_of_eq_None)
    then show "k \<in> insert SWEEP_CURSOR_KEY (fst ` set (entries d))"
      unfolding run by (auto simp: fold_delete_entries split: if_splits dest!: map_of_SomeD intro: rev_image_eqI)
  qed
qed

lemma short_page:
  assumes "length (sweep_page d) < EXPOSURE_REDEMPTION_SWEEP_PAGE_SIZE"
  shows "get_cursor (runExposureRedemptionClaimAlarm now d) = None"
proof -
  have kept: "get_cursor (fold delete_key ks e) = None" if "get_cursor e = None" for ks e
    using that by (auto simp: get_cursor_def fold_delete_entries)
  have "get_cursor (snd (deleteExpired now (d\<lparr>alarm := None\<rparr>))) = None"
    using assms by (auto simp: deleteExpired_def Let_def takeExpiryWithPendingFloor_def delete_system
        intro!: kept split: prod.splits option.splits)
  then show ?thesis
    by (auto simp: runExposureRedemptionClaimAlarm_def setExpiryAlarm_system split: prod.splits option.splits)
qed

lemma after_cursor_mono: "after_cursor d j \<Longrightarrow> j \<le> k \<Longrightarrow> after_cursor d k"
  by (auto simp: after_cursor_def split: option.splits)

lemma page_after: "wf_do d \<Longrightarrow> sweep_page d \<noteq> [] \<Longrightarrow> after_cursor d (fst (last (sweep_page d)))"
proof -
  assume "wf_do d" "sweep_page d \<noteq> []"
  then have "fst (last (sweep_page d)) \<in> unread d" using page_keys(2)[of d] by (meson image_eqI last_in_set subsetD)
  then show ?thesis by (simp add: unread_def)
qed

text \<open>A full page leaves a page less to read.\<close>

lemma full_page_reads:
  assumes "wf_do d" "EXPOSURE_REDEMPTION_SWEEP_PAGE_SIZE \<le> length (sweep_page d)"
  shows "card (unread (runExposureRedemptionClaimAlarm now d)) + EXPOSURE_REDEMPTION_SWEEP_PAGE_SIZE \<le> card (unread d)"
proof -
  let ?run = "runExposureRedemptionClaimAlarm now d" and ?page = "fst ` set (sweep_page d)"
  have ne: "sweep_page d \<noteq> []" using assms(2) by (auto simp: EXPOSURE_REDEMPTION_SWEEP_PAGE_SIZE_def)
  have le: "k \<le> fst (last (sweep_page d))" if "k \<in> ?page" for k
  proof -
    have "sorted (map fst (sweep_page d))" by (simp add: sweep_page_def take_map[symmetric] sorted_wrt_take)
    with that show ?thesis by (auto dest: sorted_last)
  qed
  have "unread ?run \<subseteq> unread d"
  proof
    fix k assume "k \<in> unread ?run"
    then have "k \<in> insert SWEEP_CURSOR_KEY (fst ` set (entries d))" "fst (last (sweep_page d)) < k"
      using full_page(2,3)[OF assms, of now] by (auto simp: unread_def)
    with after_cursor_mono[OF page_after[OF assms(1) ne], of k] show "k \<in> unread d" by (simp add: unread_def)
  qed
  then have "unread ?run \<union> ?page \<subseteq> unread d" using page_keys(2)[OF assms(1)] by simp
  moreover have "unread ?run \<inter> ?page = {}"
    using le full_page(2)[OF assms, of now] by (force simp: unread_def)
  ultimately have "card (unread ?run) + card ?page \<le> card (unread d)"
    using card_mono[of "unread d" "unread ?run \<union> ?page"] card_Un_disjoint[of "unread ?run" ?page] by simp
  moreover have "card ?page = length (sweep_page d)"
    using distinct_card[OF page_keys(1)[OF assms(1)]] by simp
  ultimately show ?thesis using assms(2) by linarith
qed

text \<open>
  The whole sweep from any position: how many alarms it takes, that each but the last
  continues it at once, and what is left.
\<close>

definition after_sweep :: "ms \<Rightarrow> claim_do \<Rightarrow> string \<Rightarrow> claim_value option" where
  "after_sweep now d k = (case map_of (entries d) k of None \<Rightarrow> None
     | Some v \<Rightarrow> if expired now k v \<and> after_cursor d k then None else Some v)"

lemma sweep_drains:
  assumes "wf_do d"
  shows "\<exists>n. n \<le> card (unread d) div EXPOSURE_REDEMPTION_SWEEP_PAGE_SIZE + 1
    \<and> (\<forall>m<n. 0 < m \<longrightarrow> alarm ((runExposureRedemptionClaimAlarm now ^^ m) d) = Some now)
    \<and> get_cursor ((runExposureRedemptionClaimAlarm now ^^ n) d) = None
    \<and> (\<forall>k. k \<notin> system_keys \<longrightarrow> map_of (entries ((runExposureRedemptionClaimAlarm now ^^ n) d)) k = after_sweep now d k)"
  using assms
proof (induction "card (unread d)" arbitrary: d rule: less_induct)
  case less
  let ?run = "runExposureRedemptionClaimAlarm now" and ?size = EXPOSURE_REDEMPTION_SWEEP_PAGE_SIZE
  show ?case
  proof (cases "length (sweep_page d) < ?size")
    case True
    have "map_of (entries (?run d)) k = after_sweep now d k" if "k \<notin> system_keys" for k
      using page_mem[OF less.prems] True unfolding alarm_swept[OF less.prems that] after_sweep_def
      by (auto split: option.splits)
    with short_page[OF True] show ?thesis by (intro exI[of _ 1]) auto
  next
    case False
    then have full: "?size \<le> length (sweep_page d)" by simp
    then have ne: "sweep_page d \<noteq> []" and pos: "0 < ?size" by (auto simp: EXPOSURE_REDEMPTION_SWEEP_PAGE_SIZE_def)
    have wf: "wf_do (?run d)" using wf_apply[OF less.prems, of "OpAlarm now"] by simp
    note reads = full_page_reads[OF less.prems full, of now]
    with pos have "card (unread (?run d)) < card (unread d)" by linarith
    from less.hyps[OF this wf] obtain n where n: "n \<le> card (unread (?run d)) div ?size + 1"
      "\<forall>m<n. 0 < m \<longrightarrow> alarm ((?run ^^ m) (?run d)) = Some now" "get_cursor ((?run ^^ n) (?run d)) = None"
      "\<forall>k. k \<notin> system_keys \<longrightarrow> map_of (entries ((?run ^^ n) (?run d))) k = after_sweep now (?run d) k" by blast
    have iter: "(?run ^^ Suc m) d = (?run ^^ m) (?run d)" for m by (simp add: funpow_swap1)
    have "after_sweep now (?run d) k = after_sweep now d k" if "k \<notin> system_keys" for k
    proof (cases "map_of (entries d) k")
      case None
      then show ?thesis by (simp add: after_sweep_def alarm_swept[OF less.prems that])
    next
      case (Some v)
      have "(k, v) \<in> set (sweep_page d) \<or> fst (last (sweep_page d)) < k \<longleftrightarrow> after_cursor d k"
        using page_mem[OF less.prems Some] ne full
        by (auto simp: not_le intro: after_cursor_mono[OF page_after[OF less.prems ne] less_imp_le])
      then show ?thesis
        using Some by (auto simp: after_sweep_def alarm_swept[OF less.prems that] full_page(2)[OF less.prems full])
    qed
    moreover have "alarm ((?run ^^ m) d) = Some now" if "m < Suc n" "0 < m" for m
      using that n(2) full_page(1)[OF less.prems full] by (cases m) (auto simp: iter simp del: funpow.simps gr0_conv_Suc)
    moreover have "Suc n \<le> card (unread d) div ?size + 1"
    proof -
      have "(card (unread (?run d)) + ?size) div ?size \<le> card (unread d) div ?size" using reads by (rule div_le_mono)
      with n(1) pos show ?thesis by simp
    qed
    ultimately show ?thesis
      using n(3,4) unfolding iter[symmetric] by (intro exI[of _ "Suc n"] conjI allI impI) simp_all
  qed
qed

lemma expired_binding [simp]:
  "expired now (ekey e) (ExposureV x) \<longleftrightarrow> eb_expiresAt x \<le> now" "expired now (tkey t) (TicketV y) \<longleftrightarrow> tb_expiresAt y \<le> now"
  by (simp_all add: expired_def claimRecordExpiresAt_def ekey_def tkey_def)

text \<open>
  C40: the sweep terminates. An alarm that finds no drain under way starts one that, with no
  other operation in between, ends within one alarm per 128 stored keys and one more; until
  then every alarm is set to fire at once. When it ends no expired binding is left and no
  other binding has changed, and the cursor is gone, so that the next sweep starts anew.
\<close>

theorem sweep_terminates:
  assumes "wf_do d" "get_cursor d = None"
  shows "\<exists>n d'. n \<le> (length (entries d) + 1) div 128 + 1 \<and> d' = (runExposureRedemptionClaimAlarm now ^^ n) d
    \<and> get_cursor d' = None
    \<and> (\<forall>m<n. 0 < m \<longrightarrow> alarm ((runExposureRedemptionClaimAlarm now ^^ m) d) = Some now)
    \<and> (\<forall>e. getExposure d' e = (case getExposure d e of Some r \<Rightarrow> if eb_expiresAt r \<le> now then None else Some r | None \<Rightarrow> None))
    \<and> (\<forall>t. getTicket d' t = (case getTicket d t of Some r \<Rightarrow> if tb_expiresAt r \<le> now then None else Some r | None \<Rightarrow> None))"
proof -
  have size: "EXPOSURE_REDEMPTION_SWEEP_PAGE_SIZE = 128" by (simp add: EXPOSURE_REDEMPTION_SWEEP_PAGE_SIZE_def)
  obtain n where n: "n \<le> card (unread d) div 128 + 1"
      "\<forall>m<n. 0 < m \<longrightarrow> alarm ((runExposureRedemptionClaimAlarm now ^^ m) d) = Some now"
      "get_cursor ((runExposureRedemptionClaimAlarm now ^^ n) d) = None"
    and left: "\<And>k. k \<notin> system_keys
      \<Longrightarrow> map_of (entries ((runExposureRedemptionClaimAlarm now ^^ n) d)) k = after_sweep now d k"
    using sweep_drains[OF assms(1), of now] unfolding size by blast
  have keys: "ekey e \<notin> system_keys" "tkey t \<notin> system_keys" for e t
    by (auto simp: system_keys_def ekey_def tkey_def EXPOSURE_KEY_PREFIX_def TICKET_KEY_PREFIX_def
        SWEEP_CURSOR_KEY_def PENDING_EXPIRY_FLOOR_KEY_def)
  have "n \<le> (length (entries d) + 1) div 128 + 1"
    using n(1) div_le_mono[OF card_unread[of d], of 128] by linarith
  moreover have "getExposure ((runExposureRedemptionClaimAlarm now ^^ n) d) e =
      (case getExposure d e of Some r \<Rightarrow> if eb_expiresAt r \<le> now then None else Some r | None \<Rightarrow> None)" for e
    by (auto simp: getExposure_def left[OF keys(1)] after_sweep_def after_cursor_def assms(2) split: option.splits claim_value.splits)
  moreover have "getTicket ((runExposureRedemptionClaimAlarm now ^^ n) d) t =
      (case getTicket d t of Some r \<Rightarrow> if tb_expiresAt r \<le> now then None else Some r | None \<Rightarrow> None)" for t
    by (auto simp: getTicket_def left[OF keys(2)] after_sweep_def after_cursor_def assms(2) split: option.splits claim_value.splits)
  ultimately show ?thesis using n(2,3)
    by (intro exI[of _ n] exI[of _ "(runExposureRedemptionClaimAlarm now ^^ n) d"] conjI) blast+
qed

theorem sweep_terminates_witness:
  "\<exists>n\<le>1. getTicket ((runExposureRedemptionClaimAlarm 40000 ^^ n)
     (snd (applyExposureRedemptionClaim (sample_args ''e1'' 1) empty_do))) ''t1'' = None"
proof -
  let ?d = "snd (applyExposureRedemptionClaim (sample_args ''e1'' 1) empty_do)"
  have wf: "wf_do ?d" using wf_apply[of empty_do "OpClaim (sample_args ''e1'' 1)"] by simp
  have views: "get_cursor ?d = None" "length (entries ?d) = 2"
      "getTicket ?d ''t1'' = Some \<lparr>tb_ownerExposureId = ''e1'', tb_delivery = Pending, tb_expiresAt = 30001\<rparr>"
    by (simp_all add: claim_branches sample_args_def EXPOSURE_REDEMPTION_PENDING_LEASE_MS_def putExposure_def putTicket_def
        put_value_def empty_do_def ekey_def tkey_def EXPOSURE_KEY_PREFIX_def TICKET_KEY_PREFIX_def get_cursor_def
        SWEEP_CURSOR_KEY_def getExposure_def getTicket_def)
  from sweep_terminates[OF wf views(1), of 40000] obtain n d' where "n \<le> (2 + 1) div 128 + 1"
      "d' = (runExposureRedemptionClaimAlarm 40000 ^^ n) ?d"
      "getTicket d' ''t1'' = (case getTicket ?d ''t1'' of Some r \<Rightarrow> if tb_expiresAt r \<le> 40000 then None else Some r | None \<Rightarrow> None)"
    unfolding views(2) by blast
  then show ?thesis unfolding views(3) by (intro exI[of _ n]) simp
qed

end
