(* ===== verification/SeenSet.thy ===== *)
theory SeenSet
  imports Json
begin

text \<open>
  The client's memory of resolved Variants, \<open>packages/sdk/src/seen-set.ts\<close>: per Exposure
  identity a slot with its Run, its time and the resolutions by attribute fingerprint,
  both levels bounded with the least recently used entry evicted. A fingerprint, a JSON
  text in the code, is the value it denotes: \<open>JSON.stringify\<close> writes two values as one
  text exactly when they agree after the normalisation of \<open>json_form\<close>.
\<close>

section \<open>Fingerprints\<close>

text \<open>
  The recursive sort of the keys. Assigning the key \<open>__proto__\<close> sets the prototype of the
  fresh object and creates no property, so it is left out.
\<close>

fun stableJsonValue :: "jsval \<Rightarrow> jsval" where
  "stableJsonValue (JArr vs) = JArr (map stableJsonValue vs)"
| "stableJsonValue (JObj ps) = JObj (sort_key fst
     (map (\<lambda>p. (fst p, stableJsonValue (snd p))) (filter (\<lambda>p. fst p \<noteq> ''__proto__'') ps)))"
| "stableJsonValue v = v"

text \<open>What \<open>JSON.stringify\<close> keeps of a value; \<open>Undefined\<close> and functions have no text.\<close>

fun has_text :: "jsval \<Rightarrow> bool" where
  "has_text Undefined = False"
| "has_text (JInherited _) = False"
| "has_text _ = True"

fun json_form :: "jsval \<Rightarrow> jsval" where
  "json_form (JArr vs) = JArr (map json_form vs)"
| "json_form (JObj ps) = JObj (map (\<lambda>p. (fst p, json_form (snd p))) (filter (\<lambda>p. has_text (snd p)) ps))"
| "json_form (JNum n) = (case n of Fin _ \<Rightarrow> JNum n | NegZero \<Rightarrow> JNum (Fin 0) | _ \<Rightarrow> Null)"
| "json_form Undefined = Null"
| "json_form (JInherited _) = Null"
| "json_form v = v"

definition fingerprintAttributes :: "(string \<times> jsval) list \<Rightarrow> jsval" where
  "fingerprintAttributes attrs = json_form (stableJsonValue (JObj attrs))"

text \<open>Values that differ only in the order of the properties of their objects.\<close>

inductive same_json :: "jsval \<Rightarrow> jsval \<Rightarrow> bool" where
  same: "same_json v v"
| arrays: "list_all2 same_json vs ws \<Longrightarrow> same_json (JArr vs) (JArr ws)"
| objects: "list_all2 (\<lambda>p q. fst p = fst q \<and> same_json (snd p) (snd q)) ps qs \<Longrightarrow> mset qs = mset rs
    \<Longrightarrow> same_json (JObj ps) (JObj rs)"

text \<open>Objects with distinct keys; and the values that a JSON text writes faithfully.\<close>

fun distinct_keys :: "jsval \<Rightarrow> bool" where
  "distinct_keys (JArr vs) = list_all distinct_keys vs"
| "distinct_keys (JObj ps) = (distinct (map fst ps) \<and> list_all (\<lambda>p. distinct_keys (snd p)) ps)"
| "distinct_keys v = True"

fun plain_json :: "jsval \<Rightarrow> bool" where
  "plain_json (JArr vs) = list_all plain_json vs"
| "plain_json (JObj ps) = (distinct (map fst ps) \<and>
     list_all (\<lambda>p. fst p \<noteq> ''__proto__'' \<and> plain_json (snd p)) ps)"
| "plain_json (JNum n) = (case n of Fin _ \<Rightarrow> True | _ \<Rightarrow> False)"
| "plain_json v = has_text v"

section \<open>The seen-set\<close>

record seen_resolution =
  sr_variant :: jsval
  sr_variantName :: "string option"

record stored_entry =
  se_runId :: string
  se_storedAt :: ms
  se_values :: "(jsval, seen_resolution) jsmap"

record seen_set =
  ss_maxSize :: int
  ss_ttlMs :: ms
  ss_maxValues :: int
  ss_entries :: "(string, stored_entry) jsmap"

datatype seen_lookup =
    Hit string ms seen_resolution
  | ContextMiss string
  | Miss

datatype seen_error = SDK_SEEN_SET_MAX_SIZE_INVALID | SDK_SEEN_SET_TTL_INVALID

definition DEFAULT_SEEN_SET_MAX_SIZE :: int where "DEFAULT_SEEN_SET_MAX_SIZE = 10000"
definition DEFAULT_VALUES_PER_ENTRY :: int where "DEFAULT_VALUES_PER_ENTRY = 64"
definition DEFAULT_REVALIDATE_MS :: ms where "DEFAULT_REVALIDATE_MS = 60000"

definition entryId :: "string \<Rightarrow> string \<Rightarrow> string \<Rightarrow> string" where
  "entryId flagKey idType targetingKey = flagKey @ CHR 0x00 # idType @ CHR 0x00 # targetingKey"

definition newSeenSet :: "int option \<Rightarrow> ms option \<Rightarrow> int option \<Rightarrow> seen_error + seen_set" where
  "newSeenSet maxSize ttlMs maxValuesPerEntry =
     (let size = nullish maxSize DEFAULT_SEEN_SET_MAX_SIZE;
          ttl = nullish ttlMs DEFAULT_REVALIDATE_MS;
          vals = nullish maxValuesPerEntry DEFAULT_VALUES_PER_ENTRY
      in if size < 1 then Inl SDK_SEEN_SET_MAX_SIZE_INVALID
         else if ttl < 0 then Inl SDK_SEEN_SET_TTL_INVALID
         else if vals < 1 then Inl SDK_SEEN_SET_MAX_SIZE_INVALID
         else Inr \<lparr>ss_maxSize = size, ss_ttlMs = ttl, ss_maxValues = vals, ss_entries = []\<rparr>)"

definition seen_get :: "string \<Rightarrow> string \<Rightarrow> string \<Rightarrow> (string \<times> jsval) list \<Rightarrow> ms \<Rightarrow> seen_set
    \<Rightarrow> seen_lookup \<times> seen_set" where
  "seen_get flagKey idType targetingKey attributes now s =
     (let eid = entryId flagKey idType targetingKey in
      case map_of (ss_entries s) eid of
        None \<Rightarrow> (Miss, s)
      | Some entry \<Rightarrow>
          if ss_ttlMs s \<le> now - se_storedAt entry
          then (Miss, s\<lparr>ss_entries := AList.delete eid (ss_entries s)\<rparr>)
          else let fp = fingerprintAttributes attributes in
            case map_of (se_values entry) fp of
              None \<Rightarrow> (ContextMiss (se_runId entry), s)
            | Some res \<Rightarrow>
                (Hit (se_runId entry) (se_storedAt entry) res,
                 s\<lparr>ss_entries := move_to_end eid
                    (entry\<lparr>se_values := move_to_end fp res (se_values entry)\<rparr>) (ss_entries s)\<rparr>))"

fun evict_over :: "int \<Rightarrow> 'a list \<Rightarrow> 'a list" where
  "evict_over cap [] = []"
| "evict_over cap (x # xs) = (if cap < int (length (x # xs)) then evict_over cap xs else x # xs)"

definition putValue :: "int \<Rightarrow> jsval \<Rightarrow> seen_resolution \<Rightarrow> (jsval, seen_resolution) jsmap
    \<Rightarrow> (jsval, seen_resolution) jsmap" where
  "putValue cap fp res values = evict_over cap (move_to_end fp res values)"

definition seen_put :: "string \<Rightarrow> string \<Rightarrow> string \<Rightarrow> string \<Rightarrow> (string \<times> jsval) list \<Rightarrow> seen_resolution
    \<Rightarrow> ms \<Rightarrow> seen_set \<Rightarrow> seen_set" where
  "seen_put flagKey runId idType targetingKey attributes res now s =
     (let eid = entryId flagKey idType targetingKey;
          fp = fingerprintAttributes attributes;
          fresh = \<lparr>se_runId = runId, se_storedAt = now, se_values = putValue (ss_maxValues s) fp res []\<rparr>;
          entry = (case map_of (ss_entries s) eid of
             None \<Rightarrow> fresh
           | Some existing \<Rightarrow>
               if now - se_storedAt existing < ss_ttlMs s
               then existing\<lparr>se_values := putValue (ss_maxValues s) fp res (se_values existing)\<rparr>
               else fresh);
          es = move_to_end eid entry (ss_entries s)
      in s\<lparr>ss_entries := (if ss_maxSize s < int (length es) then tl es else es)\<rparr>)"

section \<open>Fingerprints and the order of properties\<close>

lemma map_mset_reorder:
  "mset (map f xs) = mset (map f ys) \<Longrightarrow> \<exists>zs. mset zs = mset ys \<and> map f zs = map f xs"
proof (induction xs arbitrary: ys)
  case (Cons x xs)
  then have "f x \<in> set (map f ys)" by (metis list.set_intros(1) list.simps(9) mset_eq_setD)
  then obtain y where y: "y \<in> set ys" "f y = f x" by auto
  obtain us vs where ys: "ys = us @ y # vs" using y(1) by (meson split_list)
  have "mset (map f xs) = mset (map f (us @ vs))" using Cons.prems y(2) by (simp add: ys)
  then obtain zs where "mset zs = mset (us @ vs)" "map f zs = map f xs" using Cons.IH by blast
  then show ?case using y(2) by (intro exI[of _ "y # zs"]) (simp add: ys)
qed simp

lemma sort_key_unique:
  assumes "mset xs = mset ys" "distinct (map f xs)"
  shows "sort_key f xs = sort_key f ys"
proof (rule sort_key_inj_key_eq)
  show "mset xs = mset (sort_key f ys)" by (simp add: assms(1))
  show "inj_on f (set xs)" using assms(2) by (simp add: distinct_map)
  show "sorted (map f (sort_key f ys))" by simp
qed

lemma list_all2_stable:
  assumes "list_all2 (\<lambda>p q. fst p = fst q \<and> stableJsonValue (snd p) = stableJsonValue (snd q)) ps qs"
  shows "map (\<lambda>p. (fst p, stableJsonValue (snd p))) (filter (\<lambda>p. fst p \<noteq> k) ps)
       = map (\<lambda>p. (fst p, stableJsonValue (snd p))) (filter (\<lambda>p. fst p \<noteq> k) qs)"
  using assms by (induction rule: list_all2_induct) auto

lemma same_json_stable:
  "same_json v w \<Longrightarrow> distinct_keys w \<Longrightarrow> stableJsonValue v = stableJsonValue w"
proof (induction rule: same_json.induct)
  case (arrays vs ws)
  then show ?case by (auto simp: list_all2_conv_all_nth list_all_length intro!: nth_equalityI)
next
  case (objects ps qs rs)
  let ?f = "\<lambda>p. (fst p, stableJsonValue (snd p))" and ?keep = "filter (\<lambda>p::string \<times> jsval. fst p \<noteq> ''__proto__'')"
  have "set rs = set qs" using objects(2) by (metis mset_eq_setD)
  then have d: "distinct_keys (snd q)" if "q \<in> set qs" for q
    using objects.prems that by (auto simp: list_all_iff)
  have "list_all2 (\<lambda>p q. fst p = fst q \<and> stableJsonValue (snd p) = stableJsonValue (snd q)) ps qs"
    by (rule list.rel_mono_strong[OF objects(1)]) (use d in blast)
  then have "map ?f (?keep ps) = map ?f (?keep qs)" by (rule list_all2_stable)
  moreover have "sort_key fst (map ?f (?keep rs)) = sort_key fst (map ?f (?keep qs))"
  proof (rule sort_key_unique)
    show "mset (map ?f (?keep rs)) = mset (map ?f (?keep qs))" by (simp add: objects(2))
    show "distinct (map fst (map ?f (?keep rs)))"
      using objects.prems by (simp add: comp_def distinct_map_filter)
  qed
  ultimately show ?case by simp
qed simp

lemma plain_distinct: "plain_json v \<Longrightarrow> distinct_keys v"
  by (induction v rule: distinct_keys.induct) (auto simp: list_all_iff)

lemma plain_text: "plain_json v \<Longrightarrow> has_text v"
  by (cases v) auto

lemma mset_stable_obj:
  "sort_key fst xs = sort_key fst ys \<Longrightarrow> mset xs = mset ys"
  by (metis mset_sort)

lemma same_json_atom:
  "\<not> is_object v \<Longrightarrow> stableJsonValue v = stableJsonValue w \<Longrightarrow> same_json v w"
  by (cases v; cases w) (auto intro: same_json.same)

lemma same_json_of_stable:
  "plain_json v \<Longrightarrow> plain_json w \<Longrightarrow> stableJsonValue v = stableJsonValue w \<Longrightarrow> same_json v w"
proof (induction v arbitrary: w)
  case (JArr vs)
  obtain ws where "w = JArr ws" using JArr.prems(3) by (cases w) auto
  then have w: "w = JArr ws" "map stableJsonValue vs = map stableJsonValue ws" using JArr.prems(3) by simp_all
  then have "list_all2 same_json vs ws"
    using JArr by (auto simp: list_all2_conv_all_nth list_all_length dest: map_eq_imp_length_eq
        intro!: JArr.IH) (metis length_map nth_map)
  then show ?case by (simp add: w same_json.arrays)
next
  case (JObj ps)
  let ?f = "\<lambda>p. (fst p, stableJsonValue (snd p))"
  obtain rs where w: "w = JObj rs" using JObj.prems(3) by (cases w) auto
  have keep: "filter (\<lambda>p. fst p \<noteq> ''__proto__'') ps = ps" "filter (\<lambda>p. fst p \<noteq> ''__proto__'') rs = rs"
    using JObj.prems(1,2) by (auto simp: w filter_id_conv list_all_iff)
  have "mset (map ?f ps) = mset (map ?f rs)"
    by (rule mset_stable_obj) (use JObj.prems(3) in \<open>simp add: w keep\<close>)
  then obtain qs where qs: "mset qs = mset rs" "map ?f qs = map ?f ps" using map_mset_reorder by blast
  have "set qs = set rs" using qs(1) by (metis mset_eq_setD)
  have "list_all2 (\<lambda>p q. fst p = fst q \<and> same_json (snd p) (snd q)) ps qs"
  proof (rule list_all2_all_nthI)
    show l: "length ps = length qs" using arg_cong[OF qs(2), of length] by simp
    fix n assume n: "n < length ps"
    then have e: "?f (qs ! n) = ?f (ps ! n)" using arg_cong[OF qs(2), of "\<lambda>xs. xs ! n"] l by simp
    have "plain_json (snd (ps ! n))" "plain_json (snd (qs ! n))"
      using JObj.prems(1,2) n l \<open>set qs = set rs\<close> nth_mem[of n ps] nth_mem[of n qs]
      by (auto simp: w list_all_iff)
    moreover have "snd (ps ! n) \<in> Basic_BNFs.snds (ps ! n)" by (simp add: snds.simps)
    ultimately show "fst (ps ! n) = fst (qs ! n) \<and> same_json (snd (ps ! n)) (snd (qs ! n))"
      using JObj.IH[of "ps ! n" "snd (ps ! n)" "snd (qs ! n)"] e n by auto
  qed
  then show ?case unfolding w using qs(1) by (rule same_json.objects)
qed (simp_all add: same_json_atom del: stableJsonValue.simps)

lemma json_form_plain: "plain_json v \<Longrightarrow> json_form v = v"
proof (induction v)
  case (JObj ps)
  then show ?case
    by (auto simp: list_all_iff filter_id_conv plain_text snds.simps intro!: map_idI)
qed (auto simp: list_all_iff intro!: map_idI split: jsnum.splits)

lemma plain_stable: "plain_json v \<Longrightarrow> plain_json (stableJsonValue v)"
proof (induction v)
  case (JObj ps)
  have "distinct (map fst (filter (\<lambda>p. fst p \<noteq> ''__proto__'') ps))"
    using JObj.prems by (simp add: distinct_map_filter)
  moreover have "mset (map fst (sort_key fst xs)) = mset (map fst xs)" for xs :: "(string \<times> jsval) list" by simp
  then have "distinct (map fst (sort_key fst xs)) = distinct (map fst xs)" for xs :: "(string \<times> jsval) list"
    by (metis mset_eq_imp_distinct_iff)
  ultimately show ?case using JObj by (auto simp: list_all_iff comp_def snds.simps)
qed (auto simp: list_all_iff)

lemma fingerprint_plain:
  "plain_json (JObj a) \<Longrightarrow> fingerprintAttributes a = stableJsonValue (JObj a)"
  unfolding fingerprintAttributes_def by (rule json_form_plain[OF plain_stable])

section \<open>Bounds and replay\<close>

lemma evict_over_suffix: "\<exists>us. xs = us @ evict_over cap xs"
  by (induction xs) (auto intro: exI[of _ "[]"], metis append_Cons)

lemma length_evict_over: "0 \<le> cap \<Longrightarrow> int (length (evict_over cap xs)) \<le> cap"
  by (induction xs) auto

lemma evict_over_small: "int (length xs) \<le> cap \<Longrightarrow> evict_over cap xs = xs"
  by (cases xs) auto

lemma evict_over_last: "0 < cap \<Longrightarrow> evict_over cap (xs @ [x]) \<noteq> [] \<and> last (evict_over cap (xs @ [x])) = x"
  by (induction xs) auto

text \<open>What a suffix of a map with distinct keys holds, the map holds as well.\<close>

lemma map_of_suffix:
  "distinct (map fst (us @ vs)) \<Longrightarrow> map_of vs k = Some v \<Longrightarrow> map_of (us @ vs) k = Some v"
  by (metis Un_iff map_of_SomeD map_of_is_SomeI set_append)

lemma map_of_tl: "distinct (map fst m) \<Longrightarrow> map_of (tl m) k = Some v \<Longrightarrow> map_of m k = Some v"
  using map_of_suffix[of "[hd m]" "tl m" k v] by (cases m) auto

lemma distinct_tl: "distinct (map fst m) \<Longrightarrow> distinct (map fst (tl m))"
  by (cases m) auto

lemma putValue_facts:
  assumes "distinct (map fst m)" "0 < cap"
  shows "distinct (map fst (putValue cap fp r m))"
    and "int (length (putValue cap fp r m)) \<le> cap"
    and "map_of (putValue cap fp r m) fp = Some r"
    and "map_of (putValue cap fp r m) k = Some v \<Longrightarrow> (if k = fp then v = r else map_of m k = Some v)"
proof -
  let ?m = "move_to_end fp r m"
  have d: "distinct (map fst ?m)" using assms(1) by simp
  obtain us where us: "?m = us @ putValue cap fp r m"
    using evict_over_suffix[of ?m cap] unfolding putValue_def by blast
  have d': "distinct (map fst (us @ putValue cap fp r m))" using d us by (rule subst[rotated])
  then show D: "distinct (map fst (putValue cap fp r m))" by simp
  show "int (length (putValue cap fp r m)) \<le> cap" unfolding putValue_def using assms(2) by (simp add: length_evict_over)
  have "(fp, r) \<in> set (putValue cap fp r m)"
    using evict_over_last[OF assms(2), of "AList.delete fp m" "(fp, r)"]
    unfolding putValue_def move_to_end_append by (metis last_in_set)
  with D show "map_of (putValue cap fp r m) fp = Some r" by simp
  assume "map_of (putValue cap fp r m) k = Some v"
  then have "map_of ?m k = Some v" using map_of_suffix[OF d'] us by metis
  then show "if k = fp then v = r else map_of m k = Some v" by (auto split: if_splits)
qed

text \<open>The recorded resolutions, the latest first, beside the set: the history is not in the code.\<close>

record seen_log_entry =
  sl_flag :: string
  sl_run :: string
  sl_idType :: string
  sl_key :: string
  sl_attrs :: "(string \<times> jsval) list"
  sl_res :: seen_resolution
  sl_at :: ms

definition sl_id :: "seen_log_entry \<Rightarrow> string" where
  "sl_id l = entryId (sl_flag l) (sl_idType l) (sl_key l)"

definition seen_put_logged :: "seen_log_entry \<Rightarrow> seen_set \<Rightarrow> seen_set" where
  "seen_put_logged l = seen_put (sl_flag l) (sl_run l) (sl_idType l) (sl_key l) (sl_attrs l) (sl_res l) (sl_at l)"

inductive seen_step :: "seen_set \<times> seen_log_entry list \<Rightarrow> seen_set \<times> seen_log_entry list \<Rightarrow> bool" where
  look: "seen_step (s, hist) (snd (seen_get f i k attrs now s), hist)"
| keep: "seen_step (s, hist) (seen_put_logged l s, l # hist)"

definition slot_inv :: "seen_set \<Rightarrow> seen_log_entry list \<Rightarrow> string \<Rightarrow> stored_entry \<Rightarrow> bool" where
  "slot_inv s hist eid e \<longleftrightarrow> distinct (map fst (se_values e)) \<and> int (length (se_values e)) \<le> ss_maxValues s
     \<and> (\<exists>l\<in>set hist. sl_id l = eid \<and> sl_run l = se_runId e \<and> sl_at l = se_storedAt e)
     \<and> (\<forall>fp r. map_of (se_values e) fp = Some r \<longrightarrow>
          map_option sl_res (find (\<lambda>l. sl_id l = eid \<and> fingerprintAttributes (sl_attrs l) = fp) hist) = Some r)"

fun seen_inv :: "seen_set \<times> seen_log_entry list \<Rightarrow> bool" where
  "seen_inv (s, hist) \<longleftrightarrow> 0 < ss_maxSize s \<and> 0 < ss_maxValues s \<and> distinct (map fst (ss_entries s))
     \<and> int (length (ss_entries s)) \<le> ss_maxSize s
     \<and> (\<forall>eid e. map_of (ss_entries s) eid = Some e \<longrightarrow> slot_inv s hist eid e)"

lemma slot_inv_config: "ss_maxValues s' = ss_maxValues s \<Longrightarrow> slot_inv s' = slot_inv s"
  by (intro ext) (simp add: slot_inv_def)

lemma seen_inv_get:
  assumes "seen_inv (s, hist)"
  shows "seen_inv (snd (seen_get f i k attrs now s), hist)"
proof -
  let ?id = "entryId f i k" and ?fp = "fingerprintAttributes attrs"
  have inv: "0 < ss_maxSize s" "0 < ss_maxValues s" "distinct (map fst (ss_entries s))"
    "int (length (ss_entries s)) \<le> ss_maxSize s"
    "\<And>eid e. map_of (ss_entries s) eid = Some e \<Longrightarrow> slot_inv s hist eid e"
    using assms by auto
  have touch: "slot_inv s hist ?id (e\<lparr>se_values := move_to_end ?fp r (se_values e)\<rparr>)"
    if "map_of (ss_entries s) ?id = Some e" "map_of (se_values e) ?fp = Some r" for e r
  proof -
    have "?fp \<in> fst ` set (se_values e)" using that(2) by (metis map_of_eq_None option.distinct(1))
    with inv(5)[OF that(1)] that(2) show ?thesis by (auto simp: slot_inv_def length_move_to_end)
  qed
  have len: "int (length (AList.delete ?id (ss_entries s))) \<le> ss_maxSize s"
    using inv(3,4) by (auto simp: length_delete)
  show ?thesis
  proof (cases "map_of (ss_entries s) ?id")
    case None
    then show ?thesis using assms by (simp add: seen_get_def)
  next
    case (Some e)
    then have mem: "?id \<in> fst ` set (ss_entries s)" by (metis map_of_eq_None option.distinct(1))
    consider "ss_ttlMs s \<le> now - se_storedAt e"
      | "\<not> ss_ttlMs s \<le> now - se_storedAt e" "map_of (se_values e) ?fp = None"
      | r where "\<not> ss_ttlMs s \<le> now - se_storedAt e" "map_of (se_values e) ?fp = Some r" by blast
    then show ?thesis
    proof cases
      case 1
      with Some inv len show ?thesis
        by (simp add: seen_get_def map_of_delete AList.distinct_delete slot_inv_config[of "s\<lparr>ss_entries := _\<rparr>" s])
    next
      case 2
      with Some assms show ?thesis by (simp add: seen_get_def Let_def)
    next
      case (3 r)
      with Some inv touch[OF Some] mem show ?thesis
        by (simp add: seen_get_def Let_def length_move_to_end slot_inv_config[of "s\<lparr>ss_entries := _\<rparr>" s])
    qed
  qed
qed

lemma slot_inv_other: "slot_inv s hist eid e \<Longrightarrow> sl_id l \<noteq> eid \<Longrightarrow> slot_inv s (l # hist) eid e"
  by (auto simp: slot_inv_def)

text \<open>The slot that a put writes, new or extended.\<close>

lemma slot_inv_put:
  assumes "0 < ss_maxValues s"
    and "distinct (map fst vs)"
    and "\<exists>x\<in>set (l # hist). sl_id x = sl_id l \<and> sl_run x = run \<and> sl_at x = stored"
    and "\<forall>fp r. map_of vs fp = Some r \<longrightarrow> map_option sl_res
      (find (\<lambda>x. sl_id x = sl_id l \<and> fingerprintAttributes (sl_attrs x) = fp) hist) = Some r"
  shows "slot_inv s (l # hist) (sl_id l) \<lparr>se_runId = run, se_storedAt = stored,
    se_values = putValue (ss_maxValues s) (fingerprintAttributes (sl_attrs l)) (sl_res l) vs\<rparr>"
proof -
  let ?fp = "fingerprintAttributes (sl_attrs l)"
  note m = putValue_facts[OF assms(2,1), of ?fp "sl_res l"]
  have "map_option sl_res (find (\<lambda>x. sl_id x = sl_id l \<and> fingerprintAttributes (sl_attrs x) = fp) (l # hist)) = Some r"
    if "map_of (putValue (ss_maxValues s) ?fp (sl_res l) vs) fp = Some r" for fp r
  proof (cases "fp = ?fp")
    case True
    with m(4)[OF that] show ?thesis by simp
  next
    case False
    with m(4)[OF that] assms(4) show ?thesis by simp
  qed
  then show ?thesis using assms(3) m(1,2) by (simp add: slot_inv_def)
qed

text \<open>The slot after a recording, and the recording in terms of it.\<close>

definition slot_after :: "seen_log_entry \<Rightarrow> seen_set \<Rightarrow> stored_entry" where
  "slot_after l s =
     (let fp = fingerprintAttributes (sl_attrs l);
          fresh = \<lparr>se_runId = sl_run l, se_storedAt = sl_at l, se_values = putValue (ss_maxValues s) fp (sl_res l) []\<rparr>
      in case map_of (ss_entries s) (sl_id l) of
        None \<Rightarrow> fresh
      | Some e \<Rightarrow> if sl_at l - se_storedAt e < ss_ttlMs s
          then e\<lparr>se_values := putValue (ss_maxValues s) fp (sl_res l) (se_values e)\<rparr> else fresh)"

lemma seen_put_logged_eq:
  "seen_put_logged l s = s\<lparr>ss_entries := (let es = move_to_end (sl_id l) (slot_after l s) (ss_entries s)
     in if ss_maxSize s < int (length es) then tl es else es)\<rparr>"
  by (simp add: seen_put_logged_def seen_put_def slot_after_def sl_id_def Let_def)

lemma seen_put_keeps:
  assumes "seen_inv (s, hist)"
  shows "map_of (ss_entries (seen_put_logged l s)) (sl_id l) = Some (slot_after l s)"
proof -
  let ?es = "AList.delete (sl_id l) (ss_entries s) @ [(sl_id l, slot_after l s)]"
  have inv: "0 < ss_maxSize s" "distinct (map fst (ss_entries s))" using assms by auto
  have d: "distinct (map fst ?es)" using inv(2) by (metis distinct_move_to_end move_to_end_append)
  have "(sl_id l, slot_after l s) \<in> set (if ss_maxSize s < int (length ?es) then tl ?es else ?es)"
    using inv(1) by (cases "AList.delete (sl_id l) (ss_entries s)") auto
  moreover have "distinct (map fst (if ss_maxSize s < int (length ?es) then tl ?es else ?es))"
    using d distinct_tl[OF d] by (simp del: map_append)
  ultimately show ?thesis by (simp add: seen_put_logged_eq move_to_end_append Let_def del: tl_append2)
qed

lemma seen_inv_put:
  assumes "seen_inv (s, hist)"
  shows "seen_inv (seen_put_logged l s, l # hist)"
proof -
  let ?id = "sl_id l" and ?fp = "fingerprintAttributes (sl_attrs l)"
  have inv: "0 < ss_maxSize s" "0 < ss_maxValues s" "distinct (map fst (ss_entries s))"
    "int (length (ss_entries s)) \<le> ss_maxSize s"
    "\<And>eid e. map_of (ss_entries s) eid = Some e \<Longrightarrow> slot_inv s hist eid e"
    using assms by auto
  define entry where "entry = slot_after l s"
  define es where "es = move_to_end ?id entry (ss_entries s)"
  have put: "seen_put_logged l s = s\<lparr>ss_entries := (if ss_maxSize s < int (length es) then tl es else es)\<rparr>"
    by (simp add: seen_put_logged_eq es_def entry_def Let_def)
  have fresh: "slot_inv s (l # hist) ?id \<lparr>se_runId = sl_run l, se_storedAt = sl_at l,
      se_values = putValue (ss_maxValues s) ?fp (sl_res l) []\<rparr>"
    by (rule slot_inv_put[OF inv(2)]) auto
  have more: "slot_inv s (l # hist) ?id (e\<lparr>se_values := putValue (ss_maxValues s) ?fp (sl_res l) (se_values e)\<rparr>)"
    if "map_of (ss_entries s) ?id = Some e" for e
    using slot_inv_put[OF inv(2), of "se_values e" l hist "se_runId e" "se_storedAt e"] inv(5)[OF that]
    by (cases e) (auto simp: slot_inv_def)
  have entry: "slot_inv s (l # hist) ?id entry"
    unfolding entry_def slot_after_def using fresh more by (auto simp: Let_def split: option.splits)
  have es: "distinct (map fst es)" "int (length es) \<le> ss_maxSize s + 1"
    using inv(3,4) by (auto simp: es_def length_move_to_end)
  have slots: "slot_inv s (l # hist) eid e" if "map_of es eid = Some e" for eid e
    using that entry slot_inv_other[OF inv(5)] by (auto simp: es_def split: if_splits)
  have cfg: "slot_inv (s\<lparr>ss_entries := m\<rparr>) = slot_inv s" for m by (rule slot_inv_config) simp
  show ?thesis
    using inv(1,2) es slots map_of_tl[OF es(1)] distinct_tl[OF es(1)] by (auto simp: put cfg)
qed

lemma seen_inv_new: "newSeenSet a b c = Inr s \<Longrightarrow> seen_inv (s, [])"
  by (auto simp: newSeenSet_def Let_def split: if_splits)

interpretation seen: machine seen_step seen_inv
proof
  fix s t assume inv: "seen_inv s" and "seen_step s t"
  from this(2) inv show "seen_inv t" by cases (auto simp del: seen_inv.simps intro: seen_inv_get seen_inv_put)
qed

lemma entryId_inj:
  assumes "entryId f i k = entryId f' i' k'" "CHR 0x00 \<notin> set f \<union> set i \<union> set f' \<union> set i'"
  shows "f = f' \<and> i = i' \<and> k = k'"
proof -
  have "f = f' \<and> i @ CHR 0x00 # k = i' @ CHR 0x00 # k'"
    using append_sep_cancel[of f "CHR 0x00" _ f'] assms by (auto simp: entryId_def)
  moreover from this have "i = i' \<and> k = k'"
    using append_sep_cancel[of i "CHR 0x00" k i' k'] assms(2) by auto
  ultimately show ?thesis by simp
qed

lemma seen_get_hit:
  "fst (seen_get f i k attrs now s) = Hit run stored res \<longleftrightarrow>
     (\<exists>e. map_of (ss_entries s) (entryId f i k) = Some e \<and> now - se_storedAt e < ss_ttlMs s
        \<and> map_of (se_values e) (fingerprintAttributes attrs) = Some res
        \<and> run = se_runId e \<and> stored = se_storedAt e)"
  by (auto simp: seen_get_def Let_def split: option.splits)

section \<open>Properties\<close>

definition sample_resolution :: seen_resolution where
  "sample_resolution = \<lparr>sr_variant = JStr ''on'', sr_variantName = Some ''treatment''\<rparr>"

definition sample_entry :: seen_log_entry where
  "sample_entry = \<lparr>sl_flag = ''f'', sl_run = ''r1'', sl_idType = ''user'', sl_key = ''u'',
     sl_attrs = [(''a'', JBool True)], sl_res = sample_resolution, sl_at = 10\<rparr>"

definition sample_seen :: seen_set where
  "sample_seen = \<lparr>ss_maxSize = 1, ss_ttlMs = 100, ss_maxValues = 1, ss_entries = []\<rparr>"

text \<open>
  C29: a cached answer is the last one recorded. In every state that lookups and recordings
  reach from a new set, a hit returns the resolution of the latest recording for that very
  flag, id type and Targeting Key under the same attribute fingerprint, and the slot's run
  was recorded for this Entity less than the revalidation window ago.
\<close>

theorem hit_replays_last_recording:
  assumes "newSeenSet a b c = Inr s0" "reaches seen_step (s0, []) (s, hist)"
    and "fst (seen_get f i k attrs now s) = Hit run stored res"
    and "CHR 0x00 \<notin> set f \<union> set i" "\<forall>l\<in>set hist. CHR 0x00 \<notin> set (sl_flag l) \<union> set (sl_idType l)"
  shows "map_option sl_res (find (\<lambda>l. sl_flag l = f \<and> sl_idType l = i \<and> sl_key l = k
      \<and> fingerprintAttributes (sl_attrs l) = fingerprintAttributes attrs) hist) = Some res
    \<and> (\<exists>l\<in>set hist. sl_flag l = f \<and> sl_idType l = i \<and> sl_key l = k \<and> sl_run l = run
        \<and> sl_at l = stored \<and> now - stored < ss_ttlMs s)"
proof -
  have "seen_inv (s, hist)" using seen.inv_reaches[OF assms(2) seen_inv_new[OF assms(1)]] .
  with assms(3) obtain e where e: "slot_inv s hist (entryId f i k) e" "now - stored < ss_ttlMs s"
    "map_of (se_values e) (fingerprintAttributes attrs) = Some res" "run = se_runId e" "stored = se_storedAt e"
    unfolding seen_get_hit seen_inv.simps by metis
  have ids: "sl_id l = entryId f i k \<longleftrightarrow> sl_flag l = f \<and> sl_idType l = i \<and> sl_key l = k" if "l \<in> set hist" for l
    using entryId_inj[of "sl_flag l" "sl_idType l" "sl_key l" f i k] assms(4,5) that by (auto simp: sl_id_def)
  have "find (\<lambda>l. sl_id l = entryId f i k \<and> fingerprintAttributes (sl_attrs l) = fp) hist =
    find (\<lambda>l. sl_flag l = f \<and> sl_idType l = i \<and> sl_key l = k \<and> fingerprintAttributes (sl_attrs l) = fp) hist" for fp
    by (rule find_cong) (use ids in auto)
  with e ids show ?thesis by (auto simp: slot_inv_def)
qed

lemma hit_replays_last_recording_witness:
  "find (\<lambda>l. sl_flag l = ''f'' \<and> sl_idType l = ''user'' \<and> sl_key l = ''u''
      \<and> fingerprintAttributes (sl_attrs l) = fingerprintAttributes [(''a'', JBool True)]) [sample_entry] \<noteq> None"
proof -
  have s: "newSeenSet (Some 1) (Some 100) (Some 1) = Inr sample_seen"
    by (simp add: newSeenSet_def sample_seen_def Let_def)
  have r: "reaches seen_step (sample_seen, []) (seen_put_logged sample_entry sample_seen, [sample_entry])"
    by (rule reaches.there, rule reaches.here, rule seen_step.keep)
  have h: "fst (seen_get ''f'' ''user'' ''u'' [(''a'', JBool True)] 50 (seen_put_logged sample_entry sample_seen))
    = Hit ''r1'' 10 sample_resolution"
    by (simp add: seen_get_hit seen_put_logged_def seen_put_def sample_entry_def sample_seen_def
        putValue_def Let_def move_to_end_append)
  show ?thesis using hit_replays_last_recording[OF s r h] by (auto simp: sample_entry_def)
qed

text \<open>
  C30: the cache is bounded at both levels. Whatever is looked up and recorded, a set
  never keeps more identities than its size nor more fingerprints per identity than its
  cap, and what was just recorded is kept: reading it back within the window is a hit.
\<close>

theorem seen_set_bounded:
  assumes "newSeenSet a b c = Inr s0" "reaches seen_step (s0, []) (s, hist)"
  shows "int (length (ss_entries s)) \<le> ss_maxSize s
    \<and> (\<forall>(eid, e)\<in>set (ss_entries s). int (length (se_values e)) \<le> ss_maxValues s)
    \<and> (0 < ss_ttlMs s \<longrightarrow> (\<exists>run stored. fst (seen_get (sl_flag l) (sl_idType l) (sl_key l) (sl_attrs l) (sl_at l)
          (seen_put_logged l s)) = Hit run stored (sl_res l)))"
proof -
  have inv: "seen_inv (s, hist)" using seen.inv_reaches[OF assms(2) seen_inv_new[OF assms(1)]] .
  then have 1: "\<forall>(eid, e)\<in>set (ss_entries s). int (length (se_values e)) \<le> ss_maxValues s"
    by (auto simp: slot_inv_def)
  have slot: "map_of (ss_entries (seen_put_logged l s)) (entryId (sl_flag l) (sl_idType l) (sl_key l))
      = Some (slot_after l s)"
    using seen_put_keeps[OF inv] by (simp add: sl_id_def)
  have "distinct (map fst (se_values e))" if "map_of (ss_entries s) (sl_id l) = Some e" for e
    using inv that by (auto simp: slot_inv_def)
  then have res: "map_of (se_values (slot_after l s)) (fingerprintAttributes (sl_attrs l)) = Some (sl_res l)"
    using inv by (auto simp: slot_after_def Let_def putValue_facts(3) split: option.splits)
  have "0 < ss_ttlMs s \<Longrightarrow> sl_at l - se_storedAt (slot_after l s) < ss_ttlMs s"
    by (auto simp: slot_after_def Let_def split: option.splits)
  then have "0 < ss_ttlMs s \<Longrightarrow> \<exists>run stored. fst (seen_get (sl_flag l) (sl_idType l) (sl_key l)
      (sl_attrs l) (sl_at l) (seen_put_logged l s)) = Hit run stored (sl_res l)"
    using slot res by (simp add: seen_get_hit) (simp add: seen_put_logged_eq)
  with inv 1 show ?thesis by auto
qed

lemma seen_set_bounded_witness:
  "int (length (ss_entries (seen_put_logged (sample_entry\<lparr>sl_flag := ''g''\<rparr>)
     (seen_put_logged sample_entry sample_seen)))) \<le> 1"
proof -
  have s: "newSeenSet (Some 1) (Some 100) (Some 1) = Inr sample_seen"
    by (simp add: newSeenSet_def sample_seen_def Let_def)
  have "reaches seen_step (sample_seen, []) (seen_put_logged (sample_entry\<lparr>sl_flag := ''g''\<rparr>)
     (seen_put_logged sample_entry sample_seen), [sample_entry\<lparr>sl_flag := ''g''\<rparr>, sample_entry])"
    by (rule reaches.there, rule reaches.there, rule reaches.here, rule seen_step.keep, rule seen_step.keep)
  from seen_set_bounded[OF s this] show ?thesis by (simp add: seen_put_logged_eq sample_seen_def)
qed



end
