(* ===== verification/ExposureQueue.thy ===== *)
theory ExposureQueue
  imports Json
begin

text \<open>
  The browser's queue of Exposure redemptions, \<open>packages/sdk/src/browser/exposure-*.ts\<close>
  and \<open>packages/sdk/src/exposure-retry.ts\<close>. The code is asynchronous: a drain runs up to
  its network call, and callers that arrive meanwhile wait. An operation of the model is one
  turn between awaits, so a history is a list of operations in any order; the arrival of a
  response (\<open>Respond\<close>), the wake-up of a waiter and the rest of a caller after its drain
  are operations of their own, which admits every interleaving of the program.
\<close>

section \<open>Batches\<close>

record queued_exposure =
  qe_flagKey :: string
  qe_exposureId :: string
  qe_exposureTicket :: string
  qe_clientTimestamp :: string

definition EXPOSURE_BATCH_MAX_ITEMS :: nat where "EXPOSURE_BATCH_MAX_ITEMS = 25"
definition EXPOSURE_BATCH_MAX_BODY_BYTES :: nat where "EXPOSURE_BATCH_MAX_BODY_BYTES = 32 * 1024"

definition toExposureBatchItem :: "queued_exposure \<Rightarrow> (string \<times> string) list" where
  "toExposureBatchItem x = [(''exposureId'', qe_exposureId x), (''exposureTicket'', qe_exposureTicket x),
     (''clientTimestamp'', qe_clientTimestamp x)]"

definition item_json :: "queued_exposure \<Rightarrow> string" where
  "item_json x = ''{'' @ join '','' (map (\<lambda>(k, v). json_string k @ '':'' @ json_string v) (toExposureBatchItem x)) @ ''}''"

definition itemWireBytes :: "queued_exposure \<Rightarrow> nat" where
  "itemWireBytes x = length (utf8 (item_json x))"

definition body_json :: "queued_exposure list \<Rightarrow> string" where
  "body_json xs = ''{'' @ json_string ''exposures'' @ '':['' @ join '','' (map item_json xs) @ '']}''"

definition pendingBodyBytes :: "queued_exposure list \<Rightarrow> nat" where
  "pendingBodyBytes xs = length (utf8 (body_json xs))"

definition bodyPrefixBytes :: nat where "bodyPrefixBytes = 16"

text \<open>The loop of \<open>batchEndIndex\<close> from its variables \<open>end\<close> and \<open>bytes\<close>.\<close>

fun batch_end_from :: "nat \<Rightarrow> nat \<Rightarrow> queued_exposure list \<Rightarrow> nat" where
  "batch_end_from n bytes [] = n"
| "batch_end_from n bytes (x # xs) =
     (if EXPOSURE_BATCH_MAX_ITEMS \<le> n then n
      else let itemBytes = itemWireBytes x + (if n = 0 then 0 else 1) in
        if 0 < n \<and> EXPOSURE_BATCH_MAX_BODY_BYTES < bytes + itemBytes + 2 then n
        else batch_end_from (n + 1) (bytes + itemBytes) xs)"

definition batchEndIndex :: "queued_exposure list \<Rightarrow> nat" where
  "batchEndIndex pending = batch_end_from 0 bodyPrefixBytes pending"

definition takeBatch :: "queued_exposure list \<Rightarrow> queued_exposure list \<times> queued_exposure list" where
  "takeBatch pending = (if pending = [] then ([], [])
     else (take (batchEndIndex pending) pending, drop (batchEndIndex pending) pending))"

section \<open>Results of a redemption\<close>

record exposure_row =
  er_exposureId :: string
  er_status :: string
  er_code :: "string option"

record exposures_result =
  xr_status :: "nat option"
  xr_results :: "exposure_row list option"
  xr_errorCode :: "string option"

definition RETRYABLE_EXPOSURE_REJECTION_CODES :: "string list" where
  "RETRYABLE_EXPOSURE_REJECTION_CODES = [''SERVICE_UNAVAILABLE'']"

definition isRetryableExposureRejection :: "string \<Rightarrow> bool" where
  "isRetryableExposureRejection code \<longleftrightarrow> code \<in> set RETRYABLE_EXPOSURE_REJECTION_CODES"

definition is_upper :: "char \<Rightarrow> bool" where
  "is_upper c \<longleftrightarrow> 65 \<le> (of_char c :: nat) \<and> (of_char c :: nat) \<le> 90"

text \<open>\<open>/^[A-Z][A-Z0-9_]*$/\<close>, the shape that \<open>ErrorCodeSchema\<close> of the SDK checks.\<close>

fun error_code_shape :: "string \<Rightarrow> bool" where
  "error_code_shape [] = False"
| "error_code_shape (c # cs) = (is_upper c \<and> list_all (\<lambda>d. is_upper d \<or> is_digit d \<or> d = CHR ''_'') cs)"

definition EXPOSURE_RESULT_STATUSES :: "string list" where
  "EXPOSURE_RESULT_STATUSES = [''accepted'', ''deduplicated'', ''rejected'', ''suppressed'']"

datatype row_error = UnrecognizedStatus string | MissingCode string | MalformedCode string

definition assertKnownResultStatus :: "exposure_row \<Rightarrow> row_error + unit" where
  "assertKnownResultStatus row =
     (if er_status row \<in> set EXPOSURE_RESULT_STATUSES then Inr () else Inl (UnrecognizedStatus (er_exposureId row)))"

definition shouldRetainRejected :: "exposure_row \<Rightarrow> row_error + bool" where
  "shouldRetainRejected row = (case er_code row of
     None \<Rightarrow> Inl (MissingCode (er_exposureId row))
   | Some code \<Rightarrow> if \<not> error_code_shape code then Inl (MalformedCode (er_exposureId row))
       else Inr (isRetryableExposureRejection code))"

text \<open>\<open>new Map(results.map(...))\<close>: the last row of an exposure id counts.\<close>

definition row_of :: "exposure_row list \<Rightarrow> string \<Rightarrow> exposure_row option" where
  "row_of results i = map_of (rev (map (\<lambda>r. (er_exposureId r, r)) results)) i"

definition keeps_item :: "exposure_row list \<Rightarrow> queued_exposure \<Rightarrow> row_error + bool" where
  "keeps_item results x = (case row_of results (qe_exposureId x) of
     None \<Rightarrow> Inr True
   | Some row \<Rightarrow> ebind (assertKnownResultStatus row) (\<lambda>_.
       if er_status row = ''rejected'' then shouldRetainRejected row else Inr False))"

fun retainRetryableExposures :: "queued_exposure list \<Rightarrow> exposure_row list \<Rightarrow> row_error + queued_exposure list" where
  "retainRetryableExposures [] results = Inr []"
| "retainRetryableExposures (x # xs) results =
     ebind (keeps_item results x) (\<lambda>keep.
       ebind (retainRetryableExposures xs results) (\<lambda>ys. Inr (if keep then x # ys else ys)))"

record batch_outcome =
  bo_completed :: "exposure_row list"
  bo_retained :: "queued_exposure list"
  bo_unmatched :: nat
  bo_rejected :: "(queued_exposure \<times> exposure_row) list"

definition applyExposureBatchResults :: "queued_exposure list \<Rightarrow> exposure_row list \<Rightarrow> row_error + batch_outcome" where
  "applyExposureBatchResults batch results =
     ebind (retainRetryableExposures batch results) (\<lambda>retained.
       let rows = map (\<lambda>x. (x, row_of results (qe_exposureId x))) batch in
       Inr \<lparr>bo_completed = List.map_filter snd rows, bo_retained = retained,
         bo_unmatched = length (filter (\<lambda>p. snd p = None) rows),
         bo_rejected = List.map_filter (\<lambda>(x, r). case r of
            Some row \<Rightarrow> if er_status row = ''rejected'' then Some (x, row) else None | None \<Rightarrow> None) rows\<rparr>)"

section \<open>The retry policy\<close>

definition MAX_DELIVERY_ATTEMPTS :: nat where "MAX_DELIVERY_ATTEMPTS = 3"
definition RETRYABLE_CLIENT_STATUSES :: "nat list" where "RETRYABLE_CLIENT_STATUSES = [408, 425, 429]"

definition isNonRetryableStatus :: "nat option \<Rightarrow> bool" where
  "isNonRetryableStatus status = (case status of None \<Rightarrow> False
     | Some s \<Rightarrow> 400 \<le> s \<and> s < 500 \<and> s \<notin> set RETRYABLE_CLIENT_STATUSES)"

section \<open>The queue\<close>

text \<open>
  What a caller of \<open>enqueueDrain\<close> does with the outcome: nothing (\<open>flush\<close>, the timer and
  the page lifecycle), detach the page listeners (\<open>close\<close>), or trim the queue unless nothing
  was retained since the version it noted (\<open>ExposureOverflow.flush\<close>).
\<close>

datatype drain_rest = Quiet | Detach | Trim nat

record drain_caller =
  dc_keepalive :: bool
  dc_automatic :: bool
  dc_rest :: drain_rest

record active_drain =
  ad_caller :: drain_caller
  ad_batch :: "queued_exposure list"
  ad_batches :: nat
  ad_completed :: "exposure_row list"

datatype queue_log =
    LogClosed string
  | LogNoUuid string
  | LogStopped nat
  | LogFailure string nat
  | LogZeroProgress nat
  | LogMissing nat
  | LogRejected string string
  | LogOverflow "string list"

record exposure_queue =
  q_pending :: "queued_exposure list"
  q_flags :: "string set"
  q_timer :: bool
  q_attached :: bool
  q_closed :: bool
  q_expired :: "string option"
  q_version :: nat
  q_attempts :: nat
  q_stopped :: bool
  q_active :: "active_drain option"
  q_waiting :: "drain_caller list"
  q_rests :: "(drain_rest \<times> bool) list"
  q_outcomes :: "(string + exposure_row list) list"
  q_log :: "queue_log list"
  q_targets :: bool
  q_batchLimit :: nat

definition MAX_BATCHES_PER_DRAIN :: nat where "MAX_BATCHES_PER_DRAIN = 10000"

definition newExposureQueue :: "bool \<Rightarrow> nat option \<Rightarrow> exposure_queue" where
  "newExposureQueue targets maxBatchesPerDrain = \<lparr>q_pending = [], q_flags = {}, q_timer = False,
     q_attached = False, q_closed = False, q_expired = None, q_version = 0, q_attempts = 0,
     q_stopped = False, q_active = None, q_waiting = [], q_rests = [], q_outcomes = [], q_log = [],
     q_targets = targets, q_batchLimit = nullish maxBatchesPerDrain MAX_BATCHES_PER_DRAIN\<rparr>"

definition log_line :: "queue_log \<Rightarrow> exposure_queue \<Rightarrow> exposure_queue" where
  "log_line l q = q\<lparr>q_log := q_log q @ [l]\<rparr>"

text \<open>\<open>recordFailure\<close> and \<open>recordSuccess\<close> of the retry policy; whether a retry is allowed.\<close>

definition recordFailure :: "exposures_result \<Rightarrow> exposure_queue \<Rightarrow> bool \<times> exposure_queue" where
  "recordFailure result q =
     (if q_stopped q then (False, q)
      else let attempts = q_attempts q + 1; q' = q\<lparr>q_attempts := attempts\<rparr> in
        if \<not> isNonRetryableStatus (xr_status result) \<and> attempts < MAX_DELIVERY_ATTEMPTS then (True, q')
        else (False, log_line (LogStopped attempts) (q'\<lparr>q_stopped := True\<rparr>)))"

definition recordSuccess :: "exposure_queue \<Rightarrow> exposure_queue" where
  "recordSuccess q = q\<lparr>q_attempts := 0, q_stopped := False\<rparr>"

definition remediationForFailure :: "exposures_result \<Rightarrow> exposure_queue \<Rightarrow> exposure_queue" where
  "remediationForFailure result q = (if q_closed q then q else snd (recordFailure result q))"

definition overflow_retain :: "queued_exposure list \<Rightarrow> exposure_queue \<Rightarrow> exposure_queue" where
  "overflow_retain batch q = q\<lparr>q_pending := batch @ q_pending q, q_version := q_version q + 1\<rparr>"

definition trimFailedOverflow :: "exposure_queue \<Rightarrow> exposure_queue" where
  "trimFailedOverflow q =
     (let lost = drop EXPOSURE_BATCH_MAX_ITEMS (q_pending q);
          q' = q\<lparr>q_pending := take EXPOSURE_BATCH_MAX_ITEMS (q_pending q),
                 q_flags := q_flags q - qe_flagKey ` set lost\<rparr>
      in if lost = [] then q' else log_line (LogOverflow (map qe_exposureId lost)) q')"

definition automaticFlushAllowed :: "exposure_queue \<Rightarrow> bool" where
  "automaticFlushAllowed q \<longleftrightarrow>
     q_expired q = None \<and> \<not> q_closed q \<and> q_pending q \<noteq> [] \<and> \<not> q_stopped q"

definition ensureTimer :: "exposure_queue \<Rightarrow> exposure_queue" where
  "ensureTimer q = (if q_timer q \<or> \<not> automaticFlushAllowed q then q else q\<lparr>q_timer := True\<rparr>)"

definition ensureLifecycle :: "exposure_queue \<Rightarrow> exposure_queue" where
  "ensureLifecycle q = (if q_attached q \<or> \<not> automaticFlushAllowed q then q
     else if q_targets q then q\<lparr>q_attached := True\<rparr> else q)"

definition clearTimer :: "exposure_queue \<Rightarrow> exposure_queue" where
  "clearTimer q = q\<lparr>q_timer := False\<rparr>"

definition detachLifecycle :: "exposure_queue \<Rightarrow> exposure_queue" where
  "detachLifecycle q = q\<lparr>q_attached := False\<rparr>"

definition afterDrain :: "exposure_queue \<Rightarrow> exposure_queue" where
  "afterDrain q = (if automaticFlushAllowed q then ensureLifecycle (ensureTimer q)
     else detachLifecycle (clearTimer q))"

definition queue_expire :: "string \<Rightarrow> exposure_queue \<Rightarrow> exposure_queue" where
  "queue_expire code q = detachLifecycle (clearTimer (q\<lparr>q_expired := Some code, q_pending := []\<rparr>))"

text \<open>The promise of one caller settles; what it does next is left as a turn of its own.\<close>

definition settle :: "drain_caller \<Rightarrow> string + exposure_row list \<Rightarrow> exposure_queue \<Rightarrow> exposure_queue" where
  "settle c outcome q = q\<lparr>q_outcomes := q_outcomes q @ [outcome],
     q_rests := q_rests q @ [(dc_rest c, isl outcome)]\<rparr>"

text \<open>The end of \<open>drainPending\<close>, returned or thrown, with its \<open>finally\<close> blocks.\<close>

definition finish_drain :: "drain_caller \<Rightarrow> string + exposure_row list \<Rightarrow> exposure_queue \<Rightarrow> exposure_queue" where
  "finish_drain c outcome q = settle c outcome ((afterDrain q)\<lparr>q_active := None\<rparr>)"

text \<open>The head of the loop of \<open>drainPending\<close>, up to the network call of the next batch.\<close>

definition drain_loop :: "drain_caller \<Rightarrow> nat \<Rightarrow> exposure_row list \<Rightarrow> exposure_queue \<Rightarrow> exposure_queue" where
  "drain_loop c batches completed q =
     (if q_pending q = [] then finish_drain c (Inr completed) q
      else if q_batchLimit q \<le> batches
      then finish_drain c (Inl ''SERVICE_UNAVAILABLE'') (log_line (LogZeroProgress (length (q_pending q))) q)
      else let (batch, rest) = takeBatch (q_pending q) in
        q\<lparr>q_pending := rest,
          q_active := Some \<lparr>ad_caller = c, ad_batch = batch, ad_batches = batches, ad_completed = completed\<rparr>\<rparr>)"

definition start_drain :: "drain_caller \<Rightarrow> exposure_queue \<Rightarrow> exposure_queue" where
  "start_drain c q = (case q_expired q of
     Some e \<Rightarrow> settle c (Inl e) q
   | None \<Rightarrow> if dc_automatic c \<and> q_stopped q then settle c (Inr []) q else drain_loop c 0 [] q)"

definition enqueueDrain :: "drain_caller \<Rightarrow> exposure_queue \<Rightarrow> exposure_queue" where
  "enqueueDrain c q = (case q_expired q of
     Some e \<Rightarrow> settle c (Inl e) q
   | None \<Rightarrow> if q_active q \<noteq> None then q\<lparr>q_waiting := q_waiting q @ [c]\<rparr> else start_drain c q)"

text \<open>One batch from its response on. A transport that throws counts as a network failure.\<close>

definition redeemExposureBatch :: "exposures_result option \<Rightarrow> exposures_result" where
  "redeemExposureBatch response = nullish response
     \<lparr>xr_status = None, xr_results = None, xr_errorCode = Some ''SDK_TRANSPORT_NETWORK''\<rparr>"

definition requireLiveEnvironment :: "exposures_result \<Rightarrow> nat \<Rightarrow> exposure_queue \<Rightarrow> (string + unit) \<times> exposure_queue" where
  "requireLiveEnvironment result sent q = (case q_expired q of
     Some e \<Rightarrow> (Inl e, q)
   | None \<Rightarrow> if xr_errorCode result \<noteq> Some ''ENVIRONMENT_EXPIRED'' then (Inr (), q)
       else (Inl ''ENVIRONMENT_EXPIRED'',
             log_line (LogFailure ''ENVIRONMENT_EXPIRED'' sent) (queue_expire ''ENVIRONMENT_EXPIRED'' q)))"

definition log_rejected :: "(queued_exposure \<times> exposure_row) list \<Rightarrow> exposure_queue \<Rightarrow> exposure_queue" where
  "log_rejected rows q = q\<lparr>q_log := q_log q @
     map (\<lambda>(x, row). LogRejected (qe_exposureId x) (nullish (er_code row) ''VALIDATION_ERROR'')) rows\<rparr>"

definition redeemPendingExposureBatch :: "queued_exposure list \<Rightarrow> exposures_result \<Rightarrow> exposure_queue
    \<Rightarrow> (string + exposure_row list \<times> bool) \<times> exposure_queue" where
  "redeemPendingExposureBatch batch result q =
     (case requireLiveEnvironment result (length batch) q of
        (Inl e, q0) \<Rightarrow> (Inl e, q0)
      | (Inr _, q0) \<Rightarrow>
        (case xr_results result of
           None \<Rightarrow>
             let code = nullish (xr_errorCode result) ''SERVICE_UNAVAILABLE'' in
             (Inl code, log_line (LogFailure code (length batch))
                (remediationForFailure result (overflow_retain batch q0)))
         | Some rows \<Rightarrow>
             (case applyExposureBatchResults batch rows of
                Inl _ \<Rightarrow> (Inl ''SERVICE_UNAVAILABLE'', log_line (LogZeroProgress (length batch))
                  (snd (recordFailure result (overflow_retain batch q0))))
              | Inr bo \<Rightarrow>
                  let q1 = log_rejected (bo_rejected bo) q0;
                      q2 = (if bo_retained bo = [] then q1 else overflow_retain (bo_retained bo) q1)
                  in if 0 < bo_unmatched bo then
                       let q3 = snd (recordFailure result q2) in
                       if bo_completed bo = []
                       then (Inl ''SERVICE_UNAVAILABLE'', log_line (LogZeroProgress (bo_unmatched bo)) q3)
                       else (Inr (bo_completed bo, True), log_line (LogMissing (bo_unmatched bo)) q3)
                     else if bo_retained bo \<noteq> []
                     then (Inr (bo_completed bo, True), snd (recordFailure result q2))
                     else (Inr (bo_completed bo, False), recordSuccess q2))))"

text \<open>The loop of \<open>drainPending\<close> from the response of its batch to its next await.\<close>

definition drain_respond :: "exposures_result option \<Rightarrow> exposure_queue \<Rightarrow> exposure_queue" where
  "drain_respond response q = (case q_active q of
     None \<Rightarrow> q
   | Some a \<Rightarrow>
       (case redeemPendingExposureBatch (ad_batch a) (redeemExposureBatch response) q of
          (Inl e, q') \<Rightarrow> finish_drain (ad_caller a) (Inl e) q'
        | (Inr (rows, retainedForRetry), q') \<Rightarrow>
            let completed = ad_completed a @ rows in
            if retainedForRetry \<and> (\<not> q_closed q' \<or> q_stopped q') \<or> q_waiting q' \<noteq> []
            then finish_drain (ad_caller a) (Inr completed) q'
            else drain_loop (ad_caller a) (ad_batches a + 1) completed q'))"

section \<open>Operations\<close>

definition new_item :: "string \<Rightarrow> string \<Rightarrow> string \<Rightarrow> string \<Rightarrow> queued_exposure" where
  "new_item flagKey ticket uuid stamp = \<lparr>qe_flagKey = flagKey, qe_exposureId = uuid,
     qe_exposureTicket = ticket, qe_clientTimestamp = stamp\<rparr>"

definition admitExposure :: "string \<Rightarrow> string \<Rightarrow> string \<Rightarrow> string \<Rightarrow> exposure_queue \<Rightarrow> bool option \<times> exposure_queue" where
  "admitExposure flagKey ticket uuid stamp q =
     (if flagKey \<in> q_flags q then (None, q)
      else let pending = q_pending q @ [new_item flagKey ticket uuid stamp] in
        (Some (EXPOSURE_BATCH_MAX_ITEMS \<le> length pending
               \<or> EXPOSURE_BATCH_MAX_BODY_BYTES < pendingBodyBytes pending),
         q\<lparr>q_flags := insert flagKey (q_flags q), q_pending := pending\<rparr>))"

text \<open>
  \<open>enqueue\<close>. The uuid and the time stamp are inputs; without \<open>randomUUID\<close> the mint logs and
  throws before anything is changed.
\<close>

definition queue_enqueue :: "string \<Rightarrow> string \<Rightarrow> string option \<Rightarrow> string \<Rightarrow> exposure_queue \<Rightarrow> exposure_queue" where
  "queue_enqueue flagKey ticket uuid stamp q =
     (if q_closed q then log_line (LogClosed flagKey) q
      else if uuid = None \<and> flagKey \<notin> q_flags q then log_line (LogNoUuid flagKey) q
      else case admitExposure flagKey ticket (nullish uuid []) stamp q of
          (None, q') \<Rightarrow> q'
        | (Some atCapacity, q') \<Rightarrow>
            let q'' = ensureTimer (ensureLifecycle q') in
            if atCapacity
            then enqueueDrain \<lparr>dc_keepalive = False, dc_automatic = True, dc_rest = Trim (q_version q'')\<rparr> q''
            else q'')"

definition rearmExposureFlags :: "string list \<Rightarrow> exposure_queue \<Rightarrow> exposure_queue" where
  "rearmExposureFlags flagKeys q = q\<lparr>q_flags := q_flags q - set flagKeys\<rparr>"

definition queue_flush :: "exposure_queue \<Rightarrow> exposure_queue" where
  "queue_flush q = enqueueDrain \<lparr>dc_keepalive = False, dc_automatic = False, dc_rest = Quiet\<rparr> q"

text \<open>A second \<open>close()\<close> returns the promise of the first and changes nothing.\<close>

definition queue_close :: "exposure_queue \<Rightarrow> exposure_queue" where
  "queue_close q = (if q_expired q \<noteq> None \<or> q_closed q then q
     else enqueueDrain \<lparr>dc_keepalive = False, dc_automatic = False, dc_rest = Detach\<rparr>
       (clearTimer (q\<lparr>q_closed := True\<rparr>)))"

definition flushBestEffort :: "bool \<Rightarrow> exposure_queue \<Rightarrow> exposure_queue" where
  "flushBestEffort keepalive q = enqueueDrain \<lparr>dc_keepalive = keepalive, dc_automatic = True, dc_rest = Quiet\<rparr> q"

definition timer_fires :: "exposure_queue \<Rightarrow> exposure_queue" where
  "timer_fires q = (if q_timer q then flushBestEffort False (q\<lparr>q_timer := False\<rparr>) else q)"

definition page_hides :: "exposure_queue \<Rightarrow> exposure_queue" where
  "page_hides q = (if q_attached q then flushBestEffort True q else q)"

definition wake_waiter :: "exposure_queue \<Rightarrow> exposure_queue" where
  "wake_waiter q = (case (q_active q, q_waiting q) of
     (None, c # cs) \<Rightarrow> start_drain c (q\<lparr>q_waiting := cs\<rparr>)
   | _ \<Rightarrow> q)"

definition caller_continues :: "exposure_queue \<Rightarrow> exposure_queue" where
  "caller_continues q = (case q_rests q of
     [] \<Rightarrow> q
   | (rest, failed) # rs \<Rightarrow>
       let q' = q\<lparr>q_rests := rs\<rparr> in
       (case rest of
          Quiet \<Rightarrow> q'
        | Detach \<Rightarrow> detachLifecycle q'
        | Trim version \<Rightarrow>
            if \<not> failed \<and> version = q_version q' \<and> \<not> q_stopped q' then q' else trimFailedOverflow q'))"

datatype queue_op =
    Enqueue string string "string option" string
  | Rearm "string list"
  | Expire string
  | Flush
  | CloseQueue
  | TimerFires
  | PageHides
  | Respond "exposures_result option"
  | Wake
  | Continue

fun apply_queue :: "queue_op \<Rightarrow> exposure_queue \<Rightarrow> exposure_queue" where
  "apply_queue (Enqueue f t u s) q = queue_enqueue f t u s q"
| "apply_queue (Rearm fs) q = rearmExposureFlags fs q"
| "apply_queue (Expire e) q = queue_expire e q"
| "apply_queue Flush q = queue_flush q"
| "apply_queue CloseQueue q = queue_close q"
| "apply_queue TimerFires q = timer_fires q"
| "apply_queue PageHides q = page_hides q"
| "apply_queue (Respond r) q = drain_respond r q"
| "apply_queue Wake q = wake_waiter q"
| "apply_queue Continue q = caller_continues q"

section \<open>Sizes of batches\<close>

lemma utf8_append [simp]: "utf8 (a @ b) = utf8 a @ utf8 b"
  by (simp add: utf8_def)

lemma utf8_Cons: "utf8 (c # s) = utf8_char c @ utf8 s"
  by (simp add: utf8_def)

lemma utf8_ascii: "list_all (\<lambda>c. (of_char c :: nat) < 128) s \<Longrightarrow> length (utf8 s) = length s"
  by (induction s) (auto simp: utf8_def utf8_char_def Let_def)

lemma length_utf8_join:
  "length (utf8 (join '','' ws)) = sum_list (map (\<lambda>w. length (utf8 w)) ws) + (length ws - 1)"
proof (induction ws)
  case (Cons w ws)
  then show ?case by (cases ws) (simp_all add: utf8_Cons utf8_char_def Let_def)
qed (simp add: utf8_def)

lemma pendingBodyBytes_sum:
  "pendingBodyBytes xs = bodyPrefixBytes + sum_list (map itemWireBytes xs) + (length xs - 1)"
proof -
  have 1: "length (utf8 (''{'' @ json_string ''exposures'' @ '':['')) = 14" "length (utf8 '']}'') = 2"
    by (simp_all add: json_string_def json_char_def quoted_def Let_def utf8_ascii)
  have "body_json xs = (''{'' @ json_string ''exposures'' @ '':['') @ join '','' (map item_json xs) @ '']}''"
    by (simp add: body_json_def)
  then have "pendingBodyBytes xs = 14 + length (utf8 (join '','' (map item_json xs))) + 2"
    unfolding pendingBodyBytes_def using 1 by (simp only: utf8_append length_append)
  then show ?thesis by (simp add: length_utf8_join itemWireBytes_def[abs_def] bodyPrefixBytes_def comp_def)
qed

text \<open>The loop once the first item is in: every further item pays its comma.\<close>

lemma batch_end_from_Suc:
  assumes "0 < n"
  shows "\<exists>m\<le>length xs. batch_end_from n bytes xs = n + m
    \<and> (n \<le> EXPOSURE_BATCH_MAX_ITEMS \<longrightarrow> n + m \<le> EXPOSURE_BATCH_MAX_ITEMS)
    \<and> (0 < m \<longrightarrow> bytes + sum_list (map itemWireBytes (take m xs)) + m + 2 \<le> EXPOSURE_BATCH_MAX_BODY_BYTES)
    \<and> (m < length xs \<longrightarrow> EXPOSURE_BATCH_MAX_ITEMS \<le> n + m
        \<or> EXPOSURE_BATCH_MAX_BODY_BYTES < bytes + sum_list (map itemWireBytes (take (Suc m) xs)) + Suc m + 2)"
  using assms
proof (induction xs arbitrary: n bytes)
  case (Cons x xs)
  show ?case
  proof (cases "EXPOSURE_BATCH_MAX_ITEMS \<le> n \<or> EXPOSURE_BATCH_MAX_BODY_BYTES < bytes + (itemWireBytes x + 1) + 2")
    case True
    then show ?thesis using Cons.prems by (intro exI[of _ 0]) auto
  next
    case False
    let ?b = "bytes + (itemWireBytes x + 1)"
    obtain m where m: "m \<le> length xs" "batch_end_from (n + 1) ?b xs = n + 1 + m"
      "n + 1 \<le> EXPOSURE_BATCH_MAX_ITEMS \<longrightarrow> n + 1 + m \<le> EXPOSURE_BATCH_MAX_ITEMS"
      "0 < m \<longrightarrow> ?b + sum_list (map itemWireBytes (take m xs)) + m + 2 \<le> EXPOSURE_BATCH_MAX_BODY_BYTES"
      "m < length xs \<longrightarrow> EXPOSURE_BATCH_MAX_ITEMS \<le> n + 1 + m
        \<or> EXPOSURE_BATCH_MAX_BODY_BYTES < ?b + sum_list (map itemWireBytes (take (Suc m) xs)) + Suc m + 2"
      using Cons.IH[of "n + 1" ?b] by auto
    have "batch_end_from n bytes (x # xs) = n + Suc m" using False Cons.prems m(2) by simp
    then show ?thesis using False m by (intro exI[of _ "Suc m"]) (cases m; auto)
  qed
qed simp

lemma takeBatch_facts:
  assumes "pending \<noteq> []" "takeBatch pending = (batch, rest)"
  shows "batch \<noteq> []" "batch @ rest = pending" "length batch \<le> EXPOSURE_BATCH_MAX_ITEMS"
    and "length batch = 1 \<or> pendingBodyBytes batch + 2 \<le> EXPOSURE_BATCH_MAX_BODY_BYTES"
    and "rest \<noteq> [] \<Longrightarrow> length batch = EXPOSURE_BATCH_MAX_ITEMS
      \<or> EXPOSURE_BATCH_MAX_BODY_BYTES < pendingBodyBytes (batch @ [hd rest]) + 2"
proof -
  obtain x xs where p: "pending = x # xs" using assms(1) by (cases pending) auto
  let ?b = "bodyPrefixBytes + itemWireBytes x"
  obtain m where m: "m \<le> length xs" "batch_end_from 1 ?b xs = 1 + m" "1 + m \<le> EXPOSURE_BATCH_MAX_ITEMS"
    "0 < m \<longrightarrow> ?b + sum_list (map itemWireBytes (take m xs)) + m + 2 \<le> EXPOSURE_BATCH_MAX_BODY_BYTES"
    "m < length xs \<longrightarrow> EXPOSURE_BATCH_MAX_ITEMS \<le> 1 + m
      \<or> EXPOSURE_BATCH_MAX_BODY_BYTES < ?b + sum_list (map itemWireBytes (take (Suc m) xs)) + Suc m + 2"
    using batch_end_from_Suc[of 1 xs ?b] by (auto simp: EXPOSURE_BATCH_MAX_ITEMS_def)
  have e: "batchEndIndex pending = Suc m"
    using m(2) by (simp add: batchEndIndex_def p EXPOSURE_BATCH_MAX_ITEMS_def)
  have br: "batch = x # take m xs" "rest = drop m xs" using assms(2) e by (auto simp: takeBatch_def p)
  show "batch \<noteq> []" "batch @ rest = pending" "length batch \<le> EXPOSURE_BATCH_MAX_ITEMS"
    using br p m(3) by auto
  show "length batch = 1 \<or> pendingBodyBytes batch + 2 \<le> EXPOSURE_BATCH_MAX_BODY_BYTES"
    using m(1,4) by (auto simp: br pendingBodyBytes_sum)
  assume "rest \<noteq> []"
  then have lt: "m < length xs" by (simp add: br)
  have "batch @ [hd rest] = x # take (Suc m) xs"
    using lt by (simp add: br hd_drop_conv_nth take_Suc_conv_app_nth)
  then show "length batch = EXPOSURE_BATCH_MAX_ITEMS
      \<or> EXPOSURE_BATCH_MAX_BODY_BYTES < pendingBodyBytes (batch @ [hd rest]) + 2"
    using m(1,3,5) lt by (auto simp: br pendingBodyBytes_sum)
qed

section \<open>The timer, the retry bound and the batch in flight\<close>

definition retry_ok :: "exposure_queue \<Rightarrow> bool" where
  "retry_ok q \<longleftrightarrow> (q_stopped q \<or> q_attempts q < MAX_DELIVERY_ATTEMPTS)"

definition timer_ok :: "exposure_queue \<Rightarrow> bool" where
  "timer_ok q \<longleftrightarrow> (q_timer q \<longrightarrow> \<not> q_closed q \<and> q_expired q = None \<and> \<not> q_stopped q)"

definition flight_ok :: "exposure_queue \<Rightarrow> bool" where
  "flight_ok q \<longleftrightarrow> (\<forall>a. q_active q = Some a \<longrightarrow>
     ad_batch a \<noteq> [] \<and> length (ad_batch a) \<le> EXPOSURE_BATCH_MAX_ITEMS)"

definition idle_ok :: "exposure_queue \<Rightarrow> bool" where
  "idle_ok q \<longleftrightarrow> (q_active q = None \<and> q_waiting q = [] \<and> automaticFlushAllowed q \<longrightarrow>
     q_timer q)"

definition queue_inv :: "exposure_queue \<Rightarrow> bool" where
  "queue_inv q \<longleftrightarrow> retry_ok q \<and> timer_ok q \<and> flight_ok q \<and> idle_ok q"

lemmas queue_inv_defs = queue_inv_def retry_ok_def timer_ok_def flight_ok_def idle_ok_def automaticFlushAllowed_def

lemmas page_defs = afterDrain_def ensureTimer_def ensureLifecycle_def clearTimer_def detachLifecycle_def
  automaticFlushAllowed_def settle_def log_line_def

lemma inv_finish: "retry_ok q \<Longrightarrow> queue_inv (finish_drain c r q)"
  by (auto simp: queue_inv_defs finish_drain_def page_defs)

lemma inv_settle:
  "retry_ok q \<Longrightarrow> timer_ok q \<Longrightarrow> flight_ok q \<Longrightarrow> \<not> automaticFlushAllowed q \<Longrightarrow> queue_inv (settle c r q)"
  by (auto simp: queue_inv_defs settle_def)

lemma inv_loop:
  assumes "retry_ok q" "timer_ok q"
  shows "queue_inv (drain_loop c n rows q)"
proof (cases "q_pending q = [] \<or> q_batchLimit q \<le> n")
  case True
  have "retry_ok (log_line l q)" for l using assms(1) by (simp add: retry_ok_def log_line_def)
  with True assms(1) show ?thesis by (auto simp: drain_loop_def intro: inv_finish)
next
  case False
  obtain batch rest where t: "takeBatch (q_pending q) = (batch, rest)" by (cases "takeBatch (q_pending q)")
  have "batch \<noteq> []" "length batch \<le> EXPOSURE_BATCH_MAX_ITEMS" using takeBatch_facts[OF _ t] False by auto
  with False t assms show ?thesis by (auto simp: drain_loop_def queue_inv_defs)
qed

lemma inv_start:
  assumes "retry_ok q" "timer_ok q" "flight_ok q"
  shows "queue_inv (start_drain c q)"
  using assms by (auto simp: start_drain_def automaticFlushAllowed_def intro: inv_loop inv_settle split: option.splits)

lemma inv_enqueueDrain:
  assumes "retry_ok q" "timer_ok q" "flight_ok q"
  shows "queue_inv (enqueueDrain c q)"
proof (cases "q_expired q = None \<and> q_active q \<noteq> None")
  case True
  with assms show ?thesis by (auto simp: enqueueDrain_def queue_inv_defs)
next
  case False
  with assms inv_start[OF assms] show ?thesis
    by (auto simp: enqueueDrain_def automaticFlushAllowed_def intro: inv_settle split: option.splits)
qed

lemma recordFailure_ok: "retry_ok q \<Longrightarrow> retry_ok (snd (recordFailure r q))"
  by (auto simp: retry_ok_def recordFailure_def Let_def log_line_def)

text \<open>What a response can do to the fields the page timer depends on.\<close>

lemma redeem_ok:
  assumes "redeemPendingExposureBatch batch result q = (r, q')" "retry_ok q" "timer_ok q"
  shows "retry_ok q'"
    and "r = Inr (rows, kept) \<Longrightarrow> kept \<Longrightarrow> timer_ok q' \<or> q_stopped q'"
    and "r = Inr (rows, False) \<Longrightarrow> timer_ok q'"
  using assms
  by (auto simp: redeemPendingExposureBatch_def requireLiveEnvironment_def remediationForFailure_def
      recordFailure_def recordSuccess_def overflow_retain_def log_rejected_def log_line_def queue_expire_def
      clearTimer_def detachLifecycle_def retry_ok_def timer_ok_def Let_def MAX_DELIVERY_ATTEMPTS_def
      split: option.splits sum.splits if_splits)

lemma inv_respond:
  assumes "queue_inv q"
  shows "queue_inv (drain_respond response q)"
proof (cases "q_active q")
  case None
  with assms show ?thesis by (simp add: drain_respond_def)
next
  case (Some a)
  have ok: "retry_ok q" "timer_ok q" using assms by (auto simp: queue_inv_def)
  obtain r q' where r: "redeemPendingExposureBatch (ad_batch a) (redeemExposureBatch response) q = (r, q')"
    by (cases "redeemPendingExposureBatch (ad_batch a) (redeemExposureBatch response) q")
  note redeemed = redeem_ok[OF r ok]
  show ?thesis
  proof (cases r)
    case (Inl e)
    then show ?thesis using Some r redeemed(1) by (simp add: drain_respond_def inv_finish)
  next
    case (Inr p)
    obtain rows kept where p: "p = (rows, kept)" by (cases p)
    have "timer_ok q'" if "\<not> (kept \<and> (\<not> q_closed q' \<or> q_stopped q'))"
      using redeemed(2,3)[of rows] that Inr p by (cases kept) auto
    then show ?thesis
      using Some r Inr p redeemed(1) by (auto simp: drain_respond_def Let_def intro: inv_finish inv_loop)
  qed
qed

lemma queue_inv_cong:
  "\<lbrakk>q_stopped q' = q_stopped q; q_attempts q' = q_attempts q; q_timer q' = q_timer q; q_closed q' = q_closed q;
    q_expired q' = q_expired q; q_active q' = q_active q; q_waiting q' = q_waiting q;
    (q_pending q' = []) = (q_pending q = [])\<rbrakk> \<Longrightarrow> queue_inv q' = queue_inv q"
  unfolding queue_inv_defs by (simp only:)

lemma inv_log: "queue_inv q \<Longrightarrow> queue_inv (log_line l q)"
  by (subst queue_inv_cong[of _ q]) (simp_all add: log_line_def)

lemma inv_enqueue:
  assumes "queue_inv q"
  shows "queue_inv (queue_enqueue f t u stamp q)"
proof -
  let ?q = "q\<lparr>q_flags := insert f (q_flags q), q_pending := q_pending q @ [new_item f t (nullish u []) stamp]\<rparr>"
  let ?a = "ensureTimer (ensureLifecycle ?q)"
  have parts: "retry_ok q" "timer_ok q" "flight_ok q" using assms by (auto simp: queue_inv_def)
  have 1: "retry_ok ?a" using parts(1) by (auto simp: retry_ok_def page_defs)
  have 2: "timer_ok ?a" using parts(2) by (auto simp: timer_ok_def page_defs)
  have 3: "flight_ok ?a" using parts(3) by (auto simp: flight_ok_def page_defs)
  have 4: "idle_ok ?a" by (auto simp: idle_ok_def page_defs)
  have "queue_inv (enqueueDrain c ?a)" for c by (rule inv_enqueueDrain[OF 1 2 3])
  moreover have "queue_inv ?a" using 1 2 3 4 by (simp add: queue_inv_def)
  ultimately show ?thesis using assms by (simp add: queue_enqueue_def admitExposure_def Let_def inv_log)
qed

lemma inv_trim: "queue_inv q \<Longrightarrow> queue_inv (trimFailedOverflow q)"
  by (subst queue_inv_cong[of _ q])
    (simp_all add: trimFailedOverflow_def Let_def log_line_def EXPOSURE_BATCH_MAX_ITEMS_def)

lemma inv_continue: "queue_inv q \<Longrightarrow> queue_inv (caller_continues q)"
proof -
  assume inv: "queue_inv q"
  have 1: "queue_inv (q\<lparr>q_rests := rs\<rparr>)" for rs
    using inv by (subst queue_inv_cong[of _ q]) simp_all
  have 2: "queue_inv (detachLifecycle (q\<lparr>q_rests := rs\<rparr>))" for rs
    using inv by (subst queue_inv_cong[of _ q]) (simp_all add: detachLifecycle_def)
  show ?thesis
    using 1 2 inv_trim[OF 1] inv
    by (simp add: caller_continues_def Let_def split: list.split prod.split drain_rest.split)
qed

lemma inv_expire: "queue_inv q \<Longrightarrow> queue_inv (queue_expire e q)"
proof -
  let ?q = "queue_expire e q"
  assume "queue_inv q"
  then have "retry_ok ?q" "flight_ok ?q"
    by (simp_all add: queue_inv_def retry_ok_def flight_ok_def queue_expire_def page_defs)
  moreover have "timer_ok ?q" "idle_ok ?q" by (simp_all add: timer_ok_def idle_ok_def queue_expire_def page_defs)
  ultimately show ?thesis by (simp add: queue_inv_def)
qed

lemma inv_close: "queue_inv q \<Longrightarrow> queue_inv (queue_close q)"
proof -
  assume inv: "queue_inv q"
  let ?q = "clearTimer (q\<lparr>q_closed := True\<rparr>)"
  have "retry_ok ?q" "timer_ok ?q" "flight_ok ?q"
    using inv by (simp_all add: queue_inv_def retry_ok_def timer_ok_def flight_ok_def clearTimer_def)
  then have "queue_inv (enqueueDrain c ?q)" for c by (rule inv_enqueueDrain)
  with inv show ?thesis by (simp add: queue_close_def)
qed

lemma inv_timer: "queue_inv q \<Longrightarrow> queue_inv (timer_fires q)"
proof -
  assume inv: "queue_inv q"
  let ?q = "q\<lparr>q_timer := False\<rparr>"
  have "retry_ok ?q" "timer_ok ?q" "flight_ok ?q"
    using inv by (simp_all add: queue_inv_def retry_ok_def timer_ok_def flight_ok_def)
  then have "queue_inv (enqueueDrain c ?q)" for c by (rule inv_enqueueDrain)
  with inv show ?thesis by (simp add: timer_fires_def flushBestEffort_def)
qed

lemma inv_wake: "queue_inv q \<Longrightarrow> queue_inv (wake_waiter q)"
proof -
  assume inv: "queue_inv q"
  have "retry_ok (q\<lparr>q_waiting := cs\<rparr>)" "timer_ok (q\<lparr>q_waiting := cs\<rparr>)" "flight_ok (q\<lparr>q_waiting := cs\<rparr>)" for cs
    using inv by (simp_all add: queue_inv_def retry_ok_def timer_ok_def flight_ok_def)
  then have "queue_inv (start_drain c (q\<lparr>q_waiting := cs\<rparr>))" for c cs by (rule inv_start)
  with inv show ?thesis by (simp add: wake_waiter_def split: option.split list.split)
qed

lemma inv_rearm: "queue_inv q \<Longrightarrow> queue_inv (rearmExposureFlags fs q)"
  by (subst queue_inv_cong[of _ q]) (simp_all add: rearmExposureFlags_def)

lemma inv_apply_queue: "queue_inv q \<Longrightarrow> queue_inv (apply_queue op q)"
proof (cases op)
  assume inv: "queue_inv q"
  then have parts: "retry_ok q" "timer_ok q" "flight_ok q" by (auto simp: queue_inv_def)
  note inv_enqueueDrain[OF parts]
  then show ?thesis if "op = Flush" using that by (simp add: queue_flush_def)
  show ?thesis if "op = PageHides" using that inv inv_enqueueDrain[OF parts] by (simp add: page_hides_def flushBestEffort_def)
qed (simp_all add: inv_enqueue inv_rearm inv_expire inv_close inv_timer inv_respond inv_wake inv_continue)

inductive queue_step :: "exposure_queue \<Rightarrow> exposure_queue \<Rightarrow> bool" where
  op: "queue_step q (apply_queue op q)"

interpretation queue: machine queue_step queue_inv
  by unfold_locales (auto elim!: queue_step.cases intro: inv_apply_queue)

lemma inv_new_queue: "queue_inv (newExposureQueue targets limit)"
  by (simp add: queue_inv_defs newExposureQueue_def MAX_DELIVERY_ATTEMPTS_def)

lemma queue_run: "reaches queue_step q (fold apply_queue ops q)"
proof (induction ops rule: rev_induct)
  case (snoc op ops)
  then show ?case by (auto intro: reaches.there queue_step.op)
qed (simp add: reaches.here)

lemma inv_run: "queue_inv (fold apply_queue ops (newExposureQueue targets limit))"
  by (rule queue.inv_reaches[OF queue_run inv_new_queue])

section \<open>Where a redemption can be\<close>

definition held :: "exposure_queue \<Rightarrow> queued_exposure \<Rightarrow> bool" where
  "held q x \<longleftrightarrow> x \<in> set (q_pending q) \<or> (\<exists>a. q_active q = Some a \<and> x \<in> set (ad_batch a))"

definition dropped_loudly :: "exposure_queue \<Rightarrow> queued_exposure \<Rightarrow> bool" where
  "dropped_loudly q x \<longleftrightarrow> (\<exists>ids. LogOverflow ids \<in> set (q_log q) \<and> qe_exposureId x \<in> set ids)"

definition settled_by :: "queue_op \<Rightarrow> queued_exposure \<Rightarrow> bool" where
  "settled_by op x \<longleftrightarrow> (\<exists>r rows. op = Respond (Some r) \<and> xr_results r = Some rows \<and> keeps_item rows x = Inr False)"

definition safe :: "exposure_queue \<Rightarrow> queued_exposure \<Rightarrow> bool" where
  "safe q x \<longleftrightarrow> held q x \<or> dropped_loudly q x \<or> q_expired q \<noteq> None"

lemmas safe_defs = safe_def held_def dropped_loudly_def

lemma pages_same [simp]:
  "q_pending (afterDrain q) = q_pending q" "q_log (afterDrain q) = q_log q" "q_expired (afterDrain q) = q_expired q"
  "q_pending (ensureTimer q) = q_pending q" "q_log (ensureTimer q) = q_log q" "q_expired (ensureTimer q) = q_expired q"
  "q_active (ensureTimer q) = q_active q" "q_active (ensureLifecycle q) = q_active q"
  "q_pending (ensureLifecycle q) = q_pending q" "q_log (ensureLifecycle q) = q_log q"
  "q_expired (ensureLifecycle q) = q_expired q"
  by (simp_all add: page_defs)

lemma safe_settle [simp]: "safe (settle c r q) x = safe q x"
  by (simp add: settle_def safe_defs)

lemma safe_log: "safe q x \<Longrightarrow> safe (log_line l q) x"
  by (auto simp: log_line_def safe_defs)

text \<open>Once its batch has been put back or settled, the end of a drain and a new batch lose nothing.\<close>

definition safe_pending :: "exposure_queue \<Rightarrow> queued_exposure \<Rightarrow> bool" where
  "safe_pending q x \<longleftrightarrow> x \<in> set (q_pending q) \<or> dropped_loudly q x \<or> q_expired q \<noteq> None"

lemma safe_finish: "safe_pending q x \<Longrightarrow> safe (finish_drain c r q) x"
  by (auto simp: finish_drain_def settle_def safe_pending_def safe_defs)

lemma safe_loop: "safe_pending q x \<Longrightarrow> safe (drain_loop c n rows q) x"
proof (cases "q_pending q = [] \<or> q_batchLimit q \<le> n")
  case True
  assume "safe_pending q x"
  moreover from this have "safe_pending (log_line l q) x" for l
    by (auto simp: safe_pending_def log_line_def dropped_loudly_def)
  ultimately show ?thesis using True by (auto simp: drain_loop_def intro: safe_finish)
next
  case False
  assume x: "safe_pending q x"
  obtain batch rest where t: "takeBatch (q_pending q) = (batch, rest)" by (cases "takeBatch (q_pending q)")
  have "set (q_pending q) = set batch \<union> set rest" using takeBatch_facts(2)[OF _ t] False by (metis set_append)
  with x False t show ?thesis by (auto simp: drain_loop_def safe_pending_def safe_defs)
qed

lemma safe_start: "q_active q = None \<Longrightarrow> safe q x \<Longrightarrow> safe (start_drain c q) x"
  by (auto simp: start_drain_def intro!: safe_loop split: option.split)
    (auto simp: safe_pending_def safe_defs)

lemma safe_enqueueDrain: "safe q x \<Longrightarrow> safe (enqueueDrain c q) x"
proof -
  assume x: "safe q x"
  have "safe (q\<lparr>q_waiting := cs\<rparr>) x" for cs using x by (simp add: safe_defs)
  with x show ?thesis by (auto simp: enqueueDrain_def intro: safe_start split: option.split)
qed

text \<open>What a batch keeps is what its rows do not settle.\<close>

lemma retain_filter:
  "retainRetryableExposures xs rows = Inr ys \<Longrightarrow>
     ys = filter (\<lambda>x. keeps_item rows x = Inr True) xs \<and> (\<forall>x\<in>set xs. \<exists>b. keeps_item rows x = Inr b)"
  by (induction xs arbitrary: ys) (auto simp: ebind_eq_Inr)

lemma recordFailure_same [simp]:
  "q_pending (snd (recordFailure r q)) = q_pending q" "q_expired (snd (recordFailure r q)) = q_expired q"
  "dropped_loudly q x \<Longrightarrow> dropped_loudly (snd (recordFailure r q)) x"
  by (auto simp: recordFailure_def Let_def log_line_def dropped_loudly_def)

lemma redeem_keeps:
  assumes "redeemPendingExposureBatch batch result q = (r, q')" "q_active q = Some a" "ad_batch a = batch"
    and "safe q x" "\<not> (\<exists>rows. xr_results result = Some rows \<and> keeps_item rows x = Inr False)"
  shows "safe_pending q' x"
proof -
  have x: "x \<in> set (q_pending q) \<or> x \<in> set batch \<or> dropped_loudly q x \<or> q_expired q \<noteq> None"
    using assms(2-4) by (auto simp: safe_defs)
  have log: "dropped_loudly q x \<Longrightarrow> dropped_loudly (log_rejected rs q) x" for rs
    by (auto simp: dropped_loudly_def log_rejected_def)
  have kept: "x \<in> set (bo_retained bo)"
    if "applyExposureBatchResults batch rows = Inr bo" "xr_results result = Some rows" "x \<in> set batch" for rows bo
    using that assms(5) by (auto simp: applyExposureBatchResults_def ebind_eq_Inr Let_def dest!: retain_filter)
  obtain live q0 where live: "requireLiveEnvironment result (length batch) q = (live, q0)"
    by (cases "requireLiveEnvironment result (length batch) q")
  show ?thesis
  proof (cases live)
    case (Inl e)
    then have "q' = q0" using assms(1) live by (simp add: redeemPendingExposureBatch_def)
    moreover have "q_expired q0 \<noteq> None"
      using live Inl by (auto simp: requireLiveEnvironment_def queue_expire_def page_defs split: option.splits if_splits)
    ultimately show ?thesis by (simp add: safe_pending_def)
  next
    case (Inr u)
    then have q0: "q0 = q" using live by (auto simp: requireLiveEnvironment_def split: option.splits if_splits)
    have again: "safe_pending (overflow_retain batch q) x"
      using x by (auto simp: safe_pending_def overflow_retain_def dropped_loudly_def)
    have step: "safe_pending q1 x \<Longrightarrow> safe_pending (log_line l q1) x"
      "safe_pending q1 x \<Longrightarrow> safe_pending (snd (recordFailure result q1)) x"
      "safe_pending q1 x \<Longrightarrow> safe_pending (remediationForFailure result q1) x"
      "safe_pending q1 x \<Longrightarrow> safe_pending (recordSuccess q1) x" for l q1
      by (auto simp: safe_pending_def log_line_def dropped_loudly_def remediationForFailure_def recordFailure_def
          recordSuccess_def Let_def)
    show ?thesis
    proof (cases "xr_results result")
      case None
      then show ?thesis using assms(1) live Inr q0 step again
        by (auto simp: redeemPendingExposureBatch_def Let_def)
    next
      case (Some rows)
      show ?thesis
      proof (cases "applyExposureBatchResults batch rows")
        case (Inl e)
        then show ?thesis using assms(1) live Inr q0 step again Some
          by (auto simp: redeemPendingExposureBatch_def Let_def)
      next
        case (Inr bo)
        let ?q1 = "log_rejected (bo_rejected bo) q"
        let ?q2 = "if bo_retained bo = [] then ?q1 else overflow_retain (bo_retained bo) ?q1"
        have "safe_pending ?q2 x"
          using x kept[OF Inr Some] log
          by (auto simp: safe_pending_def overflow_retain_def log_rejected_def dropped_loudly_def)
        then show ?thesis using assms(1) live \<open>live = Inr u\<close> q0 step Some Inr
          by (auto simp: redeemPendingExposureBatch_def Let_def split: if_splits)
      qed
    qed
  qed
qed

lemma safe_respond:
  assumes "safe q x" "\<not> settled_by (Respond response) x"
  shows "safe (drain_respond response q) x"
proof (cases "q_active q")
  case None
  with assms show ?thesis by (simp add: drain_respond_def)
next
  case (Some a)
  obtain r q' where r: "redeemPendingExposureBatch (ad_batch a) (redeemExposureBatch response) q = (r, q')"
    by (cases "redeemPendingExposureBatch (ad_batch a) (redeemExposureBatch response) q")
  have "\<not> (\<exists>rows. xr_results (redeemExposureBatch response) = Some rows \<and> keeps_item rows x = Inr False)"
    using assms(2) by (auto simp: settled_by_def redeemExposureBatch_def split: option.splits)
  from redeem_keeps[OF r Some refl assms(1) this] have "safe_pending q' x" .
  then show ?thesis using Some r
    by (auto simp: drain_respond_def Let_def intro: safe_finish safe_loop split: sum.split)
qed

lemma safe_trim: "safe q x \<Longrightarrow> safe (trimFailedOverflow q) x"
proof -
  assume x: "safe q x"
  have split: "x \<in> set (q_pending q) \<Longrightarrow>
      x \<in> set (take n (q_pending q)) \<or> x \<in> set (drop n (q_pending q))" for n
    by (metis Un_iff append_take_drop_id set_append)
  show ?thesis
  proof (cases "x \<in> set (drop EXPOSURE_BATCH_MAX_ITEMS (q_pending q))")
    case True
    then have "drop EXPOSURE_BATCH_MAX_ITEMS (q_pending q) \<noteq> []" by auto
    then have "q_log (trimFailedOverflow q) =
        q_log q @ [LogOverflow (map qe_exposureId (drop EXPOSURE_BATCH_MAX_ITEMS (q_pending q)))]"
      by (simp only: trimFailedOverflow_def Let_def log_line_def if_False) simp
    with True have "dropped_loudly (trimFailedOverflow q) x"
      unfolding dropped_loudly_def
      by (intro exI[of _ "map qe_exposureId (drop EXPOSURE_BATCH_MAX_ITEMS (q_pending q))"]) simp
    then show ?thesis by (simp add: safe_def)
  next
    case False
    with x split[of EXPOSURE_BATCH_MAX_ITEMS] show ?thesis
      by (auto simp: trimFailedOverflow_def Let_def log_line_def safe_defs)
  qed
qed

lemma safe_continue: "safe q x \<Longrightarrow> safe (caller_continues q) x"
proof -
  assume x: "safe q x"
  have 1: "safe (q\<lparr>q_rests := rs\<rparr>) x" for rs using x by (simp add: safe_defs)
  then have "safe (detachLifecycle (q\<lparr>q_rests := rs\<rparr>)) x" for rs by (simp add: detachLifecycle_def safe_defs)
  with x 1 safe_trim[OF 1] show ?thesis
    by (simp add: caller_continues_def Let_def split: list.split prod.split drain_rest.split)
qed

lemma safe_enqueue: "safe q x \<Longrightarrow> safe (queue_enqueue f t u stamp q) x"
proof -
  assume x: "safe q x"
  let ?q = "q\<lparr>q_flags := insert f (q_flags q), q_pending := q_pending q @ [new_item f t (nullish u []) stamp]\<rparr>"
  have "safe ?q x" using x by (auto simp: safe_defs)
  then have "safe (ensureTimer (ensureLifecycle ?q)) x" by (simp add: safe_defs)
  with x safe_enqueueDrain safe_log show ?thesis
    by (simp add: queue_enqueue_def admitExposure_def Let_def)
qed

lemma safe_apply: "safe q x \<Longrightarrow> \<not> settled_by op x \<Longrightarrow> safe (apply_queue op q) x"
proof (cases op)
  assume x: "safe q x" "\<not> settled_by op x"
  have upd: "safe (clearTimer (q\<lparr>q_closed := True\<rparr>)) x" "safe (q\<lparr>q_timer := False\<rparr>) x" "safe (q\<lparr>q_waiting := cs\<rparr>) x"
    "safe (rearmExposureFlags fs q) x" for cs fs
    using x(1) by (simp_all add: safe_defs clearTimer_def rearmExposureFlags_def)
  show ?thesis if "op = Rearm fs" for fs using that upd by simp
  show ?thesis if "op = Expire e" for e using that by (simp add: safe_def queue_expire_def page_defs)
  show ?thesis if "op = Flush" using that x safe_enqueueDrain by (simp add: queue_flush_def)
  show ?thesis if "op = CloseQueue" using that x safe_enqueueDrain[OF upd(1)] by (simp add: queue_close_def)
  show ?thesis if "op = TimerFires"
    using that x safe_enqueueDrain[OF upd(2)] by (simp add: timer_fires_def flushBestEffort_def)
  show ?thesis if "op = PageHides" using that x safe_enqueueDrain by (simp add: page_hides_def flushBestEffort_def)
  show ?thesis if "op = Wake"
    using that x safe_start[OF _ upd(3)] by (auto simp: wake_waiter_def split: option.split list.split)
  show ?thesis if "op = Respond r" for r using that x safe_respond by simp
qed (simp_all add: safe_enqueue safe_continue)

lemma safe_history:
  "safe q x \<Longrightarrow> \<forall>op\<in>set ops. \<not> settled_by op x \<Longrightarrow> safe (fold apply_queue ops q) x"
  by (induction ops arbitrary: q) (auto simp: safe_apply)

lemma enqueued_is_safe:
  assumes "\<not> q_closed q" "f \<notin> q_flags q"
  shows "safe (queue_enqueue f t (Some u) stamp q) (new_item f t u stamp)"
proof -
  let ?q = "q\<lparr>q_flags := insert f (q_flags q), q_pending := q_pending q @ [new_item f t u stamp]\<rparr>"
  have "safe (ensureTimer (ensureLifecycle ?q)) (new_item f t u stamp)" by (simp add: safe_defs)
  with assms safe_enqueueDrain show ?thesis by (simp add: queue_enqueue_def admitExposure_def Let_def)
qed

section \<open>Properties\<close>

text \<open>
  C32: an admitted redemption is never lost silently. After it is enqueued, and whatever
  enqueues, flushes, closes, timers, page events, responses and wake-ups follow in any
  order, it is queued or in flight with the same exposure id, or a response settled it
  (accepted, deduplicated, suppressed, or rejected with a code that is not retryable), or an
  overflow named it in the log, or the Environment expired.
\<close>

theorem redemption_never_lost:
  assumes "\<not> q_closed q" "flagKey \<notin> q_flags q"
    and "q' = fold apply_queue ops (apply_queue (Enqueue flagKey ticket (Some uuid) stamp) q)"
    and "x = new_item flagKey ticket uuid stamp"
  shows "x \<in> set (q_pending q') \<or> (\<exists>a. q_active q' = Some a \<and> x \<in> set (ad_batch a))
    \<or> (\<exists>r rows. Respond (Some r) \<in> set ops \<and> xr_results r = Some rows \<and> keeps_item rows x = Inr False)
    \<or> (\<exists>ids. LogOverflow ids \<in> set (q_log q') \<and> uuid \<in> set ids)
    \<or> q_expired q' \<noteq> None"
proof (cases "\<forall>op\<in>set ops. \<not> settled_by op x")
  case True
  have "safe q' x" using safe_history[OF _ True] enqueued_is_safe[OF assms(1,2)] assms(3,4) by simp
  then show ?thesis by (auto simp: safe_defs assms(4) new_item_def)
next
  case False
  then show ?thesis by (auto simp: settled_by_def)
qed

lemma redemption_never_lost_witness:
  "let q' = fold apply_queue [Flush, Respond None, TimerFires]
      (apply_queue (Enqueue ''f'' ''t'' (Some ''id-1'') ''n'') (newExposureQueue True None))
   in new_item ''f'' ''t'' ''id-1'' ''n'' \<in> set (q_pending q')
    \<or> (\<exists>a. q_active q' = Some a \<and> new_item ''f'' ''t'' ''id-1'' ''n'' \<in> set (ad_batch a))
    \<or> (\<exists>ids. LogOverflow ids \<in> set (q_log q') \<and> ''id-1'' \<in> set ids) \<or> q_expired q' \<noteq> None"
proof -
  define q' where "q' = fold apply_queue [Flush, Respond None, TimerFires]
    (apply_queue (Enqueue ''f'' ''t'' (Some ''id-1'') ''n'') (newExposureQueue True None))"
  have 1: "\<not> q_closed (newExposureQueue True None)" "''f'' \<notin> q_flags (newExposureQueue True None)"
    by (simp_all add: newExposureQueue_def)
  have "new_item ''f'' ''t'' ''id-1'' ''n'' \<in> set (q_pending q')
    \<or> (\<exists>a. q_active q' = Some a \<and> new_item ''f'' ''t'' ''id-1'' ''n'' \<in> set (ad_batch a))
    \<or> (\<exists>ids. LogOverflow ids \<in> set (q_log q') \<and> ''id-1'' \<in> set ids) \<or> q_expired q' \<noteq> None"
    using redemption_never_lost[OF 1 q'_def refl] by simp
  then show ?thesis unfolding q'_def Let_def .
qed

text \<open>
  batches respect both caps and the order. A batch is a non-empty prefix of the queue
  of at most 25 items whose body stays within 32 KiB unless it is one item alone, it is cut
  only where the next item would not fit, and what is left keeps its order.
\<close>

theorem batch_within_caps:
  assumes "pending \<noteq> []" "takeBatch pending = (batch, rest)"
  shows "batch \<noteq> [] \<and> batch @ rest = pending \<and> length batch \<le> EXPOSURE_BATCH_MAX_ITEMS
    \<and> (length batch = 1 \<or> pendingBodyBytes batch \<le> EXPOSURE_BATCH_MAX_BODY_BYTES)
    \<and> (rest \<noteq> [] \<longrightarrow> length batch = EXPOSURE_BATCH_MAX_ITEMS
        \<or> EXPOSURE_BATCH_MAX_BODY_BYTES < pendingBodyBytes (batch @ [hd rest]) + 2)"
  using takeBatch_facts[OF assms] by auto

lemma batch_within_caps_witness:
  "takeBatch [new_item ''f'' ''t'' ''u'' ''n''] = ([new_item ''f'' ''t'' ''u'' ''n''], [])
    \<and> length [new_item ''f'' ''t'' ''u'' ''n''] \<le> EXPOSURE_BATCH_MAX_ITEMS"
proof -
  have "takeBatch [new_item ''f'' ''t'' ''u'' ''n''] = ([new_item ''f'' ''t'' ''u'' ''n''], [])"
    by (simp add: takeBatch_def batchEndIndex_def EXPOSURE_BATCH_MAX_ITEMS_def)
  with batch_within_caps[OF _ this] show ?thesis by simp
qed



end
