(* ===== verification/Admission.thy ===== *)
theory Admission
  imports Json
begin

text \<open>
  The Ingest Admission Gate of the event ingest API: one pair of token buckets per scope,
  kept by a Durable Object, \<open>apps/event-ingest-api/src/ingest-admission*.ts\<close>. Token counts
  are rationals and every operation on them that may be inexact is rounded by \<open>fl\<close>; the
  differences of two times in milliseconds are exact. A Durable Object handles one request
  in one storage transaction, so a charge is one step on the state of its scope.
\<close>

section \<open>Budgets\<close>

datatype ingest_stream = RawEvaluations | RawEvents | MetricEvents | WebEvents

fun stream_name :: "ingest_stream \<Rightarrow> string" where
  "stream_name RawEvaluations = ''raw_evaluations''"
| "stream_name RawEvents = ''raw_events''"
| "stream_name MetricEvents = ''metric_events''"
| "stream_name WebEvents = ''web_events''"

record admission_budget =
  rowsPerSecond :: rat
  rowBurstCapacity :: rat
  bytesPerSecond :: rat
  byteBurstCapacity :: rat

fun INGEST_ADMISSION_LAUNCH_PROFILE :: "ingest_stream \<Rightarrow> admission_budget" where
  "INGEST_ADMISSION_LAUNCH_PROFILE RawEvaluations =
     \<lparr>rowsPerSecond = 250, rowBurstCapacity = 2500, bytesPerSecond = 262144, byteBurstCapacity = 2621440\<rparr>"
| "INGEST_ADMISSION_LAUNCH_PROFILE RawEvents =
     \<lparr>rowsPerSecond = 300, rowBurstCapacity = 3000, bytesPerSecond = 524288, byteBurstCapacity = 5242880\<rparr>"
| "INGEST_ADMISSION_LAUNCH_PROFILE MetricEvents =
     \<lparr>rowsPerSecond = 100, rowBurstCapacity = 1000, bytesPerSecond = 524288, byteBurstCapacity = 5242880\<rparr>"
| "INGEST_ADMISSION_LAUNCH_PROFILE WebEvents =
     \<lparr>rowsPerSecond = 500, rowBurstCapacity = 5000, bytesPerSecond = 1048576, byteBurstCapacity = 10485760\<rparr>"

definition complete_budget :: "admission_budget \<Rightarrow> bool" where
  "complete_budget b \<longleftrightarrow> 0 < rowsPerSecond b \<and> 0 < rowBurstCapacity b \<and> 0 < bytesPerSecond b \<and> 0 < byteBurstCapacity b"

datatype admission_error = NoBudget ingest_stream | NoBinding | GateUnreachable | GateHttp nat | InvalidDecision

definition ingestAdmissionBudget :: "ingest_stream \<Rightarrow> admission_error + admission_budget" where
  "ingestAdmissionBudget stream = (let budget = INGEST_ADMISSION_LAUNCH_PROFILE stream in
     if complete_budget budget then Inr budget else Inl (NoBudget stream))"

definition ingestAdmissionScopeName :: "string \<Rightarrow> string \<Rightarrow> ingest_stream \<Rightarrow> string" where
  "ingestAdmissionScopeName appId environmentId stream =
     ''['' @ join '','' [json_string appId, json_string environmentId, json_string (stream_name stream)] @ '']''"

section \<open>The buckets\<close>

record admission_cost =
  rowCost :: rat
  byteCost :: rat

record admission_decision =
  allowed :: bool
  retryAfterMs :: rat

record bucket_state =
  rowTokens :: rat
  byteTokens :: rat
  updatedAt :: ms

definition initialBuckets :: "ms \<Rightarrow> admission_budget \<Rightarrow> bucket_state" where
  "initialBuckets now b = \<lparr>rowTokens = rowBurstCapacity b, byteTokens = byteBurstCapacity b, updatedAt = now\<rparr>"

definition refill :: "rat \<Rightarrow> rat \<Rightarrow> rat \<Rightarrow> ms \<Rightarrow> rat" where
  "refill tokens capacity rate elapsedMs = min capacity (fl (tokens + fl (fl (of_int elapsedMs * rate) / 1000)))"

definition refillBuckets :: "bucket_state option \<Rightarrow> ms \<Rightarrow> admission_budget \<Rightarrow> bucket_state" where
  "refillBuckets state now b = (case state of
     None \<Rightarrow> initialBuckets now b
   | Some s \<Rightarrow> let elapsedMs = max 0 (now - updatedAt s) in
       \<lparr>rowTokens = refill (rowTokens s) (rowBurstCapacity b) (rowsPerSecond b) elapsedMs,
        byteTokens = refill (byteTokens s) (byteBurstCapacity b) (bytesPerSecond b) elapsedMs,
        updatedAt = now\<rparr>)"

definition waitMs :: "rat \<Rightarrow> rat \<Rightarrow> rat \<Rightarrow> rat" where
  "waitMs tokens cost rate =
     (if cost \<le> tokens then 0 else if rate \<le> 0 then 1000
      else of_int \<lceil>fl (fl (fl (cost - tokens) / rate) * 1000)\<rceil>)"

definition evaluateAdmission :: "bucket_state option \<Rightarrow> ms \<Rightarrow> admission_budget \<Rightarrow> admission_cost
    \<Rightarrow> admission_decision \<times> bucket_state" where
  "evaluateAdmission state now b c =
     (let refilled = refillBuckets state now b in
      if rowCost c = 0 \<and> byteCost c = 0 then (\<lparr>allowed = True, retryAfterMs = 0\<rparr>, refilled)
      else if rowCost c \<le> rowTokens refilled \<and> byteCost c \<le> byteTokens refilled
      then (\<lparr>allowed = True, retryAfterMs = 0\<rparr>,
            \<lparr>rowTokens = fl (rowTokens refilled - rowCost c), byteTokens = fl (byteTokens refilled - byteCost c),
             updatedAt = updatedAt refilled\<rparr>)
      else (\<lparr>allowed = False, retryAfterMs = max (waitMs (rowTokens refilled) (rowCost c) (rowsPerSecond b))
              (waitMs (byteTokens refilled) (byteCost c) (bytesPerSecond b))\<rparr>,
            nullish state (initialBuckets now b)))"

definition shouldPersist :: "bucket_state option \<Rightarrow> bucket_state \<Rightarrow> admission_cost \<Rightarrow> bool" where
  "shouldPersist current next c \<longleftrightarrow> \<not> (rowCost c = 0 \<and> byteCost c = 0) \<and> current \<noteq> Some next"

text \<open>The transaction of the Durable Object.\<close>

definition gate_charge :: "admission_budget \<Rightarrow> ms \<Rightarrow> admission_cost \<Rightarrow> bucket_state option
    \<Rightarrow> admission_decision \<times> bucket_state option" where
  "gate_charge b now c current =
     (let (decision, next) = evaluateAdmission current now b c in
      (decision, if allowed decision \<and> shouldPersist current next c then Some next else current))"

section \<open>The wire between the Worker and the gate\<close>

fun is_positive :: "jsval \<Rightarrow> bool" where
  "is_positive (JNum (Fin q)) = (0 < q)"
| "is_positive _ = False"

fun isNonNegative :: "jsval \<Rightarrow> bool" where
  "isNonNegative (JNum (Fin q)) = (0 \<le> q)"
| "isNonNegative (JNum NegZero) = True"
| "isNonNegative _ = False"

fun num_of :: "jsval \<Rightarrow> rat" where
  "num_of (JNum (Fin q)) = q"
| "num_of _ = 0"

definition isCompleteBudget :: "jsval \<Rightarrow> bool" where
  "isCompleteBudget v \<longleftrightarrow> v \<noteq> Undefined \<and> v \<noteq> Null
     \<and> is_positive (jprop v ''rowsPerSecond'') \<and> is_positive (jprop v ''rowBurstCapacity'')
     \<and> is_positive (jprop v ''bytesPerSecond'') \<and> is_positive (jprop v ''byteBurstCapacity'')"

text \<open>\<open>None\<close> for a body that is not JSON; reading a property of \<open>null\<close> throws and is caught.\<close>

definition parseAdmissionRequest :: "jsval option \<Rightarrow> (admission_budget \<times> admission_cost) option" where
  "parseAdmissionRequest body = (case body of
     None \<Rightarrow> None
   | Some v \<Rightarrow>
       let budget = jprop v ''budget''; row = jprop v ''rowCost''; byte = jprop v ''byteCost'' in
       if \<not> isCompleteBudget budget \<or> \<not> isNonNegative row \<or> \<not> isNonNegative byte then None
       else Some (\<lparr>rowsPerSecond = num_of (jprop budget ''rowsPerSecond''),
                   rowBurstCapacity = num_of (jprop budget ''rowBurstCapacity''),
                   bytesPerSecond = num_of (jprop budget ''bytesPerSecond''),
                   byteBurstCapacity = num_of (jprop budget ''byteBurstCapacity'')\<rparr>,
                  \<lparr>rowCost = num_of row, byteCost = num_of byte\<rparr>))"

definition decision_json :: "admission_decision \<Rightarrow> jsval" where
  "decision_json d = JObj [(''allowed'', JBool (allowed d)), (''retryAfterMs'', JNum (Fin (retryAfterMs d)))]"

definition gate_fetch :: "string \<Rightarrow> jsval option \<Rightarrow> ms \<Rightarrow> bucket_state option \<Rightarrow> (nat \<times> jsval option) \<times> bucket_state option" where
  "gate_fetch method body now current =
     (if method \<noteq> ''POST'' then ((404, None), current)
      else case parseAdmissionRequest body of
          None \<Rightarrow> ((400, None), current)
        | Some (b, c) \<Rightarrow> let (decision, next) = gate_charge b now c current in
            ((200, Some (decision_json decision)), next))"

definition parseAdmissionDecision :: "jsval \<Rightarrow> admission_error + admission_decision" where
  "parseAdmissionDecision body =
     (if \<not> is_object body then Inl InvalidDecision
      else case jprop body ''allowed'' of
          JBool a \<Rightarrow>
            let r = jprop body ''retryAfterMs'' in
            if \<not> isNonNegative r \<or> a \<noteq> (num_of r = 0) then Inl InvalidDecision
            else Inr \<lparr>allowed = a, retryAfterMs = num_of r\<rparr>
        | _ \<Rightarrow> Inl InvalidDecision)"

definition budget_json :: "admission_budget \<Rightarrow> jsval" where
  "budget_json b = JObj [(''rowsPerSecond'', JNum (Fin (rowsPerSecond b))),
     (''rowBurstCapacity'', JNum (Fin (rowBurstCapacity b))), (''bytesPerSecond'', JNum (Fin (bytesPerSecond b))),
     (''byteBurstCapacity'', JNum (Fin (byteBurstCapacity b)))]"

text \<open>
  The namespace maps the name of each Durable Object to its state. \<open>None\<close> is a missing
  binding; \<open>reach\<close> is false when the call to the object throws.
\<close>

type_synonym gate_namespace = "string \<Rightarrow> bucket_state option"

definition chargeIngestAdmission :: "bool \<Rightarrow> string \<Rightarrow> string \<Rightarrow> ingest_stream \<Rightarrow> admission_cost \<Rightarrow> ms
    \<Rightarrow> gate_namespace option \<Rightarrow> (admission_error + admission_decision) \<times> gate_namespace option" where
  "chargeIngestAdmission reach appId environmentId stream c now ns = (case ns of
     None \<Rightarrow> (Inl NoBinding, ns)
   | Some gates \<Rightarrow>
     (case ingestAdmissionBudget stream of
        Inl e \<Rightarrow> (Inl e, ns)
      | Inr b \<Rightarrow>
          let name = ingestAdmissionScopeName appId environmentId stream;
              body = JObj [(''rowCost'', JNum (Fin (rowCost c))), (''byteCost'', JNum (Fin (byteCost c))),
                (''budget'', budget_json b)] in
          if \<not> reach then (Inl GateUnreachable, ns)
          else let ((status, answer), next) = gate_fetch ''POST'' (Some body) now (gates name) in
            (if status < 200 \<or> 300 \<le> status then Inl (GateHttp status)
             else case answer of None \<Rightarrow> Inl InvalidDecision | Some v \<Rightarrow> parseAdmissionDecision v,
             Some (gates(name := next)))))"

text \<open>A row is given by its JSON text.\<close>

definition queuePayloadBytes :: "string \<Rightarrow> nat" where
  "queuePayloadBytes row = length (utf8 row)"

definition ingestAdmissionCost :: "string list \<Rightarrow> admission_cost" where
  "ingestAdmissionCost rows = \<lparr>rowCost = of_nat (length rows), byteCost = of_nat (sum_list (map queuePayloadBytes rows))\<rparr>"

record rate_limited =
  rl_message :: string
  rl_retryAfterMs :: rat

definition ingestAdmissionDenial :: "bool \<Rightarrow> string \<Rightarrow> string \<Rightarrow> ingest_stream \<Rightarrow> string list \<Rightarrow> string \<Rightarrow> ms
    \<Rightarrow> gate_namespace option \<Rightarrow> rate_limited option \<times> gate_namespace option" where
  "ingestAdmissionDenial reach appId environmentId stream rows exceededMessage now ns =
     (if rows = [] then (None, ns)
      else case chargeIngestAdmission reach appId environmentId stream (ingestAdmissionCost rows) now ns of
          (Inl _, ns') \<Rightarrow> (Some \<lparr>rl_message = ''Ingest Admission Gate is unavailable'', rl_retryAfterMs = 1000\<rparr>, ns')
        | (Inr d, ns') \<Rightarrow> (if allowed d then None
            else Some \<lparr>rl_message = exceededMessage, rl_retryAfterMs = retryAfterMs d\<rparr>, ns'))"

section \<open>What one charge does to one bucket\<close>

definition eps :: rat where "eps = 1 / 2 ^ 53"

lemma eps_pos: "0 < eps" "eps \<le> 1"
  by (simp_all add: eps_def)

lemma fl_eps: "0 \<le> x \<Longrightarrow> fl x \<le> x + x * eps"
  using fl_upper[of x] by (simp add: eps_def algebra_simps)

lemma refill_nonneg:
  "0 < capacity \<Longrightarrow> 0 \<le> tokens \<Longrightarrow> 0 \<le> rate \<Longrightarrow> 0 \<le> e \<Longrightarrow> 0 \<le> refill tokens capacity rate e"
  unfolding refill_def by (simp add: add_nonneg_nonneg)

lemma refill_credit:
  assumes "0 < capacity" "0 \<le> tokens" "0 \<le> rate" "0 \<le> e"
  shows "refill tokens capacity rate e
    \<le> tokens + (1 + eps)\<^sup>2 * rate * of_int e / 1000 + 2 * capacity * eps"
proof -
  let ?r = "of_int e * rate" and ?x = "fl (fl (of_int e * rate) / 1000)"
  have r: "0 \<le> ?r" using assms by simp
  have f: "0 \<le> fl ?r / 1000" using r by simp
  have x0: "0 \<le> ?x" using f by (simp only: fl_ge_0)
  have "?x \<le> fl ?r / 1000 * (1 + eps)" using fl_eps[OF f] by (simp add: algebra_simps)
  also have "\<dots> \<le> ?r * (1 + eps) / 1000 * (1 + eps)"
    using fl_eps[OF r] eps_pos by (intro mult_right_mono divide_right_mono) (auto simp: algebra_simps)
  finally have x: "?x \<le> (1 + eps)\<^sup>2 * rate * of_int e / 1000" by (simp add: power2_eq_square algebra_simps)
  show ?thesis
  proof (cases "tokens + ?x \<le> 2 * capacity")
    case True
    have y0: "0 \<le> tokens + ?x" using assms(2) x0 by simp
    have "fl (tokens + ?x) \<le> tokens + ?x + 2 * capacity * eps"
      using fl_eps[OF y0] mult_right_mono[OF True, of eps] eps_pos by linarith
    with x show ?thesis unfolding refill_def by linarith
  next
    case False
    have "0 \<le> 2 * capacity * eps" using assms(1) eps_pos by simp
    moreover have "refill tokens capacity rate e \<le> capacity" by (simp add: refill_def)
    ultimately show ?thesis using False x assms(1) by linarith
  qed
qed

lemma spend_upper:
  assumes "c \<le> r" "r \<le> capacity" "0 \<le> c"
  shows "0 \<le> fl (r - c) \<and> c + fl (r - c) \<le> r + capacity * eps"
proof -
  have "(r - c) * eps \<le> capacity * eps" using assms eps_pos by (intro mult_right_mono) auto
  with fl_eps[of "r - c"] assms(1) show ?thesis by auto
qed

text \<open>
  The contract of a bucket, for rows as for bytes: a charge either leaves the gate as it is
  and takes nothing, or is admitted and leaves, together with what it took, no more than a
  full bucket, and no more than the tokens before plus the credit of the elapsed time.
\<close>

definition costs_ok :: "admission_cost \<Rightarrow> bool" where
  "costs_ok c \<longleftrightarrow> 0 \<le> rowCost c \<and> 0 \<le> byteCost c"

locale token_bucket =
  fixes tokens :: "bucket_state \<Rightarrow> rat" and cost :: "admission_cost \<Rightarrow> rat"
    and capacity rate :: "admission_budget \<Rightarrow> rat"
  assumes charged: "\<lbrakk>complete_budget b; costs_ok c; gate_charge b now c st = (d, st');
      \<And>s. st = Some s \<Longrightarrow> 0 \<le> rowTokens s \<and> 0 \<le> byteTokens s \<and> updatedAt s \<le> now\<rbrakk> \<Longrightarrow>
      (st' = st \<and> (allowed d \<longrightarrow> cost c = 0))
      \<or> (\<exists>s'. st' = Some s' \<and> updatedAt s' = now \<and> 0 \<le> rowTokens s' \<and> 0 \<le> byteTokens s'
          \<and> cost c + tokens s' \<le> capacity b + capacity b * eps
          \<and> (\<forall>s. st = Some s \<longrightarrow> cost c + tokens s' \<le>
                tokens s + (1 + eps)\<^sup>2 * rate b * of_int (now - updatedAt s) / 1000 + 3 * capacity b * eps))"
    and nonneg: "complete_budget b \<Longrightarrow> 0 \<le> rate b" "complete_budget b \<Longrightarrow> 0 \<le> capacity b"
      "costs_ok c \<Longrightarrow> 0 \<le> cost c" "0 \<le> rowTokens s \<Longrightarrow> 0 \<le> byteTokens s \<Longrightarrow> 0 \<le> tokens s"

fun charge_run :: "admission_budget \<Rightarrow> (ms \<times> admission_cost) list \<Rightarrow> bucket_state option
    \<Rightarrow> admission_decision list \<times> bucket_state option" where
  "charge_run b [] st = ([], st)"
| "charge_run b ((now, c) # cs) st =
     (let (d, st') = gate_charge b now c st; (ds, st'') = charge_run b cs st' in (d # ds, st''))"

fun admitted :: "(admission_cost \<Rightarrow> rat) \<Rightarrow> (ms \<times> admission_cost) list \<Rightarrow> admission_decision list \<Rightarrow> rat" where
  "admitted cost ((now, c) # cs) (d # ds) = (if allowed d then cost c else 0) + admitted cost cs ds"
| "admitted cost _ _ = 0"

definition gate_ok :: "ms \<Rightarrow> bucket_state option \<Rightarrow> bool" where
  "gate_ok now st \<longleftrightarrow> (\<forall>s. st = Some s \<longrightarrow> 0 \<le> rowTokens s \<and> 0 \<le> byteTokens s \<and> updatedAt s \<le> now)"

context token_bucket
begin

lemma gate_ok_charge:
  assumes "complete_budget b" "costs_ok c" "gate_charge b now c st = (d, st')" "gate_ok now st"
  shows "gate_ok now st'"
proof -
  have "\<And>s. st = Some s \<Longrightarrow> 0 \<le> rowTokens s \<and> 0 \<le> byteTokens s \<and> updatedAt s \<le> now"
    using assms(4) by (simp add: gate_ok_def)
  from charged[OF assms(1-3) this] assms(4) show ?thesis by (auto simp: gate_ok_def)
qed

lemma gate_ok_mono: "gate_ok now st \<Longrightarrow> now \<le> later \<Longrightarrow> gate_ok later st"
  unfolding gate_ok_def by force

lemma gate_ok_run:
  "\<lbrakk>complete_budget b; \<forall>p\<in>set cs. costs_ok (snd p); sorted (map fst cs); gate_ok t st;
    \<forall>p\<in>set cs. t \<le> fst p; \<forall>p\<in>set cs. fst p \<le> t'; t \<le> t'\<rbrakk> \<Longrightarrow> gate_ok t' (snd (charge_run b cs st))"
proof (induction cs arbitrary: st t)
  case (Cons p cs)
  obtain now c where p: "p = (now, c)" by (cases p)
  obtain d st' where g: "gate_charge b now c st = (d, st')" by (cases "gate_charge b now c st")
  have "gate_ok now st" using Cons.prems(4,5) p by (auto intro: gate_ok_mono)
  from gate_ok_charge[OF Cons.prems(1) _ g this] have "gate_ok now st'" using Cons.prems(2) p by simp
  then have "gate_ok t' (snd (charge_run b cs st'))"
    using Cons.prems p by (intro Cons.IH[of now]) auto
  then show ?case by (simp add: p g case_prod_beta)
qed (auto intro: gate_ok_mono)

text \<open>Along a run the tokens and the cost admitted never exceed the tokens at its start and its credit.\<close>

lemma run_bound:
  "\<lbrakk>complete_budget b; \<forall>p\<in>set cs. costs_ok (snd p); sorted (map fst cs); gate_ok (updatedAt s) (Some s);
    \<forall>p\<in>set cs. updatedAt s \<le> fst p \<and> fst p \<le> t; updatedAt s \<le> t\<rbrakk> \<Longrightarrow>
    admitted cost cs (fst (charge_run b cs (Some s)))
      \<le> tokens s + (1 + eps)\<^sup>2 * rate b * of_int (t - updatedAt s) / 1000 + 3 * of_nat (length cs) * capacity b * eps"
proof (induction cs arbitrary: s)
  case Nil
  then have "0 \<le> tokens s" "0 \<le> rate b" by (auto simp: gate_ok_def intro: nonneg)
  then show ?case using Nil.prems eps_pos by (simp add: zero_le_mult_iff)
next
  case (Cons p cs)
  let ?K = "(1 + eps)\<^sup>2 * rate b" and ?n = "3 * of_nat (length cs) * capacity b * eps"
  obtain now c where p: "p = (now, c)" by (cases p)
  obtain d st' where g: "gate_charge b now c (Some s) = (d, st')" by (cases "gate_charge b now c (Some s)")
  have ce: "0 \<le> capacity b * eps" using nonneg(2) Cons.prems(1) eps_pos by simp
  have c: "costs_ok c" "updatedAt s \<le> now" "now \<le> t" using Cons.prems p by auto
  have n: "3 * of_nat (length (p # cs)) * capacity b * eps = ?n + 3 * capacity b * eps" by (simp add: algebra_simps)
  have fst: "fst (charge_run b (p # cs) (Some s)) = d # fst (charge_run b cs st')" by (simp add: p g case_prod_beta)
  consider "st' = Some s" "allowed d \<longrightarrow> cost c = 0"
    | s' where "st' = Some s'" "updatedAt s' = now" "0 \<le> rowTokens s'" "0 \<le> byteTokens s'"
      "cost c + tokens s' \<le> tokens s + ?K * of_int (now - updatedAt s) / 1000 + 3 * capacity b * eps"
    using charged[OF Cons.prems(1) c(1) g] Cons.prems(4) c(2) by (auto simp: gate_ok_def)
  then show ?case
  proof cases
    case 1
    have "admitted cost cs (fst (charge_run b cs (Some s))) \<le> tokens s + ?K * of_int (t - updatedAt s) / 1000 + ?n"
      using Cons.prems by (intro Cons.IH) auto
    then show ?thesis using 1 n ce unfolding fst by (auto simp: p)
  next
    case (2 s')
    have "admitted cost cs (fst (charge_run b cs (Some s'))) \<le> tokens s' + ?K * of_int (t - updatedAt s') / 1000 + ?n"
      using Cons.prems 2 c p by (intro Cons.IH) (auto simp: gate_ok_def)
    moreover have "?K * of_int (now - updatedAt s) / 1000 + ?K * of_int (t - now) / 1000 = ?K * of_int (t - updatedAt s) / 1000"
      by (simp add: add_divide_distrib[symmetric] distrib_left[symmetric])
    ultimately show ?thesis
      using 2 n nonneg(3)[OF c(1)] unfolding fst by (auto simp: p)
  qed
qed

text \<open>In any window the admitted cost is bounded by one burst and the credit of the window.\<close>

lemma window_bound:
  "\<lbrakk>complete_budget b; \<forall>p\<in>set cs. costs_ok (snd p); sorted (map fst cs); gate_ok t0 st;
    \<forall>p\<in>set cs. t0 \<le> fst p \<and> fst p \<le> t1; t0 \<le> t1\<rbrakk> \<Longrightarrow>
    admitted cost cs (fst (charge_run b cs st))
      \<le> capacity b + (1 + eps)\<^sup>2 * rate b * of_int (t1 - t0) / 1000 + 3 * of_nat (length cs) * capacity b * eps"
proof (induction cs)
  case Nil
  then have "0 \<le> capacity b" "0 \<le> rate b" by (auto intro: nonneg)
  then show ?case using Nil.prems eps_pos by (simp add: zero_le_mult_iff)
next
  case (Cons p cs)
  let ?K = "(1 + eps)\<^sup>2 * rate b" and ?n = "3 * of_nat (length cs) * capacity b * eps"
  obtain now c where p: "p = (now, c)" by (cases p)
  obtain d st' where g: "gate_charge b now c st = (d, st')" by (cases "gate_charge b now c st")
  have ce: "0 \<le> capacity b * eps" using nonneg(2) Cons.prems(1) eps_pos by simp
  have K: "0 \<le> ?K" using nonneg(1) Cons.prems(1) by simp
  have c: "costs_ok c" "t0 \<le> now" "now \<le> t1" using Cons.prems p by auto
  have n: "3 * of_nat (length (p # cs)) * capacity b * eps = ?n + 3 * capacity b * eps" by (simp add: algebra_simps)
  have fst: "fst (charge_run b (p # cs) st) = d # fst (charge_run b cs st')" by (simp add: p g case_prod_beta)
  have ok: "gate_ok now st" using Cons.prems(4) c(2) by (rule gate_ok_mono)
  consider "st' = st" "allowed d \<longrightarrow> cost c = 0"
    | s' where "st' = Some s'" "updatedAt s' = now" "0 \<le> rowTokens s'" "0 \<le> byteTokens s'"
      "cost c + tokens s' \<le> capacity b + capacity b * eps"
    using charged[OF Cons.prems(1) c(1) g] ok by (auto simp: gate_ok_def)
  then show ?case
  proof cases
    case 1
    then show ?thesis using Cons n ce unfolding fst by (auto simp: p)
  next
    case (2 s')
    have "admitted cost cs (fst (charge_run b cs (Some s'))) \<le> tokens s' + ?K * of_int (t1 - updatedAt s') / 1000 + ?n"
      using Cons.prems 2 c p by (intro run_bound) (auto simp: gate_ok_def)
    moreover have "?K * of_int (t1 - now) / 1000 \<le> ?K * of_int (t1 - t0) / 1000"
      using K c(2) by (intro divide_right_mono mult_left_mono) auto
    ultimately show ?thesis
      using 2 n ce nonneg(3)[OF c(1)] unfolding fst by (auto simp: p)
  qed
qed

end

section \<open>The gate provides two such buckets\<close>

lemma updatedAt_refill [simp]: "updatedAt (refillBuckets st now b) = now"
  by (simp add: refillBuckets_def initialBuckets_def Let_def split: option.split)

lemma refilled_bounds:
  assumes "complete_budget b" "gate_ok now st"
  defines "r \<equiv> refillBuckets st now b"
  shows "rowTokens r \<le> rowBurstCapacity b" "byteTokens r \<le> byteBurstCapacity b"
    and "st = Some s \<Longrightarrow> rowTokens r \<le> rowTokens s
      + (1 + eps)\<^sup>2 * rowsPerSecond b * of_int (now - updatedAt s) / 1000 + 2 * rowBurstCapacity b * eps"
    and "st = Some s \<Longrightarrow> byteTokens r \<le> byteTokens s
      + (1 + eps)\<^sup>2 * bytesPerSecond b * of_int (now - updatedAt s) / 1000 + 2 * byteBurstCapacity b * eps"
proof -
  show "rowTokens r \<le> rowBurstCapacity b" "byteTokens r \<le> byteBurstCapacity b"
    by (simp_all add: r_def refillBuckets_def initialBuckets_def refill_def Let_def split: option.split)
  assume s: "st = Some s"
  then have e: "max 0 (now - updatedAt s) = now - updatedAt s" "0 \<le> now - updatedAt s"
    "0 \<le> rowTokens s" "0 \<le> byteTokens s" using assms(2) s by (auto simp: gate_ok_def)
  show "rowTokens r \<le> rowTokens s
      + (1 + eps)\<^sup>2 * rowsPerSecond b * of_int (now - updatedAt s) / 1000 + 2 * rowBurstCapacity b * eps"
    using refill_credit[of "rowBurstCapacity b" "rowTokens s" "rowsPerSecond b" "now - updatedAt s"] e assms(1)
    by (simp add: r_def refillBuckets_def s complete_budget_def Let_def)
  show "byteTokens r \<le> byteTokens s
      + (1 + eps)\<^sup>2 * bytesPerSecond b * of_int (now - updatedAt s) / 1000 + 2 * byteBurstCapacity b * eps"
    using refill_credit[of "byteBurstCapacity b" "byteTokens s" "bytesPerSecond b" "now - updatedAt s"] e assms(1)
    by (simp add: r_def refillBuckets_def s complete_budget_def Let_def)
qed

text \<open>The state that an admitted charge leaves.\<close>

definition taken :: "admission_budget \<Rightarrow> ms \<Rightarrow> admission_cost \<Rightarrow> bucket_state option \<Rightarrow> bucket_state option \<Rightarrow> bool" where
  "taken b now c st st' \<longleftrightarrow> (let r = refillBuckets st now b in
     rowCost c \<le> rowTokens r \<and> byteCost c \<le> byteTokens r
     \<and> st' = Some \<lparr>rowTokens = fl (rowTokens r - rowCost c), byteTokens = fl (byteTokens r - byteCost c), updatedAt = now\<rparr>)"

lemma gate_charge_cases:
  assumes "gate_charge b now c st = (d, st')"
  shows "(st' = st \<and> (allowed d \<longrightarrow> rowCost c = 0 \<and> byteCost c = 0)) \<or> taken b now c st st'"
  using assms
  by (auto simp: gate_charge_def evaluateAdmission_def shouldPersist_def taken_def Let_def split: if_splits)

lemma takenD:
  assumes "taken b now c st st'" "costs_ok c"
  shows "st' = Some (the st')" "updatedAt (the st') = now" "0 \<le> rowTokens (the st')" "0 \<le> byteTokens (the st')"
    and "rowTokens (the st') = fl (rowTokens (refillBuckets st now b) - rowCost c)"
    and "byteTokens (the st') = fl (byteTokens (refillBuckets st now b) - byteCost c)"
    and "rowCost c \<le> rowTokens (refillBuckets st now b)" "byteCost c \<le> byteTokens (refillBuckets st now b)"
  using assms by (auto simp: taken_def Let_def costs_ok_def)

interpretation rows: token_bucket rowTokens rowCost rowBurstCapacity rowsPerSecond
proof
  fix b c now st d st'
  assume b: "complete_budget b" and c: "costs_ok c" and g: "gate_charge b now c st = (d, st')"
    and s: "\<And>s. st = Some s \<Longrightarrow> 0 \<le> rowTokens s \<and> 0 \<le> byteTokens s \<and> updatedAt s \<le> now"
  have "gate_ok now st" using s by (simp add: gate_ok_def)
  note r = refilled_bounds[OF b this]
  consider "st' = st" "allowed d \<longrightarrow> rowCost c = 0 \<and> byteCost c = 0" | "taken b now c st st'"
    using gate_charge_cases[OF g] by blast
  then show "(st' = st \<and> (allowed d \<longrightarrow> rowCost c = 0))
      \<or> (\<exists>s'. st' = Some s' \<and> updatedAt s' = now \<and> 0 \<le> rowTokens s' \<and> 0 \<le> byteTokens s'
          \<and> rowCost c + rowTokens s' \<le> rowBurstCapacity b + rowBurstCapacity b * eps
          \<and> (\<forall>s. st = Some s \<longrightarrow> rowCost c + rowTokens s' \<le> rowTokens s
                + (1 + eps)\<^sup>2 * rowsPerSecond b * of_int (now - updatedAt s) / 1000 + 3 * rowBurstCapacity b * eps))"
  proof cases
    case 2
    note t = takenD[OF 2 c]
    let ?s = "the st'" and ?R = "rowTokens (refillBuckets st now b)"
    have "rowCost c \<le> ?R" "?R \<le> rowBurstCapacity b" "0 \<le> rowCost c" using t(7,8) r(1) c by (simp_all add: costs_ok_def)
    then have u: "rowCost c + rowTokens ?s \<le> ?R + rowBurstCapacity b * eps" using spend_upper t(5) by simp
    have three: "3 * rowBurstCapacity b * eps = 2 * rowBurstCapacity b * eps + rowBurstCapacity b * eps" by (simp add: algebra_simps)
    have "rowCost c + rowTokens ?s \<le> rowTokens s
        + (1 + eps)\<^sup>2 * rowsPerSecond b * of_int (now - updatedAt s) / 1000 + 3 * rowBurstCapacity b * eps" if "st = Some s" for s
      using r(3)[OF that] u unfolding three by linarith
    moreover have "rowCost c + rowTokens ?s \<le> rowBurstCapacity b + rowBurstCapacity b * eps" using u r(1) by linarith
    ultimately show ?thesis using t(1-4) by blast
  qed simp
qed (auto simp: complete_budget_def costs_ok_def)

interpretation bytes: token_bucket byteTokens byteCost byteBurstCapacity bytesPerSecond
proof
  fix b c now st d st'
  assume b: "complete_budget b" and c: "costs_ok c" and g: "gate_charge b now c st = (d, st')"
    and s: "\<And>s. st = Some s \<Longrightarrow> 0 \<le> rowTokens s \<and> 0 \<le> byteTokens s \<and> updatedAt s \<le> now"
  have "gate_ok now st" using s by (simp add: gate_ok_def)
  note r = refilled_bounds[OF b this]
  consider "st' = st" "allowed d \<longrightarrow> rowCost c = 0 \<and> byteCost c = 0" | "taken b now c st st'"
    using gate_charge_cases[OF g] by blast
  then show "(st' = st \<and> (allowed d \<longrightarrow> byteCost c = 0))
      \<or> (\<exists>s'. st' = Some s' \<and> updatedAt s' = now \<and> 0 \<le> rowTokens s' \<and> 0 \<le> byteTokens s'
          \<and> byteCost c + byteTokens s' \<le> byteBurstCapacity b + byteBurstCapacity b * eps
          \<and> (\<forall>s. st = Some s \<longrightarrow> byteCost c + byteTokens s' \<le> byteTokens s
                + (1 + eps)\<^sup>2 * bytesPerSecond b * of_int (now - updatedAt s) / 1000 + 3 * byteBurstCapacity b * eps))"
  proof cases
    case 2
    note t = takenD[OF 2 c]
    let ?s = "the st'" and ?R = "byteTokens (refillBuckets st now b)"
    have "byteCost c \<le> ?R" "?R \<le> byteBurstCapacity b" "0 \<le> byteCost c" using t(7,8) r(2) c by (simp_all add: costs_ok_def)
    then have u: "byteCost c + byteTokens ?s \<le> ?R + byteBurstCapacity b * eps" using spend_upper t(6) by simp
    have three: "3 * byteBurstCapacity b * eps = 2 * byteBurstCapacity b * eps + byteBurstCapacity b * eps" by (simp add: algebra_simps)
    have "byteCost c + byteTokens ?s \<le> byteTokens s
        + (1 + eps)\<^sup>2 * bytesPerSecond b * of_int (now - updatedAt s) / 1000 + 3 * byteBurstCapacity b * eps" if "st = Some s" for s
      using r(4)[OF that] u unfolding three by linarith
    moreover have "byteCost c + byteTokens ?s \<le> byteBurstCapacity b + byteBurstCapacity b * eps" using u r(2) by linarith
    ultimately show ?thesis using t(1-4) by blast
  qed simp
qed (auto simp: complete_budget_def costs_ok_def)

section \<open>Decisions on the wire\<close>

lemma waitMs_pos:
  assumes "tokens < cost" "0 < rate"
  shows "1 \<le> waitMs tokens cost rate"
proof -
  let ?x = "fl (fl (fl (cost - tokens) / rate) * 1000)"
  have "0 < ?x" using assms by simp
  then have "1 \<le> \<lceil>?x\<rceil>" by (simp only: one_le_ceiling)
  then have "(1::rat) \<le> of_int \<lceil>?x\<rceil>" by linarith
  moreover have "waitMs tokens cost rate = of_int \<lceil>?x\<rceil>" using assms by (simp add: waitMs_def)
  ultimately show ?thesis by (simp only:)
qed

lemma waitMs_nonneg: "0 < rate \<Longrightarrow> 0 \<le> waitMs tokens cost rate"
  using waitMs_pos[of tokens cost rate] by (cases "cost \<le> tokens") (simp add: waitMs_def, linarith)

lemma decision_retry:
  assumes "complete_budget b" "gate_charge b now c st = (d, st')"
  shows "allowed d \<Longrightarrow> retryAfterMs d = 0" and "\<not> allowed d \<Longrightarrow> 1 \<le> retryAfterMs d \<and> st' = st"
proof -
  have r: "0 < rowsPerSecond b" "0 < bytesPerSecond b" using assms(1) by (auto simp: complete_budget_def)
  show "allowed d \<Longrightarrow> retryAfterMs d = 0" "\<not> allowed d \<Longrightarrow> 1 \<le> retryAfterMs d \<and> st' = st"
    using assms(2) waitMs_pos[OF _ r(1)] waitMs_pos[OF _ r(2)]
    by (auto simp: gate_charge_def evaluateAdmission_def Let_def not_le le_max_iff_disj split: if_splits)
qed

lemma parse_decision:
  assumes "allowed d \<longleftrightarrow> retryAfterMs d = 0" "0 \<le> retryAfterMs d"
  shows "parseAdmissionDecision (decision_json d) = Inr d"
  using assms by (cases d) (simp add: parseAdmissionDecision_def decision_json_def Let_def)

lemma parse_request:
  assumes "complete_budget b" "costs_ok c"
  shows "parseAdmissionRequest (Some (JObj [(''rowCost'', JNum (Fin (rowCost c))), (''byteCost'', JNum (Fin (byteCost c))),
    (''budget'', budget_json b)])) = Some (b, c)"
  using assms by (cases b; cases c)
    (simp add: parseAdmissionRequest_def isCompleteBudget_def budget_json_def complete_budget_def costs_ok_def Let_def)

lemma launch_complete: "complete_budget (INGEST_ADMISSION_LAUNCH_PROFILE stream)"
  by (cases stream) (simp_all add: complete_budget_def)

lemma stream_name_inj: "stream_name a = stream_name b \<Longrightarrow> a = b"
  by (cases a; cases b) simp_all

lemma scope_name_inj:
  assumes "ingestAdmissionScopeName a e s = ingestAdmissionScopeName a' e' s'"
  shows "a = a' \<and> e = e' \<and> s = s'"
proof -
  have "json_string a @ CHR '','' # json_string e @ CHR '','' # json_string (stream_name s) @ '']''
      = json_string a' @ CHR '','' # json_string e' @ CHR '','' # json_string (stream_name s') @ '']''"
    using assms by (simp add: ingestAdmissionScopeName_def)
  then have 1: "a = a'" and "json_string e @ CHR '','' # json_string (stream_name s) @ '']''
      = json_string e' @ CHR '','' # json_string (stream_name s') @ '']''"
    by (auto dest: json_string_cancel)
  from this(2) have 2: "e = e'" and "json_string (stream_name s) @ '']'' = json_string (stream_name s') @ '']''"
    by (auto dest: json_string_cancel)
  with json_string_cancel[OF this(2)] stream_name_inj 1 show ?thesis by auto
qed

lemma charge_reaches_gate:
  assumes "costs_ok c" "gate_charge (INGEST_ADMISSION_LAUNCH_PROFILE stream) now c
      (gates (ingestAdmissionScopeName appId environmentId stream)) = (d, next)"
  shows "chargeIngestAdmission True appId environmentId stream c now (Some gates)
    = (Inr d, Some (gates(ingestAdmissionScopeName appId environmentId stream := next)))"
proof -
  note dr = decision_retry[OF launch_complete assms(2)]
  have "parseAdmissionDecision (decision_json d) = Inr d"
    by (rule parse_decision) (use dr in \<open>cases "allowed d"; auto\<close>)+
  then show ?thesis
    using assms by (simp add: chargeIngestAdmission_def ingestAdmissionBudget_def launch_complete gate_fetch_def
        parse_request[OF launch_complete assms(1)] Let_def)
qed

section \<open>Properties\<close>

text \<open>
  C34: the gate bounds the rate. For any history of charges against one budget under a
  clock that does not run backwards, the rows admitted in any window of time are at most
  one burst plus the credit of the window, and so are the bytes, up to the rounding of the
  double arithmetic, which is of the order of 2 to the -53 of the quantities involved.
\<close>

theorem admission_rate_bound:
  assumes "complete_budget b" "\<forall>p\<in>set (before @ window). costs_ok (snd p)" "sorted (map fst (before @ window))"
    and "\<forall>p\<in>set before. fst p \<le> t0" "\<forall>p\<in>set window. t0 \<le> fst p \<and> fst p \<le> t1" "t0 \<le> t1"
    and "ds = fst (charge_run b window (snd (charge_run b before None)))"
  shows "admitted rowCost window ds \<le> rowBurstCapacity b
      + (1 + 1 / 2 ^ 53)\<^sup>2 * rowsPerSecond b * of_int (t1 - t0) / 1000
      + 3 * of_nat (length window) * rowBurstCapacity b * (1 / 2 ^ 53)
    \<and> admitted byteCost window ds \<le> byteBurstCapacity b
      + (1 + 1 / 2 ^ 53)\<^sup>2 * bytesPerSecond b * of_int (t1 - t0) / 1000
      + 3 * of_nat (length window) * byteBurstCapacity b * (1 / 2 ^ 53)"
proof -
  define t where "t = Min (insert t0 (fst ` set before))"
  have ok: "gate_ok t0 (snd (charge_run b before None))"
    using assms(1-4) by (intro rows.gate_ok_run[of b before t]) (auto simp: t_def gate_ok_def sorted_append)
  have w: "\<forall>p\<in>set window. costs_ok (snd p)" "sorted (map fst window)"
    using assms(2,3) by (auto simp: sorted_append)
  show ?thesis
    using rows.window_bound[OF assms(1) w ok assms(5,6)] bytes.window_bound[OF assms(1) w ok assms(5,6)]
    unfolding assms(7) eps_def by (rule conjI)
qed

lemma admission_rate_bound_witness:
  "admitted rowCost [(0, \<lparr>rowCost = 5, byteCost = 100\<rparr>), (10, \<lparr>rowCost = 2, byteCost = 30\<rparr>)]
     (fst (charge_run (INGEST_ADMISSION_LAUNCH_PROFILE MetricEvents)
       [(0, \<lparr>rowCost = 5, byteCost = 100\<rparr>), (10, \<lparr>rowCost = 2, byteCost = 30\<rparr>)] None)) \<le> 1002"
  using admission_rate_bound[OF launch_complete[of MetricEvents], of "[]"
      "[(0, \<lparr>rowCost = 5, byteCost = 100\<rparr>), (10, \<lparr>rowCost = 2, byteCost = 30\<rparr>)]" 0 10, OF _ _ _ _ _ refl]
  by (simp add: costs_ok_def power2_eq_square)

text \<open>
  A charge is decided by its own scope's gate and by nothing else. The decision that
  the Worker reads off the wire is the gate's on the launch budget of the stream; an allowed
  one asks for no retry, a denied one for a positive delay and changes nothing; and the
  gates of all other scopes keep their state, since no two scopes share a name.
\<close>

theorem charge_is_isolated:
  assumes "costs_ok c"
  shows "\<exists>d gates'. chargeIngestAdmission True appId environmentId stream c now (Some gates) = (Inr d, Some gates')
    \<and> gate_charge (INGEST_ADMISSION_LAUNCH_PROFILE stream) now c
         (gates (ingestAdmissionScopeName appId environmentId stream))
       = (d, gates' (ingestAdmissionScopeName appId environmentId stream))
    \<and> (allowed d \<longrightarrow> retryAfterMs d = 0) \<and> (\<not> allowed d \<longrightarrow> 1 \<le> retryAfterMs d \<and> gates' = gates)
    \<and> (\<forall>a e s. (a, e, s) \<noteq> (appId, environmentId, stream) \<longrightarrow>
         gates' (ingestAdmissionScopeName a e s) = gates (ingestAdmissionScopeName a e s))"
proof -
  let ?n = "ingestAdmissionScopeName appId environmentId stream"
  obtain d st where g: "gate_charge (INGEST_ADMISSION_LAUNCH_PROFILE stream) now c (gates ?n) = (d, st)"
    by (cases "gate_charge (INGEST_ADMISSION_LAUNCH_PROFILE stream) now c (gates ?n)")
  have other: "ingestAdmissionScopeName a e s \<noteq> ?n" if "(a, e, s) \<noteq> (appId, environmentId, stream)" for a e s
    using that scope_name_inj[of a e s appId environmentId stream] by auto
  show ?thesis
    using charge_reaches_gate[where gates = gates, OF assms g] decision_retry[OF launch_complete g] other g
    by (intro exI[of _ d] exI[of _ "gates(?n := st)"]) auto
qed

lemma charge_is_isolated_witness:
  "\<exists>d gates'. chargeIngestAdmission True ''app'' ''env'' WebEvents \<lparr>rowCost = 6000, byteCost = 1\<rparr> 5 (Some (\<lambda>_. None))
      = (Inr d, Some gates') \<and> \<not> allowed d"
proof -
  have c: "costs_ok \<lparr>rowCost = 6000, byteCost = 1\<rparr>" by (simp add: costs_ok_def)
  have "\<not> allowed (fst (gate_charge (INGEST_ADMISSION_LAUNCH_PROFILE WebEvents) 5 \<lparr>rowCost = 6000, byteCost = 1\<rparr> None))"
    by (simp add: gate_charge_def evaluateAdmission_def refillBuckets_def initialBuckets_def Let_def)
  with charge_is_isolated[OF c, of "''app''" "''env''" WebEvents 5 "\<lambda>_. None"] show ?thesis by fastforce
qed

text \<open>
  C35: the gate fails closed. A batch of rows is let through exactly when it is empty, or the
  binding is there, the gate answers and its buckets hold the batch's rows and the bytes of
  its texts; in every other case the caller gets a rate limit with a positive delay.
\<close>

theorem admission_fails_closed:
  "(fst (ingestAdmissionDenial reach appId environmentId stream texts msg now ns) = None \<longleftrightarrow>
     texts = [] \<or> (\<exists>gates. ns = Some gates \<and> reach
       \<and> (let r = refillBuckets (gates (ingestAdmissionScopeName appId environmentId stream)) now
                    (INGEST_ADMISSION_LAUNCH_PROFILE stream)
          in of_nat (length texts) \<le> rowTokens r \<and> of_nat (sum_list (map queuePayloadBytes texts)) \<le> byteTokens r)))
   \<and> (\<forall>e. fst (ingestAdmissionDenial reach appId environmentId stream texts msg now ns) = Some e \<longrightarrow> 1 \<le> rl_retryAfterMs e)"
proof (cases "texts = [] \<or> ns = None \<or> \<not> reach")
  case True
  have e: "\<exists>e ns'. chargeIngestAdmission reach appId environmentId stream c now ns = (Inl e, ns')"
    if "ns = None \<or> \<not> reach" for c
    using that by (cases ns) (simp_all add: chargeIngestAdmission_def ingestAdmissionBudget_def launch_complete Let_def)
  have "fst (ingestAdmissionDenial reach appId environmentId stream texts msg now ns)
      = Some \<lparr>rl_message = ''Ingest Admission Gate is unavailable'', rl_retryAfterMs = 1000\<rparr>" if "texts \<noteq> []"
  proof -
    obtain x ns' where "chargeIngestAdmission reach appId environmentId stream (ingestAdmissionCost texts) now ns = (Inl x, ns')"
      using e True \<open>texts \<noteq> []\<close> by blast
    with that show ?thesis by (simp add: ingestAdmissionDenial_def)
  qed
  then show ?thesis using True by (cases "texts = []") (auto simp: ingestAdmissionDenial_def)
next
  case False
  then obtain gates where ns: "ns = Some gates" "reach" "texts \<noteq> []" by auto
  let ?n = "ingestAdmissionScopeName appId environmentId stream" and ?c = "ingestAdmissionCost texts"
  let ?b = "INGEST_ADMISSION_LAUNCH_PROFILE stream"
  obtain d st where g: "gate_charge ?b now ?c (gates ?n) = (d, st)" by (cases "gate_charge ?b now ?c (gates ?n)")
  have c: "costs_ok ?c" "rowCost ?c \<noteq> 0" using ns(3) by (simp_all add: costs_ok_def ingestAdmissionCost_def)
  have "allowed d \<longleftrightarrow> rowCost ?c \<le> rowTokens (refillBuckets (gates ?n) now ?b)
      \<and> byteCost ?c \<le> byteTokens (refillBuckets (gates ?n) now ?b)"
    using g c(2) by (auto simp: gate_charge_def evaluateAdmission_def Let_def split: if_splits)
  moreover have "ingestAdmissionDenial reach appId environmentId stream texts msg now ns
      = (if allowed d then None else Some \<lparr>rl_message = msg, rl_retryAfterMs = retryAfterMs d\<rparr>, Some (gates(?n := st)))"
    using charge_reaches_gate[where gates = gates, OF c(1) g] ns by (simp add: ingestAdmissionDenial_def)
  moreover have "rowCost ?c = of_nat (length texts)" "byteCost ?c = of_nat (sum_list (map queuePayloadBytes texts))"
    by (simp_all add: ingestAdmissionCost_def)
  ultimately show ?thesis using decision_retry[OF launch_complete g] ns by (auto simp: Let_def)
qed

lemma admission_fails_closed_witness:
  "\<exists>e. fst (ingestAdmissionDenial False ''app'' ''env'' RawEvents [''{}''] ''slow down'' 7 (Some (\<lambda>_. None))) = Some e
     \<and> 1 \<le> rl_retryAfterMs e"
  using admission_fails_closed[of False "''app''" "''env''" RawEvents "[''{}'']" "''slow down''" 7 "Some (\<lambda>_. None)"]
  by auto

end
