(* ===== verification/Stats.thy ===== *)
theory Stats
  imports Json
begin

text \<open>
  The data that the decision modules of \<open>packages/stats\<close> share, from the contracts of
  \<open>packages/contracts/src/stats-result-*.ts\<close>, and the comparisons they make. Of an arm's
  fields the variance techniques, the disclosures and the advisory verdicts, which no
  modelled function reads, are left out; a field that may be null or absent is an option,
  since the code treats the two alike.
\<close>

datatype stats_status = Running | Ready | Stopped | InsufficientDenominator | InsufficientN | Errored

record arm_result =
  ar_variant :: string
  ar_metric_id :: string
  ar_dimension_id :: "string option"
  ar_dimension_value :: "string option"
  ar_sample_size_n :: int
  ar_point_estimate :: jsnum
  ar_relative_lift_pct :: "jsnum option"
  ar_ci_lower :: "jsnum option"
  ar_ci_upper :: "jsnum option"
  ar_p_value :: jsnum
  ar_is_significant :: bool
  ar_in_bh_family :: bool
  ar_exploratory :: bool
  ar_decision_valid :: bool
  ar_status :: stats_status
  ar_absolute_ci_lower :: "jsnum option"
  ar_absolute_ci_upper :: "jsnum option"
  ar_simultaneous_ci_lower :: "jsnum option"
  ar_simultaneous_ci_upper :: "jsnum option"
  ar_simultaneous_absolute_ci_lower :: "jsnum option"
  ar_simultaneous_absolute_ci_upper :: "jsnum option"

record guardrail_result =
  gr_metric_id :: string
  gr_variant :: string
  gr_ci_lower :: "jsnum option"
  gr_threshold :: jsnum
  gr_is_breached :: "bool option"
  gr_in_bh_family :: bool
  gr_exploratory :: bool
  gr_decision_valid :: bool
  gr_breach_reason :: "string option"

record srm_result =
  srm_p_value :: jsnum
  srm_is_mismatch :: bool
  observed_counts :: "(string \<times> rat) list"
  expected_counts :: "(string \<times> rat) list"
  activated_srm_p_value :: "jsnum option"
  activated_srm_mismatch :: "bool option"
  srm_sequential_threshold_crossed :: "bool option"
  activated_srm_sequential_threshold_crossed :: "bool option"

record health_metrics =
  multiple_rate :: jsnum
  multiple_count :: int
  activation_rates :: "(string \<times> jsnum) list option"
  activation_balance_p_value :: "jsnum option"
  activation_balance_mismatch :: "bool option"
  exposure_counts :: "(string \<times> int) list"
  deduped_counts :: "(string \<times> int) list"
  low_n_warning :: bool

datatype dimension_class = Primary | Secondary

record dimension_result =
  dr_dimension_id :: string
  dr_dimension_value :: string
  dr_class :: dimension_class
  dr_arm_results :: "arm_result list"
  dr_sample_size_n :: int
  dr_low_n_warning :: bool
  dr_in_bh_family :: bool
  dr_exploratory :: bool
  dr_decision_valid :: bool

record stats_output =
  so_arm_results :: "arm_result list"
  so_srm :: srm_result
  so_guardrail_results :: "guardrail_result list"
  so_health :: health_metrics
  so_dimension_results :: "dimension_result list option"

section \<open>Finite numbers\<close>

fun js_finite :: "jsnum \<Rightarrow> bool" where
  "js_finite (Fin _) = True"
| "js_finite NegZero = True"
| "js_finite _ = False"

fun js_val :: "jsnum \<Rightarrow> rat" where
  "js_val (Fin q) = q"
| "js_val _ = 0"

lemma js_less_val: "js_finite x \<Longrightarrow> js_finite y \<Longrightarrow> js_less x y \<longleftrightarrow> js_val x < js_val y"
  by (cases x; cases y) auto

lemma js_le_val: "js_finite x \<Longrightarrow> js_finite y \<Longrightarrow> js_le x y \<longleftrightarrow> js_val x \<le> js_val y"
  by (cases x; cases y) (auto simp: js_le_def)

section \<open>Stable sorting\<close>

text \<open>
  \<open>Array.prototype.sort\<close> is stable; \<open>gt x y\<close> is a positive answer of its comparator.
\<close>

fun insert_by :: "('a \<Rightarrow> 'a \<Rightarrow> bool) \<Rightarrow> 'a \<Rightarrow> 'a list \<Rightarrow> 'a list" where
  "insert_by gt x [] = [x]"
| "insert_by gt x (y # ys) = (if gt y x then x # y # ys else y # insert_by gt x ys)"

definition js_sort :: "('a \<Rightarrow> 'a \<Rightarrow> bool) \<Rightarrow> 'a list \<Rightarrow> 'a list" where
  "js_sort gt xs = fold (insert_by gt) xs []"

lemma mset_insert_by [simp]: "mset (insert_by gt x ys) = add_mset x (mset ys)"
  by (induction ys) auto

lemma mset_js_sort [simp]: "mset (js_sort gt xs) = mset xs"
proof -
  have "mset (fold (insert_by gt) xs acc) = mset xs + mset acc" for acc
    by (induction xs arbitrary: acc) auto
  then show ?thesis by (simp add: js_sort_def)
qed

lemma set_js_sort [simp]: "set (js_sort gt xs) = set xs"
  by (metis mset_js_sort set_mset_mset)

lemma length_js_sort [simp]: "length (js_sort gt xs) = length xs"
  by (metis mset_js_sort size_mset)

text \<open>A comparator that never contradicts a measure sorts by the measure.\<close>

locale sorts_by =
  fixes gt :: "'a \<Rightarrow> 'a \<Rightarrow> bool" and f :: "'a \<Rightarrow> rat"
  assumes gt_le: "gt x y \<Longrightarrow> f y \<le> f x" and not_gt_le: "\<not> gt x y \<Longrightarrow> f x \<le> f y"
begin

lemma set_insert_by: "set (insert_by gt x ys) = insert x (set ys)"
  by (induction ys) auto

lemma sorted_insert_by: "sorted (map f ys) \<Longrightarrow> sorted (map f (insert_by gt x ys))"
  by (induction ys) (auto simp: set_insert_by dest: gt_le not_gt_le intro: order_trans)

lemma sorted_js_sort: "sorted (map f (js_sort gt xs))"
proof -
  have "sorted (map f acc) \<Longrightarrow> sorted (map f (fold (insert_by gt) xs acc))" for acc
    by (induction xs arbitrary: acc) (auto intro: sorted_insert_by)
  then show ?thesis by (simp add: js_sort_def)
qed

end

text \<open>An arm for the examples.\<close>

definition sample_arm :: "string \<Rightarrow> rat \<Rightarrow> arm_result" where
  "sample_arm variant p = \<lparr>ar_variant = variant, ar_metric_id = ''m'', ar_dimension_id = None, ar_dimension_value = None,
     ar_sample_size_n = 100, ar_point_estimate = Fin 1, ar_relative_lift_pct = None, ar_ci_lower = None, ar_ci_upper = None, ar_p_value = Fin p, ar_is_significant = False,
     ar_in_bh_family = False, ar_exploratory = False, ar_decision_valid = False, ar_status = Ready,
     ar_absolute_ci_lower = None, ar_absolute_ci_upper = None, ar_simultaneous_ci_lower = None, ar_simultaneous_ci_upper = None,
     ar_simultaneous_absolute_ci_lower = None, ar_simultaneous_absolute_ci_upper = None\<rparr>"

end
