(* ===== verification/FamilyCorrection.thy ===== *)
theory FamilyCorrection
  imports Stats
begin

text \<open>
  The correction of the decision family for multiple comparisons,
  \<open>packages/stats/src/family-correction.ts\<close> and \<open>decision-family-fdr.ts\<close>: Benjamini and
  Hochberg's step-up procedure, and its variant for arbitrary dependence with the level
  divided by a harmonic number. Every operation on the levels is rounded by \<open>fl\<close>. The
  collation order \<open>localeCompare\<close>, which only orders members with equal p-values, belongs
  to the host and is the parameter \<open>lc\<close>.
\<close>

section \<open>Procedures\<close>

datatype family_correction_procedure = Bh | BhG

datatype family_error =
    UnknownProcedure string
  | BadFamilySize
  | BadConfidence
  | BadPValue string string
  | DimensionPair
  | DuplicateMember string
  | DuplicateResult string
  | MissingResult string

definition resolveFamilyCorrectionProcedure :: "string option \<Rightarrow> family_error + family_correction_procedure" where
  "resolveFamilyCorrectionProcedure procedure = (case procedure of
     None \<Rightarrow> Inr Bh
   | Some p \<Rightarrow> if p = ''bh'' then Inr Bh else if p = ''bh_g'' then Inr BhG else Inl (UnknownProcedure p))"

definition harmonicNumber :: "nat \<Rightarrow> family_error + rat" where
  "harmonicNumber familySize = (if familySize < 1 then Inl BadFamilySize
     else Inr (fold (\<lambda>rank sum. fl (sum + fl (1 / of_nat rank))) [1..<familySize + 1] 0))"

definition familyCorrectionAlpha :: "rat \<Rightarrow> nat \<Rightarrow> family_correction_procedure \<Rightarrow> family_error + rat" where
  "familyCorrectionAlpha alpha familySize procedure = (case procedure of
     Bh \<Rightarrow> Inr alpha
   | BhG \<Rightarrow> ebind (harmonicNumber familySize) (\<lambda>h. Inr (fl (alpha / h))))"

text \<open>The level a p-value of the given rank has to meet, and the loop over the ranks.\<close>

definition rank_level :: "nat \<Rightarrow> rat \<Rightarrow> nat \<Rightarrow> rat" where
  "rank_level familySize correctedAlpha rank = fl (fl (of_nat rank / of_nat familySize) * correctedAlpha)"

fun rank_loop :: "(nat \<Rightarrow> rat) \<Rightarrow> nat \<Rightarrow> rat list \<Rightarrow> nat \<Rightarrow> nat" where
  "rank_loop level index [] maxRank = maxRank"
| "rank_loop level index (p # ps) maxRank =
     rank_loop level (index + 1) ps (if p \<le> level (index + 1) then index + 1 else maxRank)"

definition largestRejectedRank :: "rat list \<Rightarrow> rat \<Rightarrow> family_correction_procedure \<Rightarrow> family_error + nat" where
  "largestRejectedRank ps alpha procedure = (let familySize = length ps in
     if familySize = 0 then Inr 0
     else ebind (familyCorrectionAlpha alpha familySize procedure) (\<lambda>correctedAlpha.
       Inr (rank_loop (rank_level familySize correctedAlpha) 0 ps 0)))"

section \<open>The level from the confidence level\<close>

text \<open>
  \<open>Number(x.toPrecision(15))\<close> for a positive \<open>x\<close> up to 1: the decimal exponent, the 15
  digits (the larger of two equally near), and the nearest double of the result.
\<close>

function decimal_shift :: "rat \<Rightarrow> nat \<Rightarrow> nat" where
  "decimal_shift x k = (if x \<le> 0 \<or> 1 \<le> x * 10 ^ k then k else decimal_shift x (k + 1))"
  by pat_completeness auto

termination
proof (relation "measure (\<lambda>(x, k). nat \<lceil>1 / x\<rceil> - k)")
  fix x :: rat and k :: nat
  assume "\<not> (x \<le> 0 \<or> 1 \<le> x * 10 ^ k)"
  then have x: "0 < x" "x * 10 ^ k < 1" by auto
  have "of_nat k < (2::rat) ^ k" "(2::rat) ^ k \<le> 10 ^ k"
    using of_nat_less_two_power[of k] by (auto intro: power_mono)
  then have "of_nat k < (10::rat) ^ k" by linarith
  then have "x * of_nat k < x * 10 ^ k" using x(1) by (rule mult_strict_left_mono)
  with x have "x * of_nat k < 1" by linarith
  with x have "of_nat k < 1 / x" by (simp add: field_simps)
  then have "int k < \<lceil>1 / x\<rceil>" by linarith
  then have "k < nat \<lceil>1 / x\<rceil>" by linarith
  then show "((x, k + 1), (x, k)) \<in> measure (\<lambda>(x, k). nat \<lceil>1 / x\<rceil> - k)" by auto
qed simp

declare decimal_shift.simps [simp del]

definition to_precision_15 :: "rat \<Rightarrow> rat" where
  "to_precision_15 x = (let s = 10 ^ (decimal_shift x 0 + 14) in fl (of_int \<lfloor>x * s + 1 / 2\<rfloor> / s))"

definition alphaFromConfidenceLevel :: "jsnum \<Rightarrow> family_error + rat" where
  "alphaFromConfidenceLevel confidenceLevel =
     (if \<not> js_finite confidenceLevel \<or> js_val confidenceLevel \<le> 0 \<or> 1 \<le> js_val confidenceLevel then Inl BadConfidence
      else Inr (to_precision_15 (fl (1 - js_val confidenceLevel))))"

section \<open>The decision family\<close>

record family_member =
  fm_metric_id :: string
  fm_variant :: string
  fm_dimension_id :: "string option"
  fm_dimension_value :: "string option"

definition member_of :: "arm_result \<Rightarrow> family_member" where
  "member_of r = \<lparr>fm_metric_id = ar_metric_id r, fm_variant = ar_variant r,
     fm_dimension_id = ar_dimension_id r, fm_dimension_value = ar_dimension_value r\<rparr>"

definition json_nullable :: "string option \<Rightarrow> string" where
  "json_nullable v = (case v of None \<Rightarrow> ''null'' | Some s \<Rightarrow> json_string s)"

definition decisionFamilyKey :: "family_member \<Rightarrow> string" where
  "decisionFamilyKey m = ''['' @ join '','' [json_string (fm_metric_id m), json_string (fm_variant m),
     json_nullable (fm_dimension_id m), json_nullable (fm_dimension_value m)] @ '']''"

definition validateDimensionPair :: "family_member \<Rightarrow> family_error + unit" where
  "validateDimensionPair m =
     (if (fm_dimension_id m = None) \<noteq> (fm_dimension_value m = None) then Inl DimensionPair else Inr ())"

fun family_by_key :: "family_member list \<Rightarrow> (string, family_member) jsmap \<Rightarrow> family_error + (string, family_member) jsmap" where
  "family_by_key [] byKey = Inr byKey"
| "family_by_key (m # ms) byKey =
     ebind (validateDimensionPair m) (\<lambda>_.
       let key = decisionFamilyKey m in
       if map_of byKey key \<noteq> None then Inl (DuplicateMember key)
       else family_by_key ms (AList.update key m byKey))"

definition decisionFamilyByKey :: "family_member list \<Rightarrow> family_error + (string, family_member) jsmap" where
  "decisionFamilyByKey family = family_by_key family []"

fun validatePValues :: "arm_result list \<Rightarrow> family_error + unit" where
  "validatePValues [] = Inr ()"
| "validatePValues (r # rs) =
     (if \<not> js_finite (ar_p_value r) \<or> js_val (ar_p_value r) < 0 \<or> 1 < js_val (ar_p_value r)
      then Inl (BadPValue (ar_metric_id r) (ar_variant r)) else validatePValues rs)"

fun locked_results :: "arm_result list \<Rightarrow> (string, family_member) jsmap \<Rightarrow> (string, arm_result) jsmap
    \<Rightarrow> family_error + (string, arm_result) jsmap" where
  "locked_results [] familyByKey byKey = Inr byKey"
| "locked_results (r # rs) familyByKey byKey =
     ebind (validateDimensionPair (member_of r)) (\<lambda>_.
       let key = decisionFamilyKey (member_of r) in
       if map_of familyByKey key = None then locked_results rs familyByKey byKey
       else if map_of byKey key \<noteq> None then Inl (DuplicateResult key)
       else locked_results rs familyByKey (AList.update key r byKey))"

definition lockedResultsByKey :: "arm_result list \<Rightarrow> (string, family_member) jsmap \<Rightarrow> family_error + (string, arm_result) jsmap" where
  "lockedResultsByKey results familyByKey = locked_results results familyByKey []"

record ranked_member =
  rm_key :: string
  rm_member :: family_member
  rm_result :: arm_result

definition rm_p :: "ranked_member \<Rightarrow> rat" where
  "rm_p x = js_val (ar_p_value (rm_result x))"

text \<open>\<open>left.p_value - right.p_value || left.key.localeCompare(right.key)\<close> is positive.\<close>

definition ranks_after :: "(string \<Rightarrow> string \<Rightarrow> int) \<Rightarrow> ranked_member \<Rightarrow> ranked_member \<Rightarrow> bool" where
  "ranks_after lc x y = (let d = fl (rm_p x - rm_p y) in if d \<noteq> 0 then 0 < d else 0 < lc (rm_key x) (rm_key y))"

definition rankDecisionFamilyMembers :: "(string \<Rightarrow> string \<Rightarrow> int) \<Rightarrow> (string, family_member) jsmap
    \<Rightarrow> (string, arm_result) jsmap \<Rightarrow> family_error + ranked_member list" where
  "rankDecisionFamilyMembers lc familyByKey resultByKey =
     ebind (emap (\<lambda>(key, member). case map_of resultByKey key of
         None \<Rightarrow> Inl (MissingResult key)
       | Some r \<Rightarrow> Inr \<lparr>rm_key = key, rm_member = member, rm_result = r\<rparr>) familyByKey)
       (\<lambda>ranked. Inr (js_sort (ranks_after lc) ranked))"

definition rejectedDecisionKeys :: "ranked_member list \<Rightarrow> rat \<Rightarrow> family_correction_procedure \<Rightarrow> family_error + string list" where
  "rejectedDecisionKeys ranked alpha procedure =
     ebind (largestRejectedRank (map rm_p ranked) alpha procedure) (\<lambda>maxRank. Inr (map rm_key (take maxRank ranked)))"

definition markExploratoryRaw :: "rat \<Rightarrow> arm_result \<Rightarrow> arm_result" where
  "markExploratoryRaw alpha r = r\<lparr>ar_is_significant := js_val (ar_p_value r) < alpha, ar_in_bh_family := False,
     ar_exploratory := True, ar_decision_valid := False\<rparr>"

definition markLockedControl :: "arm_result \<Rightarrow> arm_result" where
  "markLockedControl r = r\<lparr>ar_is_significant := False, ar_in_bh_family := False,
     ar_exploratory := False, ar_decision_valid := True\<rparr>"

definition isSameMetricSlice :: "arm_result \<Rightarrow> family_member \<Rightarrow> bool" where
  "isSameMetricSlice r m \<longleftrightarrow> ar_metric_id r = fm_metric_id m \<and> ar_dimension_id r = fm_dimension_id m
     \<and> ar_dimension_value r = fm_dimension_value m"

definition isLockedControlResult :: "arm_result \<Rightarrow> string option \<Rightarrow> (string, family_member) jsmap \<Rightarrow> bool" where
  "isLockedControlResult r controlVariant familyByKey \<longleftrightarrow>
     controlVariant = Some (ar_variant r) \<and> list_ex (\<lambda>(_, m). isSameMetricSlice r m) familyByKey"

record correction_summary =
  cs_alpha :: rat
  cs_family_size_m :: nat
  cs_rejected :: "family_member list"

definition corrected_arm :: "rat \<Rightarrow> string option \<Rightarrow> (string, family_member) jsmap \<Rightarrow> string list \<Rightarrow> arm_result \<Rightarrow> arm_result" where
  "corrected_arm alpha controlVariant familyByKey rejected r =
     (let key = decisionFamilyKey (member_of r) in
      if map_of familyByKey key = None
      then if isLockedControlResult r controlVariant familyByKey then markLockedControl r else markExploratoryRaw alpha r
      else r\<lparr>ar_is_significant := key \<in> set rejected, ar_in_bh_family := True, ar_exploratory := False,
             ar_decision_valid := True\<rparr>)"

definition applyDecisionFamilyCorrection :: "(string \<Rightarrow> string \<Rightarrow> int) \<Rightarrow> arm_result list \<Rightarrow> family_member list \<Rightarrow> jsnum
    \<Rightarrow> string option \<Rightarrow> string option \<Rightarrow> family_error + arm_result list \<times> correction_summary" where
  "applyDecisionFamilyCorrection lc results family confidenceLevel controlVariant correction =
     ebind (alphaFromConfidenceLevel confidenceLevel) (\<lambda>alpha.
     ebind (resolveFamilyCorrectionProcedure correction) (\<lambda>procedure.
     ebind (decisionFamilyByKey family) (\<lambda>familyByKey.
     ebind (validatePValues results) (\<lambda>_.
     if familyByKey = [] then
       Inr (map (markExploratoryRaw alpha) results, \<lparr>cs_alpha = alpha, cs_family_size_m = 0, cs_rejected = []\<rparr>)
     else
       ebind (lockedResultsByKey results familyByKey) (\<lambda>resultByKey.
       ebind (rankDecisionFamilyMembers lc familyByKey resultByKey) (\<lambda>ranked.
       ebind (rejectedDecisionKeys ranked alpha procedure) (\<lambda>rejected.
         Inr (map (corrected_arm alpha controlVariant familyByKey rejected) results,
              \<lparr>cs_alpha = alpha, cs_family_size_m = length familyByKey,
               cs_rejected = map rm_member (filter (\<lambda>x. rm_key x \<in> set rejected) ranked)\<rparr>))))))))"

section \<open>The step-up rule\<close>

lemma rank_loop_cases:
  "(rank_loop level i ps mx = mx \<and> (\<forall>j<length ps. \<not> ps ! j \<le> level (i + j + 1)))
   \<or> (\<exists>j<length ps. rank_loop level i ps mx = i + j + 1 \<and> ps ! j \<le> level (i + j + 1)
        \<and> (\<forall>k<length ps. j < k \<longrightarrow> \<not> ps ! k \<le> level (i + k + 1)))"
proof (induction ps arbitrary: i mx)
  case (Cons p ps)
  let ?mx = "if p \<le> level (i + 1) then i + 1 else mx"
  from Cons.IH[of "i + 1" ?mx] show ?case
  proof
    assume a: "rank_loop level (i + 1) ps ?mx = ?mx \<and> (\<forall>j<length ps. \<not> ps ! j \<le> level (i + 1 + j + 1))"
    then have later: "\<not> (p # ps) ! k \<le> level (i + k + 1)" if "k < length (p # ps)" "0 < k" for k
      using that by (cases k) auto
    show ?thesis
    proof (cases "p \<le> level (i + 1)")
      case True
      then show ?thesis using a later by (intro disjI2 exI[of _ 0]) auto
    next
      case False
      have "\<not> (p # ps) ! k \<le> level (i + k + 1)" if "k < length (p # ps)" for k
        using later[OF that] False by (cases "k = 0") auto
      with a False show ?thesis by auto
    qed
  next
    assume "\<exists>j<length ps. rank_loop level (i + 1) ps ?mx = i + 1 + j + 1 \<and> ps ! j \<le> level (i + 1 + j + 1)
        \<and> (\<forall>k<length ps. j < k \<longrightarrow> \<not> ps ! k \<le> level (i + 1 + k + 1))"
    then obtain j where j: "j < length ps" "rank_loop level (i + 1) ps ?mx = i + 1 + j + 1"
      "ps ! j \<le> level (i + 1 + j + 1)" "\<forall>k<length ps. j < k \<longrightarrow> \<not> ps ! k \<le> level (i + 1 + k + 1)" by blast
    have "\<not> (p # ps) ! k \<le> level (i + k + 1)" if "k < length (p # ps)" "Suc j < k" for k
      using j(4) that by (cases k) auto
    with j show ?thesis by (intro disjI2 exI[of _ "Suc j"]) auto
  qed
qed simp

lemma count_le:
  "sorted ps \<Longrightarrow> k \<le> length (filter (\<lambda>p. p \<le> c) ps) \<longleftrightarrow> k = 0 \<or> (k \<le> length ps \<and> ps ! (k - 1) \<le> (c :: rat))"
proof (induction ps arbitrary: k)
  case (Cons p qs)
  have small: "filter (\<lambda>p. p \<le> c) qs = []" if "\<not> p \<le> c"
    using that Cons.prems by (auto simp: filter_empty_conv)
  have later: "\<not> (p # qs) ! (k - 1) \<le> c" if "\<not> p \<le> c" "k \<le> length (p # qs)" "k \<noteq> 0"
    using that Cons.prems nth_mem[of "k - 1" "p # qs"] by auto force
  show ?case
  proof (cases "p \<le> c")
    case True
    show ?thesis
    proof (cases k)
      case (Suc m)
      have "m \<le> length (filter (\<lambda>p. p \<le> c) qs) \<longleftrightarrow> m = 0 \<or> (m \<le> length qs \<and> qs ! (m - 1) \<le> c)"
        using Cons by simp
      then show ?thesis using True Suc by (cases m) auto
    qed simp
  next
    case False
    then show ?thesis using small later by auto
  qed
qed auto

text \<open>
  The rule over an ascending list, with levels that grow with the rank: what is rejected is
  exactly what meets the level of the number of rejections, the largest number that as
  many p-values support.
\<close>

locale step_up =
  fixes level :: "nat \<Rightarrow> rat"
  assumes level_mono: "j \<le> k \<Longrightarrow> level j \<le> level k" and level_0: "level 0 = 0"
begin

abbreviation R where "R ps \<equiv> rank_loop level 0 ps 0"

lemma R_le: "R ps \<le> length ps"
  using rank_loop_cases[of level 0 ps 0] by auto

lemma below:
  assumes "sorted ps" "i < R ps"
  shows "ps ! i \<le> level (R ps)"
proof -
  obtain j where "j < length ps" "R ps = j + 1" "ps ! j \<le> level (j + 1)"
    using rank_loop_cases[of level 0 ps 0] assms(2) by auto
  with assms(2) sorted_nth_mono[OF assms(1), of i j] show ?thesis by force
qed

lemma beyond: "R ps \<le> i \<Longrightarrow> i < length ps \<Longrightarrow> \<not> ps ! i \<le> level (i + 1)"
  using rank_loop_cases[of level 0 ps 0] by auto

lemma rejected_iff:
  assumes "sorted ps" "i < length ps"
  shows "i < R ps \<longleftrightarrow> ps ! i \<le> level (R ps)"
  using below[OF assms(1)] beyond[OF _ assms(2)] level_mono[of "R ps" "i + 1"] by force

lemma R_greatest:
  "sorted ps \<Longrightarrow> k \<le> length ps \<Longrightarrow> k \<le> length (filter (\<lambda>p. p \<le> level k) ps) \<Longrightarrow> k \<le> R ps"
  using count_le[of ps k "level k"] beyond[of ps "k - 1"] by (cases k) force+

lemma R_count:
  assumes "sorted ps"
  shows "length (filter (\<lambda>p. p \<le> level (R ps)) ps) = R ps"
proof (rule antisym)
  show "R ps \<le> length (filter (\<lambda>p. p \<le> level (R ps)) ps)"
    using count_le[OF assms, of "R ps" "level (R ps)"] R_le[of ps] below[OF assms, of "R ps - 1"] by (cases "R ps") auto
  show "length (filter (\<lambda>p. p \<le> level (R ps)) ps) \<le> R ps"
    using count_le[OF assms, of "Suc (R ps)" "level (R ps)"] rejected_iff[OF assms, of "R ps"]
    by (auto simp: not_le[symmetric])
qed

end

lemma rank_level_mono: "0 \<le> a \<Longrightarrow> j \<le> k \<Longrightarrow> rank_level m a j \<le> rank_level m a k"
  unfolding rank_level_def by (intro fl_mono mult_right_mono divide_right_mono) auto

interpretation bh: step_up "rank_level m \<bar>a\<bar>" for m a
proof
  show "rank_level m \<bar>a\<bar> j \<le> rank_level m \<bar>a\<bar> k" if "j \<le> k" for j k using that by (intro rank_level_mono) auto
qed (simp add: rank_level_def)

interpretation ranked: sorts_by "ranks_after lc" rm_p for lc
  by unfold_locales (auto simp: ranks_after_def Let_def split: if_splits)

section \<open>Keys\<close>

lemma json_nullable_cancel: "json_nullable a @ x = json_nullable b @ y \<Longrightarrow> a = b \<and> x = y"
  by (auto simp: json_nullable_def json_string_def quoted_def split: option.splits
      dest: json_string_cancel[unfolded json_string_def quoted_def, simplified])

lemma decisionFamilyKey_inj: "decisionFamilyKey m = decisionFamilyKey m' \<Longrightarrow> m = m'"
proof -
  assume "decisionFamilyKey m = decisionFamilyKey m'"
  then have "json_string (fm_metric_id m) @ CHR '','' # json_string (fm_variant m) @ CHR '','' #
      json_nullable (fm_dimension_id m) @ CHR '','' # json_nullable (fm_dimension_value m) @ '']''
    = json_string (fm_metric_id m') @ CHR '','' # json_string (fm_variant m') @ CHR '','' #
      json_nullable (fm_dimension_id m') @ CHR '','' # json_nullable (fm_dimension_value m') @ '']''"
    by (simp add: decisionFamilyKey_def)
  note 1 = json_string_cancel[OF this]
  then have 2: "json_string (fm_variant m) @ CHR '','' #
      json_nullable (fm_dimension_id m) @ CHR '','' # json_nullable (fm_dimension_value m) @ '']''
    = json_string (fm_variant m') @ CHR '','' #
      json_nullable (fm_dimension_id m') @ CHR '','' # json_nullable (fm_dimension_value m') @ '']''" by simp
  note 2 = json_string_cancel[OF this]
  then have "json_nullable (fm_dimension_id m) @ CHR '','' # json_nullable (fm_dimension_value m) @ '']''
    = json_nullable (fm_dimension_id m') @ CHR '','' # json_nullable (fm_dimension_value m') @ '']''" by simp
  note 3 = json_nullable_cancel[OF this]
  then have "json_nullable (fm_dimension_value m) @ '']'' = json_nullable (fm_dimension_value m') @ '']''" by simp
  note 4 = json_nullable_cancel[OF this]
  show ?thesis using 1 2 3 4 by simp
qed

section \<open>What the maps hold\<close>

abbreviation key_of :: "arm_result \<Rightarrow> string" where
  "key_of r \<equiv> decisionFamilyKey (member_of r)"

lemma family_by_key_eq:
  "family_by_key ms acc = Inr fam \<Longrightarrow> distinct (map fst acc) \<Longrightarrow>
     fam = acc @ map (\<lambda>m. (decisionFamilyKey m, m)) ms \<and> distinct (map fst fam)"
proof (induction ms arbitrary: acc)
  case (Cons m ms)
  let ?k = "decisionFamilyKey m"
  have fresh: "map_of acc ?k = None" and
    rest: "family_by_key ms (AList.update ?k m acc) = Inr fam"
    using Cons.prems(1) by (auto simp: ebind_eq_Inr Let_def split: if_splits)
  have "?k \<notin> fst ` set acc" using fresh by (simp add: map_of_eq_None)
  then have u: "AList.update ?k m acc = acc @ [(?k, m)]" by (rule update_fresh)
  have d: "distinct (map fst (acc @ [(?k, m)]))" using Cons.prems(2) \<open>?k \<notin> fst ` set acc\<close> by simp
  note ih = Cons.IH[OF rest, unfolded u, OF d]
  show ?case by (rule conjI[OF _ ih[THEN conjunct2]]) (use ih[THEN conjunct1] in simp)
qed simp

lemma decisionFamilyByKey_eq:
  "decisionFamilyByKey ms = Inr fam \<Longrightarrow>
     fam = map (\<lambda>m. (decisionFamilyKey m, m)) ms \<and> distinct (map fst fam)"
  using family_by_key_eq[of ms "[]" fam] unfolding decisionFamilyByKey_def
  by (metis append_Nil distinct.simps(1) list.map(1))

lemma locked_results_eq:
  "locked_results rs fam acc = Inr byKey \<Longrightarrow> distinct (map fst acc) \<Longrightarrow>
     byKey = acc @ map (\<lambda>r. (key_of r, r)) (filter (\<lambda>r. map_of fam (key_of r) \<noteq> None) rs)
     \<and> distinct (map fst byKey)"
proof (induction rs arbitrary: acc)
  case (Cons r rs)
  show ?case
  proof (cases "map_of fam (key_of r) = None")
    case True
    with Cons show ?thesis by (auto simp: ebind_eq_Inr Let_def)
  next
    case False
    have fresh: "map_of acc (key_of r) = None"
      and rest: "locked_results rs fam (AList.update (key_of r) r acc) = Inr byKey"
      using Cons.prems(1) False by (auto simp: ebind_eq_Inr Let_def split: if_splits)
    have n: "key_of r \<notin> fst ` set acc" using fresh by (simp add: map_of_eq_None)
    then have u: "AList.update (key_of r) r acc = acc @ [(key_of r, r)]" by (rule update_fresh)
    have d: "distinct (map fst (acc @ [(key_of r, r)]))" using Cons.prems(2) n by simp
    note ih = Cons.IH[OF rest, unfolded u, OF d]
    show ?thesis by (rule conjI[OF _ ih[THEN conjunct2]]) (use ih[THEN conjunct1] False in simp)
  qed
qed simp

lemma member_key: "map_of (map (\<lambda>m. (decisionFamilyKey m, m)) ms) (key_of r) \<noteq> None \<longleftrightarrow> member_of r \<in> set ms"
  by (auto simp: map_of_eq_None_iff dest: decisionFamilyKey_inj) force

lemma validated: "validatePValues rs = Inr u \<Longrightarrow> r \<in> set rs \<Longrightarrow>
    js_finite (ar_p_value r) \<and> 0 \<le> js_val (ar_p_value r) \<and> js_val (ar_p_value r) \<le> 1"
  by (induction rs) (auto split: if_splits)

lemma ranked_facts:
  assumes "decisionFamilyByKey ms = Inr fam" "lockedResultsByKey rs fam = Inr byKey"
    and "rankDecisionFamilyMembers lc fam byKey = Inr rk"
  shows "distinct (map rm_key rk)" "length rk = length ms" "sorted (map rm_p rk)"
    and "x \<in> set rk \<Longrightarrow> rm_key x = key_of (rm_result x) \<and> rm_result x \<in> set rs"
    and "mset (map rm_result rk) = mset (filter (\<lambda>r. member_of r \<in> set ms) rs)"
proof -
  let ?get = "\<lambda>(key, member). case map_of byKey key of None \<Rightarrow> Inl (MissingResult key)
       | Some r \<Rightarrow> Inr \<lparr>rm_key = key, rm_member = member, rm_result = r\<rparr>"
  obtain raw where raw: "emap ?get fam = Inr raw" "rk = js_sort (ranks_after lc) raw"
    using assms(3) by (auto simp: rankDecisionFamilyMembers_def ebind_eq_Inr)
  note fam = decisionFamilyByKey_eq[OF assms(1)]
  have bk: "byKey = map (\<lambda>r. (key_of r, r)) (filter (\<lambda>r. member_of r \<in> set ms) rs)" "distinct (map fst byKey)"
    using locked_results_eq[of rs fam "[]" byKey] assms(2) fam member_key
    by (auto simp: lockedResultsByKey_def)
  have r: "list_all2 (\<lambda>(key, m) x. rm_key x = key \<and> map_of byKey key = Some (rm_result x)) fam raw"
    using raw(1) unfolding emap_eq_Inr by (rule list.rel_mono_strong) (auto split: option.splits)
  have keys: "map rm_key raw = map fst fam"
    using r by (induction rule: list_all2_induct) auto
  have res: "x \<in> set raw \<Longrightarrow> map_of byKey (rm_key x) = Some (rm_result x)" for x
    using r by (induction rule: list_all2_induct) auto
  have "mset (map rm_key rk) = mset (map fst fam)"
    unfolding raw(2) by (simp flip: keys)
  then show d: "distinct (map rm_key rk)" using fam by (metis mset_eq_imp_distinct_iff)
  show "length rk = length ms" using keys fam unfolding raw(2) by (metis length_js_sort length_map)
  show "sorted (map rm_p rk)" unfolding raw(2) by (rule ranked.sorted_js_sort)
  have x: "rm_key x = key_of (rm_result x) \<and> rm_result x \<in> set rs \<and> member_of (rm_result x) \<in> set ms" if "x \<in> set rk" for x
    using res[of x] that unfolding raw(2) by (auto simp: bk(1) dest!: map_of_SomeD)
  then show "x \<in> set rk \<Longrightarrow> rm_key x = key_of (rm_result x) \<and> rm_result x \<in> set rs" by blast
  have d1: "distinct (map rm_result rk)"
    using d x by (auto simp: distinct_map inj_on_def)
  have d2: "distinct (filter (\<lambda>r. member_of r \<in> set ms) rs)"
    using bk(2) unfolding bk(1) by (simp add: comp_def distinct_map)
  have "set (map rm_result rk) = set (filter (\<lambda>r. member_of r \<in> set ms) rs)"
  proof
    show "set (map rm_result rk) \<subseteq> set (filter (\<lambda>r. member_of r \<in> set ms) rs)" using x by auto
  next
    show "set (filter (\<lambda>r. member_of r \<in> set ms) rs) \<subseteq> set (map rm_result rk)"
    proof
      fix r assume r: "r \<in> set (filter (\<lambda>r. member_of r \<in> set ms) rs)"
      then have "key_of r \<in> set (map rm_key raw)" using fam keys by auto
      then obtain y where y: "y \<in> set raw" "rm_key y = key_of r" by auto
      have "map_of byKey (key_of r) = Some r" using r bk(2) by (simp add: bk(1))
      with res[OF y(1)] y show "r \<in> set (map rm_result rk)" unfolding raw(2) by force
    qed
  qed
  with d1 d2 show "mset (map rm_result rk) = mset (filter (\<lambda>r. member_of r \<in> set ms) rs)"
    by (simp only: set_eq_iff_mset_eq_distinct)
qed

lemma alpha_nonneg: "alphaFromConfidenceLevel c = Inr alpha \<Longrightarrow> 0 \<le> alpha"
  by (auto simp: alphaFromConfidenceLevel_def to_precision_15_def Let_def split: if_splits)

lemma corrected_nonneg: "0 \<le> alpha \<Longrightarrow> familyCorrectionAlpha alpha m proc = Inr a \<Longrightarrow> 0 \<le> a"
proof -
  have "0 \<le> s \<Longrightarrow> 0 \<le> fold (\<lambda>rank sum. fl (sum + fl (1 / of_nat rank))) ks s" for ks :: "nat list" and s
    by (induction ks arbitrary: s) auto
  then show "0 \<le> alpha \<Longrightarrow> familyCorrectionAlpha alpha m proc = Inr a \<Longrightarrow> 0 \<le> a"
    by (auto simp: familyCorrectionAlpha_def harmonicNumber_def split: family_correction_procedure.splits if_splits)
qed

section \<open>Properties\<close>

text \<open>The parts of a successful correction.\<close>

lemma correction_parts:
  assumes "applyDecisionFamilyCorrection lc rs ms cl control correction = Inr (arms, summary)" "ms \<noteq> []"
  obtains alpha proc fam byKey rk a where
    "alphaFromConfidenceLevel cl = Inr alpha" "resolveFamilyCorrectionProcedure correction = Inr proc"
    "decisionFamilyByKey ms = Inr fam" "validatePValues rs = Inr ()" "lockedResultsByKey rs fam = Inr byKey"
    "rankDecisionFamilyMembers lc fam byKey = Inr rk" "familyCorrectionAlpha alpha (length ms) proc = Inr a"
    "arms = map (corrected_arm alpha control fam
      (map rm_key (take (rank_loop (rank_level (length ms) a) 0 (map rm_p rk) 0) rk))) rs"
    "length (cs_rejected summary) = length (filter (\<lambda>x. rm_key x
      \<in> set (map rm_key (take (rank_loop (rank_level (length ms) a) 0 (map rm_p rk) 0) rk))) rk)"
proof -
  obtain alpha where 1: "alphaFromConfidenceLevel cl = Inr alpha"
    using assms(1) by (auto simp: applyDecisionFamilyCorrection_def ebind_eq_Inr)
  obtain proc where 2: "resolveFamilyCorrectionProcedure correction = Inr proc"
    using assms(1) 1 by (auto simp: applyDecisionFamilyCorrection_def ebind_eq_Inr)
  obtain fam where 3: "decisionFamilyByKey ms = Inr fam"
    using assms(1) 1 2 by (auto simp: applyDecisionFamilyCorrection_def ebind_eq_Inr)
  have 4: "validatePValues rs = Inr ()"
    using assms(1) 1 2 3 by (auto simp: applyDecisionFamilyCorrection_def ebind_eq_Inr)
  have ne: "fam \<noteq> []" using decisionFamilyByKey_eq[OF 3] assms(2) by auto
  obtain byKey where 5: "lockedResultsByKey rs fam = Inr byKey"
    using assms(1) 1 2 3 4 ne by (auto simp: applyDecisionFamilyCorrection_def ebind_eq_Inr)
  obtain rk where 6: "rankDecisionFamilyMembers lc fam byKey = Inr rk"
    using assms(1) 1 2 3 4 5 ne by (auto simp: applyDecisionFamilyCorrection_def ebind_eq_Inr)
  note len = ranked_facts(2)[OF 3 5 6]
  obtain keys where 7: "rejectedDecisionKeys rk alpha proc = Inr keys"
    "arms = map (corrected_arm alpha control fam keys) rs"
    "cs_rejected summary = map rm_member (filter (\<lambda>x. rm_key x \<in> set keys) rk)"
    using assms(1) 1 2 3 4 5 6 ne by (auto simp: applyDecisionFamilyCorrection_def ebind_eq_Inr)
  obtain a where 8: "familyCorrectionAlpha alpha (length ms) proc = Inr a"
    "keys = map rm_key (take (rank_loop (rank_level (length ms) a) 0 (map rm_p rk) 0) rk)"
    using 7(1) len assms(2) by (auto simp: rejectedDecisionKeys_def largestRejectedRank_def ebind_eq_Inr Let_def)
  show ?thesis by (rule that[OF 1 2 3 4 5 6 8(1)]) (use 7 8 in simp_all)
qed

lemma take_keys:
  assumes "distinct (map f xs)" "n \<le> length xs"
  shows "length (filter (\<lambda>x. f x \<in> set (map f (take n xs))) xs) = n"
    and "i < length xs \<Longrightarrow> f (xs ! i) \<in> set (map f (take n xs)) \<longleftrightarrow> i < n"
proof -
  have mem: "f (xs ! i) \<in> set (map f (take n xs)) \<longleftrightarrow> i < n" if "i < length xs" for i
  proof
    assume "f (xs ! i) \<in> set (map f (take n xs))"
    then obtain y where y: "y \<in> set (take n xs)" "f y = f (xs ! i)" by auto
    then obtain j where "j < n" "j < length xs" "y = xs ! j" by (auto simp: in_set_conv_nth)
    with y that have "j < n" "j < length xs" "map f xs ! i = map f xs ! j" by auto
    then show "i < n" using nth_eq_iff_index_eq[OF assms(1), of i j] that by simp
  next
    assume "i < n"
    then have "xs ! i \<in> set (take n xs)" using that by (auto simp: in_set_conv_nth intro!: exI[of _ i])
    then show "f (xs ! i) \<in> set (map f (take n xs))" by simp
  qed
  show "length (filter (\<lambda>x. f x \<in> set (map f (take n xs))) xs) = n"
  proof -
    have "{i. i < length xs \<and> i < n} = {..<n}" using assms(2) by auto
    then show ?thesis using mem by (simp add: length_filter_conv_card cong: conj_cong)
  qed
  show "i < length xs \<Longrightarrow> f (xs ! i) \<in> set (map f (take n xs)) \<longleftrightarrow> i < n" by (rule mem)
qed

lemma corrected_member:
  assumes "map_of fam (key_of r) \<noteq> None"
  shows "ar_in_bh_family (corrected_arm alpha control fam rejected r)
    \<and> ar_decision_valid (corrected_arm alpha control fam rejected r)
    \<and> (ar_is_significant (corrected_arm alpha control fam rejected r) \<longleftrightarrow> key_of r \<in> set rejected)"
  using assms by (auto simp: corrected_arm_def Let_def)

lemma corrected_other:
  assumes "map_of fam (key_of r) = None"
  shows "\<not> ar_in_bh_family (corrected_arm alpha control fam rejected r)
    \<and> (ar_decision_valid (corrected_arm alpha control fam rejected r)
       \<longrightarrow> \<not> ar_is_significant (corrected_arm alpha control fam rejected r) \<and> control = Some (ar_variant r))"
  using assms by (simp add: corrected_arm_def markLockedControl_def markExploratoryRaw_def isLockedControlResult_def Let_def)

text \<open>
  C36: significance in a decision family is the step-up rule, in whatever order the results
  come and however ties are collated. With the level of rank k being k/m of the corrected
  level, the number R of rejections is the largest k that at least k of the family's
  p-values support, and a member is significant exactly when its p-value meets the level of
  R; every member, and no result outside the family but the Control, is decision valid.
\<close>

theorem significance_is_step_up:
  assumes "applyDecisionFamilyCorrection lc results family confidence control correction = Inr (arms, summary)"
    and "family \<noteq> []"
    and "ps = map (\<lambda>r. js_val (ar_p_value r)) (filter (\<lambda>r. member_of r \<in> set family) results)"
    and "R = length (cs_rejected summary)"
  shows "\<exists>a. ebind (alphaFromConfidenceLevel confidence) (\<lambda>alpha.
      ebind (resolveFamilyCorrectionProcedure correction) (familyCorrectionAlpha alpha (length family))) = Inr a
    \<and> length ps = length family
    \<and> length (filter (\<lambda>p. p \<le> rank_level (length family) a R) ps) = R
    \<and> (\<forall>k\<le>length family. k \<le> length (filter (\<lambda>p. p \<le> rank_level (length family) a k) ps) \<longrightarrow> k \<le> R)
    \<and> list_all2 (\<lambda>r r'. if member_of r \<in> set family
        then ar_in_bh_family r' \<and> ar_decision_valid r'
          \<and> (ar_is_significant r' \<longleftrightarrow> js_val (ar_p_value r) \<le> rank_level (length family) a R)
        else \<not> ar_in_bh_family r' \<and> (ar_decision_valid r' \<longrightarrow> \<not> ar_is_significant r' \<and> control = Some (ar_variant r))) results arms"
proof -
  from correction_parts[OF assms(1,2)] obtain alpha proc fam byKey rk a where
    alpha: "alphaFromConfidenceLevel confidence = Inr alpha" "resolveFamilyCorrectionProcedure correction = Inr proc"
    and fam: "decisionFamilyByKey family = Inr fam" and valid: "validatePValues results = Inr ()"
    and locked: "lockedResultsByKey results fam = Inr byKey"
    and rk: "rankDecisionFamilyMembers lc fam byKey = Inr rk"
    and a: "familyCorrectionAlpha alpha (length family) proc = Inr a"
    and arms: "arms = map (corrected_arm alpha control fam
      (map rm_key (take (rank_loop (rank_level (length family) a) 0 (map rm_p rk) 0) rk))) results"
    and sum: "length (cs_rejected summary) = length (filter (\<lambda>x. rm_key x
      \<in> set (map rm_key (take (rank_loop (rank_level (length family) a) 0 (map rm_p rk) 0) rk))) rk)" by metis
  let ?ps = "map rm_p rk" and ?level = "rank_level (length family) a"
    and ?arm = "corrected_arm alpha control fam (map rm_key (take R rk))"
  note facts = ranked_facts[OF fam locked rk]
  have abs: "\<bar>a\<bar> = a" using corrected_nonneg[OF alpha_nonneg[OF alpha(1)] a] by simp
  note rules = bh.rejected_iff[where m = "length family" and a = a and ps = ?ps, unfolded abs, OF facts(3)]
    bh.R_greatest[where m = "length family" and a = a and ps = ?ps, unfolded abs, OF facts(3)]
    bh.R_count[where m = "length family" and a = a and ps = ?ps, unfolded abs, OF facts(3)]
    bh.R_le[where m = "length family" and a = a and ps = ?ps, unfolded abs]
  have R: "R = rank_loop ?level 0 ?ps 0"
    using take_keys(1)[OF facts(1), of "rank_loop ?level 0 ?ps 0"] rules(4) unfolding assms(4) sum by simp
  have "mset ?ps = image_mset (\<lambda>r. js_val (ar_p_value r)) (mset (map rm_result rk))"
    by (simp add: rm_p_def[abs_def] multiset.map_comp comp_def)
  then have ps: "mset ps = mset ?ps" unfolding facts(5) assms(3) by simp
  have count: "length (filter P ps) = length (filter P ?ps)" for P
    using ps by (metis mset_filter size_mset)
  have sig: "key_of r \<in> set (map rm_key (take R rk)) \<longleftrightarrow> js_val (ar_p_value r) \<le> ?level R"
    if "r \<in> set results" "member_of r \<in> set family" for r
  proof -
    have "r \<in> set (map rm_result rk)" using that mset_eq_setD[OF facts(5)] by simp
    then obtain i where i: "i < length rk" "rm_result (rk ! i) = r" by (auto simp: in_set_conv_nth)
    then have "rm_key (rk ! i) = key_of r" using facts(4)[of "rk ! i"] by auto
    then have "key_of r \<in> set (map rm_key (take R rk)) \<longleftrightarrow> i < R"
      using take_keys(2)[OF facts(1) _ i(1), of R] rules(4) unfolding R by simp
    also have "\<dots> \<longleftrightarrow> js_val (ar_p_value r) \<le> ?level R"
      using rules(1)[of i] i unfolding R by (simp add: rm_p_def)
    finally show ?thesis .
  qed
  have none: "map_of fam (key_of r) = None \<longleftrightarrow> member_of r \<notin> set family" for r
    unfolding decisionFamilyByKey_eq[OF fam, THEN conjunct1] using member_key by blast
  have "length ps = length family" using ps facts(2) by (metis length_map size_mset)
  moreover have "list_all2 (\<lambda>r r'. if member_of r \<in> set family
        then ar_in_bh_family r' \<and> ar_decision_valid r' \<and> (ar_is_significant r' \<longleftrightarrow> js_val (ar_p_value r) \<le> ?level R)
        else \<not> ar_in_bh_family r' \<and> (ar_decision_valid r' \<longrightarrow> \<not> ar_is_significant r' \<and> control = Some (ar_variant r))) results arms"
    unfolding arms R[symmetric] list_all2_map2
  proof (rule list.rel_refl_strong)
    fix r assume r: "r \<in> set results"
    show "if member_of r \<in> set family
        then ar_in_bh_family (?arm r) \<and> ar_decision_valid (?arm r)
          \<and> (ar_is_significant (?arm r) \<longleftrightarrow> js_val (ar_p_value r) \<le> ?level R)
        else \<not> ar_in_bh_family (?arm r)
          \<and> (ar_decision_valid (?arm r) \<longrightarrow> \<not> ar_is_significant (?arm r) \<and> control = Some (ar_variant r))"
      using none[of r] sig[OF r] corrected_member[of fam r] corrected_other[of fam r] by simp
  qed
  ultimately show ?thesis
    using alpha a rules(2,3) unfolding count R[symmetric] by (intro exI[of _ a]) (auto simp: facts(2))
qed

text \<open>Two Treatments of one Metric at the confidence level 0.95, one of them significant.\<close>

definition sample_arms :: "arm_result list" where
  "sample_arms = [sample_arm ''control'' 1, sample_arm ''b'' (1 / 2), sample_arm ''c'' (1 / 128)]"

definition sample_family :: "family_member list" where
  "sample_family = [member_of (sample_arm ''b'' 0), member_of (sample_arm ''c'' 0)]"

definition sample_correction :: "family_error + arm_result list \<times> correction_summary" where
  "sample_correction = applyDecisionFamilyCorrection (\<lambda>_ _. 0) sample_arms sample_family (Fin (fl (95 / 100))) (Some ''control'') None"

lemma sample_levels:
  "alphaFromConfidenceLevel (Fin (fl (95 / 100))) = Inr (fl (1 / 20))"
  "1 \<le> rank_level (Suc (Suc 0)) (fl (1 / 20)) (Suc 0) * 128"
  "\<not> 1 \<le> rank_level (Suc (Suc 0)) (fl (1 / 20)) (Suc (Suc 0)) * 2" by code_simp+

lemma sample_key:
  "decisionFamilyKey \<lparr>fm_metric_id = ''m'', fm_variant = v, fm_dimension_id = None, fm_dimension_value = None\<rparr>
    = ''[\"m\",'' @ json_string v @ '',null,null]''"
  by (simp add: decisionFamilyKey_def json_string_def json_char_def quoted_def Let_def json_nullable_def)

lemma sample_correction_runs:
  "(case sample_correction of Inl _ \<Rightarrow> False | Inr (arms, summary) \<Rightarrow>
     map ar_is_significant arms = [False, False, True] \<and> map ar_decision_valid arms = [True, True, True]
     \<and> length (cs_rejected summary) = 1)"
  unfolding sample_correction_def sample_arms_def sample_family_def applyDecisionFamilyCorrection_def sample_levels(1)
  by (simp add: sample_levels sample_key sample_arm_def member_of_def resolveFamilyCorrectionProcedure_def
    decisionFamilyByKey_def validateDimensionPair_def Let_def lockedResultsByKey_def rankDecisionFamilyMembers_def
    rejectedDecisionKeys_def largestRejectedRank_def rm_p_def familyCorrectionAlpha_def js_sort_def ranks_after_def
    corrected_arm_def isLockedControlResult_def isSameMetricSlice_def markLockedControl_def json_string_def
    json_char_def quoted_def)

theorem significance_is_step_up_witness:
  "\<exists>arms summary a. sample_correction = Inr (arms, summary) \<and> length (cs_rejected summary) = 1
     \<and> map ar_is_significant arms = [False, False, True]
     \<and> ebind (alphaFromConfidenceLevel (Fin (fl (95 / 100)))) (\<lambda>alpha.
         ebind (resolveFamilyCorrectionProcedure None) (familyCorrectionAlpha alpha (length sample_family))) = Inr a
     \<and> length (filter (\<lambda>p. p \<le> rank_level (length sample_family) a 1) [1 / 2, 1 / 128]) = 1"
proof -
  obtain arms summary where run: "sample_correction = Inr (arms, summary)"
      "map ar_is_significant arms = [False, False, True]" "length (cs_rejected summary) = 1"
    using sample_correction_runs by (auto split: sum.splits)
  have ps: "[1 / 2, 1 / 128] = map (\<lambda>r. js_val (ar_p_value r)) (filter (\<lambda>r. member_of r \<in> set sample_family) sample_arms)"
    by (simp add: member_of_def sample_arm_def sample_arms_def sample_family_def)
  have "sample_family \<noteq> []" by (simp add: sample_family_def)
  from significance_is_step_up[OF run(1)[unfolded sample_correction_def] this ps refl, unfolded run(3)]
  obtain a where "ebind (alphaFromConfidenceLevel (Fin (fl (95 / 100)))) (\<lambda>alpha.
         ebind (resolveFamilyCorrectionProcedure None) (familyCorrectionAlpha alpha (length sample_family))) = Inr a"
      "length (filter (\<lambda>p. p \<le> rank_level (length sample_family) a 1) [1 / 2, 1 / 128]) = 1"
    by (elim exE conjE)
  with run show ?thesis by (intro exI conjI)
qed

end
