(* ===== verification/DecisionGate.thy ===== *)
theory DecisionGate
  imports Stats
begin

text \<open>
  The gate in front of a ship decision: the checks of
  \<open>packages/stats/src/decision-gate-*.ts\<close>, their evaluation and the diagnostics beside
  them (\<open>decision-gate.ts\<close>), and the identity of the Control a Run froze
  (\<open>packages/contracts/src/experiment-control-identity.ts\<close>). The sentence a check cites as
  \<open>detail\<close> is left out; every status and title is the code's. \<open>Date.parse\<close>, which belongs to
  the host, is the parameter \<open>parse\<close>; the text of the frozen Variant set is given by what
  \<open>JSON.parse\<close> returns for it, \<open>None\<close> where that throws.
\<close>

section \<open>The Control a Run froze\<close>

datatype unresolvable_reason = AbsentFromFrozenVariantSet | UnreadableFrozenVariantSet

datatype control_identity =
    ControlFrozen (control_id: string) (control_name: string)
  | ControlDisagreement string string string
  | ControlUnresolvable string unresolvable_reason "string list" string

datatype control_resolution =
    ResolvedFrozen string string
  | ResolvedUnresolvable string unresolvable_reason "string list"

datatype gate_error = MissingAnalysisControl | BadControlIdentity | BadTimestamp string | BadPlannedDuration

fun frozen_variant :: "jsval \<Rightarrow> (string \<times> string) option" where
  "frozen_variant (JObj ps) = (case (jprop (JObj ps) ''id'', jprop (JObj ps) ''name'') of
     (JStr i, JStr n) \<Rightarrow> if i \<noteq> [] \<and> n \<noteq> [] then Some (i, n) else None
   | _ \<Rightarrow> None)"
| "frozen_variant _ = None"

definition readFrozenVariantSet :: "jsval option \<Rightarrow> (string \<times> string) list option" where
  "readFrozenVariantSet json = (case json of
     Some (JArr vs) \<Rightarrow> those (map frozen_variant vs)
   | _ \<Rightarrow> None)"

definition resolveFrozenControlIdentity :: "string \<Rightarrow> jsval option \<Rightarrow> control_resolution" where
  "resolveFrozenControlIdentity controlVariantId frozenVariantSetJson =
     (case readFrozenVariantSet frozenVariantSetJson of
        None \<Rightarrow> ResolvedUnresolvable controlVariantId UnreadableFrozenVariantSet []
      | Some variantSet \<Rightarrow>
          (case List.find (\<lambda>(i, _). i = controlVariantId) variantSet of
             None \<Rightarrow> ResolvedUnresolvable controlVariantId AbsentFromFrozenVariantSet (map snd variantSet)
           | Some (_, n) \<Rightarrow> ResolvedFrozen controlVariantId n))"

definition resolveAnalysisControlIntegrity :: "control_resolution \<Rightarrow> string \<Rightarrow> gate_error + control_identity" where
  "resolveAnalysisControlIntegrity control analysisVariant =
     (if analysisVariant = [] then Inl MissingAnalysisControl
      else (case control of
        ResolvedUnresolvable i reason names \<Rightarrow>
          if i = [] then Inl BadControlIdentity else Inr (ControlUnresolvable i reason names analysisVariant)
      | ResolvedFrozen i n \<Rightarrow>
          Inr (if n = analysisVariant then ControlFrozen i n else ControlDisagreement i n analysisVariant)))"

section \<open>Checks\<close>

datatype check_id =
    ControlIdentity | ExposureSrm | ActivatedSrm | ActivationBalance | EngineStatus | Underpowered
  | PlannedDuration | DecisionValidResult

datatype check_status = Pass | Fail | NotApplicable

record gate_check =
  gc_id :: check_id
  gc_status :: check_status
  gc_title :: string

definition check :: "check_id \<Rightarrow> check_status \<Rightarrow> string \<Rightarrow> gate_check" where
  "check i s t = \<lparr>gc_id = i, gc_status = s, gc_title = t\<rparr>"

lemma check_sel [simp]: "gc_id (check i s t) = i" "gc_status (check i s t) = s"
  "check i s t = check i' s' t' \<longleftrightarrow> i = i' \<and> s = s' \<and> t = t'"
  by (simp_all add: check_def)

datatype srm_tier = Clean | PossibleImbalance | Confirmed

record srm_deviation =
  sd_variant :: string
  sd_observed :: rat
  sd_expected :: rat
  sd_delta :: rat

record srm_signal =
  sig_tier :: srm_tier
  sig_p_value :: "jsnum option"
  sig_deviations :: "srm_deviation list"
  sig_firstCrossedAt :: "string option"

record balance_signal =
  bal_tier :: srm_tier
  bal_p_value :: "jsnum option"

datatype srm_kind = ExposureKind | ActivatedKind

record srm_alarm =
  al_kind :: srm_kind
  al_firstCrossedAt :: string
  al_p_value :: jsnum

definition SRM_CAUTION_P :: jsnum where
  "SRM_CAUTION_P = Fin (fl (1 / 100))"

definition SRM_MISMATCH_P_VALUE :: jsnum where
  "SRM_MISMATCH_P_VALUE = Fin (fl (1 / 1000))"

datatype status_class = Decidable | Collecting | Starved | ErroredClass

fun classifyStatus :: "stats_status \<Rightarrow> status_class" where
  "classifyStatus Ready = Decidable"
| "classifyStatus Stopped = Decidable"
| "classifyStatus Running = Collecting"
| "classifyStatus InsufficientN = Starved"
| "classifyStatus InsufficientDenominator = Starved"
| "classifyStatus Errored = ErroredClass"

definition srmIsFiring :: "jsnum option \<Rightarrow> bool option \<Rightarrow> bool" where
  "srmIsFiring pValue isMismatch = (case isMismatch of
     Some b \<Rightarrow> b
   | None \<Rightarrow> (case pValue of None \<Rightarrow> False | Some p \<Rightarrow> js_less p SRM_MISMATCH_P_VALUE))"

definition controlIdentityCheck :: "control_identity \<Rightarrow> gate_check" where
  "controlIdentityCheck control = (case control of
     ControlFrozen _ _ \<Rightarrow> check ControlIdentity Pass ''Analysis Control matches the one the Run froze''
   | ControlDisagreement _ _ _ \<Rightarrow> check ControlIdentity Fail ''Analysis Control disagrees with the Run''
   | ControlUnresolvable _ _ _ _ \<Rightarrow> check ControlIdentity Fail ''Control Variant cannot be identified'')"

definition exposureSrmCheck :: "srm_signal \<Rightarrow> bool option \<Rightarrow> gate_check" where
  "exposureSrmCheck signal isMismatch =
     (if srmIsFiring (sig_p_value signal) isMismatch then check ExposureSrm Fail ''Sample Ratio Mismatch is firing''
      else if sig_tier signal = PossibleImbalance
      then check ExposureSrm Pass ''Exposure split is within tolerance, with a caution''
      else check ExposureSrm Pass ''Exposure split matches allocation'')"

definition activatedSrmCheck :: "srm_signal option \<Rightarrow> bool option \<Rightarrow> gate_check" where
  "activatedSrmCheck signal isMismatch = (case signal of
     None \<Rightarrow> check ActivatedSrm NotApplicable ''Activated-population SRM''
   | Some s \<Rightarrow>
       if srmIsFiring (sig_p_value s) isMismatch then check ActivatedSrm Fail ''Activated-population SRM is firing''
       else if sig_tier s = PossibleImbalance
       then check ActivatedSrm Pass ''Activated population is balanced, with a caution''
       else check ActivatedSrm Pass ''Activated population is balanced'')"

definition activationBalanceCheck :: "balance_signal option \<Rightarrow> bool option \<Rightarrow> gate_check" where
  "activationBalanceCheck balance isMismatch = (case balance of
     None \<Rightarrow> check ActivationBalance NotApplicable ''Per-Variant activation rate''
   | Some s \<Rightarrow>
       if srmIsFiring (bal_p_value s) isMismatch then check ActivationBalance Fail ''Per-Variant activation rate differs''
       else if bal_tier s = PossibleImbalance
       then check ActivationBalance Pass ''Activation rates match across Variants, with a caution''
       else check ActivationBalance Pass ''Activation rates match across Variants'')"

text \<open>The unified decision family: the top level and the primary Dimensions.\<close>

definition primaryDimensionMembers :: "stats_output \<Rightarrow> arm_result list" where
  "primaryDimensionMembers stats =
     concat (map dr_arm_results (filter (\<lambda>d. dr_class d = Primary) (nullish (so_dimension_results stats) [])))"

definition decisionFamily :: "stats_output \<Rightarrow> arm_result list" where
  "decisionFamily stats = so_arm_results stats @ primaryDimensionMembers stats"

definition decisionValidMembers :: "stats_output \<Rightarrow> arm_result list" where
  "decisionValidMembers stats = filter ar_decision_valid (decisionFamily stats)"

definition lockedFamilyMembers :: "stats_output \<Rightarrow> arm_result list" where
  "lockedFamilyMembers stats = filter (\<lambda>r. ar_in_bh_family r \<and> ar_decision_valid r) (decisionFamily stats)"

definition engineStatusCheck :: "stats_output \<Rightarrow> gate_check" where
  "engineStatusCheck stats =
     (let decisionValid = decisionValidMembers stats;
          errored = filter (\<lambda>r. classifyStatus (ar_status r) = ErroredClass) decisionValid in
      if length decisionValid = 0 then check EngineStatus NotApplicable ''Engine result status''
      else if length errored = 0
      then check EngineStatus Pass ''Every decision-valid Metric returned a usable result''
      else check EngineStatus Fail ''Stats engine reported an error'')"

definition underpoweredCheck :: "stats_output \<Rightarrow> gate_check" where
  "underpoweredCheck stats =
     (let decisionValid = decisionValidMembers stats;
          starved = filter (\<lambda>r. classifyStatus (ar_status r) = Starved) decisionValid;
          collecting = filter (\<lambda>r. classifyStatus (ar_status r) = Collecting) decisionValid in
      if length decisionValid = 0 \<and> \<not> low_n_warning (so_health stats)
      then check Underpowered NotApplicable ''Sample size not assessed''
      else if 0 < length starved \<or> low_n_warning (so_health stats)
      then check Underpowered Fail ''Result is underpowered''
      else if 0 < length collecting
      then check Underpowered Fail ''Run has not reached its locked sample size''
      else check Underpowered Pass ''No low-n warning'')"

definition decisionValidCheck :: "stats_output \<Rightarrow> gate_check" where
  "decisionValidCheck stats =
     (if 0 < length (lockedFamilyMembers stats)
      then check DecisionValidResult Pass ''A locked decision family exists''
      else check DecisionValidResult Fail ''No decision-valid result'')"

section \<open>The planned duration\<close>

record duration_evidence =
  de_plannedDurationDays :: "jsnum option"
  de_overrideReason :: "string option"
  de_runStartedAt :: string
  de_dataWatermark :: "string option"

definition DAY_MS :: rat where
  "DAY_MS = 86400000"

definition MAX_PLANNED_DURATION_DAYS :: rat where
  "MAX_PLANNED_DURATION_DAYS = 365"

definition observedEvidenceDays :: "(string \<Rightarrow> jsnum) \<Rightarrow> string \<Rightarrow> string \<Rightarrow> gate_error + rat" where
  "observedEvidenceDays parse runStartedAt dataWatermark =
     (let started = parse runStartedAt; watermark = parse dataWatermark in
      if \<not> js_finite started then Inl (BadTimestamp runStartedAt)
      else if \<not> js_finite watermark then Inl (BadTimestamp dataWatermark)
      else Inr (fl (max 0 (fl (js_val watermark - js_val started)) / DAY_MS)))"

definition planned_valid :: "jsnum \<Rightarrow> bool" where
  "planned_valid n \<longleftrightarrow> js_finite n \<and> of_int \<lfloor>js_val n\<rfloor> = js_val n \<and> 0 < js_val n \<and> js_val n \<le> MAX_PLANNED_DURATION_DAYS"

definition plannedDurationCheck :: "(string \<Rightarrow> jsnum) \<Rightarrow> duration_evidence \<Rightarrow> gate_error + gate_check" where
  "plannedDurationCheck parse evidence = (case de_plannedDurationDays evidence of
     None \<Rightarrow> Inr (check PlannedDuration NotApplicable ''No planned duration recorded'')
   | Some planned \<Rightarrow>
       if \<not> planned_valid planned then Inl BadPlannedDuration
       else (case de_dataWatermark evidence of
         None \<Rightarrow> Inr (check PlannedDuration Fail ''No evidence watermark to measure duration against'')
       | Some watermark \<Rightarrow>
           ebind (observedEvidenceDays parse (de_runStartedAt evidence) watermark) (\<lambda>observed.
             Inr (if observed < js_val planned
                  then check PlannedDuration Fail ''Run has not reached its planned duration''
                  else check PlannedDuration Pass ''Planned duration reached''))))"

section \<open>Diagnostics and the gate\<close>

definition srmTierFor :: "jsnum option \<Rightarrow> bool option \<Rightarrow> srm_tier" where
  "srmTierFor pValue isMismatch =
     (if srmIsFiring pValue isMismatch then Confirmed
      else (case pValue of None \<Rightarrow> Clean
            | Some p \<Rightarrow> if js_less p SRM_CAUTION_P then PossibleImbalance else Clean))"

definition alarmFor :: "srm_alarm list \<Rightarrow> srm_kind \<Rightarrow> srm_alarm option" where
  "alarmFor alarms kind = List.find (\<lambda>a. al_kind a = kind) alarms"

definition srmDeviations :: "(string \<times> rat) list \<Rightarrow> (string \<times> rat) list \<Rightarrow> srm_deviation list" where
  "srmDeviations observed expected =
     map (\<lambda>variant.
        let observedCount = nullish (map_of observed variant) 0;
            expectedCount = nullish (map_of expected variant) 0 in
        \<lparr>sd_variant = variant, sd_observed = observedCount, sd_expected = expectedCount,
         sd_delta = fl (observedCount - expectedCount)\<rparr>)
       (sort (remdups_first (map fst observed @ map fst expected)))"

record srm_diagnostics =
  diag_exposure :: srm_signal
  diag_activated :: "srm_signal option"
  diag_activationBalance :: "balance_signal option"

definition experimentSrmDiagnostics :: "stats_output \<Rightarrow> srm_alarm list \<Rightarrow> srm_diagnostics" where
  "experimentSrmDiagnostics stats persistedAlarms =
     (let srm = so_srm stats; health = so_health stats;
          exposureAlarm = alarmFor persistedAlarms ExposureKind;
          activatedAlarm = alarmFor persistedAlarms ActivatedKind;
          exposureMismatch = srm_is_mismatch srm \<or> exposureAlarm \<noteq> None;
          activatedMismatch = activated_srm_mismatch srm = Some True \<or> activatedAlarm \<noteq> None;
          hasActivationGate = activated_srm_p_value srm \<noteq> None \<or> activated_srm_mismatch srm \<noteq> None \<or> activatedAlarm \<noteq> None;
          hasActivationBalance = activation_balance_p_value health \<noteq> None \<or> activation_balance_mismatch health \<noteq> None in
      \<lparr>diag_exposure = \<lparr>sig_tier = srmTierFor (Some (srm_p_value srm)) (Some exposureMismatch),
         sig_p_value = Some (srm_p_value srm),
         sig_deviations = srmDeviations (observed_counts srm) (expected_counts srm),
         sig_firstCrossedAt = map_option al_firstCrossedAt exposureAlarm\<rparr>,
       diag_activated = (if hasActivationGate
         then Some \<lparr>sig_tier = srmTierFor (activated_srm_p_value srm) (Some activatedMismatch),
           sig_p_value = activated_srm_p_value srm, sig_deviations = [],
           sig_firstCrossedAt = map_option al_firstCrossedAt activatedAlarm\<rparr>
         else None),
       diag_activationBalance = (if hasActivationBalance
         then Some \<lparr>bal_tier = srmTierFor (activation_balance_p_value health) (activation_balance_mismatch health),
           bal_p_value = activation_balance_p_value health\<rparr>
         else None)\<rparr>)"

definition overlayPersistedSrmAlarms :: "stats_output \<Rightarrow> srm_alarm list \<Rightarrow> stats_output" where
  "overlayPersistedSrmAlarms stats persistedAlarms =
     (if length persistedAlarms = 0 then stats
      else let exposureAlarm = alarmFor persistedAlarms ExposureKind;
               activatedAlarm = alarmFor persistedAlarms ActivatedKind in
        if exposureAlarm = None \<and> activatedAlarm = None then stats
        else stats\<lparr>so_srm := (so_srm stats)\<lparr>
          srm_is_mismatch := srm_is_mismatch (so_srm stats) \<or> exposureAlarm \<noteq> None,
          activated_srm_mismatch := (if activatedAlarm \<noteq> None then Some True else activated_srm_mismatch (so_srm stats))\<rparr>\<rparr>)"

record decision_gate =
  gate_shipAllowed :: bool
  gate_blockedBy :: "check_id list"
  gate_checks :: "gate_check list"

definition gate_of :: "gate_check list \<Rightarrow> decision_gate" where
  "gate_of checks = (let blockedBy = map gc_id (filter (\<lambda>c. gc_status c = Fail) checks) in
     \<lparr>gate_shipAllowed = (length blockedBy = 0), gate_blockedBy = blockedBy, gate_checks = checks\<rparr>)"

definition evaluateExperimentDecisionGate :: "(string \<Rightarrow> jsnum) \<Rightarrow> stats_output \<Rightarrow> control_identity
    \<Rightarrow> duration_evidence \<Rightarrow> srm_alarm list \<Rightarrow> gate_error + decision_gate" where
  "evaluateExperimentDecisionGate parse stats control duration persistedAlarms =
     (let effective = overlayPersistedSrmAlarms stats persistedAlarms;
          srm = experimentSrmDiagnostics effective persistedAlarms in
      ebind (plannedDurationCheck parse duration) (\<lambda>planned.
        Inr (gate_of [controlIdentityCheck control,
          exposureSrmCheck (diag_exposure srm) (Some (srm_is_mismatch (so_srm effective))),
          activatedSrmCheck (diag_activated srm) (activated_srm_mismatch (so_srm effective)),
          activationBalanceCheck (diag_activationBalance srm) (activation_balance_mismatch (so_health effective)),
          engineStatusCheck effective, underpoweredCheck effective, planned, decisionValidCheck effective])))"

section \<open>What the gate lets through\<close>

lemmas check_defs = controlIdentityCheck_def exposureSrmCheck_def activatedSrmCheck_def activationBalanceCheck_def
  engineStatusCheck_def underpoweredCheck_def decisionValidCheck_def

lemma alarmFor_None: "alarmFor alarms k = None \<longleftrightarrow> (\<forall>a\<in>set alarms. al_kind a \<noteq> k)"
  by (auto simp: alarmFor_def find_None_iff)

lemma no_alarms: "alarms = [] \<longleftrightarrow> alarmFor alarms ExposureKind = None \<and> alarmFor alarms ActivatedKind = None"
  unfolding alarmFor_None by (cases alarms) (auto, metis srm_kind.exhaust)

lemma overlay_srm:
  "srm_is_mismatch (so_srm (overlayPersistedSrmAlarms stats alarms))
     \<longleftrightarrow> srm_is_mismatch (so_srm stats) \<or> alarmFor alarms ExposureKind \<noteq> None"
  "activated_srm_mismatch (so_srm (overlayPersistedSrmAlarms stats alarms)) =
     (if alarmFor alarms ActivatedKind \<noteq> None then Some True else activated_srm_mismatch (so_srm stats))"
  by (auto simp: overlayPersistedSrmAlarms_def Let_def no_alarms)

lemma overlay_keeps [simp]:
  "so_health (overlayPersistedSrmAlarms stats alarms) = so_health stats"
  "so_arm_results (overlayPersistedSrmAlarms stats alarms) = so_arm_results stats"
  "so_dimension_results (overlayPersistedSrmAlarms stats alarms) = so_dimension_results stats"
  "srm_p_value (so_srm (overlayPersistedSrmAlarms stats alarms)) = srm_p_value (so_srm stats)"
  "activated_srm_p_value (so_srm (overlayPersistedSrmAlarms stats alarms)) = activated_srm_p_value (so_srm stats)"
  by (simp_all add: overlayPersistedSrmAlarms_def Let_def)

lemma overlay_family [simp]: "decisionFamily (overlayPersistedSrmAlarms stats alarms) = decisionFamily stats"
  by (simp add: decisionFamily_def primaryDimensionMembers_def)

text \<open>When each check fails.\<close>

lemma control_fails: "gc_status (controlIdentityCheck c) = Fail \<longleftrightarrow> \<not> (\<exists>i n. c = ControlFrozen i n)"
  by (cases c) (auto simp: controlIdentityCheck_def)

lemma exposure_fails: "gc_status (exposureSrmCheck s m) = Fail \<longleftrightarrow> srmIsFiring (sig_p_value s) m"
  by (simp add: exposureSrmCheck_def)

lemma activated_fails:
  "gc_status (activatedSrmCheck s m) = Fail \<longleftrightarrow> (\<exists>x. s = Some x \<and> srmIsFiring (sig_p_value x) m)"
  by (simp add: activatedSrmCheck_def split: option.splits)

lemma balance_fails:
  "gc_status (activationBalanceCheck s m) = Fail \<longleftrightarrow> (\<exists>x. s = Some x \<and> srmIsFiring (bal_p_value x) m)"
  by (simp add: activationBalanceCheck_def split: option.splits)

lemma engine_fails: "gc_status (engineStatusCheck stats) = Fail \<longleftrightarrow>
    (\<exists>r\<in>set (decisionFamily stats). ar_decision_valid r \<and> classifyStatus (ar_status r) = ErroredClass)"
  by (auto simp: engineStatusCheck_def decisionValidMembers_def Let_def filter_empty_conv)

lemma underpowered_fails: "gc_status (underpoweredCheck stats) = Fail \<longleftrightarrow> low_n_warning (so_health stats) \<or>
    (\<exists>r\<in>set (decisionFamily stats). ar_decision_valid r \<and> classifyStatus (ar_status r) \<in> {Starved, Collecting})"
  by (auto simp: underpoweredCheck_def decisionValidMembers_def Let_def filter_empty_conv)

lemma family_fails: "gc_status (decisionValidCheck stats) = Fail \<longleftrightarrow>
    \<not> (\<exists>r\<in>set (decisionFamily stats). ar_in_bh_family r \<and> ar_decision_valid r)"
  by (auto simp: decisionValidCheck_def lockedFamilyMembers_def filter_empty_conv)

lemma duration_check:
  assumes "plannedDurationCheck parse e = Inr c"
  shows "gc_id c = PlannedDuration" "gc_status c = Fail \<longleftrightarrow> \<not> (\<forall>planned. de_plannedDurationDays e = Some planned \<longrightarrow>
    (\<exists>w. de_dataWatermark e = Some w \<and> (\<exists>days. observedEvidenceDays parse (de_runStartedAt e) w = Inr days \<and> js_val planned \<le> days)))"
  using assms by (auto simp: plannedDurationCheck_def ebind_eq_Inr split: option.splits if_splits)

lemma check_ids [simp]:
  "gc_id (controlIdentityCheck c) = ControlIdentity" "gc_id (exposureSrmCheck s m) = ExposureSrm"
  "gc_id (activatedSrmCheck sa ma) = ActivatedSrm" "gc_id (activationBalanceCheck b mb) = ActivationBalance"
  "gc_id (engineStatusCheck stats) = EngineStatus" "gc_id (underpoweredCheck stats) = Underpowered"
  "gc_id (decisionValidCheck stats) = DecisionValidResult"
  by (simp_all add: check_defs Let_def split: control_identity.splits option.splits)

lemma gate_of_ship: "gate_shipAllowed (gate_of cs) \<longleftrightarrow> (\<forall>c\<in>set cs. gc_status c \<noteq> Fail)"
  by (auto simp: gate_of_def Let_def filter_empty_conv)

lemma gate_of_blocked: "i \<in> set (gate_blockedBy (gate_of cs)) \<longleftrightarrow> (\<exists>c\<in>set cs. gc_status c = Fail \<and> gc_id c = i)"
  by (auto simp: gate_of_def Let_def)

lemma classify_cases: "classifyStatus st \<notin> {ErroredClass, Starved, Collecting} \<longleftrightarrow> st \<in> {Ready, Stopped}"
  by (cases st) auto

text \<open>The three sample ratio signals of the gate, over the live statistics.\<close>

lemma exposure_signal:
  "sig_p_value (diag_exposure (experimentSrmDiagnostics stats alarms)) = Some (srm_p_value (so_srm stats))"
  "sig_tier (diag_exposure (experimentSrmDiagnostics stats alarms)) =
     srmTierFor (Some (srm_p_value (so_srm stats))) (Some (srm_is_mismatch (so_srm stats) \<or> alarmFor alarms ExposureKind \<noteq> None))"
  by (simp_all add: experimentSrmDiagnostics_def Let_def)

lemma activated_signal:
  "diag_activated (experimentSrmDiagnostics stats alarms) = Some x \<longleftrightarrow>
     (activated_srm_p_value (so_srm stats) \<noteq> None \<or> activated_srm_mismatch (so_srm stats) \<noteq> None \<or> alarmFor alarms ActivatedKind \<noteq> None)
     \<and> x = \<lparr>sig_tier = srmTierFor (activated_srm_p_value (so_srm stats))
           (Some (activated_srm_mismatch (so_srm stats) = Some True \<or> alarmFor alarms ActivatedKind \<noteq> None)),
         sig_p_value = activated_srm_p_value (so_srm stats), sig_deviations = [],
         sig_firstCrossedAt = map_option al_firstCrossedAt (alarmFor alarms ActivatedKind)\<rparr>"
  by (auto simp: experimentSrmDiagnostics_def Let_def)

lemma balance_signal:
  "diag_activationBalance (experimentSrmDiagnostics stats alarms) = Some x \<longleftrightarrow>
     (activation_balance_p_value (so_health stats) \<noteq> None \<or> activation_balance_mismatch (so_health stats) \<noteq> None)
     \<and> x = \<lparr>bal_tier = srmTierFor (activation_balance_p_value (so_health stats)) (activation_balance_mismatch (so_health stats)),
         bal_p_value = activation_balance_p_value (so_health stats)\<rparr>"
  by (auto simp: experimentSrmDiagnostics_def Let_def)

lemma tier_confirmed [simp]: "srmTierFor p m = Confirmed \<longleftrightarrow> srmIsFiring p m"
  by (simp add: srmTierFor_def split: option.splits)

lemma firing_simps [simp]: "srmIsFiring p (Some b) = b" "\<not> srmIsFiring None None"
  by (simp_all add: srmIsFiring_def)

lemma gate_signals:
  fixes stats alarms
  defines "eff \<equiv> overlayPersistedSrmAlarms stats alarms"
  defines "d \<equiv> experimentSrmDiagnostics eff alarms"
  shows "gc_status (exposureSrmCheck (diag_exposure d) (Some (srm_is_mismatch (so_srm eff)))) = Fail \<longleftrightarrow>
      srm_is_mismatch (so_srm stats) \<or> alarmFor alarms ExposureKind \<noteq> None"
    and "gc_status (activatedSrmCheck (diag_activated d) (activated_srm_mismatch (so_srm eff))) = Fail \<longleftrightarrow>
      srmIsFiring (activated_srm_p_value (so_srm stats)) (activated_srm_mismatch (so_srm stats)) \<or> alarmFor alarms ActivatedKind \<noteq> None"
    and "gc_status (activationBalanceCheck (diag_activationBalance d) (activation_balance_mismatch (so_health eff))) = Fail \<longleftrightarrow>
      srmIsFiring (activation_balance_p_value (so_health stats)) (activation_balance_mismatch (so_health stats))"
proof -
  show "gc_status (exposureSrmCheck (diag_exposure d) (Some (srm_is_mismatch (so_srm eff)))) = Fail \<longleftrightarrow>
      srm_is_mismatch (so_srm stats) \<or> alarmFor alarms ExposureKind \<noteq> None"
    by (simp add: exposure_fails eff_def overlay_srm)
  show "gc_status (activatedSrmCheck (diag_activated d) (activated_srm_mismatch (so_srm eff))) = Fail \<longleftrightarrow>
      srmIsFiring (activated_srm_p_value (so_srm stats)) (activated_srm_mismatch (so_srm stats)) \<or> alarmFor alarms ActivatedKind \<noteq> None"
    unfolding activated_fails d_def activated_signal eff_def overlay_srm
    by (cases "activated_srm_p_value (so_srm stats)"; cases "activated_srm_mismatch (so_srm stats)") auto
  show "gc_status (activationBalanceCheck (diag_activationBalance d) (activation_balance_mismatch (so_health eff))) = Fail \<longleftrightarrow>
      srmIsFiring (activation_balance_p_value (so_health stats)) (activation_balance_mismatch (so_health stats))"
    unfolding balance_fails d_def balance_signal eff_def overlay_keeps
    by (cases "activation_balance_p_value (so_health stats)"; cases "activation_balance_mismatch (so_health stats)") auto
qed

lemma members_decidable:
  "gc_status (engineStatusCheck stats) \<noteq> Fail \<and> gc_status (underpoweredCheck stats) \<noteq> Fail \<longleftrightarrow>
     (\<forall>r\<in>set (decisionFamily stats). ar_decision_valid r \<longrightarrow> ar_status r \<in> {Ready, Stopped}) \<and> \<not> low_n_warning (so_health stats)"
  unfolding engine_fails underpowered_fails classify_cases[symmetric] by auto

lemma effective_members [simp]:
  "gc_status (engineStatusCheck (overlayPersistedSrmAlarms stats alarms)) = gc_status (engineStatusCheck stats)"
  "gc_status (underpoweredCheck (overlayPersistedSrmAlarms stats alarms)) = gc_status (underpoweredCheck stats)"
  "gc_status (decisionValidCheck (overlayPersistedSrmAlarms stats alarms)) = gc_status (decisionValidCheck stats)"
  by (simp_all add: engineStatusCheck_def underpoweredCheck_def decisionValidCheck_def decisionValidMembers_def
      lockedFamilyMembers_def Let_def)

text \<open>The checks of a gate that was evaluated, and which of them failed.\<close>

lemma evaluated_gate:
  assumes "evaluateExperimentDecisionGate parse stats control duration alarms = Inr gate"
  obtains c checks where "plannedDurationCheck parse duration = Inr c" "gate = gate_of checks"
    "gate_checks gate = checks"
    "map gc_id checks = [ControlIdentity, ExposureSrm, ActivatedSrm, ActivationBalance, EngineStatus, Underpowered,
      PlannedDuration, DecisionValidResult]"
    "map (\<lambda>x. gc_status x = Fail) checks = [\<not> (\<exists>i n. control = ControlFrozen i n),
       srm_is_mismatch (so_srm stats) \<or> alarmFor alarms ExposureKind \<noteq> None,
       srmIsFiring (activated_srm_p_value (so_srm stats)) (activated_srm_mismatch (so_srm stats)) \<or> alarmFor alarms ActivatedKind \<noteq> None,
       srmIsFiring (activation_balance_p_value (so_health stats)) (activation_balance_mismatch (so_health stats)),
       gc_status (engineStatusCheck stats) = Fail, gc_status (underpoweredCheck stats) = Fail,
       gc_status c = Fail, gc_status (decisionValidCheck stats) = Fail]"
proof -
  from assms obtain c where c: "plannedDurationCheck parse duration = Inr c"
    by (auto simp: evaluateExperimentDecisionGate_def Let_def ebind_eq_Inr)
  let ?eff = "overlayPersistedSrmAlarms stats alarms"
  let ?d = "experimentSrmDiagnostics ?eff alarms"
  have gate: "gate = gate_of [controlIdentityCheck control,
      exposureSrmCheck (diag_exposure ?d) (Some (srm_is_mismatch (so_srm ?eff))),
      activatedSrmCheck (diag_activated ?d) (activated_srm_mismatch (so_srm ?eff)),
      activationBalanceCheck (diag_activationBalance ?d) (activation_balance_mismatch (so_health ?eff)),
      engineStatusCheck ?eff, underpoweredCheck ?eff, c, decisionValidCheck ?eff]"
    using assms unfolding evaluateExperimentDecisionGate_def Let_def c ebind_simps by (metis sum.inject(2))
  show ?thesis
  proof (rule that[OF c gate])
    show "gate_checks gate = [controlIdentityCheck control,
      exposureSrmCheck (diag_exposure ?d) (Some (srm_is_mismatch (so_srm ?eff))),
      activatedSrmCheck (diag_activated ?d) (activated_srm_mismatch (so_srm ?eff)),
      activationBalanceCheck (diag_activationBalance ?d) (activation_balance_mismatch (so_health ?eff)),
      engineStatusCheck ?eff, underpoweredCheck ?eff, c, decisionValidCheck ?eff]"
      unfolding gate by (simp add: gate_of_def Let_def del: overlay_keeps)
  qed (simp_all only: list.map check_ids duration_check(1)[OF c] gate_signals control_fails effective_members)
qed

lemma gate_conditions:
  "S = list_all Not [\<not> A, B \<or> \<not> E, C \<or> \<not> F, D, X, Y, \<not> P, \<not> Q] \<Longrightarrow> (\<not> X \<and> \<not> Y) = (M \<and> L)
    \<Longrightarrow> S = (A \<and> (E \<and> F) \<and> \<not> B \<and> \<not> C \<and> \<not> D \<and> M \<and> L \<and> P \<and> Q)"
  by auto

text \<open>
  C37: the gate allows a decision exactly when nothing speaks against it: the Run's frozen
  Control is the one Analysis measured against, no sample ratio mismatch is reported and no
  alarm of either kind was ever persisted, every decision valid result, those of primary
  Dimensions included, is decidable and no Variant is short of Entities, the selected
  evidence spans the planned duration, and the locked family is not empty.
\<close>

theorem ship_allowed_only_when_ready:
  assumes "evaluateExperimentDecisionGate parse stats control duration alarms = Inr gate"
  shows "gate_shipAllowed gate \<longleftrightarrow>
     (\<exists>i n. control = ControlFrozen i n)
     \<and> alarms = [] \<and> \<not> srm_is_mismatch (so_srm stats)
     \<and> \<not> srmIsFiring (activated_srm_p_value (so_srm stats)) (activated_srm_mismatch (so_srm stats))
     \<and> \<not> srmIsFiring (activation_balance_p_value (so_health stats)) (activation_balance_mismatch (so_health stats))
     \<and> (\<forall>r\<in>set (decisionFamily stats). ar_decision_valid r \<longrightarrow> ar_status r \<in> {Ready, Stopped})
     \<and> \<not> low_n_warning (so_health stats)
     \<and> (\<forall>planned. de_plannedDurationDays duration = Some planned \<longrightarrow> (\<exists>w. de_dataWatermark duration = Some w
          \<and> (\<exists>days. observedEvidenceDays parse (de_runStartedAt duration) w = Inr days \<and> js_val planned \<le> days)))
     \<and> (\<exists>r\<in>set (decisionFamily stats). ar_in_bh_family r \<and> ar_decision_valid r)"
proof -
  obtain c checks where c: "plannedDurationCheck parse duration = Inr c" and gate: "gate = gate_of checks"
    and fails: "map (\<lambda>x. gc_status x = Fail) checks = [\<not> (\<exists>i n. control = ControlFrozen i n),
       srm_is_mismatch (so_srm stats) \<or> alarmFor alarms ExposureKind \<noteq> None,
       srmIsFiring (activated_srm_p_value (so_srm stats)) (activated_srm_mismatch (so_srm stats)) \<or> alarmFor alarms ActivatedKind \<noteq> None,
       srmIsFiring (activation_balance_p_value (so_health stats)) (activation_balance_mismatch (so_health stats)),
       gc_status (engineStatusCheck stats) = Fail, gc_status (underpoweredCheck stats) = Fail,
       gc_status c = Fail, gc_status (decisionValidCheck stats) = Fail]"
    by (rule evaluated_gate[OF assms]) (rule that; assumption)
  have "gate_shipAllowed gate \<longleftrightarrow> list_all Not (map (\<lambda>x. gc_status x = Fail) checks)"
    unfolding gate gate_of_ship by (auto simp: list_all_iff)
  then show ?thesis
    unfolding fails no_alarms duration_check(2)[OF c] family_fails
    using members_decidable[of stats] by (rule gate_conditions)
qed

definition sample_stats :: stats_output where
  "sample_stats = \<lparr>so_arm_results = [sample_arm ''control'' 1, (sample_arm ''b'' (1 / 128))\<lparr>ar_is_significant := True,
       ar_in_bh_family := True, ar_decision_valid := True\<rparr>],
     so_srm = \<lparr>srm_p_value = Fin (1 / 2), srm_is_mismatch = False, observed_counts = [(''control'', 50), (''b'', 50)],
       expected_counts = [(''control'', 50), (''b'', 50)], activated_srm_p_value = None, activated_srm_mismatch = None,
       srm_sequential_threshold_crossed = None, activated_srm_sequential_threshold_crossed = None\<rparr>,
     so_guardrail_results = [],
     so_health = \<lparr>multiple_rate = Fin 0, multiple_count = 0, activation_rates = None, activation_balance_p_value = None,
       activation_balance_mismatch = None, exposure_counts = [], deduped_counts = [], low_n_warning = False\<rparr>,
     so_dimension_results = None\<rparr>"

definition sample_duration :: duration_evidence where
  "sample_duration = \<lparr>de_plannedDurationDays = Some (Fin 7), de_overrideReason = None, de_runStartedAt = ''start'',
     de_dataWatermark = Some ''end''\<rparr>"

definition sample_parse :: "string \<Rightarrow> jsnum" where
  "sample_parse s = (if s = ''start'' then Fin 0 else Fin 691200000)"

definition sample_gate :: "srm_alarm list \<Rightarrow> gate_error + decision_gate" where
  "sample_gate = evaluateExperimentDecisionGate sample_parse sample_stats (ControlFrozen ''v1'' ''control'') sample_duration"

lemma sample_gate_runs: "\<exists>gate. sample_gate alarms = Inr gate"
proof -
  have "\<exists>c. plannedDurationCheck sample_parse sample_duration = Inr c"
    by (simp add: plannedDurationCheck_def sample_duration_def sample_parse_def planned_valid_def
        MAX_PLANNED_DURATION_DAYS_def observedEvidenceDays_def)
  then show ?thesis by (auto simp: sample_gate_def evaluateExperimentDecisionGate_def Let_def)
qed

lemma sample_gate_ready: "case sample_gate [] of Inl _ \<Rightarrow> False | Inr gate \<Rightarrow> gate_shipAllowed gate"
  by code_simp

theorem ship_allowed_only_when_ready_witness:
  "\<exists>gate. sample_gate [] = Inr gate \<and> gate_shipAllowed gate \<and> (\<exists>days. observedEvidenceDays sample_parse ''start'' ''end'' = Inr days \<and> 7 \<le> days)"
proof -
  obtain gate where gate: "sample_gate [] = Inr gate" "gate_shipAllowed gate"
    using sample_gate_ready by (auto split: sum.splits)
  have "\<exists>days. observedEvidenceDays sample_parse ''start'' ''end'' = Inr days \<and> 7 \<le> days"
    using gate(2) unfolding ship_allowed_only_when_ready[OF gate(1)[unfolded sample_gate_def]]
    by (auto simp: sample_duration_def)
  with gate show ?thesis by blast
qed

lemma gate_blocked_zip:
  "i \<in> set (gate_blockedBy (gate_of cs)) \<longleftrightarrow> (i, True) \<in> set (zip (map gc_id cs) (map (\<lambda>c. gc_status c = Fail) cs))"
  unfolding gate_of_blocked zip_map_map zip_same_conv_map by (auto simp: image_iff)

text \<open>
  C38: what the diagnostics show is what the gate enforces. The exposure signal is
  confirmed exactly when its check blocks the decision, and so is the activation balance;
  the activated population's check also blocks when the statistics give no verdict and the
  p-value is under the threshold, where its signal is not confirmed.
\<close>

theorem diagnostics_show_the_verdict:
  assumes "evaluateExperimentDecisionGate parse stats control duration alarms = Inr gate"
    and "d = experimentSrmDiagnostics stats alarms"
  shows "(sig_tier (diag_exposure d) = Confirmed \<longleftrightarrow> ExposureSrm \<in> set (gate_blockedBy gate))
     \<and> ((\<exists>b. diag_activationBalance d = Some b \<and> bal_tier b = Confirmed) \<longleftrightarrow> ActivationBalance \<in> set (gate_blockedBy gate))
     \<and> (ActivatedSrm \<in> set (gate_blockedBy gate) \<longleftrightarrow> (\<exists>s. diag_activated d = Some s \<and> (sig_tier s = Confirmed
          \<or> activated_srm_mismatch (so_srm stats) = None \<and> srmIsFiring (sig_p_value s) None)))"
proof -
  let ?mismatch = "activated_srm_mismatch (so_srm stats)" and ?alarm = "alarmFor alarms ActivatedKind"
  let ?balance = "srmIsFiring (activation_balance_p_value (so_health stats)) (activation_balance_mismatch (so_health stats))"
  obtain checks where gate: "gate = gate_of checks"
    and ids: "map gc_id checks = [ControlIdentity, ExposureSrm, ActivatedSrm, ActivationBalance, EngineStatus, Underpowered,
      PlannedDuration, DecisionValidResult]"
    and fails: "\<exists>a e f g h. map (\<lambda>x. gc_status x = Fail) checks = [a,
       srm_is_mismatch (so_srm stats) \<or> alarmFor alarms ExposureKind \<noteq> None,
       srmIsFiring (activated_srm_p_value (so_srm stats)) ?mismatch \<or> ?alarm \<noteq> None, ?balance, e, f, g, h]"
    by (rule evaluated_gate[OF assms(1)]) (rule that, assumption, assumption, intro exI)
  have blocked: "ExposureSrm \<in> set (gate_blockedBy gate) \<longleftrightarrow> srm_is_mismatch (so_srm stats) \<or> alarmFor alarms ExposureKind \<noteq> None"
    "ActivatedSrm \<in> set (gate_blockedBy gate) \<longleftrightarrow> srmIsFiring (activated_srm_p_value (so_srm stats)) ?mismatch \<or> ?alarm \<noteq> None"
    "ActivationBalance \<in> set (gate_blockedBy gate) \<longleftrightarrow> ?balance"
    using fails unfolding gate gate_blocked_zip ids by auto
  have activated: "(\<exists>s. diag_activated d = Some s \<and> (sig_tier s = Confirmed \<or> ?mismatch = None \<and> srmIsFiring (sig_p_value s) None))
      \<longleftrightarrow> srmIsFiring (activated_srm_p_value (so_srm stats)) ?mismatch \<or> ?alarm \<noteq> None"
    unfolding assms(2) activated_signal
    by (cases ?mismatch; cases "activated_srm_p_value (so_srm stats)"; cases ?alarm) auto
  have balance: "(\<exists>b. diag_activationBalance d = Some b \<and> bal_tier b = Confirmed) \<longleftrightarrow> ?balance"
    unfolding assms(2) balance_signal
    by (cases "activation_balance_mismatch (so_health stats)"; cases "activation_balance_p_value (so_health stats)") auto
  have exposure: "sig_tier (diag_exposure d) = Confirmed \<longleftrightarrow> srm_is_mismatch (so_srm stats) \<or> alarmFor alarms ExposureKind \<noteq> None"
    unfolding assms(2) exposure_signal tier_confirmed firing_simps ..
  show ?thesis unfolding activated balance exposure blocked by simp
qed

definition sample_alarm :: srm_alarm where
  "sample_alarm = \<lparr>al_kind = ExposureKind, al_firstCrossedAt = ''day 2'', al_p_value = Fin (1 / 4096)\<rparr>"

theorem diagnostics_show_the_verdict_witness:
  "\<exists>gate. sample_gate [sample_alarm] = Inr gate \<and> ExposureSrm \<in> set (gate_blockedBy gate)
     \<and> sig_tier (diag_exposure (experimentSrmDiagnostics sample_stats [sample_alarm])) = Confirmed"
proof -
  obtain gate where gate: "sample_gate [sample_alarm] = Inr gate" using sample_gate_runs by blast
  have "sig_tier (diag_exposure (experimentSrmDiagnostics sample_stats [sample_alarm])) = Confirmed" by code_simp
  with gate diagnostics_show_the_verdict[OF gate[unfolded sample_gate_def] refl] show ?thesis by blast
qed

end
