(* ===== verification/ShipRecommendation.thy ===== *)
theory ShipRecommendation
  imports DecisionGate
begin

text \<open>
  The recommendation that follows from a Run's locked ship rule,
  \<open>packages/stats/src/ship-recommendation-*.ts\<close>, with the pre-registration of
  \<open>packages/contracts/src/run-preregistration.ts\<close>. The sentence \<open>because\<close> is kept as the
  facts it is built from (the failed check, the breached Guardrail, the deciding effect);
  its wording (\<open>ship-recommendation-because.ts\<close>) is left out. A function that both throws and
  answers \<open>unavailable\<close> returns \<open>error + (reason + value)\<close>.
\<close>

section \<open>The pre-registration\<close>

datatype metric_direction = HigherIsBetter | LowerIsBetter

datatype rope_scale = Absolute | Relative

datatype conflict_resolution = PrimaryWins | UnanimousGoals | AnyGoal

datatype futility_mode = FutilityOff | MdeExclusion

record registration_rope =
  rope_lower :: jsnum
  rope_upper :: jsnum
  rope_scale :: rope_scale

record registered_metric =
  pm_metric_id :: string
  pm_desirability :: metric_direction
  pm_mde_absolute :: "jsnum option"
  pm_mde_relative :: "jsnum option"
  pm_rope :: "registration_rope option"

record ship_rule =
  required_margin :: jsnum
  margin_scale :: rope_scale
  conflict_resolution :: conflict_resolution

record pre_registration =
  pr_hypothesis :: string
  pr_primary_metric_id :: string
  pr_metrics :: "registered_metric list"
  pr_ship_rule :: ship_rule
  pr_futility :: futility_mode

section \<open>Effects\<close>

datatype effect = Beneficial | Harmful | Undecided

datatype effect_error = BadMargin jsnum | BadInterval jsnum jsnum | NoPrimaryMetric | NoPrimaryRow

type_synonym interval = "jsnum \<times> jsnum"

record effect_input =
  ei_desirability :: metric_direction
  ei_requiredMargin :: jsnum
  ei_scale :: rope_scale
  ei_ci :: interval
  ei_marginCi :: "interval option"

definition js_neg :: "jsnum \<Rightarrow> jsnum" where
  "js_neg x = (case x of Fin q \<Rightarrow> if q = 0 then NegZero else Fin (- q) | NegZero \<Rightarrow> Fin 0
     | NaN \<Rightarrow> NaN | PosInf \<Rightarrow> NegInf | NegInf \<Rightarrow> PosInf)"

definition assertFiniteMargin :: "jsnum \<Rightarrow> effect_error + unit" where
  "assertFiniteMargin margin = (if js_finite margin \<and> js_less (Fin 0) margin then Inr () else Inl (BadMargin margin))"

definition assertOrderedInterval :: "interval \<Rightarrow> effect_error + unit" where
  "assertOrderedInterval ci = (case ci of (lower, upper) \<Rightarrow>
     if \<not> js_finite lower \<or> \<not> js_finite upper then Inl (BadInterval lower upper)
     else if js_less upper lower then Inl (BadInterval lower upper)
     else Inr ())"

definition clearsMargin :: "metric_direction \<Rightarrow> jsnum \<Rightarrow> interval \<Rightarrow> bool" where
  "clearsMargin desirability requiredMargin ci = (case desirability of
     HigherIsBetter \<Rightarrow> js_less requiredMargin (fst ci)
   | LowerIsBetter \<Rightarrow> js_less (snd ci) (js_neg requiredMargin))"

definition showsHarm :: "metric_direction \<Rightarrow> interval \<Rightarrow> bool" where
  "showsHarm desirability ci = (case desirability of
     HigherIsBetter \<Rightarrow> js_less (snd ci) (Fin 0)
   | LowerIsBetter \<Rightarrow> js_less (Fin 0) (fst ci))"

definition classifyMetricEffect :: "effect_input \<Rightarrow> effect_error + effect" where
  "classifyMetricEffect i =
     ebind (assertFiniteMargin (ei_requiredMargin i)) (\<lambda>_.
     ebind (assertOrderedInterval (ei_ci i)) (\<lambda>_.
     let marginCi = nullish (ei_marginCi i) (ei_ci i) in
     ebind (assertOrderedInterval marginCi) (\<lambda>_.
       Inr (if clearsMargin (ei_desirability i) (ei_requiredMargin i) marginCi then Beneficial
            else if showsHarm (ei_desirability i) (ei_ci i) then Harmful else Undecided))))"

definition clearsRequiredMargin :: "effect_input \<Rightarrow> effect_error + bool" where
  "clearsRequiredMargin i =
     ebind (assertFiniteMargin (ei_requiredMargin i)) (\<lambda>_.
     let marginCi = nullish (ei_marginCi i) (ei_ci i) in
     ebind (assertOrderedInterval marginCi) (\<lambda>_.
       Inr (clearsMargin (ei_desirability i) (ei_requiredMargin i) marginCi)))"

text \<open>The product of a finite positive number and 100, infinite past the largest double.\<close>

definition percent :: "rat \<Rightarrow> jsnum" where
  "percent m = (let q = fl (m * 100) in if 2 ^ 1024 \<le> q then PosInf else Fin q)"

definition marginOnIntervalScale :: "jsnum \<Rightarrow> rope_scale \<Rightarrow> effect_error + jsnum" where
  "marginOnIntervalScale requiredMargin scale =
     ebind (assertFiniteMargin requiredMargin) (\<lambda>_.
       Inr (if scale = Relative then percent (js_val requiredMargin) else requiredMargin))"

section \<open>The arms of a Metric\<close>

datatype unavailable_reason =
    NoPreRegistration | AbsoluteIntervalUnavailable | PrimaryResultUnavailable
  | RelativeSequentialCoverageUnproven | RelativeControlMeanNonPositive | LockedGoalDesirabilityMissing

datatype metric_subject = PrimaryMetric | GoalMetric

record classified_effect =
  ce_effect :: effect
  ce_arm :: arm_result
  ce_interval :: interval
  ce_subject :: metric_subject
  ce_evidence_missing :: bool

type_synonym 'a available = "effect_error + (unavailable_reason + 'a)"

definition abind :: "'a available \<Rightarrow> ('a \<Rightarrow> 'b available) \<Rightarrow> 'b available" where
  "abind r k = ebind r (\<lambda>v. case v of Inl reason \<Rightarrow> Inr (Inl reason) | Inr x \<Rightarrow> k x)"

definition treatmentArmsFor :: "string \<Rightarrow> arm_result list \<Rightarrow> string \<Rightarrow> arm_result list" where
  "treatmentArmsFor metricId arms controlVariant = filter (\<lambda>a. ar_metric_id a = metricId \<and> ar_variant a \<noteq> controlVariant) arms"

definition relativeControlMeanGate :: "rope_scale \<Rightarrow> string \<Rightarrow> arm_result list \<Rightarrow> string \<Rightarrow> unavailable_reason + unit" where
  "relativeControlMeanGate scale metricId arms controlVariant =
     (if scale \<noteq> Relative then Inr ()
      else (case List.find (\<lambda>a. ar_metric_id a = metricId \<and> ar_variant a = controlVariant) arms of
        None \<Rightarrow> Inl PrimaryResultUnavailable
      | Some control \<Rightarrow>
          if \<not> js_finite (ar_point_estimate control) \<or> js_le (ar_point_estimate control) (Fin 0)
          then Inl RelativeControlMeanNonPositive else Inr ()))"

definition unavailableForScale :: "unavailable_reason \<Rightarrow> rope_scale \<Rightarrow> unavailable_reason" where
  "unavailableForScale reason scale =
     (if scale = Absolute \<and> reason = AbsoluteIntervalUnavailable then reason else PrimaryResultUnavailable)"

definition missingIntervalReason :: "rope_scale \<Rightarrow> unavailable_reason" where
  "missingIntervalReason scale = (if scale = Absolute then AbsoluteIntervalUnavailable else PrimaryResultUnavailable)"

definition decisionEligible :: "arm_result \<Rightarrow> bool" where
  "decisionEligible arm \<longleftrightarrow> (ar_status arm = Ready \<or> ar_status arm = Stopped)
     \<and> ar_is_significant arm \<and> ar_in_bh_family arm \<and> ar_decision_valid arm"

definition finitePair :: "jsnum option \<Rightarrow> jsnum option \<Rightarrow> interval option" where
  "finitePair lower upper = (case (lower, upper) of
     (Some l, Some u) \<Rightarrow> if js_finite l \<and> js_finite u then Some (l, u) else None
   | _ \<Rightarrow> None)"

definition intervalForScale :: "arm_result \<Rightarrow> rope_scale \<Rightarrow> interval option" where
  "intervalForScale arm scale =
     (if scale = Relative then finitePair (ar_ci_lower arm) (ar_ci_upper arm)
      else finitePair (ar_absolute_ci_lower arm) (ar_absolute_ci_upper arm))"

definition simultaneousIntervalForScale :: "arm_result \<Rightarrow> rope_scale \<Rightarrow> interval option" where
  "simultaneousIntervalForScale arm scale =
     (if scale = Relative then finitePair (ar_simultaneous_ci_lower arm) (ar_simultaneous_ci_upper arm)
      else finitePair (ar_simultaneous_absolute_ci_lower arm) (ar_simultaneous_absolute_ci_upper arm))"

record treatment_input =
  ti_desirability :: metric_direction
  ti_scale :: rope_scale
  ti_marginOnScale :: jsnum
  ti_subject :: metric_subject
  ti_shipMarginComparisonCount :: nat

definition marginInterval :: "nat \<Rightarrow> arm_result \<Rightarrow> rope_scale \<Rightarrow> interval option" where
  "marginInterval k arm scale = (if 1 < k then simultaneousIntervalForScale arm scale else intervalForScale arm scale)"

definition classifyOneTreatmentArm :: "arm_result \<Rightarrow> treatment_input \<Rightarrow> classified_effect available" where
  "classifyOneTreatmentArm arm i = (case intervalForScale arm (ti_scale i) of
     None \<Rightarrow> Inr (Inl (missingIntervalReason (ti_scale i)))
   | Some ival \<Rightarrow> (case marginInterval (ti_shipMarginComparisonCount i) arm (ti_scale i) of
       None \<Rightarrow> Inr (Inl (missingIntervalReason (ti_scale i)))
     | Some marginIval \<Rightarrow>
         let effectInput = \<lparr>ei_desirability = ti_desirability i, ei_requiredMargin = ti_marginOnScale i,
               ei_scale = ti_scale i, ei_ci = ival, ei_marginCi = Some marginIval\<rparr>;
             eligible = decisionEligible arm in
         ebind (clearsRequiredMargin effectInput) (\<lambda>clearedMargin.
         ebind (if eligible then classifyMetricEffect effectInput else Inr Undecided) (\<lambda>e.
           Inr (Inr \<lparr>ce_effect = e, ce_arm = arm, ce_interval = (if e = Harmful then ival else marginIval),
             ce_subject = ti_subject i, ce_evidence_missing = (\<not> eligible \<and> clearedMargin)\<rparr>)))))"

fun classifyTreatmentArms :: "arm_result list \<Rightarrow> treatment_input \<Rightarrow> classified_effect list available" where
  "classifyTreatmentArms [] i = Inr (Inr [])"
| "classifyTreatmentArms (arm # arms) i =
     abind (classifyOneTreatmentArm arm i) (\<lambda>row.
     abind (classifyTreatmentArms arms i) (\<lambda>rows. Inr (Inr (row # rows))))"

section \<open>The primary Metric and the locked goals\<close>

definition worstEffect :: "effect list \<Rightarrow> effect" where
  "worstEffect effects = (if list_ex (\<lambda>e. e = Harmful) effects then Harmful
     else if list_all (\<lambda>e. e = Beneficial) effects then Beneficial else Undecided)"

definition resolvePrimaryEffect :: "pre_registration \<Rightarrow> arm_result list \<Rightarrow> string \<Rightarrow> classified_effect available" where
  "resolvePrimaryEffect pr arms controlVariant =
     (case List.find (\<lambda>m. pm_metric_id m = pr_primary_metric_id pr) (pr_metrics pr) of
        None \<Rightarrow> Inl NoPrimaryMetric
      | Some primaryMetric \<Rightarrow>
          let treatmentArms = treatmentArmsFor (pr_primary_metric_id pr) arms controlVariant;
              scale = margin_scale (pr_ship_rule pr) in
          if treatmentArms = [] then Inr (Inl PrimaryResultUnavailable)
          else (case relativeControlMeanGate scale (pr_primary_metric_id pr) arms controlVariant of
            Inl reason \<Rightarrow> Inr (Inl reason)
          | Inr _ \<Rightarrow>
              ebind (marginOnIntervalScale (required_margin (pr_ship_rule pr)) scale) (\<lambda>marginOnScale.
              abind (classifyTreatmentArms treatmentArms \<lparr>ti_desirability = pm_desirability primaryMetric, ti_scale = scale,
                  ti_marginOnScale = marginOnScale, ti_subject = PrimaryMetric, ti_shipMarginComparisonCount = 1\<rparr>) (\<lambda>rows.
                case List.find (\<lambda>row. ce_effect row = worstEffect (map ce_effect rows)) rows of
                  Some deciding \<Rightarrow> Inr (Inr deciding)
                | None \<Rightarrow> (case rows of [] \<Rightarrow> Inl NoPrimaryRow | row # _ \<Rightarrow> Inr (Inr row))))))"

definition lockedGoalMetricIds :: "arm_result list \<Rightarrow> string list \<Rightarrow> string list" where
  "lockedGoalMetricIds arms guardrailMetricIds =
     remdups_first (map ar_metric_id (filter (\<lambda>a. ar_in_bh_family a \<and> ar_metric_id a \<notin> set guardrailMetricIds) arms))"

definition countShipMarginComparisons :: "string list \<Rightarrow> arm_result list \<Rightarrow> string \<Rightarrow> nat" where
  "countShipMarginComparisons lockedIds arms controlVariant =
     (let n = sum_list (map (\<lambda>m. length (treatmentArmsFor m arms controlVariant)) lockedIds) in if 0 < n then n else 1)"

definition classifyOneLockedGoal :: "string \<Rightarrow> registered_metric option \<Rightarrow> string \<Rightarrow> arm_result list \<Rightarrow> string
    \<Rightarrow> rope_scale \<Rightarrow> jsnum \<Rightarrow> nat \<Rightarrow> classified_effect list available" where
  "classifyOneLockedGoal metricId metric primaryMetricId arms controlVariant scale marginOnScale k = (case metric of
     None \<Rightarrow> Inr (Inl LockedGoalDesirabilityMissing)
   | Some m \<Rightarrow> (case relativeControlMeanGate scale metricId arms controlVariant of
       Inl reason \<Rightarrow> Inr (Inl reason)
     | Inr _ \<Rightarrow>
         ebind (classifyTreatmentArms (treatmentArmsFor metricId arms controlVariant)
             \<lparr>ti_desirability = pm_desirability m, ti_scale = scale, ti_marginOnScale = marginOnScale,
              ti_subject = (if metricId = primaryMetricId then PrimaryMetric else GoalMetric),
              ti_shipMarginComparisonCount = k\<rparr>) (\<lambda>classified. case classified of
           Inl reason \<Rightarrow> Inr (Inl (unavailableForScale reason scale))
         | Inr rows \<Rightarrow> if length rows = 0 then Inr (Inl PrimaryResultUnavailable) else Inr (Inr rows))))"

fun locked_goals :: "(string \<Rightarrow> classified_effect list available) \<Rightarrow> string list \<Rightarrow> classified_effect list
    \<Rightarrow> classified_effect list available" where
  "locked_goals classify [] goals = Inr (Inr goals)"
| "locked_goals classify (metricId # ids) goals =
     abind (classify metricId) (\<lambda>rows. locked_goals classify ids (goals @ rows))"

definition metricsById :: "pre_registration \<Rightarrow> string \<Rightarrow> registered_metric option" where
  "metricsById pr = map_of (rev (map (\<lambda>m. (pm_metric_id m, m)) (pr_metrics pr)))"

definition classifyLockedGoalMetrics :: "pre_registration \<Rightarrow> arm_result list \<Rightarrow> string \<Rightarrow> string list
    \<Rightarrow> classified_effect list available" where
  "classifyLockedGoalMetrics pr arms controlVariant guardrailMetricIds =
     (let scale = margin_scale (pr_ship_rule pr) in
      ebind (marginOnIntervalScale (required_margin (pr_ship_rule pr)) scale) (\<lambda>marginOnScale.
      let lockedIds = lockedGoalMetricIds arms guardrailMetricIds;
          k = countShipMarginComparisons lockedIds arms controlVariant in
      abind (locked_goals (\<lambda>metricId. classifyOneLockedGoal metricId (metricsById pr metricId) (pr_primary_metric_id pr)
          arms controlVariant scale marginOnScale k) lockedIds []) (\<lambda>goals.
        if length goals = 0 then Inr (Inl PrimaryResultUnavailable) else Inr (Inr goals))))"

definition goalEffects :: "pre_registration \<Rightarrow> arm_result list \<Rightarrow> string \<Rightarrow> classified_effect \<Rightarrow> string list
    \<Rightarrow> classified_effect list available" where
  "goalEffects pr arms controlVariant primary guardrailMetricIds =
     (if conflict_resolution (pr_ship_rule pr) = PrimaryWins then Inr (Inr [primary])
      else classifyLockedGoalMetrics pr arms controlVariant guardrailMetricIds)"

definition firstWithEffect :: "classified_effect list \<Rightarrow> effect \<Rightarrow> classified_effect option" where
  "firstWithEffect goals e = List.find (\<lambda>g. ce_effect g = e) goals"

definition combineUnanimous :: "classified_effect \<Rightarrow> classified_effect list \<Rightarrow> classified_effect" where
  "combineUnanimous primary goals =
     (if list_all (\<lambda>g. ce_effect g = Beneficial) goals then nullish (firstWithEffect goals Beneficial) primary
      else nullish (firstWithEffect goals Undecided) primary)"

definition combineAnyGoal :: "classified_effect \<Rightarrow> classified_effect list \<Rightarrow> classified_effect" where
  "combineAnyGoal primary goals =
     nullish (firstWithEffect goals Beneficial) (nullish (firstWithEffect goals Undecided) primary)"

definition combineEffects :: "conflict_resolution \<Rightarrow> classified_effect \<Rightarrow> classified_effect list \<Rightarrow> classified_effect" where
  "combineEffects resolution primary goals =
     (if resolution = PrimaryWins then primary
      else (case List.find (\<lambda>g. ce_effect g = Harmful) goals of
        Some harmful \<Rightarrow> harmful
      | None \<Rightarrow> if resolution = UnanimousGoals then combineUnanimous primary goals else combineAnyGoal primary goals))"

section \<open>The recommendation\<close>

datatype verdict = Ship | DoNotShip | KeepRunning | Invalid

datatype because = BecauseCheck gate_check | BecauseGuardrail guardrail_result | BecauseEffect classified_effect

datatype ship_result = Recommendation verdict because | RecommendationUnavailable unavailable_reason

datatype horizon = Sequential | FixedHorizon

definition INVALID_CHECK_IDS :: "check_id list" where
  "INVALID_CHECK_IDS = [ControlIdentity, ExposureSrm, ActivatedSrm, ActivationBalance, EngineStatus, DecisionValidResult]"

definition NOT_READY_CHECK_IDS :: "check_id list" where
  "NOT_READY_CHECK_IDS = [Underpowered, PlannedDuration]"

definition firstFailedCheck :: "decision_gate \<Rightarrow> check_id list \<Rightarrow> gate_check option" where
  "firstFailedCheck gate ids = List.find (\<lambda>c. gc_status c = Fail \<and> gc_id c \<in> set ids) (gate_checks gate)"

definition firstBreachedGuardrail :: "guardrail_result list \<Rightarrow> guardrail_result option" where
  "firstBreachedGuardrail rows = List.find (\<lambda>g. gr_is_breached g = Some True) rows"

definition effect_verdict :: "effect \<Rightarrow> verdict" where
  "effect_verdict e = (case e of Harmful \<Rightarrow> DoNotShip | Undecided \<Rightarrow> KeepRunning | Beneficial \<Rightarrow> Ship)"

definition recommend_from_effects :: "pre_registration \<Rightarrow> stats_output \<Rightarrow> string \<Rightarrow> effect_error + ship_result" where
  "recommend_from_effects pr stats controlVariant =
     ebind (resolvePrimaryEffect pr (so_arm_results stats) controlVariant) (\<lambda>primary. case primary of
       Inl reason \<Rightarrow> Inr (RecommendationUnavailable reason)
     | Inr p \<Rightarrow>
         ebind (goalEffects pr (so_arm_results stats) controlVariant p (map gr_metric_id (so_guardrail_results stats)))
           (\<lambda>goals. case goals of
             Inl reason \<Rightarrow> Inr (RecommendationUnavailable reason)
           | Inr gs \<Rightarrow>
               let combined = combineEffects (conflict_resolution (pr_ship_rule pr)) p gs in
               Inr (Recommendation (effect_verdict (ce_effect combined)) (BecauseEffect combined))))"

definition computeShipRecommendation :: "pre_registration option \<Rightarrow> decision_gate \<Rightarrow> stats_output \<Rightarrow> string
    \<Rightarrow> horizon option \<Rightarrow> effect_error + ship_result" where
  "computeShipRecommendation preRegistration gate stats controlVariant hz = (case preRegistration of
     None \<Rightarrow> Inr (RecommendationUnavailable NoPreRegistration)
   | Some pr \<Rightarrow> (case firstFailedCheck gate INVALID_CHECK_IDS of
       Some c \<Rightarrow> Inr (Recommendation Invalid (BecauseCheck c))
     | None \<Rightarrow> (case firstFailedCheck gate NOT_READY_CHECK_IDS of
         Some c \<Rightarrow> Inr (Recommendation KeepRunning (BecauseCheck c))
       | None \<Rightarrow> (case firstBreachedGuardrail (so_guardrail_results stats) of
           Some g \<Rightarrow> Inr (Recommendation DoNotShip (BecauseGuardrail g))
         | None \<Rightarrow>
             if margin_scale (pr_ship_rule pr) = Relative \<and> hz = Some Sequential
             then Inr (RecommendationUnavailable RelativeSequentialCoverageUnproven)
             else recommend_from_effects pr stats controlVariant))))"

section \<open>When the rule is met\<close>

text \<open>
  The ship rule over the published intervals: a Treatment wins a Metric when it is eligible
  and its margin interval, the simultaneous one where several comparisons could ship, clears
  the required margin; it harms one when its ordinary interval lies on the wrong side of 0.
\<close>

definition arm_wins :: "pre_registration \<Rightarrow> registered_metric \<Rightarrow> nat \<Rightarrow> arm_result \<Rightarrow> bool" where
  "arm_wins pr m k arm \<longleftrightarrow> ar_status arm \<in> {Ready, Stopped} \<and> ar_is_significant arm \<and> ar_in_bh_family arm
     \<and> ar_decision_valid arm \<and> (\<exists>margin ci.
     marginOnIntervalScale (required_margin (pr_ship_rule pr)) (margin_scale (pr_ship_rule pr)) = Inr margin
     \<and> marginInterval k arm (margin_scale (pr_ship_rule pr)) = Some ci \<and> clearsMargin (pm_desirability m) margin ci)"

definition arm_harms :: "pre_registration \<Rightarrow> registered_metric \<Rightarrow> arm_result \<Rightarrow> bool" where
  "arm_harms pr m arm \<longleftrightarrow> ar_status arm \<in> {Ready, Stopped} \<and> ar_is_significant arm \<and> ar_in_bh_family arm
     \<and> ar_decision_valid arm \<and> (\<exists>ci. intervalForScale arm (margin_scale (pr_ship_rule pr)) = Some ci
     \<and> showsHarm (pm_desirability m) ci)"

definition goal_comparisons :: "arm_result list \<Rightarrow> string \<Rightarrow> string list \<Rightarrow> (string \<times> arm_result) list" where
  "goal_comparisons arms controlVariant ids = concat (map (\<lambda>i. map (Pair i) (treatmentArmsFor i arms controlVariant)) ids)"

definition ship_rule_met :: "pre_registration \<Rightarrow> stats_output \<Rightarrow> string \<Rightarrow> bool" where
  "ship_rule_met pr stats controlVariant =
     (let arms = so_arm_results stats;
          goals = goal_comparisons arms controlVariant (lockedGoalMetricIds arms (map gr_metric_id (so_guardrail_results stats)));
          k = max 1 (length goals);
          wins = (\<lambda>(i, arm). \<exists>m. metricsById pr i = Some m \<and> arm_wins pr m k arm);
          harms = (\<lambda>(i, arm). \<exists>m. metricsById pr i = Some m \<and> arm_harms pr m arm) in
      case conflict_resolution (pr_ship_rule pr) of
        PrimaryWins \<Rightarrow> (\<exists>m. List.find (\<lambda>m. pm_metric_id m = pr_primary_metric_id pr) (pr_metrics pr) = Some m
          \<and> (\<forall>arm\<in>set (treatmentArmsFor (pr_primary_metric_id pr) arms controlVariant). arm_wins pr m 1 arm))
      | UnanimousGoals \<Rightarrow> (\<forall>g\<in>set goals. wins g)
      | AnyGoal \<Rightarrow> (\<exists>g\<in>set goals. wins g) \<and> (\<forall>g\<in>set goals. harms g \<longrightarrow> wins g))"

lemma abind_eq: "abind r k = Inr (Inr w) \<longleftrightarrow> (\<exists>v. r = Inr (Inr v) \<and> k v = Inr (Inr w))"
  by (cases r) (auto simp: abind_def split: sum.splits)

lemma classified_arm:
  assumes "classifyOneTreatmentArm arm i = Inr (Inr row)"
  shows "ce_effect row = Beneficial \<longleftrightarrow> decisionEligible arm \<and> (\<exists>ci. marginInterval (ti_shipMarginComparisonCount i) arm (ti_scale i) = Some ci
      \<and> clearsMargin (ti_desirability i) (ti_marginOnScale i) ci)" (is ?win)
    and "ce_effect row = Harmful \<longleftrightarrow> ce_effect row \<noteq> Beneficial \<and> decisionEligible arm
      \<and> (\<exists>ci. intervalForScale arm (ti_scale i) = Some ci \<and> showsHarm (ti_desirability i) ci)" (is ?harm)
proof -
  from assms show ?win ?harm
    by (auto simp: classifyOneTreatmentArm_def classifyMetricEffect_def ebind_eq_Inr Let_def split: option.splits if_splits)
qed

lemma classified_arms: "classifyTreatmentArms arms i = Inr (Inr rows)
    \<Longrightarrow> list_all2 (\<lambda>arm row. classifyOneTreatmentArm arm i = Inr (Inr row)) arms rows"
  by (induction arms arbitrary: rows) (auto simp: abind_eq)

lemma locked_goals_rows: "locked_goals classify ids goals = Inr (Inr gs)
    \<Longrightarrow> \<exists>rss. list_all2 (\<lambda>i rows. classify i = Inr (Inr rows)) ids rss \<and> gs = goals @ concat rss"
  by (induction ids arbitrary: goals) (fastforce simp: abind_eq list_all2_Cons1)+

lemma list_all2_concat: "list_all2 (list_all2 P) xss yss \<Longrightarrow> list_all2 P (concat xss) (concat yss)"
  by (induction rule: list_all2_induct) (auto intro: list_all2_appendI)

lemma goal_count: "countShipMarginComparisons ids arms controlVariant = max 1 (length (goal_comparisons arms controlVariant ids))"
  by (simp add: countShipMarginComparisons_def goal_comparisons_def length_concat comp_def Let_def)

lemma worst_mem:
  assumes "es \<noteq> []"
  shows "worstEffect es \<in> set es"
proof (cases "Harmful \<in> set es")
  case False
  then have "Undecided \<in> set es" if "e \<in> set es" "e \<noteq> Beneficial" for e
    using that by (cases e) auto
  with False show ?thesis using assms by (cases es) (auto simp: worstEffect_def list_ex_iff list_all_iff)
qed (auto simp: worstEffect_def list_ex_iff)

lemma effect_of_worst:
  assumes "rows \<noteq> []" "deciding = (case List.find (\<lambda>row. ce_effect row = worstEffect (map ce_effect rows)) rows of
      Some r \<Rightarrow> r | None \<Rightarrow> hd rows)"
  shows "ce_effect deciding = worstEffect (map ce_effect rows)"
proof (cases "List.find (\<lambda>row. ce_effect row = worstEffect (map ce_effect rows)) rows")
  case None
  have "worstEffect (map ce_effect rows) \<in> ce_effect ` set rows" using worst_mem[of "map ce_effect rows"] assms(1) by simp
  with None show ?thesis by (auto simp: find_None_iff)
next
  case (Some r)
  then have "deciding = r" using assms(2) by simp
  with Some show ?thesis by (auto simp: find_Some_iff)
qed

lemma worst_beneficial: "worstEffect es = Beneficial \<longleftrightarrow> (\<forall>e\<in>set es. e = Beneficial)"
  by (auto simp: worstEffect_def list_ex_iff list_all_iff)

lemma primary_beneficial:
  assumes "resolvePrimaryEffect pr arms controlVariant = Inr (Inr p)"
  shows "ce_effect p = Beneficial \<longleftrightarrow> (\<exists>m. List.find (\<lambda>m. pm_metric_id m = pr_primary_metric_id pr) (pr_metrics pr) = Some m
    \<and> (\<forall>arm\<in>set (treatmentArmsFor (pr_primary_metric_id pr) arms controlVariant). arm_wins pr m 1 arm))"
proof -
  let ?scale = "margin_scale (pr_ship_rule pr)" and ?arms = "treatmentArmsFor (pr_primary_metric_id pr) arms controlVariant"
  from assms obtain m margin rows where m: "List.find (\<lambda>m. pm_metric_id m = pr_primary_metric_id pr) (pr_metrics pr) = Some m"
    and ne: "?arms \<noteq> []" and margin: "marginOnIntervalScale (required_margin (pr_ship_rule pr)) ?scale = Inr margin"
    and rows: "classifyTreatmentArms ?arms \<lparr>ti_desirability = pm_desirability m, ti_scale = ?scale, ti_marginOnScale = margin,
        ti_subject = PrimaryMetric, ti_shipMarginComparisonCount = 1\<rparr> = Inr (Inr rows)"
    and p: "(case List.find (\<lambda>row. ce_effect row = worstEffect (map ce_effect rows)) rows of
        Some deciding \<Rightarrow> Inr (Inr deciding) | None \<Rightarrow> (case rows of [] \<Rightarrow> Inl NoPrimaryRow | row # _ \<Rightarrow> Inr (Inr row)))
      = (Inr (Inr p) :: classified_effect available)"
    by (auto simp: resolvePrimaryEffect_def Let_def ebind_eq_Inr abind_eq split: option.splits sum.splits if_splits)
  note each = classified_arms[OF rows]
  have "rows \<noteq> []" using list_all2_lengthD[OF each] ne by auto
  moreover have "p = (case List.find (\<lambda>row. ce_effect row = worstEffect (map ce_effect rows)) rows of Some r \<Rightarrow> r | None \<Rightarrow> hd rows)"
    using p by (auto split: option.splits list.splits)
  ultimately have "ce_effect p = worstEffect (map ce_effect rows)" by (rule effect_of_worst)
  then have "ce_effect p = Beneficial \<longleftrightarrow> (\<forall>row\<in>set rows. ce_effect row = Beneficial)"
    by (simp add: worst_beneficial)
  also have "\<dots> \<longleftrightarrow> (\<forall>arm\<in>set ?arms. arm_wins pr m 1 arm)"
  proof -
    have "list_all2 (\<lambda>arm row. ce_effect row = Beneficial \<longleftrightarrow> arm_wins pr m 1 arm) ?arms rows"
      using each by (rule list_all2_mono) (auto simp: classified_arm(1) arm_wins_def decisionEligible_def margin)
    then show ?thesis by (auto simp: list_all2_conv_all_nth all_set_conv_all_nth)
  qed
  finally show ?thesis using m by simp
qed

lemma available_rows:
  "ebind r (\<lambda>c. case c of Inl reason \<Rightarrow> Inr (Inl (f reason)) | Inr rows \<Rightarrow> if P rows then Inr (Inl e) else Inr (Inr rows))
     = Inr (Inr w) \<longleftrightarrow> r = Inr (Inr w) \<and> \<not> P w"
  by (cases r) (auto split: sum.splits)

lemma goal_effects:
  assumes "classifyLockedGoalMetrics pr arms controlVariant guardrails = Inr (Inr gs)"
    and "goals = goal_comparisons arms controlVariant (lockedGoalMetricIds arms guardrails)"
  shows "gs \<noteq> []" and "list_all2 (\<lambda>(i, arm) row. \<exists>m. metricsById pr i = Some m
      \<and> (ce_effect row = Beneficial \<longleftrightarrow> arm_wins pr m (max 1 (length goals)) arm)
      \<and> (ce_effect row = Harmful \<longleftrightarrow> \<not> arm_wins pr m (max 1 (length goals)) arm \<and> arm_harms pr m arm)) goals gs"
proof -
  let ?scale = "margin_scale (pr_ship_rule pr)" and ?ids = "lockedGoalMetricIds arms guardrails"
  let ?k = "max 1 (length goals)"
  from assms obtain margin rss where margin: "marginOnIntervalScale (required_margin (pr_ship_rule pr)) ?scale = Inr margin"
    and rss: "list_all2 (\<lambda>i rows. classifyOneLockedGoal i (metricsById pr i) (pr_primary_metric_id pr) arms controlVariant ?scale margin ?k
        = Inr (Inr rows)) ?ids rss" and gs: "gs = concat rss"
    unfolding classifyLockedGoalMetrics_def Let_def goal_count
    by (auto simp: ebind_eq_Inr abind_eq split: if_splits dest!: locked_goals_rows)
  show "gs \<noteq> []"
    using assms(1) by (auto simp: classifyLockedGoalMetrics_def Let_def ebind_eq_Inr abind_eq split: if_splits)
  have "list_all2 (list_all2 (\<lambda>(i, arm) row. \<exists>m. metricsById pr i = Some m
      \<and> (ce_effect row = Beneficial \<longleftrightarrow> arm_wins pr m ?k arm)
      \<and> (ce_effect row = Harmful \<longleftrightarrow> \<not> arm_wins pr m ?k arm \<and> arm_harms pr m arm)))
      (map (\<lambda>i. map (Pair i) (treatmentArmsFor i arms controlVariant)) ?ids) rss"
    unfolding list_all2_map1
  proof (rule list_all2_mono[OF rss])
    fix i rows
    assume "classifyOneLockedGoal i (metricsById pr i) (pr_primary_metric_id pr) arms controlVariant ?scale margin ?k = Inr (Inr rows)"
    then obtain m sub where m: "metricsById pr i = Some m"
      and rows: "classifyTreatmentArms (treatmentArmsFor i arms controlVariant) \<lparr>ti_desirability = pm_desirability m,
        ti_scale = ?scale, ti_marginOnScale = margin, ti_subject = sub, ti_shipMarginComparisonCount = ?k\<rparr> = Inr (Inr rows)"
      by (auto simp: classifyOneLockedGoal_def available_rows split: option.splits sum.splits if_splits)
    show "list_all2 (\<lambda>arm. case (i, arm) of (i, arm) \<Rightarrow> \<lambda>row. \<exists>m. metricsById pr i = Some m
      \<and> (ce_effect row = Beneficial \<longleftrightarrow> arm_wins pr m ?k arm)
      \<and> (ce_effect row = Harmful \<longleftrightarrow> \<not> arm_wins pr m ?k arm \<and> arm_harms pr m arm)) (treatmentArmsFor i arms controlVariant) rows"
      using classified_arms[OF rows]
      by (rule list_all2_mono) (use m classified_arm in \<open>fastforce simp: arm_wins_def arm_harms_def decisionEligible_def margin\<close>)
  qed
  then show "list_all2 (\<lambda>(i, arm) row. \<exists>m. metricsById pr i = Some m
      \<and> (ce_effect row = Beneficial \<longleftrightarrow> arm_wins pr m ?k arm)
      \<and> (ce_effect row = Harmful \<longleftrightarrow> \<not> arm_wins pr m ?k arm \<and> arm_harms pr m arm)) goals gs"
    unfolding assms(2) goal_comparisons_def gs(1) by (rule list_all2_concat)
qed

lemma first_effect:
  "firstWithEffect goals e = Some g \<Longrightarrow> ce_effect g = e"
  "firstWithEffect goals e = None \<longleftrightarrow> (\<forall>g\<in>set goals. ce_effect g \<noteq> e)"
  by (auto simp: firstWithEffect_def find_None_iff find_Some_iff)

lemma combined_beneficial:
  assumes "resolution \<noteq> PrimaryWins" "gs \<noteq> []"
  shows "ce_effect (combineEffects resolution p gs) = Beneficial \<longleftrightarrow> (\<forall>g\<in>set gs. ce_effect g \<noteq> Harmful)
    \<and> (if resolution = UnanimousGoals then \<forall>g\<in>set gs. ce_effect g = Beneficial else \<exists>g\<in>set gs. ce_effect g = Beneficial)"
proof (cases "firstWithEffect gs Harmful")
  case (Some g)
  from Some have "ce_effect g = Harmful" by (rule first_effect(1))
  with Some have "ce_effect (combineEffects resolution p gs) = Harmful"
    using assms(1) by (simp add: combineEffects_def firstWithEffect_def)
  moreover have "\<exists>g\<in>set gs. ce_effect g = Harmful"
    using Some first_effect(2)[of gs Harmful] by fastforce
  ultimately show ?thesis by auto
next
  case None
  then have unharmed: "ce_effect g = Beneficial \<or> ce_effect g = Undecided" if "g \<in> set gs" for g
    using that None first_effect(2)[of gs Harmful] by (cases "ce_effect g") auto
  have comb: "combineEffects resolution p gs
      = (if resolution = UnanimousGoals then combineUnanimous p gs else combineAnyGoal p gs)"
    using None assms(1) by (simp add: combineEffects_def firstWithEffect_def)
  have harm: "\<forall>g\<in>set gs. ce_effect g \<noteq> Harmful" using unharmed by fastforce
  have undecided: "\<exists>g. firstWithEffect gs Undecided = Some g \<and> ce_effect g = Undecided"
    if "\<exists>g\<in>set gs. ce_effect g \<noteq> Beneficial"
    using that unharmed first_effect[of gs Undecided] by (cases "firstWithEffect gs Undecided") auto
  have beneficial: "\<exists>g. firstWithEffect gs Beneficial = Some g \<and> ce_effect g = Beneficial"
    if "\<exists>g\<in>set gs. ce_effect g = Beneficial"
    using that first_effect[of gs Beneficial] by (cases "firstWithEffect gs Beneficial") auto
  have "ce_effect (combineUnanimous p gs) = Beneficial \<longleftrightarrow> (\<forall>g\<in>set gs. ce_effect g = Beneficial)"
  proof (cases "\<forall>g\<in>set gs. ce_effect g = Beneficial")
    case True
    then have "\<exists>g\<in>set gs. ce_effect g = Beneficial" using assms(2) by (cases gs) auto
    with True beneficial show ?thesis by (auto simp: combineUnanimous_def list_all_iff)
  next
    case False
    then obtain g where "firstWithEffect gs Undecided = Some g" "ce_effect g = Undecided" using undecided by blast
    with False show ?thesis by (auto simp: combineUnanimous_def list_all_iff)
  qed
  moreover have "ce_effect (combineAnyGoal p gs) = Beneficial \<longleftrightarrow> (\<exists>g\<in>set gs. ce_effect g = Beneficial)"
  proof (cases "\<exists>g\<in>set gs. ce_effect g = Beneficial")
    case True
    then show ?thesis using beneficial by (auto simp: combineAnyGoal_def)
  next
    case False
    then have "firstWithEffect gs Beneficial = None" using first_effect(2) by blast
    moreover have "\<exists>g\<in>set gs. ce_effect g \<noteq> Beneficial" using False assms(2) by (cases gs) auto
    ultimately show ?thesis using False undecided by (auto simp: combineAnyGoal_def)
  qed
  ultimately show ?thesis using harm comb by simp
qed

lemma list_all2_sets:
  assumes "list_all2 P xs ys"
  shows "(\<And>x y. P x y \<Longrightarrow> p x \<longleftrightarrow> q y) \<Longrightarrow> (\<forall>x\<in>set xs. p x) \<longleftrightarrow> (\<forall>y\<in>set ys. q y)"
    and "(\<And>x y. P x y \<Longrightarrow> p x \<longleftrightarrow> q y) \<Longrightarrow> (\<exists>x\<in>set xs. p x) \<longleftrightarrow> (\<exists>y\<in>set ys. q y)"
  using assms by (induction rule: list_all2_induct) auto

lemma available_recommendation:
  "ebind r (\<lambda>c. case c of Inl reason \<Rightarrow> Inr (RecommendationUnavailable reason) | Inr x \<Rightarrow> k x) = Inr (Recommendation v b)
     \<longleftrightarrow> (\<exists>x. r = Inr (Inr x) \<and> k x = Inr (Recommendation v b))"
  by (cases r) (auto split: sum.splits)

lemma effects_ship:
  assumes "recommend_from_effects pr stats controlVariant = Inr (Recommendation v b)"
  shows "v = Ship \<longleftrightarrow> ship_rule_met pr stats controlVariant"
proof -
  let ?arms = "so_arm_results stats" and ?guardrails = "map gr_metric_id (so_guardrail_results stats)"
  let ?resolution = "conflict_resolution (pr_ship_rule pr)"
  let ?goals = "goal_comparisons ?arms controlVariant (lockedGoalMetricIds ?arms ?guardrails)"
  from assms obtain p gs where p: "resolvePrimaryEffect pr ?arms controlVariant = Inr (Inr p)"
    and gs: "goalEffects pr ?arms controlVariant p ?guardrails = Inr (Inr gs)"
    and v: "v = effect_verdict (ce_effect (combineEffects ?resolution p gs))"
    unfolding recommend_from_effects_def Let_def available_recommendation by blast
  have ship: "v = Ship \<longleftrightarrow> ce_effect (combineEffects ?resolution p gs) = Beneficial"
    unfolding v by (simp add: effect_verdict_def split: effect.split)
  show ?thesis
  proof (cases "?resolution = PrimaryWins")
    case True
    then show ?thesis using primary_beneficial[OF p] unfolding ship by (simp add: combineEffects_def ship_rule_met_def Let_def)
  next
    case False
    then have "classifyLockedGoalMetrics pr ?arms controlVariant ?guardrails = Inr (Inr gs)"
      using gs by (simp add: goalEffects_def)
    note effects = goal_effects[OF this refl]
    let ?wins = "\<lambda>(i, arm). \<exists>m. metricsById pr i = Some m \<and> arm_wins pr m (max 1 (length ?goals)) arm"
    let ?harms = "\<lambda>(i, arm). \<exists>m. metricsById pr i = Some m \<and> arm_harms pr m arm"
    have all: "(\<forall>g\<in>set ?goals. ?wins g) \<longleftrightarrow> (\<forall>row\<in>set gs. ce_effect row = Beneficial)"
      by (rule list_all2_sets(1)[OF effects(2)]) auto
    have some: "(\<exists>g\<in>set ?goals. ?wins g) \<longleftrightarrow> (\<exists>row\<in>set gs. ce_effect row = Beneficial)"
      by (rule list_all2_sets(2)[OF effects(2)]) auto
    have none: "(\<forall>g\<in>set ?goals. ?harms g \<longrightarrow> ?wins g) \<longleftrightarrow> (\<forall>row\<in>set gs. ce_effect row \<noteq> Harmful)"
      by (rule list_all2_sets(1)[OF effects(2)]) auto
    have met: "ship_rule_met pr stats controlVariant \<longleftrightarrow> (if ?resolution = UnanimousGoals then \<forall>g\<in>set ?goals. ?wins g
        else (\<exists>g\<in>set ?goals. ?wins g) \<and> (\<forall>g\<in>set ?goals. ?harms g \<longrightarrow> ?wins g))"
      using False unfolding ship_rule_met_def Let_def by (cases ?resolution) simp_all
    have "(\<forall>g\<in>set ?goals. ?harms g \<longrightarrow> ?wins g)" if "\<forall>g\<in>set ?goals. ?wins g" using that by blast
    then show ?thesis
      unfolding ship met combined_beneficial[OF False effects(1)] all[symmetric] some[symmetric] none[symmetric]
      by (cases "?resolution = UnanimousGoals") (simp_all only: if_True if_False simp_thms, argo+)
  qed
qed

text \<open>A gate every check of which is known fails a check exactly when it has a failing one.\<close>

lemma firstFailedCheck_None: "firstFailedCheck gate ids = None \<longleftrightarrow> (\<forall>c\<in>set (gate_checks gate). gc_status c = Fail \<longrightarrow> gc_id c \<notin> set ids)"
  by (auto simp: firstFailedCheck_def find_None_iff)

lemma every_check: "i \<in> set INVALID_CHECK_IDS \<or> i \<in> set NOT_READY_CHECK_IDS"
  by (cases i) (auto simp: INVALID_CHECK_IDS_def NOT_READY_CHECK_IDS_def)

lemma no_failed_check:
  assumes "gate = gate_of checks"
  shows "firstFailedCheck gate INVALID_CHECK_IDS = None \<and> firstFailedCheck gate NOT_READY_CHECK_IDS = None \<longleftrightarrow> gate_shipAllowed gate"
  using every_check unfolding firstFailedCheck_None assms gate_of_ship by (auto simp: gate_of_def Let_def)

text \<open>
  C39: a recommendation is to ship exactly when the gate of the same evidence allows a
  decision, no Guardrail is breached and the frozen ship rule is met: every Treatment wins
  the primary Metric, or every locked goal, or, for the rule satisfied by any goal, some
  Treatment wins a goal and none harms one without winning it. A win is an eligible,
  significant member of the corrected family whose interval, the simultaneous one when
  several comparisons could ship, clears the margin. A relative rule of a sequential Run is
  never recommended on.
\<close>

theorem ship_only_on_the_frozen_rule:
  assumes "evaluateExperimentDecisionGate parse stats control duration alarms = Inr gate"
    and "computeShipRecommendation (Some pr) gate stats controlVariant hz = Inr (Recommendation v b)"
  shows "(v = Ship \<longleftrightarrow> gate_shipAllowed gate \<and> (\<forall>g\<in>set (so_guardrail_results stats). gr_is_breached g \<noteq> Some True)
      \<and> ship_rule_met pr stats controlVariant)
    \<and> (v = Ship \<longrightarrow> \<not> (margin_scale (pr_ship_rule pr) = Relative \<and> hz = Some Sequential))"
proof -
  obtain checks where "gate = gate_of checks" by (rule evaluated_gate[OF assms(1)]) (rule that)
  note allowed = no_failed_check[OF this]
  have breached: "firstBreachedGuardrail (so_guardrail_results stats) = None
      \<longleftrightarrow> (\<forall>g\<in>set (so_guardrail_results stats). gr_is_breached g \<noteq> Some True)"
    by (auto simp: firstBreachedGuardrail_def find_None_iff)
  note compute = assms(2)[unfolded computeShipRecommendation_def option.case]
  show ?thesis
  proof (cases "gate_shipAllowed gate \<and> firstBreachedGuardrail (so_guardrail_results stats) = None")
    case True
    then have "\<not> (margin_scale (pr_ship_rule pr) = Relative \<and> hz = Some Sequential)
        \<and> recommend_from_effects pr stats controlVariant = Inr (Recommendation v b)"
      using compute allowed by (simp split: if_splits)
    then show ?thesis using effects_ship True breached by blast
  next
    case False
    then have "v \<noteq> Ship" using compute allowed by (auto split: option.splits)
    with False breached show ?thesis by blast
  qed
qed

definition ship_stats :: stats_output where
  "ship_stats = sample_stats\<lparr>so_arm_results := [sample_arm ''control'' 1, (sample_arm ''b'' (1 / 128))\<lparr>ar_is_significant := True,
     ar_in_bh_family := True, ar_decision_valid := True, ar_absolute_ci_lower := Some (Fin 2),
     ar_absolute_ci_upper := Some (Fin 4)\<rparr>]\<rparr>"

definition ship_registration :: pre_registration where
  "ship_registration = \<lparr>pr_hypothesis = ''b is better'', pr_primary_metric_id = ''m'',
     pr_metrics = [\<lparr>pm_metric_id = ''m'', pm_desirability = HigherIsBetter, pm_mde_absolute = None, pm_mde_relative = None,
       pm_rope = None\<rparr>],
     pr_ship_rule = \<lparr>required_margin = Fin 1, margin_scale = Absolute, conflict_resolution = UnanimousGoals\<rparr>,
     pr_futility = FutilityOff\<rparr>"

definition ship_gate :: "gate_error + decision_gate" where
  "ship_gate = evaluateExperimentDecisionGate sample_parse ship_stats (ControlFrozen ''v1'' ''control'') sample_duration []"

definition ship_outcome :: "decision_gate \<Rightarrow> effect_error + ship_result" where
  "ship_outcome gate = computeShipRecommendation (Some ship_registration) gate ship_stats ''control'' (Some Sequential)"

lemma ship_sample_runs: "case ship_gate of Inl _ \<Rightarrow> False | Inr gate \<Rightarrow>
    (case ship_outcome gate of Inr (Recommendation v _) \<Rightarrow> v = Ship | _ \<Rightarrow> False)"
  by code_simp

theorem ship_only_on_the_frozen_rule_witness:
  "\<exists>gate b. ship_gate = Inr gate \<and> ship_outcome gate = Inr (Recommendation Ship b) \<and> gate_shipAllowed gate
     \<and> ship_rule_met ship_registration ship_stats ''control''"
proof -
  obtain gate b where run: "ship_gate = Inr gate" "ship_outcome gate = Inr (Recommendation Ship b)"
    using ship_sample_runs by (auto split: sum.splits ship_result.splits)
  from ship_only_on_the_frozen_rule[OF run[unfolded ship_gate_def ship_outcome_def]] run show ?thesis by blast
qed

end
