(* ===== verification/RunTables.thy ===== *)
theory RunTables
  imports Json "HOL-Library.Monad_Syntax"
begin

text \<open>
  The D1 tables the Run lifecycle reads and writes (\<open>packages/db/src/schema\<close>), and what
  a prepared statement and \<open>d1.batch\<close> do to them. A table is the list of its rows, a
  nullable column an option, a text column a string, also where the text is JSON. The
  columns the program never reads back (\<open>seq\<close>, \<open>event_id\<close> and \<open>forwarded_at\<close> of the audit
  log, \<open>created_at\<close> of a Flag Configuration) are left out; of \<open>apps\<close>, \<open>environments\<close>, \<open>flags\<close>
  and \<open>app_memberships\<close> only the columns these statements read or write are kept, and an
  Environment's policy, the Policy contexts of an Approval Request and the available Variant
  names of a Configuration are the values their JSON texts denote.

  A statement returns the ids of its \<open>RETURNING\<close> clause and sets \<open>changes\<close>, what
  \<open>changes()\<close> of SQLite answers in the same batch; a statement that violates a unique
  index or a foreign key throws, and so does one that evaluates \<open>json('')\<close>.
  \<open>d1.batch\<close> is a transaction: when a statement throws, nothing of it is kept.
\<close>

section \<open>Rows\<close>

record experiment_row =
  ex_id :: string
  ex_app :: string
  ex_env :: string
  ex_key :: string
  ex_flag :: string
  ex_name :: string
  ex_description :: "string option"
  ex_hypothesis :: "string option"
  ex_owner :: "string option"
  ex_tags :: string
  ex_status :: string
  ex_keyField :: string
  ex_keyType :: string
  ex_confidence :: jsnum
  ex_defaultVariant :: "string option"
  ex_metrics :: string
  ex_guardrails :: string
  ex_activation :: "string option"
  ex_window :: int
  ex_dimensions :: string
  ex_draftAllocation :: "string option"
  ex_draftSalt :: "string option"
  ex_draftRules :: "string option"
  ex_draftSegments :: "string option"
  ex_liveRun :: "string option"
  ex_createdAt :: string
  ex_updatedAt :: string
  ex_createdBy :: "string option"
  ex_updatedBy :: "string option"

text \<open>
  What Start freezes: the columns of a Run that are written once. The rest of a Run row is
  its status and how it ended.
\<close>

record run_snapshot =
  sn_keyField :: string
  sn_keyType :: string
  sn_activation :: "string option"
  sn_salt :: string
  sn_allocation :: string
  sn_variantSet :: string
  sn_control :: string
  sn_rules :: string
  sn_confidence :: jsnum
  sn_horizon :: string
  sn_targetN :: "int option"
  sn_analysisVersion :: "string option"
  sn_targetNSource :: "string option"
  sn_plannedDays :: "int option"
  sn_overrideReason :: "string option"
  sn_preRegistration :: "string option"
  sn_sampleSize :: "int option"
  sn_family :: string
  sn_guardrails :: string
  sn_variance :: string
  sn_configHash :: string
  sn_startedAt :: string
  sn_startReason :: "string option"
  sn_createdAt :: string
  sn_createdBy :: "string option"

record run_row =
  rn_id :: string
  rn_app :: string
  rn_env :: string
  rn_experiment :: string
  rn_number :: int
  rn_snapshot :: run_snapshot
  rn_status :: string
  rn_endedAt :: "string option"
  rn_endReason :: "string option"

record alarm_row =
  al_run :: string
  al_kind :: string
  al_firstCrossedAt :: string
  al_watermark :: string
  al_pValue :: jsnum
  al_version :: string
  al_app :: string
  al_env :: string

record conclusion_row =
  cn_id :: string
  cn_app :: string
  cn_env :: string
  cn_experiment :: string
  cn_run :: string
  cn_variant :: string
  cn_configHash :: string
  cn_resultToken :: string
  cn_watermark :: string
  cn_snapshot :: string
  cn_failures :: string
  cn_checks :: string
  cn_targetEnv :: string
  cn_targetFlag :: string
  cn_targetVersion :: int
  cn_proposed :: string
  cn_reason :: "string option"
  cn_by :: string
  cn_via :: string
  cn_at :: string
  cn_key :: string
  cn_hash :: string

record approval_row =
  ap_id :: string
  ap_app :: string
  ap_operation :: string
  ap_targetType :: string
  ap_targetId :: string
  ap_targetVersion :: string
  ap_contexts :: jsval
  ap_guardContexts :: "string option"
  ap_diff :: string
  ap_status :: string
  ap_by :: string
  ap_via :: string
  ap_at :: string
  ap_resolvedAt :: "string option"
  ap_resultVersion :: "string option"
  ap_resultType :: "string option"
  ap_resultId :: "string option"
  ap_key :: string
  ap_hash :: string

record review_row =
  rv_id :: string
  rv_app :: string
  rv_request :: string
  rv_action :: string
  rv_outcome :: string
  rv_by :: string
  rv_via :: string
  rv_at :: string
  rv_reason :: "string option"
  rv_key :: string
  rv_hash :: string
  rv_resultVersion :: "string option"
  rv_resultType :: "string option"
  rv_resultId :: "string option"
  rv_errorCode :: "string option"
  rv_errorDetails :: "string option"
  rv_targetState :: "string option"

record link_row =
  lk_app :: string
  lk_conclusion :: string
  lk_request :: string
  lk_ordinal :: int
  lk_at :: string

record flag_row =
  fl_id :: string
  fl_app :: string
  fl_version :: int
  fl_updatedAt :: string
  fl_updatedBy :: "string option"

record variant_row =
  vt_id :: string
  vt_flag :: string
  vt_name :: string
  vt_value :: string
  vt_description :: "string option"
  vt_createdAt :: string

record config_row =
  fc_id :: string
  fc_app :: string
  fc_env :: string
  fc_flag :: string
  fc_enabled :: bool
  fc_available :: "string list"
  fc_defaultVariant :: "string option"
  fc_rollout :: "string option"
  fc_updatedAt :: string
  fc_updatedBy :: "string option"
  fc_updatedVia :: "string option"
  fc_version :: int

record segment_row =
  sg_id :: string
  sg_app :: string
  sg_name :: string
  sg_conditions :: string
  sg_description :: "string option"
  sg_updatedAt :: string

record rule_row =
  tr_id :: string
  tr_app :: string
  tr_env :: string
  tr_flag :: string
  tr_priority :: int
  tr_conditions :: string
  tr_segment :: "string option"
  tr_variant :: "string option"
  tr_rollout :: "string option"
  tr_createdAt :: string
  tr_updatedAt :: string

record member_row =
  mb_app :: string
  mb_user :: string
  mb_role :: string

record environment_row =
  ev_id :: string
  ev_app :: string
  ev_policy :: jsval

record app_row =
  pp_id :: string
  pp_organization :: string

record audit_row =
  au_app :: string
  au_env :: "string option"
  au_organization :: string
  au_actor :: "string option"
  au_via :: "string option"
  au_action :: string
  au_resourceType :: string
  au_resourceId :: string
  au_targetVersion :: "string option"
  au_outcome :: string
  au_requestId :: "string option"
  au_approval :: "string option"
  au_run :: "string option"
  au_changes :: jsval
  au_at :: string

record db =
  apps :: "app_row list"
  environments :: "environment_row list"
  memberships :: "member_row list"
  flags :: "flag_row list"
  flag_variants :: "variant_row list"
  flag_configs :: "config_row list"
  segments :: "segment_row list"
  targeting_rules :: "rule_row list"
  experiments :: "experiment_row list"
  runs :: "run_row list"
  run_srm_alarms :: "alarm_row list"
  experiment_conclusions :: "conclusion_row list"
  approval_requests :: "approval_row list"
  approval_reviews :: "review_row list"
  conclusion_approval_requests :: "link_row list"
  control_plane_audit_events :: "audit_row list"
  changes :: nat

text \<open>A scope minted by \<open>appScope\<close> or \<open>envScope\<close>.\<close>

record tenant_scope =
  s_app :: string

record env_scope = tenant_scope +
  s_env :: string

section \<open>Statements and batches\<close>

datatype sql_error = UniqueViolation | RuleIdViolation | ForeignKeyViolation | MalformedJson

type_synonym stmt = "db \<Rightarrow> sql_error + db \<times> string list"

text \<open>\<open>UPDATE ... SET\<close> and \<open>DELETE\<close> over the rows a condition selects.\<close>

definition set_where :: "('r \<Rightarrow> bool) \<Rightarrow> ('r \<Rightarrow> 'r) \<Rightarrow> 'r list \<Rightarrow> 'r list" where
  "set_where P f rows = map (\<lambda>r. if P r then f r else r) rows"

definition delete_where :: "('r \<Rightarrow> bool) \<Rightarrow> 'r list \<Rightarrow> 'r list" where
  "delete_where P rows = filter (\<lambda>r. \<not> P r) rows"

text \<open>\<open>column = ?\<close> on a nullable column: \<open>NULL\<close> equals nothing; and the form that lets two nulls agree.\<close>

definition sql_eq :: "'a option \<Rightarrow> 'a option \<Rightarrow> bool" where
  "sql_eq x y = (case (x, y) of (Some a, Some b) \<Rightarrow> a = b | _ \<Rightarrow> False)"

definition sql_eq_or_null :: "'a option \<Rightarrow> 'a option \<Rightarrow> bool" where
  "sql_eq_or_null x y \<longleftrightarrow> sql_eq x y \<or> (x = None \<and> y = None)"

lemma sql_eq_Some [simp]: "sql_eq x (Some b) \<longleftrightarrow> x = Some b"
  by (auto simp: sql_eq_def split: option.splits)

lemma sql_eq_or_null_iff [simp]: "sql_eq_or_null x y \<longleftrightarrow> x = y"
  by (auto simp: sql_eq_or_null_def sql_eq_def split: option.splits)

fun run_statements :: "stmt list \<Rightarrow> db \<Rightarrow> sql_error + db \<times> string list list" where
  "run_statements [] s = Inr (s, [])"
| "run_statements (q # qs) s = ebind (q s) (\<lambda>(s', rows).
     ebind (run_statements qs s') (\<lambda>(s'', results). Inr (s'', rows # results)))"

definition d1_batch :: "stmt list \<Rightarrow> db \<Rightarrow> (sql_error + string list list) \<times> db" where
  "d1_batch qs s = (case run_statements qs s of
     Inl e \<Rightarrow> (Inl e, s)
   | Inr (s', results) \<Rightarrow> (Inr results, s'))"

text \<open>The unique indexes and foreign keys an inserted row has to meet.\<close>

definition run_insertable :: "db \<Rightarrow> run_row \<Rightarrow> sql_error option" where
  "run_insertable s r =
    (if list_ex (\<lambda>x. rn_id x = rn_id r
          \<or> rn_experiment x = rn_experiment r \<and> sn_salt (rn_snapshot x) = sn_salt (rn_snapshot r)
          \<or> rn_experiment x = rn_experiment r \<and> rn_number x = rn_number r) (runs s)
     then Some UniqueViolation
     else if \<not> (list_ex (\<lambda>p. pp_id p = rn_app r) (apps s)
          \<and> list_ex (\<lambda>e. ev_id e = rn_env r) (environments s)
          \<and> list_ex (\<lambda>e. ex_id e = rn_experiment r) (experiments s))
     then Some ForeignKeyViolation else None)"

definition experiment_insertable :: "db \<Rightarrow> experiment_row \<Rightarrow> sql_error option" where
  "experiment_insertable s e =
    (if list_ex (\<lambda>x. ex_id x = ex_id e
          \<or> ex_app x = ex_app e \<and> ex_env x = ex_env e \<and> ex_key x = ex_key e) (experiments s)
     then Some UniqueViolation
     else if \<not> (list_ex (\<lambda>p. pp_id p = ex_app e) (apps s)
          \<and> list_ex (\<lambda>v. ev_id v = ex_env e) (environments s)
          \<and> list_ex (\<lambda>f. fl_id f = ex_flag e) (flags s))
     then Some ForeignKeyViolation else None)"

definition conclusion_insertable :: "db \<Rightarrow> conclusion_row \<Rightarrow> sql_error option" where
  "conclusion_insertable s c =
    (if list_ex (\<lambda>x. cn_id x = cn_id c \<or> cn_run x = cn_run c
          \<or> cn_app x = cn_app c \<and> cn_by x = cn_by c \<and> cn_key x = cn_key c) (experiment_conclusions s)
     then Some UniqueViolation
     else if \<not> (list_ex (\<lambda>p. pp_id p = cn_app c) (apps s)
          \<and> list_ex (\<lambda>e. ev_id e = cn_env c) (environments s)
          \<and> list_ex (\<lambda>r. rn_id r = cn_run c) (runs s)
          \<and> list_ex (\<lambda>e. ev_id e = cn_targetEnv c) (environments s))
     then Some ForeignKeyViolation else None)"

definition approval_insertable :: "db \<Rightarrow> approval_row \<Rightarrow> sql_error option" where
  "approval_insertable s a =
    (if list_ex (\<lambda>x. ap_id x = ap_id a
          \<or> ap_app x = ap_app a \<and> ap_by x = ap_by a \<and> ap_key x = ap_key a) (approval_requests s)
     then Some UniqueViolation
     else if \<not> list_ex (\<lambda>p. pp_id p = ap_app a) (apps s)
     then Some ForeignKeyViolation else None)"

definition review_insertable :: "db \<Rightarrow> review_row \<Rightarrow> sql_error option" where
  "review_insertable s v =
    (if list_ex (\<lambda>x. rv_id x = rv_id v
          \<or> rv_request x = rv_request v \<and> rv_by x = rv_by v \<and> rv_key x = rv_key v) (approval_reviews s)
     then Some UniqueViolation
     else if \<not> (list_ex (\<lambda>p. pp_id p = rv_app v) (apps s)
          \<and> list_ex (\<lambda>a. ap_id a = rv_request v) (approval_requests s))
     then Some ForeignKeyViolation else None)"

definition link_insertable :: "db \<Rightarrow> link_row \<Rightarrow> sql_error option" where
  "link_insertable s l =
    (if list_ex (\<lambda>x. lk_conclusion x = lk_conclusion l \<and> lk_ordinal x = lk_ordinal l
          \<or> lk_request x = lk_request l) (conclusion_approval_requests s)
     then Some UniqueViolation
     else if \<not> (list_ex (\<lambda>p. pp_id p = lk_app l) (apps s)
          \<and> list_ex (\<lambda>c. cn_id c = lk_conclusion l) (experiment_conclusions s)
          \<and> list_ex (\<lambda>a. ap_id a = lk_request l) (approval_requests s))
     then Some ForeignKeyViolation else None)"

definition variant_insertable :: "db \<Rightarrow> variant_row \<Rightarrow> sql_error option" where
  "variant_insertable s v =
    (if list_ex (\<lambda>x. vt_id x = vt_id v \<or> vt_flag x = vt_flag v \<and> vt_name x = vt_name v) (flag_variants s)
     then Some UniqueViolation
     else if \<not> list_ex (\<lambda>f. fl_id f = vt_flag v) (flags s)
     then Some ForeignKeyViolation else None)"

definition config_insertable :: "db \<Rightarrow> config_row \<Rightarrow> sql_error option" where
  "config_insertable s c =
    (if list_ex (\<lambda>x. fc_id x = fc_id c \<or> fc_flag x = fc_flag c \<and> fc_env x = fc_env c) (flag_configs s)
     then Some UniqueViolation
     else if \<not> (list_ex (\<lambda>p. pp_id p = fc_app c) (apps s)
          \<and> list_ex (\<lambda>e. ev_id e = fc_env c) (environments s)
          \<and> list_ex (\<lambda>f. fl_id f = fc_flag c) (flags s))
     then Some ForeignKeyViolation else None)"

definition rule_insertable :: "db \<Rightarrow> rule_row \<Rightarrow> sql_error option" where
  "rule_insertable s r =
    (if list_ex (\<lambda>x. tr_app x = tr_app r \<and> tr_env x = tr_env r \<and> tr_flag x = tr_flag r \<and> tr_id x = tr_id r)
        (targeting_rules s)
     then Some RuleIdViolation
     else if \<not> (list_ex (\<lambda>p. pp_id p = tr_app r) (apps s)
          \<and> list_ex (\<lambda>e. ev_id e = tr_env r) (environments s)
          \<and> list_ex (\<lambda>f. fl_id f = tr_flag r) (flags s)
          \<and> (case tr_segment r of None \<Rightarrow> True
             | Some x \<Rightarrow> list_ex (\<lambda>g. sg_app g = tr_app r \<and> sg_id g = x) (segments s)))
     then Some ForeignKeyViolation else None)"

text \<open>\<open>INSERT INTO ... SELECT ... WHERE guard RETURNING id\<close> of one row.\<close>

definition insert_if :: "bool \<Rightarrow> sql_error option \<Rightarrow> string \<Rightarrow> (db \<Rightarrow> db) \<Rightarrow> stmt" where
  "insert_if guard violation rid ins s =
    (if guard then (case violation of Some e \<Rightarrow> Inl e | None \<Rightarrow> Inr ((ins s)\<lparr>changes := 1\<rparr>, [rid]))
     else Inr (s\<lparr>changes := 0\<rparr>, []))"

text \<open>\<open>SELECT CASE WHEN guard THEN 1 ELSE json('') END\<close>: aborts the batch unless the guard holds.\<close>

definition assert_stmt :: "(db \<Rightarrow> bool) \<Rightarrow> stmt" where
  "assert_stmt guard s = (if guard s then Inr (s, [''1'']) else Inl MalformedJson)"

section \<open>The audit log\<close>

record audit_context =
  ac_actorRef :: "string option"
  ac_actorVia :: "string option"
  ac_requestId :: "string option"

record audit_input =
  ai_actorRef :: "string option"
  ai_actorVia :: "string option"
  ai_requestId :: "string option"
  ai_changedAt :: string
  ai_action :: string
  ai_resourceType :: string
  ai_resourceId :: string
  ai_env :: "string option"
  ai_targetVersion :: "string option"
  ai_outcome :: "string option"
  ai_approval :: "string option"
  ai_run :: "string option"
  ai_metadata :: jsval

text \<open>
  The named fields only; \<open>JSON.stringify\<close> leaves out those that are undefined.
\<close>

definition auditMetadata :: "jsval \<Rightarrow> jsval" where
  "auditMetadata m = JObj (filter (\<lambda>(k, v). v \<noteq> Undefined) (map (\<lambda>k. (k, jprop m k))
     [''changedFields'', ''reviewId'', ''reviewAction'', ''resultingTargetVersion'', ''errorCode'',
      ''role'', ''previousRole'', ''revokedKeyId'']))"

text \<open>
  One row per App row with the scope's id, when the statement before it in the batch
  changed exactly one row.
\<close>

definition auditStatement :: "string \<Rightarrow> audit_input \<Rightarrow> stmt" where
  "auditStatement app e s =
    (let rows = (if changes s = 1
       then map (\<lambda>p. \<lparr>au_app = pp_id p, au_env = ai_env e, au_organization = pp_organization p,
         au_actor = ai_actorRef e, au_via = ai_actorVia e, au_action = ai_action e,
         au_resourceType = ai_resourceType e, au_resourceId = ai_resourceId e,
         au_targetVersion = ai_targetVersion e, au_outcome = nullish (ai_outcome e) ''committed'',
         au_requestId = ai_requestId e, au_approval = ai_approval e, au_run = ai_run e,
         au_changes = auditMetadata (ai_metadata e), au_at = ai_changedAt e\<rparr>)
         (filter (\<lambda>p. pp_id p = app) (apps s))
       else [])
     in Inr (s\<lparr>control_plane_audit_events := control_plane_audit_events s @ rows,
        changes := length rows\<rparr>, []))"

section \<open>Facts about tables and batches\<close>

named_theorems stmt_defs \<open>definitions of the statements\<close>

lemma set_where_simps [simp]:
  "set_where P f [] = []"
  "length (set_where P f rows) = length rows"
  "set (set_where P f rows) = (\<lambda>r. if P r then f r else r) ` set rows"
  by (auto simp: set_where_def)

lemma set_where_none: "(\<And>r. r \<in> set rows \<Longrightarrow> \<not> P r) \<Longrightarrow> set_where P f rows = rows"
  by (simp add: set_where_def map_idI)

lemma set_delete_where [simp]: "set (delete_where P rows) = {r \<in> set rows. \<not> P r}"
  by (simp add: delete_where_def)

lemma delete_where_none: "(\<And>r. r \<in> set rows \<Longrightarrow> \<not> P r) \<Longrightarrow> delete_where P rows = rows"
  by (simp add: delete_where_def filter_id_conv)

text \<open>A key column is kept by an update that does not write it.\<close>

lemma map_set_where: "(\<And>r. k (f r) = k r) \<Longrightarrow> map k (set_where P f rows) = map k rows"
  by (induction rows) (auto simp: set_where_def)

lemma distinct_delete_where:
  "distinct (map k rows) \<Longrightarrow> distinct (map k (delete_where P rows))"
  unfolding delete_where_def by (rule distinct_map_filter)

lemma filter_set_where_key:
  "\<lbrakk>distinct (map k rows); \<And>r. P r \<Longrightarrow> k r = x\<rbrakk> \<Longrightarrow> length (filter P rows) \<le> 1"
proof (induction rows)
  case (Cons r rows)
  show ?case
  proof (cases "P r")
    case True
    have "filter P rows = []"
    proof (rule ccontr)
      assume "filter P rows \<noteq> []"
      then obtain q where "q \<in> set rows" "P q" by (auto simp: filter_empty_conv)
      with Cons.prems(2) True have "k q = k r" by simp
      with \<open>q \<in> set rows\<close> Cons.prems(1) show False by (auto simp: rev_image_eqI)
    qed
    then show ?thesis using True by simp
  next
    case False
    then show ?thesis using Cons by simp
  qed
qed simp

lemma filter_unique:
  assumes "distinct (map k rows)" "r \<in> set rows" "P r" "\<And>q. P q \<Longrightarrow> k q = k r"
  shows "filter P rows = [r]"
  using assms(1,2)
proof (induction rows)
  case (Cons q rows)
  show ?case
  proof (cases "q = r")
    case True
    with Cons.prems have "\<not> P p" if "p \<in> set rows" for p
      using that assms(4) by (metis distinct.simps(2) image_eqI list.map(2) list.set_map)
    then have "filter P rows = []" by (simp add: filter_empty_conv)
    then show ?thesis using True assms(3) by simp
  next
    case False
    then have "r \<in> set rows" using Cons.prems by simp
    then have "\<not> P q" using Cons.prems(1) assms(4)[of q] by (auto simp: rev_image_eqI)
    with Cons False show ?thesis by simp
  qed
qed simp

text \<open>A batch either runs all its statements or changes nothing.\<close>

lemma d1_batch_cases:
  assumes "d1_batch qs s = (r, s')"
  obtains (aborted) e where "r = Inl e" "s' = s" "run_statements qs s = Inl e"
    | (committed) results where "r = Inr results" "run_statements qs s = Inr (s', results)"
  using assms by (auto simp: d1_batch_def split: sum.splits prod.splits)

lemma d1_batch_aborted: "d1_batch qs s = (Inl e, s') \<Longrightarrow> s' = s"
  by (auto simp: d1_batch_def split: sum.splits prod.splits)

lemma run_statements_append:
  "run_statements (ps @ qs) s = ebind (run_statements ps s) (\<lambda>(s', rs).
     ebind (run_statements qs s') (\<lambda>(s'', rs'). Inr (s'', rs @ rs')))"
  by (induction ps arbitrary: s) (auto simp: ebind_def split: sum.splits prod.splits)

text \<open>What every statement of a batch keeps, the batch keeps.\<close>

lemma run_statements_keeps:
  assumes "run_statements qs s = Inr (s', results)" "I s"
    and "\<And>q s s' rows. \<lbrakk>q \<in> set qs; I s; q s = Inr (s', rows)\<rbrakk> \<Longrightarrow> I s'"
  shows "I s'"
  using assms
proof (induction qs arbitrary: s results)
  case (Cons q qs)
  then show ?case by (auto simp: ebind_eq_Inr split: prod.splits) blast
qed simp

end
