(* ===== verification/RunStart.thy ===== *)
theory RunStart
  imports RunTables
begin

text \<open>
  Starting a Run: \<open>packages/db/src/repo/experiment-start-run.ts\<close>, the statements of
  \<open>experiment-start-run-sql.ts\<close> and the approval half of \<open>experiment-start-approval.ts\<close>.
  One batch ends the running Run, inserts the new one with its frozen columns, points the
  Experiment at it and clears its draft; on an approved Start it records the Review too.
  Every statement carries the same guard. \<open>JSON.parse\<close> of the frozen Variant set is the
  argument \<open>parse\<close>.
\<close>

section \<open>Inputs\<close>

record start_draft =
  sd_allocation :: "string option"
  sd_salt :: "string option"
  sd_rules :: "string option"
  sd_segments :: "string option"
  sd_liveRun :: "string option"
  sd_defaultVariant :: string

datatype change_type = VariantAvailability | TargetingRolloutValue | EnabledState | StartExperimentRun

record policy_guard =
  pg_env :: string
  pg_changeTypes :: "change_type list"
  pg_level :: string

record approval_commit =
  ac_requestId' :: string
  ac_reviewId :: string
  ac_action :: string
  ac_reviewedBy :: string
  ac_reviewedVia :: string
  ac_reviewedAt :: string
  ac_reason :: "string option"
  ac_key :: string
  ac_hash :: string
  ac_resultVersion :: string
  ac_resultType :: string
  ac_resultId :: string
  ac_policyContexts :: "policy_guard list"
  ac_audit :: "audit_context option"

record start_input =
  si_audit :: "audit_context option"
  si_experiment :: string
  si_flag :: string
  si_draft :: start_draft
  si_runId :: string
  si_snapshot :: run_snapshot
  si_endedAt :: string
  si_updatedAt :: string
  si_updatedBy :: "string option"
  si_approval :: "approval_commit option"

section \<open>The guard of the batch\<close>

definition policyPath :: "change_type \<Rightarrow> string" where
  "policyPath t = (case t of
     VariantAvailability \<Rightarrow> ''variantAvailability''
   | TargetingRolloutValue \<Rightarrow> ''targetingRolloutValue''
   | EnabledState \<Rightarrow> ''enabledState''
   | StartExperimentRun \<Rightarrow> ''startExperimentRun'')"

definition policy_holds :: "string \<Rightarrow> policy_guard \<Rightarrow> db \<Rightarrow> bool" where
  "policy_holds app g s \<longleftrightarrow> list_ex (\<lambda>e. ev_app e = app \<and> ev_id e = pg_env g
     \<and> list_all (\<lambda>t. jprop (ev_policy e) (policyPath t) = JStr (pg_level g)) (pg_changeTypes g))
     (environments s)"

definition is_admin :: "string \<Rightarrow> string \<Rightarrow> db \<Rightarrow> bool" where
  "is_admin app user s \<longleftrightarrow> list_ex (\<lambda>m. mb_app m = app \<and> mb_user m = user
     \<and> mb_role m \<in> {''owner'', ''admin''}) (memberships s)"

definition approvalGuard :: "string \<Rightarrow> approval_commit \<Rightarrow> db \<Rightarrow> bool" where
  "approvalGuard app a s \<longleftrightarrow>
     list_ex (\<lambda>r. ap_app r = app \<and> ap_id r = ac_requestId' a \<and> ap_status r = ''pending'')
       (approval_requests s)
   \<and> is_admin app (ac_reviewedBy a) s
   \<and> list_all (\<lambda>g. policy_holds app g s) (ac_policyContexts a)"

definition draft_row :: "env_scope \<Rightarrow> start_input \<Rightarrow> experiment_row \<Rightarrow> bool" where
  "draft_row scope i e \<longleftrightarrow>
     ex_app e = s_app scope \<and> ex_env e = s_env scope \<and> ex_id e = si_experiment i
   \<and> sql_eq (ex_draftAllocation e) (sd_allocation (si_draft i))
   \<and> sql_eq_or_null (ex_draftSalt e) (sd_salt (si_draft i))
   \<and> sql_eq_or_null (ex_draftRules e) (sd_rules (si_draft i))
   \<and> sql_eq_or_null (ex_draftSegments e) (sd_segments (si_draft i))
   \<and> sql_eq (ex_defaultVariant e) (Some (sd_defaultVariant (si_draft i)))
   \<and> sql_eq_or_null (ex_liveRun e) (sd_liveRun (si_draft i))"

text \<open>What the guard says besides the row: no other Experiment runs on the Flag, and the approval is in force.\<close>

definition start_allowed :: "env_scope \<Rightarrow> start_input \<Rightarrow> db \<Rightarrow> bool" where
  "start_allowed scope i s \<longleftrightarrow>
     \<not> list_ex (\<lambda>b. ex_app b = s_app scope \<and> ex_env b = s_env scope \<and> ex_flag b = si_flag i
         \<and> ex_status b = ''running'' \<and> ex_id b \<noteq> si_experiment i) (experiments s)
   \<and> (case si_approval i of None \<Rightarrow> True | Some a \<Rightarrow> approvalGuard (s_app scope) a s)"

definition startGuard :: "env_scope \<Rightarrow> start_input \<Rightarrow> db \<Rightarrow> bool" where
  "startGuard scope i s \<longleftrightarrow> list_ex (draft_row scope i) (experiments s) \<and> start_allowed scope i s"

section \<open>The statements\<close>

definition in_scope_run :: "env_scope \<Rightarrow> string \<Rightarrow> run_row \<Rightarrow> bool" where
  "in_scope_run scope e r \<longleftrightarrow>
     rn_app r = s_app scope \<and> rn_env r = s_env scope \<and> rn_experiment r = e"

definition endCurrentRunStatement :: "env_scope \<Rightarrow> start_input \<Rightarrow> stmt" where
  "endCurrentRunStatement scope i s =
    (let P = (\<lambda>r. in_scope_run scope (si_experiment i) r \<and> rn_status r = ''running''
            \<and> startGuard scope i s);
         hit = filter P (runs s)
     in Inr (s\<lparr>runs := set_where P (\<lambda>r. r\<lparr>rn_status := ''ended'', rn_endedAt := Some (si_endedAt i)\<rparr>) (runs s),
          changes := length hit\<rparr>, map rn_id hit))"

definition next_run_number :: "env_scope \<Rightarrow> string \<Rightarrow> db \<Rightarrow> int" where
  "next_run_number scope e s =
     foldr max (map rn_number (filter (in_scope_run scope e) (runs s))) 0 + 1"

definition new_run :: "env_scope \<Rightarrow> start_input \<Rightarrow> db \<Rightarrow> run_row" where
  "new_run scope i s = \<lparr>rn_id = si_runId i, rn_app = s_app scope, rn_env = s_env scope,
     rn_experiment = si_experiment i, rn_number = next_run_number scope (si_experiment i) s,
     rn_snapshot = (si_snapshot i)\<lparr>sn_control := sd_defaultVariant (si_draft i)\<rparr>,
     rn_status = ''running'', rn_endedAt = None, rn_endReason = None\<rparr>"

definition insertRunStatement :: "env_scope \<Rightarrow> start_input \<Rightarrow> stmt" where
  "insertRunStatement scope i s =
    (let r = new_run scope i s in
     insert_if (startGuard scope i s) (run_insertable s r) (si_runId i)
       (\<lambda>s. s\<lparr>runs := runs s @ [r]\<rparr>) s)"

definition updateExperimentStartedStatement :: "env_scope \<Rightarrow> start_input \<Rightarrow> stmt" where
  "updateExperimentStartedStatement scope i s =
    (let P = (\<lambda>e. draft_row scope i e \<and> start_allowed scope i s);
         hit = filter P (experiments s)
     in Inr (s\<lparr>experiments := set_where P (\<lambda>e. e\<lparr>ex_status := ''running'',
            ex_liveRun := Some (si_runId i), ex_draftAllocation := None, ex_draftSalt := None,
            ex_draftRules := None, ex_draftSegments := None,
            ex_updatedAt := si_updatedAt i, ex_updatedBy := si_updatedBy i\<rparr>) (experiments s),
          changes := length hit\<rparr>, map ex_id hit))"

definition reviewInsertStatement :: "env_scope \<Rightarrow> approval_commit \<Rightarrow> string \<Rightarrow> stmt" where
  "reviewInsertStatement scope a runId s =
    (let guard = list_ex (\<lambda>q. ap_app q = s_app scope \<and> ap_id q = ac_requestId' a
             \<and> ap_status q = ''pending'') (approval_requests s)
           \<and> list_ex (\<lambda>r. rn_app r = s_app scope \<and> rn_id r = runId \<and> rn_status r = ''running''
             \<and> sn_startedAt (rn_snapshot r) = ac_reviewedAt a) (runs s);
         v = \<lparr>rv_id = ac_reviewId a, rv_app = s_app scope, rv_request = ac_requestId' a,
              rv_action = ''approve_and_apply'', rv_outcome = ''applied'', rv_by = ac_reviewedBy a,
              rv_via = ac_reviewedVia a, rv_at = ac_reviewedAt a, rv_reason = ac_reason a,
              rv_key = ac_key a, rv_hash = ac_hash a, rv_resultVersion = Some (ac_resultVersion a),
              rv_resultType = Some (ac_resultType a), rv_resultId = Some (ac_resultId a),
              rv_errorCode = None, rv_errorDetails = None, rv_targetState = None\<rparr>
     in insert_if guard (review_insertable s v) (ac_reviewId a)
          (\<lambda>s. s\<lparr>approval_reviews := approval_reviews s @ [v]\<rparr>) s)"

definition requestAppliedStatement :: "env_scope \<Rightarrow> approval_commit \<Rightarrow> stmt" where
  "requestAppliedStatement scope a s =
    (let P = (\<lambda>q. ap_app q = s_app scope \<and> ap_id q = ac_requestId' a \<and> ap_status q = ''pending''
            \<and> list_ex (\<lambda>v. rv_app v = s_app scope \<and> rv_id v = ac_reviewId a
                \<and> rv_request v = ac_requestId' a) (approval_reviews s))
     in Inr (s\<lparr>approval_requests := set_where P (\<lambda>q. q\<lparr>ap_status := ''applied'',
            ap_resolvedAt := Some (ac_reviewedAt a), ap_resultVersion := Some (ac_resultVersion a),
            ap_resultType := Some (ac_resultType a), ap_resultId := Some (ac_resultId a)\<rparr>) (approval_requests s),
          changes := length (filter P (approval_requests s))\<rparr>, []))"

definition approvalAppliedStatements :: "env_scope \<Rightarrow> approval_commit \<Rightarrow> string \<Rightarrow> stmt list" where
  "approvalAppliedStatements scope a runId =
    [reviewInsertStatement scope a runId, requestAppliedStatement scope a,
     auditStatement (s_app scope)
       \<lparr>ai_actorRef = Some (ac_reviewedBy a), ai_actorVia = Some (ac_reviewedVia a),
        ai_requestId = Option.bind (ac_audit a) ac_requestId, ai_changedAt = ac_reviewedAt a,
        ai_action = ''approval_request_reviews_create'', ai_resourceType = ''approval_request'',
        ai_resourceId = ac_requestId' a, ai_env = Some (s_env scope),
        ai_targetVersion = Some (ac_resultVersion a), ai_outcome = Some ''applied'',
        ai_approval = Some (ac_requestId' a), ai_run = Some runId,
        ai_metadata = JObj [(''reviewId'', JStr (ac_reviewId a)), (''reviewAction'', JStr (ac_action a)),
          (''resultingTargetVersion'', JStr (ac_resultVersion a))]\<rparr>]"

definition startAuditStatement :: "env_scope \<Rightarrow> start_input \<Rightarrow> stmt" where
  "startAuditStatement scope i = auditStatement (s_app scope)
     \<lparr>ai_actorRef = case_option (sn_createdBy (si_snapshot i)) Some (Option.bind (si_audit i) ac_actorRef),
      ai_actorVia = case_option (map_option ac_reviewedVia (si_approval i)) Some
        (Option.bind (si_audit i) ac_actorVia),
      ai_requestId = case_option (Option.bind (Option.bind (si_approval i) ac_audit) ac_requestId) Some
        (Option.bind (si_audit i) ac_requestId),
      ai_changedAt = sn_startedAt (si_snapshot i), ai_action = ''experiments_start'',
      ai_resourceType = ''run'', ai_resourceId = si_runId i, ai_env = Some (s_env scope),
      ai_targetVersion = Some (sn_configHash (si_snapshot i)), ai_outcome = None,
      ai_approval = map_option ac_requestId' (si_approval i), ai_run = Some (si_runId i),
      ai_metadata = Undefined\<rparr>"

section \<open>Start\<close>

datatype start_error = VariantSetNotJson | ControlAbsent string | MultipleRunning
  | StartBatchThrew sql_error | InconsistentStart | ReviewDidNotLand | RunNotReloaded

datatype start_result = Started run_row "run_row option" | ExperimentNotFound | StaleDraft

definition assertControlInFrozenVariantSet :: "(string \<Rightarrow> jsval option) \<Rightarrow> string \<Rightarrow> string \<Rightarrow> start_error + unit" where
  "assertControlInFrozenVariantSet parse control variantSet =
    (case parse variantSet of
       None \<Rightarrow> Inl VariantSetNotJson
     | Some v \<Rightarrow>
         if (case v of JArr vs \<Rightarrow> list_ex (\<lambda>x. is_object x \<and> jprop x ''id'' = JStr control) vs | _ \<Rightarrow> False)
         then Inr () else Inl (ControlAbsent control))"

definition hasExpectedDraft :: "experiment_row \<Rightarrow> start_draft \<Rightarrow> bool" where
  "hasExpectedDraft e d \<longleftrightarrow>
     sd_allocation d \<noteq> None \<and> ex_draftAllocation e = sd_allocation d
   \<and> ex_draftSalt e = sd_salt d \<and> ex_draftRules e = sd_rules d \<and> ex_draftSegments e = sd_segments d
   \<and> ex_defaultVariant e = Some (sd_defaultVariant d) \<and> ex_liveRun e = sd_liveRun d"

text \<open>The first row of a table within a scope, as \<open>findOne\<close> answers it.\<close>

definition findExperiment :: "env_scope \<Rightarrow> string \<Rightarrow> db \<Rightarrow> experiment_row option" where
  "findExperiment scope e s = List.find (\<lambda>x. ex_app x = s_app scope \<and> ex_env x = s_env scope \<and> ex_id x = e)
     (experiments s)"

definition getRun :: "env_scope \<Rightarrow> string \<Rightarrow> db \<Rightarrow> run_row option" where
  "getRun scope r s = List.find (\<lambda>x. rn_app x = s_app scope \<and> rn_env x = s_env scope \<and> rn_id x = r) (runs s)"

definition running_runs :: "env_scope \<Rightarrow> string \<Rightarrow> db \<Rightarrow> run_row list" where
  "running_runs scope e s = filter (\<lambda>r. in_scope_run scope e r \<and> rn_status r = ''running'') (runs s)"

datatype start_state = Ready "run_row option" | NotReady start_result

definition loadStartState :: "env_scope \<Rightarrow> start_input \<Rightarrow> db \<Rightarrow> start_error + start_state" where
  "loadStartState scope i s = (case findExperiment scope (si_experiment i) s of
     None \<Rightarrow> Inr (NotReady ExperimentNotFound)
   | Some e \<Rightarrow>
       if \<not> hasExpectedDraft e (si_draft i) then Inr (NotReady StaleDraft)
       else (case running_runs scope (si_experiment i) s of
         [] \<Rightarrow> Inr (Ready None) | [r] \<Rightarrow> Inr (Ready (Some r)) | _ \<Rightarrow> Inl MultipleRunning))"

definition start_statements :: "env_scope \<Rightarrow> start_input \<Rightarrow> stmt list" where
  "start_statements scope i =
     [endCurrentRunStatement scope i, insertRunStatement scope i, updateExperimentStartedStatement scope i]
   @ (case si_approval i of None \<Rightarrow> [] | Some a \<Rightarrow> approvalAppliedStatements scope a (si_runId i))
   @ [startAuditStatement scope i]"

definition nth_result :: "string list list \<Rightarrow> nat \<Rightarrow> string list" where
  "nth_result rs n = (if n < length rs then rs ! n else [])"

definition runStartBatch :: "env_scope \<Rightarrow> start_input \<Rightarrow> db \<Rightarrow> (start_error + bool) \<times> db" where
  "runStartBatch scope i s = (case d1_batch (start_statements scope i) s of
     (Inl e, s') \<Rightarrow> (Inl (StartBatchThrew e), s')
   | (Inr batch, s') \<Rightarrow>
       let inserted = nth_result batch 1; updated = nth_result batch 2 in
       (if inserted = [] \<and> updated = [] then Inr False
        else if length inserted \<noteq> 1 \<or> length updated \<noteq> 1 then Inl InconsistentStart
        else if si_approval i \<noteq> None \<and> length (nth_result batch 3) \<noteq> 1 then Inl ReviewDidNotLand
        else Inr True, s'))"

definition startRun :: "(string \<Rightarrow> jsval option) \<Rightarrow> env_scope \<Rightarrow> start_input \<Rightarrow> db \<Rightarrow>
    (start_error + start_result) \<times> db" where
  "startRun parse scope i s =
    (case assertControlInFrozenVariantSet parse (sd_defaultVariant (si_draft i))
        (sn_variantSet (si_snapshot i)) of
       Inl e \<Rightarrow> (Inl e, s)
     | Inr _ \<Rightarrow> (case loadStartState scope i s of
         Inl e \<Rightarrow> (Inl e, s)
       | Inr (NotReady r) \<Rightarrow> (Inr r, s)
       | Inr (Ready previous) \<Rightarrow> (case runStartBatch scope i s of
           (Inl e, s') \<Rightarrow> (Inl e, s')
         | (Inr False, s') \<Rightarrow> (Inr StaleDraft, s')
         | (Inr True, s') \<Rightarrow> (case getRun scope (si_runId i) s' of
             None \<Rightarrow> (Inl RunNotReloaded, s')
           | Some r \<Rightarrow> (Inr (Started r (case previous of None \<Rightarrow> None
               | Some p \<Rightarrow> case_option (Some p) Some (getRun scope (rn_id p) s'))), s')))))"

end
