(* ===== verification/RunEnd.thy ===== *)
theory RunEnd
  imports RunStart
begin

text \<open>
  The other writes of the Run lifecycle: End (\<open>packages/db/src/repo/experiment-end-run.ts\<close>),
  the compare-and-set update of an Experiment and its soft delete
  (\<open>packages/db/src/repo/experiments.ts\<close>), the hard purge of archived Experiments
  (\<open>experiment-archive-purge.ts\<close>), the durable sample ratio alarms (\<open>run-srm-alarms.ts\<close>),
  and the rows the control plane builds for create and PATCH
  (\<open>apps/control-plane-api/src/experiment-handlers.ts\<close>, \<open>experiment-update-plan.ts\<close>,
  \<open>experiment-handler-shared.ts\<close>).
\<close>

section \<open>End\<close>

record end_input =
  ei_audit :: "audit_context option"
  ei_experiment :: string
  ei_run :: string
  ei_expectedLive :: string
  ei_endedAt :: string
  ei_endReason :: "string option"
  ei_updatedAt :: string
  ei_updatedBy :: "string option"

definition live_experiment :: "env_scope \<Rightarrow> string \<Rightarrow> string \<Rightarrow> experiment_row \<Rightarrow> bool" where
  "live_experiment scope e r x \<longleftrightarrow>
     ex_app x = s_app scope \<and> ex_env x = s_env scope \<and> ex_id x = e \<and> sql_eq (ex_liveRun x) (Some r)"

definition endRunStatement :: "env_scope \<Rightarrow> end_input \<Rightarrow> stmt" where
  "endRunStatement scope i s =
    (let P = (\<lambda>r. in_scope_run scope (ei_experiment i) r \<and> rn_id r = ei_run i \<and> rn_status r = ''running''
            \<and> list_ex (live_experiment scope (ei_experiment i) (ei_expectedLive i)) (experiments s));
         hit = filter P (runs s)
     in Inr (s\<lparr>runs := set_where P (\<lambda>r. r\<lparr>rn_status := ''ended'', rn_endedAt := Some (ei_endedAt i),
            rn_endReason := ei_endReason i\<rparr>) (runs s), changes := length hit\<rparr>, map rn_id hit))"

definition ended_by :: "env_scope \<Rightarrow> string \<Rightarrow> string \<Rightarrow> string \<Rightarrow> db \<Rightarrow> bool" where
  "ended_by scope e r at' s \<longleftrightarrow> list_ex (\<lambda>x. in_scope_run scope e x \<and> rn_id x = r \<and> rn_status x = ''ended''
     \<and> sql_eq (rn_endedAt x) (Some at')) (runs s)"

definition clearExperimentLiveRunStatement :: "env_scope \<Rightarrow> end_input \<Rightarrow> stmt" where
  "clearExperimentLiveRunStatement scope i s =
    (let P = (\<lambda>e. live_experiment scope (ei_experiment i) (ei_expectedLive i) e
            \<and> ended_by scope (ei_experiment i) (ei_run i) (ei_endedAt i) s);
         hit = filter P (experiments s)
     in Inr (s\<lparr>experiments := set_where P (\<lambda>e. e\<lparr>ex_status := ''draft'', ex_liveRun := None,
            ex_updatedAt := ei_updatedAt i, ex_updatedBy := ei_updatedBy i\<rparr>) (experiments s),
          changes := length hit\<rparr>, map ex_id hit))"

definition end_statements :: "env_scope \<Rightarrow> end_input \<Rightarrow> string \<Rightarrow> stmt list" where
  "end_statements scope i configHash =
    [endRunStatement scope i, clearExperimentLiveRunStatement scope i,
     auditStatement (s_app scope)
       \<lparr>ai_actorRef = case_option (ei_updatedBy i) Some (Option.bind (ei_audit i) ac_actorRef),
        ai_actorVia = Option.bind (ei_audit i) ac_actorVia,
        ai_requestId = Option.bind (ei_audit i) ac_requestId, ai_changedAt = ei_endedAt i,
        ai_action = ''runs_end'', ai_resourceType = ''run'', ai_resourceId = ei_run i,
        ai_env = Some (s_env scope), ai_targetVersion = Some configHash, ai_outcome = None,
        ai_approval = None, ai_run = Some (ei_run i), ai_metadata = Undefined\<rparr>]"

datatype end_error = EndBatchThrew sql_error | InconsistentEnd | EndedRunNotReloaded

datatype end_result = EndedRun run_row | RunNotFound | NotRunning

definition loadEndState :: "env_scope \<Rightarrow> end_input \<Rightarrow> db \<Rightarrow> end_result + run_row" where
  "loadEndState scope i s = (case getRun scope (ei_run i) s of
     None \<Rightarrow> Inl RunNotFound
   | Some r \<Rightarrow>
       if rn_experiment r \<noteq> ei_experiment i then Inl RunNotFound
       else if rn_status r \<noteq> ''running'' then Inl NotRunning
       else (case findExperiment scope (ei_experiment i) s of
         None \<Rightarrow> Inl NotRunning
       | Some e \<Rightarrow> if ex_liveRun e \<noteq> Some (ei_expectedLive i) then Inl NotRunning else Inr r))"

definition runEndBatch :: "env_scope \<Rightarrow> end_input \<Rightarrow> string \<Rightarrow> db \<Rightarrow> (end_error + bool) \<times> db" where
  "runEndBatch scope i configHash s = (case d1_batch (end_statements scope i configHash) s of
     (Inl e, s') \<Rightarrow> (Inl (EndBatchThrew e), s')
   | (Inr batch, s') \<Rightarrow>
       let ended = nth_result batch 0; updated = nth_result batch 1 in
       (if ended = [] \<and> updated = [] then Inr False
        else if length ended \<noteq> 1 \<or> length updated \<noteq> 1 then Inl InconsistentEnd
        else Inr True, s'))"

definition endRun :: "env_scope \<Rightarrow> end_input \<Rightarrow> db \<Rightarrow> (end_error + end_result) \<times> db" where
  "endRun scope i s = (case loadEndState scope i s of
     Inl r \<Rightarrow> (Inr r, s)
   | Inr r \<Rightarrow> (case runEndBatch scope i (sn_configHash (rn_snapshot r)) s of
       (Inl e, s') \<Rightarrow> (Inl e, s')
     | (Inr False, s') \<Rightarrow> (Inr NotRunning, s')
     | (Inr True, s') \<Rightarrow> (case getRun scope (ei_run i) s' of
         None \<Rightarrow> (Inl EndedRunNotReloaded, s')
       | Some x \<Rightarrow> (Inr (EndedRun x), s'))))"

section \<open>Archive and purge\<close>

definition archiveExperiment :: "env_scope \<Rightarrow> string \<Rightarrow> string \<Rightarrow> string \<Rightarrow> db \<Rightarrow> nat \<times> db" where
  "archiveExperiment scope e updatedAt updatedBy s =
    (let P = (\<lambda>x. ex_app x = s_app scope \<and> ex_env x = s_env scope \<and> ex_id x = e
            \<and> ex_liveRun x = None \<and> ex_status x \<noteq> ''archived''
            \<and> \<not> list_ex (\<lambda>r. in_scope_run scope e r \<and> rn_status r = ''running'') (runs s));
         n = length (filter P (experiments s))
     in (n, s\<lparr>experiments := set_where P (\<lambda>x. x\<lparr>ex_status := ''archived'', ex_liveRun := None,
            ex_updatedAt := updatedAt, ex_updatedBy := Some updatedBy\<rparr>) (experiments s), changes := n\<rparr>))"

definition archived_ids :: "env_scope \<Rightarrow> db \<Rightarrow> string list" where
  "archived_ids scope s = map ex_id (filter (\<lambda>e. ex_app e = s_app scope \<and> ex_env e = s_env scope
     \<and> ex_status e = ''archived'') (experiments s))"

definition purged_run :: "env_scope \<Rightarrow> db \<Rightarrow> run_row \<Rightarrow> bool" where
  "purged_run scope s r \<longleftrightarrow> rn_app r = s_app scope \<and> rn_env r = s_env scope
     \<and> rn_experiment r \<in> set (archived_ids scope s)"

definition purgeAlarmsStatement :: "env_scope \<Rightarrow> stmt" where
  "purgeAlarmsStatement scope s =
    (let P = (\<lambda>a. al_app a = s_app scope \<and> al_env a = s_env scope
            \<and> list_ex (\<lambda>r. purged_run scope s r \<and> rn_id r = al_run a) (runs s))
     in Inr (s\<lparr>run_srm_alarms := delete_where P (run_srm_alarms s),
          changes := length (filter P (run_srm_alarms s))\<rparr>, []))"

text \<open>
  A deleted row that a remaining row references violates a foreign key: alarms and
  conclusions reference Runs, Runs reference Experiments.
\<close>

definition purgeRunsStatement :: "env_scope \<Rightarrow> stmt" where
  "purgeRunsStatement scope s =
    (let P = purged_run scope s in
     if list_ex (\<lambda>r. P r \<and> (list_ex (\<lambda>a. al_run a = rn_id r) (run_srm_alarms s)
          \<or> list_ex (\<lambda>c. cn_run c = rn_id r) (experiment_conclusions s))) (runs s)
     then Inl ForeignKeyViolation
     else Inr (s\<lparr>runs := delete_where P (runs s), changes := length (filter P (runs s))\<rparr>, []))"

definition purgeExperimentsStatement :: "env_scope \<Rightarrow> stmt" where
  "purgeExperimentsStatement scope s =
    (let P = (\<lambda>e. ex_app e = s_app scope \<and> ex_env e = s_env scope \<and> ex_status e = ''archived'') in
     if list_ex (\<lambda>e. P e \<and> list_ex (\<lambda>r. rn_experiment r = ex_id e) (runs s)) (experiments s)
     then Inl ForeignKeyViolation
     else Inr (s\<lparr>experiments := delete_where P (experiments s),
            changes := length (filter P (experiments s))\<rparr>, []))"

definition purgeArchivedExperimentsInEnvironment :: "env_scope \<Rightarrow> db \<Rightarrow> (sql_error + unit) \<times> db" where
  "purgeArchivedExperimentsInEnvironment scope s =
    (case d1_batch [purgeAlarmsStatement scope, purgeRunsStatement scope, purgeExperimentsStatement scope] s of
       (Inl e, s') \<Rightarrow> (Inl e, s') | (Inr _, s') \<Rightarrow> (Inr (), s'))"

section \<open>Sample ratio alarms\<close>

record alarm_input =
  li_run :: string
  li_kind :: string
  li_firstCrossedAt :: string
  li_watermark :: string
  li_pValue :: jsnum
  li_version :: string

definition listForRun :: "env_scope \<Rightarrow> string \<Rightarrow> db \<Rightarrow> alarm_row list" where
  "listForRun scope r s = filter (\<lambda>a. al_app a = s_app scope \<and> al_env a = s_env scope \<and> al_run a = r)
     (run_srm_alarms s)"

text \<open>\<open>INSERT OR IGNORE\<close> skips a duplicate key; a missing parent row still throws.\<close>

definition insertIgnore :: "env_scope \<Rightarrow> alarm_input \<Rightarrow> db \<Rightarrow> (sql_error + unit) \<times> db" where
  "insertIgnore scope i s =
    (let a = \<lparr>al_run = li_run i, al_kind = li_kind i, al_firstCrossedAt = li_firstCrossedAt i,
              al_watermark = li_watermark i, al_pValue = li_pValue i, al_version = li_version i,
              al_app = s_app scope, al_env = s_env scope\<rparr> in
     if list_ex (\<lambda>x. al_run x = li_run i \<and> al_kind x = li_kind i) (run_srm_alarms s)
     then (Inr (), s\<lparr>changes := 0\<rparr>)
     else if list_ex (\<lambda>r. rn_id r = li_run i) (runs s) \<and> list_ex (\<lambda>p. pp_id p = s_app scope) (apps s)
        \<and> list_ex (\<lambda>e. ev_id e = s_env scope) (environments s)
     then (Inr (), s\<lparr>run_srm_alarms := run_srm_alarms s @ [a], changes := 1\<rparr>)
     else (Inl ForeignKeyViolation, s))"

section \<open>Creating and patching an Experiment\<close>

text \<open>
  The body of a PATCH: \<open>None\<close> is a field that is absent, and the values are the texts that
  are stored (\<open>json\<close> of the field where the code encodes it).
\<close>

record patch_body =
  pb_name :: "string option"
  pb_description :: "string option"
  pb_hypothesis :: "string option"
  pb_owner :: "string option"
  pb_tags :: "string option"
  pb_confidence :: "jsnum option"
  pb_metrics :: "string option"
  pb_guardrails :: "string option"
  pb_window :: "int option"
  pb_dimensions :: "string option"
  pb_flag :: "string option"
  pb_targetingKey :: "string option"
  pb_keyType :: "string option"
  pb_activation :: "string option option"
  pb_allocation :: "string option"
  pb_salt :: "string option"
  pb_rules :: "string option"
  pb_segments :: "string option"
  pb_variantSet :: bool
  pb_stageForNextRun :: bool

text \<open>A patch of the row: each field maps the stored value to the new one.\<close>

record experiment_patch =
  xp_name :: "string option"
  xp_description :: "string option"
  xp_hypothesis :: "string option"
  xp_owner :: "string option"
  xp_tags :: "string option"
  xp_confidence :: "jsnum option"
  xp_metrics :: "string option"
  xp_guardrails :: "string option"
  xp_window :: "int option"
  xp_dimensions :: "string option"
  xp_flag :: "string option"
  xp_keyField :: "string option"
  xp_keyType :: "string option"
  xp_activation :: "string option option"
  xp_defaultVariant :: "string option option"
  xp_draftAllocation :: "string option option"
  xp_draftSalt :: "string option option"
  xp_draftRules :: "string option option"
  xp_draftSegments :: "string option option"
  xp_updatedAt :: string
  xp_updatedBy :: string

definition patched :: "experiment_patch \<Rightarrow> experiment_row \<Rightarrow> experiment_row" where
  "patched p e = e\<lparr>ex_name := nullish (xp_name p) (ex_name e),
     ex_description := case_option (ex_description e) Some (xp_description p),
     ex_hypothesis := case_option (ex_hypothesis e) Some (xp_hypothesis p),
     ex_owner := case_option (ex_owner e) Some (xp_owner p),
     ex_tags := nullish (xp_tags p) (ex_tags e),
     ex_confidence := nullish (xp_confidence p) (ex_confidence e),
     ex_metrics := nullish (xp_metrics p) (ex_metrics e),
     ex_guardrails := nullish (xp_guardrails p) (ex_guardrails e),
     ex_window := nullish (xp_window p) (ex_window e),
     ex_dimensions := nullish (xp_dimensions p) (ex_dimensions e),
     ex_flag := nullish (xp_flag p) (ex_flag e),
     ex_keyField := nullish (xp_keyField p) (ex_keyField e),
     ex_keyType := nullish (xp_keyType p) (ex_keyType e),
     ex_activation := nullish (xp_activation p) (ex_activation e),
     ex_defaultVariant := nullish (xp_defaultVariant p) (ex_defaultVariant e),
     ex_draftAllocation := nullish (xp_draftAllocation p) (ex_draftAllocation e),
     ex_draftSalt := nullish (xp_draftSalt p) (ex_draftSalt e),
     ex_draftRules := nullish (xp_draftRules p) (ex_draftRules e),
     ex_draftSegments := nullish (xp_draftSegments p) (ex_draftSegments e),
     ex_updatedAt := xp_updatedAt p, ex_updatedBy := Some (xp_updatedBy p)\<rparr>"

text \<open>
  The compare-and-set on \<open>live_run_id\<close>; an unknown Flag would violate its foreign key.
\<close>

definition updateExperiment :: "env_scope \<Rightarrow> string \<Rightarrow> experiment_patch \<Rightarrow> string option \<Rightarrow> db \<Rightarrow>
    (sql_error + experiment_row option) \<times> db" where
  "updateExperiment scope e p expectedLive s =
    (let P = (\<lambda>x. ex_app x = s_app scope \<and> ex_env x = s_env scope \<and> ex_id x = e
            \<and> ex_liveRun x = expectedLive);
         hit = filter P (experiments s) in
     if hit \<noteq> [] \<and> (case xp_flag p of None \<Rightarrow> False | Some f \<Rightarrow> \<not> list_ex (\<lambda>g. fl_id g = f) (flags s))
     then (Inl ForeignKeyViolation, s)
     else (Inr (case hit of [] \<Rightarrow> None | x # _ \<Rightarrow> Some (patched p x)),
        s\<lparr>experiments := set_where P (patched p) (experiments s), changes := length hit\<rparr>))"

text \<open>\<open>draftPatch\<close> and, while a Run is live, its merge into the draft of the next Run.\<close>

definition draftPatch :: "patch_body \<Rightarrow> experiment_patch \<Rightarrow> experiment_patch" where
  "draftPatch b p = p\<lparr>xp_draftAllocation := map_option Some (pb_allocation b),
     xp_draftSalt := map_option Some (pb_salt b), xp_draftRules := map_option Some (pb_rules b),
     xp_draftSegments := map_option Some (pb_segments b)\<rparr>"

definition first_of :: "'a option \<Rightarrow> 'a option \<Rightarrow> 'a \<Rightarrow> 'a" where
  "first_of x y d = (case x of Some v \<Rightarrow> v | None \<Rightarrow> nullish y d)"

definition nextRunDraftPatch :: "patch_body \<Rightarrow> experiment_row \<Rightarrow> run_row \<Rightarrow> experiment_patch \<Rightarrow> experiment_patch" where
  "nextRunDraftPatch b e r p = p\<lparr>
     xp_draftAllocation := Some (Some (first_of (pb_allocation b) (ex_draftAllocation e)
       (sn_allocation (rn_snapshot r)))),
     xp_draftSalt := Some (case pb_salt b of Some x \<Rightarrow> Some x | None \<Rightarrow> ex_draftSalt e),
     xp_draftRules := Some (Some (first_of (pb_rules b) (ex_draftRules e) (sn_rules (rn_snapshot r)))),
     xp_draftSegments := Some (Some (first_of (pb_segments b) (ex_draftSegments e) ''[]''))\<rparr>"

definition no_patch :: "string \<Rightarrow> string \<Rightarrow> experiment_patch" where
  "no_patch now user = \<lparr>xp_name = None, xp_description = None, xp_hypothesis = None, xp_owner = None,
     xp_tags = None, xp_confidence = None, xp_metrics = None, xp_guardrails = None, xp_window = None,
     xp_dimensions = None, xp_flag = None, xp_keyField = None, xp_keyType = None, xp_activation = None,
     xp_defaultVariant = None, xp_draftAllocation = None, xp_draftSalt = None, xp_draftRules = None,
     xp_draftSegments = None, xp_updatedAt = now, xp_updatedBy = user\<rparr>"

definition experimentPatchFromBody :: "patch_body \<Rightarrow> string option \<Rightarrow> string \<Rightarrow> string \<Rightarrow>
    experiment_row \<Rightarrow> run_row option \<Rightarrow> experiment_patch" where
  "experimentPatchFromBody b defaultVariant now user e runningRun =
    (let p = (case runningRun of
           Some r \<Rightarrow> if pb_stageForNextRun b then nextRunDraftPatch b e r (no_patch now user)
             else draftPatch b (no_patch now user)
         | None \<Rightarrow> draftPatch b (no_patch now user));
         q = p\<lparr>xp_name := pb_name b, xp_description := pb_description b, xp_hypothesis := pb_hypothesis b,
           xp_owner := pb_owner b, xp_tags := pb_tags b, xp_confidence := pb_confidence b,
           xp_metrics := pb_metrics b, xp_guardrails := pb_guardrails b, xp_window := pb_window b,
           xp_dimensions := pb_dimensions b\<rparr>
     in if runningRun = None
        then q\<lparr>xp_flag := pb_flag b, xp_keyField := pb_targetingKey b, xp_keyType := pb_keyType b,
          xp_activation := pb_activation b,
          xp_defaultVariant := (if pb_flag b \<noteq> None then Some defaultVariant else None)\<rparr>
        else q)"

section \<open>The guard of a PATCH\<close>

datatype patch_refusal = VariantSetNotPatchable | RunFrozen string | RunFrozenUnstageable string | DecisionLocked string

text \<open>
  The Run that freezes the Experiment: its live Run when that is still running, else any
  running Run of it. More than one is an error of the lookup.
\<close>

definition runningRunForExperiment :: "env_scope \<Rightarrow> experiment_row \<Rightarrow> db \<Rightarrow> start_error + run_row option" where
  "runningRunForExperiment scope e s =
    (let live = Option.bind (ex_liveRun e) (\<lambda>r. getRun scope r s) in
     case live of
       Some r \<Rightarrow> if rn_status r = ''running'' then Inr (Some r)
         else (case running_runs scope (ex_id e) s of [] \<Rightarrow> Inr None | [x] \<Rightarrow> Inr (Some x) | _ \<Rightarrow> Inl MultipleRunning)
     | None \<Rightarrow> (case running_runs scope (ex_id e) s of [] \<Rightarrow> Inr None | [x] \<Rightarrow> Inr (Some x) | _ \<Rightarrow> Inl MultipleRunning))"

definition has_assignment_fields :: "patch_body \<Rightarrow> bool" where
  "has_assignment_fields b \<longleftrightarrow> pb_flag b \<noteq> None \<or> pb_targetingKey b \<noteq> None \<or> pb_keyType b \<noteq> None
     \<or> pb_activation b \<noteq> None \<or> pb_allocation b \<noteq> None \<or> pb_salt b \<noteq> None \<or> pb_rules b \<noteq> None
     \<or> pb_segments b \<noteq> None \<or> pb_variantSet b"

definition changedRunFrozenFields :: "experiment_row \<Rightarrow> patch_body \<Rightarrow> bool" where
  "changedRunFrozenFields e b \<longleftrightarrow>
     pb_flag b \<noteq> None \<and> pb_flag b \<noteq> Some (ex_flag e)
   \<or> pb_targetingKey b \<noteq> None \<and> pb_targetingKey b \<noteq> Some (ex_keyField e)
   \<or> pb_keyType b \<noteq> None \<and> pb_keyType b \<noteq> Some (ex_keyType e)
   \<or> pb_activation b \<noteq> None \<and> pb_activation b \<noteq> Some (ex_activation e)"

definition validateExperimentPatch :: "experiment_row \<Rightarrow> patch_body \<Rightarrow> run_row option \<Rightarrow> patch_refusal option" where
  "validateExperimentPatch e b runningRun =
    (if pb_variantSet b then Some VariantSetNotPatchable
     else case runningRun of
       None \<Rightarrow> None
     | Some r \<Rightarrow>
         if has_assignment_fields b \<and> \<not> pb_stageForNextRun b then Some (RunFrozen (rn_id r))
         else if changedRunFrozenFields e b then Some (RunFrozenUnstageable (rn_id r))
         else if pb_confidence b \<noteq> None \<or> pb_dimensions b \<noteq> None then Some (DecisionLocked (rn_id r))
         else None)"

text \<open>
  One attempt of the PATCH handler: what it decides on the read of the Experiment and of
  its running Run (at \<open>s\<close>), and the write it then makes, possibly on a later state.
\<close>

definition patch_decision :: "env_scope \<Rightarrow> experiment_row \<Rightarrow> patch_body \<Rightarrow> string option \<Rightarrow> string \<Rightarrow> string \<Rightarrow> db \<Rightarrow>
    start_error + (patch_refusal + experiment_patch)" where
  "patch_decision scope e b defaultVariant now user s =
    ebind (runningRunForExperiment scope e s) (\<lambda>runningRun.
      case validateExperimentPatch e b runningRun of
        Some refusal \<Rightarrow> Inr (Inl refusal)
      | None \<Rightarrow> Inr (Inr (experimentPatchFromBody b defaultVariant now user e
          (if pb_stageForNextRun b then runningRun else None))))"

definition insertExperiment :: "env_scope \<Rightarrow> experiment_row \<Rightarrow> db \<Rightarrow> (sql_error + unit) \<times> db" where
  "insertExperiment scope e s =
    (let row = e\<lparr>ex_app := s_app scope, ex_env := s_env scope\<rparr> in
     case experiment_insertable s row of
       Some err \<Rightarrow> (Inl err, s)
     | None \<Rightarrow> (Inr (), s\<lparr>experiments := experiments s @ [row], changes := 1\<rparr>))"

text \<open>The row \<open>createExperiment\<close> inserts: a draft without a live Run.\<close>

definition created_row :: "experiment_row \<Rightarrow> experiment_row" where
  "created_row e = e\<lparr>ex_status := ''draft'', ex_liveRun := None\<rparr>"

end
