(* ===== verification/Conclusion.thy ===== *)
theory Conclusion
  imports RunEnd
begin

text \<open>
  Concluding a Run: the guarded batch of \<open>packages/db/src/repo/experiment-conclusion-atomic.ts\<close>
  with its first statement (\<open>experiment-conclusion-end-run.ts\<close>), its audit rows
  (\<open>experiment-conclusion-audit.ts\<close>), and the repository around them
  (\<open>experiment-conclusions.ts\<close>). Every statement after the first rides on \<open>changes() = 1\<close> of the
  one before it, and the assertion in the middle aborts the batch unless the chain held.
\<close>

section \<open>Inputs\<close>

text \<open>The rows to insert carry the scope's App and Environment, whatever the caller put there.\<close>

record conclude_input =
  ci_requestId :: "string option"
  ci_conclusion :: conclusion_row
  ci_approval :: approval_row
  ci_expectedLive :: string
  ci_expectedVersion :: int

record replacement_input =
  ri_requestId :: "string option"
  ri_run :: "string option"
  ri_conclusion :: string
  ri_previous :: string
  ri_ordinal :: int
  ri_approval :: approval_row
  ri_targetEnv :: string
  ri_targetFlag :: string
  ri_expectedVersion :: int
  ri_previousVersion :: string
  ri_currentVersion :: string
  ri_createdAt :: string

section \<open>The statements\<close>

definition target_at :: "string \<Rightarrow> string \<Rightarrow> string \<Rightarrow> int \<Rightarrow> db \<Rightarrow> bool" where
  "target_at app env flag v s \<longleftrightarrow> list_ex (\<lambda>c. fc_app c = app \<and> fc_env c = env \<and> fc_flag c = flag
     \<and> fc_version c = v) (flag_configs s)"

definition conclude_target :: "env_scope \<Rightarrow> conclude_input \<Rightarrow> db \<Rightarrow> bool" where
  "conclude_target scope i s \<longleftrightarrow> target_at (s_app scope) (cn_targetEnv (ci_conclusion i))
     (cn_targetFlag (ci_conclusion i)) (ci_expectedVersion i) s"

definition endRunningRunStatement :: "env_scope \<Rightarrow> conclude_input \<Rightarrow> stmt" where
  "endRunningRunStatement scope i s =
    (let c = ci_conclusion i;
         P = (\<lambda>r. in_scope_run scope (cn_experiment c) r \<and> rn_id r = cn_run c \<and> rn_status r = ''running''
            \<and> conclude_target scope i s
            \<and> is_admin (s_app scope) (cn_by c) s
            \<and> \<not> list_ex (\<lambda>a. al_app a = s_app scope \<and> al_env a = s_env scope \<and> al_run a = cn_run c)
                (run_srm_alarms s)
            \<and> list_ex (live_experiment scope (cn_experiment c) (ci_expectedLive i)) (experiments s));
         hit = filter P (runs s)
     in Inr (s\<lparr>runs := set_where P (\<lambda>r. r\<lparr>rn_status := ''ended'', rn_endedAt := Some (cn_at c),
            rn_endReason := cn_reason c\<rparr>) (runs s), changes := length hit\<rparr>, map rn_id hit))"

definition clearConcludedExperimentStatement :: "env_scope \<Rightarrow> conclude_input \<Rightarrow> stmt" where
  "clearConcludedExperimentStatement scope i s =
    (let c = ci_conclusion i;
         P = (\<lambda>e. changes s = 1 \<and> live_experiment scope (cn_experiment c) (ci_expectedLive i) e
            \<and> conclude_target scope i s
            \<and> ended_by scope (cn_experiment c) (cn_run c) (cn_at c) s);
         hit = filter P (experiments s)
     in Inr (s\<lparr>experiments := set_where P (\<lambda>e. e\<lparr>ex_status := ''draft'', ex_liveRun := None,
            ex_updatedAt := cn_at c, ex_updatedBy := Some (cn_by c)\<rparr>) (experiments s),
          changes := length hit\<rparr>, map ex_id hit))"

definition conclusion_to_insert :: "env_scope \<Rightarrow> conclude_input \<Rightarrow> conclusion_row" where
  "conclusion_to_insert scope i = (ci_conclusion i)\<lparr>cn_app := s_app scope, cn_env := s_env scope\<rparr>"

definition conclusionInsertStatement :: "env_scope \<Rightarrow> conclude_input \<Rightarrow> stmt" where
  "conclusionInsertStatement scope i s =
    (let c = conclusion_to_insert scope i;
         guard = changes s = 1 \<and> list_ex (\<lambda>e. ex_app e = s_app scope \<and> ex_env e = s_env scope
            \<and> ex_id e = cn_experiment c \<and> ex_liveRun e = None \<and> ex_updatedAt e = cn_at c) (experiments s)
     in insert_if guard (conclusion_insertable s c) (cn_id c)
          (\<lambda>s. s\<lparr>experiment_conclusions := experiment_conclusions s @ [c]\<rparr>) s)"

definition approvalInsertStatement :: "string \<Rightarrow> approval_row \<Rightarrow> (db \<Rightarrow> bool) \<Rightarrow> stmt" where
  "approvalInsertStatement app a guard s =
    (let row = a\<lparr>ap_app := app\<rparr> in
     insert_if (changes s = 1 \<and> guard s) (approval_insertable s row) (ap_id a)
       (\<lambda>s. s\<lparr>approval_requests := approval_requests s @ [row]\<rparr>) s)"

definition linkInsertStatement :: "string \<Rightarrow> string \<Rightarrow> string \<Rightarrow> int \<Rightarrow> string \<Rightarrow> stmt" where
  "linkInsertStatement app conclusion request ordinal createdAt s =
    (let l = \<lparr>lk_app = app, lk_conclusion = conclusion, lk_request = request, lk_ordinal = ordinal,
              lk_at = createdAt\<rparr>;
         guard = changes s = 1 \<and> list_ex (\<lambda>a. ap_app a = app \<and> ap_id a = request) (approval_requests s)
     in insert_if guard (link_insertable s l) request
          (\<lambda>s. s\<lparr>conclusion_approval_requests := conclusion_approval_requests s @ [l]\<rparr>) s)"

definition atomicAssertion :: "string \<Rightarrow> string \<Rightarrow> int \<Rightarrow> stmt" where
  "atomicAssertion request conclusion ordinal = assert_stmt (\<lambda>s. changes s = 1
     \<and> list_ex (\<lambda>l. lk_conclusion l = conclusion \<and> lk_ordinal l = ordinal \<and> lk_request l = request)
         (conclusion_approval_requests s))"

definition conclusionAuditStatements :: "env_scope \<Rightarrow> conclude_input \<Rightarrow> stmt list" where
  "conclusionAuditStatements scope i =
    (let c = ci_conclusion i; a = ci_approval i in
     [auditStatement (s_app scope)
        \<lparr>ai_actorRef = Some (cn_by c), ai_actorVia = Some (cn_via c), ai_requestId = ci_requestId i,
         ai_changedAt = cn_at c, ai_action = ''runs_conclude'', ai_resourceType = ''run'',
         ai_resourceId = cn_run c, ai_env = Some (s_env scope), ai_targetVersion = Some (cn_configHash c),
         ai_outcome = None, ai_approval = Some (ap_id a), ai_run = Some (cn_run c), ai_metadata = Undefined\<rparr>,
      auditStatement (s_app scope)
        \<lparr>ai_actorRef = Some (ap_by a), ai_actorVia = Some (ap_via a), ai_requestId = ci_requestId i,
         ai_changedAt = ap_at a, ai_action = ''runs_conclude'', ai_resourceType = ''approval_request'',
         ai_resourceId = ap_id a, ai_env = Some (cn_targetEnv c), ai_targetVersion = Some (ap_targetVersion a),
         ai_outcome = Some ''pending'', ai_approval = Some (ap_id a), ai_run = Some (cn_run c),
         ai_metadata = Undefined\<rparr>])"

definition conclusionStatements :: "env_scope \<Rightarrow> conclude_input \<Rightarrow> stmt list" where
  "conclusionStatements scope i =
    (let c = ci_conclusion i; a = ci_approval i in
     [endRunningRunStatement scope i,
      clearConcludedExperimentStatement scope i,
      conclusionInsertStatement scope i,
      approvalInsertStatement (s_app scope) a
        (\<lambda>s. list_ex (\<lambda>x. cn_app x = s_app scope \<and> cn_id x = cn_id c) (experiment_conclusions s)),
      linkInsertStatement (s_app scope) (cn_id c) (ap_id a) 1 (cn_at c),
      atomicAssertion (ap_id a) (cn_id c) 1]
   @ conclusionAuditStatements scope i)"

section \<open>Replacing a stale Promotion Request\<close>

text \<open>
  The join of the link, its Approval Request, its conclusion and the target Configuration
  under which a replacement may be raised; \<open>stale\<close> adds that the Request is stale.
\<close>

definition replacement_relation :: "string \<Rightarrow> replacement_input \<Rightarrow> (approval_row \<Rightarrow> bool) \<Rightarrow> db \<Rightarrow> bool" where
  "replacement_relation app i stale s \<longleftrightarrow>
     list_ex (\<lambda>l. list_ex (\<lambda>p. list_ex (\<lambda>c.
         ap_id p = lk_request l \<and> cn_id c = lk_conclusion l
       \<and> target_at (lk_app l) (ri_targetEnv i) (ri_targetFlag i) (ri_expectedVersion i) s
       \<and> lk_app l = app \<and> lk_conclusion l = ri_conclusion i \<and> lk_request l = ri_previous i
       \<and> lk_ordinal l = ri_ordinal i - 1 \<and> ap_app p = lk_app l \<and> cn_app c = lk_app l
       \<and> ap_targetVersion p = ri_previousVersion i \<and> ap_targetVersion p \<noteq> ri_currentVersion i
       \<and> is_admin (lk_app l) (ap_by (ri_approval i)) s
       \<and> \<not> list_ex (\<lambda>n. lk_app n = lk_app l \<and> lk_conclusion n = lk_conclusion l
             \<and> lk_ordinal l < lk_ordinal n) (conclusion_approval_requests s)
       \<and> stale p)
     (experiment_conclusions s)) (approval_requests s)) (conclusion_approval_requests s)"

definition markStaleStatement :: "string \<Rightarrow> replacement_input \<Rightarrow> stmt" where
  "markStaleStatement app i s =
    (let P = (\<lambda>q. ap_app q = app \<and> ap_id q = ri_previous i \<and> ap_status q \<in> {''pending'', ''stale''}
            \<and> replacement_relation app i (\<lambda>_. True) s)
     in Inr (s\<lparr>approval_requests := set_where P (\<lambda>q. q\<lparr>ap_status := ''stale'',
            ap_resolvedAt := case_option (Some (ri_createdAt i)) Some (ap_resolvedAt q)\<rparr>) (approval_requests s),
          changes := length (filter P (approval_requests s))\<rparr>, []))"

definition replacementAuditStatement :: "string \<Rightarrow> replacement_input \<Rightarrow> stmt" where
  "replacementAuditStatement app i = auditStatement app
     \<lparr>ai_actorRef = Some (ap_by (ri_approval i)), ai_actorVia = Some (ap_via (ri_approval i)),
      ai_requestId = ri_requestId i, ai_changedAt = ri_createdAt i,
      ai_action = ''conclusion_promotion_requests_create'', ai_resourceType = ''approval_request'',
      ai_resourceId = ap_id (ri_approval i), ai_env = Some (ri_targetEnv i),
      ai_targetVersion = Some (ap_targetVersion (ri_approval i)), ai_outcome = Some ''pending'',
      ai_approval = Some (ap_id (ri_approval i)), ai_run = ri_run i, ai_metadata = Undefined\<rparr>"

definition replacementStatements :: "string \<Rightarrow> replacement_input \<Rightarrow> stmt list" where
  "replacementStatements app i =
    [markStaleStatement app i,
     approvalInsertStatement app (ri_approval i)
       (replacement_relation app i (\<lambda>p. ap_status p = ''stale'')),
     linkInsertStatement app (ri_conclusion i) (ap_id (ri_approval i)) (ri_ordinal i) (ri_createdAt i),
     atomicAssertion (ap_id (ri_approval i)) (ri_conclusion i) (ri_ordinal i),
     replacementAuditStatement app i]"

section \<open>The repository\<close>

definition getByActorKey :: "string \<Rightarrow> string \<Rightarrow> string \<Rightarrow> db \<Rightarrow> conclusion_row option" where
  "getByActorKey app concludedBy key s =
     List.find (\<lambda>c. cn_app c = app \<and> cn_by c = concludedBy \<and> cn_key c = key) (experiment_conclusions s)"

definition getConclusion :: "env_scope \<Rightarrow> string \<Rightarrow> string \<Rightarrow> string \<Rightarrow> db \<Rightarrow> conclusion_row option" where
  "getConclusion scope e r c s = List.find (\<lambda>x. cn_app x = s_app scope \<and> cn_env x = s_env scope
     \<and> cn_experiment x = e \<and> cn_run x = r \<and> cn_id x = c) (experiment_conclusions s)"

definition listApprovalLinks :: "string \<Rightarrow> string \<Rightarrow> db \<Rightarrow> link_row list" where
  "listApprovalLinks app c s = rev (sort_key lk_ordinal
     (filter (\<lambda>l. lk_app l = app \<and> lk_conclusion l = c) (conclusion_approval_requests s)))"

datatype commit_result = Committed "string list list" | IdempotencyRace conclusion_row | CommitThrew sql_error

text \<open>A batch that throws is an idempotency race when the actor's key is already taken.\<close>

definition commit :: "env_scope \<Rightarrow> conclude_input \<Rightarrow> db \<Rightarrow> commit_result \<times> db" where
  "commit scope i s = (case d1_batch (conclusionStatements scope i) s of
     (Inr results, s') \<Rightarrow> (Committed results, s')
   | (Inl cause, s') \<Rightarrow> (case getByActorKey (s_app scope) (cn_by (ci_conclusion i)) (cn_key (ci_conclusion i)) s' of
       Some replay \<Rightarrow> (IdempotencyRace replay, s')
     | None \<Rightarrow> (CommitThrew cause, s')))"

definition createReplacement :: "string \<Rightarrow> replacement_input \<Rightarrow> db \<Rightarrow> (sql_error + bool) \<times> db" where
  "createReplacement app i s = (case d1_batch (replacementStatements app i) s of
     (Inl e, s') \<Rightarrow> (Inl e, s')
   | (Inr results, s') \<Rightarrow> (Inr (length (nth_result results 2) = 1), s'))"

end
