(* ===== verification/RunLifecycle.thy ===== *)
theory RunLifecycle
  imports Conclusion
begin

text \<open>
  What the batches of the Run lifecycle do as a whole, and what every interleaving of them
  keeps. A batch is atomic, but the reads a handler decides on come before it: the machine
  below keeps the rows a PATCH handler has read and the writes it has decided on, so that
  any other operation may come in between.
\<close>

section \<open>Effects of the batches\<close>

text \<open>The tables of the lifecycle proper; statements on approvals and the audit log keep them.\<close>

definition core :: "db \<Rightarrow> experiment_row list \<times> run_row list \<times> alarm_row list \<times> conclusion_row list \<times> link_row list" where
  "core s = (experiments s, runs s, run_srm_alarms s, experiment_conclusions s, conclusion_approval_requests s)"

lemma core_eq: "core s' = core s \<longleftrightarrow> experiments s' = experiments s \<and> runs s' = runs s
    \<and> run_srm_alarms s' = run_srm_alarms s \<and> experiment_conclusions s' = experiment_conclusions s
    \<and> conclusion_approval_requests s' = conclusion_approval_requests s"
  by (simp add: core_def)

lemma core_update [simp]:
  "core (s\<lparr>changes := n\<rparr>) = core s"
  "core (s\<lparr>control_plane_audit_events := a\<rparr>) = core s"
  "core (s\<lparr>approval_requests := q\<rparr>) = core s"
  "core (s\<lparr>approval_reviews := v\<rparr>) = core s"
  by (simp_all add: core_def)

lemma audit_total: "\<exists>s'. auditStatement app e s = Inr (s', []) \<and> core s' = core s"
  by (auto simp: auditStatement_def Let_def)

lemma audit_core: "auditStatement app e s = Inr (s', rows) \<Longrightarrow> core s' = core s"
  by (auto simp: auditStatement_def Let_def)

lemma insert_if_Inr: "insert_if g v rid ins s = Inr (s', rows) \<longleftrightarrow>
    (if g then v = None \<and> s' = (ins s)\<lparr>changes := 1\<rparr> \<and> rows = [rid]
     else s' = s\<lparr>changes := 0\<rparr> \<and> rows = [])"
  by (auto simp: insert_if_def split: option.splits)

subsection \<open>Start\<close>

lemma guard_cong:
  assumes "experiments t = experiments s" "approval_requests t = approval_requests s"
    "memberships t = memberships s" "environments t = environments s"
  shows "startGuard scope i t = startGuard scope i s" "start_allowed scope i t = start_allowed scope i s"
  using assms by (simp_all add: startGuard_def start_allowed_def approvalGuard_def is_admin_def policy_holds_def
      split: option.splits)

lemma applied_core: "q \<in> set (approvalAppliedStatements scope a r) \<Longrightarrow> q s = Inr (s', rows) \<Longrightarrow> core s' = core s"
  by (auto simp: approvalAppliedStatements_def reviewInsertStatement_def requestAppliedStatement_def
      Let_def insert_if_Inr audit_core split: if_splits)

definition start_tail :: "env_scope \<Rightarrow> start_input \<Rightarrow> stmt list" where
  "start_tail scope i =
     (case si_approval i of None \<Rightarrow> [] | Some a \<Rightarrow> approvalAppliedStatements scope a (si_runId i))
   @ [startAuditStatement scope i]"

lemma start_statements_tail: "start_statements scope i =
    endCurrentRunStatement scope i # insertRunStatement scope i # updateExperimentStartedStatement scope i
      # start_tail scope i"
  by (simp add: start_statements_def start_tail_def)

lemma start_tail_core:
  assumes "run_statements (start_tail scope i) s = Inr (s', rs)" shows "core s' = core s"
proof -
  have "core t' = core t" if "q \<in> set (start_tail scope i)" "q t = Inr (t', rows)" for q t t' rows
    using that by (auto simp: start_tail_def startAuditStatement_def split: option.splits
        dest: applied_core audit_core)
  then show ?thesis
    using run_statements_keeps[OF assms, of "\<lambda>t. core t = core s"] by force
qed

text \<open>The Run a Start ends, the rows it leaves, and the Experiment it points at the new Run.\<close>

definition current_run :: "env_scope \<Rightarrow> string \<Rightarrow> run_row \<Rightarrow> bool" where
  "current_run scope e r \<longleftrightarrow> in_scope_run scope e r \<and> rn_status r = ''running''"

definition end_run :: "string \<Rightarrow> run_row \<Rightarrow> run_row" where
  "end_run at' r = r\<lparr>rn_status := ''ended'', rn_endedAt := Some at'\<rparr>"

definition point_at :: "start_input \<Rightarrow> experiment_row \<Rightarrow> experiment_row" where
  "point_at i e = e\<lparr>ex_status := ''running'', ex_liveRun := Some (si_runId i), ex_draftAllocation := None,
     ex_draftSalt := None, ex_draftRules := None, ex_draftSegments := None,
     ex_updatedAt := si_updatedAt i, ex_updatedBy := si_updatedBy i\<rparr>"

definition started_core :: "env_scope \<Rightarrow> start_input \<Rightarrow> db \<Rightarrow> db \<Rightarrow> bool" where
  "started_core scope i s s' \<longleftrightarrow>
     (\<exists>r. rn_id r = si_runId i \<and> in_scope_run scope (si_experiment i) r \<and> rn_status r = ''running''
       \<and> rn_number r = next_run_number scope (si_experiment i) s
       \<and> rn_snapshot r = (si_snapshot i)\<lparr>sn_control := sd_defaultVariant (si_draft i)\<rparr>
       \<and> rn_endedAt r = None \<and> rn_endReason r = None
       \<and> runs s' = set_where (current_run scope (si_experiment i)) (end_run (si_endedAt i)) (runs s) @ [r])
   \<and> si_runId i \<notin> rn_id ` set (runs s)
   \<and> experiments s' = set_where (draft_row scope i) (point_at i) (experiments s)
   \<and> run_srm_alarms s' = run_srm_alarms s \<and> experiment_conclusions s' = experiment_conclusions s
   \<and> conclusion_approval_requests s' = conclusion_approval_requests s"

lemma next_run_number_ended:
  assumes "\<And>r. rn_number (f r) = rn_number r" "\<And>r. in_scope_run scope e (f r) = in_scope_run scope e r"
  shows "next_run_number scope e (s\<lparr>runs := set_where P f (runs s), changes := n\<rparr>) = next_run_number scope e s"
proof -
  have "map rn_number (filter (in_scope_run scope e) (set_where P f rs)) =
      map rn_number (filter (in_scope_run scope e) rs)" for rs
    by (induction rs) (auto simp: set_where_def assms)
  then show ?thesis by (simp add: next_run_number_def)
qed

lemma start_effect:
  assumes "run_statements (start_statements scope i) s = Inr (s', results)"
  shows "if startGuard scope i s
    then started_core scope i s s' \<and> nth_result results 1 = [si_runId i]
      \<and> nth_result results 2 = map ex_id (filter (draft_row scope i) (experiments s))
    else core s' = core s \<and> nth_result results 1 = [] \<and> nth_result results 2 = []"
proof -
  let ?P = "\<lambda>r. in_scope_run scope (si_experiment i) r \<and> rn_status r = ''running'' \<and> startGuard scope i s"
  let ?f = "\<lambda>r. r\<lparr>rn_status := ''ended'', rn_endedAt := Some (si_endedAt i)\<rparr>"
  define s1 where "s1 = s\<lparr>runs := set_where ?P ?f (runs s), changes := length (filter ?P (runs s))\<rparr>"
  from assms obtain s2 rows2 s3 rows3 rest where
    ins: "insertRunStatement scope i s1 = Inr (s2, rows2)"
    and upd: "updateExperimentStartedStatement scope i s2 = Inr (s3, rows3)"
    and tl: "run_statements (start_tail scope i) s3 = Inr (s', rest)"
    and results: "results = map rn_id (filter ?P (runs s)) # rows2 # rows3 # rest"
    unfolding start_statements_tail s1_def
    by (auto simp: ebind_eq_Inr endCurrentRunStatement_def Let_def split: prod.splits)
  have core': "core s' = core s3" by (rule start_tail_core[OF tl])
  have g1: "startGuard scope i s1 = startGuard scope i s"
    by (rule guard_cong) (simp_all add: s1_def)
  show ?thesis
  proof (cases "startGuard scope i s")
    case False
    then have core1: "core s1 = core s" by (simp add: core_def s1_def set_where_none)
    from ins False g1 have s2: "s2 = s1\<lparr>changes := 0\<rparr>" "rows2 = []"
      by (auto simp: insertRunStatement_def Let_def insert_if_Inr)
    have "startGuard scope i s2 = startGuard scope i s"
      unfolding s2 g1[symmetric] by (rule guard_cong) simp_all
    with False have no: "\<not> (draft_row scope i e \<and> start_allowed scope i s2)" if "e \<in> set (experiments s2)" for e
      using that by (auto simp: startGuard_def list_ex_iff)
    with upd have "core s3 = core s2" "rows3 = []"
      by (auto simp: updateExperimentStartedStatement_def Let_def filter_empty_conv core_def set_where_none)
    with False core' core1 s2 results show ?thesis by (simp add: nth_result_def)
  next
    case True
    have runs1: "runs s1 = set_where (current_run scope (si_experiment i)) (end_run (si_endedAt i)) (runs s)"
      using True by (simp add: s1_def set_where_def current_run_def end_run_def)
    have s2: "run_insertable s1 (new_run scope i s1) = None"
      "s2 = s1\<lparr>runs := runs s1 @ [new_run scope i s1], changes := 1\<rparr>" "rows2 = [si_runId i]"
      using ins True g1 by (auto simp: insertRunStatement_def Let_def insert_if_Inr)
    have "start_allowed scope i s2 = start_allowed scope i s"
      by (rule guard_cong) (simp_all add: s2(2) s1_def)
    with True have g2: "start_allowed scope i s2" by (simp add: startGuard_def)
    have "map rn_id (runs s1) = map rn_id (runs s)"
      unfolding s1_def by (simp add: map_set_where)
    then have ids: "rn_id ` set (runs s1) = rn_id ` set (runs s)" by (metis list.set_map)
    have fresh: "si_runId i \<notin> rn_id ` set (runs s)"
      using s2(1) unfolding ids[symmetric]
      by (auto simp: run_insertable_def new_run_def list_ex_iff split: if_splits)
    have num: "next_run_number scope (si_experiment i) s1 = next_run_number scope (si_experiment i) s"
      unfolding s1_def by (rule next_run_number_ended) (auto simp: in_scope_run_def)
    have keep: "experiments s2 = experiments s" "runs s2 = runs s1 @ [new_run scope i s1]"
      "run_srm_alarms s2 = run_srm_alarms s" "experiment_conclusions s2 = experiment_conclusions s"
      "conclusion_approval_requests s2 = conclusion_approval_requests s"
      by (simp_all add: s2(2) s1_def)
    have exps: "experiments s3 = set_where (draft_row scope i) (point_at i) (experiments s)"
      "rows3 = map ex_id (filter (draft_row scope i) (experiments s))"
      "runs s3 = runs s2" "run_srm_alarms s3 = run_srm_alarms s" "experiment_conclusions s3 = experiment_conclusions s"
      "conclusion_approval_requests s3 = conclusion_approval_requests s"
      using upd g2 by (auto simp: updateExperimentStartedStatement_def Let_def keep set_where_def point_at_def)
    have "started_core scope i s s'"
      unfolding started_core_def
      using core' exps fresh num runs1 keep(2)
      by (intro conjI exI[where x = "new_run scope i s1"])
        (simp_all add: core_def new_run_def in_scope_run_def)
    with True s2(3) exps(2) results show ?thesis by (simp add: nth_result_def)
  qed
qed

section \<open>Well-formed tables\<close>

text \<open>
  Statuses are the documented ones; an Experiment is running exactly when it has a live Run,
  which is its only running one; a Run belongs to an Experiment of its scope, a running one
  is that Experiment's live Run, an ended one has a time of end; the Runs of an Experiment
  are numbered 1, 2, 3, ... in the order they were started; a conclusion belongs to a Run it
  ended and has its first Approval Request; an alarm belongs to a Run.
\<close>

definition run_of :: "experiment_row \<Rightarrow> run_row \<Rightarrow> bool" where
  "run_of e r \<longleftrightarrow> rn_experiment r = ex_id e \<and> rn_app r = ex_app e \<and> rn_env r = ex_env e"

definition experiments_ok :: "db \<Rightarrow> bool" where
  "experiments_ok s \<longleftrightarrow> distinct (map ex_id (experiments s)) \<and> (\<forall>e\<in>set (experiments s).
     ex_status e \<in> {''draft'', ''running'', ''archived''} \<and> (ex_status e = ''running'' \<longleftrightarrow> ex_liveRun e \<noteq> None)
   \<and> (\<forall>x. ex_liveRun e = Some x \<longrightarrow> (\<exists>r\<in>set (runs s). rn_id r = x \<and> run_of e r \<and> rn_status r = ''running'')))"

definition runs_ok :: "db \<Rightarrow> bool" where
  "runs_ok s \<longleftrightarrow> distinct (map rn_id (runs s)) \<and> (\<forall>r\<in>set (runs s).
     rn_status r \<in> {''running'', ''ended''} \<and> (rn_status r = ''running'' \<longleftrightarrow> rn_endedAt r = None)
   \<and> (\<exists>e\<in>set (experiments s). run_of e r \<and> (rn_status r = ''running'' \<longrightarrow> ex_liveRun e = Some (rn_id r))))"

definition numbered :: "int list \<Rightarrow> bool" where
  "numbered ns \<longleftrightarrow> ns = map int [1..<Suc (length ns)]"

definition numbers_ok :: "db \<Rightarrow> bool" where
  "numbers_ok s \<longleftrightarrow> (\<forall>scope e. numbered (map rn_number (filter (in_scope_run scope e) (runs s))))"

definition conclusions_ok :: "db \<Rightarrow> bool" where
  "conclusions_ok s \<longleftrightarrow> distinct (map cn_run (experiment_conclusions s)) \<and> (\<forall>c\<in>set (experiment_conclusions s).
     (\<exists>r\<in>set (runs s). rn_id r = cn_run c \<and> rn_app r = cn_app c \<and> rn_env r = cn_env c
        \<and> rn_experiment r = cn_experiment c \<and> rn_status r = ''ended'' \<and> rn_endedAt r = Some (cn_at c))
   \<and> (\<exists>l\<in>set (conclusion_approval_requests s). lk_conclusion l = cn_id c \<and> lk_ordinal l = 1))"

definition lifecycle_ok :: "db \<Rightarrow> bool" where
  "lifecycle_ok s \<longleftrightarrow> experiments_ok s \<and> runs_ok s \<and> numbers_ok s \<and> conclusions_ok s"

lemma ok_core: "core s' = core s \<Longrightarrow> lifecycle_ok s' = lifecycle_ok s"
  by (simp add: core_eq lifecycle_ok_def experiments_ok_def runs_ok_def numbers_ok_def conclusions_ok_def)

text \<open>The live Run of an Experiment is its one running Run.\<close>

lemma live_is_running:
  assumes "lifecycle_ok s" "e \<in> set (experiments s)" "ex_liveRun e = Some x"
  obtains r where "r \<in> set (runs s)" "rn_id r = x" "run_of e r" "rn_status r = ''running''"
  using assms unfolding lifecycle_ok_def experiments_ok_def by blast

lemma experiment_by_id:
  assumes "lifecycle_ok s" "e \<in> set (experiments s)" "f \<in> set (experiments s)" "ex_id e = ex_id f"
  shows "e = f"
  using assms unfolding lifecycle_ok_def experiments_ok_def
  by (metis distinct_map inj_on_eq_iff)

lemma run_by_id:
  assumes "lifecycle_ok s" "q \<in> set (runs s)" "r \<in> set (runs s)" "rn_id q = rn_id r"
  shows "q = r"
  using assms unfolding lifecycle_ok_def runs_ok_def
  by (metis distinct_map inj_on_eq_iff)

lemma running_is_live:
  assumes "lifecycle_ok s" "r \<in> set (runs s)" "rn_status r = ''running''"
    "e \<in> set (experiments s)" "ex_id e = rn_experiment r"
  shows "ex_liveRun e = Some (rn_id r)" "run_of e r"
proof -
  obtain f where "f \<in> set (experiments s)" "run_of f r" "ex_liveRun f = Some (rn_id r)"
    using assms unfolding lifecycle_ok_def runs_ok_def by blast
  moreover have "f = e"
    using experiment_by_id[OF assms(1) \<open>f \<in> set (experiments s)\<close> assms(4)] \<open>run_of f r\<close> assms(5)
    by (simp add: run_of_def)
  ultimately show "ex_liveRun e = Some (rn_id r)" "run_of e r" by simp_all
qed

section \<open>Ending a Run\<close>

definition clear_live :: "string \<Rightarrow> string option \<Rightarrow> experiment_row \<Rightarrow> experiment_row" where
  "clear_live at' by' e = e\<lparr>ex_status := ''draft'', ex_liveRun := None, ex_updatedAt := at', ex_updatedBy := by'\<rparr>"

definition close_run :: "string \<Rightarrow> string option \<Rightarrow> run_row \<Rightarrow> run_row" where
  "close_run at' reason r = r\<lparr>rn_status := ''ended'', rn_endedAt := Some at', rn_endReason := reason\<rparr>"

definition ended_core :: "string \<Rightarrow> string \<Rightarrow> string \<Rightarrow> string option \<Rightarrow> string \<Rightarrow> string option \<Rightarrow> db \<Rightarrow> db \<Rightarrow> bool" where
  "ended_core e r at' reason uat uby s s' \<longleftrightarrow>
     runs s' = set_where (\<lambda>x. rn_id x = r) (close_run at' reason) (runs s)
   \<and> experiments s' = set_where (\<lambda>x. ex_id x = e) (clear_live uat uby) (experiments s)
   \<and> run_srm_alarms s' = run_srm_alarms s"

text \<open>In a well-formed database the guards of both batches select one Run and one Experiment.\<close>

definition live_at :: "env_scope \<Rightarrow> string \<Rightarrow> string \<Rightarrow> db \<Rightarrow> bool" where
  "live_at scope e r s \<longleftrightarrow> list_ex (live_experiment scope e r) (experiments s)"

lemma live_at_run:
  assumes "lifecycle_ok s" "live_at scope e r s" "x \<in> set (runs s)"
  shows "in_scope_run scope e x \<and> rn_id x = r \<and> rn_status x = ''running'' \<longleftrightarrow> rn_id x = r"
proof -
  obtain f where f: "f \<in> set (experiments s)" "live_experiment scope e r f"
    using assms(2) by (auto simp: live_at_def list_ex_iff)
  then obtain q where "q \<in> set (runs s)" "rn_id q = r" "run_of f q" "rn_status q = ''running''"
    using live_is_running[OF assms(1)] by (auto simp: live_experiment_def)
  with f assms(1,3) show ?thesis
    by (auto simp: run_of_def live_experiment_def in_scope_run_def dest: run_by_id)
qed

lemma live_at_experiment:
  assumes "lifecycle_ok s" "live_at scope e r s" "x \<in> set (experiments s)"
  shows "live_experiment scope e r x \<longleftrightarrow> ex_id x = e"
  using assms experiment_by_id[OF assms(1)] by (auto simp: live_at_def list_ex_iff live_experiment_def)

lemma not_live_running:
  assumes "lifecycle_ok s" "\<not> live_at scope e r s" "x \<in> set (runs s)" "in_scope_run scope e x" "rn_id x = r"
  shows "rn_status x \<noteq> ''running''"
proof
  assume run: "rn_status x = ''running''"
  then obtain f where "f \<in> set (experiments s)" "run_of f x"
    using assms(1,3) unfolding lifecycle_ok_def runs_ok_def by blast
  with assms run running_is_live[OF assms(1,3) run, of f] show False
    by (auto simp: live_at_def list_ex_iff live_experiment_def in_scope_run_def run_of_def)
qed

lemma set_where_cong: "(\<And>x. x \<in> set rows \<Longrightarrow> P x = Q x) \<Longrightarrow> set_where P f rows = set_where Q f rows"
  by (auto simp: set_where_def)

lemma ended_by_closed:
  assumes "lifecycle_ok s" "live_at scope e r s"
  shows "ended_by scope e r at' (s\<lparr>runs := set_where (\<lambda>x. rn_id x = r) (close_run at' reason) (runs s), changes := n\<rparr>)"
proof -
  obtain f q where "f \<in> set (experiments s)" "live_experiment scope e r f"
    "q \<in> set (runs s)" "rn_id q = r" "run_of f q"
    using assms live_is_running[OF assms(1)] unfolding live_at_def list_ex_iff live_experiment_def
    by (metis sql_eq_Some)
  then have "in_scope_run scope e q" by (simp add: live_experiment_def in_scope_run_def run_of_def)
  then show ?thesis
    using \<open>q \<in> set (runs s)\<close> \<open>rn_id q = r\<close>
    by (auto simp: ended_by_def list_ex_iff close_run_def in_scope_run_def
        intro!: bexI[of _ "close_run at' reason q"] image_eqI[of _ _ q])
qed

lemma filter_one_run:
  assumes "lifecycle_ok s" "live_at scope e r s"
  shows "map rn_id (filter (\<lambda>x. rn_id x = r) (runs s)) = [r]"
proof -
  obtain f q where "f \<in> set (experiments s)" "q \<in> set (runs s)" "rn_id q = r"
    using assms live_is_running[OF assms(1)] unfolding live_at_def list_ex_iff live_experiment_def
    by (metis sql_eq_Some)
  moreover have "distinct (map rn_id (runs s))"
    using assms(1) by (simp add: lifecycle_ok_def runs_ok_def)
  ultimately have "filter (\<lambda>x. rn_id x = r) (runs s) = [q]"
    by (intro filter_unique[where k = rn_id]) auto
  with \<open>rn_id q = r\<close> show ?thesis by simp
qed

lemma filter_one_experiment:
  assumes "lifecycle_ok s" "live_at scope e r s"
  shows "map ex_id (filter (\<lambda>x. ex_id x = e) (experiments s)) = [e]"
proof -
  obtain f where "f \<in> set (experiments s)" "ex_id f = e"
    using assms(2) by (auto simp: live_at_def list_ex_iff live_experiment_def)
  moreover have "distinct (map ex_id (experiments s))"
    using assms(1) by (simp add: lifecycle_ok_def experiments_ok_def)
  ultimately have "filter (\<lambda>x. ex_id x = e) (experiments s) = [f]"
    by (intro filter_unique[where k = ex_id]) auto
  with \<open>ex_id f = e\<close> show ?thesis by simp
qed

text \<open>
  End: when the Run is the Experiment's live Run, both rows change; else neither does.
\<close>

lemma end_effect:
  assumes ok: "lifecycle_ok s" and same: "ei_expectedLive i = ei_run i"
    and run: "run_statements (end_statements scope i h) s = Inr (s', results)"
  shows "if live_at scope (ei_experiment i) (ei_run i) s
    then ended_core (ei_experiment i) (ei_run i) (ei_endedAt i) (ei_endReason i) (ei_updatedAt i) (ei_updatedBy i) s s'
      \<and> experiment_conclusions s' = experiment_conclusions s
      \<and> conclusion_approval_requests s' = conclusion_approval_requests s
      \<and> nth_result results 0 = [ei_run i] \<and> nth_result results 1 = [ei_experiment i]
    else core s' = core s \<and> nth_result results 0 = [] \<and> nth_result results 1 = []"
proof -
  let ?e = "ei_experiment i" and ?r = "ei_run i"
  let ?P = "\<lambda>r. in_scope_run scope ?e r \<and> rn_id r = ?r \<and> rn_status r = ''running'' \<and> live_at scope ?e ?r s"
  let ?f = "\<lambda>r. r\<lparr>rn_status := ''ended'', rn_endedAt := Some (ei_endedAt i), rn_endReason := ei_endReason i\<rparr>"
  define s1 where "s1 = s\<lparr>runs := set_where ?P ?f (runs s), changes := length (filter ?P (runs s))\<rparr>"
  from run obtain s2 rows2 rest where
    clear: "clearExperimentLiveRunStatement scope i s1 = Inr (s2, rows2)"
    and core': "core s' = core s2"
    and results: "results = map rn_id (filter ?P (runs s)) # rows2 # rest"
    unfolding end_statements_def s1_def
    by (auto simp: ebind_eq_Inr endRunStatement_def live_at_def same Let_def dest: audit_core split: prod.splits)
  show ?thesis
  proof (cases "live_at scope ?e ?r s")
    case True
    have P: "?P x = (rn_id x = ?r)" if "x \<in> set (runs s)" for x
      using live_at_run[OF ok True that] True by blast
    then have filt: "filter ?P (runs s) = filter (\<lambda>x. rn_id x = ?r) (runs s)"
      by (rule filter_cong[OF refl])
    have s1: "s1 = s\<lparr>runs := set_where (\<lambda>x. rn_id x = ?r) (close_run (ei_endedAt i) (ei_endReason i)) (runs s),
        changes := length (filter (\<lambda>x. rn_id x = ?r) (runs s))\<rparr>"
      unfolding s1_def filt using set_where_cong[of "runs s" ?P, OF P]
      by (simp add: close_run_def[abs_def])
    have "ended_by scope ?e ?r (ei_endedAt i) s1"
      unfolding s1 by (rule ended_by_closed[OF ok True])
    then have Q: "live_experiment scope ?e ?r x \<and> ended_by scope ?e ?r (ei_endedAt i) s1 \<longleftrightarrow> ex_id x = ?e"
      if "x \<in> set (experiments s)" for x
      using live_at_experiment[OF ok True that] by simp
    have exps1: "experiments s1 = experiments s" by (simp add: s1)
    have "experiments s2 = set_where (\<lambda>x. ex_id x = ?e) (clear_live (ei_updatedAt i) (ei_updatedBy i)) (experiments s)"
      "rows2 = map ex_id (filter (\<lambda>x. ex_id x = ?e) (experiments s))" "runs s2 = runs s1"
      "run_srm_alarms s2 = run_srm_alarms s" "experiment_conclusions s2 = experiment_conclusions s"
      "conclusion_approval_requests s2 = conclusion_approval_requests s"
      using clear set_where_cong[of "experiments s", OF Q] filter_cong[OF refl Q, of "experiments s"]
      by (auto simp: clearExperimentLiveRunStatement_def Let_def exps1 same clear_live_def[abs_def] s1)
    with True core' results[unfolded filt] show ?thesis
      using filter_one_run[OF ok True] filter_one_experiment[OF ok True]
      by (simp add: core_eq ended_core_def s1 filt nth_result_def)
  next
    case False
    then have "s1 = s\<lparr>changes := 0\<rparr>" by (simp add: s1_def set_where_none)
    moreover have "\<not> live_experiment scope ?e ?r x" if "x \<in> set (experiments s)" for x
      using False that by (auto simp: live_at_def list_ex_iff)
    ultimately show ?thesis
      using clear core' False results
      by (auto simp: clearExperimentLiveRunStatement_def Let_def same set_where_none filter_empty_conv
          core_def nth_result_def)
  qed
qed

section \<open>Concluding a Run\<close>

text \<open>
  The batch commits exactly under these conditions on the state it finds: the Run is the
  live one, the target Configuration is at the version decided on, the actor is still an
  owner or admin, no alarm is recorded for the Run; and the rows are new.
\<close>

definition no_alarm :: "env_scope \<Rightarrow> string \<Rightarrow> db \<Rightarrow> bool" where
  "no_alarm scope r s \<longleftrightarrow> listForRun scope r s = []"

definition conclude_guard :: "env_scope \<Rightarrow> conclude_input \<Rightarrow> db \<Rightarrow> bool" where
  "conclude_guard scope i s \<longleftrightarrow>
     live_at scope (cn_experiment (ci_conclusion i)) (cn_run (ci_conclusion i)) s
   \<and> conclude_target scope i s \<and> is_admin (s_app scope) (cn_by (ci_conclusion i)) s
   \<and> no_alarm scope (cn_run (ci_conclusion i)) s"

definition conclude_rows_free :: "env_scope \<Rightarrow> conclude_input \<Rightarrow> db \<Rightarrow> bool" where
  "conclude_rows_free scope i s \<longleftrightarrow>
     conclusion_insertable s (conclusion_to_insert scope i) = None
   \<and> approval_insertable s ((ci_approval i)\<lparr>ap_app := s_app scope\<rparr>) = None
   \<and> \<not> list_ex (\<lambda>l. lk_conclusion l = cn_id (ci_conclusion i) \<and> lk_ordinal l = 1
         \<or> lk_request l = ap_id (ci_approval i)) (conclusion_approval_requests s)"

definition concluded :: "env_scope \<Rightarrow> conclude_input \<Rightarrow> db \<Rightarrow> db" where
  "concluded scope i s = (let c = ci_conclusion i in s\<lparr>
     experiments := set_where (\<lambda>x. ex_id x = cn_experiment c) (clear_live (cn_at c) (Some (cn_by c))) (experiments s),
     runs := set_where (\<lambda>x. rn_id x = cn_run c) (close_run (cn_at c) (cn_reason c)) (runs s),
     experiment_conclusions := experiment_conclusions s @ [conclusion_to_insert scope i],
     approval_requests := approval_requests s @ [(ci_approval i)\<lparr>ap_app := s_app scope\<rparr>],
     conclusion_approval_requests := conclusion_approval_requests s @
       [\<lparr>lk_app = s_app scope, lk_conclusion = cn_id c, lk_request = ap_id (ci_approval i),
         lk_ordinal = 1, lk_at = cn_at c\<rparr>],
     changes := 1\<rparr>)"

lemma conclude_end_statement:
  assumes ok: "lifecycle_ok s" and same: "ci_expectedLive i = cn_run (ci_conclusion i)"
  shows "endRunningRunStatement scope i s = Inr (if conclude_guard scope i s
    then (s\<lparr>runs := set_where (\<lambda>x. rn_id x = cn_run (ci_conclusion i))
        (close_run (cn_at (ci_conclusion i)) (cn_reason (ci_conclusion i))) (runs s), changes := 1\<rparr>,
      [cn_run (ci_conclusion i)])
    else (s\<lparr>changes := 0\<rparr>, []))"
proof -
  let ?c = "ci_conclusion i"
  let ?P = "\<lambda>r. in_scope_run scope (cn_experiment ?c) r \<and> rn_id r = cn_run ?c \<and> rn_status r = ''running''
    \<and> conclude_target scope i s \<and> is_admin (s_app scope) (cn_by ?c) s
    \<and> \<not> list_ex (\<lambda>a. al_app a = s_app scope \<and> al_env a = s_env scope \<and> al_run a = cn_run ?c) (run_srm_alarms s)
    \<and> live_at scope (cn_experiment ?c) (cn_run ?c) s"
  have P: "?P r \<longleftrightarrow> conclude_guard scope i s \<and> rn_id r = cn_run ?c" if "r \<in> set (runs s)" for r
    using live_at_run[OF ok _ that, of scope "cn_experiment ?c" "cn_run ?c"]
    by (auto simp: conclude_guard_def no_alarm_def listForRun_def filter_empty_conv list_ex_iff)
  have ids: "map rn_id (filter (\<lambda>x. rn_id x = cn_run ?c) (runs s)) = [cn_run ?c]" if "conclude_guard scope i s"
    using that unfolding conclude_guard_def by (blast intro: filter_one_run[OF ok])
  then have one: "length (filter (\<lambda>x. rn_id x = cn_run ?c) (runs s)) = 1" if "conclude_guard scope i s"
    using that by (metis One_nat_def length_Cons length_map list.size(3))
  have "endRunningRunStatement scope i s = Inr (s\<lparr>runs := set_where ?P
      (close_run (cn_at ?c) (cn_reason ?c)) (runs s), changes := length (filter ?P (runs s))\<rparr>,
      map rn_id (filter ?P (runs s)))"
    by (simp add: endRunningRunStatement_def Let_def live_at_def same close_run_def[abs_def])
  also have "filter ?P (runs s) = (if conclude_guard scope i s then filter (\<lambda>x. rn_id x = cn_run ?c) (runs s) else [])"
    using filter_cong[OF refl P, of "runs s"] by simp
  also have "set_where ?P (close_run (cn_at ?c) (cn_reason ?c)) (runs s) = (if conclude_guard scope i s
      then set_where (\<lambda>x. rn_id x = cn_run ?c) (close_run (cn_at ?c) (cn_reason ?c)) (runs s) else runs s)"
    using set_where_cong[of "runs s", OF P] by (simp add: set_where_none)
  finally show ?thesis
    using one ids by simp
qed

lemma conclude_clear_statement:
  assumes ok: "lifecycle_ok s" and same: "ci_expectedLive i = cn_run (ci_conclusion i)"
    and guard: "conclude_guard scope i s"
    and s1: "s1 = s\<lparr>runs := set_where (\<lambda>x. rn_id x = cn_run (ci_conclusion i))
        (close_run (cn_at (ci_conclusion i)) (cn_reason (ci_conclusion i))) (runs s), changes := 1\<rparr>"
  shows "clearConcludedExperimentStatement scope i s1 = Inr (s1\<lparr>experiments :=
      set_where (\<lambda>x. ex_id x = cn_experiment (ci_conclusion i))
        (clear_live (cn_at (ci_conclusion i)) (Some (cn_by (ci_conclusion i)))) (experiments s), changes := 1\<rparr>,
      [cn_experiment (ci_conclusion i)])"
proof -
  let ?c = "ci_conclusion i"
  let ?Q = "\<lambda>e. changes s1 = 1 \<and> live_experiment scope (cn_experiment ?c) (cn_run ?c) e
    \<and> conclude_target scope i s1 \<and> ended_by scope (cn_experiment ?c) (cn_run ?c) (cn_at ?c) s1"
  have live: "live_at scope (cn_experiment ?c) (cn_run ?c) s" using guard by (simp add: conclude_guard_def)
  have "ended_by scope (cn_experiment ?c) (cn_run ?c) (cn_at ?c) s1"
    unfolding s1 by (rule ended_by_closed[OF ok live])
  moreover have "conclude_target scope i s1"
    using guard by (simp add: conclude_guard_def conclude_target_def target_at_def s1)
  ultimately have Q: "?Q e \<longleftrightarrow> ex_id e = cn_experiment ?c" if "e \<in> set (experiments s)" for e
    using live_at_experiment[OF ok live that] by (simp add: s1)
  have one: "map ex_id (filter (\<lambda>x. ex_id x = cn_experiment ?c) (experiments s)) = [cn_experiment ?c]"
    by (rule filter_one_experiment[OF ok live])
  then have len: "length (filter (\<lambda>x. ex_id x = cn_experiment ?c) (experiments s)) = 1"
    by (metis One_nat_def length_Cons length_map list.size(3))
  have exps: "experiments s1 = experiments s" by (simp add: s1)
  show ?thesis
    using filter_cong[OF refl Q, of "experiments s"] set_where_cong[of "experiments s", OF Q] one len
    by (simp add: clearConcludedExperimentStatement_def Let_def exps same clear_live_def[abs_def])
qed

lemma list_ex_set_where: "(\<And>r. P (f r) = P r) \<Longrightarrow> list_ex P (set_where Q f rows) = list_ex P rows"
  by (induction rows) (auto simp: set_where_def)

lemma conclude_insert_statement:
  assumes ok: "lifecycle_ok s" and guard: "conclude_guard scope i s"
    and s2: "s2 = s\<lparr>runs := set_where (\<lambda>x. rn_id x = cn_run (ci_conclusion i))
          (close_run (cn_at (ci_conclusion i)) (cn_reason (ci_conclusion i))) (runs s),
        experiments := set_where (\<lambda>x. ex_id x = cn_experiment (ci_conclusion i))
          (clear_live (cn_at (ci_conclusion i)) (Some (cn_by (ci_conclusion i)))) (experiments s), changes := 1\<rparr>"
  shows "conclusionInsertStatement scope i s2 = (case conclusion_insertable s (conclusion_to_insert scope i) of
      Some e \<Rightarrow> Inl e
    | None \<Rightarrow> Inr (s2\<lparr>experiment_conclusions := experiment_conclusions s @ [conclusion_to_insert scope i], changes := 1\<rparr>,
        [cn_id (ci_conclusion i)]))"
proof -
  let ?c = "ci_conclusion i"
  obtain e where "e \<in> set (experiments s)" "live_experiment scope (cn_experiment ?c) (cn_run ?c) e"
    using guard by (auto simp: conclude_guard_def live_at_def list_ex_iff)
  then have "list_ex (\<lambda>e. ex_app e = s_app scope \<and> ex_env e = s_env scope \<and> ex_id e = cn_experiment ?c
      \<and> ex_liveRun e = None \<and> ex_updatedAt e = cn_at ?c) (experiments s2)"
    by (auto simp: s2 list_ex_iff live_experiment_def clear_live_def
        intro!: bexI[of _ "clear_live (cn_at ?c) (Some (cn_by ?c)) e"] image_eqI[of _ _ e])
  moreover have "conclusion_insertable s2 (conclusion_to_insert scope i) =
      conclusion_insertable s (conclusion_to_insert scope i)"
    by (simp add: conclusion_insertable_def s2 list_ex_set_where close_run_def)
  ultimately show ?thesis
    by (simp add: conclusionInsertStatement_def Let_def insert_if_def s2 conclusion_to_insert_def
        split: option.splits)
qed

lemma audit_statements_total:
  "\<exists>s' results. run_statements (conclusionAuditStatements scope i) s = Inr (s', results) \<and> core s' = core s
     \<and> approval_requests s' = approval_requests s"
  by (auto simp: conclusionAuditStatements_def Let_def auditStatement_def)

lemma conclude_unguarded:
  assumes "lifecycle_ok s" "ci_expectedLive i = cn_run (ci_conclusion i)" "\<not> conclude_guard scope i s"
  shows "run_statements (conclusionStatements scope i) s = Inl MalformedJson"
  using assms(3)
  by (simp add: conclusionStatements_def Let_def conclude_end_statement[OF assms(1,2)]
      clearConcludedExperimentStatement_def conclusionInsertStatement_def approvalInsertStatement_def
      linkInsertStatement_def atomicAssertion_def assert_stmt_def insert_if_def)

lemma conclude_guarded:
  assumes ok: "lifecycle_ok s" and same: "ci_expectedLive i = cn_run (ci_conclusion i)"
    and guard: "conclude_guard scope i s"
  shows "if conclude_rows_free scope i s
    then \<exists>s' results. run_statements (conclusionStatements scope i) s = Inr (s', results)
      \<and> core s' = core (concluded scope i s)
      \<and> approval_requests s' = approval_requests (concluded scope i s)
    else \<exists>e. run_statements (conclusionStatements scope i) s = Inl e"
proof -
  let ?c = "ci_conclusion i" and ?C = "conclusion_to_insert scope i"
    and ?A = "(ci_approval i)\<lparr>ap_app := s_app scope\<rparr>"
  let ?L = "\<lparr>lk_app = s_app scope, lk_conclusion = cn_id ?c, lk_request = ap_id (ci_approval i),
    lk_ordinal = 1, lk_at = cn_at ?c\<rparr>"
  define s1 where "s1 = s\<lparr>runs := set_where (\<lambda>x. rn_id x = cn_run ?c)
      (close_run (cn_at ?c) (cn_reason ?c)) (runs s), changes := 1\<rparr>"
  define s2 where "s2 = s1\<lparr>experiments := set_where (\<lambda>x. ex_id x = cn_experiment ?c)
      (clear_live (cn_at ?c) (Some (cn_by ?c))) (experiments s), changes := 1\<rparr>"
  have q1: "endRunningRunStatement scope i s = Inr (s1, [cn_run ?c])"
    using guard by (simp add: conclude_end_statement[OF ok same] s1_def)
  have q2: "clearConcludedExperimentStatement scope i s1 = Inr (s2, [cn_experiment ?c])"
    unfolding s2_def by (rule conclude_clear_statement[OF ok same guard s1_def])
  have q3: "conclusionInsertStatement scope i s2 = (case conclusion_insertable s ?C of Some e \<Rightarrow> Inl e
      | None \<Rightarrow> Inr (s2\<lparr>experiment_conclusions := experiment_conclusions s @ [?C], changes := 1\<rparr>, [cn_id ?c]))"
    by (rule conclude_insert_statement[OF ok guard]) (simp add: s2_def s1_def)
  show ?thesis
  proof (cases "conclusion_insertable s ?C")
    case (Some e)
    then show ?thesis
      by (simp add: conclusionStatements_def Let_def q1 q2 q3 conclude_rows_free_def)
  next
    case None
    define s3 where "s3 = s2\<lparr>experiment_conclusions := experiment_conclusions s @ [?C], changes := 1\<rparr>"
    have q3': "conclusionInsertStatement scope i s2 = Inr (s3, [cn_id ?c])"
      by (simp add: q3 None s3_def)
    let ?g = "\<lambda>s. list_ex (\<lambda>x. cn_app x = s_app scope \<and> cn_id x = cn_id ?c) (experiment_conclusions s)"
    have "approval_insertable s3 ?A = approval_insertable s ?A"
      by (simp add: approval_insertable_def s3_def s2_def s1_def)
    then have q4: "approvalInsertStatement (s_app scope) (ci_approval i) ?g s3 =
        (case approval_insertable s ?A of Some e \<Rightarrow> Inl e
         | None \<Rightarrow> Inr (s3\<lparr>approval_requests := approval_requests s @ [?A], changes := 1\<rparr>, [ap_id (ci_approval i)]))"
      by (simp add: approvalInsertStatement_def insert_if_def s3_def s2_def s1_def conclusion_to_insert_def
          split: option.splits)
    show ?thesis
    proof (cases "approval_insertable s ?A")
      case (Some e)
      then show ?thesis
        by (simp add: conclusionStatements_def Let_def q1 q2 q3' q4 conclude_rows_free_def)
    next
      case free: None
      define s4 where "s4 = s3\<lparr>approval_requests := approval_requests s @ [?A], changes := 1\<rparr>"
      have q4': "approvalInsertStatement (s_app scope) (ci_approval i) ?g s3 = Inr (s4, [ap_id (ci_approval i)])"
        by (simp add: q4 free s4_def)
      have "list_ex (\<lambda>p. pp_id p = s_app scope) (apps s)"
        using None by (auto simp: conclusion_insertable_def conclusion_to_insert_def split: if_splits)
      then have "link_insertable s4 ?L = (if list_ex (\<lambda>l. lk_conclusion l = cn_id ?c \<and> lk_ordinal l = 1
          \<or> lk_request l = ap_id (ci_approval i)) (conclusion_approval_requests s) then Some UniqueViolation else None)"
        by (simp add: link_insertable_def s4_def s3_def s2_def s1_def conclusion_to_insert_def)
      then have q5: "linkInsertStatement (s_app scope) (cn_id ?c) (ap_id (ci_approval i)) 1 (cn_at ?c) s4 =
          (if conclude_rows_free scope i s
           then Inr (s4\<lparr>conclusion_approval_requests := conclusion_approval_requests s @ [?L], changes := 1\<rparr>,
             [ap_id (ci_approval i)])
           else Inl UniqueViolation)"
        using None free
        by (simp add: linkInsertStatement_def Let_def insert_if_def conclude_rows_free_def s4_def s3_def s2_def s1_def)
      define s5 where "s5 = s4\<lparr>conclusion_approval_requests := conclusion_approval_requests s @ [?L], changes := 1\<rparr>"
      have q5': "linkInsertStatement (s_app scope) (cn_id ?c) (ap_id (ci_approval i)) 1 (cn_at ?c) s4 =
          (if conclude_rows_free scope i s then Inr (s5, [ap_id (ci_approval i)]) else Inl UniqueViolation)"
        by (simp add: q5 s5_def)
      have q6: "atomicAssertion (ap_id (ci_approval i)) (cn_id ?c) 1 s5 = Inr (s5, [''1''])"
        by (simp add: atomicAssertion_def assert_stmt_def s5_def)
      have s5: "core s5 = core (concluded scope i s)" "approval_requests s5 = approval_requests (concluded scope i s)"
        by (simp_all add: core_def concluded_def Let_def s5_def s4_def s3_def s2_def s1_def)
      obtain s6 rs where q7: "run_statements (conclusionAuditStatements scope i) s5 = Inr (s6, rs)"
        "core s6 = core s5" "approval_requests s6 = approval_requests s5"
        using audit_statements_total by blast
      show ?thesis
        using s5 q7
        by (simp add: conclusionStatements_def Let_def q1 q2 q3' q4' q5' q6)
    qed
  qed
qed

end
