(* ===== verification/RunInvariant.thy ===== *)
theory RunInvariant
  imports RunLifecycle
begin

text \<open>
  Every operation of the Run lifecycle keeps the tables well formed, and what the rows of
  Runs may become: a snapshot never changes, and the only change of a Run row is the one
  from running to ended.
\<close>

section \<open>How Run rows evolve\<close>

definition run_evolves :: "run_row \<Rightarrow> run_row \<Rightarrow> bool" where
  "run_evolves r r' \<longleftrightarrow> r' = r
   \<or> rn_status r = ''running'' \<and> rn_status r' = ''ended'' \<and> rn_endedAt r' \<noteq> None
     \<and> rn_id r' = rn_id r \<and> rn_app r' = rn_app r \<and> rn_env r' = rn_env r
     \<and> rn_experiment r' = rn_experiment r \<and> rn_number r' = rn_number r \<and> rn_snapshot r' = rn_snapshot r"

lemma run_evolves_refl [simp]: "run_evolves r r"
  by (simp add: run_evolves_def)

lemma run_evolves_same:
  "run_evolves r r' \<Longrightarrow> rn_id r' = rn_id r \<and> rn_app r' = rn_app r \<and> rn_env r' = rn_env r
     \<and> rn_experiment r' = rn_experiment r \<and> rn_number r' = rn_number r \<and> rn_snapshot r' = rn_snapshot r"
  by (auto simp: run_evolves_def)

lemma run_evolves_trans: "run_evolves q r \<Longrightarrow> run_evolves r t \<Longrightarrow> run_evolves q t"
  unfolding run_evolves_def by auto

lemma run_evolves_end: "rn_status r = ''running'' \<Longrightarrow> run_evolves r (end_run t r)"
  "rn_status r = ''running'' \<Longrightarrow> run_evolves r (close_run t why r)"
  by (simp_all add: run_evolves_def end_run_def close_run_def)

lemma row_fields [simp]:
  "rn_id (end_run t r) = rn_id r" "rn_id (close_run t why r) = rn_id r"
  "rn_number (end_run t r) = rn_number r" "rn_number (close_run t why r) = rn_number r"
  "in_scope_run scope e (end_run t r) = in_scope_run scope e r"
  "in_scope_run scope e (close_run t why r) = in_scope_run scope e r"
  "run_of x (end_run t r) = run_of x r" "run_of x (close_run t why r) = run_of x r"
  "rn_status (end_run t r) = ''ended''" "rn_status (close_run t why r) = ''ended''"
  "rn_endedAt (end_run t r) = Some t" "rn_endedAt (close_run t why r) = Some t"
  "ex_id (point_at i x) = ex_id x" "ex_id (clear_live u b x) = ex_id x"
  "run_of (point_at i x) r = run_of x r" "run_of (clear_live u b x) r = run_of x r"
  "ex_status (point_at i x) = ''running''" "ex_status (clear_live u b x) = ''draft''"
  "ex_liveRun (point_at i x) = Some (si_runId i)" "ex_liveRun (clear_live u b x) = None"
  by (simp_all add: end_run_def close_run_def in_scope_run_def run_of_def point_at_def clear_live_def)

text \<open>Numbering by appending: the next number is one more than the count.\<close>

lemma foldr_max_below: "int n \<le> a \<Longrightarrow> foldr max (map int [1..<Suc n]) a = a"
  by (induction n) (simp_all add: max_def)

lemma foldr_max_upt: "foldr max (map int [1..<Suc n]) (0::int) = int n"
proof (cases n)
  case (Suc m)
  have "foldr max (map int [1..<Suc m]) (int n) = int n" by (rule foldr_max_below) (simp add: Suc)
  then show ?thesis by (simp add: Suc)
qed simp

lemma numbers_set_where:
  "\<lbrakk>\<And>r. rn_number (f r) = rn_number r; \<And>r. in_scope_run scope e (f r) = in_scope_run scope e r\<rbrakk> \<Longrightarrow>
   map rn_number (filter (in_scope_run scope e) (set_where P f rs)) = map rn_number (filter (in_scope_run scope e) rs)"
  by (induction rs) (auto simp: set_where_def)

lemma numbered_next:
  assumes "numbered ns" shows "numbered (ns @ [foldr max ns 0 + 1])"
proof -
  have "foldr max ns 0 = int (length ns)"
    using assms foldr_max_upt[of "length ns"] by (simp only: numbered_def)
  then show ?thesis
    using assms by (simp add: numbered_def)
qed

lemma numbers_same:
  assumes "numbers_ok s" "\<And>scope e. map rn_number (filter (in_scope_run scope e) (runs s')) =
      map rn_number (filter (in_scope_run scope e) (runs s))"
  shows "numbers_ok s'"
  using assms by (simp add: numbers_ok_def)

section \<open>Each operation keeps the invariant\<close>

subsection \<open>Start\<close>

lemma draft_row_unique:
  assumes "lifecycle_ok s" "startGuard scope i s"
  obtains e where "e \<in> set (experiments s)" "draft_row scope i e"
    "\<And>x. x \<in> set (experiments s) \<Longrightarrow> draft_row scope i x \<longleftrightarrow> x = e"
proof -
  obtain e where e: "e \<in> set (experiments s)" "draft_row scope i e"
    using assms(2) by (auto simp: startGuard_def list_ex_iff)
  have "ex_id x = si_experiment i \<longleftrightarrow> x = e" if "x \<in> set (experiments s)" for x
    using experiment_by_id[OF assms(1) that e(1)] e(2) by (auto simp: draft_row_def)
  then have "draft_row scope i x \<longleftrightarrow> x = e" if "x \<in> set (experiments s)" for x
    using that e(2) by (auto simp: draft_row_def)
  with that e show ?thesis by blast
qed

text \<open>
  The shape of a committed Start: the running Run of the Experiment \<open>e\<close> is ended, the new Run
  \<open>r\<close> is appended, and \<open>e\<close> points at it.
\<close>

definition starts_at :: "experiment_row \<Rightarrow> run_row \<Rightarrow> env_scope \<Rightarrow> start_input \<Rightarrow> db \<Rightarrow> db \<Rightarrow> bool" where
  "starts_at e r scope i s s' \<longleftrightarrow> e \<in> set (experiments s) \<and> draft_row scope i e
   \<and> rn_id r = si_runId i \<and> run_of e r \<and> rn_status r = ''running'' \<and> rn_endedAt r = None
   \<and> rn_id r \<notin> rn_id ` set (runs s)
   \<and> rn_number r = next_run_number scope (si_experiment i) s
   \<and> rn_snapshot r = (si_snapshot i)\<lparr>sn_control := sd_defaultVariant (si_draft i)\<rparr>
   \<and> runs s' = set_where (\<lambda>q. run_of e q \<and> rn_status q = ''running'') (end_run (si_endedAt i)) (runs s) @ [r]
   \<and> experiments s' = set_where (\<lambda>x. x = e) (point_at i) (experiments s)
   \<and> run_srm_alarms s' = run_srm_alarms s \<and> experiment_conclusions s' = experiment_conclusions s
   \<and> conclusion_approval_requests s' = conclusion_approval_requests s"

lemma start_shape:
  assumes ok: "lifecycle_ok s" and guard: "startGuard scope i s" and eff: "started_core scope i s s'"
  obtains e r where "starts_at e r scope i s s'"
proof -
  obtain e where e: "e \<in> set (experiments s)" "draft_row scope i e"
    and dr: "\<And>x. x \<in> set (experiments s) \<Longrightarrow> draft_row scope i x \<longleftrightarrow> x = e"
    by (rule draft_row_unique[OF ok guard]) (rule that; assumption)
  have sc: "ex_id e = si_experiment i" "ex_app e = s_app scope" "ex_env e = s_env scope"
    using e(2) by (auto simp: draft_row_def)
  have cur: "current_run scope (si_experiment i) = (\<lambda>q. run_of e q \<and> rn_status q = ''running'')"
    "in_scope_run scope (si_experiment i) = run_of e"
    using sc by (auto simp: current_run_def in_scope_run_def run_of_def fun_eq_iff)
  have exps: "set_where (draft_row scope i) (point_at i) (experiments s) =
      set_where (\<lambda>x. x = e) (point_at i) (experiments s)"
    by (rule set_where_cong) (rule dr)
  obtain r where r: "rn_id r = si_runId i" "run_of e r" "rn_status r = ''running''"
      "rn_number r = next_run_number scope (si_experiment i) s"
      "rn_snapshot r = (si_snapshot i)\<lparr>sn_control := sd_defaultVariant (si_draft i)\<rparr>" "rn_endedAt r = None"
      "runs s' = set_where (\<lambda>q. run_of e q \<and> rn_status q = ''running'') (end_run (si_endedAt i)) (runs s) @ [r]"
    using eff unfolding started_core_def cur by blast
  have "starts_at e r scope i s s'"
    unfolding starts_at_def using e r eff[unfolded started_core_def exps] by (intro conjI) simp_all
  then show ?thesis by (rule that)
qed

lemma starts_at_run:
  assumes "starts_at e r scope i s s'" "q' \<in> set (runs s')"
  obtains (new) "q' = r"
    | (old) q where "q \<in> set (runs s)" "q' = (if run_of e q \<and> rn_status q = ''running'' then end_run (si_endedAt i) q else q)"
  using assms by (auto simp: starts_at_def)

lemma starts_at_kept:
  "\<lbrakk>starts_at e r scope i s s'; q \<in> set (runs s); \<not> (run_of e q \<and> rn_status q = ''running'')\<rbrakk> \<Longrightarrow> q \<in> set (runs s')"
  by (auto simp: starts_at_def image_iff)

lemma start_keeps_experiments:
  assumes ok: "lifecycle_ok s" and at: "starts_at e r scope i s s'"
  shows "experiments_ok s'"
  unfolding experiments_ok_def
proof (intro conjI ballI)
  show "distinct (map ex_id (experiments s'))"
    using ok at by (simp add: starts_at_def map_set_where experiments_ok_def lifecycle_ok_def)
next
  fix x' assume "x' \<in> set (experiments s')"
  then obtain x where x: "x \<in> set (experiments s)" "x' = (if x = e then point_at i x else x)"
    using at by (auto simp: starts_at_def)
  have base: "ex_status x \<in> {''draft'', ''running'', ''archived''}"
    "(ex_status x = ''running'') = (ex_liveRun x \<noteq> None)"
    using ok x(1) by (auto simp: experiments_ok_def lifecycle_ok_def)
  then show "ex_status x' \<in> {''draft'', ''running'', ''archived''}"
    "(ex_status x' = ''running'') = (ex_liveRun x' \<noteq> None)"
    using x(2) by auto
  have "\<exists>q\<in>set (runs s'). rn_id q = y \<and> run_of x' q \<and> rn_status q = ''running''" if y: "ex_liveRun x' = Some y" for y
  proof (cases "x = e")
    case True
    then show ?thesis using x(2) at y by (auto simp: starts_at_def)
  next
    case False
    then obtain q where q: "q \<in> set (runs s)" "rn_id q = y" "run_of x q" "rn_status q = ''running''"
      using live_is_running[OF ok x(1)] x(2) y by metis
    have "ex_id x \<noteq> ex_id e"
      using experiment_by_id[OF ok x(1)] at False by (auto simp: starts_at_def)
    then have "\<not> run_of e q" using q(3) by (auto simp: run_of_def)
    with starts_at_kept[OF at q(1)] q x(2) False show ?thesis by auto
  qed
  then show "\<forall>y. ex_liveRun x' = Some y \<longrightarrow>
      (\<exists>q\<in>set (runs s'). rn_id q = y \<and> run_of x' q \<and> rn_status q = ''running'')" by blast
qed

lemma start_keeps_runs:
  assumes ok: "lifecycle_ok s" and at: "starts_at e r scope i s s'"
  shows "runs_ok s'"
  unfolding runs_ok_def
proof (intro conjI ballI)
  show "distinct (map rn_id (runs s'))"
    using ok at by (auto simp: starts_at_def map_set_where runs_ok_def lifecycle_ok_def)
next
  fix q' assume "q' \<in> set (runs s')"
  with at have "rn_status q' \<in> {''running'', ''ended''} \<and> (rn_status q' = ''running'') = (rn_endedAt q' = None)
    \<and> (\<exists>x\<in>set (experiments s'). run_of x q' \<and> (rn_status q' = ''running'' \<longrightarrow> ex_liveRun x = Some (rn_id q')))"
  proof (cases rule: starts_at_run)
    case new
    then show ?thesis using at by (auto simp: starts_at_def)
  next
    case (old q)
    obtain x where x: "x \<in> set (experiments s)" "run_of x q" "rn_status q = ''running'' \<longrightarrow> ex_liveRun x = Some (rn_id q)"
      and st: "rn_status q \<in> {''running'', ''ended''}" "(rn_status q = ''running'') = (rn_endedAt q = None)"
      using ok old(1) unfolding lifecycle_ok_def runs_ok_def by blast
    let ?x = "if x = e then point_at i x else x"
    have "?x \<in> set (experiments s')" using x(1) at by (auto simp: starts_at_def)
    moreover have "run_of ?x q'" using x(2) old(2) by (cases "x = e"; cases "run_of e q \<and> rn_status q = ''running''") simp_all
    moreover have "rn_status q' = ''running'' \<longrightarrow> ex_liveRun ?x = Some (rn_id q')"
      using x old(2) by auto
    ultimately show ?thesis using st old(2) by auto
  qed
  then show "rn_status q' \<in> {''running'', ''ended''}" "(rn_status q' = ''running'') = (rn_endedAt q' = None)"
    "\<exists>x\<in>set (experiments s'). run_of x q' \<and> (rn_status q' = ''running'' \<longrightarrow> ex_liveRun x = Some (rn_id q'))"
    by blast+
qed

lemma start_keeps_numbers:
  assumes ok: "lifecycle_ok s" and at: "starts_at e r scope i s s'"
  shows "numbers_ok s'"
  unfolding numbers_ok_def
proof (intro allI)
  fix sc :: env_scope and x
  let ?ns = "map rn_number (filter (in_scope_run sc x) (runs s))"
  have ns: "numbered ?ns"
    using ok by (simp add: numbers_ok_def lifecycle_ok_def)
  have "map rn_number (filter (in_scope_run sc x) (runs s')) =
      ?ns @ (if in_scope_run sc x r then [rn_number r] else [])"
    using at by (simp add: starts_at_def numbers_set_where)
  moreover have "rn_number r = foldr max ?ns 0 + 1" if "in_scope_run sc x r"
  proof -
    have "in_scope_run sc x = in_scope_run scope (si_experiment i)"
      using that at by (auto simp: in_scope_run_def starts_at_def draft_row_def run_of_def fun_eq_iff)
    then show ?thesis using at by (simp add: starts_at_def next_run_number_def)
  qed
  ultimately show "numbered (map rn_number (filter (in_scope_run sc x) (runs s')))"
    using ns numbered_next[OF ns] by (cases "in_scope_run sc x r") simp_all
qed

text \<open>Conclusions depend on ended Runs only, which no operation but the purge takes away.\<close>

lemma conclusions_kept:
  assumes "conclusions_ok s" "experiment_conclusions s' = experiment_conclusions s"
    and "set (conclusion_approval_requests s) \<subseteq> set (conclusion_approval_requests s')"
    and "\<And>q. q \<in> set (runs s) \<Longrightarrow> rn_status q = ''ended'' \<Longrightarrow> rn_id q \<in> cn_run ` set (experiment_conclusions s) \<Longrightarrow> q \<in> set (runs s')"
  shows "conclusions_ok s'"
  unfolding conclusions_ok_def assms(2)
proof (intro conjI ballI)
  show "distinct (map cn_run (experiment_conclusions s))" using assms(1) by (simp add: conclusions_ok_def)
next
  fix c assume c: "c \<in> set (experiment_conclusions s)"
  then obtain q where q: "q \<in> set (runs s)" "rn_id q = cn_run c" "rn_app q = cn_app c" "rn_env q = cn_env c"
    "rn_experiment q = cn_experiment c" "rn_status q = ''ended''" "rn_endedAt q = Some (cn_at c)"
    using assms(1) unfolding conclusions_ok_def by blast
  then have "q \<in> set (runs s')" using c by (intro assms(4)) auto
  with q show "\<exists>q\<in>set (runs s'). rn_id q = cn_run c \<and> rn_app q = cn_app c \<and> rn_env q = cn_env c
      \<and> rn_experiment q = cn_experiment c \<and> rn_status q = ''ended'' \<and> rn_endedAt q = Some (cn_at c)" by blast
  show "\<exists>l\<in>set (conclusion_approval_requests s'). lk_conclusion l = cn_id c \<and> lk_ordinal l = 1"
    using assms(1,3) c unfolding conclusions_ok_def by blast
qed

lemma start_keeps:
  assumes "lifecycle_ok s" "startGuard scope i s" "started_core scope i s s'"
  shows "lifecycle_ok s'"
proof -
  obtain e r where at: "starts_at e r scope i s s'" using start_shape[OF assms] .
  have "conclusions_ok s'"
  proof (rule conclusions_kept)
    show "conclusions_ok s" using assms(1) by (simp add: lifecycle_ok_def)
  qed (use at starts_at_kept[OF at] in \<open>auto simp: starts_at_def\<close>)
  then show ?thesis
    using start_keeps_experiments[OF assms(1) at] start_keeps_runs[OF assms(1) at]
      start_keeps_numbers[OF assms(1) at] by (simp add: lifecycle_ok_def)
qed

subsection \<open>End and Conclude\<close>

lemma live_rows:
  assumes "lifecycle_ok s" "live_at scope e r s"
  obtains x q where "x \<in> set (experiments s)" "ex_id x = e" "ex_liveRun x = Some r" "ex_app x = s_app scope"
    "ex_env x = s_env scope" "q \<in> set (runs s)" "rn_id q = r" "run_of x q" "rn_status q = ''running''"
  using assms live_is_running[OF assms(1)] unfolding live_at_def list_ex_iff live_experiment_def
  by (metis sql_eq_Some)

lemma ended_keeps_experiments:
  assumes ok: "lifecycle_ok s" and live: "live_at scope e r s" and eff: "ended_core e r at' why uat uby s s'"
  shows "experiments_ok s'"
  unfolding experiments_ok_def
proof (intro conjI ballI)
  show "distinct (map ex_id (experiments s'))"
    using ok eff by (simp add: ended_core_def map_set_where experiments_ok_def lifecycle_ok_def)
next
  obtain x0 q0 where 0: "x0 \<in> set (experiments s)" "ex_id x0 = e" "q0 \<in> set (runs s)" "rn_id q0 = r" "run_of x0 q0"
    by (rule live_rows[OF ok live]) (rule that; assumption)
  fix x' assume "x' \<in> set (experiments s')"
  then obtain x where x: "x \<in> set (experiments s)" "x' = (if ex_id x = e then clear_live uat uby x else x)"
    using eff by (auto simp: ended_core_def)
  have base: "ex_status x \<in> {''draft'', ''running'', ''archived''}"
    "(ex_status x = ''running'') = (ex_liveRun x \<noteq> None)"
    using ok x(1) by (auto simp: experiments_ok_def lifecycle_ok_def)
  then show "ex_status x' \<in> {''draft'', ''running'', ''archived''}"
    "(ex_status x' = ''running'') = (ex_liveRun x' \<noteq> None)"
    using x(2) by auto
  have "\<exists>q\<in>set (runs s'). rn_id q = y \<and> run_of x' q \<and> rn_status q = ''running''" if y: "ex_liveRun x' = Some y" for y
  proof -
    have ne: "ex_id x \<noteq> e" "x' = x" using x(2) y by (auto split: if_splits)
    then obtain q where q: "q \<in> set (runs s)" "rn_id q = y" "run_of x q" "rn_status q = ''running''"
      using live_is_running[OF ok x(1)] y by metis
    have "rn_id q \<noteq> r"
      using run_by_id[OF ok q(1) 0(3)] 0 q(3) ne by (auto simp: run_of_def)
    with q eff ne show ?thesis by (auto simp: ended_core_def image_iff)
  qed
  then show "\<forall>y. ex_liveRun x' = Some y \<longrightarrow>
      (\<exists>q\<in>set (runs s'). rn_id q = y \<and> run_of x' q \<and> rn_status q = ''running'')" by blast
qed

lemma ended_keeps_runs:
  assumes ok: "lifecycle_ok s" and live: "live_at scope e r s" and eff: "ended_core e r at' why uat uby s s'"
  shows "runs_ok s'"
  unfolding runs_ok_def
proof (intro conjI ballI)
  show "distinct (map rn_id (runs s'))"
    using ok eff by (simp add: ended_core_def map_set_where runs_ok_def lifecycle_ok_def)
next
  obtain x0 where x0: "x0 \<in> set (experiments s)" "ex_id x0 = e" "ex_liveRun x0 = Some r"
    by (rule live_rows[OF ok live]) (rule that; assumption)
  fix q' assume "q' \<in> set (runs s')"
  then obtain q where q: "q \<in> set (runs s)" "q' = (if rn_id q = r then close_run at' why q else q)"
    using eff by (auto simp: ended_core_def)
  obtain x where x: "x \<in> set (experiments s)" "run_of x q" "rn_status q = ''running'' \<longrightarrow> ex_liveRun x = Some (rn_id q)"
    and st: "rn_status q \<in> {''running'', ''ended''}" "(rn_status q = ''running'') = (rn_endedAt q = None)"
    using ok q(1) unfolding lifecycle_ok_def runs_ok_def by blast
  let ?x = "if ex_id x = e then clear_live uat uby x else x"
  have "?x \<in> set (experiments s')" using x(1) eff by (auto simp: ended_core_def)
  moreover have "run_of ?x q'" using x(2) q(2) by (cases "ex_id x = e"; cases "rn_id q = r") simp_all
  moreover have "ex_liveRun ?x = Some (rn_id q')" if "rn_status q' = ''running''"
  proof -
    have "rn_id q \<noteq> r" "q' = q" using that q(2) by (auto split: if_splits)
    moreover from this have "ex_id x \<noteq> e"
      using that x x0 experiment_by_id[OF ok x(1) x0(1)] by auto
    ultimately show ?thesis using that x(3) by simp
  qed
  ultimately show "\<exists>x\<in>set (experiments s'). run_of x q' \<and> (rn_status q' = ''running'' \<longrightarrow> ex_liveRun x = Some (rn_id q'))"
    by blast
  show "rn_status q' \<in> {''running'', ''ended''}" "(rn_status q' = ''running'') = (rn_endedAt q' = None)"
    using st q(2) by auto
qed

lemma ended_keeps_numbers:
  "\<lbrakk>numbers_ok s; ended_core e r at' why uat uby s s'\<rbrakk> \<Longrightarrow> numbers_ok s'"
  by (rule numbers_same) (auto simp: ended_core_def numbers_set_where)

lemma ended_run_kept:
  assumes "lifecycle_ok s" "live_at scope e r s" "ended_core e r at' why uat uby s s'"
    "q \<in> set (runs s)" "rn_status q = ''ended''"
  shows "q \<in> set (runs s')"
proof -
  obtain q0 where q0: "q0 \<in> set (runs s)" "rn_id q0 = r" "rn_status q0 = ''running''"
    by (rule live_rows[OF assms(1,2)]) (rule that; assumption)
  then have "rn_id q \<noteq> r" using run_by_id[OF assms(1,4) q0(1)] assms(5) by auto
  then show ?thesis using assms(3,4) by (auto simp: ended_core_def image_iff)
qed

lemma end_keeps:
  assumes ok: "lifecycle_ok s" and live: "live_at scope e r s" and eff: "ended_core e r at' why uat uby s s'"
    and same: "experiment_conclusions s' = experiment_conclusions s"
      "conclusion_approval_requests s' = conclusion_approval_requests s"
  shows "lifecycle_ok s'"
proof -
  have "conclusions_ok s'"
  proof (rule conclusions_kept)
    show "conclusions_ok s" using ok by (simp add: lifecycle_ok_def)
  qed (simp_all add: same ended_run_kept[OF ok live eff])
  then show ?thesis
    using ended_keeps_experiments[OF ok live eff] ended_keeps_runs[OF ok live eff] ended_keeps_numbers[OF _ eff] ok
    by (simp add: lifecycle_ok_def)
qed

text \<open>The rows a conclusion ends are those of its Run and its Experiment.\<close>

lemma concluded_core: "ended_core (cn_experiment (ci_conclusion i)) (cn_run (ci_conclusion i)) (cn_at (ci_conclusion i))
    (cn_reason (ci_conclusion i)) (cn_at (ci_conclusion i)) (Some (cn_by (ci_conclusion i))) s (concluded scope i s)"
  by (simp add: ended_core_def concluded_def Let_def)

lemma conclude_keeps:
  assumes ok: "lifecycle_ok s" and guard: "conclude_guard scope i s" and free: "conclude_rows_free scope i s"
  shows "lifecycle_ok (concluded scope i s)"
proof -
  let ?c = "ci_conclusion i" and ?C = "conclusion_to_insert scope i" and ?s = "concluded scope i s"
  have live: "live_at scope (cn_experiment ?c) (cn_run ?c) s" using guard by (simp add: conclude_guard_def)
  note eff = concluded_core[of i s scope]
  have lists: "experiment_conclusions ?s = experiment_conclusions s @ [?C]"
    "set (conclusion_approval_requests s) \<subseteq> set (conclusion_approval_requests ?s)"
    by (auto simp: concluded_def Let_def)
  have "conclusions_ok (?s\<lparr>experiment_conclusions := experiment_conclusions s\<rparr>)"
  proof (rule conclusions_kept)
    show "conclusions_ok s" using ok by (simp add: lifecycle_ok_def)
  qed (use lists(2) in \<open>simp_all add: ended_run_kept[OF ok live eff]\<close>)
  moreover have "cn_run ?C \<notin> cn_run ` set (experiment_conclusions s)"
    using free by (auto simp: conclude_rows_free_def conclusion_insertable_def list_ex_iff split: if_splits)
  moreover obtain x q where "q \<in> set (runs s)" "rn_id q = cn_run ?c" "run_of x q"
      "ex_id x = cn_experiment ?c" "ex_app x = s_app scope" "ex_env x = s_env scope"
    by (rule live_rows[OF ok live]) (rule that; assumption)
  then have "\<exists>r\<in>set (runs ?s). rn_id r = cn_run ?C \<and> rn_app r = cn_app ?C \<and> rn_env r = cn_env ?C
      \<and> rn_experiment r = cn_experiment ?C \<and> rn_status r = ''ended'' \<and> rn_endedAt r = Some (cn_at ?C)"
    by (intro bexI[of _ "close_run (cn_at ?c) (cn_reason ?c) q"])
      (auto simp: concluded_def Let_def conclusion_to_insert_def run_of_def close_run_def image_iff)
  moreover have "\<exists>l\<in>set (conclusion_approval_requests ?s). lk_conclusion l = cn_id ?C \<and> lk_ordinal l = 1"
    by (simp add: concluded_def Let_def conclusion_to_insert_def)
  ultimately have "conclusions_ok ?s"
    unfolding conclusions_ok_def lists by auto
  then show ?thesis
    using ended_keeps_experiments[OF ok live eff] ended_keeps_runs[OF ok live eff] ended_keeps_numbers[OF _ eff] ok
    by (simp add: lifecycle_ok_def)
qed

subsection \<open>Rows of Experiments alone\<close>

text \<open>
  Writes that leave the Runs alone: an update that keeps the key, the status and the live
  Run of every row it changes, or that archives a row without a live Run.
\<close>

lemma experiments_map_keeps:
  assumes ok: "lifecycle_ok s"
    and runs': "runs s' = runs s" "experiment_conclusions s' = experiment_conclusions s"
      "conclusion_approval_requests s' = conclusion_approval_requests s"
    and exps': "experiments s' = map f (experiments s)"
    and f: "\<And>x. x \<in> set (experiments s) \<Longrightarrow> ex_id (f x) = ex_id x \<and> ex_app (f x) = ex_app x \<and> ex_env (f x) = ex_env x
      \<and> ex_liveRun (f x) = ex_liveRun x
      \<and> (ex_status (f x) = ex_status x \<or> ex_status (f x) = ''archived'' \<and> ex_liveRun x = None)"
  shows "lifecycle_ok s'"
proof -
  have ids: "map ex_id (experiments s') = map ex_id (experiments s)"
    unfolding exps' using f by simp
  have ro: "run_of (f x) q = run_of x q" if "x \<in> set (experiments s)" for x q
    using f[OF that] by (simp add: run_of_def)
  have "experiments_ok s'"
    unfolding experiments_ok_def
  proof (intro conjI ballI)
    show "distinct (map ex_id (experiments s'))"
      using ok unfolding ids by (simp add: lifecycle_ok_def experiments_ok_def)
  next
    fix x' assume "x' \<in> set (experiments s')"
    then obtain x where x: "x \<in> set (experiments s)" "x' = f x" by (auto simp: exps')
    have base: "ex_status x \<in> {''draft'', ''running'', ''archived''}"
      "(ex_status x = ''running'') = (ex_liveRun x \<noteq> None)"
      "\<forall>y. ex_liveRun x = Some y \<longrightarrow> (\<exists>r\<in>set (runs s). rn_id r = y \<and> run_of x r \<and> rn_status r = ''running'')"
      using ok x(1) unfolding lifecycle_ok_def experiments_ok_def by blast+
    show "ex_status x' \<in> {''draft'', ''running'', ''archived''}"
      using f[OF x(1)] base(1) by (auto simp: x(2))
    show "(ex_status x' = ''running'') = (ex_liveRun x' \<noteq> None)"
      using f[OF x(1)] base(2) by (auto simp: x(2))
    show "\<forall>y. ex_liveRun x' = Some y \<longrightarrow> (\<exists>r\<in>set (runs s'). rn_id r = y \<and> run_of x' r \<and> rn_status r = ''running'')"
      using base(3) f[OF x(1)] ro[OF x(1)] by (simp add: x(2) runs')
  qed
  moreover have "runs_ok s'"
    unfolding runs_ok_def runs'
  proof (intro conjI ballI)
    show "distinct (map rn_id (runs s))" using ok by (simp add: lifecycle_ok_def runs_ok_def)
  next
    fix q assume q: "q \<in> set (runs s)"
    then obtain x where x: "x \<in> set (experiments s)" "run_of x q" "rn_status q = ''running'' \<longrightarrow> ex_liveRun x = Some (rn_id q)"
      using ok unfolding lifecycle_ok_def runs_ok_def by blast
    show "\<exists>x\<in>set (experiments s'). run_of x q \<and> (rn_status q = ''running'' \<longrightarrow> ex_liveRun x = Some (rn_id q))"
      using x f[OF x(1)] ro[OF x(1)] by (intro bexI[of _ "f x"]) (simp_all add: exps')
    show "rn_status q \<in> {''running'', ''ended''}" "(rn_status q = ''running'') = (rn_endedAt q = None)"
      using ok q unfolding lifecycle_ok_def runs_ok_def by blast+
  qed
  ultimately show ?thesis
    using ok by (simp add: lifecycle_ok_def numbers_ok_def conclusions_ok_def runs')
qed

lemma patched_fields [simp]:
  "ex_id (patched p x) = ex_id x" "ex_app (patched p x) = ex_app x" "ex_env (patched p x) = ex_env x"
  "ex_liveRun (patched p x) = ex_liveRun x" "ex_status (patched p x) = ex_status x"
  by (simp_all add: patched_def)

lemma update_keeps:
  assumes "lifecycle_ok s" shows "lifecycle_ok (snd (updateExperiment scope e p l s))"
proof -
  let ?P = "\<lambda>x. ex_app x = s_app scope \<and> ex_env x = s_env scope \<and> ex_id x = e \<and> ex_liveRun x = l"
  have "lifecycle_ok (s\<lparr>experiments := set_where ?P (patched p) (experiments s), changes := n\<rparr>)" for n
    by (rule experiments_map_keeps[OF assms, where f = "\<lambda>x. if ?P x then patched p x else x"])
      (auto simp: set_where_def)
  then show ?thesis using assms by (simp add: updateExperiment_def Let_def)
qed

lemma archive_keeps:
  assumes "lifecycle_ok s" shows "lifecycle_ok (snd (archiveExperiment scope e t u s))"
proof -
  let ?P = "\<lambda>x. ex_app x = s_app scope \<and> ex_env x = s_env scope \<and> ex_id x = e
    \<and> ex_liveRun x = None \<and> ex_status x \<noteq> ''archived''
    \<and> \<not> list_ex (\<lambda>r. in_scope_run scope e r \<and> rn_status r = ''running'') (runs s)"
  let ?f = "\<lambda>x. x\<lparr>ex_status := ''archived'', ex_liveRun := None, ex_updatedAt := t, ex_updatedBy := Some u\<rparr>"
  have "lifecycle_ok (s\<lparr>experiments := set_where ?P ?f (experiments s), changes := n\<rparr>)" for n
    by (rule experiments_map_keeps[OF assms, where f = "\<lambda>x. if ?P x then ?f x else x"])
      (auto simp: set_where_def)
  then show ?thesis by (simp add: archiveExperiment_def Let_def)
qed

lemma create_keeps:
  assumes ok: "lifecycle_ok s" shows "lifecycle_ok (snd (insertExperiment scope (created_row e) s))"
proof (cases "experiment_insertable s ((created_row e)\<lparr>ex_app := s_app scope, ex_env := s_env scope\<rparr>)")
  case None
  let ?row = "(created_row e)\<lparr>ex_app := s_app scope, ex_env := s_env scope\<rparr>"
  have row: "ex_status ?row = ''draft''" "ex_liveRun ?row = None" by (simp_all add: created_row_def)
  have fresh: "ex_id ?row \<notin> ex_id ` set (experiments s)"
    using None by (auto simp: experiment_insertable_def list_ex_iff split: if_splits)
  let ?s = "s\<lparr>experiments := experiments s @ [?row], changes := 1\<rparr>"
  have "experiments_ok ?s"
    using ok fresh row by (auto simp: lifecycle_ok_def experiments_ok_def)
  moreover have "runs_ok ?s"
    using ok by (auto simp: lifecycle_ok_def runs_ok_def)
  ultimately have "lifecycle_ok ?s"
    using ok by (simp add: lifecycle_ok_def numbers_ok_def conclusions_ok_def)
  then show ?thesis using None by (simp add: insertExperiment_def Let_def)
qed (simp add: insertExperiment_def Let_def ok)

subsection \<open>Purge\<close>

lemma purge_shape:
  assumes "purgeArchivedExperimentsInEnvironment scope s = (Inr (), s')"
  shows "runs s' = delete_where (purged_run scope s) (runs s)"
    "experiments s' = delete_where (\<lambda>e. ex_app e = s_app scope \<and> ex_env e = s_env scope \<and> ex_status e = ''archived'') (experiments s)"
    "experiment_conclusions s' = experiment_conclusions s"
    "conclusion_approval_requests s' = conclusion_approval_requests s"
    "\<And>r c. \<lbrakk>r \<in> set (runs s); c \<in> set (experiment_conclusions s); cn_run c = rn_id r\<rbrakk> \<Longrightarrow> \<not> purged_run scope s r"
    "run_srm_alarms s' = delete_where (\<lambda>a. al_app a = s_app scope \<and> al_env a = s_env scope
       \<and> list_ex (\<lambda>r. purged_run scope s r \<and> rn_id r = al_run a) (runs s)) (run_srm_alarms s)"
proof -
  obtain results where "run_statements [purgeAlarmsStatement scope, purgeRunsStatement scope, purgeExperimentsStatement scope] s
      = Inr (s', results)"
    using assms by (auto simp: purgeArchivedExperimentsInEnvironment_def d1_batch_def
        simp del: run_statements.simps split: sum.splits prod.splits)
  moreover have "purged_run scope (s\<lparr>run_srm_alarms := a, changes := n\<rparr>) = purged_run scope s" for a n
    by (simp add: purged_run_def archived_ids_def fun_eq_iff)
  ultimately show "runs s' = delete_where (purged_run scope s) (runs s)"
    "experiments s' = delete_where (\<lambda>e. ex_app e = s_app scope \<and> ex_env e = s_env scope \<and> ex_status e = ''archived'') (experiments s)"
    "experiment_conclusions s' = experiment_conclusions s"
    "conclusion_approval_requests s' = conclusion_approval_requests s"
    "\<And>r c. \<lbrakk>r \<in> set (runs s); c \<in> set (experiment_conclusions s); cn_run c = rn_id r\<rbrakk> \<Longrightarrow> \<not> purged_run scope s r"
    "run_srm_alarms s' = delete_where (\<lambda>a. al_app a = s_app scope \<and> al_env a = s_env scope
       \<and> list_ex (\<lambda>r. purged_run scope s r \<and> rn_id r = al_run a) (runs s)) (run_srm_alarms s)"
    by (auto simp: purgeAlarmsStatement_def purgeRunsStatement_def purgeExperimentsStatement_def Let_def
        list_ex_iff split: if_splits)
qed

lemma filter_delete_where:
  "(\<And>r. P r \<Longrightarrow> \<not> Q r) \<Longrightarrow> filter Q (delete_where P rows) = filter Q rows"
  "(\<And>r. r \<in> set rows \<Longrightarrow> Q r \<Longrightarrow> P r) \<Longrightarrow> filter Q (delete_where P rows) = []"
  unfolding delete_where_def by (induction rows) auto

lemma purged_run_scope:
  "in_scope_run sc e r \<Longrightarrow> purged_run scope s r \<longleftrightarrow>
     s_app sc = s_app scope \<and> s_env sc = s_env scope \<and> e \<in> set (archived_ids scope s)"
  by (auto simp: purged_run_def in_scope_run_def)

lemma purge_keeps:
  assumes ok: "lifecycle_ok s" and purge: "purgeArchivedExperimentsInEnvironment scope s = (Inr (), s')"
  shows "lifecycle_ok s'"
proof -
  let ?A = "\<lambda>e. ex_app e = s_app scope \<and> ex_env e = s_env scope \<and> ex_status e = ''archived''"
  note shape = purge_shape[OF purge]
  have gone: "purged_run scope s q \<longleftrightarrow> ?A e" if "e \<in> set (experiments s)" "run_of e q" for e q
    using that experiment_by_id[OF ok that(1)]
    by (auto simp: purged_run_def archived_ids_def run_of_def)
  have "experiments_ok s'"
    unfolding experiments_ok_def
  proof (intro conjI ballI)
    show "distinct (map ex_id (experiments s'))"
      using ok by (simp add: shape(2) distinct_delete_where lifecycle_ok_def experiments_ok_def)
  next
    fix e assume "e \<in> set (experiments s')"
    then have e: "e \<in> set (experiments s)" "\<not> ?A e" by (auto simp: shape(2))
    then show "ex_status e \<in> {''draft'', ''running'', ''archived''}" "(ex_status e = ''running'') = (ex_liveRun e \<noteq> None)"
      using ok unfolding lifecycle_ok_def experiments_ok_def by blast+
    show "\<forall>x. ex_liveRun e = Some x \<longrightarrow> (\<exists>r\<in>set (runs s'). rn_id r = x \<and> run_of e r \<and> rn_status r = ''running'')"
    proof (intro allI impI)
      fix x assume "ex_liveRun e = Some x"
      then obtain q where "q \<in> set (runs s)" "rn_id q = x" "run_of e q" "rn_status q = ''running''"
        by (rule live_is_running[OF ok e(1)])
      with gone[OF e(1)] e(2) show "\<exists>r\<in>set (runs s'). rn_id r = x \<and> run_of e r \<and> rn_status r = ''running''"
        by (auto simp: shape(1))
    qed
  qed
  moreover have "runs_ok s'"
    unfolding runs_ok_def
  proof (intro conjI ballI)
    show "distinct (map rn_id (runs s'))"
      using ok by (simp add: shape(1) distinct_delete_where lifecycle_ok_def runs_ok_def)
  next
    fix q assume "q \<in> set (runs s')"
    then have q: "q \<in> set (runs s)" "\<not> purged_run scope s q" by (auto simp: shape(1))
    then show "rn_status q \<in> {''running'', ''ended''}" "(rn_status q = ''running'') = (rn_endedAt q = None)"
      using ok unfolding lifecycle_ok_def runs_ok_def by blast+
    obtain e where "e \<in> set (experiments s)" "run_of e q" "rn_status q = ''running'' \<longrightarrow> ex_liveRun e = Some (rn_id q)"
      using ok q(1) unfolding lifecycle_ok_def runs_ok_def by blast
    with gone q(2) show "\<exists>e\<in>set (experiments s'). run_of e q \<and> (rn_status q = ''running'' \<longrightarrow> ex_liveRun e = Some (rn_id q))"
      by (auto simp: shape(2))
  qed
  moreover have "numbers_ok s'"
    unfolding numbers_ok_def
  proof (intro allI)
    fix sc :: env_scope and e
    have all: "purged_run scope s r \<longleftrightarrow> s_app sc = s_app scope \<and> s_env sc = s_env scope
        \<and> e \<in> set (archived_ids scope s)" if "in_scope_run sc e r" for r
      using that by (rule purged_run_scope)
    have "filter (in_scope_run sc e) (runs s') = [] \<or>
        filter (in_scope_run sc e) (runs s') = filter (in_scope_run sc e) (runs s)"
      unfolding shape(1) by (cases "s_app sc = s_app scope \<and> s_env sc = s_env scope \<and> e \<in> set (archived_ids scope s)")
        (metis all filter_delete_where)+
    then show "numbered (map rn_number (filter (in_scope_run sc e) (runs s')))"
      using ok by (auto simp: lifecycle_ok_def numbers_ok_def numbered_def[of "[]"])
  qed
  moreover have "conclusions_ok s'"
  proof (rule conclusions_kept)
    show "conclusions_ok s" using ok by (simp add: lifecycle_ok_def)
  qed (use shape in auto)
  ultimately show ?thesis by (simp add: lifecycle_ok_def)
qed

subsection \<open>Promotion Requests and alarms\<close>

text \<open>A replacement only adds a link.\<close>

lemma replacement_shape:
  assumes "run_statements (replacementStatements app i) s = Inr (s', results)"
  shows "experiments s' = experiments s" "runs s' = runs s" "run_srm_alarms s' = run_srm_alarms s"
    "experiment_conclusions s' = experiment_conclusions s"
    "set (conclusion_approval_requests s) \<subseteq> set (conclusion_approval_requests s')"
proof -
  let ?I = "\<lambda>t. experiments t = experiments s \<and> runs t = runs s \<and> run_srm_alarms t = run_srm_alarms s
    \<and> experiment_conclusions t = experiment_conclusions s
    \<and> (\<exists>ls. conclusion_approval_requests t = conclusion_approval_requests s @ ls)"
  have "?I t'" if "q \<in> set (replacementStatements app i)" "?I t" "q t = Inr (t', rows)" for q t t' rows
    using that
    by (auto simp: replacementStatements_def markStaleStatement_def approvalInsertStatement_def linkInsertStatement_def
        atomicAssertion_def assert_stmt_def replacementAuditStatement_def auditStatement_def Let_def insert_if_Inr
        split: if_splits)
  then have "?I s'" using run_statements_keeps[OF assms, of ?I] by blast
  then show "experiments s' = experiments s" "runs s' = runs s" "run_srm_alarms s' = run_srm_alarms s"
    "experiment_conclusions s' = experiment_conclusions s"
    "set (conclusion_approval_requests s) \<subseteq> set (conclusion_approval_requests s')" by auto
qed

lemma same_runs_keeps:
  assumes "lifecycle_ok s" "experiments s' = experiments s" "runs s' = runs s"
    "experiment_conclusions s' = experiment_conclusions s"
    "set (conclusion_approval_requests s) \<subseteq> set (conclusion_approval_requests s')"
  shows "lifecycle_ok s'"
proof -
  have "conclusions_ok s'"
  proof (rule conclusions_kept)
    show "conclusions_ok s" using assms(1) by (simp add: lifecycle_ok_def)
  qed (use assms in auto)
  moreover have "experiments_ok s' = experiments_ok s" "runs_ok s' = runs_ok s" "numbers_ok s' = numbers_ok s"
    by (simp_all add: assms(2,3) experiments_ok_def runs_ok_def numbers_ok_def)
  ultimately show ?thesis using assms(1) by (simp add: lifecycle_ok_def)
qed

lemma alarm_shape:
  "core (snd (insertIgnore scope i s)) = core s
   \<or> (\<exists>a. al_run a = li_run i \<and> al_app a = s_app scope \<and> al_env a = s_env scope \<and>
        core (snd (insertIgnore scope i s)) = core (s\<lparr>run_srm_alarms := run_srm_alarms s @ [a]\<rparr>))"
  by (auto simp: insertIgnore_def Let_def core_def)

end
