(* ===== verification/RunMachine.thy ===== *)
theory RunMachine
  imports RunInvariant
begin

text \<open>
  The Run lifecycle as a machine: any interleaving of its batches, of the reads a PATCH
  handler makes, the decision it takes on them and the write that follows, and of changes
  other writers make to the tables this one only reads. Ids of Runs are random, so an id is
  never used twice; a Variant belongs to one Flag, given by the argument \<open>vf\<close>.
\<close>

section \<open>The machine\<close>

record world =
  w_db :: db
  w_ids :: "string list"
  w_reads :: "(env_scope \<times> experiment_row) list"
  w_writes :: "(env_scope \<times> string \<times> experiment_patch \<times> string option) list"

definition vf_ok :: "(string \<Rightarrow> string) \<Rightarrow> experiment_row \<Rightarrow> bool" where
  "vf_ok vf e \<longleftrightarrow> (\<forall>v. ex_defaultVariant e = Some v \<longrightarrow> vf v = ex_flag e)"

text \<open>
  A PATCH reads the Experiment, then decides on what it reads of its Runs, then writes.
  A create or a PATCH of the Flag takes the default Variant from that Flag's Configuration;
  Start passes the Flag and the default Variant of a row it read before; End and Conclude
  pass the id of the Run they end as the expected live Run.
\<close>

inductive lifecycle_step :: "(string \<Rightarrow> string) \<Rightarrow> world \<Rightarrow> world \<Rightarrow> bool" for vf where
  create: "vf_ok vf e \<Longrightarrow>
    lifecycle_step vf w (w\<lparr>w_db := snd (insertExperiment scope (created_row e) (w_db w))\<rparr>)"
| start: "\<lbrakk>(scope, e) \<in> set (w_reads w); si_runId i \<notin> set (w_ids w); si_flag i = ex_flag e;
      ex_defaultVariant e = Some (sd_defaultVariant (si_draft i))\<rbrakk> \<Longrightarrow>
    lifecycle_step vf w (w\<lparr>w_db := snd (runStartBatch scope i (w_db w)), w_ids := si_runId i # w_ids w\<rparr>)"
| end_run: "ei_expectedLive i = ei_run i \<Longrightarrow>
    lifecycle_step vf w (w\<lparr>w_db := snd (runEndBatch scope i h (w_db w))\<rparr>)"
| conclude: "ci_expectedLive c = cn_run (ci_conclusion c) \<Longrightarrow>
    lifecycle_step vf w (w\<lparr>w_db := snd (commit scope c (w_db w))\<rparr>)"
| replace: "lifecycle_step vf w (w\<lparr>w_db := snd (createReplacement app r (w_db w))\<rparr>)"
| alarm: "lifecycle_step vf w (w\<lparr>w_db := snd (insertIgnore scope a (w_db w))\<rparr>)"
| archive: "lifecycle_step vf w (w\<lparr>w_db := snd (archiveExperiment scope x t u (w_db w))\<rparr>)"
| purge: "lifecycle_step vf w (w\<lparr>w_db := snd (purgeArchivedExperimentsInEnvironment scope (w_db w))\<rparr>)"
| read: "\<lbrakk>e \<in> set (experiments (w_db w)); ex_app e = s_app scope; ex_env e = s_env scope\<rbrakk> \<Longrightarrow>
    lifecycle_step vf w (w\<lparr>w_reads := (scope, e) # w_reads w\<rparr>)"
| decide: "\<lbrakk>(scope, e) \<in> set (w_reads w); patch_decision scope e b dv now user (w_db w) = Inr (Inr p);
      \<And>f. pb_flag b = Some f \<Longrightarrow> \<exists>v. dv = Some v \<and> vf v = f\<rbrakk> \<Longrightarrow>
    lifecycle_step vf w (w\<lparr>w_writes := (scope, ex_id e, p, ex_liveRun e) # w_writes w\<rparr>)"
| patch: "(scope, x, p, l) \<in> set (w_writes w) \<Longrightarrow>
    lifecycle_step vf w (w\<lparr>w_db := snd (updateExperiment scope x p l (w_db w))\<rparr>)"
| others: "core s' = core (w_db w) \<Longrightarrow> lifecycle_step vf w (w\<lparr>w_db := s'\<rparr>)"

text \<open>A database before the first Experiment, whatever its other tables hold.\<close>

definition new_world :: "db \<Rightarrow> world" where
  "new_world s = \<lparr>w_db = s\<lparr>experiments := [], runs := [], run_srm_alarms := [], experiment_conclusions := [],
     conclusion_approval_requests := []\<rparr>, w_ids = [], w_reads = [], w_writes = []\<rparr>"

section \<open>What a batch makes of the rows\<close>

definition runs_evolve :: "string list \<Rightarrow> db \<Rightarrow> db \<Rightarrow> bool" where
  "runs_evolve ids s s' \<longleftrightarrow> (\<forall>r'\<in>set (runs s'). rn_id r' \<notin> set ids \<or> (\<exists>r\<in>set (runs s). run_evolves r r'))"

definition frozen_columns :: "experiment_row \<Rightarrow> string \<times> string \<times> string \<times> string option \<times> string option" where
  "frozen_columns e = (ex_flag e, ex_keyField e, ex_keyType e, ex_activation e, ex_defaultVariant e)"

text \<open>
  No row of an Experiment starts to run or changes the columns a live Run relies on: it
  descends from a row that already ran with the same columns, or it does not run.
\<close>

definition descends :: "experiment_row \<Rightarrow> experiment_row \<Rightarrow> bool" where
  "descends e e' \<longleftrightarrow> ex_id e' = ex_id e \<and> ex_app e' = ex_app e \<and> ex_env e' = ex_env e
     \<and> frozen_columns e' = frozen_columns e
     \<and> (ex_status e' = ''running'' \<longrightarrow> ex_status e = ''running'' \<and> ex_liveRun e' = ex_liveRun e)"

definition idle :: "(string \<Rightarrow> string) \<Rightarrow> experiment_row \<Rightarrow> bool" where
  "idle vf e \<longleftrightarrow> ex_status e \<noteq> ''running'' \<and> vf_ok vf e"

definition calm :: "(string \<Rightarrow> string) \<Rightarrow> db \<Rightarrow> db \<Rightarrow> bool" where
  "calm vf s s' \<longleftrightarrow> (\<forall>e'\<in>set (experiments s'). idle vf e' \<or> (\<exists>e\<in>set (experiments s). descends e e'))"

lemma descends_refl [simp]: "descends e e"
  by (simp add: descends_def)

lemma descends_member: "e' \<in> E \<Longrightarrow> \<exists>e\<in>E. descends e e'"
  using descends_refl by blast

lemma runs_evolve_same: "runs s' = runs s \<Longrightarrow> runs_evolve ids s s'"
  unfolding runs_evolve_def by (metis run_evolves_refl)

lemma calm_same: "experiments s' = experiments s \<Longrightarrow> calm vf s s'"
  by (auto simp: calm_def intro: descends_refl)

lemma calm_where:
  assumes "experiments s' = set_where P f (experiments s)"
    and "\<And>e. e \<in> set (experiments s) \<Longrightarrow> P e \<Longrightarrow> idle vf (f e) \<or> descends e (f e)"
  shows "calm vf s s'"
  unfolding calm_def
proof
  fix e' assume "e' \<in> set (experiments s')"
  then obtain e where e: "e \<in> set (experiments s)" "e' = (if P e then f e else e)"
    by (auto simp: assms(1))
  then have "idle vf e' \<or> descends e e'" using assms(2)[OF e(1)] by (cases "P e") simp_all
  with e(1) show "idle vf e' \<or> (\<exists>e\<in>set (experiments s). descends e e')" by blast
qed

lemma frozen_fields [simp]:
  "frozen_columns (clear_live t u e) = frozen_columns e"
  "frozen_columns (e\<lparr>ex_status := st, ex_liveRun := l, ex_updatedAt := t', ex_updatedBy := b\<rparr>) = frozen_columns e"
  "frozen_columns (point_at i e) = frozen_columns e"
  by (simp_all add: frozen_columns_def clear_live_def point_at_def)

text \<open>The outcome of each batch on a well-formed database.\<close>

lemma end_batch_shape:
  assumes "lifecycle_ok s" "ei_expectedLive i = ei_run i" "s' = snd (runEndBatch scope i h s)"
  shows "core s' = core s \<or> live_at scope (ei_experiment i) (ei_run i) s
    \<and> ended_core (ei_experiment i) (ei_run i) (ei_endedAt i) (ei_endReason i) (ei_updatedAt i) (ei_updatedBy i) s s'
    \<and> experiment_conclusions s' = experiment_conclusions s
    \<and> conclusion_approval_requests s' = conclusion_approval_requests s"
proof (cases "run_statements (end_statements scope i h) s")
  case (Inl e)
  then show ?thesis using assms(3) by (simp add: runEndBatch_def d1_batch_def)
next
  case (Inr p)
  then obtain t rs where "run_statements (end_statements scope i h) s = Inr (t, rs)" "s' = t"
    using assms(3) by (cases p) (simp add: runEndBatch_def d1_batch_def Let_def)
  with end_effect[OF assms(1,2) this(1)] show ?thesis by (auto split: if_splits)
qed

lemma conclude_batch:
  assumes "lifecycle_ok s" "ci_expectedLive c = cn_run (ci_conclusion c)"
  shows "if conclude_guard scope c s \<and> conclude_rows_free scope c s
    then (\<exists>rs s'. commit scope c s = (Committed rs, s') \<and> core s' = core (concluded scope c s)
      \<and> approval_requests s' = approval_requests (concluded scope c s))
    else snd (commit scope c s) = s \<and> (\<nexists>rs. fst (commit scope c s) = Committed rs)"
proof (cases "conclude_guard scope c s")
  case True
  show ?thesis
    using conclude_guarded[OF assms True] True
    by (auto simp: commit_def d1_batch_def split: if_splits option.splits)
next
  case False
  show ?thesis
    using conclude_unguarded[OF assms False] False
    by (auto simp: commit_def d1_batch_def split: option.splits)
qed

lemma start_batch_shape:
  assumes "lifecycle_ok s" "s' = snd (runStartBatch scope i s)"
  shows "core s' = core s \<or> startGuard scope i s \<and> started_core scope i s s'"
proof (cases "run_statements (start_statements scope i) s")
  case (Inl e)
  then show ?thesis using assms(2) by (simp add: runStartBatch_def d1_batch_def)
next
  case (Inr p)
  then obtain t rs where "run_statements (start_statements scope i) s = Inr (t, rs)" "s' = t"
    using assms(2) by (cases p) (simp add: runStartBatch_def d1_batch_def Let_def)
  with start_effect[OF this(1)] show ?thesis by (auto split: if_splits)
qed

lemma runs_evolve_core: "\<lbrakk>runs_evolve ids s t; core s' = core t\<rbrakk> \<Longrightarrow> runs_evolve ids s s'"
  by (simp add: runs_evolve_def core_eq)

lemma calm_core: "\<lbrakk>calm vf s t; core s' = core t\<rbrakk> \<Longrightarrow> calm vf s s'"
  by (simp add: calm_def core_eq)

lemma ended_evolves:
  assumes ok: "lifecycle_ok s" and live: "live_at scope e r s" and eff: "ended_core e r at' why uat uby s s'"
  shows "runs_evolve ids s s'" "calm vf s s'"
proof -
  have "run_evolves q (close_run at' why q)" if "q \<in> set (runs s)" "rn_id q = r" for q
    using live_at_run[OF ok live that(1)] that(2) by (simp add: run_evolves_end)
  moreover have "runs s' = set_where (\<lambda>x. rn_id x = r) (close_run at' why) (runs s)"
    using eff by (simp add: ended_core_def)
  ultimately show "runs_evolve ids s s'"
    unfolding runs_evolve_def by (auto intro: run_evolves_refl)
  show "calm vf s s'"
  proof (rule calm_where)
    show "experiments s' = set_where (\<lambda>x. ex_id x = e) (clear_live uat uby) (experiments s)"
      using eff by (simp add: ended_core_def)
  qed (simp add: descends_def clear_live_def frozen_columns_def)
qed

lemma ended_ids: "ended_core e r at' why uat uby s s' \<Longrightarrow> rn_id ` set (runs s') \<subseteq> rn_id ` set (runs s)"
  by (auto simp: ended_core_def intro: rev_image_eqI)

lemma started_evolves:
  assumes "starts_at e r scope i s s'"
  shows "si_runId i \<notin> set ids \<Longrightarrow> runs_evolve ids s s'"
proof -
  assume fresh: "si_runId i \<notin> set ids"
  show ?thesis
    unfolding runs_evolve_def
  proof
    fix q' assume "q' \<in> set (runs s')"
    with assms show "rn_id q' \<notin> set ids \<or> (\<exists>r\<in>set (runs s). run_evolves r q')"
    proof (cases rule: starts_at_run)
      case new
      then show ?thesis using fresh assms by (simp add: starts_at_def)
    next
      case (old q)
      then have "run_evolves q q'" by (auto simp: run_evolves_end)
      with old(1) show ?thesis by blast
    qed
  qed
qed

section \<open>The invariant of the machine\<close>

definition frozen_patch :: "experiment_patch \<Rightarrow> bool" where
  "frozen_patch p \<longleftrightarrow> xp_flag p \<noteq> None \<or> xp_keyField p \<noteq> None \<or> xp_keyType p \<noteq> None \<or> xp_activation p \<noteq> None"

definition patch_vf :: "(string \<Rightarrow> string) \<Rightarrow> experiment_patch \<Rightarrow> bool" where
  "patch_vf vf p \<longleftrightarrow> (case xp_flag p of None \<Rightarrow> xp_defaultVariant p = None
     | Some f \<Rightarrow> \<exists>v. xp_defaultVariant p = Some (Some v) \<and> vf v = f)"

text \<open>A Run that has ended, or is gone, and whose id will not come back.\<close>

definition retired :: "world \<Rightarrow> string \<Rightarrow> bool" where
  "retired w x \<longleftrightarrow> x \<in> set (w_ids w) \<and> (\<forall>r\<in>set (runs (w_db w)). rn_id r = x \<longrightarrow> rn_status r \<noteq> ''running'')"

definition read_ok :: "(string \<Rightarrow> string) \<Rightarrow> world \<Rightarrow> env_scope \<times> experiment_row \<Rightarrow> bool" where
  "read_ok vf w = (\<lambda>(scope, e). vf_ok vf e \<and> ex_app e = s_app scope \<and> ex_env e = s_env scope
     \<and> (\<forall>x. ex_liveRun e = Some x \<longrightarrow> x \<in> set (w_ids w) \<and> (\<forall>r\<in>set (runs (w_db w)). rn_id r = x \<longrightarrow> run_of e r)))"

definition write_ok :: "(string \<Rightarrow> string) \<Rightarrow> world \<Rightarrow> env_scope \<times> string \<times> experiment_patch \<times> string option \<Rightarrow> bool" where
  "write_ok vf w = (\<lambda>(scope, x, p, l). patch_vf vf p
     \<and> (frozen_patch p \<longrightarrow> (\<forall>y. l = Some y \<longrightarrow> retired w y)))"

definition exclusive :: "db \<Rightarrow> bool" where
  "exclusive s \<longleftrightarrow> (\<forall>e\<in>set (experiments s). \<forall>f\<in>set (experiments s).
     ex_status e = ''running'' \<and> ex_status f = ''running'' \<and> ex_app e = ex_app f \<and> ex_env e = ex_env f
     \<and> ex_flag e = ex_flag f \<longrightarrow> e = f)"

definition world_ok :: "(string \<Rightarrow> string) \<Rightarrow> world \<Rightarrow> bool" where
  "world_ok vf w \<longleftrightarrow> lifecycle_ok (w_db w) \<and> rn_id ` set (runs (w_db w)) \<subseteq> set (w_ids w)
   \<and> (\<forall>e\<in>set (experiments (w_db w)). vf_ok vf e) \<and> exclusive (w_db w)
   \<and> (\<forall>x\<in>set (w_reads w). read_ok vf w x) \<and> (\<forall>x\<in>set (w_writes w). write_ok vf w x)"

lemma world_okD:
  assumes "world_ok vf w"
  shows "lifecycle_ok (w_db w)" "rn_id ` set (runs (w_db w)) \<subseteq> set (w_ids w)"
    "\<forall>e\<in>set (experiments (w_db w)). vf_ok vf e" "exclusive (w_db w)"
  using assms by (simp_all add: world_ok_def)

lemma calm_vf: "\<lbrakk>calm vf s s'; \<forall>e\<in>set (experiments s). vf_ok vf e; e' \<in> set (experiments s')\<rbrakk> \<Longrightarrow> vf_ok vf e'"
  unfolding calm_def idle_def descends_def frozen_columns_def vf_ok_def by fastforce

lemma calm_exclusive:
  assumes "calm vf s s'" "exclusive s" "lifecycle_ok s" "lifecycle_ok s'"
  shows "exclusive s'"
  unfolding exclusive_def
proof (intro ballI impI)
  fix e' f' assume mem: "e' \<in> set (experiments s')" "f' \<in> set (experiments s')"
    and run: "ex_status e' = ''running'' \<and> ex_status f' = ''running'' \<and> ex_app e' = ex_app f' \<and> ex_env e' = ex_env f'
      \<and> ex_flag e' = ex_flag f'"
  obtain e where e: "e \<in> set (experiments s)" "descends e e'"
    using assms(1) mem(1) run unfolding calm_def idle_def by blast
  obtain f where f: "f \<in> set (experiments s)" "descends f f'"
    using assms(1) mem(2) run unfolding calm_def idle_def by blast
  have "e = f"
    using assms(2) e f run unfolding exclusive_def descends_def frozen_columns_def by (metis Pair_inject)
  then have "ex_id e' = ex_id f'" using e(2) f(2) by (simp add: descends_def)
  then show "e' = f'" by (rule experiment_by_id[OF assms(4) mem])
qed

text \<open>What has been read and decided stays sound when only the database moves on.\<close>

lemma retired_evolves:
  assumes "runs_evolve (w_ids w) (w_db w) s'" "retired w x" "set (w_ids w) \<subseteq> set ids"
  shows "retired (w\<lparr>w_db := s', w_ids := ids\<rparr>) x"
  using assms unfolding retired_def runs_evolve_def
  by (auto simp: run_evolves_def)

lemma read_ok_evolves:
  assumes "runs_evolve (w_ids w) (w_db w) s'" "read_ok vf w p" "set (w_ids w) \<subseteq> set ids"
  shows "read_ok vf (w\<lparr>w_db := s', w_ids := ids\<rparr>) p"
proof -
  obtain scope e where p: "p = (scope, e)" by (cases p)
  have "run_of e q'" if x: "ex_liveRun e = Some (rn_id q')" and mem: "q' \<in> set (runs s')" for q'
  proof -
    have "rn_id q' \<in> set (w_ids w)" using assms(2) x by (auto simp: p read_ok_def)
    then obtain q where "q \<in> set (runs (w_db w))" "run_evolves q q'"
      using assms(1) mem unfolding runs_evolve_def by blast
    then show ?thesis
      using assms(2) x run_evolves_same[of q q'] by (auto simp: p read_ok_def run_of_def)
  qed
  with assms(2,3) show ?thesis by (auto simp: p read_ok_def)
qed

lemma world_ok_evolves:
  assumes w: "world_ok vf w" and evolve: "runs_evolve (w_ids w) (w_db w) s'"
    and ids: "set (w_ids w) \<subseteq> set ids" "rn_id ` set (runs s') \<subseteq> set ids"
    and ok: "lifecycle_ok s'" "\<forall>e\<in>set (experiments s'). vf_ok vf e" "exclusive s'"
  shows "world_ok vf (w\<lparr>w_db := s', w_ids := ids\<rparr>)"
proof -
  have "write_ok vf (w\<lparr>w_db := s', w_ids := ids\<rparr>) p" if "write_ok vf w p" for p
    using that retired_evolves[OF evolve _ ids(1)] by (auto simp: write_ok_def)
  with w ok ids(2) read_ok_evolves[OF evolve _ ids(1)] show ?thesis
    by (simp add: world_ok_def)
qed

text \<open>
  A good step keeps the invariant, gives no used id away, only ends Runs, and leaves a row
  that keeps its live Run the columns that Run relies on.
\<close>

definition traces :: "string list \<Rightarrow> db \<Rightarrow> db \<Rightarrow> bool" where
  "traces ids s s' \<longleftrightarrow> (\<forall>e'\<in>set (experiments s'). \<forall>x. ex_liveRun e' = Some x \<and> x \<in> set ids \<longrightarrow>
     (\<exists>e\<in>set (experiments s). ex_id e = ex_id e' \<and> ex_liveRun e = Some x \<and> frozen_columns e = frozen_columns e'))"

definition good_step :: "(string \<Rightarrow> string) \<Rightarrow> world \<Rightarrow> world \<Rightarrow> bool" where
  "good_step vf w w' \<longleftrightarrow> world_ok vf w' \<and> set (w_ids w) \<subseteq> set (w_ids w')
     \<and> runs_evolve (w_ids w) (w_db w) (w_db w') \<and> traces (w_ids w) (w_db w) (w_db w')"

lemma traces_refl [simp]: "traces ids s s"
  by (auto simp: traces_def)

lemma good_step_refl [simp]: "good_step vf w w \<longleftrightarrow> world_ok vf w"
  by (simp add: good_step_def runs_evolve_same)

lemma traces_same: "experiments s' = experiments s \<Longrightarrow> traces ids s s'"
  unfolding traces_def by metis

lemma calm_traces:
  assumes "calm vf s s'" "lifecycle_ok s" "lifecycle_ok s'"
  shows "traces ids s s'"
  unfolding traces_def
proof (intro ballI allI impI)
  fix e' x assume e': "e' \<in> set (experiments s')" "ex_liveRun e' = Some x \<and> x \<in> set ids"
  then have run: "ex_status e' = ''running''"
    using assms(3) by (auto simp: lifecycle_ok_def experiments_ok_def)
  then obtain e where e: "e \<in> set (experiments s)" "descends e e'"
    using assms(1) e'(1) unfolding calm_def idle_def by blast
  then have "ex_liveRun e = Some x" using run e'(2) by (simp add: descends_def)
  with e show "\<exists>e\<in>set (experiments s). ex_id e = ex_id e' \<and> ex_liveRun e = Some x \<and> frozen_columns e = frozen_columns e'"
    by (auto simp: descends_def)
qed

text \<open>A calm step of the database keeps the invariant.\<close>

lemma calm_step:
  assumes w: "world_ok vf w" and evolve: "runs_evolve (w_ids w) (w_db w) s'" and calm: "calm vf (w_db w) s'"
    and ids: "rn_id ` set (runs s') \<subseteq> rn_id ` set (runs (w_db w))" and ok: "lifecycle_ok s'"
  shows "good_step vf w (w\<lparr>w_db := s'\<rparr>)"
proof -
  have "world_ok vf (w\<lparr>w_db := s', w_ids := w_ids w\<rparr>)"
  proof (rule world_ok_evolves[OF w evolve])
    show "\<forall>e\<in>set (experiments s'). vf_ok vf e"
      using calm_vf[OF calm] w by (simp add: world_ok_def)
    show "exclusive s'"
      using calm_exclusive[OF calm _ _ ok] w by (simp add: world_ok_def)
  qed (use w ids ok in \<open>auto simp: world_ok_def\<close>)
  with evolve calm_traces[OF calm world_okD(1)[OF w] ok] show ?thesis by (simp add: good_step_def)
qed

lemma quiet_step:
  assumes w: "world_ok vf w" and same: "experiments s' = experiments (w_db w)" "runs s' = runs (w_db w)"
    and ok: "lifecycle_ok s'" and ids: "set (w_ids w) \<subseteq> set ids"
  shows "good_step vf w (w\<lparr>w_db := s', w_ids := ids\<rparr>)"
proof -
  have "world_ok vf (w\<lparr>w_db := s', w_ids := ids\<rparr>)"
  proof (rule world_ok_evolves[OF w runs_evolve_same[OF same(2)] ids _ ok])
    note D = world_okD[OF w]
    show "rn_id ` set (runs s') \<subseteq> set ids" unfolding same using D(2) ids by (rule subset_trans)
    show "\<forall>e\<in>set (experiments s'). vf_ok vf e" unfolding same by (rule D(3))
    show "exclusive s'" using D(4) by (simp add: exclusive_def same(1))
  qed
  then show ?thesis
    using ids runs_evolve_same[OF same(2)] traces_same[OF same(1)] by (simp add: good_step_def)
qed

lemma quiet_db_step:
  assumes "world_ok vf w" "experiments s' = experiments (w_db w)" "runs s' = runs (w_db w)" "lifecycle_ok s'"
  shows "good_step vf w (w\<lparr>w_db := s'\<rparr>)"
  using quiet_step[OF assms subset_refl] by simp

lemma core_step:
  assumes "world_ok vf w" "core s' = core (w_db w)" shows "good_step vf w (w\<lparr>w_db := s'\<rparr>)"
  using assms(2) by (intro quiet_db_step[OF assms(1)]) (simp_all add: core_eq ok_core[OF assms(2)] world_okD[OF assms(1)])

subsection \<open>Every step keeps it\<close>

lemma exclusive_start:
  assumes exps: "experiments s' = set_where (\<lambda>x. x = e) g (experiments s)" and e: "e \<in> set (experiments s)"
    and ex: "exclusive s" and cols: "ex_app (g e) = ex_app e" "ex_env (g e) = ex_env e" "ex_flag (g e) = ex_flag e"
    and alone: "\<And>f. \<lbrakk>f \<in> set (experiments s); ex_status f = ''running''; ex_app f = ex_app e;
      ex_env f = ex_env e; ex_flag f = ex_flag e\<rbrakk> \<Longrightarrow> f = e"
  shows "exclusive s'"
proof -
  have mem: "x' = g e \<or> x' \<in> set (experiments s) \<and> x' \<noteq> e" if "x' \<in> set (experiments s')" for x'
    using that unfolding exps by auto
  show ?thesis
    unfolding exclusive_def
  proof (intro ballI impI)
    fix x y assume x: "x \<in> set (experiments s')" and y: "y \<in> set (experiments s')"
      and same: "ex_status x = ''running'' \<and> ex_status y = ''running'' \<and> ex_app x = ex_app y \<and> ex_env x = ex_env y
        \<and> ex_flag x = ex_flag y"
    from mem[OF x] mem[OF y] show "x = y"
    proof (elim disjE conjE)
      assume "x = g e" "y \<in> set (experiments s)" "y \<noteq> e"
      then show ?thesis using alone[of y] same cols by simp
    next
      assume "x \<in> set (experiments s)" "x \<noteq> e" "y = g e"
      then show ?thesis using alone[of x] same cols by simp
    next
      assume "x \<in> set (experiments s)" "y \<in> set (experiments s)"
      then show ?thesis using ex same unfolding exclusive_def by blast
    qed simp
  qed
qed

lemma start_step:
  assumes w: "world_ok vf w" and seen: "(scope', x) \<in> set (w_reads w)"
    and new: "si_runId i \<notin> set (w_ids w)"
    and flag: "si_flag i = ex_flag x" "ex_defaultVariant x = Some (sd_defaultVariant (si_draft i))"
  shows "good_step vf w (w\<lparr>w_db := snd (runStartBatch scope i (w_db w)), w_ids := si_runId i # w_ids w\<rparr>)"
proof -
  let ?s = "w_db w" and ?s' = "snd (runStartBatch scope i (w_db w))"
  note D = world_okD[OF w]
  note ok = D(1) and vf = D(3) and ex = D(4)
  consider (none) "core ?s' = core ?s" | (started) "startGuard scope i ?s" "started_core scope i ?s ?s'"
    using start_batch_shape[OF ok refl] by blast
  then show ?thesis
  proof cases
    case none
    have "experiments ?s' = experiments ?s" "runs ?s' = runs ?s"
      using none by (simp_all only: core_eq)
    then show ?thesis
      by (rule quiet_step[OF w _ _ ok_core[OF none, THEN iffD2, OF ok] set_subset_Cons])
  next
    case started
    obtain e r where at: "starts_at e r scope i ?s ?s'" by (rule start_shape[OF ok started]) (rule that; assumption)
    have e: "e \<in> set (experiments ?s)" "draft_row scope i e" using at by (simp_all add: starts_at_def)
    have "vf_ok vf x" using w seen by (auto simp: world_ok_def read_ok_def)
    then have ef: "ex_flag e = si_flag i" using e vf flag by (auto simp: draft_row_def vf_ok_def)
    have ok': "lifecycle_ok ?s'" by (rule start_keeps[OF ok started])
    have exps': "experiments ?s' = set_where (\<lambda>x. x = e) (point_at i) (experiments ?s)"
      using at by (simp add: starts_at_def)
    have vf': "vf_ok vf (point_at i e)" using vf e(1) by (simp add: vf_ok_def point_at_def)
    have alone: "f = e" if "f \<in> set (experiments ?s)" "ex_status f = ''running''" "ex_app f = ex_app e"
        "ex_env f = ex_env e" "ex_flag f = ex_flag e" for f
      using started(1) that e ef experiment_by_id[OF ok that(1) e(1)]
      by (auto simp: startGuard_def start_allowed_def draft_row_def list_ex_iff)
    have cols: "ex_app (point_at i e) = ex_app e" "ex_env (point_at i e) = ex_env e" "ex_flag (point_at i e) = ex_flag e"
      by (simp_all add: point_at_def)
    have "exclusive ?s'"
      by (rule exclusive_start[OF exps' e(1) ex cols]) (rule alone)
    moreover have "rn_id ` set (runs ?s') \<subseteq> set (si_runId i # w_ids w)"
      using D(2) at by (auto simp: starts_at_def)
    moreover have "\<forall>x\<in>set (experiments ?s'). vf_ok vf x"
      unfolding exps' using vf vf' by auto
    ultimately have "world_ok vf (w\<lparr>w_db := ?s', w_ids := si_runId i # w_ids w\<rparr>)"
      by (intro world_ok_evolves[OF w started_evolves[OF at new] _ _ ok']) auto
    moreover have "traces (w_ids w) ?s ?s'"
      using new exps' unfolding traces_def by (auto simp: point_at_def)
    ultimately show ?thesis using started_evolves[OF at new] by (auto simp: good_step_def)
  qed
qed

lemma end_step:
  assumes w: "world_ok vf w" and same: "ei_expectedLive i = ei_run i"
  shows "good_step vf w (w\<lparr>w_db := snd (runEndBatch scope i h (w_db w))\<rparr>)"
proof -
  let ?s = "w_db w" and ?s' = "snd (runEndBatch scope i h (w_db w))"
  have ok: "lifecycle_ok ?s" using w by (simp add: world_ok_def)
  from end_batch_shape[OF ok same refl, of scope h] show ?thesis
  proof (elim disjE conjE)
    assume "core ?s' = core ?s"
    then show ?thesis by (rule core_step[OF w])
  next
    assume live: "live_at scope (ei_experiment i) (ei_run i) ?s"
      and eff: "ended_core (ei_experiment i) (ei_run i) (ei_endedAt i) (ei_endReason i) (ei_updatedAt i) (ei_updatedBy i) ?s ?s'"
      and rest: "experiment_conclusions ?s' = experiment_conclusions ?s"
        "conclusion_approval_requests ?s' = conclusion_approval_requests ?s"
    from ended_ids[OF eff] show ?thesis
      by (rule calm_step[OF w ended_evolves[OF ok live eff] _ end_keeps[OF ok live eff rest]])
  qed
qed

lemma conclude_step:
  assumes w: "world_ok vf w" and same: "ci_expectedLive c = cn_run (ci_conclusion c)"
  shows "good_step vf w (w\<lparr>w_db := snd (commit scope c (w_db w))\<rparr>)"
proof -
  let ?s = "w_db w" and ?s' = "snd (commit scope c (w_db w))"
  have ok: "lifecycle_ok ?s" using w by (simp add: world_ok_def)
  show ?thesis
  proof (cases "conclude_guard scope c ?s \<and> conclude_rows_free scope c ?s")
    case True
    then have core': "core ?s' = core (concluded scope c ?s)"
      using conclude_batch[OF ok same, of scope] by auto
    have live: "live_at scope (cn_experiment (ci_conclusion c)) (cn_run (ci_conclusion c)) ?s"
      using True by (simp add: conclude_guard_def)
    note ev = ended_evolves[OF ok live concluded_core]
    have "rn_id ` set (runs ?s') \<subseteq> rn_id ` set (runs ?s)"
      using ended_ids[OF concluded_core] core' by (simp add: core_eq)
    moreover have "lifecycle_ok ?s'"
      using conclude_keeps[OF ok] True ok_core[OF core'] by simp
    ultimately show ?thesis
      by (intro calm_step[OF w runs_evolve_core[OF ev(1) core'] calm_core[OF ev(2) core']])
  next
    case False
    then have "?s' = ?s" using conclude_batch[OF ok same, of scope] by simp
    then show ?thesis using w by simp
  qed
qed

lemma replace_step:
  assumes w: "world_ok vf w" shows "good_step vf w (w\<lparr>w_db := snd (createReplacement app i (w_db w))\<rparr>)"
proof (cases "run_statements (replacementStatements app i) (w_db w)")
  case (Inl e)
  then show ?thesis using w by (simp add: createReplacement_def d1_batch_def)
next
  case (Inr p)
  then obtain t rs where run: "run_statements (replacementStatements app i) (w_db w) = Inr (t, rs)"
    and t: "snd (createReplacement app i (w_db w)) = t"
    by (cases p) (simp add: createReplacement_def d1_batch_def)
  note sh = replacement_shape[OF run]
  have "lifecycle_ok t"
    by (rule same_runs_keeps[OF world_okD(1)[OF w] sh(1,2,4,5)])
  then show ?thesis unfolding t by (rule quiet_db_step[OF w sh(1,2)])
qed

lemma alarm_step:
  assumes w: "world_ok vf w" shows "good_step vf w (w\<lparr>w_db := snd (insertIgnore scope i (w_db w))\<rparr>)"
proof -
  have eqs: "experiments (snd (insertIgnore scope i (w_db w))) = experiments (w_db w)"
    "runs (snd (insertIgnore scope i (w_db w))) = runs (w_db w)"
    "experiment_conclusions (snd (insertIgnore scope i (w_db w))) = experiment_conclusions (w_db w)"
    "conclusion_approval_requests (snd (insertIgnore scope i (w_db w))) = conclusion_approval_requests (w_db w)"
    by (simp_all add: insertIgnore_def Let_def)
  have "lifecycle_ok (snd (insertIgnore scope i (w_db w)))"
    by (rule same_runs_keeps[OF world_okD(1)[OF w] eqs(1-3)]) (simp add: eqs)
  then show ?thesis by (rule quiet_db_step[OF w eqs(1,2)])
qed

lemma archive_step:
  assumes w: "world_ok vf w" shows "good_step vf w (w\<lparr>w_db := snd (archiveExperiment scope x t u (w_db w))\<rparr>)"
proof (rule calm_step[OF w])
  let ?s' = "snd (archiveExperiment scope x t u (w_db w))"
  have "runs ?s' = runs (w_db w)" by (simp add: archiveExperiment_def Let_def)
  then show "runs_evolve (w_ids w) (w_db w) ?s'" "rn_id ` set (runs ?s') \<subseteq> rn_id ` set (runs (w_db w))"
    by (simp_all add: runs_evolve_same)
  show "lifecycle_ok ?s'" by (rule archive_keeps[OF world_okD(1)[OF w]])
  show "calm vf (w_db w) ?s'"
    unfolding archiveExperiment_def Let_def snd_conv
  proof (rule calm_where)
    fix e assume "e \<in> set (experiments (w_db w))"
    then have "vf_ok vf e" using world_okD(3)[OF w] by blast
    then show "idle vf (e\<lparr>ex_status := ''archived'', ex_liveRun := None, ex_updatedAt := t, ex_updatedBy := Some u\<rparr>)
        \<or> descends e (e\<lparr>ex_status := ''archived'', ex_liveRun := None, ex_updatedAt := t, ex_updatedBy := Some u\<rparr>)"
      by (simp add: idle_def vf_ok_def)
  qed simp
qed

lemma create_step:
  assumes w: "world_ok vf w" and vf: "vf_ok vf e"
  shows "good_step vf w (w\<lparr>w_db := snd (insertExperiment scope (created_row e) (w_db w))\<rparr>)"
proof (rule calm_step[OF w])
  let ?s' = "snd (insertExperiment scope (created_row e) (w_db w))"
  have "runs ?s' = runs (w_db w)" by (simp add: insertExperiment_def Let_def split: option.split)
  then show "runs_evolve (w_ids w) (w_db w) ?s'" "rn_id ` set (runs ?s') \<subseteq> rn_id ` set (runs (w_db w))"
    by (simp_all add: runs_evolve_same)
  show "lifecycle_ok ?s'" by (rule create_keeps[OF world_okD(1)[OF w]])
  have "idle vf ((created_row e)\<lparr>ex_app := s_app scope, ex_env := s_env scope\<rparr>)"
    using vf by (simp add: idle_def vf_ok_def created_row_def)
  then show "calm vf (w_db w) ?s'"
    unfolding calm_def insertExperiment_def Let_def
    by (auto split: option.split intro: descends_member)
qed

lemma purge_step:
  assumes w: "world_ok vf w"
  shows "good_step vf w (w\<lparr>w_db := snd (purgeArchivedExperimentsInEnvironment scope (w_db w))\<rparr>)"
proof (cases "purgeArchivedExperimentsInEnvironment scope (w_db w)")
  case (Pair res s')
  show ?thesis
  proof (cases res)
    case (Inl e)
    then have "s' = w_db w"
      using Pair by (auto simp: purgeArchivedExperimentsInEnvironment_def d1_batch_def split: sum.splits prod.splits)
    with Pair w show ?thesis by simp
  next
    case (Inr u)
    then have purge: "purgeArchivedExperimentsInEnvironment scope (w_db w) = (Inr (), s')" using Pair by simp
    note sh = purge_shape[OF purge]
    have sub: "set (runs s') \<subseteq> set (runs (w_db w))" "set (experiments s') \<subseteq> set (experiments (w_db w))"
      by (auto simp: sh(1,2) delete_where_def)
    have "good_step vf w (w\<lparr>w_db := s'\<rparr>)"
    proof (rule calm_step[OF w _ _ _ purge_keeps[OF world_okD(1)[OF w] purge]])
      show "runs_evolve (w_ids w) (w_db w) s'" unfolding runs_evolve_def using sub(1) run_evolves_refl by blast
      show "calm vf (w_db w) s'" unfolding calm_def using sub(2) descends_refl by blast
    qed (use sub(1) in blast)
    then show ?thesis using Pair by simp
  qed
qed

lemma read_step:
  assumes w: "world_ok vf w" and e: "e \<in> set (experiments (w_db w))" "ex_app e = s_app scope" "ex_env e = s_env scope"
  shows "good_step vf w (w\<lparr>w_reads := (scope, e) # w_reads w\<rparr>)"
proof -
  have "x \<in> set (w_ids w) \<and> (\<forall>q\<in>set (runs (w_db w)). rn_id q = x \<longrightarrow> run_of e q)" if x: "ex_liveRun e = Some x" for x
  proof -
    obtain r where r: "r \<in> set (runs (w_db w))" "rn_id r = x" "run_of e r"
      by (rule live_is_running[OF world_okD(1)[OF w] e(1) x])
    have "q = r" if "q \<in> set (runs (w_db w))" "rn_id q = x" for q
      using run_by_id[OF world_okD(1)[OF w] that(1) r(1)] that(2) r(2) by simp
    with r world_okD(2)[OF w] show ?thesis by blast
  qed
  then have "read_ok vf w (scope, e)" using e world_okD(3)[OF w] by (simp add: read_ok_def)
  with w show ?thesis
    by (simp add: good_step_def runs_evolve_same world_ok_def read_ok_def write_ok_def retired_def split_def)
qed

text \<open>A handler that writes a frozen column has seen no running Run.\<close>

lemma patch_decision_writes:
  assumes dec: "patch_decision scope e b dv now user s = Inr (Inr p)"
    and dv: "\<And>f. pb_flag b = Some f \<Longrightarrow> \<exists>v. dv = Some v \<and> vf v = f"
  shows "patch_vf vf p" "frozen_patch p \<Longrightarrow> runningRunForExperiment scope e s = Inr None"
proof -
  obtain rr where rr: "runningRunForExperiment scope e s = Inr rr"
    and ok: "validateExperimentPatch e b rr = None"
    and p: "p = experimentPatchFromBody b dv now user e (if pb_stageForNextRun b then rr else None)"
    using dec by (auto simp: patch_decision_def ebind_eq_Inr split: option.splits)
  show "patch_vf vf p"
    using dv by (auto simp: p patch_vf_def experimentPatchFromBody_def Let_def nextRunDraftPatch_def draftPatch_def
        no_patch_def split: option.splits)
  show "runningRunForExperiment scope e s = Inr None" if "frozen_patch p"
  proof (rule ccontr)
    assume "runningRunForExperiment scope e s \<noteq> Inr None"
    then obtain r where r: "rr = Some r" using rr by (cases rr) simp_all
    show False
    proof (cases "pb_stageForNextRun b")
      case True
      then show False
        using that by (simp add: p r frozen_patch_def experimentPatchFromBody_def nextRunDraftPatch_def no_patch_def)
    next
      case False
      then have "\<not> has_assignment_fields b"
        using ok by (auto simp: r validateExperimentPatch_def split: if_splits)
      then show False
        using that False
        by (simp add: p frozen_patch_def experimentPatchFromBody_def draftPatch_def no_patch_def has_assignment_fields_def)
    qed
  qed
qed

lemma none_running_retires:
  assumes seen: "read_ok vf w (scope, e)" and none: "runningRunForExperiment scope e (w_db w) = Inr None"
    and x: "ex_liveRun e = Some x" and ids: "distinct (map rn_id (runs (w_db w)))"
  shows "retired w x"
proof -
  have "rn_status q \<noteq> ''running''" if q: "q \<in> set (runs (w_db w))" "rn_id q = x" for q
  proof -
    have "run_of e q" using seen q x by (auto simp: read_ok_def)
    then have "getRun scope x (w_db w) \<noteq> None"
      using seen q by (auto simp: getRun_def read_ok_def run_of_def find_None_iff)
    then obtain r where r: "getRun scope x (w_db w) = Some r" by blast
    then have "r \<in> set (runs (w_db w))" "rn_id r = x"
      by (auto simp: getRun_def find_Some_iff)
    then have "r = q" using q ids by (metis distinct_map inj_on_eq_iff)
    with r none x show ?thesis by (auto simp: runningRunForExperiment_def split: if_splits)
  qed
  with seen x show ?thesis by (auto simp: retired_def read_ok_def)
qed

lemma decide_step:
  assumes w: "world_ok vf w" and seen: "(scope, e) \<in> set (w_reads w)"
    and dec: "patch_decision scope e b dv now user (w_db w) = Inr (Inr p)"
    and dv: "\<And>f. pb_flag b = Some f \<Longrightarrow> \<exists>v. dv = Some v \<and> vf v = f"
  shows "good_step vf w (w\<lparr>w_writes := (scope, ex_id e, p, ex_liveRun e) # w_writes w\<rparr>)"
proof -
  have read: "read_ok vf w (scope, e)" using w seen by (auto simp: world_ok_def)
  have ids: "distinct (map rn_id (runs (w_db w)))"
    using world_okD(1)[OF w] by (simp add: lifecycle_ok_def runs_ok_def)
  note P = patch_decision_writes[OF dec dv]
  have "write_ok vf w (scope, ex_id e, p, ex_liveRun e)"
    using P(1) none_running_retires[OF read P(2) _ ids] by (simp add: write_ok_def)
  with w show ?thesis
    by (simp add: good_step_def runs_evolve_same world_ok_def read_ok_def write_ok_def retired_def split_def)
qed

lemma patched_calm:
  assumes w: "world_ok vf w" and wr: "write_ok vf w (scope, x, p, l)"
    and e: "e \<in> set (experiments (w_db w))" "ex_liveRun e = l"
  shows "idle vf (patched p e) \<or> descends e (patched p e)"
proof (cases "frozen_patch p")
  case True
  have "l = None"
  proof (rule ccontr)
    assume "l \<noteq> None"
    then obtain y where y: "l = Some y" by blast
    then obtain r where "r \<in> set (runs (w_db w))" "rn_id r = y" "rn_status r = ''running''"
      using live_is_running[OF world_okD(1)[OF w] e(1)] e(2) by blast
    with wr True y show False by (auto simp: write_ok_def retired_def)
  qed
  then have "ex_status e \<noteq> ''running''"
    using world_okD(1)[OF w] e by (auto simp: lifecycle_ok_def experiments_ok_def)
  moreover have "vf_ok vf (patched p e)"
    using wr world_okD(3)[OF w] e(1)
    by (cases "xp_flag p") (auto simp: write_ok_def patch_vf_def vf_ok_def patched_def)
  ultimately show ?thesis by (simp add: idle_def)
next
  case False
  then have "frozen_columns (patched p e) = frozen_columns e"
    using wr by (simp add: frozen_patch_def frozen_columns_def patched_def write_ok_def patch_vf_def)
  then show ?thesis by (simp add: descends_def)
qed

lemma patch_step:
  assumes w: "world_ok vf w" and plan: "(scope, x, p, l) \<in> set (w_writes w)"
  shows "good_step vf w (w\<lparr>w_db := snd (updateExperiment scope x p l (w_db w))\<rparr>)"
proof (rule calm_step[OF w])
  let ?s' = "snd (updateExperiment scope x p l (w_db w))"
  have wr: "write_ok vf w (scope, x, p, l)" using w plan by (auto simp: world_ok_def)
  have "runs ?s' = runs (w_db w)" by (simp add: updateExperiment_def Let_def)
  then show "runs_evolve (w_ids w) (w_db w) ?s'" "rn_id ` set (runs ?s') \<subseteq> rn_id ` set (runs (w_db w))"
    by (simp_all add: runs_evolve_same)
  show "lifecycle_ok ?s'" by (rule update_keeps[OF world_okD(1)[OF w]])
  have hit: "idle vf (patched p e) \<or> descends e (patched p e)"
    if e: "e \<in> set (experiments (w_db w))" "ex_liveRun e = l" for e
    by (rule patched_calm[OF w wr e])
  show "calm vf (w_db w) ?s'"
  proof (cases "experiments ?s' = experiments (w_db w)")
    case False
    then have "experiments ?s' = set_where (\<lambda>y. ex_app y = s_app scope \<and> ex_env y = s_env scope \<and> ex_id y = x
        \<and> ex_liveRun y = l) (patched p) (experiments (w_db w))"
      by (simp add: updateExperiment_def Let_def split: if_splits)
    then show ?thesis by (rule calm_where) (rule hit, simp_all)
  qed (rule calm_same)
qed

section \<open>Every history\<close>

lemma step_good: "lifecycle_step vf w w' \<Longrightarrow> world_ok vf w \<Longrightarrow> good_step vf w w'"
proof (induction rule: lifecycle_step.induct)
  case (others s' w)
  then show ?case by (intro core_step)
qed (simp_all add: create_step start_step end_step conclude_step replace_step alarm_step archive_step purge_step
    read_step decide_step patch_step)

lemma good_step_ok: "good_step vf w w' \<Longrightarrow> world_ok vf w'"
  by (simp add: good_step_def)

interpretation lifecycle: machine "lifecycle_step vf" "world_ok vf"
  by unfold_locales (rule good_step_ok[OF step_good])

lemma new_world_ok: "world_ok vf (new_world s)"
  by (simp add: world_ok_def new_world_def lifecycle_ok_def experiments_ok_def runs_ok_def numbers_ok_def
      numbered_def conclusions_ok_def exclusive_def)

lemma history_ok: "reaches (lifecycle_step vf) (new_world s) w \<Longrightarrow> world_ok vf w"
  by (erule lifecycle.inv_reaches) (rule new_world_ok)

text \<open>What good steps do to Runs and live Experiments adds up along a history.\<close>

definition onward :: "world \<Rightarrow> world \<Rightarrow> bool" where
  "onward w w' \<longleftrightarrow> set (w_ids w) \<subseteq> set (w_ids w') \<and> runs_evolve (w_ids w) (w_db w) (w_db w')
     \<and> traces (w_ids w) (w_db w) (w_db w')"

lemma onward_refl: "onward w w"
  by (simp add: onward_def runs_evolve_same)

lemma onward_trans:
  assumes "onward u v" "onward v w" shows "onward u w"
  unfolding onward_def
proof (intro conjI)
  show "set (w_ids u) \<subseteq> set (w_ids w)" using assms by (auto simp: onward_def)
  show "runs_evolve (w_ids u) (w_db u) (w_db w)"
    unfolding runs_evolve_def
  proof
    fix r assume r: "r \<in> set (runs (w_db w))"
    show "rn_id r \<notin> set (w_ids u) \<or> (\<exists>q\<in>set (runs (w_db u)). run_evolves q r)"
    proof (cases "rn_id r \<in> set (w_ids u)")
      case True
      then obtain q where q: "q \<in> set (runs (w_db v))" "run_evolves q r"
        using assms r unfolding onward_def runs_evolve_def by blast
      then obtain p where "p \<in> set (runs (w_db u))" "run_evolves p q"
        using assms(1) True run_evolves_same[OF q(2)] unfolding onward_def runs_evolve_def by metis
      with q(2) show ?thesis using run_evolves_trans by blast
    qed simp
  qed
  show "traces (w_ids u) (w_db u) (w_db w)"
    unfolding traces_def
  proof (intro ballI allI impI)
    fix g x assume g: "g \<in> set (experiments (w_db w))" "ex_liveRun g = Some x \<and> x \<in> set (w_ids u)"
    then have "x \<in> set (w_ids v)" using assms(1) by (auto simp: onward_def)
    then obtain f where f: "f \<in> set (experiments (w_db v))" "ex_id f = ex_id g" "ex_liveRun f = Some x"
        "frozen_columns f = frozen_columns g"
      using assms(2) g unfolding onward_def traces_def by blast
    then obtain e where "e \<in> set (experiments (w_db u))" "ex_id e = ex_id f" "ex_liveRun e = Some x"
        "frozen_columns e = frozen_columns f"
      using assms(1) g(2) unfolding onward_def traces_def by blast
    with f show "\<exists>e\<in>set (experiments (w_db u)). ex_id e = ex_id g \<and> ex_liveRun e = Some x
        \<and> frozen_columns e = frozen_columns g" by auto
  qed
qed

lemma history_onward:
  assumes "world_ok vf w" "reaches (lifecycle_step vf) w w'" shows "onward w w'"
  using assms(2,1)
proof (rule lifecycle.mono_reaches[rotated -2])
  show "onward s t" if "world_ok vf s" "lifecycle_step vf s t" for s t
    using step_good[OF that(2,1)] by (simp add: good_step_def onward_def)
qed (rule onward_refl, rule onward_trans)

end
