(* ===== verification/RunProps.thy ===== *)
theory RunProps
  imports RunMachine
begin

text \<open>
  What the Run lifecycle promises over every history of \<open>RunMachine\<close>, each property with a
  concrete history that satisfies its hypotheses.
\<close>

section \<open>An alarm bars the conclusion of its Run\<close>

text \<open>A Run whose id is taken and which, while its row is there, has an alarm of its scope.\<close>

definition barred :: "world \<Rightarrow> string \<Rightarrow> bool" where
  "barred w x \<longleftrightarrow> x \<in> set (w_ids w) \<and> (\<forall>r\<in>set (runs (w_db w)). rn_id r = x \<longrightarrow>
     (\<exists>a\<in>set (run_srm_alarms (w_db w)). al_run a = x \<and> al_app a = rn_app r \<and> al_env a = rn_env r))"

definition bars :: "world \<Rightarrow> world \<Rightarrow> bool" where
  "bars w w' \<longleftrightarrow> (\<forall>x. barred w x \<longrightarrow> barred w' x
     \<and> (\<forall>c\<in>set (experiment_conclusions (w_db w')). cn_run c = x \<longrightarrow> c \<in> set (experiment_conclusions (w_db w))))"

lemma bars_refl: "bars w w"
  by (simp add: bars_def)

lemma bars_trans: "bars u v \<Longrightarrow> bars v w \<Longrightarrow> bars u w"
  by (auto simp: bars_def)

lemma barred_kept:
  assumes "good_step vf w w'" "barred w x"
    and kept: "\<And>a r. \<lbrakk>a \<in> set (run_srm_alarms (w_db w)); al_run a = rn_id r; al_app a = rn_app r; al_env a = rn_env r;
        r \<in> set (runs (w_db w')); rn_id r = x\<rbrakk> \<Longrightarrow> a \<in> set (run_srm_alarms (w_db w'))"
  shows "barred w' x"
  unfolding barred_def
proof (intro conjI ballI impI)
  have x: "x \<in> set (w_ids w)" using assms(2) by (simp add: barred_def)
  then show "x \<in> set (w_ids w')" using assms(1) by (auto simp: good_step_def)
  fix r' assume r': "r' \<in> set (runs (w_db w'))" "rn_id r' = x"
  then obtain r where r: "r \<in> set (runs (w_db w))" "run_evolves r r'"
    using assms(1) x unfolding good_step_def runs_evolve_def by blast
  note same = run_evolves_same[OF r(2)]
  with r(1) r'(2) assms(2) obtain a where a: "a \<in> set (run_srm_alarms (w_db w))" "al_run a = x"
      "al_app a = rn_app r" "al_env a = rn_env r"
    unfolding barred_def by metis
  then have "a \<in> set (run_srm_alarms (w_db w'))"
    using kept[of a r'] r' same by simp
  with a same show "\<exists>a\<in>set (run_srm_alarms (w_db w')). al_run a = x \<and> al_app a = rn_app r' \<and> al_env a = rn_env r'"
    by auto
qed

lemma bars_same:
  assumes "good_step vf w w'" "set (run_srm_alarms (w_db w)) \<subseteq> set (run_srm_alarms (w_db w'))"
    "experiment_conclusions (w_db w') = experiment_conclusions (w_db w)"
  shows "bars w w'"
  unfolding bars_def using assms(2,3) by (auto intro: barred_kept[OF assms(1)])

lemma end_alarms:
  assumes "lifecycle_ok s" "ei_expectedLive i = ei_run i"
  shows "run_srm_alarms (snd (runEndBatch scope i h s)) = run_srm_alarms s
    \<and> experiment_conclusions (snd (runEndBatch scope i h s)) = experiment_conclusions s"
  using end_batch_shape[OF assms refl, of scope h] by (auto simp: core_eq ended_core_def)

lemma start_alarms:
  assumes "lifecycle_ok s"
  shows "run_srm_alarms (snd (runStartBatch scope i s)) = run_srm_alarms s
    \<and> experiment_conclusions (snd (runStartBatch scope i s)) = experiment_conclusions s"
  using start_batch_shape[OF assms refl, of scope i] by (auto simp: core_eq started_core_def)

lemma replacement_alarms:
  "run_srm_alarms (snd (createReplacement app i s)) = run_srm_alarms s
    \<and> experiment_conclusions (snd (createReplacement app i s)) = experiment_conclusions s"
  using replacement_shape[of app i s]
  by (auto simp: createReplacement_def d1_batch_def split: sum.splits)

lemma bars_conclude:
  assumes w: "world_ok vf w" and same: "ci_expectedLive c = cn_run (ci_conclusion c)"
  shows "bars w (w\<lparr>w_db := snd (commit scope c (w_db w))\<rparr>)"
proof (cases "conclude_guard scope c (w_db w) \<and> conclude_rows_free scope c (w_db w)")
  case False
  then have "snd (commit scope c (w_db w)) = w_db w" using conclude_batch[OF world_okD(1)[OF w] same, of scope] by simp
  then show ?thesis by (simp add: bars_refl)
next
  case True
  let ?w' = "w\<lparr>w_db := snd (commit scope c (w_db w))\<rparr>"
  have core': "core (w_db ?w') = core (concluded scope c (w_db w))"
    using conclude_batch[OF world_okD(1)[OF w] same, of scope] True by auto
  then have alarms: "run_srm_alarms (w_db ?w') = run_srm_alarms (w_db w)"
    and concl: "experiment_conclusions (w_db ?w') = experiment_conclusions (w_db w) @ [conclusion_to_insert scope c]"
    by (simp_all add: core_eq concluded_def Let_def)
  have no: "\<not> barred w (cn_run (ci_conclusion c))"
  proof
    assume barred: "barred w (cn_run (ci_conclusion c))"
    have "live_at scope (cn_experiment (ci_conclusion c)) (cn_run (ci_conclusion c)) (w_db w)"
      using True by (simp add: conclude_guard_def)
    then obtain x q where q: "q \<in> set (runs (w_db w))" "rn_id q = cn_run (ci_conclusion c)" "run_of x q"
        "ex_app x = s_app scope" "ex_env x = s_env scope"
      by (rule live_rows[OF world_okD(1)[OF w]]) (rule that; assumption)
    then obtain a where "a \<in> set (run_srm_alarms (w_db w))" "al_run a = cn_run (ci_conclusion c)"
        "al_app a = s_app scope" "al_env a = s_env scope"
      using barred by (auto simp: barred_def run_of_def)
    then show False using True by (auto simp: conclude_guard_def no_alarm_def listForRun_def filter_empty_conv)
  qed
  have "barred ?w' x" if "barred w x" for x
    using alarms by (intro barred_kept[OF conclude_step[OF w same] that]) simp
  with no show ?thesis
    unfolding bars_def concl by (auto simp: conclusion_to_insert_def)
qed

lemma bars_purge:
  assumes w: "world_ok vf w"
  shows "bars w (w\<lparr>w_db := snd (purgeArchivedExperimentsInEnvironment scope (w_db w))\<rparr>)"
proof (cases "purgeArchivedExperimentsInEnvironment scope (w_db w)")
  case (Pair res s')
  show ?thesis
  proof (cases res)
    case (Inl e)
    then have "s' = w_db w"
      using Pair by (auto simp: purgeArchivedExperimentsInEnvironment_def d1_batch_def split: sum.splits prod.splits)
    with Pair show ?thesis by (simp add: bars_refl)
  next
    case (Inr u)
    then have purge: "purgeArchivedExperimentsInEnvironment scope (w_db w) = (Inr (), s')" using Pair by simp
    note sh = purge_shape[OF purge]
    have good: "good_step vf w (w\<lparr>w_db := s'\<rparr>)" using purge_step[OF w, of scope] Pair by simp
    have "barred (w\<lparr>w_db := s'\<rparr>) x" if "barred w x" for x
    proof (rule barred_kept[OF good that])
      fix a r assume a: "a \<in> set (run_srm_alarms (w_db w))" "al_run a = rn_id r"
        and r: "r \<in> set (runs (w_db (w\<lparr>w_db := s'\<rparr>)))"
      have r': "r \<in> set (runs (w_db w))" "\<not> purged_run scope (w_db w) r"
        using r by (simp_all add: sh(1))
      have "q = r" if "q \<in> set (runs (w_db w))" "rn_id q = al_run a" for q
        using run_by_id[OF world_okD(1)[OF w] that(1) r'(1)] that(2) a(2) by simp
      with r'(2) a(1) show "a \<in> set (run_srm_alarms (w_db (w\<lparr>w_db := s'\<rparr>)))"
        by (auto simp: sh(6) list_ex_iff)
    qed
    then show ?thesis using Pair sh(3) by (simp add: bars_def)
  qed
qed

lemma step_keeps_bars: "lifecycle_step vf w w' \<Longrightarrow> world_ok vf w \<Longrightarrow> bars w w'"
proof (induction rule: lifecycle_step.induct)
  case (create e w scope)
  then show ?case
    by (intro bars_same[OF create_step]) (simp_all add: insertExperiment_def Let_def split: option.split)
next
  case (start scope e w i)
  then show ?case
    using start_alarms[OF world_okD(1)[OF start.prems], of scope i] by (intro bars_same[OF start_step]) simp_all
next
  case (end_run i w scope h)
  then show ?case
    using end_alarms[OF world_okD(1)[OF end_run.prems] end_run.hyps] by (intro bars_same[OF end_step]) simp_all
next
  case (replace w app r)
  then show ?case using replacement_alarms[of app r "w_db w"] by (intro bars_same[OF replace_step]) simp_all
next
  case (alarm w scope a)
  then show ?case by (intro bars_same[OF alarm_step]) (auto simp: insertIgnore_def Let_def)
next
  case (archive w scope x t u)
  then show ?case by (intro bars_same[OF archive_step]) (simp_all add: archiveExperiment_def Let_def)
next
  case (patch scope x p l w)
  then show ?case by (intro bars_same[OF patch_step]) (simp_all add: updateExperiment_def Let_def)
next
  case (others s' w)
  then show ?case by (intro bars_same[OF core_step]) (simp_all add: core_eq)
next
  case (conclude c w scope)
  show ?case by (rule bars_conclude[OF conclude.prems conclude.hyps])
next
  case (purge w scope)
  show ?case by (rule bars_purge[OF purge])
qed (simp_all add: bars_def barred_def)

lemma history_bars:
  assumes "world_ok vf w" "reaches (lifecycle_step vf) w w'" shows "bars w w'"
  using assms(2,1)
proof (rule lifecycle.mono_reaches[rotated -2])
  show "bars s t" if "world_ok vf s" "lifecycle_step vf s t" for s t
    by (rule step_keeps_bars[OF that(2,1)])
qed (rule bars_refl, rule bars_trans)

section \<open>A history\<close>

definition smp_scope :: env_scope where
  "smp_scope = \<lparr>s_app = ''a'', s_env = ''v''\<rparr>"

definition smp_db :: db where
  "smp_db = \<lparr>apps = [\<lparr>pp_id = ''a'', pp_organization = ''o''\<rparr>],
     environments = [\<lparr>ev_id = ''v'', ev_app = ''a'', ev_policy = JObj []\<rparr>],
     memberships = [\<lparr>mb_app = ''a'', mb_user = ''u'', mb_role = ''admin''\<rparr>], 
     flags = [\<lparr>fl_id = ''f'', fl_app = ''a'', fl_version = 1, fl_updatedAt = [], fl_updatedBy = None\<rparr>],
     flag_variants = [\<lparr>vt_id = ''c'', vt_flag = ''f'', vt_name = ''on'', vt_value = ''true'', vt_description = None,
       vt_createdAt = []\<rparr>],
     flag_configs = [\<lparr>fc_id = ''g'', fc_app = ''a'', fc_env = ''v'', fc_flag = ''f'', fc_enabled = False, fc_available = [],
       fc_defaultVariant = None, fc_rollout = None, fc_updatedAt = [], fc_updatedBy = None, fc_updatedVia = None,
       fc_version = 3\<rparr>], segments = [], targeting_rules = [],
     experiments = [], runs = [], run_srm_alarms = [], experiment_conclusions = [], approval_requests = [],
     approval_reviews = [], conclusion_approval_requests = [], control_plane_audit_events = [], changes = 0\<rparr>"

definition smp_row :: experiment_row where
  "smp_row = \<lparr>ex_id = ''e'', ex_app = ''a'', ex_env = ''v'', ex_key = ''k'', ex_flag = ''f'', ex_name = [],
     ex_description = None, ex_hypothesis = None, ex_owner = None, ex_tags = [], ex_status = ''draft'',
     ex_keyField = ''id'', ex_keyType = ''user'', ex_confidence = Fin 1, ex_defaultVariant = Some ''c'',
     ex_metrics = [], ex_guardrails = [], ex_activation = None, ex_window = 1, ex_dimensions = [],
     ex_draftAllocation = Some ''x'', ex_draftSalt = None, ex_draftRules = None, ex_draftSegments = None,
     ex_liveRun = None, ex_createdAt = [], ex_updatedAt = [], ex_createdBy = None, ex_updatedBy = None\<rparr>"

definition smp_snapshot :: run_snapshot where
  "smp_snapshot = \<lparr>sn_keyField = ''id'', sn_keyType = ''user'', sn_activation = None, sn_salt = ''s'',
     sn_allocation = ''x'', sn_variantSet = [], sn_control = ''c'', sn_rules = [], sn_confidence = Fin 1,
     sn_horizon = [], sn_targetN = None, sn_analysisVersion = None, sn_targetNSource = None,
     sn_plannedDays = None, sn_overrideReason = None, sn_preRegistration = None, sn_sampleSize = None,
     sn_family = [], sn_guardrails = [], sn_variance = [], sn_configHash = [], sn_startedAt = ''t'',
     sn_startReason = None, sn_createdAt = ''t'', sn_createdBy = None\<rparr>"

definition smp_start :: start_input where
  "smp_start = \<lparr>si_audit = None, si_experiment = ''e'', si_flag = ''f'',
     si_draft = \<lparr>sd_allocation = Some ''x'', sd_salt = None, sd_rules = None, sd_segments = None,
       sd_liveRun = None, sd_defaultVariant = ''c''\<rparr>,
     si_runId = ''r'', si_snapshot = smp_snapshot, si_endedAt = ''t'', si_updatedAt = ''t'',
     si_updatedBy = None, si_approval = None\<rparr>"

definition smp_end :: end_input where
  "smp_end = \<lparr>ei_audit = None, ei_experiment = ''e'', ei_run = ''r'', ei_expectedLive = ''r'',
     ei_endedAt = ''z'', ei_endReason = None, ei_updatedAt = ''z'', ei_updatedBy = None\<rparr>"

definition smp_alarm :: alarm_input where
  "smp_alarm = \<lparr>li_run = ''r'', li_kind = ''exposure'', li_firstCrossedAt = ''y'', li_watermark = ''y'',
     li_pValue = Fin 0, li_version = ''1''\<rparr>"

definition smp_conclude :: conclude_input where
  "smp_conclude = \<lparr>ci_requestId = None,
     ci_conclusion = \<lparr>cn_id = ''q'', cn_app = ''a'', cn_env = ''v'', cn_experiment = ''e'', cn_run = ''r'',
       cn_variant = ''c'', cn_configHash = [], cn_resultToken = [], cn_watermark = [], cn_snapshot = [],
       cn_failures = [], cn_checks = [], cn_targetEnv = ''v'', cn_targetFlag = ''f'', cn_targetVersion = 3,
       cn_proposed = [], cn_reason = None, cn_by = ''u'', cn_via = [], cn_at = ''z'', cn_key = ''i'', cn_hash = []\<rparr>,
     ci_approval = \<lparr>ap_id = ''p'', ap_app = ''a'', ap_operation = [], ap_targetType = [], ap_targetId = [],
       ap_targetVersion = [], ap_contexts = JArr [], ap_guardContexts = None, ap_diff = [], ap_status = ''pending'',
       ap_by = ''u'', ap_via = [], ap_at = ''z'', ap_resolvedAt = None, ap_resultVersion = None,
       ap_resultType = None, ap_resultId = None, ap_key = ''i'', ap_hash = []\<rparr>,
     ci_expectedLive = ''r'', ci_expectedVersion = 3\<rparr>"

text \<open>An Experiment is created, read and started.\<close>

definition smp_created :: world where
  "smp_created = (new_world smp_db)\<lparr>w_db := snd (insertExperiment smp_scope (created_row smp_row) (w_db (new_world smp_db)))\<rparr>"

definition smp_read :: world where
  "smp_read = smp_created\<lparr>w_reads := (smp_scope, smp_row) # w_reads smp_created\<rparr>"

definition smp_running :: world where
  "smp_running = smp_read\<lparr>w_db := snd (runStartBatch smp_scope smp_start (w_db smp_read)), w_ids := ''r'' # w_ids smp_read\<rparr>"

definition smp_ended :: world where
  "smp_ended = smp_running\<lparr>w_db := snd (runEndBatch smp_scope smp_end [] (w_db smp_running))\<rparr>"

definition smp_alarmed :: world where
  "smp_alarmed = smp_running\<lparr>w_db := snd (insertIgnore smp_scope smp_alarm (w_db smp_running))\<rparr>"

definition smp_refused :: world where
  "smp_refused = smp_alarmed\<lparr>w_db := snd (commit smp_scope smp_conclude (w_db smp_alarmed))\<rparr>"

lemma smp_evaluated:
  "map ex_status (experiments (w_db smp_running)) = [''running'']"
  "map rn_status (runs (w_db smp_running)) = [''running'']"
  "map rn_status (runs (w_db smp_ended)) = [''ended'']"
  "map al_run (run_srm_alarms (w_db smp_alarmed)) = [''r'']"
  "smp_row \<in> set (experiments (w_db smp_created))"
  "list_ex (\<lambda>e. ex_status e = ''running'') (experiments (w_db smp_running))"
  by code_simp+

definition smp_concluded :: world where
  "smp_concluded = smp_running\<lparr>w_db := snd (commit smp_scope smp_conclude (w_db smp_running))\<rparr>"

definition smp_archived :: world where
  "smp_archived = smp_concluded\<lparr>w_db := snd (archiveExperiment smp_scope ''e'' ''w'' ''u'' (w_db smp_concluded))\<rparr>"

lemma smp_histories:
  "reaches (lifecycle_step (\<lambda>_. ''f'')) (new_world smp_db) smp_running"
  "reaches (lifecycle_step (\<lambda>_. ''f'')) smp_running smp_ended"
  "reaches (lifecycle_step (\<lambda>_. ''f'')) (new_world smp_db) smp_alarmed"
  "reaches (lifecycle_step (\<lambda>_. ''f'')) smp_alarmed smp_refused"
proof -
  let ?S = "lifecycle_step (\<lambda>_. ''f'')"
  have vf: "vf_ok (\<lambda>_. ''f'') smp_row" by (simp add: vf_ok_def smp_row_def)
  have "?S (new_world smp_db) smp_created"
    unfolding smp_created_def by (rule lifecycle_step.create[OF vf])
  moreover have "?S smp_created smp_read"
    unfolding smp_read_def
    by (rule lifecycle_step.read[OF smp_evaluated(5)]) (simp_all add: smp_row_def smp_scope_def)
  moreover have "?S smp_read (smp_read\<lparr>w_db := snd (runStartBatch smp_scope smp_start (w_db smp_read)),
      w_ids := si_runId smp_start # w_ids smp_read\<rparr>)"
    by (rule lifecycle_step.start[where e = smp_row])
      (simp_all add: smp_read_def smp_created_def new_world_def smp_row_def smp_start_def)
  then have "?S smp_read smp_running" by (simp add: smp_running_def smp_start_def)
  ultimately show run: "reaches ?S (new_world smp_db) smp_running"
    by (meson reaches.intros)
  have "?S smp_running smp_ended"
    unfolding smp_ended_def by (rule lifecycle_step.end_run) (simp add: smp_end_def)
  then show "reaches ?S smp_running smp_ended" by (meson reaches.intros)
  have "?S smp_running smp_alarmed"
    unfolding smp_alarmed_def by (rule lifecycle_step.alarm)
  with run show "reaches ?S (new_world smp_db) smp_alarmed" by (rule reaches.there)
  have "?S smp_alarmed smp_refused"
    unfolding smp_refused_def by (rule lifecycle_step.conclude) (simp add: smp_conclude_def)
  then show "reaches ?S smp_alarmed smp_refused" by (meson reaches.intros)
qed

section \<open>The properties\<close>



text \<open>
  C7: After any history every row is of its type: an Experiment is a draft, running or archived
  and has a live Run exactly when it runs; a Run is running or ended and has a time of end
  exactly when it ended; and the Runs of an Experiment carry the numbers 1, 2, 3, ... in the
  order they were started, without a gap.
\<close>

theorem rows_well_typed:
  assumes "reaches (lifecycle_step vf) (new_world s) w"
  shows "list_all (\<lambda>e. ex_status e \<in> {''draft'', ''running'', ''archived''}
      \<and> (ex_status e = ''running'' \<longleftrightarrow> ex_liveRun e \<noteq> None)) (experiments (w_db w))
    \<and> list_all (\<lambda>r. rn_status r \<in> {''running'', ''ended''} \<and> (rn_status r = ''ended'' \<longleftrightarrow> rn_endedAt r \<noteq> None))
      (runs (w_db w))
    \<and> (let ns = map rn_number (filter (in_scope_run scope x) (runs (w_db w))) in ns = map int [1..<Suc (length ns)])"
proof (intro conjI)
  have ok: "lifecycle_ok (w_db w)" by (rule world_okD(1)[OF history_ok[OF assms]])
  show "list_all (\<lambda>e. ex_status e \<in> {''draft'', ''running'', ''archived''}
      \<and> (ex_status e = ''running'' \<longleftrightarrow> ex_liveRun e \<noteq> None)) (experiments (w_db w))"
    using ok unfolding lifecycle_ok_def experiments_ok_def list_all_iff by blast
  show "list_all (\<lambda>r. rn_status r \<in> {''running'', ''ended''} \<and> (rn_status r = ''ended'' \<longleftrightarrow> rn_endedAt r \<noteq> None))
      (runs (w_db w))"
    using ok unfolding lifecycle_ok_def runs_ok_def list_all_iff by fastforce
  show "let ns = map rn_number (filter (in_scope_run scope x) (runs (w_db w))) in ns = map int [1..<Suc (length ns)]"
    using ok unfolding lifecycle_ok_def numbers_ok_def numbered_def Let_def by blast
qed

theorem rows_well_typed_witness:
  "runs (w_db smp_running) \<noteq> [] \<and> list_all (\<lambda>r. rn_status r \<in> {''running'', ''ended''}
     \<and> (rn_status r = ''ended'' \<longleftrightarrow> rn_endedAt r \<noteq> None)) (runs (w_db smp_running))"
proof
  show "runs (w_db smp_running) \<noteq> []" using smp_evaluated(2) by auto
qed (rule conjunct1[OF conjunct2[OF rows_well_typed[OF smp_histories(1)]]])

text \<open>
  C6: A Run is frozen. Along any history the row of a Run stays as it is until it goes from
  running to ended, once, and its number and everything Start froze never change; and as long
  as an Experiment keeps its live Run, its Flag, Targeting Key, id type, activation Metric
  and default Variant do not change either, whatever PATCHes race with Starts and Ends.
\<close>

theorem run_is_frozen:
  assumes "reaches (lifecycle_step vf) (new_world s) u" "reaches (lifecycle_step vf) u w"
  shows "(\<forall>r\<in>set (runs (w_db u)). \<forall>r'\<in>set (runs (w_db w)). rn_id r' = rn_id r \<longrightarrow>
        r' = r \<or> rn_status r = ''running'' \<and> rn_status r' = ''ended'' \<and> rn_endedAt r' \<noteq> None
          \<and> rn_experiment r' = rn_experiment r \<and> rn_number r' = rn_number r \<and> rn_snapshot r' = rn_snapshot r)
    \<and> (\<forall>e\<in>set (experiments (w_db u)). \<forall>e'\<in>set (experiments (w_db w)).
        ex_liveRun e \<noteq> None \<and> ex_liveRun e' = ex_liveRun e \<longrightarrow>
        ex_id e' = ex_id e \<and> frozen_columns e' = frozen_columns e)"
proof (intro conjI ballI impI)
  have u: "world_ok vf u" by (rule history_ok[OF assms(1)])
  have on: "onward u w" by (rule history_onward[OF u assms(2)])
  {
    fix r r' assume r: "r \<in> set (runs (w_db u))" "r' \<in> set (runs (w_db w))" "rn_id r' = rn_id r"
    have "rn_id r' \<in> set (w_ids u)" using world_okD(2)[OF u] r by auto
    then obtain q where q: "q \<in> set (runs (w_db u))" "run_evolves q r'"
      using on r(2) unfolding onward_def runs_evolve_def by blast
    have "q = r" using run_by_id[OF world_okD(1)[OF u] q(1) r(1)] run_evolves_same[OF q(2)] r(3) by simp
    with q(2) show "r' = r \<or> rn_status r = ''running'' \<and> rn_status r' = ''ended'' \<and> rn_endedAt r' \<noteq> None
        \<and> rn_experiment r' = rn_experiment r \<and> rn_number r' = rn_number r \<and> rn_snapshot r' = rn_snapshot r"
      by (auto simp: run_evolves_def)
  next
    fix e e' assume e: "e \<in> set (experiments (w_db u))" "e' \<in> set (experiments (w_db w))"
      and "ex_liveRun e \<noteq> None \<and> ex_liveRun e' = ex_liveRun e"
    then obtain x where x: "ex_liveRun e = Some x" "ex_liveRun e' = Some x" by auto
    obtain r where r: "r \<in> set (runs (w_db u))" "rn_id r = x" "run_of e r" "rn_status r = ''running''"
      by (rule live_is_running[OF world_okD(1)[OF u] e(1) x(1)])
    then have "x \<in> set (w_ids u)" using world_okD(2)[OF u] by blast
    then obtain f where f: "f \<in> set (experiments (w_db u))" "ex_id f = ex_id e'" "ex_liveRun f = Some x"
        "frozen_columns f = frozen_columns e'"
      using on e(2) x(2) unfolding onward_def traces_def by blast
    obtain q where q: "q \<in> set (runs (w_db u))" "rn_id q = x" "run_of f q"
      by (rule live_is_running[OF world_okD(1)[OF u] f(1,3)])
    have "q = r" by (rule run_by_id[OF world_okD(1)[OF u] q(1) r(1)]) (simp add: q r)
    then have "f = e" using experiment_by_id[OF world_okD(1)[OF u] f(1) e(1)] q(3) r(3) by (simp add: run_of_def)
    with f show "ex_id e' = ex_id e" "frozen_columns e' = frozen_columns e" by simp_all
  }
qed

theorem run_is_frozen_witness:
  "\<exists>r\<in>set (runs (w_db smp_running)). \<exists>r'\<in>set (runs (w_db smp_ended)).
     rn_status r = ''running'' \<and> rn_status r' = ''ended'' \<and> rn_snapshot r' = rn_snapshot r"
proof -
  have "runs (w_db smp_running) \<noteq> []" "runs (w_db smp_ended) \<noteq> []"
    "\<forall>r\<in>set (runs (w_db smp_running)). \<forall>r'\<in>set (runs (w_db smp_ended)). rn_id r' = rn_id r \<and> r' \<noteq> r"
    by code_simp+
  with run_is_frozen[OF smp_histories(1,2)] show ?thesis by (metis list.set_sel(1))
qed

text \<open>
  C8: A conclusion is all or nothing. On every state a history reaches, the batch commits
  exactly when the Run is the live Run of its Experiment, the target Configuration is at the
  expected version, the actor is an owner or admin, no alarm of the Run is recorded and none
  of the new rows is taken; then the Run is ended, the Experiment is a draft again, and the
  conclusion, its Approval Request and the link are there. Otherwise nothing changes.
\<close>

theorem conclude_atomic:
  assumes "reaches (lifecycle_step vf) (new_world s) w" "ci_expectedLive c = cn_run (ci_conclusion c)"
  shows "if conclude_guard scope c (w_db w) \<and> conclude_rows_free scope c (w_db w)
    then \<exists>rs s'. commit scope c (w_db w) = (Committed rs, s') \<and> core s' = core (concluded scope c (w_db w))
      \<and> approval_requests s' = approval_requests (concluded scope c (w_db w))
    else snd (commit scope c (w_db w)) = w_db w \<and> (\<nexists>rs. fst (commit scope c (w_db w)) = Committed rs)"
  by (rule conclude_batch[OF world_okD(1)[OF history_ok[OF assms(1)]] assms(2)])

theorem conclude_atomic_witness:
  "\<exists>rs s'. commit smp_scope smp_conclude (w_db smp_running) = (Committed rs, s')
     \<and> core s' = core (concluded smp_scope smp_conclude (w_db smp_running))"
proof -
  have same: "ci_expectedLive smp_conclude = cn_run (ci_conclusion smp_conclude)" by (simp add: smp_conclude_def)
  have "conclude_guard smp_scope smp_conclude (w_db smp_running)
      \<and> conclude_rows_free smp_scope smp_conclude (w_db smp_running)"
    by code_simp
  with conclude_atomic[OF smp_histories(1) same, of smp_scope] show ?thesis by auto
qed

text \<open>
  C9: A recorded sample ratio alarm bars the conclusion of its Run for good: no later history,
  purges included, adds a conclusion of that Run.
\<close>

theorem alarm_bars_conclusion:
  assumes "reaches (lifecycle_step vf) (new_world s) u" "reaches (lifecycle_step vf) u w"
    "r \<in> set (runs (w_db u))" "a \<in> set (run_srm_alarms (w_db u))"
    "al_run a = rn_id r" "al_app a = rn_app r" "al_env a = rn_env r"
  shows "\<forall>c\<in>set (experiment_conclusions (w_db w)). cn_run c = rn_id r \<longrightarrow> c \<in> set (experiment_conclusions (w_db u))"
proof -
  have u: "world_ok vf u" by (rule history_ok[OF assms(1)])
  have "q = r" if "q \<in> set (runs (w_db u))" "rn_id q = rn_id r" for q
    by (rule run_by_id[OF world_okD(1)[OF u] that(1) assms(3) that(2)])
  then have "barred u (rn_id r)"
    using world_okD(2)[OF u] assms(3-7) unfolding barred_def by blast
  with history_bars[OF u assms(2)] show ?thesis by (simp add: bars_def)
qed

theorem alarm_bars_conclusion_witness:
  "map al_run (run_srm_alarms (w_db smp_alarmed)) = [''r'']
   \<and> filter (\<lambda>c. cn_run c = ''r'') (experiment_conclusions (w_db smp_refused)) = []"
proof -
  have rows: "run_srm_alarms (w_db smp_alarmed) \<noteq> []" "runs (w_db smp_alarmed) \<noteq> []"
    "experiment_conclusions (w_db smp_alarmed) = []"
    "\<forall>a\<in>set (run_srm_alarms (w_db smp_alarmed)). \<forall>r\<in>set (runs (w_db smp_alarmed)). rn_id r = ''r''
       \<and> al_run a = rn_id r \<and> al_app a = rn_app r \<and> al_env a = rn_env r"
    by code_simp+
  obtain r a where ra: "r \<in> set (runs (w_db smp_alarmed))" "a \<in> set (run_srm_alarms (w_db smp_alarmed))"
    using rows(1,2) by (meson list.set_sel(1))
  with rows(4) have facts: "rn_id r = ''r''" "al_run a = rn_id r" "al_app a = rn_app r" "al_env a = rn_env r"
    by blast+
  from alarm_bars_conclusion[OF smp_histories(3,4) ra facts(2-4)] rows(3) facts(1) smp_evaluated(4) show ?thesis
    by (simp add: filter_empty_conv)
qed

section \<open>What the guards leave open\<close>

text \<open>
  Start's compare-and-set does not look at the Targeting Key, the id type, the activation
  Metric or the confidence level: a PATCH of them between Start's read and its batch is not
  noticed, and the Run freezes the values that were read.
\<close>

lemma start_misses_patch:
  "draft_row scope i (x\<lparr>ex_keyField := k, ex_keyType := t, ex_activation := m, ex_confidence := l\<rparr>) = draft_row scope i x"
  by (simp add: draft_row_def)

definition smp_body :: patch_body where
  "smp_body = \<lparr>pb_name = None, pb_description = None, pb_hypothesis = None, pb_owner = None, pb_tags = None,
     pb_confidence = None, pb_metrics = None, pb_guardrails = None, pb_window = None, pb_dimensions = None,
     pb_flag = None, pb_targetingKey = Some ''org'', pb_keyType = None, pb_activation = None,
     pb_allocation = None, pb_salt = None, pb_rules = None, pb_segments = None, pb_variantSet = False,
     pb_stageForNextRun = False\<rparr>"

definition smp_patch :: experiment_patch where
  "smp_patch = experimentPatchFromBody smp_body None ''t'' ''u'' smp_row None"

definition smp_decided :: world where
  "smp_decided = smp_read\<lparr>w_writes := (smp_scope, ''e'', smp_patch, None) # w_writes smp_read\<rparr>"

definition smp_patched :: world where
  "smp_patched = smp_decided\<lparr>w_db := snd (updateExperiment smp_scope ''e'' smp_patch None (w_db smp_decided))\<rparr>"

definition smp_raced :: world where
  "smp_raced = smp_patched\<lparr>w_db := snd (runStartBatch smp_scope smp_start (w_db smp_patched)), w_ids := ''r'' # w_ids smp_patched\<rparr>"

text \<open>
  The history of such a race: the Start that read the row before the PATCH goes through, and
  the live Run and the row of its Experiment name different Targeting Keys from then on.
\<close>

lemma start_race:
  "reaches (lifecycle_step (\<lambda>_. ''f'')) smp_read smp_raced"
  "map (\<lambda>r. (rn_status r, sn_keyField (rn_snapshot r))) (runs (w_db smp_raced)) = [(''running'', ''id'')]"
  "map (\<lambda>e. (ex_liveRun e, ex_keyField e)) (experiments (w_db smp_raced)) = [(Some ''r'', ''org'')]"
proof -
  let ?S = "lifecycle_step (\<lambda>_. ''f'')"
  have reads: "(smp_scope, smp_row) \<in> set (w_reads smp_read)" by (simp add: smp_read_def)
  have "patch_decision smp_scope smp_row smp_body None ''t'' ''u'' (w_db smp_read) = Inr (Inr smp_patch)"
    unfolding smp_patch_def by code_simp
  from lifecycle_step.decide[OF reads this]
  have "?S smp_read smp_decided"
    by (simp add: smp_decided_def smp_row_def smp_body_def)
  moreover have "?S smp_decided smp_patched"
    unfolding smp_patched_def by (rule lifecycle_step.patch) (simp add: smp_decided_def)
  moreover have "?S smp_patched (smp_patched\<lparr>w_db := snd (runStartBatch smp_scope smp_start (w_db smp_patched)),
      w_ids := si_runId smp_start # w_ids smp_patched\<rparr>)"
    by (rule lifecycle_step.start[where e = smp_row])
      (simp_all add: smp_patched_def smp_decided_def smp_read_def smp_created_def new_world_def smp_row_def smp_start_def)
  then have "?S smp_patched smp_raced" by (simp add: smp_raced_def smp_start_def)
  ultimately show "reaches ?S smp_read smp_raced" by (meson reaches.intros)
  show "map (\<lambda>r. (rn_status r, sn_keyField (rn_snapshot r))) (runs (w_db smp_raced)) = [(''running'', ''id'')]"
    "map (\<lambda>e. (ex_liveRun e, ex_keyField e)) (experiments (w_db smp_raced)) = [(Some ''r'', ''org'')]"
    by code_simp+
qed

text \<open>The purge of an Environment throws as long as one of its archived Experiments has a concluded Run.\<close>

lemma concluded_run_blocks_purge:
  "purgeArchivedExperimentsInEnvironment smp_scope (w_db smp_archived) = (Inl ForeignKeyViolation, w_db smp_archived)
   \<and> map ex_status (experiments (w_db smp_archived)) = [''archived'']"
  by code_simp

end
