(* ===== verification/Approvals.thy ===== *)
theory Approvals
  imports RunEnd "HOL-Library.Product_Lexorder"
begin

text \<open>
  Approval Requests and their Reviews, \<open>packages/db/src/repo\<close>: the repository of
  \<open>approvals.ts\<close>, the statements that apply a Request (\<open>approval-atomic.ts\<close>) or resolve it
  without applying (\<open>approval-dispositions.ts\<close>), their audit row (\<open>approval-audit.ts\<close>), the
  idempotent creation (\<open>approval-request-create.ts\<close>) and the removal of an archived Request
  (\<open>approval-finalization.ts\<close>). An id that \<open>crypto.randomUUID\<close> would make is not kept.
\<close>

section \<open>Inputs\<close>

text \<open>\<open>ApprovalCommit\<close> is \<open>approval_commit\<close> of \<open>RunStart\<close>.\<close>

record disposition =
  dp_audit :: "audit_context option"
  dp_requestId :: string
  dp_reviewId :: string
  dp_action :: string
  dp_outcome :: string
  dp_by :: string
  dp_via :: string
  dp_at :: string
  dp_reason :: "string option"
  dp_key :: string
  dp_hash :: string
  dp_cause :: "(string \<times> string) option"

datatype target_state = RolledBack | AppliedTarget | UnknownTarget

definition target_state_text :: "target_state \<Rightarrow> string" where
  "target_state_text t = (case t of RolledBack \<Rightarrow> ''rolled_back'' | AppliedTarget \<Rightarrow> ''applied''
     | UnknownTarget \<Rightarrow> ''unknown'')"

record review_failure =
  fa_audit :: "audit_context option"
  fa_requestId :: string
  fa_reviewId :: string
  fa_by :: string
  fa_via :: string
  fa_at :: string
  fa_reason :: "string option"
  fa_key :: string
  fa_hash :: string
  fa_errorCode :: string
  fa_errorDetails :: string
  fa_targetState :: target_state

section \<open>The guard of an approved write\<close>

definition currentReviewerCondition :: "string \<Rightarrow> string \<Rightarrow> db \<Rightarrow> bool" where
  "currentReviewerCondition app user s \<longleftrightarrow> list_ex (\<lambda>m. mb_app m = app \<and> mb_user m = user
     \<and> (mb_role m = ''owner'' \<or> mb_role m = ''admin'')) (memberships s)"

definition policyLevelCondition :: "jsval \<Rightarrow> change_type \<Rightarrow> string \<Rightarrow> bool" where
  "policyLevelCondition policy t level \<longleftrightarrow> (case t of
     VariantAvailability \<Rightarrow> jprop policy ''variantAvailability'' = JStr level
   | TargetingRolloutValue \<Rightarrow> jprop policy ''targetingRolloutValue'' = JStr level
   | EnabledState \<Rightarrow> jprop policy ''enabledState'' = JStr level
   | StartExperimentRun \<Rightarrow> jprop policy ''startExperimentRun'' = JStr level)"

definition currentPolicyCondition :: "string \<Rightarrow> policy_guard \<Rightarrow> db \<Rightarrow> bool" where
  "currentPolicyCondition app g s \<longleftrightarrow> list_ex (\<lambda>e. ev_app e = app \<and> ev_id e = pg_env g
     \<and> list_all (\<lambda>t. policyLevelCondition (ev_policy e) t (pg_level g)) (pg_changeTypes g)) (environments s)"

definition approvalPendingCondition :: "string \<Rightarrow> approval_commit \<Rightarrow> db \<Rightarrow> bool" where
  "approvalPendingCondition app c s \<longleftrightarrow> list_ex (\<lambda>r. ap_app r = app \<and> ap_id r = ac_requestId' c
     \<and> ap_status r = ''pending'' \<and> currentReviewerCondition app (ac_reviewedBy c) s
     \<and> list_all (\<lambda>g. currentPolicyCondition app g s) (ac_policyContexts c)) (approval_requests s)"

text \<open>The Review row of this very attempt is there.\<close>

definition reviewRecorded :: "string \<Rightarrow> approval_commit \<Rightarrow> db \<Rightarrow> bool" where
  "reviewRecorded app c s \<longleftrightarrow> list_ex (\<lambda>v. rv_app v = app \<and> rv_id v = ac_reviewId c
     \<and> rv_request v = ac_requestId' c) (approval_reviews s)"

section \<open>The statements\<close>

definition pending_request :: "string \<Rightarrow> string \<Rightarrow> db \<Rightarrow> bool" where
  "pending_request app r s \<longleftrightarrow> list_ex (\<lambda>q. ap_app q = app \<and> ap_id q = r \<and> ap_status q = ''pending'')
     (approval_requests s)"

text \<open>The Review is selected out of the pending Request it reviews; ids of Requests are unique.\<close>

definition reviewInsert :: "(db \<Rightarrow> bool) \<Rightarrow> review_row \<Rightarrow> stmt" where
  "reviewInsert evidence v s =
     insert_if (pending_request (rv_app v) (rv_request v) s \<and> evidence s) (review_insertable s v) (rv_id v)
       (\<lambda>s. s\<lparr>approval_reviews := approval_reviews s @ [v]\<rparr>) s"

definition applied_review :: "string \<Rightarrow> approval_commit \<Rightarrow> review_row" where
  "applied_review app c = \<lparr>rv_id = ac_reviewId c, rv_app = app, rv_request = ac_requestId' c,
     rv_action = ''approve_and_apply'', rv_outcome = ''applied'', rv_by = ac_reviewedBy c,
     rv_via = ac_reviewedVia c, rv_at = ac_reviewedAt c, rv_reason = ac_reason c, rv_key = ac_key c,
     rv_hash = ac_hash c, rv_resultVersion = Some (ac_resultVersion c),
     rv_resultType = Some (ac_resultType c), rv_resultId = Some (ac_resultId c),
     rv_errorCode = None, rv_errorDetails = None, rv_targetState = None\<rparr>"

definition appliedReviewInsert :: "string \<Rightarrow> approval_commit \<Rightarrow> (db \<Rightarrow> bool) \<Rightarrow> stmt" where
  "appliedReviewInsert app c evidence = reviewInsert evidence (applied_review app c)"

text \<open>\<open>sql`changes() = 1`\<close>, the default evidence of an applied Review.\<close>

definition changed_one :: "db \<Rightarrow> bool" where
  "changed_one s \<longleftrightarrow> changes s = 1"

definition resolve_request :: "(approval_row \<Rightarrow> approval_row) \<Rightarrow> (db \<Rightarrow> approval_row \<Rightarrow> bool) \<Rightarrow> stmt" where
  "resolve_request f P s = Inr (s\<lparr>approval_requests := set_where (P s) f (approval_requests s),
     changes := length (filter (P s) (approval_requests s))\<rparr>, map ap_id (filter (P s) (approval_requests s)))"

definition appliedRequestUpdate :: "string \<Rightarrow> approval_commit \<Rightarrow> stmt" where
  "appliedRequestUpdate app c = resolve_request
     (\<lambda>q. q\<lparr>ap_status := ''applied'', ap_resolvedAt := Some (ac_reviewedAt c),
        ap_resultVersion := Some (ac_resultVersion c), ap_resultType := Some (ac_resultType c),
        ap_resultId := Some (ac_resultId c)\<rparr>)
     (\<lambda>s q. ap_app q = app \<and> ap_id q = ac_requestId' c \<and> ap_status q = ''pending'' \<and> reviewRecorded app c s)"

definition disposition_review :: "string \<Rightarrow> disposition \<Rightarrow> review_row" where
  "disposition_review app d = \<lparr>rv_id = dp_reviewId d, rv_app = app, rv_request = dp_requestId d,
     rv_action = dp_action d, rv_outcome = dp_outcome d, rv_by = dp_by d, rv_via = dp_via d, rv_at = dp_at d,
     rv_reason = dp_reason d, rv_key = dp_key d, rv_hash = dp_hash d, rv_resultVersion = None,
     rv_resultType = None, rv_resultId = None, rv_errorCode = map_option fst (dp_cause d),
     rv_errorDetails = map_option snd (dp_cause d), rv_targetState = None\<rparr>"

definition dispositionQueries :: "string \<Rightarrow> disposition \<Rightarrow> stmt list" where
  "dispositionQueries app d =
    [reviewInsert (currentReviewerCondition app (dp_by d)) (disposition_review app d),
     resolve_request (\<lambda>q. q\<lparr>ap_status := dp_outcome d, ap_resolvedAt := Some (dp_at d)\<rparr>)
       (\<lambda>s q. ap_app q = app \<and> ap_id q = dp_requestId d \<and> ap_status q = ''pending''
          \<and> currentReviewerCondition app (dp_by d) s
          \<and> list_ex (\<lambda>v. rv_app v = app \<and> rv_id v = dp_reviewId d \<and> rv_request v = dp_requestId d)
              (approval_reviews s))]"

definition failure_review :: "string \<Rightarrow> review_failure \<Rightarrow> review_row" where
  "failure_review app f = \<lparr>rv_id = fa_reviewId f, rv_app = app, rv_request = fa_requestId f,
     rv_action = ''approve_and_apply'', rv_outcome = ''failed'', rv_by = fa_by f, rv_via = fa_via f,
     rv_at = fa_at f, rv_reason = fa_reason f, rv_key = fa_key f, rv_hash = fa_hash f,
     rv_resultVersion = None, rv_resultType = None, rv_resultId = None,
     rv_errorCode = Some (fa_errorCode f), rv_errorDetails = Some (fa_errorDetails f),
     rv_targetState = Some (target_state_text (fa_targetState f))\<rparr>"

definition failureInsert :: "string \<Rightarrow> review_failure \<Rightarrow> stmt" where
  "failureInsert app f = reviewInsert (\<lambda>_. True) (failure_review app f)"

section \<open>The audit row of a Review\<close>

record audited_review =
  ad_requestId :: string
  ad_reviewId :: string
  ad_action :: string
  ad_by :: string
  ad_via :: string
  ad_at :: string
  ad_http :: "string option"
  ad_resultVersion :: "string option"
  ad_run :: "string option"
  ad_errorCode :: jsval

text \<open>\<open>json_extract(policy_contexts, '$[0].environmentId')\<close>\<close>

definition first_environment :: "jsval \<Rightarrow> string option" where
  "first_environment contexts = (case contexts of
     JArr (c # _) \<Rightarrow> (case jprop c ''environmentId'' of JStr x \<Rightarrow> Some x | _ \<Rightarrow> None)
   | _ \<Rightarrow> None)"

definition concluded_run :: "approval_row \<Rightarrow> db \<Rightarrow> string option" where
  "concluded_run q s = (case concat (map (\<lambda>l. map cn_run (filter (\<lambda>c. cn_app c = lk_app l \<and> cn_id c = lk_conclusion l)
       (experiment_conclusions s)))
       (filter (\<lambda>l. lk_app l = ap_app q \<and> lk_request l = ap_id q) (conclusion_approval_requests s))) of
     [] \<Rightarrow> None | r # _ \<Rightarrow> Some r)"

definition text_or_null :: "string option \<Rightarrow> jsval" where
  "text_or_null x = case_option Null JStr x"

definition approvalReviewAudit :: "string \<Rightarrow> audited_review \<Rightarrow> string \<Rightarrow> stmt" where
  "approvalReviewAudit app v outcome s =
    (let rows = (if changes s = 1 then
       concat (map (\<lambda>q. map (\<lambda>p. \<lparr>au_app = ap_app q, au_env = first_environment (ap_contexts q),
         au_organization = pp_organization p, au_actor = Some (ad_by v), au_via = Some (ad_via v),
         au_action = ''approval_request_reviews_create'', au_resourceType = ''approval_request'',
         au_resourceId = ap_id q, au_targetVersion = Some (ap_targetVersion q), au_outcome = outcome,
         au_requestId = ad_http v, au_approval = Some (ap_id q),
         au_run = (case ad_run v of Some r \<Rightarrow> Some r | None \<Rightarrow> concluded_run q s),
         au_changes = auditMetadata (JObj [(''reviewId'', JStr (ad_reviewId v)), (''reviewAction'', JStr (ad_action v)),
            (''resultingTargetVersion'', text_or_null (ad_resultVersion v)), (''errorCode'', ad_errorCode v)]),
         au_at = ad_at v\<rparr>) (filter (\<lambda>p. pp_id p = ap_app q) (apps s)))
         (filter (\<lambda>q. ap_app q = app \<and> ap_id q = ad_requestId v) (approval_requests s)))
       else [])
     in Inr (s\<lparr>control_plane_audit_events := control_plane_audit_events s @ rows, changes := length rows\<rparr>, []))"

text \<open>
  Only a commit names a resulting resource. A disposition and a failure have none; a commit
  and a disposition have no property \<open>errorCode\<close>, so it is \<open>null\<close> for them.
\<close>

definition audited_commit :: "approval_commit \<Rightarrow> audited_review" where
  "audited_commit c = \<lparr>ad_requestId = ac_requestId' c, ad_reviewId = ac_reviewId c, ad_action = ac_action c,
     ad_by = ac_reviewedBy c, ad_via = ac_reviewedVia c, ad_at = ac_reviewedAt c,
     ad_http = Option.bind (ac_audit c) ac_requestId, ad_resultVersion = Some (ac_resultVersion c),
     ad_run = (if ac_resultType c = ''experiment_run'' then Some (ac_resultId c) else None), ad_errorCode = Null\<rparr>"

definition audited_disposition :: "disposition \<Rightarrow> audited_review" where
  "audited_disposition d = \<lparr>ad_requestId = dp_requestId d, ad_reviewId = dp_reviewId d, ad_action = dp_action d,
     ad_by = dp_by d, ad_via = dp_via d, ad_at = dp_at d, ad_http = Option.bind (dp_audit d) ac_requestId,
     ad_resultVersion = None, ad_run = None, ad_errorCode = Null\<rparr>"

definition audited_failure :: "review_failure \<Rightarrow> audited_review" where
  "audited_failure f = \<lparr>ad_requestId = fa_requestId f, ad_reviewId = fa_reviewId f, ad_action = ''approve_and_apply'',
     ad_by = fa_by f, ad_via = fa_via f, ad_at = fa_at f, ad_http = Option.bind (fa_audit f) ac_requestId,
     ad_resultVersion = None, ad_run = None, ad_errorCode = JStr (fa_errorCode f)\<rparr>"

definition appliedReviewQueries :: "string \<Rightarrow> approval_commit \<Rightarrow> (db \<Rightarrow> bool) \<Rightarrow> stmt list" where
  "appliedReviewQueries app c evidence = [appliedReviewInsert app c evidence, appliedRequestUpdate app c,
     approvalReviewAudit app (audited_commit c) ''applied'']"

section \<open>The repository\<close>

definition getRequest :: "string \<Rightarrow> string \<Rightarrow> db \<Rightarrow> approval_row option" where
  "getRequest app r s = List.find (\<lambda>q. ap_app q = app \<and> ap_id q = r) (approval_requests s)"

definition requestByActorKey :: "string \<Rightarrow> string \<Rightarrow> string \<Rightarrow> db \<Rightarrow> approval_row option" where
  "requestByActorKey app proposedBy key s =
     List.find (\<lambda>q. ap_app q = app \<and> ap_by q = proposedBy \<and> ap_key q = key) (approval_requests s)"

definition reviewByActorKey :: "string \<Rightarrow> string \<Rightarrow> string \<Rightarrow> string \<Rightarrow> db \<Rightarrow> review_row option" where
  "reviewByActorKey app r reviewedBy key s = List.find (\<lambda>v. rv_app v = app \<and> rv_request v = r
     \<and> rv_by v = reviewedBy \<and> rv_key v = key) (approval_reviews s)"

definition listReviews :: "string \<Rightarrow> string \<Rightarrow> db \<Rightarrow> review_row list" where
  "listReviews app r s = sort_key (\<lambda>v. (rv_at v, rv_id v))
     (filter (\<lambda>v. rv_app v = app \<and> rv_request v = r) (approval_reviews s))"

definition latestReview :: "string \<Rightarrow> string \<Rightarrow> db \<Rightarrow> review_row option" where
  "latestReview app r s = (case listReviews app r s of [] \<Rightarrow> None | vs \<Rightarrow> Some (last vs))"

definition approvalReviewLanded :: "string \<Rightarrow> approval_commit \<Rightarrow> db \<Rightarrow> bool" where
  "approvalReviewLanded app c s \<longleftrightarrow> filter (\<lambda>v. rv_app v = app \<and> rv_id v = ac_reviewId c
     \<and> rv_request v = ac_requestId' c) (approval_reviews s) \<noteq> []"

text \<open>A page of Requests, newest first; the cursor is the last row of the page before.\<close>

record page_filters =
  pf_storedStatus :: "string list option"
  pf_targetType :: "string option"
  pf_environment :: "string option"
  pf_after :: "(string \<times> string) option"

definition names_environment :: "string \<Rightarrow> jsval \<Rightarrow> bool" where
  "names_environment env contexts \<longleftrightarrow> (case contexts of
     JArr cs \<Rightarrow> list_ex (\<lambda>c. jprop c ''environmentId'' = JStr env) cs | _ \<Rightarrow> False)"

definition pageFilters :: "page_filters \<Rightarrow> approval_row \<Rightarrow> bool" where
  "pageFilters p q \<longleftrightarrow>
     (case pf_storedStatus p of None \<Rightarrow> True | Some sts \<Rightarrow> ap_status q \<in> set sts)
   \<and> (case pf_targetType p of None \<Rightarrow> True | Some t \<Rightarrow> t = '''' \<or> ap_targetType q = t)
   \<and> (case pf_environment p of None \<Rightarrow> True | Some e \<Rightarrow> e = '''' \<or> names_environment e (ap_contexts q))
   \<and> (case pf_after p of None \<Rightarrow> True | Some k \<Rightarrow> (ap_at q, ap_id q) < k)"

definition listRequestPage :: "string \<Rightarrow> page_filters \<Rightarrow> nat \<Rightarrow> db \<Rightarrow> approval_row list" where
  "listRequestPage app p limit s = take limit (rev (sort_key (\<lambda>q. (ap_at q, ap_id q))
     (filter (\<lambda>q. ap_app q = app \<and> pageFilters p q) (approval_requests s))))"

definition countRequests :: "string \<Rightarrow> page_filters \<Rightarrow> db \<Rightarrow> nat" where
  "countRequests app p s = length (filter (\<lambda>q. ap_app q = app \<and> pageFilters (p\<lparr>pf_after := None\<rparr>) q)
     (approval_requests s))"

definition listArchiveCandidates :: "string \<Rightarrow> nat \<Rightarrow> db \<Rightarrow> approval_row list" where
  "listArchiveCandidates resolvedBefore limit s =
     take limit (sort_key (\<lambda>q. (case_option [] id (ap_resolvedAt q), ap_id q))
       (filter (\<lambda>q. ap_status q \<in> {''applied'', ''declined'', ''stale''}
          \<and> (case ap_resolvedAt q of None \<Rightarrow> False | Some t \<Rightarrow> t \<le> resolvedBefore)
          \<and> \<not> list_ex (\<lambda>l. lk_app l = ap_app q \<and> lk_request l = ap_id q) (conclusion_approval_requests s))
        (approval_requests s)))"

text \<open>Creation is idempotent per actor and key; a racing insert loses to the row that is there.\<close>

datatype create_result = CreatedRequest approval_row | ReplayedRequest approval_row | CreateConflict

definition createInsert :: "approval_row \<Rightarrow> stmt" where
  "createInsert q s = insert_if True (approval_insertable s q) (ap_id q)
     (\<lambda>s. s\<lparr>approval_requests := approval_requests s @ [q]\<rparr>) s"

definition createAudit :: "string \<Rightarrow> approval_row \<Rightarrow> string \<times> audit_context \<Rightarrow> stmt" where
  "createAudit app q a = auditStatement app
     \<lparr>ai_actorRef = ac_actorRef (snd a), ai_actorVia = ac_actorVia (snd a), ai_requestId = ac_requestId (snd a),
      ai_changedAt = fst a, ai_action = ap_operation q, ai_resourceType = ''approval_request'',
      ai_resourceId = ap_id q, ai_env = first_environment (ap_contexts q),
      ai_targetVersion = Some (ap_targetVersion q), ai_outcome = Some ''pending'',
      ai_approval = Some (ap_id q), ai_run = None, ai_metadata = Undefined\<rparr>"

definition replayed :: "approval_row \<Rightarrow> approval_row \<Rightarrow> create_result" where
  "replayed input q = (if ap_hash q = ap_hash input then ReplayedRequest q else CreateConflict)"

definition createRequest :: "string \<Rightarrow> approval_row \<Rightarrow> (string \<times> audit_context) option \<Rightarrow> db \<Rightarrow>
    (sql_error + create_result) \<times> db" where
  "createRequest app input audit s =
    (case requestByActorKey app (ap_by input) (ap_key input) s of
       Some existing \<Rightarrow> (Inr (replayed input existing), s)
     | None \<Rightarrow> (let q = input\<lparr>ap_app := app\<rparr> in
         case d1_batch (createInsert q # (case audit of None \<Rightarrow> [] | Some a \<Rightarrow> [createAudit app q a])) s of
           (Inr _, s') \<Rightarrow> (Inr (CreatedRequest q), s')
         | (Inl cause, s') \<Rightarrow> (case requestByActorKey app (ap_by input) (ap_key input) s' of
             None \<Rightarrow> (Inl cause, s')
           | Some winner \<Rightarrow> (Inr (replayed input winner), s'))))"

definition resolveWithoutApplication :: "string \<Rightarrow> disposition \<Rightarrow> db \<Rightarrow> (sql_error + bool) \<times> db" where
  "resolveWithoutApplication app d s =
    (case d1_batch (dispositionQueries app d @ [approvalReviewAudit app (audited_disposition d) (dp_outcome d)]) s of
       (Inl e, s') \<Rightarrow> (Inl e, s')
     | (Inr results, s') \<Rightarrow> (Inr (length (nth_result results 1) = 1), s'))"

definition recordApplied :: "string \<Rightarrow> approval_commit \<Rightarrow> db \<Rightarrow> (sql_error + bool) \<times> db" where
  "recordApplied app c s =
    (case d1_batch (appliedReviewQueries app c (approvalPendingCondition app c)) s of
       (Inl e, s') \<Rightarrow> (Inl e, s')
     | (Inr results, s') \<Rightarrow> (Inr (length (nth_result results 0) = 1 \<and> length (nth_result results 1) = 1), s'))"

definition recordFailure_review :: "string \<Rightarrow> review_failure \<Rightarrow> db \<Rightarrow> (sql_error + bool) \<times> db" where
  "recordFailure_review app f s =
    (case d1_batch [failureInsert app f, approvalReviewAudit app (audited_failure f) ''failed''] s of
       (Inl e, s') \<Rightarrow> (Inl e, s')
     | (Inr results, s') \<Rightarrow> (Inr (length (nth_result results 0) = 1), s'))"

section \<open>Removing an archived Request\<close>

record archive_input =
  av_request :: string
  av_resolvedAt :: string
  av_reviewCount :: int

definition linked :: "string \<Rightarrow> string \<Rightarrow> db \<Rightarrow> bool" where
  "linked app r s \<longleftrightarrow> list_ex (\<lambda>l. lk_app l = app \<and> lk_request l = r) (conclusion_approval_requests s)"

definition archived_request :: "string \<Rightarrow> archive_input \<Rightarrow> string \<Rightarrow> approval_row \<Rightarrow> bool" where
  "archived_request app i status q \<longleftrightarrow> ap_app q = app \<and> ap_id q = av_request i \<and> ap_status q = status
     \<and> ap_resolvedAt q = Some (av_resolvedAt i)"

definition deleteReviewsStatement :: "string \<Rightarrow> archive_input \<Rightarrow> string \<Rightarrow> stmt" where
  "deleteReviewsStatement app i status s =
    (let mine = (\<lambda>v. rv_app v = app \<and> rv_request v = av_request i);
         P = (\<lambda>v. mine v \<and> list_ex (archived_request app i status) (approval_requests s)
            \<and> \<not> linked app (av_request i) s
            \<and> int (length (filter mine (approval_reviews s))) = av_reviewCount i)
     in Inr (s\<lparr>approval_reviews := delete_where P (approval_reviews s),
          changes := length (filter P (approval_reviews s))\<rparr>, []))"

text \<open>Reviews and links of conclusions reference the Request.\<close>

definition deleteRequestStatement :: "string \<Rightarrow> archive_input \<Rightarrow> string \<Rightarrow> stmt" where
  "deleteRequestStatement app i status s =
    (let P = (\<lambda>q. archived_request app i status q
            \<and> \<not> list_ex (\<lambda>v. rv_app v = app \<and> rv_request v = av_request i) (approval_reviews s)
            \<and> \<not> linked app (av_request i) s);
         hit = filter P (approval_requests s)
     in if list_ex (\<lambda>q. list_ex (\<lambda>v. rv_request v = ap_id q) (approval_reviews s)
            \<or> list_ex (\<lambda>l. lk_request l = ap_id q) (conclusion_approval_requests s)) hit
        then Inl ForeignKeyViolation
        else Inr (s\<lparr>approval_requests := delete_where P (approval_requests s), changes := length hit\<rparr>, map ap_id hit))"

datatype archive_error = NegativeCount | ArchiveThrew sql_error | FinalizationFailed

definition finalizeApprovalArchive :: "string \<Rightarrow> archive_input \<Rightarrow> string \<Rightarrow> db \<Rightarrow> (archive_error + unit) \<times> db" where
  "finalizeApprovalArchive app i status s =
    (if av_reviewCount i < 0 then (Inl NegativeCount, s)
     else case d1_batch [deleteReviewsStatement app i status, deleteRequestStatement app i status] s of
       (Inl e, s') \<Rightarrow> (Inl (ArchiveThrew e), s')
     | (Inr results, s') \<Rightarrow> (if length (nth_result results 1) \<noteq> 1 then Inl FinalizationFailed else Inr (), s'))"

end
