(* ===== verification/FlagWrites.thy ===== *)
theory FlagWrites
  imports Approvals
begin

text \<open>
  The writes of a Flag's Configuration, its Targeting Rules and its Variants,
  \<open>packages/db/src/repo\<close>: \<open>flag-config-ops.ts\<close>, \<open>flag-config-direct-write.ts\<close>,
  \<open>flag-config-variant-refs.ts\<close>, \<open>flag-variant-ops.ts\<close>, \<open>flag-variant-approval.ts\<close>,
  \<open>flag-variant-create.ts\<close>, \<open>flag-variant-run-freeze.ts\<close> and \<open>updateSegment\<close> of \<open>flags.ts\<close>.
  Each operation reads the rows it is about to change and then runs one batch; the batch is a
  definition of its own, over what was read, because other writers may come in between.
\<close>

section \<open>Flag Configurations\<close>

record config_patch =
  kp_enabled :: "bool option"
  kp_available :: "string list option"
  kp_defaultVariant :: "string option option"
  kp_rollout :: "string option option"
  kp_updatedAt :: "string option"
  kp_updatedBy :: "string option option"
  kp_updatedVia :: "string option option"

definition patch_config :: "config_patch \<Rightarrow> int \<Rightarrow> config_row \<Rightarrow> config_row" where
  "patch_config p v c = c\<lparr>fc_enabled := nullish (kp_enabled p) (fc_enabled c),
     fc_available := nullish (kp_available p) (fc_available c),
     fc_defaultVariant := nullish (kp_defaultVariant p) (fc_defaultVariant c),
     fc_rollout := nullish (kp_rollout p) (fc_rollout c),
     fc_updatedAt := nullish (kp_updatedAt p) (fc_updatedAt c),
     fc_updatedBy := nullish (kp_updatedBy p) (fc_updatedBy c),
     fc_updatedVia := nullish (kp_updatedVia p) (fc_updatedVia c), fc_version := v\<rparr>"

definition scopedFlagConfig :: "env_scope \<Rightarrow> string \<Rightarrow> config_row \<Rightarrow> bool" where
  "scopedFlagConfig scope flag c \<longleftrightarrow> fc_app c = s_app scope \<and> fc_env c = s_env scope \<and> fc_flag c = flag"

definition scopedTargetingRule :: "env_scope \<Rightarrow> string \<Rightarrow> rule_row \<Rightarrow> bool" where
  "scopedTargetingRule scope flag r \<longleftrightarrow> tr_app r = s_app scope \<and> tr_env r = s_env scope \<and> tr_flag r = flag"

definition getFlagConfig :: "env_scope \<Rightarrow> string \<Rightarrow> db \<Rightarrow> config_row option" where
  "getFlagConfig scope flag s = List.find (scopedFlagConfig scope flag) (flag_configs s)"

definition getFlagConfigById :: "env_scope \<Rightarrow> string \<Rightarrow> db \<Rightarrow> config_row option" where
  "getFlagConfigById scope x s = List.find (\<lambda>c. fc_app c = s_app scope \<and> fc_env c = s_env scope \<and> fc_id c = x)
     (flag_configs s)"

definition listTargetingRules :: "env_scope \<Rightarrow> string \<Rightarrow> db \<Rightarrow> rule_row list" where
  "listTargetingRules scope flag s = filter (scopedTargetingRule scope flag) (targeting_rules s)"

definition readFlagConfigWithTargetingRules :: "env_scope \<Rightarrow> string \<Rightarrow> db \<Rightarrow> config_row option \<times> rule_row list" where
  "readFlagConfigWithTargetingRules scope flag s = (getFlagConfig scope flag s,
     sort_key (\<lambda>r. (tr_priority r, tr_id r)) (listTargetingRules scope flag s))"

text \<open>\<open>UPDATE flag_configs SET ... WHERE\<close>; the new version may depend on the row.\<close>

definition updateConfigs :: "(config_row \<Rightarrow> config_row) \<Rightarrow> (db \<Rightarrow> config_row \<Rightarrow> bool) \<Rightarrow> stmt" where
  "updateConfigs f P s = Inr (s\<lparr>flag_configs := set_where (P s) f (flag_configs s),
     changes := length (filter (P s) (flag_configs s))\<rparr>, map fc_id (filter (P s) (flag_configs s)))"

definition approvedConfigUpdate :: "env_scope \<Rightarrow> string \<Rightarrow> int \<Rightarrow> config_patch \<Rightarrow> approval_commit \<Rightarrow> stmt" where
  "approvedConfigUpdate scope flag current p c = updateConfigs (patch_config p (current + 1))
     (\<lambda>s x. scopedFlagConfig scope flag x \<and> fc_version x = current \<and> approvalPendingCondition (s_app scope) c s)"

definition directConfigUpdate :: "env_scope \<Rightarrow> string \<Rightarrow> config_patch \<Rightarrow> stmt" where
  "directConfigUpdate scope flag p = updateConfigs (\<lambda>x. patch_config p (fc_version x + 1) x)
     (\<lambda>s. scopedFlagConfig scope flag)"

text \<open>The audit row of a direct write names the Configuration and the version it has by then.\<close>

definition configAudit :: "env_scope \<Rightarrow> string \<Rightarrow> audit_input \<Rightarrow> stmt" where
  "configAudit scope flag a s = auditStatement (s_app scope) (case getFlagConfig scope flag s of
       None \<Rightarrow> a
     | Some c \<Rightarrow> a\<lparr>ai_targetVersion := Some (show_nat (nat (fc_version c))), ai_resourceId := fc_id c\<rparr>) s"

definition updateDirectFlagConfig :: "env_scope \<Rightarrow> string \<Rightarrow> config_patch \<Rightarrow> audit_input option \<Rightarrow> db \<Rightarrow>
    (sql_error + config_row option) \<times> db" where
  "updateDirectFlagConfig scope flag p audit s =
    (case d1_batch (directConfigUpdate scope flag p #
        (case audit of None \<Rightarrow> [] | Some a \<Rightarrow> [configAudit scope flag a])) s of
       (Inl e, s') \<Rightarrow> (Inl e, s')
     | (Inr _, s') \<Rightarrow> (Inr (map_option (\<lambda>x. patch_config p (fc_version x + 1) x) (getFlagConfig scope flag s)), s'))"

definition approvedConfigBatch :: "env_scope \<Rightarrow> string \<Rightarrow> int \<Rightarrow> config_patch \<Rightarrow> approval_commit \<Rightarrow> stmt list" where
  "approvedConfigBatch scope flag current p c =
     approvedConfigUpdate scope flag current p c # appliedReviewQueries (s_app scope) c changed_one"

definition updateFlagConfig :: "env_scope \<Rightarrow> string \<Rightarrow> config_patch \<Rightarrow> approval_commit option \<Rightarrow> audit_input option \<Rightarrow>
    db \<Rightarrow> (sql_error + config_row option) \<times> db" where
  "updateFlagConfig scope flag p approval audit s = (case getFlagConfig scope flag s of
     None \<Rightarrow> (Inr None, s)
   | Some current \<Rightarrow> (case approval of
       None \<Rightarrow> updateDirectFlagConfig scope flag p audit s
     | Some c \<Rightarrow> (case d1_batch (approvedConfigBatch scope flag (fc_version current) p c) s of
         (Inl e, s') \<Rightarrow> (Inl e, s')
       | (Inr _, s') \<Rightarrow>
           (Inr (if approvalReviewLanded (s_app scope) c s' then getFlagConfig scope flag s' else None), s'))))"

definition insertConfig :: "config_row \<Rightarrow> stmt" where
  "insertConfig c s = insert_if True (config_insertable s c) (fc_id c)
     (\<lambda>s. s\<lparr>flag_configs := flag_configs s @ [c]\<rparr>) s"

definition ensureInitialFlagConfig :: "env_scope \<Rightarrow> config_row \<Rightarrow> db \<Rightarrow> (sql_error + config_row) \<times> db" where
  "ensureInitialFlagConfig scope v s = (case getFlagConfig scope (fc_flag v) s of
     Some existing \<Rightarrow> (Inr existing, s)
   | None \<Rightarrow> (let c = v\<lparr>fc_app := s_app scope, fc_env := s_env scope\<rparr> in case d1_batch [insertConfig c] s of
       (Inr _, s') \<Rightarrow> (Inr c, s')
     | (Inl cause, s') \<Rightarrow> (case getFlagConfig scope (fc_flag v) s' of
         None \<Rightarrow> (Inl cause, s') | Some winner \<Rightarrow> (Inr winner, s'))))"

definition removeFlagConfig :: "env_scope \<Rightarrow> string \<Rightarrow> db \<Rightarrow> db" where
  "removeFlagConfig scope flag s = s\<lparr>flag_configs := delete_where (scopedFlagConfig scope flag) (flag_configs s),
     changes := length (filter (scopedFlagConfig scope flag) (flag_configs s))\<rparr>"

definition removeTargetingRules :: "env_scope \<Rightarrow> string \<Rightarrow> db \<Rightarrow> db" where
  "removeTargetingRules scope flag s = s\<lparr>
     targeting_rules := delete_where (scopedTargetingRule scope flag) (targeting_rules s),
     changes := length (filter (scopedTargetingRule scope flag) (targeting_rules s))\<rparr>"

section \<open>Targeting Rules\<close>

definition referencedVariantIds :: "rule_row list \<Rightarrow> string list" where
  "referencedVariantIds rows = remdups_first (concat (map (\<lambda>r. case tr_variant r of None \<Rightarrow> [] | Some v \<Rightarrow> [v]) rows))"

definition variant_of_flag :: "string \<Rightarrow> string \<Rightarrow> string \<Rightarrow> db \<Rightarrow> bool" where
  "variant_of_flag app flag v s \<longleftrightarrow> list_ex (\<lambda>x. vt_id x = v \<and> vt_flag x = flag
     \<and> list_ex (\<lambda>f. fl_id f = vt_flag x \<and> fl_app f = app) (flags s)) (flag_variants s)"

text \<open>The probe selects from the Configuration: without one it has no row and does not abort.\<close>

definition referencedVariantMustExist :: "env_scope \<Rightarrow> string \<Rightarrow> rule_row list \<Rightarrow> stmt list" where
  "referencedVariantMustExist scope flag rows = map (\<lambda>v. assert_stmt (\<lambda>s.
     getFlagConfig scope flag s \<noteq> None \<longrightarrow> variant_of_flag (s_app scope) flag v s)) (referencedVariantIds rows)"

definition missingReferencedVariants :: "env_scope \<Rightarrow> string \<Rightarrow> rule_row list \<Rightarrow> db \<Rightarrow> string list" where
  "missingReferencedVariants scope flag rows s =
     filter (\<lambda>v. \<not> variant_of_flag (s_app scope) flag v s) (referencedVariantIds rows)"

datatype rules_failure = RulesNotFound | RuleIdConflict | MissingVariant "string list"

definition targetingRuleWriteFailure :: "sql_error \<Rightarrow> string list \<Rightarrow> sql_error + rules_failure" where
  "targetingRuleWriteFailure cause missing =
    (if cause = RuleIdViolation then Inr RuleIdConflict
     else if missing \<noteq> [] \<and> cause = MalformedJson then Inr (MissingVariant missing)
     else Inl cause)"

definition rule_to_insert :: "env_scope \<Rightarrow> string \<Rightarrow> rule_row \<Rightarrow> rule_row" where
  "rule_to_insert scope flag r = r\<lparr>tr_app := s_app scope, tr_env := s_env scope, tr_flag := flag\<rparr>"

definition insertRule :: "(db \<Rightarrow> bool) \<Rightarrow> rule_row \<Rightarrow> stmt" where
  "insertRule guard r s = insert_if (guard s) (rule_insertable s r) (tr_id r)
     (\<lambda>s. s\<lparr>targeting_rules := targeting_rules s @ [r]\<rparr>) s"

definition deleteRules :: "env_scope \<Rightarrow> string \<Rightarrow> (db \<Rightarrow> bool) \<Rightarrow> stmt" where
  "deleteRules scope flag guard s =
    (let P = (\<lambda>r. scopedTargetingRule scope flag r \<and> guard s)
     in Inr (s\<lparr>targeting_rules := delete_where P (targeting_rules s),
          changes := length (filter P (targeting_rules s))\<rparr>, map tr_id (filter P (targeting_rules s))))"

definition directRulesBatch :: "env_scope \<Rightarrow> string \<Rightarrow> rule_row list \<Rightarrow> config_patch \<Rightarrow> stmt list" where
  "directRulesBatch scope flag rows p =
     referencedVariantMustExist scope flag rows
   @ [deleteRules scope flag (\<lambda>_. True)]
   @ map (\<lambda>r. insertRule (\<lambda>_. True) (rule_to_insert scope flag r)) rows
   @ [directConfigUpdate scope flag p]"

definition replaceDirectTargetingRules :: "env_scope \<Rightarrow> string \<Rightarrow> rule_row list \<Rightarrow> config_patch \<Rightarrow> audit_input option \<Rightarrow>
    db \<Rightarrow> (sql_error + (rules_failure + config_row)) \<times> db" where
  "replaceDirectTargetingRules scope flag rows p audit s =
    (case d1_batch (directRulesBatch scope flag rows p
        @ (case audit of None \<Rightarrow> [] | Some a \<Rightarrow> [configAudit scope flag a])) s of
       (Inl cause, s') \<Rightarrow> (ebind (targetingRuleWriteFailure cause (missingReferencedVariants scope flag rows s')) (\<lambda>r. Inr (Inl r)), s')
     | (Inr _, s') \<Rightarrow> (Inr (case getFlagConfig scope flag s' of None \<Rightarrow> Inl RulesNotFound | Some c \<Rightarrow> Inr c), s'))"

text \<open>
  The approved replacement: the Configuration is bumped under the guard, the Review rides on
  that, and the rules are rewritten only where the Review is recorded.
\<close>

definition approvedRulesBatch :: "env_scope \<Rightarrow> string \<Rightarrow> int \<Rightarrow> rule_row list \<Rightarrow> config_patch \<Rightarrow> approval_commit \<Rightarrow> stmt list" where
  "approvedRulesBatch scope flag current rows p c =
     referencedVariantMustExist scope flag rows
   @ [approvedConfigUpdate scope flag current p c,
      appliedReviewInsert (s_app scope) c changed_one,
      deleteRules scope flag (reviewRecorded (s_app scope) c)]
   @ map (\<lambda>r. insertRule (\<lambda>s. getFlagConfig scope flag s \<noteq> None \<and> reviewRecorded (s_app scope) c s)
        (rule_to_insert scope flag r)) rows
   @ [appliedRequestUpdate (s_app scope) c, approvalReviewAudit (s_app scope) (audited_commit c) ''applied'']"

definition replaceTargetingRules :: "env_scope \<Rightarrow> string \<Rightarrow> rule_row list \<Rightarrow> config_patch \<Rightarrow> approval_commit option \<Rightarrow>
    audit_input option \<Rightarrow> db \<Rightarrow> (sql_error + (rules_failure + config_row)) \<times> db" where
  "replaceTargetingRules scope flag rows p approval audit s = (case getFlagConfig scope flag s of
     None \<Rightarrow> (Inr (Inl RulesNotFound), s)
   | Some current \<Rightarrow> (case approval of
       None \<Rightarrow> replaceDirectTargetingRules scope flag rows p audit s
     | Some c \<Rightarrow> (case d1_batch (approvedRulesBatch scope flag (fc_version current) rows p c) s of
         (Inl cause, s') \<Rightarrow>
           (ebind (targetingRuleWriteFailure cause (missingReferencedVariants scope flag rows s')) (\<lambda>r. Inr (Inl r)), s')
       | (Inr _, s') \<Rightarrow> (Inr (if approvalReviewLanded (s_app scope) c s'
            then (case getFlagConfig scope flag s' of None \<Rightarrow> Inl RulesNotFound | Some x \<Rightarrow> Inr x)
            else Inl RulesNotFound), s'))))"

section \<open>Variants\<close>

text \<open>Variants carry no \<open>app_id\<close>: they are reached through their Flag.\<close>

definition flagInScope :: "string \<Rightarrow> string \<Rightarrow> db \<Rightarrow> flag_row option" where
  "flagInScope app flag s = List.find (\<lambda>f. fl_app f = app \<and> fl_id f = flag) (flags s)"

definition listVariants :: "string \<Rightarrow> string \<Rightarrow> db \<Rightarrow> variant_row list" where
  "listVariants app flag s = (case flagInScope app flag s of None \<Rightarrow> []
     | Some _ \<Rightarrow> filter (\<lambda>v. vt_flag v = flag) (flag_variants s))"

definition variantByName :: "string \<Rightarrow> string \<Rightarrow> string \<Rightarrow> db \<Rightarrow> variant_row option" where
  "variantByName app flag name s = (case flagInScope app flag s of None \<Rightarrow> None
     | Some _ \<Rightarrow> List.find (\<lambda>v. vt_flag v = flag \<and> vt_name v = name) (flag_variants s))"

definition getVariantById :: "string \<Rightarrow> string \<Rightarrow> db \<Rightarrow> variant_row option" where
  "getVariantById app v s = List.find (\<lambda>x. vt_id x = v
     \<and> list_ex (\<lambda>f. fl_id f = vt_flag x \<and> fl_app f = app) (flags s)) (flag_variants s)"

definition insertVariant :: "(db \<Rightarrow> bool) \<Rightarrow> variant_row \<Rightarrow> stmt" where
  "insertVariant guard v s = insert_if (guard s) (variant_insertable s v) (vt_id v)
     (\<lambda>s. s\<lparr>flag_variants := flag_variants s @ [v]\<rparr>) s"

text \<open>The row is selected out of the Approval Request that guards it.\<close>

definition guardedVariantInsert :: "string \<Rightarrow> variant_row \<Rightarrow> approval_commit \<Rightarrow> stmt" where
  "guardedVariantInsert app v c = insertVariant (\<lambda>s. list_ex (\<lambda>q. ap_app q = app \<and> ap_id q = ac_requestId' c)
     (approval_requests s) \<and> approvalPendingCondition app c s) v"

definition bumpFlag :: "string \<Rightarrow> flag_row \<Rightarrow> string \<Rightarrow> string option \<Rightarrow> (db \<Rightarrow> bool) \<Rightarrow> stmt" where
  "bumpFlag app flag updatedAt updatedBy guard s =
    (let P = (\<lambda>f. fl_app f = app \<and> fl_id f = fl_id flag \<and> fl_version f = fl_version flag \<and> guard s)
     in Inr (s\<lparr>flags := set_where P (\<lambda>f. f\<lparr>fl_version := fl_version flag + 1, fl_updatedAt := updatedAt,
            fl_updatedBy := updatedBy\<rparr>) (flags s), changes := length (filter P (flags s))\<rparr>,
          map fl_id (filter P (flags s))))"

text \<open>What \<open>VariantWriteOptions\<close> says besides the Approval.\<close>

record variant_options =
  vo_updatedAt :: "string option"
  vo_updatedBy :: "string option"

definition catalogApprovalBatch :: "string \<Rightarrow> flag_row \<Rightarrow> stmt \<Rightarrow> approval_commit \<Rightarrow> variant_options \<Rightarrow> stmt list" where
  "catalogApprovalBatch app flag mutation c opts =
    [mutation,
     bumpFlag app flag (ac_reviewedAt c) (case vo_updatedBy opts of None \<Rightarrow> fl_updatedBy flag | Some u \<Rightarrow> Some u)
       (\<lambda>s. approvalPendingCondition app c s \<and> changed_one s),
     appliedReviewInsert app c changed_one, appliedRequestUpdate app c,
     approvalReviewAudit app (audited_commit c) ''applied'']"

datatype add_error = FlagNotInScope | AddThrew sql_error

definition addVariant :: "string \<Rightarrow> string \<Rightarrow> variant_row \<Rightarrow> variant_options \<Rightarrow> approval_commit option \<Rightarrow> db \<Rightarrow>
    (add_error + variant_row option) \<times> db" where
  "addVariant app flag values opts approval s = (case flagInScope app flag s of
     None \<Rightarrow> (Inl FlagNotInScope, s)
   | Some f \<Rightarrow> (let v = values\<lparr>vt_flag := flag\<rparr> in case approval of
       Some c \<Rightarrow> (case d1_batch (catalogApprovalBatch app f (guardedVariantInsert app v c) c opts) s of
           (Inl e, s') \<Rightarrow> (Inl (AddThrew e), s')
         | (Inr _, s') \<Rightarrow>
             (Inr (if approvalReviewLanded app c s' then variantByName app flag (vt_name values) s' else None), s'))
     | None \<Rightarrow> (case d1_batch [insertVariant (\<lambda>_. True) v] s of
           (Inl e, s') \<Rightarrow> (Inl (AddThrew e), s')
         | (Inr _, s') \<Rightarrow> (Inr (Some v), s'))))"

definition ensureCreateVariant :: "string \<Rightarrow> string \<Rightarrow> variant_row \<Rightarrow> db \<Rightarrow> (add_error + variant_row) \<times> db" where
  "ensureCreateVariant app flag values s = (case flagInScope app flag s of
     None \<Rightarrow> (Inl FlagNotInScope, s)
   | Some _ \<Rightarrow> (case variantByName app flag (vt_name values) s of
       Some existing \<Rightarrow> (Inr existing, s)
     | None \<Rightarrow> (let v = values\<lparr>vt_flag := flag\<rparr> in case d1_batch [insertVariant (\<lambda>_. True) v] s of
         (Inr _, s') \<Rightarrow> (Inr v, s')
       | (Inl cause, s') \<Rightarrow> (case variantByName app flag (vt_name values) s' of
           None \<Rightarrow> (Inl (AddThrew cause), s') | Some winner \<Rightarrow> (Inr winner, s')))))"

subsection \<open>Removing a Variant\<close>

definition noTargetingRuleReferences :: "string \<Rightarrow> string \<Rightarrow> db \<Rightarrow> bool" where
  "noTargetingRuleReferences app v s \<longleftrightarrow>
     \<not> list_ex (\<lambda>r. tr_app r = app \<and> tr_variant r = Some v) (targeting_rules s)"

definition listTargetingRuleRefs :: "string \<Rightarrow> string \<Rightarrow> db \<Rightarrow> (string \<times> string) list" where
  "listTargetingRuleRefs app v s = map (\<lambda>r. (tr_env r, tr_id r))
     (filter (\<lambda>r. tr_app r = app \<and> tr_variant r = Some v) (targeting_rules s))"

definition deleteVariant :: "string \<Rightarrow> string \<Rightarrow> (db \<Rightarrow> bool) \<Rightarrow> stmt" where
  "deleteVariant app v guard s =
    (let P = (\<lambda>x. vt_id x = v \<and> guard s \<and> noTargetingRuleReferences app v s)
     in Inr (s\<lparr>flag_variants := delete_where P (flag_variants s),
          changes := length (filter P (flag_variants s))\<rparr>, map vt_id (filter P (flag_variants s))))"

text \<open>The references are listed sorted for the answer; which they are is what matters here.\<close>

datatype remove_result = VariantRemoved | RemoveNotFound | RemoveNotApplied
  | TargetingRuleRefs string "(string \<times> string) list"

definition targetingRefsOrNotApplied :: "string \<Rightarrow> variant_row \<Rightarrow> db \<Rightarrow> remove_result" where
  "targetingRefsOrNotApplied app v s = (let refs = listTargetingRuleRefs app (vt_id v) s in
     if refs \<noteq> [] then TargetingRuleRefs (vt_name v) refs else RemoveNotApplied)"

definition approvedVariantDeleteBatch :: "string \<Rightarrow> flag_row \<Rightarrow> variant_row \<Rightarrow> approval_commit \<Rightarrow> variant_options \<Rightarrow> stmt list" where
  "approvedVariantDeleteBatch app flag v c opts =
     catalogApprovalBatch app flag (deleteVariant app (vt_id v) (approvalPendingCondition app c)) c opts"

definition removeVariant :: "string \<Rightarrow> string \<Rightarrow> string \<Rightarrow> variant_options \<Rightarrow> approval_commit option \<Rightarrow> db \<Rightarrow>
    (sql_error + remove_result) \<times> db" where
  "removeVariant app flag name opts approval s = (case (variantByName app flag name s, flagInScope app flag s) of
     (Some v, Some f) \<Rightarrow> (case approval of
         Some c \<Rightarrow> (case d1_batch (approvedVariantDeleteBatch app f v c opts) s of
             (Inl e, s') \<Rightarrow> (Inl e, s')
           | (Inr _, s') \<Rightarrow> (Inr (if approvalReviewLanded app c s'
               then (if variantByName app flag name s' = None then VariantRemoved else RemoveNotApplied)
               else targetingRefsOrNotApplied app v s'), s'))
       | None \<Rightarrow> (case d1_batch [deleteVariant app (vt_id v) (\<lambda>_. True)] s of
             (Inl e, s') \<Rightarrow> (Inl e, s')
           | (Inr _, s') \<Rightarrow> (Inr (if variantByName app flag name s' = None then VariantRemoved
               else targetingRefsOrNotApplied app v s'), s')))
   | _ \<Rightarrow> (Inr RemoveNotFound, s))"

subsection \<open>A live Run freezes a Variant\<close>

text \<open>
  \<open>candidate.id === id || candidate.name === name\<close> over the parsed Variant set; a text that is
  not JSON, a value without \<open>some\<close> and a null candidate throw. \<open>JSON.parse\<close> is the argument \<open>parse\<close>.
\<close>

datatype freeze_error = VariantSetUnreadable

fun some_candidate :: "variant_row \<Rightarrow> jsval list \<Rightarrow> freeze_error + bool" where
  "some_candidate v [] = Inr False"
| "some_candidate v (c # cs) = (if c = Null then Inl VariantSetUnreadable
     else if jprop c ''id'' = JStr (vt_id v) \<or> jprop c ''name'' = JStr (vt_name v) then Inr True
     else some_candidate v cs)"

definition variantSetReferences :: "(string \<Rightarrow> jsval option) \<Rightarrow> string \<Rightarrow> variant_row \<Rightarrow> freeze_error + bool" where
  "variantSetReferences parse raw v = (case parse raw of
     Some (JArr cs) \<Rightarrow> some_candidate v cs | _ \<Rightarrow> Inl VariantSetUnreadable)"

fun find_owner :: "(string \<Rightarrow> jsval option) \<Rightarrow> variant_row \<Rightarrow> run_row list \<Rightarrow> freeze_error + string option" where
  "find_owner parse v [] = Inr None"
| "find_owner parse v (r # rs) = ebind (variantSetReferences parse (sn_variantSet (rn_snapshot r)) v)
     (\<lambda>hit. if hit then Inr (Some (rn_id r)) else find_owner parse v rs)"

datatype live_run = Unresolvable | LiveOwner "string option"

definition liveRunForExperiment :: "(string \<Rightarrow> jsval option) \<Rightarrow> string \<Rightarrow> string \<Rightarrow> variant_row \<Rightarrow> db \<Rightarrow>
    freeze_error + live_run" where
  "liveRunForExperiment parse app e v s =
    (let live = filter (\<lambda>r. rn_app r = app \<and> rn_experiment r = e \<and> rn_status r = ''running'' \<and> rn_endedAt r = None)
       (runs s) in
     if live = [] then Inr Unresolvable else ebind (find_owner parse v live) (\<lambda>x. Inr (LiveOwner x)))"

record variant_freeze =
  vf_experiment :: string
  vf_run :: string
  vf_env :: string

fun first_freeze :: "(string \<Rightarrow> jsval option) \<Rightarrow> string \<Rightarrow> variant_row \<Rightarrow> db \<Rightarrow> experiment_row list \<Rightarrow>
    freeze_error + variant_freeze option" where
  "first_freeze parse app v s [] = Inr None"
| "first_freeze parse app v s (e # es) = ebind (liveRunForExperiment parse app (ex_id e) v s) (\<lambda>live. case live of
     Unresolvable \<Rightarrow> Inr (Some \<lparr>vf_experiment = ex_id e, vf_run = nullish (ex_liveRun e) ''unknown'', vf_env = ex_env e\<rparr>)
   | LiveOwner (Some r) \<Rightarrow> Inr (Some \<lparr>vf_experiment = ex_id e, vf_run = r, vf_env = ex_env e\<rparr>)
   | LiveOwner None \<Rightarrow> first_freeze parse app v s es)"

definition liveRunUsingVariant :: "(string \<Rightarrow> jsval option) \<Rightarrow> string \<Rightarrow> string \<Rightarrow> variant_row \<Rightarrow> db \<Rightarrow>
    freeze_error + variant_freeze option" where
  "liveRunUsingVariant parse app flag v s = first_freeze parse app v s
     (filter (\<lambda>e. ex_app e = app \<and> ex_flag e = flag \<and> ex_status e = ''running'') (experiments s))"

subsection \<open>Updating a Variant\<close>

record variant_patch =
  vp_name :: "string option"
  vp_value :: "string option"
  vp_description :: "string option option"

definition patch_variant :: "variant_patch \<Rightarrow> variant_row \<Rightarrow> variant_row" where
  "patch_variant p v = v\<lparr>vt_name := nullish (vp_name p) (vt_name v), vt_value := nullish (vp_value p) (vt_value v),
     vt_description := nullish (vp_description p) (vt_description v)\<rparr>"

definition updateVariants :: "variant_patch \<Rightarrow> string \<Rightarrow> (db \<Rightarrow> bool) \<Rightarrow> stmt" where
  "updateVariants p v guard s =
    (let P = (\<lambda>x. vt_id x = v \<and> guard s); hit = filter P (flag_variants s) in
     if list_ex (\<lambda>x. list_ex (\<lambda>y. \<not> P y \<and> vt_flag y = vt_flag x \<and> vt_name y = vt_name (patch_variant p x))
          (flag_variants s)) hit
     then Inl UniqueViolation
     else Inr (s\<lparr>flag_variants := set_where P (patch_variant p) (flag_variants s), changes := length hit\<rparr>,
            map vt_id hit))"

definition flagVersionUnchanged :: "string \<Rightarrow> flag_row \<Rightarrow> db \<Rightarrow> bool" where
  "flagVersionUnchanged app flag s \<longleftrightarrow> list_ex (\<lambda>f. fl_app f = app \<and> fl_id f = fl_id flag
     \<and> fl_version f = fl_version flag) (flags s)"

definition renameAvailableVariant :: "string \<Rightarrow> string \<Rightarrow> string \<Rightarrow> string \<Rightarrow> string option \<Rightarrow> (db \<Rightarrow> bool) \<Rightarrow> stmt" where
  "renameAvailableVariant app flag from' to' updatedAt guard = updateConfigs
     (\<lambda>c. c\<lparr>fc_available := map (\<lambda>n. if n = from' then to' else n) (fc_available c), fc_version := fc_version c + 1,
        fc_updatedAt := (case updatedAt of None \<Rightarrow> fc_updatedAt c | Some t \<Rightarrow> if t = [] then fc_updatedAt c else t)\<rparr>)
     (\<lambda>s c. fc_app c = app \<and> fc_flag c = flag
        \<and> list_ex (\<lambda>e. ev_app e = app \<and> ev_id e = fc_env c) (environments s)
        \<and> from' \<in> set (fc_available c) \<and> guard s)"

definition variant_update_batch :: "string \<Rightarrow> flag_row \<Rightarrow> variant_row \<Rightarrow> variant_patch \<Rightarrow> variant_options \<Rightarrow>
    approval_commit option \<Rightarrow> stmt list" where
  "variant_update_batch app flag v p opts approval =
    (let updatedBy = (case vo_updatedBy opts of None \<Rightarrow> fl_updatedBy flag | Some u \<Rightarrow> Some u);
         renaming = (case vp_name p of None \<Rightarrow> None | Some n \<Rightarrow> if n = vt_name v then None else Some n)
     in case approval of
       None \<Rightarrow>
         [updateVariants p (vt_id v) (\<lambda>_. True),
          bumpFlag app flag (nullish (vo_updatedAt opts) (fl_updatedAt flag)) updatedBy (\<lambda>_. True)]
       @ (case renaming of None \<Rightarrow> []
          | Some n \<Rightarrow> [renameAvailableVariant app (fl_id flag) (vt_name v) n (vo_updatedAt opts) (\<lambda>_. True)])
     | Some c \<Rightarrow>
         [updateVariants p (vt_id v) (\<lambda>s. approvalPendingCondition app c s \<and> flagVersionUnchanged app flag s),
          bumpFlag app flag (ac_reviewedAt c) updatedBy (\<lambda>s. approvalPendingCondition app c s \<and> changed_one s),
          appliedReviewInsert app c changed_one]
       @ (case renaming of None \<Rightarrow> []
          | Some n \<Rightarrow> [renameAvailableVariant app (fl_id flag) (vt_name v) n (Some (ac_reviewedAt c)) (reviewRecorded app c)])
       @ [appliedRequestUpdate app c, approvalReviewAudit app (audited_commit c) ''applied''])"

datatype frozen_change = FrozenName | FrozenValue

datatype update_result = VariantUpdated variant_row | UpdateNotFound | UpdateNotApplied
  | RunFrozenVariant variant_freeze string "frozen_change list"

datatype update_error = FreezeUnreadable freeze_error | UpdateThrew sql_error

definition frozen_changes :: "variant_patch \<Rightarrow> variant_row \<Rightarrow> frozen_change list" where
  "frozen_changes p v =
     (case vp_name p of None \<Rightarrow> [] | Some n \<Rightarrow> if n = vt_name v then [] else [FrozenName])
   @ (case vp_value p of None \<Rightarrow> [] | Some x \<Rightarrow> if x = vt_value v then [] else [FrozenValue])"

definition updateVariant :: "(string \<Rightarrow> jsval option) \<Rightarrow> string \<Rightarrow> string \<Rightarrow> string \<Rightarrow> variant_patch \<Rightarrow> variant_options \<Rightarrow>
    approval_commit option \<Rightarrow> db \<Rightarrow> (update_error + update_result) \<times> db" where
  "updateVariant parse app flag name p opts approval s =
    (case (variantByName app flag name s, flagInScope app flag s) of
       (Some v, Some f) \<Rightarrow>
         (case (if frozen_changes p v = [] then Inr None else liveRunUsingVariant parse app flag v s) of
            Inl e \<Rightarrow> (Inl (FreezeUnreadable e), s)
          | Inr (Some freeze) \<Rightarrow> (Inr (RunFrozenVariant freeze (vt_name v) (frozen_changes p v)), s)
          | Inr None \<Rightarrow> (case d1_batch (variant_update_batch app f v p opts approval) s of
              (Inl e, s') \<Rightarrow> (Inl (UpdateThrew e), s')
            | (Inr _, s') \<Rightarrow>
                (Inr (if (case approval of None \<Rightarrow> False | Some c \<Rightarrow> \<not> approvalReviewLanded app c s') then UpdateNotApplied
                  else (case variantByName app flag (nullish (vp_name p) name) s' of
                    None \<Rightarrow> UpdateNotApplied | Some x \<Rightarrow> VariantUpdated x)), s')))
     | _ \<Rightarrow> (Inr UpdateNotFound, s))"

section \<open>Segments\<close>

record segment_patch =
  sp_name :: "string option"
  sp_description :: "string option option"
  sp_conditions :: "string option"
  sp_updatedAt :: "string option"

definition patch_segment :: "segment_patch \<Rightarrow> segment_row \<Rightarrow> segment_row" where
  "patch_segment p g = g\<lparr>sg_name := nullish (sp_name p) (sg_name g),
     sg_description := nullish (sp_description p) (sg_description g),
     sg_conditions := nullish (sp_conditions p) (sg_conditions g), sg_updatedAt := nullish (sp_updatedAt p) (sg_updatedAt g)\<rparr>"

definition updateSegment :: "string \<Rightarrow> string \<Rightarrow> segment_patch \<Rightarrow> approval_commit option \<Rightarrow> db \<Rightarrow> segment_row option \<times> db" where
  "updateSegment app g p approval s =
    (let P = (\<lambda>x. sg_app x = app \<and> sg_id x = g
           \<and> (case approval of None \<Rightarrow> True | Some c \<Rightarrow> approvalPendingCondition app c s));
         s' = s\<lparr>segments := set_where P (patch_segment p) (segments s), changes := length (filter P (segments s))\<rparr> in
     (case approval of
        None \<Rightarrow> (case filter P (segments s) of [] \<Rightarrow> None | x # _ \<Rightarrow> Some (patch_segment p x))
      | Some _ \<Rightarrow> (if length (filter P (segments s)) \<noteq> 1 then None
          else List.find (\<lambda>x. sg_app x = app \<and> sg_id x = g) (segments s')), s'))"

end
