(* ===== verification/ApprovalMachine.thy ===== *)
theory ApprovalMachine
  imports FlagWrites Conclusion
begin

text \<open>
  Approval Requests over time: every batch that creates, reviews, supersedes or removes a
  Request, in any order, beside everything else that writes the database. Ids of Requests and
  of Reviews are minted with random bits, so none is used twice.
\<close>

section \<open>Statements that leave the Requests and Reviews alone\<close>

definition apr :: "db \<Rightarrow> approval_row list \<times> review_row list" where
  "apr s = (approval_requests s, approval_reviews s)"

definition neutral :: "stmt \<Rightarrow> bool" where
  "neutral q \<longleftrightarrow> (\<forall>s t rows. q s = Inr (t, rows) \<longrightarrow> apr t = apr s)"

named_theorems neutrals \<open>statements that do not write Approval Requests or Reviews\<close>

lemma apr_eq: "apr t = apr s \<longleftrightarrow> approval_requests t = approval_requests s \<and> approval_reviews t = approval_reviews s"
  by (simp add: apr_def)

lemma neutralD: "neutral q \<Longrightarrow> q s = Inr (t, rows) \<Longrightarrow> apr t = apr s"
  unfolding neutral_def by blast

lemma neutral_insert:
  "(\<And>s. apr (ins s) = apr s) \<Longrightarrow> neutral (\<lambda>s. insert_if (g s) (v s) (r s) ins s)"
  by (auto simp: neutral_def insert_if_def apr_def split: if_splits option.splits)

lemma neutral_assert [neutrals]: "neutral (assert_stmt g)"
  by (auto simp: neutral_def assert_stmt_def split: if_splits)

lemma neutral_audit [neutrals]: "neutral (auditStatement app a)" "neutral (approvalReviewAudit app v o')"
  "neutral (configAudit scope flag a')"
  by (auto simp: neutral_def auditStatement_def approvalReviewAudit_def configAudit_def Let_def apr_def)

lemma neutral_config [neutrals]:
  "neutral (updateConfigs f P)" "neutral (deleteRules scope flag g)" "neutral (insertRule g r)"
  "neutral (insertConfig c)"
  by (auto simp: neutral_def updateConfigs_def deleteRules_def insertRule_def insertConfig_def insert_if_def Let_def
      apr_def split: if_splits option.splits)

lemma neutral_variant [neutrals]:
  "neutral (insertVariant g v)" "neutral (bumpFlag app f t u g)" "neutral (deleteVariant app x g)"
  "neutral (updateVariants p x g)"
  by (auto simp: neutral_def insertVariant_def bumpFlag_def deleteVariant_def updateVariants_def insert_if_def Let_def
      apr_def split: if_splits option.splits)

lemma neutral_named [neutrals]:
  "neutral (approvedConfigUpdate scope flag n p c)" "neutral (directConfigUpdate scope flag p)"
  "neutral (guardedVariantInsert app v c)" "neutral (renameAvailableVariant app flag x y t g)"
  by (simp_all add: approvedConfigUpdate_def directConfigUpdate_def guardedVariantInsert_def
      renameAvailableVariant_def neutrals)

lemma neutral_run [neutrals]:
  "neutral (endCurrentRunStatement scope i)" "neutral (insertRunStatement scope i)"
  "neutral (updateExperimentStartedStatement scope i)" "neutral (startAuditStatement scope i)"
  "neutral (endRunningRunStatement scope' j)" "neutral (clearConcludedExperimentStatement scope' j)"
  "neutral (conclusionInsertStatement scope' j)" "neutral (linkInsertStatement app x y n t)"
  "neutral (atomicAssertion x y n)" "neutral (replacementAuditStatement app k)"
  by (auto simp: neutral_def endCurrentRunStatement_def insertRunStatement_def updateExperimentStartedStatement_def
      startAuditStatement_def endRunningRunStatement_def clearConcludedExperimentStatement_def
      conclusionInsertStatement_def linkInsertStatement_def atomicAssertion_def assert_stmt_def
      replacementAuditStatement_def auditStatement_def insert_if_def Let_def apr_def split: if_splits option.splits)

lemma neutral_probes [neutrals]: "q \<in> set (referencedVariantMustExist scope flag rows) \<Longrightarrow> neutral q"
  by (auto simp: referencedVariantMustExist_def neutrals)

lemma neutral_run_statements:
  assumes "run_statements qs s = Inr (t, rs)" "\<And>q. q \<in> set qs \<Longrightarrow> neutral q"
  shows "apr t = apr s"
  by (rule run_statements_keeps[OF assms(1), of "\<lambda>t. apr t = apr s"]) (auto dest: neutralD[OF assms(2)])

section \<open>The two spellings of an approved write\<close>

text \<open>
  Start's batch is raw SQL, the others are built with Drizzle. Both spell the same guard, the
  same Review and the same resolution of the Request.
\<close>

lemma policy_conditions_agree: "currentPolicyCondition app g s \<longleftrightarrow> policy_holds app g s"
  unfolding currentPolicyCondition_def policy_holds_def
  by (rule arg_cong[where f = "\<lambda>P. list_ex P (environments s)"])
    (auto simp: fun_eq_iff policyLevelCondition_def policyPath_def list_all_iff split: change_type.splits)

lemma guards_agree: "approvalPendingCondition app c s \<longleftrightarrow> approvalGuard app c s"
  by (auto simp: approvalPendingCondition_def approvalGuard_def currentReviewerCondition_def is_admin_def
      policy_conditions_agree list_ex_iff)

lemma start_review_agrees:
  "reviewInsertStatement scope c runId = appliedReviewInsert (s_app scope) c (\<lambda>s. list_ex (\<lambda>r. rn_app r = s_app scope
     \<and> rn_id r = runId \<and> rn_status r = ''running'' \<and> sn_startedAt (rn_snapshot r) = ac_reviewedAt c) (runs s))"
  by (rule ext) (simp add: reviewInsertStatement_def appliedReviewInsert_def reviewInsert_def applied_review_def
      pending_request_def Let_def)

lemma start_resolution_agrees:
  "requestAppliedStatement scope c s = ebind (appliedRequestUpdate (s_app scope) c s) (\<lambda>(t, rows). Inr (t, []))"
  by (simp add: requestAppliedStatement_def appliedRequestUpdate_def resolve_request_def reviewRecorded_def Let_def)

section \<open>What a batch makes of a Request\<close>

text \<open>The Review is there and the one pending Request it reviews has become \<open>f\<close> of what it was.\<close>

definition open_request :: "string \<Rightarrow> string \<Rightarrow> approval_row \<Rightarrow> bool" where
  "open_request app r q \<longleftrightarrow> ap_app q = app \<and> ap_id q = r \<and> ap_status q = ''pending''"

definition reviewed :: "review_row \<Rightarrow> (approval_row \<Rightarrow> approval_row) \<Rightarrow> db \<Rightarrow> db \<Rightarrow> bool" where
  "reviewed v f s t \<longleftrightarrow> list_ex (open_request (rv_app v) (rv_request v)) (approval_requests s)
     \<and> approval_reviews t = approval_reviews s @ [v]
     \<and> approval_requests t = set_where (open_request (rv_app v) (rv_request v)) f (approval_requests s)"

definition recorded :: "review_row \<Rightarrow> db \<Rightarrow> bool" where
  "recorded v s \<longleftrightarrow> list_ex (\<lambda>x. rv_app x = rv_app v \<and> rv_id x = rv_id v \<and> rv_request x = rv_request v) (approval_reviews s)"

definition resolver :: "stmt \<Rightarrow> review_row \<Rightarrow> (approval_row \<Rightarrow> approval_row) \<Rightarrow> bool" where
  "resolver u v f \<longleftrightarrow> (\<forall>s t rows. u s = Inr (t, rows) \<longrightarrow> approval_reviews t = approval_reviews s
     \<and> approval_requests t = set_where (\<lambda>q. open_request (rv_app v) (rv_request v) q \<and> recorded v s) f (approval_requests s))"

definition applied_row :: "approval_commit \<Rightarrow> approval_row \<Rightarrow> approval_row" where
  "applied_row c q = q\<lparr>ap_status := ''applied'', ap_resolvedAt := Some (ac_reviewedAt c),
     ap_resultVersion := Some (ac_resultVersion c), ap_resultType := Some (ac_resultType c),
     ap_resultId := Some (ac_resultId c)\<rparr>"

lemma resolver_applied:
  "resolver (appliedRequestUpdate app c) (applied_review app c) (applied_row c)"
  "resolver (requestAppliedStatement scope c) (applied_review (s_app scope) c) (applied_row c)"
  by (auto simp: resolver_def appliedRequestUpdate_def requestAppliedStatement_def resolve_request_def open_request_def
      recorded_def reviewRecorded_def applied_review_def applied_row_def[abs_def] Let_def conj_assoc)

lemma review_insert_shape:
  assumes "reviewInsert ev v s = Inr (t, rows)"
  shows "approval_requests t = approval_requests s \<and> (approval_reviews t = approval_reviews s
    \<or> list_ex (open_request (rv_app v) (rv_request v)) (approval_requests s) \<and> ev s
      \<and> approval_reviews t = approval_reviews s @ [v])"
  using assms by (auto simp: reviewInsert_def insert_if_def pending_request_def open_request_def[abs_def]
      split: if_splits option.splits)

lemma review_batch:
  assumes run: "run_statements (pre @ reviewInsert ev v # mid @ u # post) s = Inr (t, rs)"
    and neutral: "\<And>q. q \<in> set (pre @ mid @ post) \<Longrightarrow> neutral q"
    and u: "resolver u v f" and fresh: "rv_id v \<notin> rv_id ` set (approval_reviews s)"
  shows "apr t = apr s \<or> reviewed v f s t"
proof -
  obtain s1 s2 s3 s4 r1 r2 r3 r4 r5 where
    a: "run_statements pre s = Inr (s1, r1)" and b: "reviewInsert ev v s1 = Inr (s2, r2)"
    and c: "run_statements mid s2 = Inr (s3, r3)" and d: "u s3 = Inr (s4, r4)"
    and e: "run_statements post s4 = Inr (t, r5)"
    using run by (auto simp: run_statements_append ebind_eq_Inr split: prod.splits)
  have 1: "apr s1 = apr s" by (rule neutral_run_statements[OF a]) (simp add: neutral)
  have 3: "apr s3 = apr s2" by (rule neutral_run_statements[OF c]) (simp add: neutral)
  have 5: "apr t = apr s4" by (rule neutral_run_statements[OF e]) (simp add: neutral)
  have 4: "approval_reviews s4 = approval_reviews s3"
    "approval_requests s4 = set_where (\<lambda>q. open_request (rv_app v) (rv_request v) q \<and> recorded v s3) f (approval_requests s3)"
    using u d by (auto simp: resolver_def)
  from review_insert_shape[OF b] show ?thesis
  proof (elim conjE disjE)
    assume same: "approval_requests s2 = approval_requests s1" "approval_reviews s2 = approval_reviews s1"
    then have "approval_reviews s3 = approval_reviews s" using 1 3 by (simp add: apr_eq)
    then have "\<not> recorded v s3" using fresh by (auto simp: recorded_def list_ex_iff rev_image_eqI)
    then have "apr s4 = apr s" using 4 1 3 same by (simp add: apr_eq set_where_none)
    then show ?thesis using 5 by simp
  next
    assume ins: "approval_requests s2 = approval_requests s1"
      "list_ex (open_request (rv_app v) (rv_request v)) (approval_requests s1)"
      "approval_reviews s2 = approval_reviews s1 @ [v]"
    then have "recorded v s3" using 3 by (simp add: apr_eq recorded_def)
    then have "reviewed v f s t" using 4 5 1 3 ins by (simp add: apr_eq reviewed_def)
    then show ?thesis ..
  qed
qed

text \<open>Every batch that applies a Request is one of these.\<close>

lemma approved_batch:
  assumes "run_statements qs s = Inr (t, rs)" "qs = pre @ appliedReviewInsert app c ev # mid @ u # post"
    "\<And>q. q \<in> set (pre @ mid @ post) \<Longrightarrow> neutral q"
    "resolver u (applied_review app c) (applied_row c)"
    "ac_reviewId c \<notin> rv_id ` set (approval_reviews s)"
  shows "apr t = apr s \<or> reviewed (applied_review app c) (applied_row c) s t"
  by (rule review_batch[OF _ assms(3,4)])
    (use assms(1,2,5) in \<open>simp_all add: appliedReviewInsert_def applied_review_def\<close>)

lemma applied_queries_shape:
  "appliedReviewQueries app c ev = [] @ appliedReviewInsert app c ev # [] @ appliedRequestUpdate app c #
     [approvalReviewAudit app (audited_commit c) ''applied'']"
  by (simp add: appliedReviewQueries_def)

lemma config_batch_reviewed:
  assumes "run_statements (approvedConfigBatch scope flag n p c) s = Inr (t, rs)"
    "ac_reviewId c \<notin> rv_id ` set (approval_reviews s)"
  shows "apr t = apr s \<or> reviewed (applied_review (s_app scope) c) (applied_row c) s t"
  by (rule approved_batch[OF assms(1), where pre = "[approvedConfigUpdate scope flag n p c]" and mid = "[]"])
    (auto simp: approvedConfigBatch_def appliedReviewQueries_def neutrals resolver_applied assms(2))

lemma rules_batch_reviewed:
  assumes "run_statements (approvedRulesBatch scope flag n rows p c) s = Inr (t, rs)"
    "ac_reviewId c \<notin> rv_id ` set (approval_reviews s)"
  shows "apr t = apr s \<or> reviewed (applied_review (s_app scope) c) (applied_row c) s t"
  by (rule approved_batch[OF assms(1), where
        pre = "referencedVariantMustExist scope flag rows @ [approvedConfigUpdate scope flag n p c]" and
        mid = "deleteRules scope flag (reviewRecorded (s_app scope) c) #
          map (\<lambda>r. insertRule (\<lambda>s. getFlagConfig scope flag s \<noteq> None \<and> reviewRecorded (s_app scope) c s)
            (rule_to_insert scope flag r)) rows"])
    (auto simp: approvedRulesBatch_def neutrals resolver_applied assms(2))

lemma catalog_batch_reviewed:
  assumes "run_statements (catalogApprovalBatch app fg m c opts) s = Inr (t, rs)" "neutral m"
    "ac_reviewId c \<notin> rv_id ` set (approval_reviews s)"
  shows "apr t = apr s \<or> reviewed (applied_review app c) (applied_row c) s t"
  by (rule approved_batch[OF assms(1), where mid = "[]" and pre = "[m, bumpFlag app fg (ac_reviewedAt c)
        (case vo_updatedBy opts of None \<Rightarrow> fl_updatedBy fg | Some u \<Rightarrow> Some u)
        (\<lambda>s. approvalPendingCondition app c s \<and> changed_one s)]"])
    (auto simp: catalogApprovalBatch_def neutrals resolver_applied assms(2,3))

lemma variant_batch_reviewed:
  assumes "run_statements (variant_update_batch app fg v p opts (Some c)) s = Inr (t, rs)"
    "ac_reviewId c \<notin> rv_id ` set (approval_reviews s)"
  shows "apr t = apr s \<or> reviewed (applied_review app c) (applied_row c) s t"
  by (rule approved_batch[OF assms(1), where
        pre = "[updateVariants p (vt_id v) (\<lambda>s. approvalPendingCondition app c s \<and> flagVersionUnchanged app fg s),
          bumpFlag app fg (ac_reviewedAt c) (case vo_updatedBy opts of None \<Rightarrow> fl_updatedBy fg | Some u \<Rightarrow> Some u)
            (\<lambda>s. approvalPendingCondition app c s \<and> changed_one s)]" and
        mid = "case (case vp_name p of None \<Rightarrow> None | Some n \<Rightarrow> if n = vt_name v then None else Some n) of None \<Rightarrow> []
          | Some n \<Rightarrow> [renameAvailableVariant app (fl_id fg) (vt_name v) n (Some (ac_reviewedAt c)) (reviewRecorded app c)]"])
    (auto simp: variant_update_batch_def Let_def neutrals resolver_applied assms(2) split: option.splits)

lemma start_batch_reviewed:
  assumes "run_statements (start_statements scope i) s = Inr (t, rs)"
    "\<And>c. si_approval i = Some c \<Longrightarrow> ac_reviewId c \<notin> rv_id ` set (approval_reviews s)"
  shows "apr t = apr s \<or> (\<exists>c. si_approval i = Some c \<and> reviewed (applied_review (s_app scope) c) (applied_row c) s t)"
proof (cases "si_approval i")
  case None
  then have "apr t = apr s"
    by (intro neutral_run_statements[OF assms(1)]) (auto simp: start_statements_def neutrals)
  then show ?thesis ..
next
  case (Some c)
  let ?pre = "[endCurrentRunStatement scope i, insertRunStatement scope i, updateExperimentStartedStatement scope i]"
  have "apr t = apr s \<or> reviewed (applied_review (s_app scope) c) (applied_row c) s t"
    by (rule approved_batch[OF assms(1), where pre = ?pre and mid = "[]"])
      (auto simp: start_statements_def approvalAppliedStatements_def start_review_agrees Some neutrals resolver_applied
        assms(2))
  with Some show ?thesis by blast
qed

section \<open>The machine\<close>

text \<open>
  \<open>cw_ids\<close> are the ids of Requests, Reviews and Configurations minted so far; \<open>cw_torn\<close> the
  Configurations whose Targeting Rules an Environment teardown has removed ahead of them. A
  batch that updates rows read before takes what was read as an argument of its own.
\<close>

record control_world =
  cw_db :: db
  cw_ids :: "string list"
  cw_torn :: "(env_scope \<times> string) list"

definition config_tables :: "db \<Rightarrow> config_row list \<times> rule_row list" where
  "config_tables s = (flag_configs s, targeting_rules s)"

inductive control_step :: "control_world \<Rightarrow> control_world \<Rightarrow> bool" where
  create: "\<lbrakk>ap_id q \<notin> set (cw_ids w); ap_status q = ''pending''; ap_resolvedAt q = None\<rbrakk> \<Longrightarrow>
    control_step w (w\<lparr>cw_db := snd (createRequest app q audit (cw_db w)), cw_ids := ap_id q # cw_ids w\<rparr>)"
| dispose: "\<lbrakk>dp_reviewId d \<notin> set (cw_ids w); dp_outcome d = ''declined'' \<or> dp_outcome d = ''stale''\<rbrakk> \<Longrightarrow>
    control_step w (w\<lparr>cw_db := snd (resolveWithoutApplication app d (cw_db w)), cw_ids := dp_reviewId d # cw_ids w\<rparr>)"
| apply_only: "ac_reviewId c \<notin> set (cw_ids w) \<Longrightarrow>
    control_step w (w\<lparr>cw_db := snd (recordApplied app c (cw_db w)), cw_ids := ac_reviewId c # cw_ids w\<rparr>)"
| fail: "fa_reviewId f \<notin> set (cw_ids w) \<Longrightarrow>
    control_step w (w\<lparr>cw_db := snd (recordFailure_review app f (cw_db w)), cw_ids := fa_reviewId f # cw_ids w\<rparr>)"
| config: "ac_reviewId c \<notin> set (cw_ids w) \<Longrightarrow>
    control_step w (w\<lparr>cw_db := snd (d1_batch (approvedConfigBatch scope flag n p c) (cw_db w)),
      cw_ids := ac_reviewId c # cw_ids w\<rparr>)"
| rules: "ac_reviewId c \<notin> set (cw_ids w) \<Longrightarrow>
    control_step w (w\<lparr>cw_db := snd (d1_batch (approvedRulesBatch scope flag n rows p c) (cw_db w)),
      cw_ids := ac_reviewId c # cw_ids w\<rparr>)"
| variant: "ac_reviewId c \<notin> set (cw_ids w) \<Longrightarrow>
    control_step w (w\<lparr>cw_db := snd (d1_batch (variant_update_batch app g v vp opts (Some c)) (cw_db w)),
      cw_ids := ac_reviewId c # cw_ids w\<rparr>)"
| variant_add: "ac_reviewId c \<notin> set (cw_ids w) \<Longrightarrow>
    control_step w (w\<lparr>cw_db := snd (d1_batch (catalogApprovalBatch app g (guardedVariantInsert app v c) c opts) (cw_db w)),
      cw_ids := ac_reviewId c # cw_ids w\<rparr>)"
| variant_remove: "ac_reviewId c \<notin> set (cw_ids w) \<Longrightarrow>
    control_step w (w\<lparr>cw_db := snd (d1_batch (approvedVariantDeleteBatch app g v c opts) (cw_db w)),
      cw_ids := ac_reviewId c # cw_ids w\<rparr>)"
| start: "\<lbrakk>\<And>c. si_approval i = Some c \<Longrightarrow> ac_reviewId c \<notin> set (cw_ids w)\<rbrakk> \<Longrightarrow>
    control_step w (w\<lparr>cw_db := snd (runStartBatch scope i (cw_db w)),
      cw_ids := (case si_approval i of None \<Rightarrow> [] | Some c \<Rightarrow> [ac_reviewId c]) @ cw_ids w\<rparr>)"
| conclude: "\<lbrakk>ap_id (ci_approval j) \<notin> set (cw_ids w); ap_status (ci_approval j) = ''pending'';
      ap_resolvedAt (ci_approval j) = None\<rbrakk> \<Longrightarrow>
    control_step w (w\<lparr>cw_db := snd (commit scope j (cw_db w)), cw_ids := ap_id (ci_approval j) # cw_ids w\<rparr>)"
| replace: "\<lbrakk>ap_id (ri_approval k) \<notin> set (cw_ids w); ap_status (ri_approval k) = ''pending'';
      ap_resolvedAt (ri_approval k) = None\<rbrakk> \<Longrightarrow>
    control_step w (w\<lparr>cw_db := snd (createReplacement app k (cw_db w)), cw_ids := ap_id (ri_approval k) # cw_ids w\<rparr>)"
| archive: "control_step w (w\<lparr>cw_db := snd (finalizeApprovalArchive app a status (cw_db w))\<rparr>)"
| config_direct: "control_step w (w\<lparr>cw_db := snd (updateDirectFlagConfig scope flag p au (cw_db w))\<rparr>)"
| rules_direct: "control_step w (w\<lparr>cw_db := snd (replaceDirectTargetingRules scope flag rows p au (cw_db w))\<rparr>)"
| variant_direct: "control_step w (w\<lparr>cw_db := snd (d1_batch (variant_update_batch app g v vp opts None) (cw_db w))\<rparr>)"
| initial: "fc_id x \<notin> set (cw_ids w) \<Longrightarrow>
    control_step w (w\<lparr>cw_db := snd (ensureInitialFlagConfig scope x (cw_db w)), cw_ids := fc_id x # cw_ids w\<rparr>)"
| tear_rules: "control_step w (w\<lparr>cw_db := removeTargetingRules scope flag (cw_db w), cw_torn := (scope, flag) # cw_torn w\<rparr>)"
| tear_config: "control_step w (w\<lparr>cw_db := removeFlagConfig scope flag (cw_db w)\<rparr>)"
| others: "\<lbrakk>apr s' = apr (cw_db w); config_tables s' = config_tables (cw_db w)\<rbrakk> \<Longrightarrow>
    control_step w (w\<lparr>cw_db := s'\<rparr>)"

definition new_control :: "db \<Rightarrow> control_world" where
  "new_control s = \<lparr>cw_db = s\<lparr>approval_requests := [], approval_reviews := [], flag_configs := [],
     targeting_rules := []\<rparr>, cw_ids = [], cw_torn = []\<rparr>"

section \<open>Verdicts\<close>

text \<open>The Reviews of a Request that are more than a failed attempt.\<close>

definition verdicts :: "approval_row \<Rightarrow> review_row list \<Rightarrow> review_row list" where
  "verdicts q vs = filter (\<lambda>v. rv_request v = ap_id q \<and> rv_outcome v \<noteq> ''failed'') vs"

definition settled :: "approval_row \<Rightarrow> review_row list \<Rightarrow> bool" where
  "settled q vs \<longleftrightarrow>
     ap_status q = ''pending'' \<and> ap_resolvedAt q = None \<and> vs = []
   \<or> ap_status q = ''applied'' \<and> (\<exists>v. vs = [v] \<and> rv_outcome v = ''applied'' \<and> ap_resolvedAt q = Some (rv_at v)
        \<and> ap_resultVersion q = rv_resultVersion v \<and> ap_resultType q = rv_resultType v \<and> ap_resultId q = rv_resultId v)
   \<or> ap_status q = ''declined'' \<and> (\<exists>v. vs = [v] \<and> rv_outcome v = ''declined'' \<and> ap_resolvedAt q = Some (rv_at v))
   \<or> ap_status q = ''stale'' \<and> ap_resolvedAt q \<noteq> None
      \<and> (vs = [] \<or> (\<exists>v. vs = [v] \<and> rv_outcome v = ''stale'' \<and> ap_resolvedAt q = Some (rv_at v)))"

definition approvals_ok :: "db \<Rightarrow> bool" where
  "approvals_ok s \<longleftrightarrow> distinct (map ap_id (approval_requests s)) \<and> distinct (map rv_id (approval_reviews s))
   \<and> (\<forall>q\<in>set (approval_requests s). settled q (verdicts q (approval_reviews s)))
   \<and> (\<forall>v\<in>set (approval_reviews s). \<exists>q\<in>set (approval_requests s). ap_id q = rv_request v \<and> ap_app q = rv_app v)"

lemma approvals_apr: "apr t = apr s \<Longrightarrow> approvals_ok t = approvals_ok s"
  by (simp add: approvals_ok_def apr_eq)

lemma request_by_id:
  assumes "approvals_ok s" "q \<in> set (approval_requests s)" "p \<in> set (approval_requests s)" "ap_id q = ap_id p"
  shows "q = p"
  using assms unfolding approvals_ok_def by (metis distinct_map inj_on_eq_iff)

text \<open>A Review and the resolution of its Request keep the invariant.\<close>

lemma reviewed_keeps:
  assumes ok: "approvals_ok s" and rev: "reviewed v f s t" and fresh: "rv_id v \<notin> rv_id ` set (approval_reviews s)"
    and f: "\<And>q. ap_id (f q) = ap_id q \<and> ap_app (f q) = ap_app q"
    and verdict: "\<And>q. open_request (rv_app v) (rv_request v) q \<Longrightarrow> rv_outcome v \<noteq> ''failed'' \<and> settled (f q) [v]"
  shows "approvals_ok t"
proof -
  let ?P = "open_request (rv_app v) (rv_request v)"
  obtain q where q: "q \<in> set (approval_requests s)" "?P q" using rev by (auto simp: reviewed_def list_ex_iff)
  have only: "?P p \<longleftrightarrow> p = q" if "p \<in> set (approval_requests s)" for p
    using request_by_id[OF ok that q(1)] q(2) by (auto simp: open_request_def)
  have reqs: "approval_requests t = set_where ?P f (approval_requests s)"
    and revs: "approval_reviews t = approval_reviews s @ [v]" using rev by (simp_all add: reviewed_def)
  have noq: "verdicts q (approval_reviews s) = []"
    using ok q unfolding approvals_ok_def settled_def open_request_def by fastforce
  have "settled p' (verdicts p' (approval_reviews t))" if p': "p' \<in> set (approval_requests t)" for p'
  proof -
    obtain p where p: "p \<in> set (approval_requests s)" "p' = (if ?P p then f p else p)"
      using p' by (auto simp: reqs)
    show ?thesis
    proof (cases "p = q")
      case True
      then have "p' = f q" using p(2) q(2) by simp
      moreover have "verdicts (f q) (approval_reviews t) = [v]"
        using noq f[of q] q(2) verdict[OF q(2)] by (simp add: verdicts_def revs open_request_def)
      ultimately show ?thesis using verdict[OF q(2)] by simp
    next
      case False
      then have "p' = p" using p only[OF p(1)] by simp
      moreover have "ap_id p \<noteq> rv_request v"
        using False request_by_id[OF ok p(1) q(1)] q(2) by (auto simp: open_request_def)
      then have "verdicts p (approval_reviews t) = verdicts p (approval_reviews s)" by (simp add: verdicts_def revs)
      ultimately show ?thesis using ok p(1) by (simp add: approvals_ok_def)
    qed
  qed
  moreover have "distinct (map ap_id (approval_requests t))"
    using ok f by (simp add: reqs map_set_where approvals_ok_def)
  moreover have "distinct (map rv_id (approval_reviews t))"
    using ok fresh by (simp add: revs approvals_ok_def)
  moreover have "\<exists>p'\<in>set (approval_requests t). ap_id p' = rv_request x \<and> ap_app p' = rv_app x"
    if x: "x \<in> set (approval_reviews t)" for x
  proof -
    obtain p where p: "p \<in> set (approval_requests s)" "ap_id p = rv_request x" "ap_app p = rv_app x"
      using x ok q by (auto simp: revs approvals_ok_def open_request_def)
    have "(if ?P p then f p else p) \<in> set (approval_requests t)" using p(1) unfolding reqs by simp
    moreover have "ap_id (if ?P p then f p else p) = rv_request x \<and> ap_app (if ?P p then f p else p) = rv_app x"
      using p(2,3) f by simp
    ultimately show ?thesis by blast
  qed
  ultimately show ?thesis by (simp add: approvals_ok_def)
qed

lemma applied_keeps:
  assumes "approvals_ok s" "apr t = apr s \<or> reviewed (applied_review app c) (applied_row c) s t"
    "ac_reviewId c \<notin> rv_id ` set (approval_reviews s)"
  shows "approvals_ok t"
  using assms(2)
proof
  assume "reviewed (applied_review app c) (applied_row c) s t"
  then show ?thesis
    by (rule reviewed_keeps[OF assms(1)])
      (use assms(3) in \<open>simp_all add: applied_review_def applied_row_def settled_def\<close>)
qed (simp add: approvals_apr assms(1))

lemma disposed_shape:
  assumes run: "run_statements (dispositionQueries app d @ [approvalReviewAudit app v o']) s = Inr (t, rs)"
    and fresh: "dp_reviewId d \<notin> rv_id ` set (approval_reviews s)"
  shows "apr t = apr s
    \<or> reviewed (disposition_review app d) (\<lambda>q. q\<lparr>ap_status := dp_outcome d, ap_resolvedAt := Some (dp_at d)\<rparr>) s t"
proof -
  let ?v = "disposition_review app d" and ?f = "\<lambda>q. q\<lparr>ap_status := dp_outcome d, ap_resolvedAt := Some (dp_at d)\<rparr>"
  have v: "rv_app ?v = app" "rv_request ?v = dp_requestId d" "rv_id ?v = dp_reviewId d"
    by (simp_all add: disposition_review_def)
  obtain s1 s2 r1 r2 r3 where a: "reviewInsert (currentReviewerCondition app (dp_by d)) ?v s = Inr (s1, r1)"
    and b: "resolve_request ?f (\<lambda>s q. ap_app q = app \<and> ap_id q = dp_requestId d \<and> ap_status q = ''pending''
          \<and> currentReviewerCondition app (dp_by d) s
          \<and> list_ex (\<lambda>v. rv_app v = app \<and> rv_id v = dp_reviewId d \<and> rv_request v = dp_requestId d)
              (approval_reviews s)) s1 = Inr (s2, r2)"
    and c: "approvalReviewAudit app v o' s2 = Inr (t, r3)"
    using run by (auto simp: dispositionQueries_def ebind_eq_Inr split: prod.splits)
  have t: "apr t = apr s2" by (rule neutralD[OF neutral_audit(2) c])
  have s2: "approval_reviews s2 = approval_reviews s1" "approval_requests s2 = set_where (\<lambda>q. open_request app (dp_requestId d) q
      \<and> currentReviewerCondition app (dp_by d) s1 \<and> recorded ?v s1) ?f (approval_requests s1)"
    using b by (auto simp: resolve_request_def open_request_def recorded_def v conj_assoc)
  from review_insert_shape[OF a] show ?thesis
  proof (elim conjE disjE)
    assume "approval_requests s1 = approval_requests s" "approval_reviews s1 = approval_reviews s"
    moreover from this have "\<not> recorded ?v s1" using fresh by (auto simp: recorded_def v list_ex_iff rev_image_eqI)
    ultimately have "apr t = apr s" using t s2 by (simp add: apr_eq set_where_none)
    then show ?thesis ..
  next
    assume ins: "approval_requests s1 = approval_requests s"
      "list_ex (open_request (rv_app ?v) (rv_request ?v)) (approval_requests s)"
      "currentReviewerCondition app (dp_by d) s" "approval_reviews s1 = approval_reviews s @ [?v]"
    have "memberships s1 = memberships s"
      using a by (auto simp: reviewInsert_def insert_if_def split: if_splits option.splits)
    then have "currentReviewerCondition app (dp_by d) s1" using ins(3) by (simp add: currentReviewerCondition_def)
    moreover have "recorded ?v s1" by (simp add: ins(4) recorded_def)
    ultimately have "reviewed ?v ?f s t" using t s2 ins by (simp add: apr_eq reviewed_def v)
    then show ?thesis ..
  qed
qed

lemma disposed_keeps:
  assumes ok: "approvals_ok s" and fresh: "dp_reviewId d \<notin> rv_id ` set (approval_reviews s)"
    and out: "dp_outcome d = ''declined'' \<or> dp_outcome d = ''stale''"
  shows "approvals_ok (snd (resolveWithoutApplication app d s))"
proof (cases "run_statements (dispositionQueries app d @ [approvalReviewAudit app (audited_disposition d) (dp_outcome d)]) s")
  case (Inl e)
  then show ?thesis using ok by (simp add: resolveWithoutApplication_def d1_batch_def)
next
  case (Inr p)
  then obtain t rs where run: "run_statements (dispositionQueries app d @
      [approvalReviewAudit app (audited_disposition d) (dp_outcome d)]) s = Inr (t, rs)" by (cases p) simp
  then have t: "snd (resolveWithoutApplication app d s) = t" by (simp add: resolveWithoutApplication_def d1_batch_def)
  from disposed_shape[OF run fresh] show ?thesis unfolding t
  proof
    assume "reviewed (disposition_review app d) (\<lambda>q. q\<lparr>ap_status := dp_outcome d, ap_resolvedAt := Some (dp_at d)\<rparr>) s t"
    then show "approvals_ok t"
      by (rule reviewed_keeps[OF ok]) (use fresh out in \<open>auto simp: disposition_review_def settled_def\<close>)
  qed (simp add: approvals_apr ok)
qed

lemma failed_keeps:
  assumes ok: "approvals_ok s" and fresh: "fa_reviewId f \<notin> rv_id ` set (approval_reviews s)"
  shows "approvals_ok (snd (recordFailure_review app f s))"
    "approval_requests (snd (recordFailure_review app f s)) = approval_requests s"
    "rv_id ` set (approval_reviews (snd (recordFailure_review app f s))) \<subseteq> insert (fa_reviewId f) (rv_id ` set (approval_reviews s))"
proof -
  let ?v = "failure_review app f" and ?t = "snd (recordFailure_review app f s)"
  have v: "rv_outcome ?v = ''failed''" "rv_id ?v = fa_reviewId f" "rv_app ?v = app" by (simp_all add: failure_review_def)
  have shape: "apr ?t = apr s \<or> approval_requests ?t = approval_requests s \<and> approval_reviews ?t = approval_reviews s @ [?v]
      \<and> list_ex (open_request (rv_app ?v) (rv_request ?v)) (approval_requests s)"
  proof (cases "run_statements [failureInsert app f, approvalReviewAudit app (audited_failure f) ''failed''] s")
    case (Inl e)
    then show ?thesis by (simp add: recordFailure_review_def d1_batch_def del: run_statements.simps)
  next
    case (Inr p)
    then obtain t rs where run: "run_statements [failureInsert app f, approvalReviewAudit app (audited_failure f) ''failed''] s
        = Inr (t, rs)" by (cases p) simp
    then have t: "?t = t" by (simp add: recordFailure_review_def d1_batch_def del: run_statements.simps)
    obtain s1 r1 r2 where "failureInsert app f s = Inr (s1, r1)" "approvalReviewAudit app (audited_failure f) ''failed'' s1 = Inr (t, r2)"
      using run by (auto simp: ebind_eq_Inr split: prod.splits)
    with review_insert_shape[of "\<lambda>_. True" ?v s s1 r1] neutralD[OF neutral_audit(2)] show ?thesis
      unfolding t failureInsert_def apr_eq by metis
  qed
  then show "approval_requests ?t = approval_requests s" by (auto simp: apr_eq)
  from shape show "rv_id ` set (approval_reviews ?t) \<subseteq> insert (fa_reviewId f) (rv_id ` set (approval_reviews s))"
    by (auto simp: apr_eq v)
  from shape show "approvals_ok ?t"
  proof (elim disjE conjE)
    assume reqs: "approval_requests ?t = approval_requests s" and revs: "approval_reviews ?t = approval_reviews s @ [?v]"
      and "list_ex (open_request (rv_app ?v) (rv_request ?v)) (approval_requests s)"
    then obtain q where "q \<in> set (approval_requests s)" "ap_id q = rv_request ?v" "ap_app q = rv_app ?v"
      by (auto simp: list_ex_iff open_request_def)
    moreover have "verdicts p (approval_reviews ?t) = verdicts p (approval_reviews s)" for p
      by (simp add: verdicts_def revs v)
    ultimately show ?thesis
      using ok fresh v(2) by (auto simp: approvals_ok_def reqs revs)
  qed (simp add: approvals_apr ok)
qed

text \<open>A new Request, alone or after its predecessor went stale.\<close>

lemma inserted_keeps:
  assumes ok: "approvals_ok s" and reqs: "approval_requests t = approval_requests s @ [q]"
    and revs: "approval_reviews t = approval_reviews s"
    and q: "ap_id q \<notin> ap_id ` set (approval_requests s)" "ap_status q = ''pending''" "ap_resolvedAt q = None"
  shows "approvals_ok t"
proof -
  have "rv_request v \<noteq> ap_id q" if "v \<in> set (approval_reviews s)" for v
    using ok that q(1) unfolding approvals_ok_def by (metis image_eqI)
  then have "verdicts q (approval_reviews s) = []" by (auto simp: verdicts_def filter_empty_conv)
  then have "settled q (verdicts q (approval_reviews s))" using q by (simp add: settled_def)
  then show ?thesis using ok q(1) by (auto simp: approvals_ok_def reqs revs)
qed

lemma staled_keeps:
  assumes ok: "approvals_ok s" and revs: "approval_reviews t = approval_reviews s"
    and reqs: "approval_requests t = set_where P (\<lambda>q. q\<lparr>ap_status := ''stale'',
        ap_resolvedAt := case_option (Some x) Some (ap_resolvedAt q)\<rparr>) (approval_requests s)"
    and P: "\<And>q. P q \<Longrightarrow> ap_status q = ''pending'' \<or> ap_status q = ''stale''"
  shows "approvals_ok t"
proof -
  let ?f = "\<lambda>q. q\<lparr>ap_status := ''stale'', ap_resolvedAt := case_option (Some x) Some (ap_resolvedAt q)\<rparr>"
  have "settled (?f q) vs" if "P q" "settled q vs" for q vs
    using P[OF that(1)] that(2) by (auto simp: settled_def)
  moreover have "verdicts (?f q) vs = verdicts q vs" for q vs by (simp add: verdicts_def)
  ultimately have "\<forall>q\<in>set (approval_requests t). settled q (verdicts q (approval_reviews t))"
    using ok unfolding approvals_ok_def reqs revs by auto
  moreover have "distinct (map ap_id (approval_requests t))"
    using ok by (simp add: reqs map_set_where approvals_ok_def)
  moreover have "\<exists>q\<in>set (approval_requests t). ap_id q = rv_request v \<and> ap_app q = rv_app v"
    if v: "v \<in> set (approval_reviews s)" for v
  proof -
    obtain q where q: "q \<in> set (approval_requests s)" "ap_id q = rv_request v" "ap_app q = rv_app v"
      using ok v by (auto simp: approvals_ok_def)
    then have "(if P q then ?f q else q) \<in> set (approval_requests t)" by (simp add: reqs)
    moreover have "ap_id (if P q then ?f q else q) = rv_request v \<and> ap_app (if P q then ?f q else q) = rv_app v"
      using q by simp
    ultimately show ?thesis by blast
  qed
  ultimately show ?thesis using ok by (simp add: approvals_ok_def revs)
qed

section \<open>What each batch does to the Requests\<close>

text \<open>
  A Request stays as it is, or it is resolved, once, with its proposal untouched: all that a
  resolution writes is the status, its time and the result.
\<close>

definition proposal :: "approval_row \<Rightarrow> approval_row" where
  "proposal q = q\<lparr>ap_status := [], ap_resolvedAt := None, ap_resultVersion := None, ap_resultType := None,
     ap_resultId := None\<rparr>"

definition request_evolves :: "approval_row \<Rightarrow> approval_row \<Rightarrow> bool" where
  "request_evolves q q' \<longleftrightarrow> q' = q
   \<or> ap_status q = ''pending'' \<and> ap_status q' \<noteq> ''pending'' \<and> proposal q' = proposal q"

definition apr_good :: "string set \<Rightarrow> db \<Rightarrow> db \<Rightarrow> bool" where
  "apr_good new s t \<longleftrightarrow> approvals_ok t
     \<and> (\<forall>q'\<in>set (approval_requests t). ap_id q' \<in> new \<or> (\<exists>q\<in>set (approval_requests s). request_evolves q q'))
     \<and> rv_id ` set (approval_reviews t) \<subseteq> rv_id ` set (approval_reviews s) \<union> new"

lemma request_evolves_refl [simp]: "request_evolves q q"
  by (simp add: request_evolves_def)

lemma proposal_id: "proposal q' = proposal q \<Longrightarrow> ap_id q' = ap_id q"
  by (drule arg_cong[where f = ap_id]) (simp add: proposal_def)

lemma request_evolves_id: "request_evolves q q' \<Longrightarrow> ap_id q' = ap_id q"
  by (auto simp: request_evolves_def dest: proposal_id)

lemma request_evolves_trans: "request_evolves q q' \<Longrightarrow> request_evolves q' q'' \<Longrightarrow> request_evolves q q''"
  unfolding request_evolves_def by presburger

lemma evolves_member: "q \<in> Q \<Longrightarrow> request_evolves q q' \<Longrightarrow> \<exists>q\<in>Q. request_evolves q q'"
  by blast

lemma apr_good_same:
  assumes "approvals_ok s" "apr t = apr s" shows "apr_good new s t"
  using assms(2) approvals_apr[OF assms(2)] assms(1)
  by (auto simp: apr_good_def apr_eq intro!: evolves_member[OF _ request_evolves_refl])

lemma apr_good_reviewed:
  assumes "approvals_ok s" "reviewed v f s t" "approvals_ok t" "rv_id v \<in> new"
    "\<And>q. ap_status q = ''pending'' \<Longrightarrow> ap_status (f q) \<noteq> ''pending'' \<and> proposal (f q) = proposal q"
  shows "apr_good new s t"
proof -
  have reqs: "approval_requests t = set_where (open_request (rv_app v) (rv_request v)) f (approval_requests s)"
    and revs: "approval_reviews t = approval_reviews s @ [v]" using assms(2) by (simp_all add: reviewed_def)
  have "\<exists>q\<in>set (approval_requests s). request_evolves q q'" if q': "q' \<in> set (approval_requests t)" for q'
  proof -
    obtain q where q: "q \<in> set (approval_requests s)" "q' = (if open_request (rv_app v) (rv_request v) q then f q else q)"
      using q' by (auto simp: reqs)
    have "request_evolves q q'"
      using assms(5)[of q] by (simp add: q(2) request_evolves_def open_request_def)
    with q(1) show ?thesis by blast
  qed
  then show ?thesis using assms(3,4) by (auto simp: apr_good_def revs)
qed

lemma applied_good:
  assumes "approvals_ok s" "apr t = apr s \<or> reviewed (applied_review app c) (applied_row c) s t"
    "ac_reviewId c \<notin> rv_id ` set (approval_reviews s)" "ac_reviewId c \<in> new"
  shows "apr_good new s t"
  using assms(2)
proof
  assume "reviewed (applied_review app c) (applied_row c) s t"
  from apr_good_reviewed[OF assms(1) this applied_keeps[OF assms(1-3)]] show ?thesis
    by (simp add: assms(4) applied_review_def applied_row_def proposal_def)
qed (rule apr_good_same[OF assms(1)])

end
