(* ===== verification/ControlHistory.thy ===== *)
theory ControlHistory
  imports ApprovalMachine
begin

text \<open>
  What the steps of the machine of \<open>ApprovalMachine\<close> keep, and what adds up along a history:
  a Request is settled once and its proposal stays; the version of a Configuration tells every
  change of it and of its Targeting Rules.
\<close>

section \<open>What an operation leaves in the database\<close>

lemma record_applied_db:
  "snd (recordApplied app c s) = snd (d1_batch (appliedReviewQueries app c (approvalPendingCondition app c)) s)"
  by (simp add: recordApplied_def split: prod.split sum.split)

lemma disposed_db: "snd (resolveWithoutApplication app d s) = snd (d1_batch (dispositionQueries app d @
    [approvalReviewAudit app (audited_disposition d) (dp_outcome d)]) s)"
  by (simp add: resolveWithoutApplication_def split: prod.split sum.split)

lemma failed_db: "snd (recordFailure_review app f s) = snd (d1_batch [failureInsert app f,
    approvalReviewAudit app (audited_failure f) ''failed''] s)"
  by (simp add: recordFailure_review_def del: run_statements.simps split: prod.split sum.split)

lemma created_db: "snd (createRequest app q audit s) = (if requestByActorKey app (ap_by q) (ap_key q) s = None
    then snd (d1_batch (createInsert (q\<lparr>ap_app := app\<rparr>) #
      (case audit of None \<Rightarrow> [] | Some a \<Rightarrow> [createAudit app (q\<lparr>ap_app := app\<rparr>) a])) s) else s)"
  by (simp add: createRequest_def Let_def del: run_statements.simps split: prod.split sum.split option.split)

lemma committed_db: "snd (commit scope j s) = snd (d1_batch (conclusionStatements scope j) s)"
  by (simp add: commit_def split: prod.split sum.split option.split)

lemma replaced_db: "snd (createReplacement app k s) = snd (d1_batch (replacementStatements app k) s)"
  by (simp add: createReplacement_def split: prod.split sum.split)

lemma archived_db: "snd (finalizeApprovalArchive app a status s) = (if av_reviewCount a < 0 then s
    else snd (d1_batch [deleteReviewsStatement app a status, deleteRequestStatement app a status] s))"
  by (simp add: finalizeApprovalArchive_def del: run_statements.simps split: prod.split sum.split)

lemma update_direct_db: "snd (updateDirectFlagConfig scope flag p audit s) = snd (d1_batch (directConfigUpdate scope flag p #
    (case audit of None \<Rightarrow> [] | Some a \<Rightarrow> [configAudit scope flag a])) s)"
  by (simp add: updateDirectFlagConfig_def split: prod.split sum.split)

lemma replace_direct_db: "snd (replaceDirectTargetingRules scope flag rows p audit s) = snd (d1_batch (directRulesBatch scope flag rows p @
    (case audit of None \<Rightarrow> [] | Some a \<Rightarrow> [configAudit scope flag a])) s)"
  by (simp add: replaceDirectTargetingRules_def split: prod.split sum.split)

lemma run_start_db: "snd (runStartBatch scope i s) = snd (d1_batch (start_statements scope i) s)"
  by (simp add: runStartBatch_def Let_def split: prod.split sum.split)

lemma ensure_initial_db: "snd (ensureInitialFlagConfig scope x s) = (if getFlagConfig scope (fc_flag x) s = None
    then snd (d1_batch [insertConfig (x\<lparr>fc_app := s_app scope, fc_env := s_env scope\<rparr>)] s) else s)"
  by (simp add: ensureInitialFlagConfig_def Let_def del: run_statements.simps split: prod.split sum.split option.split)

section \<open>Requests and Reviews\<close>

lemma apr_good_trans:
  assumes "apr_good new s t" "apr_good new t u" shows "apr_good new s u"
proof -
  have "ap_id q'' \<in> new \<or> (\<exists>q\<in>set (approval_requests s). request_evolves q q'')"
    if q'': "q'' \<in> set (approval_requests u)" for q''
  proof (cases "ap_id q'' \<in> new")
    case False
    with q'' assms(2) obtain q' where q': "q' \<in> set (approval_requests t)" "request_evolves q' q''"
      by (auto simp: apr_good_def)
    then have "ap_id q' \<notin> new" using False by (simp add: request_evolves_id)
    with q'(1) assms(1) obtain q where "q \<in> set (approval_requests s)" "request_evolves q q'"
      by (auto simp: apr_good_def)
    with q'(2) show ?thesis using request_evolves_trans by blast
  qed simp
  moreover have "rv_id ` set (approval_reviews u) \<subseteq> rv_id ` set (approval_reviews s) \<union> new"
    using assms unfolding apr_good_def by blast
  ultimately show ?thesis using assms(2) by (simp add: apr_good_def)
qed

text \<open>A batch does what it does when it commits, or nothing.\<close>

lemma batch_good:
  assumes "approvals_ok s" "\<And>t rs. run_statements qs s = Inr (t, rs) \<Longrightarrow> apr_good new s t"
  shows "apr_good new s (snd (d1_batch qs s))"
  using assms(2) apr_good_same[OF assms(1)] by (auto simp: d1_batch_def split: sum.splits)

lemma quiet_batch_good:
  assumes "approvals_ok s" "\<And>q. q \<in> set qs \<Longrightarrow> neutral q"
  shows "apr_good new s (snd (d1_batch qs s))"
  by (rule batch_good[OF assms(1)], rule apr_good_same[OF assms(1)], rule neutral_run_statements) (use assms(2) in auto)

lemma applied_batch_good:
  assumes "approvals_ok s" "ac_reviewId c \<notin> rv_id ` set (approval_reviews s)" "ac_reviewId c \<in> new"
    "\<And>t rs. run_statements qs s = Inr (t, rs) \<Longrightarrow>
      apr t = apr s \<or> reviewed (applied_review app c) (applied_row c) s t"
  shows "apr_good new s (snd (d1_batch qs s))"
  by (rule batch_good[OF assms(1)]) (rule applied_good[OF assms(1) assms(4) assms(2,3)])

lemma record_applied_good:
  assumes "approvals_ok s" "ac_reviewId c \<notin> rv_id ` set (approval_reviews s)" "ac_reviewId c \<in> new"
  shows "apr_good new s (snd (recordApplied app c s))"
  unfolding record_applied_db
  by (rule applied_batch_good[OF assms], rule approved_batch[OF _ applied_queries_shape])
    (auto simp: neutrals resolver_applied assms(2))

lemma disposed_good:
  assumes ok: "approvals_ok s" and fresh: "dp_reviewId d \<notin> rv_id ` set (approval_reviews s)" "dp_reviewId d \<in> new"
    and out: "dp_outcome d = ''declined'' \<or> dp_outcome d = ''stale''"
  shows "apr_good new s (snd (resolveWithoutApplication app d s))"
proof (cases "run_statements (dispositionQueries app d @ [approvalReviewAudit app (audited_disposition d) (dp_outcome d)]) s")
  case (Inl e)
  then show ?thesis using ok by (simp add: resolveWithoutApplication_def d1_batch_def apr_good_same)
next
  case (Inr p)
  then obtain t rs where run: "run_statements (dispositionQueries app d @
      [approvalReviewAudit app (audited_disposition d) (dp_outcome d)]) s = Inr (t, rs)" by (cases p) simp
  then have t: "snd (resolveWithoutApplication app d s) = t" by (simp add: resolveWithoutApplication_def d1_batch_def)
  have keeps: "approvals_ok t" using disposed_keeps[OF ok fresh(1) out, of app] unfolding t .
  from disposed_shape[OF run fresh(1)] show ?thesis unfolding t
  proof
    assume "reviewed (disposition_review app d) (\<lambda>q. q\<lparr>ap_status := dp_outcome d, ap_resolvedAt := Some (dp_at d)\<rparr>) s t"
    then show "apr_good new s t"
      by (rule apr_good_reviewed[OF ok _ keeps]) (use fresh out in \<open>auto simp: disposition_review_def proposal_def\<close>)
  qed (rule apr_good_same[OF ok])
qed

lemma failed_good:
  assumes "approvals_ok s" "fa_reviewId f \<notin> rv_id ` set (approval_reviews s)" "fa_reviewId f \<in> new"
  shows "apr_good new s (snd (recordFailure_review app f s))"
  using failed_keeps[OF assms(1,2), of app] assms(3)
  by (auto simp: apr_good_def intro!: evolves_member[OF _ request_evolves_refl])

lemma apr_good_inserted:
  assumes ok: "approvals_ok s" and reqs: "approval_requests t = approval_requests s @ [q]"
    and revs: "approval_reviews t = approval_reviews s"
    and q: "ap_id q \<notin> ap_id ` set (approval_requests s)" "ap_status q = ''pending''" "ap_resolvedAt q = None"
    and new: "ap_id q \<in> new"
  shows "apr_good new s t"
  using inserted_keeps[OF ok reqs revs q] new
  by (auto simp: apr_good_def reqs revs intro!: evolves_member[OF _ request_evolves_refl])

lemma request_inserted:
  assumes "insert_if g (approval_insertable s q) x (\<lambda>s. s\<lparr>approval_requests := approval_requests s @ [q]\<rparr>) s = Inr (t, rows)"
  shows "apr t = apr s \<or> approval_requests t = approval_requests s @ [q] \<and> approval_reviews t = approval_reviews s"
  using assms by (auto simp: insert_if_def apr_def split: if_splits option.splits)

lemma insert_batch:
  assumes run: "run_statements (pre @ ins # post) s = Inr (t, rs)"
    and neutral: "\<And>q. q \<in> set (pre @ post) \<Longrightarrow> neutral q"
    and ins: "\<And>s t rows. ins s = Inr (t, rows) \<Longrightarrow>
      apr t = apr s \<or> approval_requests t = approval_requests s @ [q] \<and> approval_reviews t = approval_reviews s"
    and ok: "approvals_ok s"
    and q: "ap_id q \<notin> ap_id ` set (approval_requests s)" "ap_status q = ''pending''" "ap_resolvedAt q = None"
    and new: "ap_id q \<in> new"
  shows "apr_good new s t"
proof -
  obtain s1 s2 r1 r2 r3 where a: "run_statements pre s = Inr (s1, r1)" and b: "ins s1 = Inr (s2, r2)"
    and c: "run_statements post s2 = Inr (t, r3)"
    using run by (auto simp: run_statements_append ebind_eq_Inr split: prod.splits)
  have 1: "apr s1 = apr s" by (rule neutral_run_statements[OF a]) (simp add: neutral)
  have 2: "apr t = apr s2" by (rule neutral_run_statements[OF c]) (simp add: neutral)
  from ins[OF b] show ?thesis
  proof (elim disjE conjE)
    assume "apr s2 = apr s1"
    with 1 2 show ?thesis by (intro apr_good_same[OF ok]) simp
  next
    assume "approval_requests s2 = approval_requests s1 @ [q]" "approval_reviews s2 = approval_reviews s1"
    with 1 2 show ?thesis by (intro apr_good_inserted[OF ok _ _ q new]) (simp_all add: apr_eq)
  qed
qed

lemma created_good:
  assumes ok: "approvals_ok s" and q: "ap_id q \<notin> ap_id ` set (approval_requests s)" "ap_status q = ''pending''"
    "ap_resolvedAt q = None" and new: "ap_id q \<in> new"
  shows "apr_good new s (snd (createRequest app q audit s))"
proof -
  let ?q = "q\<lparr>ap_app := app\<rparr>"
  let ?qs = "createInsert ?q # (case audit of None \<Rightarrow> [] | Some a \<Rightarrow> [createAudit app ?q a])"
  have "apr_good new s t" if "run_statements ?qs s = Inr (t, rs)" for t rs
    by (rule insert_batch[where pre = "[]" and q = ?q, OF _ _ _ ok])
      (use that q new in \<open>auto simp: createInsert_def createAudit_def neutrals dest: request_inserted split: option.splits\<close>)
  then have "apr_good new s (snd (d1_batch ?qs s))" by (rule batch_good[OF ok])
  then show ?thesis by (simp add: created_db apr_good_same ok)
qed

lemma concluded_good:
  assumes ok: "approvals_ok s" and q: "ap_id (ci_approval j) \<notin> ap_id ` set (approval_requests s)"
    "ap_status (ci_approval j) = ''pending''" "ap_resolvedAt (ci_approval j) = None"
    and new: "ap_id (ci_approval j) \<in> new"
  shows "apr_good new s (snd (commit scope j s))"
proof -
  let ?a = "ci_approval j" and ?c = "ci_conclusion j" and ?app = "s_app scope"
  have "apr_good new s t" if "run_statements (conclusionStatements scope j) s = Inr (t, rs)" for t rs
    by (rule insert_batch[where q = "?a\<lparr>ap_app := ?app\<rparr>" and
          pre = "[endRunningRunStatement scope j, clearConcludedExperimentStatement scope j, conclusionInsertStatement scope j]" and
          ins = "approvalInsertStatement ?app ?a
            (\<lambda>s. list_ex (\<lambda>x. cn_app x = ?app \<and> cn_id x = cn_id ?c) (experiment_conclusions s))" and
          post = "linkInsertStatement ?app (cn_id ?c) (ap_id ?a) 1 (cn_at ?c) # atomicAssertion (ap_id ?a) (cn_id ?c) 1
            # conclusionAuditStatements scope j", OF _ _ _ ok])
      (use that q new in \<open>auto simp: conclusionStatements_def conclusionAuditStatements_def approvalInsertStatement_def
        Let_def neutrals dest: request_inserted\<close>)
  then show ?thesis unfolding committed_db by (rule batch_good[OF ok])
qed

lemma marked_good:
  assumes ok: "approvals_ok s" and run: "markStaleStatement app k s = Inr (t, rows)"
  shows "apr_good new s t"
proof -
  let ?f = "\<lambda>q. q\<lparr>ap_status := ''stale'', ap_resolvedAt := case_option (Some (ri_createdAt k)) Some (ap_resolvedAt q)\<rparr>"
  let ?P = "\<lambda>q. ap_app q = app \<and> ap_id q = ri_previous k \<and> ap_status q \<in> {''pending'', ''stale''}
      \<and> replacement_relation app k (\<lambda>_. True) s"
  have reqs: "approval_requests t = set_where ?P ?f (approval_requests s)"
    and revs: "approval_reviews t = approval_reviews s" using run by (auto simp: markStaleStatement_def Let_def)
  have keeps: "approvals_ok t" by (rule staled_keeps[OF ok revs reqs]) auto
  have "request_evolves q (?f q)" if "?P q" "q \<in> set (approval_requests s)" for q
  proof (cases "ap_status q = ''pending''")
    case True
    then show ?thesis by (simp add: request_evolves_def proposal_def)
  next
    case False
    then have stale: "ap_status q = ''stale''" using that(1) by simp
    then have "ap_resolvedAt q \<noteq> None" using ok that(2) by (auto simp: approvals_ok_def settled_def)
    then have "?f q = q" using stale by (cases q) auto
    then show ?thesis by simp
  qed
  then have "\<exists>q\<in>set (approval_requests s). request_evolves q q'" if "q' \<in> set (approval_requests t)" for q'
    using that by (auto simp: reqs simp del: request_evolves_refl
        intro: evolves_member evolves_member[OF _ request_evolves_refl])
  with keeps show ?thesis by (simp add: apr_good_def revs)
qed

lemma marked_ids:
  assumes "markStaleStatement app k s = Inr (t, rows)"
  shows "ap_id ` set (approval_requests t) = ap_id ` set (approval_requests s)"
proof -
  have "map ap_id (approval_requests t) = map ap_id (approval_requests s)"
    using assms by (auto simp: markStaleStatement_def Let_def intro!: map_set_where)
  then show ?thesis by (metis list.set_map)
qed

lemma replaced_good:
  assumes ok: "approvals_ok s" and q: "ap_id (ri_approval k) \<notin> ap_id ` set (approval_requests s)"
    "ap_status (ri_approval k) = ''pending''" "ap_resolvedAt (ri_approval k) = None"
    and new: "ap_id (ri_approval k) \<in> new"
  shows "apr_good new s (snd (createReplacement app k s))"
proof -
  let ?a = "ri_approval k"
  let ?ins = "approvalInsertStatement app ?a (replacement_relation app k (\<lambda>p. ap_status p = ''stale''))"
  let ?post = "[linkInsertStatement app (ri_conclusion k) (ap_id ?a) (ri_ordinal k) (ri_createdAt k),
     atomicAssertion (ap_id ?a) (ri_conclusion k) (ri_ordinal k), replacementAuditStatement app k]"
  have "apr_good new s t" if run: "run_statements (replacementStatements app k) s = Inr (t, rs)" for t rs
  proof -
    obtain s1 r1 r2 where a: "markStaleStatement app k s = Inr (s1, r1)" and b: "run_statements (?ins # ?post) s1 = Inr (t, r2)"
      using run unfolding replacementStatements_def run_statements.simps(2)[of "markStaleStatement app k"]
      by (auto simp: ebind_eq_Inr simp del: run_statements.simps split: prod.splits)
    note ids = marked_ids[OF a]
    have good: "apr_good new s s1" by (rule marked_good[OF ok a])
    have "apr_good new s1 t"
      by (rule insert_batch[where pre = "[]" and q = "?a\<lparr>ap_app := app\<rparr>" and ins = ?ins and post = ?post])
        (use b q new ids good in \<open>auto simp: approvalInsertStatement_def Let_def apr_good_def neutrals
          simp del: run_statements.simps dest: request_inserted\<close>)
    with good show ?thesis by (rule apr_good_trans)
  qed
  then show ?thesis unfolding replaced_db by (rule batch_good[OF ok])
qed

text \<open>An archived Request leaves together with its Reviews.\<close>

lemma verdicts_delete:
  "(\<And>v. v \<in> set vs \<Longrightarrow> rv_request v = ap_id q \<Longrightarrow> \<not> P v) \<Longrightarrow> verdicts q (delete_where P vs) = verdicts q vs"
  by (induction vs) (auto simp: verdicts_def delete_where_def)

lemma archive_batch_good:
  assumes ok: "approvals_ok s"
    and run: "run_statements [deleteReviewsStatement app a status, deleteRequestStatement app a status] s = Inr (t, rs)"
  shows "apr_good new s t"
proof -
  let ?mine = "\<lambda>v. rv_app v = app \<and> rv_request v = av_request a"
  let ?PV = "\<lambda>v. ?mine v \<and> list_ex (archived_request app a status) (approval_requests s) \<and> \<not> linked app (av_request a) s
     \<and> int (length (filter ?mine (approval_reviews s))) = av_reviewCount a"
  let ?PQ = "\<lambda>q. archived_request app a status q \<and> \<not> list_ex ?mine (approval_reviews t) \<and> \<not> linked app (av_request a) s"
  obtain s1 r1 r2 where del: "deleteReviewsStatement app a status s = Inr (s1, r1)"
    and req: "deleteRequestStatement app a status s1 = Inr (t, r2)" using run by (auto simp: ebind_eq_Inr split: prod.splits)
  have s1: "approval_reviews s1 = delete_where ?PV (approval_reviews s)" "approval_requests s1 = approval_requests s"
    "linked app (av_request a) s1 = linked app (av_request a) s"
    using del by (auto simp: deleteReviewsStatement_def Let_def linked_def)
  have t1: "approval_reviews t = approval_reviews s1"
    using req by (auto simp: deleteRequestStatement_def Let_def split: if_splits)
  have t2: "approval_requests t = delete_where ?PQ (approval_requests s)"
    using req unfolding t1 by (auto simp: deleteRequestStatement_def Let_def s1 split: if_splits)
  have free: "rv_request v \<noteq> ap_id q" if "q \<in> set (approval_requests s)" "?PQ q" "v \<in> set (approval_reviews t)" for q v
    using req that unfolding t1 by (auto simp: deleteRequestStatement_def Let_def s1(2,3) list_ex_iff split: if_splits)
  have left: "\<exists>q\<in>set (approval_requests t). ap_id q = rv_request v \<and> ap_app q = rv_app v"
    if v: "v \<in> set (approval_reviews t)" for v
  proof -
    have "v \<in> set (approval_reviews s)" using v by (simp add: t1 s1(1))
    then obtain q where q: "q \<in> set (approval_requests s)" "ap_id q = rv_request v" "ap_app q = rv_app v"
      using ok by (auto simp: approvals_ok_def)
    then have "\<not> ?PQ q" using free[OF q(1) _ v] by metis
    with q show ?thesis by (auto simp: t2)
  qed
  have kept: "verdicts q (approval_reviews t) = verdicts q (approval_reviews s)" if q: "q \<in> set (approval_requests t)" for q
  proof -
    have "\<not> ?PV v" if v: "v \<in> set (approval_reviews s)" "rv_request v = ap_id q" for v
    proof
      assume P: "?PV v"
      then obtain p where p: "p \<in> set (approval_requests s)" "archived_request app a status p"
        by (auto simp: list_ex_iff)
      have "q \<in> set (approval_requests s)" using q by (simp add: t2)
      then have "p = q" using request_by_id[OF ok p(1)] p(2) P v(2) by (simp add: archived_request_def)
      moreover have "\<not> list_ex ?mine (approval_reviews t)"
        using P by (auto simp: t1 s1(1) list_ex_iff)
      ultimately have "?PQ q" using p(2) P by simp
      with q show False by (simp add: t2)
    qed
    then show ?thesis unfolding t1 s1(1) by (rule verdicts_delete)
  qed
  have sub: "set (approval_requests t) \<subseteq> set (approval_requests s)" "set (approval_reviews t) \<subseteq> set (approval_reviews s)"
    by (auto simp: t2 t1 s1(1))
  have "distinct (map ap_id (approval_requests t))" "distinct (map rv_id (approval_reviews t))"
    using ok by (auto simp: approvals_ok_def t2 t1 s1(1) intro: distinct_delete_where)
  moreover have "\<forall>q\<in>set (approval_requests t). settled q (verdicts q (approval_reviews t))"
    using kept sub(1) ok by (auto simp: approvals_ok_def)
  ultimately have "approvals_ok t" using left by (simp add: approvals_ok_def)
  then show ?thesis using sub by (auto simp: apr_good_def intro!: evolves_member[OF _ request_evolves_refl])
qed

lemma archived_good:
  assumes "approvals_ok s" shows "apr_good new s (snd (finalizeApprovalArchive app a status s))"
  using batch_good[OF assms archive_batch_good[OF assms]] apr_good_same[OF assms refl] by (simp add: archived_db del: run_statements.simps)

section \<open>Steps\<close>

definition apr_world :: "control_world \<Rightarrow> bool" where
  "apr_world w \<longleftrightarrow> approvals_ok (cw_db w) \<and> ap_id ` set (approval_requests (cw_db w)) \<subseteq> set (cw_ids w)
     \<and> rv_id ` set (approval_reviews (cw_db w)) \<subseteq> set (cw_ids w)"

definition apr_step :: "control_world \<Rightarrow> control_world \<Rightarrow> bool" where
  "apr_step w w' \<longleftrightarrow> set (cw_ids w) \<subseteq> set (cw_ids w')
     \<and> apr_good (set (cw_ids w') - set (cw_ids w)) (cw_db w) (cw_db w')"

lemma apr_step_world:
  assumes "apr_step w w'" "apr_world w" shows "apr_world w'"
proof -
  have ids: "set (cw_ids w) \<subseteq> set (cw_ids w')"
    and good: "apr_good (set (cw_ids w') - set (cw_ids w)) (cw_db w) (cw_db w')"
    using assms(1) by (simp_all add: apr_step_def)
  have old: "ap_id ` set (approval_requests (cw_db w)) \<subseteq> set (cw_ids w)"
    "rv_id ` set (approval_reviews (cw_db w)) \<subseteq> set (cw_ids w)" using assms(2) by (simp_all add: apr_world_def)
  have "ap_id q' \<in> set (cw_ids w')" if "q' \<in> set (approval_requests (cw_db w'))" for q'
  proof -
    from good that consider "ap_id q' \<in> set (cw_ids w')"
      | q where "q \<in> set (approval_requests (cw_db w))" "request_evolves q q'" by (auto simp: apr_good_def)
    then show ?thesis using old(1) ids by cases (auto simp: request_evolves_id image_subset_iff)
  qed
  moreover have "rv_id ` set (approval_reviews (cw_db w')) \<subseteq> set (cw_ids w) \<union> (set (cw_ids w') - set (cw_ids w))"
    using good old(2) unfolding apr_good_def by (meson Un_mono order_refl subset_trans)
  moreover have "approvals_ok (cw_db w')" using good by (simp add: apr_good_def)
  ultimately show ?thesis using ids by (auto simp: apr_world_def)
qed

text \<open>A step that mints ids is good when its database is; one that mints none has nothing new.\<close>

lemma minting_step:
  assumes "apr_good (set new - set (cw_ids w)) (cw_db w) s'"
  shows "apr_step w (w\<lparr>cw_db := s', cw_ids := new @ cw_ids w\<rparr>)"
  using assms by (simp add: apr_step_def Un_Diff)

lemma minting_one:
  assumes "x \<notin> set (cw_ids w)" "x \<in> {x} \<Longrightarrow> apr_good {x} (cw_db w) s'"
  shows "apr_step w (w\<lparr>cw_db := s', cw_ids := x # cw_ids w\<rparr>)"
proof -
  have "set [x] - set (cw_ids w) = {x}" using assms(1) by auto
  then show ?thesis using minting_step[of "[x]" w s'] assms(2) by simp
qed

lemma plain_step:
  "apr_good {} (cw_db w) s' \<Longrightarrow> apr_step w (w\<lparr>cw_db := s'\<rparr>)"
  by (simp add: apr_step_def)

lemma direct_batches_neutral:
  "q \<in> set (directConfigUpdate scope flag p # (case audit of None \<Rightarrow> [] | Some a \<Rightarrow> [configAudit scope flag a])) \<Longrightarrow> neutral q"
  "q \<in> set (directRulesBatch scope flag rows p @ (case audit of None \<Rightarrow> [] | Some a \<Rightarrow> [configAudit scope flag a])) \<Longrightarrow> neutral q"
  "q \<in> set (variant_update_batch app g v vp opts None) \<Longrightarrow> neutral q"
  by (auto simp: directRulesBatch_def variant_update_batch_def Let_def neutrals split: option.splits)

lemma control_apr:
  assumes "control_step w w'" "apr_world w" shows "apr_step w w'"
proof -
  have ok: "approvals_ok (cw_db w)" and "ap_id ` set (approval_requests (cw_db w)) \<subseteq> set (cw_ids w)"
    and "rv_id ` set (approval_reviews (cw_db w)) \<subseteq> set (cw_ids w)" using assms(2) by (simp_all add: apr_world_def)
  then have fresh: "x \<notin> set (cw_ids w) \<Longrightarrow> x \<notin> ap_id ` set (approval_requests (cw_db w))"
    "x \<notin> set (cw_ids w) \<Longrightarrow> x \<notin> rv_id ` set (approval_reviews (cw_db w))" for x by blast+
  from assms(1) show ?thesis
  proof cases
    case (create q app audit)
    then show ?thesis by (auto intro!: minting_one created_good[OF ok] fresh)
  next
    case (dispose d app)
    then show ?thesis by (auto intro!: minting_one disposed_good[OF ok] fresh)
  next
    case (apply_only c app)
    then show ?thesis by (auto intro!: minting_one record_applied_good[OF ok] fresh)
  next
    case (fail f app)
    then show ?thesis by (auto intro!: minting_one failed_good[OF ok] fresh)
  next
    case (config c scope flag n p)
    show ?thesis unfolding config(1)
      by (rule minting_one[OF config(2)], rule applied_batch_good[OF ok fresh(2)[OF config(2)]], assumption)
        (erule config_batch_reviewed[OF _ fresh(2)[OF config(2)]])
  next
    case (rules c scope flag n rows p)
    show ?thesis unfolding rules(1)
      by (rule minting_one[OF rules(2)], rule applied_batch_good[OF ok fresh(2)[OF rules(2)]], assumption)
        (erule rules_batch_reviewed[OF _ fresh(2)[OF rules(2)]])
  next
    case (variant c app g v vp opts)
    show ?thesis unfolding variant(1)
      by (rule minting_one[OF variant(2)], rule applied_batch_good[OF ok fresh(2)[OF variant(2)]], assumption)
        (erule variant_batch_reviewed[OF _ fresh(2)[OF variant(2)]])
  next
    case (variant_add c app g v opts)
    show ?thesis unfolding variant_add(1)
      by (rule minting_one[OF variant_add(2)], rule applied_batch_good[OF ok fresh(2)[OF variant_add(2)]], assumption)
        (erule catalog_batch_reviewed[OF _ neutral_named(3) fresh(2)[OF variant_add(2)]])
  next
    case (variant_remove c app g v opts)
    show ?thesis unfolding variant_remove(1) approvedVariantDeleteBatch_def
      by (rule minting_one[OF variant_remove(2)], rule applied_batch_good[OF ok fresh(2)[OF variant_remove(2)]], assumption)
        (erule catalog_batch_reviewed[OF _ neutral_variant(3) fresh(2)[OF variant_remove(2)]])
  next
    case (start i scope)
    show ?thesis unfolding start(1)
    proof (rule minting_step, unfold run_start_db, rule batch_good[OF ok])
      fix t rs assume run: "run_statements (start_statements scope i) (cw_db w) = Inr (t, rs)"
      let ?new = "set (case si_approval i of None \<Rightarrow> [] | Some c \<Rightarrow> [ac_reviewId c]) - set (cw_ids w)"
      from start_batch_reviewed[OF run] start(2) fresh(2)
      consider "apr t = apr (cw_db w)"
        | c where "si_approval i = Some c" "reviewed (applied_review (s_app scope) c) (applied_row c) (cw_db w) t"
        by blast
      then show "apr_good ?new (cw_db w) t"
      proof cases
        case 1
        then show ?thesis by (rule apr_good_same[OF ok])
      next
        case 2
        then show ?thesis
          by (intro applied_good[OF ok, of _ "s_app scope" c]) (use start(2) fresh(2) in auto)
      qed
    qed
  next
    case (conclude j scope)
    then show ?thesis by (auto intro!: minting_one concluded_good[OF ok] fresh)
  next
    case (replace k app)
    then show ?thesis by (auto intro!: minting_one replaced_good[OF ok] fresh)
  next
    case (archive app a status)
    then show ?thesis by (auto intro!: plain_step archived_good[OF ok])
  next
    case (config_direct scope flag p au)
    show ?thesis unfolding config_direct(1) update_direct_db
      by (rule plain_step, rule quiet_batch_good[OF ok]) (rule direct_batches_neutral(1))
  next
    case (rules_direct scope flag rows p au)
    show ?thesis unfolding rules_direct(1) replace_direct_db
      by (rule plain_step, rule quiet_batch_good[OF ok]) (rule direct_batches_neutral(2))
  next
    case (variant_direct app g v vp opts)
    show ?thesis unfolding variant_direct(1)
      by (rule plain_step, rule quiet_batch_good[OF ok]) (rule direct_batches_neutral(3))
  next
    case (initial x scope)
    show ?thesis unfolding initial(1)
      by (rule minting_one[OF initial(2)])
        (auto simp: ensure_initial_db neutrals simp del: run_statements.simps intro!: apr_good_same[OF ok] quiet_batch_good[OF ok])
  next
    case (tear_rules scope flag)
    have "apr_good {} (cw_db w) (removeTargetingRules scope flag (cw_db w))"
      by (rule apr_good_same[OF ok]) (simp add: removeTargetingRules_def apr_def)
    then show ?thesis by (simp add: tear_rules(1) apr_step_def)
  next
    case (tear_config scope flag)
    then show ?thesis by (auto intro!: plain_step apr_good_same[OF ok] simp: removeFlagConfig_def apr_def)
  next
    case (others s')
    then show ?thesis by (auto intro!: plain_step apr_good_same[OF ok])
  qed
qed

end
