(* ===== verification/ConfigSignals.thy ===== *)
theory ConfigSignals
  imports ControlHistory
begin

text \<open>
  The version of a Flag Configuration as a signal: whoever has seen a version has seen the
  Configuration and, unless its Environment is being torn down, its Targeting Rules.
\<close>

section \<open>Statements that only bump\<close>

definition config_evolves :: "config_row \<Rightarrow> config_row \<Rightarrow> bool" where
  "config_evolves c c' \<longleftrightarrow> fc_id c' = fc_id c \<and> fc_app c' = fc_app c \<and> fc_env c' = fc_env c \<and> fc_flag c' = fc_flag c
     \<and> (c' = c \<or> fc_version c < fc_version c')"

lemma config_evolves_refl [simp]: "config_evolves c c"
  by (simp add: config_evolves_def)

lemma config_evolves_trans: "config_evolves c c' \<Longrightarrow> config_evolves c' c'' \<Longrightarrow> config_evolves c c''"
  by (auto simp: config_evolves_def)

definition bumped :: "db \<Rightarrow> db \<Rightarrow> bool" where
  "bumped s t \<longleftrightarrow> targeting_rules t = targeting_rules s \<and> list_all2 config_evolves (flag_configs s) (flag_configs t)"

lemma bumped_same: "config_tables t = config_tables s \<Longrightarrow> bumped s t"
  by (simp add: bumped_def config_tables_def list_all2_refl)

lemma bumped_trans: "bumped s t \<Longrightarrow> bumped t u \<Longrightarrow> bumped s u"
  unfolding bumped_def by (auto intro: list_all2_trans[of config_evolves, OF config_evolves_trans])

definition silent :: "stmt \<Rightarrow> bool" where
  "silent q \<longleftrightarrow> (\<forall>s t rows. q s = Inr (t, rows) \<longrightarrow> config_tables t = config_tables s)"

definition bumping :: "stmt \<Rightarrow> bool" where
  "bumping q \<longleftrightarrow> (\<forall>s t rows. q s = Inr (t, rows) \<longrightarrow> bumped s t)"

named_theorems silents \<open>statements that leave Configurations and Targeting Rules alone\<close>
named_theorems bumpings \<open>statements that change a Configuration only along with its version\<close>

lemma silentD: "silent q \<Longrightarrow> q s = Inr (t, rows) \<Longrightarrow> config_tables t = config_tables s"
  unfolding silent_def by blast

lemma bumpingD: "bumping q \<Longrightarrow> q s = Inr (t, rows) \<Longrightarrow> bumped s t"
  unfolding bumping_def by blast

lemma silent_bumping [bumpings]: "silent q \<Longrightarrow> bumping q"
  unfolding silent_def bumping_def by (blast intro: bumped_same)

lemma silent_run:
  assumes "run_statements qs s = Inr (t, rs)" "\<And>q. q \<in> set qs \<Longrightarrow> silent q"
  shows "config_tables t = config_tables s"
  by (rule run_statements_keeps[OF assms(1), of "\<lambda>t. config_tables t = config_tables s"]) (auto dest: silentD[OF assms(2)])

lemma bumping_run:
  assumes "run_statements qs s = Inr (t, rs)" "\<And>q. q \<in> set qs \<Longrightarrow> bumping q"
  shows "bumped s t"
  by (rule run_statements_keeps[OF assms(1), of "bumped s"]) (auto intro: bumped_same bumped_trans dest: bumpingD[OF assms(2)])

lemma silent_assert [silents]: "silent (assert_stmt g)"
  by (auto simp: silent_def assert_stmt_def split: if_splits)

lemma silent_audits [silents]: "silent (auditStatement app a)" "silent (approvalReviewAudit app v o')"
  "silent (configAudit scope flag a')" "silent (createAudit app q au)" "silent (replacementAuditStatement app k)"
  by (auto simp: silent_def createAudit_def replacementAuditStatement_def auditStatement_def approvalReviewAudit_def
      configAudit_def Let_def config_tables_def)

lemma silent_approvals [silents]: "silent (reviewInsert ev v)" "silent (appliedReviewInsert app c ev)"
  "silent (resolve_request f P)" "silent (appliedRequestUpdate app c)" "silent (failureInsert app fa)"
  "silent (createInsert q)" "silent (approvalInsertStatement app q g)" "silent (markStaleStatement app k)"
  "silent (deleteReviewsStatement app a status)" "silent (deleteRequestStatement app a status)"
  "silent (requestAppliedStatement scope c)" "silent (reviewInsertStatement scope c run)"
  by (auto simp: silent_def start_review_agrees appliedReviewInsert_def failureInsert_def reviewInsert_def resolve_request_def
      appliedRequestUpdate_def createInsert_def approvalInsertStatement_def markStaleStatement_def insert_if_def
      deleteReviewsStatement_def deleteRequestStatement_def requestAppliedStatement_def Let_def config_tables_def
      split: if_splits option.splits)

lemma silent_variants [silents]: "silent (insertVariant g v)" "silent (guardedVariantInsert app v c)"
  "silent (bumpFlag app fg t u g)" "silent (deleteVariant app x g)" "silent (updateVariants p x g)"
  by (auto simp: silent_def guardedVariantInsert_def insertVariant_def bumpFlag_def deleteVariant_def updateVariants_def
      insert_if_def Let_def config_tables_def split: if_splits option.splits)

lemma silent_runs [silents]: "silent (endCurrentRunStatement scope i)" "silent (insertRunStatement scope i)"
  "silent (updateExperimentStartedStatement scope i)" "silent (startAuditStatement scope i)"
  "silent (endRunningRunStatement scope' j)" "silent (clearConcludedExperimentStatement scope' j)"
  "silent (conclusionInsertStatement scope' j)" "silent (linkInsertStatement app x y n t)" "silent (atomicAssertion x y n)"
  by (auto simp: silent_def endCurrentRunStatement_def insertRunStatement_def updateExperimentStartedStatement_def
      startAuditStatement_def auditStatement_def endRunningRunStatement_def clearConcludedExperimentStatement_def
      conclusionInsertStatement_def linkInsertStatement_def atomicAssertion_def assert_stmt_def insert_if_def Let_def
      config_tables_def split: if_splits option.splits)

lemma silent_probes [silents]: "q \<in> set (referencedVariantMustExist scope flag rows) \<Longrightarrow> silent q"
  by (auto simp: referencedVariantMustExist_def silents)

text \<open>\<open>UPDATE flag_configs\<close>: all that matters is that each row it hits gets a greater version.\<close>

lemma bumping_update:
  assumes "\<And>s c. P s c \<Longrightarrow> config_evolves c (f c)" shows "bumping (updateConfigs f P)"
  using assms by (auto simp: bumping_def updateConfigs_def bumped_def set_where_def list_all2_map2 intro!: list_all2_refl)

lemma bumping_configs [bumpings]: "bumping (approvedConfigUpdate scope flag n p c)"
  "bumping (directConfigUpdate scope flag p)" "bumping (renameAvailableVariant app fg x y t g)"
  by (auto simp: approvedConfigUpdate_def directConfigUpdate_def renameAvailableVariant_def patch_config_def
      config_evolves_def intro!: bumping_update)

section \<open>What a step does to Configurations\<close>

definition place :: "config_row \<Rightarrow> env_scope \<times> string" where
  "place c = (\<lparr>s_app = fc_app c, s_env = fc_env c\<rparr>, fc_flag c)"

definition rules_of :: "config_row \<Rightarrow> db \<Rightarrow> rule_row list" where
  "rules_of c s = listTargetingRules (fst (place c)) (snd (place c)) s"

definition signals :: "(env_scope \<times> string) list \<Rightarrow> db \<Rightarrow> db \<Rightarrow> config_row \<Rightarrow> config_row \<Rightarrow> bool" where
  "signals torn s t c c' \<longleftrightarrow> config_evolves c c' \<and> (c' = c \<longrightarrow> place c \<in> set torn \<or> rules_of c t = rules_of c s)"

definition configs_ok :: "db \<Rightarrow> bool" where
  "configs_ok s \<longleftrightarrow> distinct (map fc_id (flag_configs s)) \<and> distinct (map (\<lambda>c. (fc_env c, fc_flag c)) (flag_configs s))"

definition cfg_good :: "string set \<Rightarrow> (env_scope \<times> string) list \<Rightarrow> db \<Rightarrow> db \<Rightarrow> bool" where
  "cfg_good new torn s t \<longleftrightarrow> configs_ok t
     \<and> (\<forall>c'\<in>set (flag_configs t). fc_id c' \<in> new \<or> (\<exists>c\<in>set (flag_configs s). signals torn s t c c'))"

text \<open>Rows are rewritten in place: keys stay.\<close>

lemma evolves_configs_ok:
  assumes "configs_ok s" "list_all2 config_evolves (flag_configs s) (flag_configs t)" shows "configs_ok t"
proof -
  have "map fc_id (flag_configs t) = map fc_id (flag_configs s)"
    "map (\<lambda>c. (fc_env c, fc_flag c)) (flag_configs t) = map (\<lambda>c. (fc_env c, fc_flag c)) (flag_configs s)"
    using assms(2) by (induction rule: list_all2_induct) (auto simp: config_evolves_def)
  with assms(1) show ?thesis by (simp add: configs_ok_def)
qed

lemma list_all2_member: "list_all2 R xs ys \<Longrightarrow> y \<in> set ys \<Longrightarrow> \<exists>x\<in>set xs. R x y"
  by (induction rule: list_all2_induct) auto

lemma rewritten_good:
  assumes "configs_ok s" "list_all2 (signals torn s t) (flag_configs s) (flag_configs t)"
  shows "cfg_good new torn s t"
proof -
  have "list_all2 config_evolves (flag_configs s) (flag_configs t)"
    using assms(2) by (rule list_all2_mono) (simp add: signals_def)
  then have "configs_ok t" by (rule evolves_configs_ok[OF assms(1)])
  moreover have "\<exists>c\<in>set (flag_configs s). signals torn s t c c'" if "c' \<in> set (flag_configs t)" for c'
    using list_all2_member[OF assms(2) that] .
  ultimately show ?thesis by (simp add: cfg_good_def)
qed

lemma bumped_good:
  assumes "configs_ok s" "bumped s t" shows "cfg_good new torn s t"
  using assms(2)
  by (intro rewritten_good[OF assms(1)]) (auto simp: bumped_def signals_def rules_of_def listTargetingRules_def elim: list_all2_mono)

lemma same_good: "configs_ok s \<Longrightarrow> config_tables t = config_tables s \<Longrightarrow> cfg_good new torn s t"
  by (erule bumped_good) (rule bumped_same)

lemma batch_cfg:
  assumes "configs_ok s" "\<And>t rs. run_statements qs s = Inr (t, rs) \<Longrightarrow> cfg_good new torn s t"
  shows "cfg_good new torn s (snd (d1_batch qs s))"
  using assms(2) same_good[OF assms(1) refl] by (auto simp: d1_batch_def split: sum.splits)

lemma bumping_batch:
  assumes "configs_ok s" "\<And>q. q \<in> set qs \<Longrightarrow> bumping q" shows "cfg_good new torn s (snd (d1_batch qs s))"
  by (rule batch_cfg[OF assms(1)], rule bumped_good[OF assms(1)]) (erule bumping_run, rule assms(2))

section \<open>Replacing Targeting Rules\<close>

definition elsewhere :: "env_scope \<Rightarrow> string \<Rightarrow> db \<Rightarrow> rule_row list" where
  "elsewhere scope flag s = filter (\<lambda>r. \<not> scopedTargetingRule scope flag r) (targeting_rules s)"

definition here_only :: "env_scope \<Rightarrow> string \<Rightarrow> db \<Rightarrow> db \<Rightarrow> bool" where
  "here_only scope flag s t \<longleftrightarrow> flag_configs t = flag_configs s \<and> elsewhere scope flag t = elsewhere scope flag s"

definition rewriting :: "env_scope \<Rightarrow> string \<Rightarrow> stmt \<Rightarrow> bool" where
  "rewriting scope flag q \<longleftrightarrow> (\<forall>s t rows. q s = Inr (t, rows) \<longrightarrow> here_only scope flag s t)"

lemma rewritingD: "rewriting scope flag q \<Longrightarrow> q s = Inr (t, rows) \<Longrightarrow> here_only scope flag s t"
  unfolding rewriting_def by blast

lemma here_only_same: "config_tables t = config_tables s \<Longrightarrow> here_only scope flag s t"
  by (simp add: here_only_def elsewhere_def config_tables_def)

lemma here_only_trans: "here_only scope flag s t \<Longrightarrow> here_only scope flag t u \<Longrightarrow> here_only scope flag s u"
  by (simp add: here_only_def)

lemma rewriting_run:
  assumes "run_statements qs s = Inr (t, rs)" "\<And>q. q \<in> set qs \<Longrightarrow> rewriting scope flag q"
  shows "here_only scope flag s t"
  by (rule run_statements_keeps[OF assms(1), of "here_only scope flag s"])
    (auto intro: here_only_same here_only_trans dest: rewritingD[OF assms(2)])

lemma rewriting_delete: "rewriting scope flag (deleteRules scope flag g)"
  by (auto simp: rewriting_def deleteRules_def Let_def here_only_def elsewhere_def delete_where_def intro: filter_cong)

lemma rewriting_insert: "rewriting scope flag (insertRule g (rule_to_insert scope flag r))"
  by (auto simp: rewriting_def insertRule_def insert_if_def here_only_def elsewhere_def rule_to_insert_def
      scopedTargetingRule_def split: if_splits option.splits)

lemma silent_rewriting: "silent q \<Longrightarrow> rewriting scope flag q"
  unfolding silent_def rewriting_def by (blast intro: here_only_same)

text \<open>Rules of one place may change when the Configuration at that place gets a greater version.\<close>

lemma bumped_here_good:
  assumes "configs_ok s" "elsewhere scope flag t = elsewhere scope flag s"
    "list_all2 (\<lambda>c c'. config_evolves c c' \<and> (scopedFlagConfig scope flag c \<longrightarrow> fc_version c < fc_version c'))
       (flag_configs s) (flag_configs t)"
  shows "cfg_good new torn s t"
proof -
  have "rules_of c t = rules_of c s" if c: "\<not> scopedFlagConfig scope flag c" for c
  proof -
    let ?Q = "scopedTargetingRule (fst (place c)) (snd (place c))"
    have "?Q r \<longleftrightarrow> \<not> scopedTargetingRule scope flag r \<and> ?Q r" for r
      using c by (auto simp: scopedTargetingRule_def scopedFlagConfig_def place_def)
    then have "filter ?Q (targeting_rules u) = filter ?Q (elsewhere scope flag u)" for u
      unfolding elsewhere_def filter_filter by (metis (no_types, lifting) filter_cong)
    then show ?thesis using assms(2) by (simp add: rules_of_def listTargetingRules_def)
  qed
  then have "list_all2 (signals torn s t) (flag_configs s) (flag_configs t)"
    using assms(3) by (elim list_all2_mono) (auto simp: signals_def)
  then show ?thesis by (rule rewritten_good[OF assms(1)])
qed

lemma direct_rules_good:
  assumes ok: "configs_ok s" and run: "run_statements (directRulesBatch scope flag rows p @ post) s = Inr (t, rs)"
    and post: "\<And>q. q \<in> set post \<Longrightarrow> silent q"
  shows "cfg_good new torn s t"
proof -
  let ?pre = "referencedVariantMustExist scope flag rows @ [deleteRules scope flag (\<lambda>_. True)]
    @ map (\<lambda>r. insertRule (\<lambda>_. True) (rule_to_insert scope flag r)) rows"
  have split: "directRulesBatch scope flag rows p @ post = ?pre @ directConfigUpdate scope flag p # post"
    by (simp add: directRulesBatch_def)
  obtain s1 s2 r1 r2 r3 where a: "run_statements ?pre s = Inr (s1, r1)" and b: "directConfigUpdate scope flag p s1 = Inr (s2, r2)"
    and c: "run_statements post s2 = Inr (t, r3)"
    using run unfolding split run_statements_append[of ?pre] by (auto simp: ebind_eq_Inr split: prod.splits)
  have 1: "here_only scope flag s s1"
    by (rule rewriting_run[OF a]) (auto simp: rewriting_delete rewriting_insert silents intro: silent_rewriting)
  have 2: "config_tables t = config_tables s2" by (rule silent_run[OF c post])
  have 3: "targeting_rules s2 = targeting_rules s1" "flag_configs s2 = set_where (scopedFlagConfig scope flag)
      (\<lambda>x. patch_config p (fc_version x + 1) x) (flag_configs s1)"
    using b by (auto simp: directConfigUpdate_def updateConfigs_def)
  show ?thesis
    by (rule bumped_here_good[OF ok])
      (use 1 2 3 in \<open>auto simp: here_only_def config_tables_def elsewhere_def set_where_def list_all2_map2
        config_evolves_def patch_config_def scopedFlagConfig_def intro!: list_all2_refl\<close>)
qed

lemma unrecorded_run:
  assumes run: "run_statements (deleteRules scope flag (reviewRecorded app c) # map (\<lambda>r. insertRule
        (\<lambda>s. getFlagConfig scope flag s \<noteq> None \<and> reviewRecorded app c s) (h r)) rows) s = Inr (t, rs)"
    and "\<not> reviewRecorded app c s"
  shows "config_tables t = config_tables s"
proof -
  let ?I = "\<lambda>u. config_tables u = config_tables s \<and> approval_reviews u = approval_reviews s"
  have "?I t"
  proof (rule run_statements_keeps[OF run, of ?I])
    fix q u u' rs'
    assume q: "q \<in> set (deleteRules scope flag (reviewRecorded app c) # map (\<lambda>r. insertRule
        (\<lambda>s. getFlagConfig scope flag s \<noteq> None \<and> reviewRecorded app c s) (h r)) rows)"
      and u: "?I u" "q u = Inr (u', rs')"
    then have "\<not> reviewRecorded app c u" using assms(2) by (simp add: reviewRecorded_def)
    with q u show "?I u'"
      by (auto simp: deleteRules_def insertRule_def insert_if_def Let_def config_tables_def delete_where_def)
  qed simp
  then show ?thesis by simp
qed

lemma update_hits_place:
  assumes ok: "configs_ok s" and upd: "approvedConfigUpdate scope flag n p c s = Inr (t, rows)" and "changes t = 1"
  shows "list_all2 (\<lambda>c c'. config_evolves c c' \<and> (scopedFlagConfig scope flag c \<longrightarrow> fc_version c < fc_version c'))
    (flag_configs s) (flag_configs t)"
proof -
  let ?P = "\<lambda>x. scopedFlagConfig scope flag x \<and> fc_version x = n \<and> approvalPendingCondition (s_app scope) c s"
  have t: "flag_configs t = set_where ?P (patch_config p (n + 1)) (flag_configs s)" and "length (filter ?P (flag_configs s)) = 1"
    using upd assms(3) by (auto simp: approvedConfigUpdate_def updateConfigs_def)
  then have "filter ?P (flag_configs s) \<noteq> []" by (metis length_0_conv zero_neq_one)
  then obtain x where x: "x \<in> set (flag_configs s)" "?P x" by (auto simp: filter_empty_conv)
  have "?P y" if y: "y \<in> set (flag_configs s)" "scopedFlagConfig scope flag y" for y
  proof -
    have "(fc_env y, fc_flag y) = (fc_env x, fc_flag x)" using x(2) y(2) by (simp add: scopedFlagConfig_def)
    then have "y = x" using ok x(1) y(1) unfolding configs_ok_def distinct_map by (metis (mono_tags, lifting) inj_onD)
    with x(2) show ?thesis by simp
  qed
  then show ?thesis
    by (auto simp: t set_where_def list_all2_map2 config_evolves_def patch_config_def intro!: list.rel_refl_strong)
qed

lemma approved_rules_good:
  assumes ok: "configs_ok s" and run: "run_statements (approvedRulesBatch scope flag n rows p c) s = Inr (t, rs)"
    and fresh: "ac_reviewId c \<notin> rv_id ` set (approval_reviews s)"
  shows "cfg_good new torn s t"
proof -
  let ?app = "s_app scope"
  let ?mid = "deleteRules scope flag (reviewRecorded ?app c) # map (\<lambda>r. insertRule
      (\<lambda>s. getFlagConfig scope flag s \<noteq> None \<and> reviewRecorded ?app c s) (rule_to_insert scope flag r)) rows"
  let ?post = "[appliedRequestUpdate ?app c, approvalReviewAudit ?app (audited_commit c) ''applied'']"
  have split: "approvedRulesBatch scope flag n rows p c = referencedVariantMustExist scope flag rows @
      approvedConfigUpdate scope flag n p c # appliedReviewInsert ?app c changed_one # ?mid @ ?post"
    by (simp add: approvedRulesBatch_def)
  obtain s1 s2 s3 s4 r1 r2 r3 r4 r5 where a: "run_statements (referencedVariantMustExist scope flag rows) s = Inr (s1, r1)"
    and b: "approvedConfigUpdate scope flag n p c s1 = Inr (s2, r2)" and rev: "appliedReviewInsert ?app c changed_one s2 = Inr (s3, r3)"
    and d: "run_statements ?mid s3 = Inr (s4, r4)" and e: "run_statements ?post s4 = Inr (t, r5)"
    using run unfolding split by (auto simp: run_statements_append ebind_eq_Inr simp del: append_Cons split: prod.splits)
  have 1: "config_tables s1 = config_tables s" "apr s1 = apr s"
    by (rule silent_run[OF a silent_probes], assumption) (rule neutral_run_statements[OF a neutral_probes])
  have 2: "apr s2 = apr s1" "bumped s1 s2" by (rule neutralD[OF neutral_named(1) b], rule bumpingD[OF bumping_configs(1) b])
  have 3: "config_tables s3 = config_tables s2" by (rule silentD[OF silent_approvals(2) rev])
  have 5: "config_tables t = config_tables s4" by (rule silent_run[OF e]) (auto simp: silents)
  from review_insert_shape[OF rev[unfolded appliedReviewInsert_def]] show ?thesis
  proof (elim conjE disjE)
    assume "approval_reviews s3 = approval_reviews s2"
    then have "\<not> reviewRecorded ?app c s3"
      using fresh 1(2) 2(1) by (auto simp: reviewRecorded_def apr_eq list_ex_iff rev_image_eqI)
    then have "config_tables s4 = config_tables s3" by (rule unrecorded_run[OF d])
    with 1 2 3 5 have "bumped s t" by (simp add: bumped_def config_tables_def)
    then show ?thesis by (rule bumped_good[OF ok])
  next
    assume "changed_one s2"
    then have "changes s2 = 1" by (simp add: changed_one_def)
    moreover have "configs_ok s1" using ok 1(1) by (simp add: configs_ok_def config_tables_def)
    moreover have "here_only scope flag s3 s4"
      by (rule rewriting_run[OF d]) (auto simp: rewriting_delete rewriting_insert)
    ultimately show ?thesis
      using update_hits_place[OF _ b] 1(1) 2(2) 3 5
      by (intro bumped_here_good[OF ok, of scope flag]) (simp_all add: here_only_def elsewhere_def config_tables_def bumped_def)
  qed
qed

end
