(* ===== verification/ControlProps.thy ===== *)
theory ControlProps
  imports ConfigSignals RunProps
begin

text \<open>
  The properties of Approval Requests and of Configuration versions over every history of the
  machine of \<open>ApprovalMachine\<close>, the atomicity of the approved writes, and sample states.
\<close>

section \<open>Steps and Configurations\<close>

definition control_ok :: "control_world \<Rightarrow> bool" where
  "control_ok w \<longleftrightarrow> apr_world w \<and> configs_ok (cw_db w) \<and> fc_id ` set (flag_configs (cw_db w)) \<subseteq> set (cw_ids w)"

definition cfg_step :: "control_world \<Rightarrow> control_world \<Rightarrow> bool" where
  "cfg_step w w' \<longleftrightarrow> set (cw_ids w) \<subseteq> set (cw_ids w') \<and> set (cw_torn w) \<subseteq> set (cw_torn w')
     \<and> cfg_good (set (cw_ids w') - set (cw_ids w)) (cw_torn w') (cw_db w) (cw_db w')"

lemma cfg_minting:
  assumes "cfg_good (set new - set (cw_ids w)) (cw_torn w) (cw_db w) s'"
  shows "cfg_step w (w\<lparr>cw_db := s', cw_ids := new @ cw_ids w\<rparr>)"
  using assms by (simp add: cfg_step_def Un_Diff)

lemma cfg_minting_one:
  assumes "\<And>new. cfg_good new (cw_torn w) (cw_db w) s'"
  shows "cfg_step w (w\<lparr>cw_db := s', cw_ids := x # cw_ids w\<rparr>)"
  using cfg_minting[of "[x]" w s'] assms by simp

lemma cfg_plain:
  assumes "\<And>new. cfg_good new (cw_torn w) (cw_db w) s'" shows "cfg_step w (w\<lparr>cw_db := s'\<rparr>)"
  using assms by (simp add: cfg_step_def)

lemma bumping_catalog: "silent m \<Longrightarrow> q \<in> set (catalogApprovalBatch app g m c opts) \<Longrightarrow> bumping q"
  by (auto simp: catalogApprovalBatch_def silents intro: silent_bumping)

lemma bumping_variant: "q \<in> set (variant_update_batch app g v vp opts approval) \<Longrightarrow> bumping q"
  by (auto simp: variant_update_batch_def Let_def bumpings silents split: option.splits)

lemma bumping_lists:
  "q \<in> set (createInsert r # (case audit of None \<Rightarrow> [] | Some a \<Rightarrow> [createAudit app r a])) \<Longrightarrow> bumping q"
  "q \<in> set (dispositionQueries app d @ [approvalReviewAudit app v o']) \<Longrightarrow> bumping q"
  "q \<in> set (appliedReviewQueries app c ev) \<Longrightarrow> bumping q"
  "q \<in> set [failureInsert app f, approvalReviewAudit app v o'] \<Longrightarrow> bumping q"
  "q \<in> set (approvedConfigBatch scope flag n p c) \<Longrightarrow> bumping q"
  "q \<in> set (directConfigUpdate scope flag p # (case au of None \<Rightarrow> [] | Some a \<Rightarrow> [configAudit scope flag a])) \<Longrightarrow> bumping q"
  "q \<in> set (start_statements scope i) \<Longrightarrow> bumping q"
  "q \<in> set (conclusionStatements scope j) \<Longrightarrow> bumping q"
  "q \<in> set (replacementStatements app k) \<Longrightarrow> bumping q"
  "q \<in> set [deleteReviewsStatement app a status, deleteRequestStatement app a status] \<Longrightarrow> bumping q"
  by (auto simp: dispositionQueries_def appliedReviewQueries_def approvedConfigBatch_def start_statements_def
      approvalAppliedStatements_def conclusionStatements_def conclusionAuditStatements_def replacementStatements_def
      Let_def bumpings silents split: option.splits)

lemma initial_good:
  assumes "configs_ok s" "fc_id x \<in> new"
  shows "cfg_good new torn s (snd (ensureInitialFlagConfig scope x s))"
proof -
  let ?x = "x\<lparr>fc_app := s_app scope, fc_env := s_env scope\<rparr>"
  have "cfg_good new torn s t" if "insertConfig ?x s = Inr (t, rows)" for t rows
  proof -
    have t: "flag_configs t = flag_configs s @ [?x]" "targeting_rules t = targeting_rules s" "config_insertable s ?x = None"
      using that by (auto simp: insertConfig_def insert_if_def split: option.splits)
    then have "configs_ok t"
      using assms(1) by (auto simp: configs_ok_def config_insertable_def list_ex_iff split: if_splits)
    moreover have "signals torn s t c c" for c by (simp add: signals_def rules_of_def listTargetingRules_def t(2))
    ultimately show ?thesis using assms(2) by (auto simp: cfg_good_def t(1))
  qed
  then show ?thesis
    using same_good[OF assms(1) refl] by (auto simp: ensure_initial_db d1_batch_def ebind_def split: sum.splits prod.splits)
qed

lemma torn_rules_good:
  assumes "configs_ok s" shows "cfg_good new ((scope, flag) # torn) s (removeTargetingRules scope flag s)"
proof (rule rewritten_good[OF assms])
  let ?t = "removeTargetingRules scope flag s"
  have "rules_of c ?t = rules_of c s" if "place c \<noteq> (scope, flag)" for c
  proof -
    have "\<not> (scopedTargetingRule scope flag r \<and> scopedTargetingRule (fst (place c)) (snd (place c)) r)" for r
      using that by (cases scope) (auto simp: scopedTargetingRule_def place_def)
    then show ?thesis
      by (auto simp: rules_of_def listTargetingRules_def removeTargetingRules_def delete_where_def intro!: filter_cong)
  qed
  then have "signals ((scope, flag) # torn) s ?t c c" for c by (simp add: signals_def) blast
  then show "list_all2 (signals ((scope, flag) # torn) s ?t) (flag_configs s) (flag_configs ?t)"
    by (simp add: removeTargetingRules_def list_all2_refl)
qed

lemma torn_config_good:
  assumes "configs_ok s" shows "cfg_good new torn s (removeFlagConfig scope flag s)"
proof -
  let ?t = "removeFlagConfig scope flag s"
  have "configs_ok ?t" using assms by (simp add: configs_ok_def removeFlagConfig_def distinct_delete_where)
  moreover have "signals torn s ?t c c" for c
    by (simp add: signals_def rules_of_def listTargetingRules_def removeFlagConfig_def)
  ultimately show ?thesis by (auto simp: cfg_good_def removeFlagConfig_def)
qed

lemma created_cfg:
  assumes "configs_ok s" shows "cfg_good new torn s (snd (createRequest app q audit s))"
proof (cases "requestByActorKey app (ap_by q) (ap_key q) s = None")
  case True
  show ?thesis unfolding created_db if_P[OF True] by (rule bumping_batch[OF assms]) (rule bumping_lists(1))
next
  case False
  show ?thesis unfolding created_db if_not_P[OF False] by (rule same_good[OF assms refl])
qed

lemma archived_cfg:
  assumes "configs_ok s" shows "cfg_good new torn s (snd (finalizeApprovalArchive app a status s))"
proof (cases "av_reviewCount a < 0")
  case True
  show ?thesis unfolding archived_db if_P[OF True] by (rule same_good[OF assms refl])
next
  case False
  show ?thesis unfolding archived_db if_not_P[OF False] by (rule bumping_batch[OF assms]) (rule bumping_lists(10))
qed

lemma control_cfg:
  assumes "control_step w w'" "control_ok w" shows "cfg_step w w'"
proof -
  have ok: "configs_ok (cw_db w)" and "rv_id ` set (approval_reviews (cw_db w)) \<subseteq> set (cw_ids w)"
    using assms(2) by (simp_all add: control_ok_def apr_world_def)
  then have fresh: "x \<notin> set (cw_ids w) \<Longrightarrow> x \<notin> rv_id ` set (approval_reviews (cw_db w))" for x by blast
  from assms(1) show ?thesis
  proof cases
    case create
    show ?thesis unfolding create(1) by (rule cfg_minting_one) (rule created_cfg[OF ok])
  next
    case dispose
    show ?thesis unfolding dispose(1) disposed_db
      by (rule cfg_minting_one, rule bumping_batch[OF ok]) (rule bumping_lists(2))
  next
    case apply_only
    show ?thesis unfolding apply_only(1) record_applied_db
      by (rule cfg_minting_one, rule bumping_batch[OF ok]) (rule bumping_lists(3))
  next
    case fail
    show ?thesis unfolding fail(1) failed_db
      by (rule cfg_minting_one, rule bumping_batch[OF ok]) (rule bumping_lists(4))
  next
    case config
    show ?thesis unfolding config(1)
      by (rule cfg_minting_one, rule bumping_batch[OF ok]) (rule bumping_lists(5))
  next
    case (rules c scope flag n rows p)
    show ?thesis unfolding rules(1)
      by (rule cfg_minting_one, rule batch_cfg[OF ok], rule approved_rules_good[OF ok _ fresh[OF rules(2)]])
  next
    case variant
    show ?thesis unfolding variant(1)
      by (rule cfg_minting_one, rule bumping_batch[OF ok]) (rule bumping_variant)
  next
    case variant_add
    show ?thesis unfolding variant_add(1)
      by (rule cfg_minting_one, rule bumping_batch[OF ok]) (rule bumping_catalog[OF silent_variants(2)])
  next
    case variant_remove
    show ?thesis unfolding variant_remove(1) approvedVariantDeleteBatch_def
      by (rule cfg_minting_one, rule bumping_batch[OF ok]) (rule bumping_catalog[OF silent_variants(4)])
  next
    case start
    show ?thesis unfolding start(1) run_start_db
      by (rule cfg_minting, rule bumping_batch[OF ok]) (rule bumping_lists(7))
  next
    case conclude
    show ?thesis unfolding conclude(1) committed_db
      by (rule cfg_minting_one, rule bumping_batch[OF ok]) (rule bumping_lists(8))
  next
    case replace
    show ?thesis unfolding replace(1) replaced_db
      by (rule cfg_minting_one, rule bumping_batch[OF ok]) (rule bumping_lists(9))
  next
    case archive
    show ?thesis unfolding archive by (rule cfg_plain) (rule archived_cfg[OF ok])
  next
    case config_direct
    show ?thesis unfolding config_direct update_direct_db
      by (rule cfg_plain, rule bumping_batch[OF ok]) (rule bumping_lists(6))
  next
    case (rules_direct scope flag rows p au)
    have "silent q" if "q \<in> set (case au of None \<Rightarrow> [] | Some a \<Rightarrow> [configAudit scope flag a])" for q
      using that by (auto simp: silents split: option.splits)
    then show ?thesis unfolding rules_direct replace_direct_db
      by (intro cfg_plain batch_cfg[OF ok] direct_rules_good[OF ok])
  next
    case variant_direct
    show ?thesis unfolding variant_direct
      by (rule cfg_plain, rule bumping_batch[OF ok]) (rule bumping_variant)
  next
    case (initial x scope)
    show ?thesis unfolding initial(1)
      using cfg_minting[of "[fc_id x]" w] initial_good[OF ok] initial(2) by simp
  next
    case (tear_rules scope flag)
    show ?thesis unfolding tear_rules using torn_rules_good[OF ok] by (auto simp: cfg_step_def)
  next
    case tear_config
    show ?thesis unfolding tear_config by (rule cfg_plain) (rule torn_config_good[OF ok])
  next
    case others
    show ?thesis unfolding others(1) by (rule cfg_plain) (rule same_good[OF ok others(3)])
  qed
qed

lemma control_preserved:
  assumes "control_ok w" "control_step w w'" shows "control_ok w'"
proof -
  have cfg: "cfg_step w w'" by (rule control_cfg[OF assms(2,1)])
  have "apr_world w'"
    using apr_step_world[OF control_apr[OF assms(2)]] assms(1) by (simp add: control_ok_def)
  moreover have "fc_id c' \<in> set (cw_ids w')" if "c' \<in> set (flag_configs (cw_db w'))" for c'
  proof -
    from cfg that consider "fc_id c' \<in> set (cw_ids w')" | c where "c \<in> set (flag_configs (cw_db w))" "fc_id c' = fc_id c"
      by (auto simp: cfg_step_def cfg_good_def signals_def config_evolves_def)
    then show ?thesis using assms(1) cfg by cases (auto simp: control_ok_def cfg_step_def image_subset_iff)
  qed
  ultimately show ?thesis using cfg by (auto simp: control_ok_def cfg_step_def cfg_good_def)
qed

interpretation control: machine control_step control_ok
  by unfold_locales (rule control_preserved)

lemma new_control_ok: "control_ok (new_control s)"
  by (simp add: control_ok_def new_control_def apr_world_def approvals_ok_def configs_ok_def)

lemma control_history_ok: "reaches control_step (new_control s) w \<Longrightarrow> control_ok w"
  by (erule control.inv_reaches) (rule new_control_ok)

section \<open>Histories\<close>

text \<open>What good steps do to a Request and to a Configuration adds up.\<close>

definition forth :: "control_world \<Rightarrow> control_world \<Rightarrow> bool" where
  "forth w w' \<longleftrightarrow> set (cw_ids w) \<subseteq> set (cw_ids w') \<and> set (cw_torn w) \<subseteq> set (cw_torn w')
     \<and> (\<forall>q'\<in>set (approval_requests (cw_db w')). ap_id q' \<in> set (cw_ids w) \<longrightarrow>
          (\<exists>q\<in>set (approval_requests (cw_db w)). request_evolves q q'))
     \<and> (\<forall>c'\<in>set (flag_configs (cw_db w')). fc_id c' \<in> set (cw_ids w) \<longrightarrow>
          (\<exists>c\<in>set (flag_configs (cw_db w)). signals (cw_torn w') (cw_db w) (cw_db w') c c'))"

lemma step_forth:
  assumes "control_ok w" "control_step w w'" shows "forth w w'"
  using control_cfg[OF assms(2,1)] control_apr[OF assms(2)] assms(1)
  by (auto simp: forth_def cfg_step_def cfg_good_def apr_step_def apr_good_def control_ok_def)

lemma signals_refl: "signals torn s s c c"
  by (simp add: signals_def)

lemma forth_refl: "forth w w"
  by (auto simp: forth_def intro: evolves_member[OF _ request_evolves_refl] signals_refl)

lemma signals_trans:
  assumes "signals T s t c c'" "signals T' t u c' c''" "set T \<subseteq> set T'"
  shows "signals T' s u c c''"
proof -
  have e: "config_evolves c c'" "config_evolves c' c''" using assms by (simp_all add: signals_def)
  have "place c \<in> set T' \<or> rules_of c u = rules_of c s" if "c'' = c"
  proof -
    have "c' = c" using e that by (auto simp: config_evolves_def)
    then show ?thesis using assms that by (auto simp: signals_def)
  qed
  then show ?thesis using config_evolves_trans[OF e] by (simp add: signals_def)
qed

lemma forth_trans:
  assumes "forth u v" "forth v w" shows "forth u w"
  unfolding forth_def
proof (intro conjI ballI impI)
  show "set (cw_ids u) \<subseteq> set (cw_ids w)" "set (cw_torn u) \<subseteq> set (cw_torn w)" using assms by (auto simp: forth_def)
  have torn: "set (cw_torn v) \<subseteq> set (cw_torn w)" and ids: "set (cw_ids u) \<subseteq> set (cw_ids v)"
    using assms by (simp_all add: forth_def)
  show "\<exists>q\<in>set (approval_requests (cw_db u)). request_evolves q q''"
    if q: "q'' \<in> set (approval_requests (cw_db w))" "ap_id q'' \<in> set (cw_ids u)" for q''
  proof -
    have "ap_id q'' \<in> set (cw_ids v)" using q(2) ids by blast
    then obtain q' where q': "q' \<in> set (approval_requests (cw_db v))" "request_evolves q' q''"
      using assms(2) q(1) by (auto simp: forth_def)
    then have "ap_id q' \<in> set (cw_ids u)" using q(2) by (simp add: request_evolves_id)
    then obtain p where "p \<in> set (approval_requests (cw_db u))" "request_evolves p q'"
      using assms(1) q'(1) by (auto simp: forth_def)
    with q'(2) show ?thesis using request_evolves_trans by blast
  qed
  show "\<exists>c\<in>set (flag_configs (cw_db u)). signals (cw_torn w) (cw_db u) (cw_db w) c c''"
    if c: "c'' \<in> set (flag_configs (cw_db w))" "fc_id c'' \<in> set (cw_ids u)" for c''
  proof -
    have "fc_id c'' \<in> set (cw_ids v)" using c(2) ids by blast
    then obtain c' where c': "c' \<in> set (flag_configs (cw_db v))" "signals (cw_torn w) (cw_db v) (cw_db w) c' c''"
      using assms(2) c(1) by (auto simp: forth_def)
    then have "fc_id c' \<in> set (cw_ids u)" using c(2) by (simp add: signals_def config_evolves_def)
    then obtain b where "b \<in> set (flag_configs (cw_db u))" "signals (cw_torn v) (cw_db u) (cw_db v) b c'"
      using assms(1) c'(1) by (auto simp: forth_def)
    with c'(2) torn show ?thesis using signals_trans by blast
  qed
qed

lemma history_forth:
  assumes "control_ok w" "reaches control_step w w'" shows "forth w w'"
  using assms(2,1)
proof (rule control.mono_reaches[rotated -2])
  show "forth s t" if "control_ok s" "control_step s t" for s t by (rule step_forth[OF that])
qed (rule forth_refl, rule forth_trans)

section \<open>Requests over a history\<close>


text \<open>
  C11: a resolution is final. Along any history the proposal of an Approval Request (all but
  its status, time and result) never changes, and a Request that is not pending never changes.
\<close>

theorem resolution_is_final:
  assumes "reaches control_step (new_control s) w" "reaches control_step w w'"
    and "q \<in> set (approval_requests (cw_db w))" "q' \<in> set (approval_requests (cw_db w'))" "ap_id q' = ap_id q"
  shows "proposal q' = proposal q \<and> (ap_status q = ''pending'' \<or> q' = q)"
proof -
  have ok: "control_ok w" by (rule control_history_ok[OF assms(1)])
  then have "ap_id q' \<in> set (cw_ids w)" using assms(3,5) by (auto simp: control_ok_def apr_world_def)
  then obtain p where p: "p \<in> set (approval_requests (cw_db w))" "request_evolves p q'"
    using history_forth[OF ok assms(2)] assms(4) by (auto simp: forth_def)
  moreover have "approvals_ok (cw_db w)" using ok by (simp add: control_ok_def apr_world_def)
  ultimately have "p = q" using assms(3,5) request_evolves_id by (metis request_by_id)
  with p(2) show ?thesis by (auto simp: request_evolves_def)
qed

section \<open>Configurations over a history\<close>

text \<open>
  C12: the version of a Flag Configuration signals every change of it. Along any history of
  direct and approved writes, renamings and teardowns the version never goes back, and while it
  stays the same the row is the same, and so are its Targeting Rules unless an Environment
  teardown has removed them ahead of the Configuration.
\<close>

theorem config_version_signals:
  assumes "reaches control_step (new_control s) w" "reaches control_step w w'"
    and "c \<in> set (flag_configs (cw_db w))" "c' \<in> set (flag_configs (cw_db w'))" "fc_id c' = fc_id c"
  shows "place c' = place c \<and> (fc_version c < fc_version c'
    \<or> c' = c \<and> (place c \<in> set (cw_torn w') \<or> rules_of c (cw_db w') = rules_of c (cw_db w)))"
proof -
  have ok: "control_ok w" by (rule control_history_ok[OF assms(1)])
  then have "fc_id c' \<in> set (cw_ids w)" using assms(3,5) by (auto simp: control_ok_def)
  then obtain b where b: "b \<in> set (flag_configs (cw_db w))" "signals (cw_torn w') (cw_db w) (cw_db w') b c'"
    using history_forth[OF ok assms(2)] assms(4) by (auto simp: forth_def)
  have "distinct (map fc_id (flag_configs (cw_db w)))" using ok by (simp add: control_ok_def configs_ok_def)
  moreover have "fc_id b = fc_id c" using b(2) assms(5) by (simp add: signals_def config_evolves_def)
  ultimately have "b = c" using b(1) assms(3) by (metis distinct_map inj_on_eq_iff)
  with b(2) show ?thesis by (auto simp: signals_def config_evolves_def place_def)
qed

section \<open>Approved writes are atomic\<close>

lemma one_place:
  assumes "configs_ok s" "x \<in> set (flag_configs s)" "y \<in> set (flag_configs s)"
    "scopedFlagConfig scope flag x" "scopedFlagConfig scope flag y"
  shows "x = y"
proof -
  have "(fc_env y, fc_flag y) = (fc_env x, fc_flag x)" using assms(4,5) by (simp add: scopedFlagConfig_def)
  then show ?thesis using assms(1-3) unfolding configs_ok_def distinct_map by (metis (mono_tags, lifting) inj_onD)
qed

text \<open>The Configuration is the one the proposal was made against, and the guard holds.\<close>

definition config_ready :: "env_scope \<Rightarrow> string \<Rightarrow> int \<Rightarrow> approval_commit \<Rightarrow> db \<Rightarrow> bool" where
  "config_ready scope flag n c s \<longleftrightarrow> approvalPendingCondition (s_app scope) c s
     \<and> list_ex (\<lambda>x. scopedFlagConfig scope flag x \<and> fc_version x = n) (flag_configs s)"

lemma config_update_shape:
  assumes ok: "configs_ok s" and upd: "approvedConfigUpdate scope flag n p c s = Inr (t, rows)"
  shows "apr t = apr s \<and> targeting_rules t = targeting_rules s
    \<and> (if config_ready scope flag n c s then changes t = 1
         \<and> flag_configs t = set_where (scopedFlagConfig scope flag) (patch_config p (n + 1)) (flag_configs s)
       else changes t = 0 \<and> flag_configs t = flag_configs s)"
proof -
  let ?P = "\<lambda>x. scopedFlagConfig scope flag x \<and> fc_version x = n \<and> approvalPendingCondition (s_app scope) c s"
  have t: "t = s\<lparr>flag_configs := set_where ?P (patch_config p (n + 1)) (flag_configs s),
      changes := length (filter ?P (flag_configs s))\<rparr>"
    using upd by (simp add: approvedConfigUpdate_def updateConfigs_def)
  show ?thesis
  proof (cases "config_ready scope flag n c s")
    case True
    then obtain x where x: "x \<in> set (flag_configs s)" "?P x" by (auto simp: config_ready_def list_ex_iff)
    have only: "?P y \<longleftrightarrow> scopedFlagConfig scope flag y" if "y \<in> set (flag_configs s)" for y
      using one_place[OF ok x(1) that, of scope flag] x(2) by auto
    have key: "(fc_env y, fc_flag y) = (fc_env x, fc_flag x)" if "?P y" for y
      using that x(2) by (simp add: scopedFlagConfig_def)
    have "filter ?P (flag_configs s) = [x]"
      by (rule filter_unique[where P = ?P and k = "\<lambda>c. (fc_env c, fc_flag c)", OF _ x(1) x(2) key])
        (use ok in \<open>simp_all add: configs_ok_def\<close>)
    moreover have "set_where ?P (patch_config p (n + 1)) (flag_configs s)
        = set_where (scopedFlagConfig scope flag) (patch_config p (n + 1)) (flag_configs s)"
      unfolding set_where_def using only by (intro map_cong) auto
    ultimately show ?thesis using True by (simp add: t apr_def)
  next
    case False
    then have "\<not> ?P x" if "x \<in> set (flag_configs s)" for x using that by (auto simp: config_ready_def list_ex_iff)
    then show ?thesis using False by (simp add: t apr_def set_where_none filter_False)
  qed
qed

text \<open>What an approved write leaves behind when it lands, and what it has not touched when it does not.\<close>

definition config_bumped :: "env_scope \<Rightarrow> string \<Rightarrow> int \<Rightarrow> config_patch \<Rightarrow> db \<Rightarrow> db \<Rightarrow> bool" where
  "config_bumped scope flag n p s t \<longleftrightarrow>
     flag_configs t = set_where (scopedFlagConfig scope flag) (patch_config p (n + 1)) (flag_configs s)"

definition untouched :: "db \<Rightarrow> db \<Rightarrow> bool" where
  "untouched s t \<longleftrightarrow> config_tables t = config_tables s \<and> apr t = apr s"

lemma reviewed_landed: "reviewed (applied_review app c) f s t \<Longrightarrow> approvalReviewLanded app c t"
  by (simp add: reviewed_def approvalReviewLanded_def applied_review_def)

lemma unlanded:
  assumes "untouched s t" "ac_reviewId c \<notin> rv_id ` set (approval_reviews s)"
  shows "\<not> approvalReviewLanded app c t"
  using assms by (auto simp: untouched_def apr_eq approvalReviewLanded_def filter_empty_conv rev_image_eqI)

lemma review_after_update:
  assumes "appliedReviewInsert app c changed_one s = Inr (t, rows)"
  shows "approval_requests t = approval_requests s \<and> approval_reviews t = approval_reviews s
    @ (if changes s = 1 \<and> pending_request app (ac_requestId' c) s then [applied_review app c] else [])"
  using assms by (auto simp: appliedReviewInsert_def reviewInsert_def insert_if_def changed_one_def applied_review_def
      split: if_splits option.splits)

lemma after_review:
  assumes "run_statements qs s = Inr (t, rs)" "\<And>q. q \<in> set qs \<Longrightarrow> neutral q \<or> q = appliedRequestUpdate app c"
  shows "approval_reviews t = approval_reviews s"
proof (rule run_statements_keeps[OF assms(1), of "\<lambda>t. approval_reviews t = approval_reviews s"])
  fix q u u' rows assume "q \<in> set qs" "approval_reviews u = approval_reviews s" "q u = Inr (u', rows)"
  then show "approval_reviews u' = approval_reviews s"
    using assms(2)[of q] neutralD[of q u u' rows] by (auto simp: apr_eq appliedRequestUpdate_def resolve_request_def)
qed simp

lemma ready_pending: "approvalPendingCondition app c s \<Longrightarrow> pending_request app (ac_requestId' c) s"
  by (auto simp: approvalPendingCondition_def pending_request_def list_ex_iff)

text \<open>The update of the Configuration and the Review stand or fall together.\<close>

lemma update_then_review:
  assumes ok: "configs_ok s" and upd: "approvedConfigUpdate scope flag n p c s = Inr (s', r1)"
    and rev: "appliedReviewInsert (s_app scope) c changed_one s' = Inr (t, r2)"
  shows "targeting_rules t = targeting_rules s \<and> approval_requests t = approval_requests s
    \<and> (if config_ready scope flag n c s
       then config_bumped scope flag n p s t \<and> approval_reviews t = approval_reviews s @ [applied_review (s_app scope) c]
       else flag_configs t = flag_configs s \<and> approval_reviews t = approval_reviews s)"
  using config_update_shape[OF ok upd] review_after_update[OF rev] silentD[OF silent_approvals(2) rev]
    ready_pending[of "s_app scope" c s]
  by (auto simp: config_ready_def config_bumped_def apr_eq config_tables_def pending_request_def split: if_splits)

theorem approved_config_atomic:
  assumes ok: "configs_ok s" and fresh: "ac_reviewId c \<notin> rv_id ` set (approval_reviews s)"
    and batch: "d1_batch (approvedConfigBatch scope flag n p c) s = (r, t)"
  shows "case r of Inl _ \<Rightarrow> t = s
    | Inr _ \<Rightarrow> targeting_rules t = targeting_rules s
        \<and> (if config_ready scope flag n c s
           then config_bumped scope flag n p s t \<and> reviewed (applied_review (s_app scope) c) (applied_row c) s t
           else untouched s t)"
proof (cases r)
  case (Inl e)
  then show ?thesis using batch by (auto dest: d1_batch_aborted)
next
  case (Inr results)
  then have run: "run_statements (approvedConfigBatch scope flag n p c) s = Inr (t, results)"
    using batch by (auto simp: d1_batch_def split: sum.splits)
  let ?app = "s_app scope"
  let ?post = "[appliedRequestUpdate ?app c, approvalReviewAudit ?app (audited_commit c) ''applied'']"
  obtain s1 s2 r1 r2 r3 where a: "approvedConfigUpdate scope flag n p c s = Inr (s1, r1)"
    and b: "appliedReviewInsert ?app c changed_one s1 = Inr (s2, r2)" and d: "run_statements ?post s2 = Inr (t, r3)"
    using run unfolding approvedConfigBatch_def appliedReviewQueries_def
    by (auto simp: ebind_eq_Inr split: prod.splits)
  have 3: "config_tables t = config_tables s2" by (rule silent_run[OF d]) (auto simp: silents)
  have 4: "approval_reviews t = approval_reviews s2" by (rule after_review[OF d, of ?app c]) (auto simp: neutrals)
  note 5 = update_then_review[OF ok a b] config_batch_reviewed[OF run fresh]
  show ?thesis
    using 3 4 5 by (auto simp: Inr config_tables_def config_bumped_def apr_eq untouched_def reviewed_def split: if_splits)
qed

lemma inserts_append:
  assumes "run_statements (map (\<lambda>r. insertRule g (h r)) rows) s = Inr (t, rs)"
    and "\<And>u. flag_configs u = flag_configs s \<Longrightarrow> approval_reviews u = approval_reviews s \<Longrightarrow> g u"
  shows "targeting_rules t = targeting_rules s @ map h rows \<and> flag_configs t = flag_configs s
    \<and> approval_reviews t = approval_reviews s"
  using assms
proof (induction rows arbitrary: s rs)
  case (Cons r rows)
  obtain u r1 r2 where a: "insertRule g (h r) s = Inr (u, r1)"
    and b: "run_statements (map (\<lambda>r. insertRule g (h r)) rows) u = Inr (t, r2)"
    using Cons.prems(1) by (auto simp: ebind_eq_Inr split: prod.splits)
  have u: "targeting_rules u = targeting_rules s @ [h r]" "flag_configs u = flag_configs s"
    "approval_reviews u = approval_reviews s"
    using a Cons.prems(2)[of s] by (auto simp: insertRule_def insert_if_def split: option.splits)
  show ?case using Cons.IH[OF b] Cons.prems(2) u by simp
qed simp

text \<open>The Targeting Rules are rewritten exactly when the Review of this very attempt landed.\<close>

lemma rules_statements:
  "approvedRulesBatch scope flag n rows p c = referencedVariantMustExist scope flag rows @
     approvedConfigUpdate scope flag n p c # appliedReviewInsert (s_app scope) c changed_one #
     (deleteRules scope flag (reviewRecorded (s_app scope) c) # map (\<lambda>r. insertRule
        (\<lambda>s. getFlagConfig scope flag s \<noteq> None \<and> reviewRecorded (s_app scope) c s) (rule_to_insert scope flag r)) rows) @
     [appliedRequestUpdate (s_app scope) c, approvalReviewAudit (s_app scope) (audited_commit c) ''applied'']"
  by (simp add: approvedRulesBatch_def)

lemma recorded_rewrite:
  assumes run: "run_statements (deleteRules scope flag (reviewRecorded app c) # map (\<lambda>r. insertRule
        (\<lambda>s. getFlagConfig scope flag s \<noteq> None \<and> reviewRecorded app c s) (h r)) rows) s = Inr (t, rs)"
    and "reviewRecorded app c s" "getFlagConfig scope flag s \<noteq> None"
  shows "targeting_rules t = elsewhere scope flag s @ map h rows \<and> flag_configs t = flag_configs s
    \<and> approval_reviews t = approval_reviews s"
proof -
  obtain u r1 r2 where a: "deleteRules scope flag (reviewRecorded app c) s = Inr (u, r1)"
    and b: "run_statements (map (\<lambda>r. insertRule
        (\<lambda>s. getFlagConfig scope flag s \<noteq> None \<and> reviewRecorded app c s) (h r)) rows) u = Inr (t, r2)"
    using run by (auto simp: ebind_eq_Inr split: prod.splits)
  have u: "targeting_rules u = elsewhere scope flag s" "flag_configs u = flag_configs s" "approval_reviews u = approval_reviews s"
    using a assms(2) by (auto simp: deleteRules_def Let_def elsewhere_def delete_where_def)
  show ?thesis
    using inserts_append[OF b] assms(2,3) u by (simp add: getFlagConfig_def reviewRecorded_def)
qed

lemma bumped_here:
  assumes "config_bumped scope flag n p s t" "config_ready scope flag n c s" shows "getFlagConfig scope flag t \<noteq> None"
proof -
  obtain x where x: "x \<in> set (flag_configs s)" "scopedFlagConfig scope flag x"
    using assms(2) by (auto simp: config_ready_def list_ex_iff)
  have "patch_config p (n + 1) x \<in> set (flag_configs t)"
    using assms(1) x by (auto simp: config_bumped_def)
  moreover have "scopedFlagConfig scope flag (patch_config p (n + 1) x)"
    using x(2) by (simp add: scopedFlagConfig_def patch_config_def)
  ultimately show ?thesis by (auto simp: getFlagConfig_def find_None_iff)
qed

text \<open>
  C13: an approved replacement of Targeting Rules is all or nothing. If the Request is pending
  under its policy, the reviewer an admin and the Configuration at the version of the proposal,
  the Configuration is bumped, its rules are exactly the new ones, the Review is recorded and
  the Request applied; otherwise, or when a statement fails, none of these tables changes.
\<close>

theorem approved_rules_atomic:
  assumes ok: "configs_ok s" and fresh: "ac_reviewId c \<notin> rv_id ` set (approval_reviews s)"
    and batch: "d1_batch (approvedRulesBatch scope flag n rows p c) s = (r, t)"
  shows "case r of Inl _ \<Rightarrow> t = s
    | Inr _ \<Rightarrow> if config_ready scope flag n c s
        then config_bumped scope flag n p s t \<and> reviewed (applied_review (s_app scope) c) (applied_row c) s t
          \<and> targeting_rules t = elsewhere scope flag s @ map (rule_to_insert scope flag) rows
        else untouched s t"
proof (cases r)
  case (Inl e)
  then show ?thesis using batch by (auto dest: d1_batch_aborted)
next
  case (Inr results)
  then have run: "run_statements (approvedRulesBatch scope flag n rows p c) s = Inr (t, results)"
    using batch by (auto simp: d1_batch_def split: sum.splits)
  let ?app = "s_app scope"
  let ?mid = "deleteRules scope flag (reviewRecorded ?app c) # map (\<lambda>r. insertRule
      (\<lambda>s. getFlagConfig scope flag s \<noteq> None \<and> reviewRecorded ?app c s) (rule_to_insert scope flag r)) rows"
  let ?post = "[appliedRequestUpdate ?app c, approvalReviewAudit ?app (audited_commit c) ''applied'']"
  obtain s1 s2 s3 s4 r1 r2 r3 r4 r5 where a: "run_statements (referencedVariantMustExist scope flag rows) s = Inr (s1, r1)"
    and b: "approvedConfigUpdate scope flag n p c s1 = Inr (s2, r2)" and rev: "appliedReviewInsert ?app c changed_one s2 = Inr (s3, r3)"
    and d: "run_statements ?mid s3 = Inr (s4, r4)" and e: "run_statements ?post s4 = Inr (t, r5)"
    using run unfolding rules_statements by (auto simp: run_statements_append ebind_eq_Inr simp del: append_Cons split: prod.splits)
  have "s1 = s"
    by (rule run_statements_keeps[OF a, of "\<lambda>u. u = s"])
      (auto simp: referencedVariantMustExist_def assert_stmt_def split: if_splits)
  note 3 = update_then_review[OF ok b[unfolded this] rev] rules_batch_reviewed[OF run fresh]
  have 4: "config_tables t = config_tables s4" by (rule silent_run[OF e]) (auto simp: silents)
  have 5: "approval_reviews t = approval_reviews s4" by (rule after_review[OF e, of ?app c]) (auto simp: neutrals)
  show ?thesis
  proof (cases "config_ready scope flag n c s")
    case True
    then have bumped: "config_bumped scope flag n p s s3" and "approval_reviews s3 = approval_reviews s @ [applied_review ?app c]"
      and same: "targeting_rules s3 = targeting_rules s" using 3 by auto
    then have rec: "reviewRecorded ?app c s3" by (simp add: reviewRecorded_def applied_review_def)
    note mid = recorded_rewrite[OF d rec bumped_here[OF bumped True]]
    have "apr t \<noteq> apr s" using mid 5 \<open>approval_reviews s3 = _\<close> by (simp add: apr_eq)
    then have "reviewed (applied_review ?app c) (applied_row c) s t" using 3(2) by simp
    moreover have "config_bumped scope flag n p s t" using bumped mid 4 by (simp add: config_bumped_def config_tables_def)
    ultimately show ?thesis using True mid 4 same by (simp add: Inr config_tables_def elsewhere_def)
  next
    case False
    then have u: "approval_reviews s3 = approval_reviews s" "config_tables s3 = config_tables s"
      using 3 by (simp_all add: config_tables_def)
    have "\<not> reviewRecorded ?app c s3"
      using fresh u(1) by (auto simp: reviewRecorded_def list_ex_iff rev_image_eqI)
    then have mid: "config_tables s4 = config_tables s3" by (rule unrecorded_run[OF d])
    have "approval_reviews s4 = approval_reviews s3"
      by (rule after_review[OF d, of ?app c]) (auto simp: neutrals)
    then have "\<not> reviewed (applied_review ?app c) (applied_row c) s t" using 5 u(1) by (simp add: reviewed_def)
    then show ?thesis using False 3(2) 4 mid u(2) by (simp add: Inr untouched_def)
  qed
qed

section \<open>A sample history\<close>

text \<open>
  A Configuration is made, a Request against its version 1 is raised, an admin approves and
  applies it, and a second admin's refusal comes too late.
\<close>

definition ctl_db :: db where
  "ctl_db = smp_db\<lparr>environments := [\<lparr>ev_id = ''v'', ev_app = ''a'',
     ev_policy = JObj [(''enabledState'', JStr ''confirm'')]\<rparr>]\<rparr>"

definition ctl_config :: config_row where
  "ctl_config = \<lparr>fc_id = ''g'', fc_app = ''a'', fc_env = ''v'', fc_flag = ''f'', fc_enabled = False, fc_available = [''on''],
     fc_defaultVariant = None, fc_rollout = None, fc_updatedAt = ''t'', fc_updatedBy = None, fc_updatedVia = None,
     fc_version = 1\<rparr>"

definition ctl_request :: approval_row where
  "ctl_request = (ci_approval smp_conclude)\<lparr>ap_id := ''p'', ap_key := ''k''\<rparr>"

definition ctl_commit :: approval_commit where
  "ctl_commit = \<lparr>ac_requestId' = ''p'', ac_reviewId = ''x'', ac_action = ''approve_and_apply'', ac_reviewedBy = ''u'',
     ac_reviewedVia = [], ac_reviewedAt = ''y'', ac_reason = None, ac_key = ''j'', ac_hash = [],
     ac_resultVersion = ''2'', ac_resultType = ''flag_config'', ac_resultId = ''g'',
     ac_policyContexts = [\<lparr>pg_env = ''v'', pg_changeTypes = [EnabledState], pg_level = ''confirm''\<rparr>],
     ac_audit = None\<rparr>"

definition ctl_patch :: config_patch where
  "ctl_patch = \<lparr>kp_enabled = Some True, kp_available = None, kp_defaultVariant = None, kp_rollout = None,
     kp_updatedAt = Some ''y'', kp_updatedBy = None, kp_updatedVia = None\<rparr>"

definition ctl_decline :: disposition where
  "ctl_decline = \<lparr>dp_audit = None, dp_requestId = ''p'', dp_reviewId = ''d'', dp_action = ''decline'',
     dp_outcome = ''declined'', dp_by = ''u'', dp_via = [], dp_at = ''z'', dp_reason = None, dp_key = ''l'', dp_hash = [],
     dp_cause = None\<rparr>"

definition ctl_made :: control_world where
  "ctl_made = (let w = new_control ctl_db in
     w\<lparr>cw_db := snd (ensureInitialFlagConfig smp_scope ctl_config (cw_db w)), cw_ids := fc_id ctl_config # cw_ids w\<rparr>)"

definition ctl_asked :: control_world where
  "ctl_asked = ctl_made\<lparr>cw_db := snd (createRequest ''a'' ctl_request None (cw_db ctl_made)),
     cw_ids := ap_id ctl_request # cw_ids ctl_made\<rparr>"

definition ctl_applied :: control_world where
  "ctl_applied = ctl_asked\<lparr>cw_db := snd (d1_batch (approvedConfigBatch smp_scope ''f'' 1 ctl_patch ctl_commit) (cw_db ctl_asked)),
     cw_ids := ac_reviewId ctl_commit # cw_ids ctl_asked\<rparr>"

definition ctl_declined :: control_world where
  "ctl_declined = ctl_applied\<lparr>cw_db := snd (resolveWithoutApplication ''a'' ctl_decline (cw_db ctl_applied)),
     cw_ids := dp_reviewId ctl_decline # cw_ids ctl_applied\<rparr>"

lemma ctl_evaluated:
  "map fc_version (flag_configs (cw_db ctl_asked)) = [1]"
  "map fc_version (flag_configs (cw_db ctl_applied)) = [2]"
  "map ap_status (approval_requests (cw_db ctl_asked)) = [''pending'']"
  "map ap_status (approval_requests (cw_db ctl_applied)) = [''applied'']"
  "map rv_outcome (approval_reviews (cw_db ctl_declined)) = [''applied'']"
  "map fc_id (flag_configs (cw_db ctl_asked)) = [''g'']" "map fc_id (flag_configs (cw_db ctl_applied)) = [''g'']"
  "map ap_id (approval_requests (cw_db ctl_applied)) = [''p'']" "map ap_id (approval_requests (cw_db ctl_declined)) = [''p'']"
  "cw_ids ctl_made = [''g'']"
  by code_simp+

lemma ctl_histories:
  "reaches control_step (new_control ctl_db) ctl_asked"
  "reaches control_step ctl_asked ctl_applied"
  "reaches control_step ctl_applied ctl_declined"
proof -
  have "control_step (new_control ctl_db) ctl_made"
    unfolding ctl_made_def Let_def by (rule control_step.initial) (simp add: new_control_def)
  moreover have "control_step ctl_made ctl_asked"
    unfolding ctl_asked_def by (rule control_step.create) (simp_all add: ctl_evaluated ctl_request_def smp_conclude_def)
  ultimately show "reaches control_step (new_control ctl_db) ctl_asked" by (meson reaches.intros)
  have "control_step ctl_asked ctl_applied"
    unfolding ctl_applied_def
    by (rule control_step.config) (simp add: ctl_asked_def ctl_evaluated ctl_request_def ctl_commit_def)
  then show "reaches control_step ctl_asked ctl_applied" by (meson reaches.intros)
  have "control_step ctl_applied ctl_declined"
    unfolding ctl_declined_def
    by (rule control_step.dispose)
      (simp_all add: ctl_applied_def ctl_asked_def ctl_evaluated ctl_request_def ctl_commit_def ctl_decline_def)
  then show "reaches control_step ctl_applied ctl_declined" by (meson reaches.intros)
qed

lemma ctl_reached:
  "reaches control_step (new_control ctl_db) ctl_applied" "reaches control_step (new_control ctl_db) ctl_declined"
  using ctl_histories by (blast intro: reaches_trans)+

end
