(* ===== verification/ControlSamples.thy ===== *)
theory ControlSamples
  imports ControlProps
begin

text \<open>
  The approved update of a Variant is atomic; the approved change of the Variant catalogue is
  not. Instances of the properties of \<open>ControlProps\<close> at its sample history.
\<close>

section \<open>Approved updates of a Variant\<close>

definition variant_ready :: "string \<Rightarrow> flag_row \<Rightarrow> variant_row \<Rightarrow> approval_commit \<Rightarrow> db \<Rightarrow> bool" where
  "variant_ready app fg v c s \<longleftrightarrow> approvalPendingCondition app c s \<and> flagVersionUnchanged app fg s
     \<and> list_ex (\<lambda>x. vt_id x = vt_id v) (flag_variants s)"

definition flag_bumped :: "string \<Rightarrow> flag_row \<Rightarrow> string \<Rightarrow> string option \<Rightarrow> db \<Rightarrow> db \<Rightarrow> bool" where
  "flag_bumped app fg at' by' s t \<longleftrightarrow> flags t = set_where (\<lambda>f. fl_app f = app \<and> fl_id f = fl_id fg)
     (\<lambda>f. f\<lparr>fl_version := fl_version fg + 1, fl_updatedAt := at', fl_updatedBy := by'\<rparr>) (flags s)"

definition catalogue_ok :: "db \<Rightarrow> bool" where
  "catalogue_ok s \<longleftrightarrow> distinct (map fl_id (flags s)) \<and> distinct (map vt_id (flag_variants s))"

text \<open>The guard reads none of the tables the batch writes before the Review.\<close>

lemma pending_frame [simp]:
  "approvalPendingCondition app c (s\<lparr>flag_variants := vs, changes := n\<rparr>) = approvalPendingCondition app c s"
  by (simp add: approvalPendingCondition_def currentReviewerCondition_def currentPolicyCondition_def)

lemma variants_updated:
  assumes ok: "catalogue_ok s" and upd: "updateVariants p x g s = Inr (t, rows)"
  shows "if g s \<and> list_ex (\<lambda>y. vt_id y = x) (flag_variants s)
    then t = s\<lparr>flag_variants := set_where (\<lambda>y. vt_id y = x) (patch_variant p) (flag_variants s), changes := 1\<rparr>
    else t = s\<lparr>changes := 0\<rparr>"
proof -
  let ?P = "\<lambda>y. vt_id y = x \<and> g s"
  have t: "t = s\<lparr>flag_variants := set_where ?P (patch_variant p) (flag_variants s), changes := length (filter ?P (flag_variants s))\<rparr>"
    using upd by (auto simp: updateVariants_def Let_def split: if_splits)
  show ?thesis
  proof (cases "g s \<and> list_ex (\<lambda>y. vt_id y = x) (flag_variants s)")
    case True
    then obtain y where y: "y \<in> set (flag_variants s)" "?P y" by (auto simp: list_ex_iff)
    have "filter ?P (flag_variants s) = [y]"
      by (rule filter_unique[where P = ?P and k = vt_id]) (use ok y in \<open>auto simp: catalogue_ok_def\<close>)
    then show ?thesis using True by (simp add: t)
  next
    case False
    then have none: "\<not> ?P y" if "y \<in> set (flag_variants s)" for y using that by (auto simp: list_ex_iff)
    then have "set_where ?P (patch_variant p) (flag_variants s) = flag_variants s" "filter ?P (flag_variants s) = []"
      by (simp_all add: set_where_none)
    with False show ?thesis by (simp only: t if_False list.size(3)) simp
  qed
qed

lemma flag_bump_shape:
  assumes ok: "catalogue_ok s" and upd: "bumpFlag app fg at' by' g s = Inr (t, rows)"
  shows "if g s \<and> flagVersionUnchanged app fg s
    then flag_bumped app fg at' by' s t \<and> changes t = 1 else flags t = flags s \<and> changes t = 0"
proof -
  let ?P = "\<lambda>f. fl_app f = app \<and> fl_id f = fl_id fg \<and> fl_version f = fl_version fg \<and> g s"
  let ?f = "\<lambda>f. f\<lparr>fl_version := fl_version fg + 1, fl_updatedAt := at', fl_updatedBy := by'\<rparr>"
  have t: "flags t = set_where ?P ?f (flags s)" "changes t = length (filter ?P (flags s))"
    using upd by (auto simp: bumpFlag_def Let_def)
  show ?thesis
  proof (cases "g s \<and> flagVersionUnchanged app fg s")
    case True
    then obtain f where f: "f \<in> set (flags s)" "?P f" by (auto simp: flagVersionUnchanged_def list_ex_iff)
    have one: "filter ?P (flags s) = [f]"
      by (rule filter_unique[where P = ?P and k = fl_id]) (use ok f in \<open>auto simp: catalogue_ok_def\<close>)
    have "?P h \<longleftrightarrow> fl_app h = app \<and> fl_id h = fl_id fg" if "h \<in> set (flags s)" for h
      using ok f that unfolding catalogue_ok_def distinct_map by (metis inj_onD)
    then have "flags t = set_where (\<lambda>f. fl_app f = app \<and> fl_id f = fl_id fg) ?f (flags s)"
      unfolding t(1) set_where_def by (intro map_cong) auto
    then show ?thesis using True one t(2) by (simp add: flag_bumped_def)
  next
    case False
    then have none: "\<not> ?P f" if "f \<in> set (flags s)" for f using that by (auto simp: flagVersionUnchanged_def list_ex_iff)
    then have "set_where ?P ?f (flags s) = flags s" "filter ?P (flags s) = []"
      by (simp_all add: set_where_none)
    with False show ?thesis unfolding t by (simp only: if_False) simp
  qed
qed

definition catalogue :: "db \<Rightarrow> flag_row list \<times> variant_row list" where
  "catalogue s = (flags s, flag_variants s)"

lemma catalogue_kept:
  "appliedReviewInsert app c ev s = Inr (t, rows) \<Longrightarrow> catalogue t = catalogue s"
  "renameAvailableVariant app fg x y u g s = Inr (t, rows) \<Longrightarrow> catalogue t = catalogue s"
  "appliedRequestUpdate app c s = Inr (t, rows) \<Longrightarrow> catalogue t = catalogue s"
  "approvalReviewAudit app v o' s = Inr (t, rows) \<Longrightarrow> catalogue t = catalogue s"
  by (auto simp: catalogue_def appliedReviewInsert_def reviewInsert_def insert_if_def renameAvailableVariant_def
      updateConfigs_def appliedRequestUpdate_def resolve_request_def approvalReviewAudit_def Let_def
      split: if_splits option.splits)

definition variant_renaming :: "string \<Rightarrow> flag_row \<Rightarrow> variant_row \<Rightarrow> variant_patch \<Rightarrow> approval_commit \<Rightarrow> stmt list" where
  "variant_renaming app fg v p c = (case (case vp_name p of None \<Rightarrow> None | Some n \<Rightarrow> if n = vt_name v then None else Some n) of
     None \<Rightarrow> []
   | Some n \<Rightarrow> [renameAvailableVariant app (fl_id fg) (vt_name v) n (Some (ac_reviewedAt c)) (reviewRecorded app c)])"

lemma variant_statements:
  "variant_update_batch app fg v p opts (Some c) =
     updateVariants p (vt_id v) (\<lambda>s. approvalPendingCondition app c s \<and> flagVersionUnchanged app fg s) #
     bumpFlag app fg (ac_reviewedAt c) (case vo_updatedBy opts of None \<Rightarrow> fl_updatedBy fg | Some u \<Rightarrow> Some u)
       (\<lambda>s. approvalPendingCondition app c s \<and> changed_one s) #
     appliedReviewInsert app c changed_one #
     variant_renaming app fg v p c @ [appliedRequestUpdate app c, approvalReviewAudit app (audited_commit c) ''applied'']"
  by (simp add: variant_update_batch_def variant_renaming_def Let_def)

text \<open>A renaming only writes Configurations, and only when the Review is recorded.\<close>

lemma renaming_unrecorded:
  assumes "run_statements (variant_renaming app fg v p c) s = Inr (t, rs)" "\<not> reviewRecorded app c s"
  shows "config_tables t = config_tables s"
  using assms by (auto simp: variant_renaming_def renameAvailableVariant_def updateConfigs_def set_where_none config_tables_def
      split: option.splits if_splits)

text \<open>
  C14: an approved update of a Variant is all or nothing. If the Request is pending under its
  policy and the Flag still at the version that was read, the Variant, the Flag version, the
  Review and the Request change together; otherwise nothing changes, and a renaming leaves the
  Configurations alone as well.
\<close>

theorem approved_variant_atomic:
  assumes ok: "catalogue_ok s" and fresh: "ac_reviewId c \<notin> rv_id ` set (approval_reviews s)"
    and batch: "d1_batch (variant_update_batch app fg v p opts (Some c)) s = (r, t)"
  shows "case r of Inl _ \<Rightarrow> t = s
    | Inr _ \<Rightarrow> if variant_ready app fg v c s
        then flag_variants t = set_where (\<lambda>x. vt_id x = vt_id v) (patch_variant p) (flag_variants s)
          \<and> flag_bumped app fg (ac_reviewedAt c) (case vo_updatedBy opts of None \<Rightarrow> fl_updatedBy fg | Some u \<Rightarrow> Some u) s t
          \<and> reviewed (applied_review app c) (applied_row c) s t
        else catalogue t = catalogue s \<and> untouched s t"
proof (cases r)
  case (Inl e)
  then show ?thesis using batch by (auto dest: d1_batch_aborted)
next
  case (Inr results)
  then have run: "run_statements (variant_update_batch app fg v p opts (Some c)) s = Inr (t, results)"
    using batch by (auto simp: d1_batch_def split: sum.splits)
  let ?by = "case vo_updatedBy opts of None \<Rightarrow> fl_updatedBy fg | Some u \<Rightarrow> Some u"
  let ?post = "variant_renaming app fg v p c @ [appliedRequestUpdate app c, approvalReviewAudit app (audited_commit c) ''applied'']"
  obtain s1 s2 s3 r1 r2 r3 r4 where
    a: "updateVariants p (vt_id v) (\<lambda>s. approvalPendingCondition app c s \<and> flagVersionUnchanged app fg s) s = Inr (s1, r1)"
    and b: "bumpFlag app fg (ac_reviewedAt c) ?by (\<lambda>s. approvalPendingCondition app c s \<and> changed_one s) s1 = Inr (s2, r2)"
    and rev: "appliedReviewInsert app c changed_one s2 = Inr (s3, r3)" and d: "run_statements ?post s3 = Inr (t, r4)"
    using run unfolding variant_statements by (auto simp: ebind_eq_Inr simp del: append_Cons split: prod.splits)
  have kept: "catalogue t = catalogue s3"
    by (rule run_statements_keeps[OF d, of "\<lambda>u. catalogue u = catalogue s3"])
      (auto simp: variant_renaming_def dest: catalogue_kept split: option.splits if_splits)
  have reviews: "approval_reviews t = approval_reviews s3"
    by (rule after_review[OF d, of app c]) (auto simp: variant_renaming_def neutrals split: option.splits)
  have frame: "apr s2 = apr s1" "config_tables s2 = config_tables s1" "flag_variants s2 = flag_variants s1"
    by (rule neutralD[OF neutral_variant(2) b], rule silentD[OF silent_variants(3) b])
      (use b in \<open>auto simp: bumpFlag_def Let_def\<close>)
  note 3 = catalogue_kept(1)[OF rev] silentD[OF silent_approvals(2) rev] review_after_update[OF rev]
  note s1 = variants_updated[OF ok a]
  note s2 = flag_bump_shape[OF _ b]
  show ?thesis
  proof (cases "variant_ready app fg v c s")
    case True
    then have eq: "s1 = s\<lparr>flag_variants := set_where (\<lambda>x. vt_id x = vt_id v) (patch_variant p) (flag_variants s), changes := 1\<rparr>"
      using s1 by (simp add: variant_ready_def)
    have "catalogue_ok s1"
      using ok by (simp add: eq catalogue_ok_def map_set_where patch_variant_def)
    then have flags: "flag_bumped app fg (ac_reviewedAt c) ?by s s2" "changes s2 = 1"
      using s2 True by (auto simp: eq variant_ready_def changed_one_def flagVersionUnchanged_def flag_bumped_def split: if_splits)
    have "pending_request app (ac_requestId' c) s2"
      using True frame(1) ready_pending[of app c s] by (simp add: eq apr_eq variant_ready_def pending_request_def)
    then have "approval_reviews t = approval_reviews s @ [applied_review app c]"
      using 3 reviews flags(2) frame(1) by (simp add: eq apr_eq)
    then have "reviewed (applied_review app c) (applied_row c) s t"
      using variant_batch_reviewed[OF run fresh] by (auto simp: apr_eq)
    then show ?thesis
      using True flags kept 3(1) frame(3) by (simp add: Inr eq catalogue_def flag_bumped_def)
  next
    case False
    then have eq: "s1 = s\<lparr>changes := 0\<rparr>" using s1 by (auto simp: variant_ready_def split: if_splits)
    then have "flags s2 = flags s \<and> changes s2 = 0" using s2 ok by (simp add: changed_one_def catalogue_ok_def)
    then have u: "catalogue s3 = catalogue s" "approval_reviews s3 = approval_reviews s" "config_tables s3 = config_tables s"
      using 3 frame by (simp_all add: eq catalogue_def apr_eq config_tables_def)
    have "\<not> reviewRecorded app c s3" using fresh u(2) by (auto simp: reviewRecorded_def list_ex_iff rev_image_eqI)
    then have "config_tables t = config_tables s"
      using d renaming_unrecorded[of app fg v p c s3] u(3) silentD[OF silent_approvals(4)] silentD[OF silent_audits(2)]
      by (auto simp: run_statements_append ebind_eq_Inr split: prod.splits)
    moreover have "\<not> reviewed (applied_review app c) (applied_row c) s t" using reviews u(2) by (simp add: reviewed_def)
    ultimately show ?thesis
      using False kept u variant_batch_reviewed[OF run fresh] by (simp add: Inr untouched_def)
  qed
qed

section \<open>The catalogue path has no such guard\<close>

text \<open>
  The Flag was read at version 0, another writer has bumped it to 1. The approved addition of
  a Variant and the approved removal of one then happen with no Review, the version bump is
  lost, and the Request stays pending; the caller is told that nothing was applied.
\<close>

definition ctl_flag :: flag_row where
  "ctl_flag = \<lparr>fl_id = ''f'', fl_app = ''a'', fl_version = 0, fl_updatedAt = [], fl_updatedBy = None\<rparr>"

definition ctl_variant :: variant_row where
  "ctl_variant = \<lparr>vt_id = ''h'', vt_flag = ''f'', vt_name = ''off'', vt_value = ''false'', vt_description = None, vt_createdAt = []\<rparr>"

definition ctl_options :: variant_options where
  "ctl_options = \<lparr>vo_updatedAt = None, vo_updatedBy = None\<rparr>"

definition ctl_added :: db where
  "ctl_added = snd (d1_batch (catalogApprovalBatch ''a'' ctl_flag (guardedVariantInsert ''a'' ctl_variant ctl_commit)
     ctl_commit ctl_options) (cw_db ctl_asked))"

definition ctl_removed :: db where
  "ctl_removed = snd (d1_batch (approvedVariantDeleteBatch ''a'' ctl_flag (ctl_variant\<lparr>vt_id := ''c'', vt_name := ''on''\<rparr>)
     ctl_commit ctl_options) (cw_db ctl_asked))"

lemma variant_added_without_review:
  "map vt_name (flag_variants (cw_db ctl_asked)) = [''on''] \<and> map vt_name (flag_variants ctl_added) = [''on'', ''off'']
   \<and> approval_reviews ctl_added = [] \<and> map ap_status (approval_requests ctl_added) = [''pending'']
   \<and> map fl_version (flags ctl_added) = [1]"
  by code_simp

lemma variant_removed_without_review:
  "flag_variants ctl_removed = [] \<and> approval_reviews ctl_removed = []
   \<and> map ap_status (approval_requests ctl_removed) = [''pending''] \<and> map fl_version (flags ctl_removed) = [1]"
  by code_simp

text \<open>A direct update of a Variant that lost the race for the Flag version still changes the Variant.\<close>

lemma direct_variant_without_bump:
  "(let t = snd (d1_batch (variant_update_batch ''a'' ctl_flag (ctl_variant\<lparr>vt_id := ''c'', vt_name := ''on''\<rparr>)
      \<lparr>vp_name = None, vp_value = Some ''0'', vp_description = None\<rparr> ctl_options None) (cw_db ctl_asked))
    in map vt_value (flag_variants t) = [''0''] \<and> flags t = flags (cw_db ctl_asked))"
  by code_simp

section \<open>Instances\<close>

lemma hd_mapped: "map k xs = [x] \<Longrightarrow> hd xs \<in> set xs \<and> k (hd xs) = x"
  by (cases xs) auto


lemma resolution_is_final_witness:
  "hd (approval_requests (cw_db ctl_declined)) = hd (approval_requests (cw_db ctl_applied))
   \<and> ap_status (hd (approval_requests (cw_db ctl_applied))) = ''applied''"
proof -
  note a = hd_mapped[OF ctl_evaluated(8)] hd_mapped[OF ctl_evaluated(9)] hd_mapped[OF ctl_evaluated(4)]
  show ?thesis
    using resolution_is_final[OF ctl_reached(1) ctl_histories(3), of "hd (approval_requests (cw_db ctl_applied))"
        "hd (approval_requests (cw_db ctl_declined))"] a by simp
qed

lemma config_version_signals_witness:
  "place (hd (flag_configs (cw_db ctl_applied))) = place (hd (flag_configs (cw_db ctl_asked)))
   \<and> fc_version (hd (flag_configs (cw_db ctl_asked))) < fc_version (hd (flag_configs (cw_db ctl_applied)))"
proof -
  note a = hd_mapped[OF ctl_evaluated(6)] hd_mapped[OF ctl_evaluated(7)] hd_mapped[OF ctl_evaluated(1)] hd_mapped[OF ctl_evaluated(2)]
  show ?thesis
    using config_version_signals[OF ctl_histories(1,2), of "hd (flag_configs (cw_db ctl_asked))"
        "hd (flag_configs (cw_db ctl_applied))"] a by auto
qed

lemma ctl_ready:
  "configs_ok (cw_db ctl_asked)" "catalogue_ok (cw_db ctl_asked)"
  "ac_reviewId ctl_commit \<notin> rv_id ` set (approval_reviews (cw_db ctl_asked))"
  "config_ready smp_scope ''f'' 1 ctl_commit (cw_db ctl_asked)"
  by (simp add: control_history_ok[OF ctl_histories(1), unfolded control_ok_def]) code_simp+

lemma approved_config_atomic_witness:
  "config_bumped smp_scope ''f'' 1 ctl_patch (cw_db ctl_asked) (cw_db ctl_applied)
   \<and> reviewed (applied_review ''a'' ctl_commit) (applied_row ctl_commit) (cw_db ctl_asked) (cw_db ctl_applied)"
proof -
  have "case fst (d1_batch (approvedConfigBatch smp_scope ''f'' 1 ctl_patch ctl_commit) (cw_db ctl_asked)) of
      Inl _ \<Rightarrow> False | Inr _ \<Rightarrow> True" by code_simp
  then show ?thesis
    using approved_config_atomic[OF ctl_ready(1,3) prod.collapse[symmetric], of smp_scope "''f''" 1 ctl_patch] ctl_ready(4)
    by (auto simp: ctl_applied_def smp_scope_def split: sum.splits)
qed

definition ctl_rule :: rule_row where
  "ctl_rule = \<lparr>tr_id = ''k'', tr_app = [], tr_env = [], tr_flag = [], tr_priority = 1, tr_conditions = [], tr_segment = None,
     tr_variant = Some ''c'', tr_rollout = None, tr_createdAt = [], tr_updatedAt = []\<rparr>"

definition ctl_ruled :: "(sql_error + string list list) \<times> db" where
  "ctl_ruled = d1_batch (approvedRulesBatch smp_scope ''f'' 1 [ctl_rule] ctl_patch ctl_commit) (cw_db ctl_asked)"

lemma approved_rules_atomic_witness:
  "targeting_rules (snd ctl_ruled) = [rule_to_insert smp_scope ''f'' ctl_rule]
   \<and> reviewed (applied_review ''a'' ctl_commit) (applied_row ctl_commit) (cw_db ctl_asked) (snd ctl_ruled)"
proof -
  have "case fst ctl_ruled of Inl _ \<Rightarrow> False | Inr _ \<Rightarrow> True" by code_simp
  moreover have "elsewhere smp_scope ''f'' (cw_db ctl_asked) = []" by code_simp
  moreover have "d1_batch (approvedRulesBatch smp_scope ''f'' 1 [ctl_rule] ctl_patch ctl_commit) (cw_db ctl_asked)
      = (fst ctl_ruled, snd ctl_ruled)" by (simp add: ctl_ruled_def)
  ultimately show ?thesis
    using approved_rules_atomic[OF ctl_ready(1,3)] ctl_ready(4) by (fastforce simp: smp_scope_def split: sum.splits)
qed

definition ctl_updated :: "(sql_error + string list list) \<times> db" where
  "ctl_updated = d1_batch (variant_update_batch ''a'' (ctl_flag\<lparr>fl_version := 1\<rparr>) (ctl_variant\<lparr>vt_id := ''c'', vt_name := ''on''\<rparr>)
     \<lparr>vp_name = Some ''yes'', vp_value = None, vp_description = None\<rparr> ctl_options (Some ctl_commit)) (cw_db ctl_asked)"

lemma approved_variant_atomic_witness:
  "map vt_name (flag_variants (snd ctl_updated)) = [''yes'']
   \<and> reviewed (applied_review ''a'' ctl_commit) (applied_row ctl_commit) (cw_db ctl_asked) (snd ctl_updated)"
proof -
  have a: "case fst ctl_updated of Inl _ \<Rightarrow> False | Inr _ \<Rightarrow> True" by code_simp
  have b: "variant_ready ''a'' (ctl_flag\<lparr>fl_version := 1\<rparr>) (ctl_variant\<lparr>vt_id := ''c'', vt_name := ''on''\<rparr>) ctl_commit (cw_db ctl_asked)"
    by code_simp
  have c: "map vt_name (flag_variants (snd ctl_updated)) = [''yes'']" by code_simp
  have "d1_batch (variant_update_batch ''a'' (ctl_flag\<lparr>fl_version := 1\<rparr>) (ctl_variant\<lparr>vt_id := ''c'', vt_name := ''on''\<rparr>)
     \<lparr>vp_name = Some ''yes'', vp_value = None, vp_description = None\<rparr> ctl_options (Some ctl_commit)) (cw_db ctl_asked)
     = (fst ctl_updated, snd ctl_updated)" by (simp add: ctl_updated_def)
  from approved_variant_atomic[OF ctl_ready(2,3) this] a b c show ?thesis by (auto split: sum.splits)
qed

end
