(* ===== verification/Microbatch.thy ===== *)
theory Microbatch
  imports Json "HOL-Library.Word"
begin

unbundle bit_operations_syntax

text \<open>
  What every queue consumer of \<open>apps/event-ingest-api/src\<close> shares: the retry delay of
  \<open>queue-retry.ts\<close>, the bounded NDJSON bodies and the classification of Tinybird's answer of
  \<open>tinybird-microbatch.ts\<close>. JSON text of a number, \<open>Number\<close> of a string and \<open>Date.parse\<close> are
  parameters. A body and a dead-letter chunk are filled greedily; that the code's running byte
  counts do this, and that it needs the fewest chunks, is proved through one contract.
\<close>

section \<open>Filling chunks in order\<close>

text \<open>The next element joins the open chunk when the chunk stays acceptable, and opens the next one otherwise.\<close>

fun greedy :: "('a list \<Rightarrow> bool) \<Rightarrow> 'a list \<Rightarrow> 'a list \<Rightarrow> 'a list list" where
  "greedy fits cur [] = (if cur = [] then [] else [cur])"
| "greedy fits cur (x # xs) = (if cur \<noteq> [] \<and> \<not> fits (cur @ [x]) then cur # greedy fits [x] xs
     else greedy fits (cur @ [x]) xs)"

text \<open>A division of a list into consecutive acceptable chunks.\<close>

definition divides :: "('a list \<Rightarrow> bool) \<Rightarrow> 'a list list \<Rightarrow> 'a list \<Rightarrow> bool" where
  "divides fits cs xs \<longleftrightarrow> concat cs = xs \<and> list_all (\<lambda>c. c \<noteq> [] \<and> fits c) cs"

text \<open>
  The contract of a size limit: a single element always goes alone, and a part of an acceptable
  chunk is acceptable.
\<close>

locale chunk_limit =
  fixes fits :: "'a list \<Rightarrow> bool"
  assumes fits_single: "fits [x]"
    and fits_prefix: "fits (xs @ ys) \<Longrightarrow> xs \<noteq> [] \<Longrightarrow> fits xs"
    and fits_suffix: "fits (xs @ ys) \<Longrightarrow> ys \<noteq> [] \<Longrightarrow> fits ys"
begin

lemma concat_greedy: "concat (greedy fits cur xs) = cur @ xs"
  by (induction xs arbitrary: cur) auto

lemma greedy_acceptable:
  "cur = [] \<or> fits cur \<Longrightarrow> list_all (\<lambda>c. c \<noteq> [] \<and> fits c) (greedy fits cur xs)"
  by (induction xs arbitrary: cur) (auto simp: fits_single)

lemma greedy_divides: "divides fits (greedy fits [] xs) xs"
  by (simp add: divides_def concat_greedy greedy_acceptable)

lemma greedy_least:
  "\<lbrakk>concat cs = zs @ cur @ xs; list_all (\<lambda>c. c \<noteq> [] \<and> fits c) cs\<rbrakk> \<Longrightarrow>
    length (greedy fits cur xs) \<le> length cs"
proof (induction xs arbitrary: cur zs cs)
  case Nil
  then show ?case by (cases cs) auto
next
  case (Cons x xs)
  show ?case
  proof (cases "cur \<noteq> [] \<and> \<not> fits (cur @ [x])")
    case False
    then show ?thesis using Cons.IH[of cs zs "cur @ [x]"] Cons.prems by auto
  next
    case True
    from Cons.prems obtain d ds where cs: "cs = d # ds" by (cases cs) auto
    have "d @ concat ds = (zs @ cur) @ x # xs" using Cons.prems(1) by (simp add: cs)
    then consider (inside) us where "concat ds = us @ x # xs" | (across) us where "d = (zs @ cur) @ x # us"
      unfolding append_eq_append_conv2 by (metis append_Nil append_eq_Cons_conv append_Nil2)
    then show ?thesis
    proof cases
      case inside
      then have "length (greedy fits [x] xs) \<le> length ds"
        using Cons.IH[of ds us "[x]"] Cons.prems(2) by (simp add: cs)
      then show ?thesis using True by (simp add: cs)
    next
      case across
      moreover have "fits d" using Cons.prems(2) by (simp add: cs)
      ultimately have "fits ((cur @ [x]) @ us)" using fits_suffix[of zs "(cur @ [x]) @ us"] by auto
      then have "fits (cur @ [x])" using fits_prefix[of "cur @ [x]" us] by auto
      then show ?thesis using True by simp
    qed
  qed
qed

text \<open>No division into acceptable chunks has fewer of them.\<close>

lemma greedy_fewest: "divides fits cs xs \<Longrightarrow> length (greedy fits [] xs) \<le> length cs"
  using greedy_least[of cs "[]" "[]" xs] by (simp add: divides_def)

end

section \<open>Retry delays (queue-retry.ts)\<close>

definition QUEUE_MAX_RETRIES :: int where "QUEUE_MAX_RETRIES = 7"
definition RETRY_BASE_SECONDS :: int where "RETRY_BASE_SECONDS = 5"
definition RETRY_MAX_SECONDS :: int where "RETRY_MAX_SECONDS = 43200"

definition trunc :: "rat \<Rightarrow> int" where
  "trunc q = (if 0 \<le> q then \<lfloor>q\<rfloor> else \<lceil>q\<rceil>)"

fun finite_trunc :: "jsnum \<Rightarrow> int option" where
  "finite_trunc (Fin q) = Some (trunc q)"
| "finite_trunc NegZero = Some 0"
| "finite_trunc _ = None"

definition retry_attempt :: "jsnum \<Rightarrow> int" where
  "retry_attempt attempts = (case finite_trunc attempts of
     Some n \<Rightarrow> min (max n 1) QUEUE_MAX_RETRIES
   | None \<Rightarrow> 1)"

definition jitter_step :: "char \<Rightarrow> 32 word \<Rightarrow> 32 word" where
  "jitter_step c h = (h XOR of_nat (of_char c)) * 16777619"

definition jitterFraction :: "string \<Rightarrow> rat" where
  "jitterFraction messageId = fl (of_nat (unat (fold jitter_step messageId 2166136261) mod 1000) / 1000)"

definition queueRetryDelaySeconds :: "jsnum \<Rightarrow> string \<Rightarrow> int" where
  "queueRetryDelaySeconds attempts messageId =
     (let base = min (RETRY_BASE_SECONDS * 2 ^ nat (retry_attempt attempts - 1)) RETRY_MAX_SECONDS in
      min (base + \<lfloor>fl (of_int base * jitterFraction messageId)\<rfloor>) RETRY_MAX_SECONDS)"

lemma jitter_bounds: "0 \<le> jitterFraction m" "jitterFraction m \<le> fl (999 / 1000)"
proof -
  define n where "n = unat (fold jitter_step m 2166136261) mod 1000"
  have n: "n \<le> 999" unfolding n_def using mod_less_divisor[of 1000] by (simp add: less_Suc_eq_le[symmetric])
  have j: "jitterFraction m = fl (of_nat n / 1000)" by (simp add: jitterFraction_def n_def)
  show "0 \<le> jitterFraction m" by (simp add: j)
  have "(of_nat n :: rat) \<le> 999" using n by (metis of_nat_le_iff of_nat_numeral)
  then show "jitterFraction m \<le> fl (999 / 1000)" unfolding j by (intro fl_mono) simp
qed

lemma retry_attempt_bounds: "1 \<le> retry_attempt a" "retry_attempt a \<le> 7"
  by (auto simp: retry_attempt_def QUEUE_MAX_RETRIES_def split: option.splits)

lemma retry_attempt_range: "retry_attempt a \<in> {1, 2, 3, 4, 5, 6, 7}"
  using retry_attempt_bounds[of a] by auto

lemma fl_jitter_mono: "b \<le> c \<Longrightarrow> 0 \<le> b \<Longrightarrow>
    \<lfloor>fl (of_int b * jitterFraction m)\<rfloor> \<le> \<lfloor>fl (of_int c * jitterFraction m)\<rfloor>"
  by (intro floor_mono fl_mono mult_right_mono) (auto simp: jitter_bounds)

text \<open>The jitter never doubles one of the seven delays.\<close>

lemma jitter_below: 
  assumes "b \<in> {5, 10, 20, 40, 80, 160, 320}"
  shows "\<lfloor>fl (of_int b * jitterFraction m)\<rfloor> < b" "0 \<le> \<lfloor>fl (of_int b * jitterFraction m)\<rfloor>"
proof -
  have "fl (of_int b * jitterFraction m) \<le> fl (of_int b * fl (999 / 1000))"
    using assms by (intro fl_mono mult_left_mono) (auto simp: jitter_bounds)
  moreover have "list_all (\<lambda>b. fl (of_int b * fl (999 / 1000)) < of_int b) [5, 10, 20, 40, 80, 160, 320]"
    by code_simp
  then have "fl (of_int b * fl (999 / 1000)) < of_int b" using assms by auto
  ultimately show "\<lfloor>fl (of_int b * jitterFraction m)\<rfloor> < b" by (simp add: floor_less_iff)
  have "0 \<le> of_int b * jitterFraction m" using assms by (intro mult_nonneg_nonneg) (auto simp: jitter_bounds)
  then show "0 \<le> \<lfloor>fl (of_int b * jitterFraction m)\<rfloor>" by simp
qed

definition retry_base :: "int \<Rightarrow> int" where
  "retry_base k = 5 * 2 ^ nat (k - 1)"

lemma retry_base_mem: "k \<in> {1, 2, 3, 4, 5, 6, 7} \<Longrightarrow> retry_base k \<in> {5, 10, 20, 40, 80, 160, 320}"
  by (auto simp: retry_base_def)

lemma retry_delay_eq:
  "queueRetryDelaySeconds a m = retry_base (retry_attempt a)
     + \<lfloor>fl (of_int (retry_base (retry_attempt a)) * jitterFraction m)\<rfloor>"
proof -
  define b where "b = retry_base (retry_attempt a)"
  have b: "b \<in> {5, 10, 20, 40, 80, 160, 320}"
    unfolding b_def by (rule retry_base_mem[OF retry_attempt_range])
  have "min (5 * 2 ^ nat (retry_attempt a - 1)) 43200 = b" using b by (auto simp: b_def retry_base_def)
  moreover have "b + \<lfloor>fl (of_int b * jitterFraction m)\<rfloor> \<le> 43200" using jitter_below(1)[OF b, of m] b by auto
  ultimately show ?thesis
    unfolding queueRetryDelaySeconds_def RETRY_BASE_SECONDS_def RETRY_MAX_SECONDS_def b_def
    by (simp add: Let_def)
qed

lemma retry_delay_bounds: "retry_base (retry_attempt a) \<le> queueRetryDelaySeconds a m"
  "queueRetryDelaySeconds a m < 2 * retry_base (retry_attempt a)"
  using jitter_below[OF retry_base_mem[OF retry_attempt_range], of a m] by (auto simp: retry_delay_eq)

text \<open>
  Whatever the runtime reports as the attempt, the delay lies between 5 and 639 seconds, far
  under the 86400 Cloudflare accepts, and for one message it rises with every attempt; the seven
  delays together take between 635 and 1269 seconds.
\<close>

lemma retry_delay_range: "5 \<le> queueRetryDelaySeconds a m \<and> queueRetryDelaySeconds a m < 640"
  using retry_delay_bounds[of a m] retry_base_mem[OF retry_attempt_range, of a] by auto

section \<open>JSON text and bounded bodies (tinybird-microbatch.ts)\<close>

text \<open>\<open>JSON.stringify\<close>: no text for undefined, which an object drops and an array writes as null.\<close>

fun json_text :: "(rat \<Rightarrow> string) \<Rightarrow> jsval \<Rightarrow> string option" where
  "json_text num Undefined = None"
| "json_text num (JInherited k) = None"
| "json_text num Null = Some ''null''"
| "json_text num (JBool b) = Some (if b then ''true'' else ''false'')"
| "json_text num (JNum x) = Some (case x of Fin q \<Rightarrow> num q | NegZero \<Rightarrow> ''0'' | _ \<Rightarrow> ''null'')"
| "json_text num (JStr s) = Some (json_string s)"
| "json_text num (JArr vs) = Some (''['' @ join '','' (map (\<lambda>v. nullish (json_text num v) ''null'') vs) @ '']'')"
| "json_text num (JObj ps) = Some (''{'' @ join '','' (concat (map (\<lambda>p. case json_text num (snd p) of
     None \<Rightarrow> [] | Some t \<Rightarrow> [json_string (fst p) @ '':'' @ t]) ps)) @ ''}'')"

text \<open>A row of a datasource: the properties of a JavaScript object.\<close>

type_synonym event_row = "(string \<times> jsval) list"

definition row_text :: "(rat \<Rightarrow> string) \<Rightarrow> event_row \<Rightarrow> string" where
  "row_text num row = nullish (json_text num (JObj row)) []"

definition byteLength :: "string \<Rightarrow> nat" where
  "byteLength s = length (utf8 s)"

definition NDJSON_MAX_BYTES :: nat where "NDJSON_MAX_BYTES = 5 * 1024 * 1024"
definition MAX_DELIVERY_ATTEMPTS :: nat where "MAX_DELIVERY_ATTEMPTS = 8"

definition newline :: string where "newline = [CHR 0x0A]"

record 'i ndjson_batch =
  nb_body :: string
  nb_items :: "'i list"

text \<open>The loop of \<open>ndjsonBatches\<close>: finished bodies, the open body with its tracked size, its items.\<close>

fun ndjson_loop :: "('i \<Rightarrow> string) \<Rightarrow> 'i list \<Rightarrow> string \<Rightarrow> nat \<Rightarrow> 'i list \<Rightarrow> 'i ndjson_batch list" where
  "ndjson_loop line_of [] body bodyBytes current =
     (if current = [] then [] else [\<lparr>nb_body = body, nb_items = current\<rparr>])"
| "ndjson_loop line_of (item # items) body bodyBytes current =
     (let l = line_of item; addition = (if current = [] then l else newline @ l);
          additionBytes = byteLength addition in
      if current \<noteq> [] \<and> NDJSON_MAX_BYTES < bodyBytes + additionBytes
      then \<lparr>nb_body = body, nb_items = current\<rparr> # ndjson_loop line_of items l (byteLength l) [item]
      else ndjson_loop line_of items (body @ addition) (bodyBytes + additionBytes) (current @ [item]))"

definition ndjsonBatches :: "(rat \<Rightarrow> string) \<Rightarrow> ('i \<Rightarrow> event_row) \<Rightarrow> 'i list \<Rightarrow> 'i ndjson_batch list" where
  "ndjsonBatches num toRow items = ndjson_loop (\<lambda>i. row_text num (toRow i)) items [] 0 []"

definition body_text :: "('i \<Rightarrow> string) \<Rightarrow> 'i list \<Rightarrow> string" where
  "body_text line_of items = join newline (map line_of items)"

definition body_fits :: "('i \<Rightarrow> string) \<Rightarrow> 'i list \<Rightarrow> bool" where
  "body_fits line_of items \<longleftrightarrow> length items \<le> 1 \<or> byteLength (body_text line_of items) \<le> NDJSON_MAX_BYTES"

lemma byteLength_append [simp]: "byteLength (a @ b) = byteLength a + byteLength b"
  by (simp add: byteLength_def utf8_def)

lemma join_append: "xs \<noteq> [] \<Longrightarrow> ys \<noteq> [] \<Longrightarrow> join sep (xs @ ys) = join sep xs @ sep @ join sep ys"
proof (induction sep xs rule: join.induct)
  case (2 sep w)
  then show ?case by (cases ys) auto
qed auto

lemma body_text_append: "xs \<noteq> [] \<Longrightarrow> ys \<noteq> [] \<Longrightarrow>
    body_text f (xs @ ys) = body_text f xs @ newline @ body_text f ys"
  by (simp add: body_text_def join_append)

lemma body_text_simps [simp]: "body_text f [] = []" "body_text f [x] = f x"
  by (simp_all add: body_text_def)

lemma body_text_le: "byteLength (body_text f xs) \<le> byteLength (body_text f (xs @ ys))"
  "byteLength (body_text f ys) \<le> byteLength (body_text f (xs @ ys))"
  by (cases "xs = []"; cases "ys = []"; simp add: body_text_append byteLength_def utf8_def)+

interpretation ndjson: chunk_limit "body_fits line_of" for line_of :: "'i \<Rightarrow> string"
proof unfold_locales
  fix x :: 'i and xs ys :: "'i list"
  show "body_fits line_of [x]" by (simp add: body_fits_def)
  show "body_fits line_of xs" if "body_fits line_of (xs @ ys)"
    using that body_text_le(1)[of line_of xs ys] by (auto simp: body_fits_def)
  show "body_fits line_of ys" if "body_fits line_of (xs @ ys)"
    using that body_text_le(2)[of line_of ys xs] by (auto simp: body_fits_def)
qed

definition bounded_body :: "('i \<Rightarrow> string) \<Rightarrow> 'i list \<Rightarrow> 'i ndjson_batch" where
  "bounded_body line_of items = \<lparr>nb_body = body_text line_of items, nb_items = items\<rparr>"

text \<open>The tracked size is the size of the open body, so the loop is the greedy filling.\<close>

lemma ndjson_loop_greedy:
  "ndjson_loop f items (body_text f cur) (byteLength (body_text f cur)) cur
     = map (bounded_body f) (greedy (body_fits f) cur items)"
proof (induction items arbitrary: cur)
  case (Cons item items)
  show ?case
  proof (cases "cur = []")
    case True
    then show ?thesis using Cons.IH[of "[item]"] by (simp add: byteLength_def utf8_def)
  next
    case False
    have len: "byteLength (body_text f cur) + byteLength (newline @ f item) = byteLength (body_text f (cur @ [item]))"
      using False by (simp add: body_text_append)
    show ?thesis
      using False Cons.IH[of "[item]"] Cons.IH[of "cur @ [item]"] len
      by (simp add: Let_def body_fits_def bounded_body_def body_text_append add.assoc Suc_le_eq)
  qed
qed (simp add: bounded_body_def)

lemma ndjsonBatches_greedy: "ndjsonBatches num toRow items =
    map (bounded_body (\<lambda>i. row_text num (toRow i))) (greedy (body_fits (\<lambda>i. row_text num (toRow i))) [] items)"
  unfolding ndjsonBatches_def using ndjson_loop_greedy[of "\<lambda>i. row_text num (toRow i)" items "[]"]
  by (simp add: byteLength_def utf8_def)

section \<open>Tinybird's answer (tinybird-microbatch.ts)\<close>

datatype delivery_outcome = Delivered int | Retryable string "int option" | Indeterminate string | Poison string

text \<open>The parts of a response the code reads; \<open>hr_body\<close> is None when \<open>json()\<close> throws.\<close>

record http_response =
  hr_status :: nat
  hr_retry_after :: "string option"
  hr_body :: "jsval option"

text \<open>What \<open>fetch\<close> gives: a response, or an error with its description.\<close>

datatype fetched = Responded http_response | NoResponse string

text \<open>\<open>Number\<close> and \<open>Date.parse\<close> of a string (None is NaN), the number format of \<open>JSON.stringify\<close>.\<close>

record js_host =
  h_number :: "string \<Rightarrow> jsnum"
  h_dateParse :: "string \<Rightarrow> ms option"
  h_num :: "rat \<Rightarrow> string"

fun js_integer :: "jsval \<Rightarrow> int option" where
  "js_integer (JNum (Fin q)) = (if of_int \<lfloor>q\<rfloor> = q then Some \<lfloor>q\<rfloor> else None)"
| "js_integer (JNum NegZero) = Some 0"
| "js_integer _ = None"

definition retryAfterSeconds :: "js_host \<Rightarrow> ms \<Rightarrow> http_response \<Rightarrow> int option" where
  "retryAfterSeconds h now r = (case hr_retry_after r of
     None \<Rightarrow> None
   | Some header \<Rightarrow>
       if header = [] then None
       else case js_integer (JNum (h_number h header)) of
         Some n \<Rightarrow> if 0 \<le> n then Some n else map_option (\<lambda>d. max 0 \<lceil>fl (of_int (d - now) / 1000)\<rceil>) (h_dateParse h header)
       | None \<Rightarrow> map_option (\<lambda>d. max 0 \<lceil>fl (of_int (d - now) / 1000)\<rceil>) (h_dateParse h header))"

definition readCommit :: "http_response \<Rightarrow> (int \<times> int) option" where
  "readCommit r = (case hr_body r of
     None \<Rightarrow> None
   | Some v \<Rightarrow> if \<not> is_object v then None
       else case (js_integer (jprop v ''successful_rows''), js_integer (jprop v ''quarantined_rows'')) of
         (Some s, Some q) \<Rightarrow> Some (s, q)
       | _ \<Rightarrow> None)"

definition show_int :: "int \<Rightarrow> string" where
  "show_int n = (if n < 0 then ''-'' @ show_nat (nat (- n)) else show_nat (nat n))"

definition classifyCommit :: "(int \<times> int) option \<Rightarrow> nat \<Rightarrow> delivery_outcome" where
  "classifyCommit commit rowCount = (case commit of
     None \<Rightarrow> Indeterminate ''Tinybird returned an unreadable commit body''
   | Some (successfulRows, quarantinedRows) \<Rightarrow>
       if 0 < quarantinedRows then Poison (''Tinybird quarantined '' @ show_int quarantinedRows @ '' rows'')
       else if successfulRows \<noteq> int rowCount
       then Poison (''Tinybird committed '' @ show_int successfulRows @ '' of '' @ show_nat rowCount @ '' rows'')
       else Delivered successfulRows)"

definition classifyResponse :: "js_host \<Rightarrow> ms \<Rightarrow> http_response \<Rightarrow> nat \<Rightarrow> delivery_outcome" where
  "classifyResponse h now r rowCount =
     (if hr_status r = 422 then Indeterminate ''Tinybird returned HTTP 422''
      else if hr_status r \<in> {429, 500, 503}
      then Retryable (''Tinybird returned HTTP '' @ show_nat (hr_status r)) (retryAfterSeconds h now r)
      else if \<not> (200 \<le> hr_status r \<and> hr_status r \<le> 299)
      then Poison (''Tinybird returned HTTP '' @ show_nat (hr_status r))
      else classifyCommit (readCommit r) rowCount)"

definition sendNdjsonBatch :: "js_host \<Rightarrow> ms \<Rightarrow> fetched \<Rightarrow> nat \<Rightarrow> delivery_outcome" where
  "sendNdjsonBatch h now f rowCount = (case f of
     NoResponse e \<Rightarrow> Indeterminate (''no response: '' @ e)
   | Responded r \<Rightarrow> classifyResponse h now r rowCount)"

lemma delivered_means_committed:
  assumes "sendNdjsonBatch h now f n = Delivered m"
  obtains r where "f = Responded r" "200 \<le> hr_status r" "hr_status r \<le> 299"
    "readCommit r = Some (int n, 0) \<or> (\<exists>q < 0. readCommit r = Some (int n, q))" "m = int n"
  using assms
  by (auto simp: sendNdjsonBatch_def classifyResponse_def classifyCommit_def
      split: fetched.splits if_splits option.splits prod.splits) fastforce

lemma retryable_statuses: "sendNdjsonBatch h now f n = Retryable why after \<Longrightarrow>
    \<exists>r. f = Responded r \<and> hr_status r \<in> {429, 500, 503}"
  by (auto simp: sendNdjsonBatch_def classifyResponse_def classifyCommit_def
      split: fetched.splits if_splits option.splits prod.splits)

section \<open>Properties\<close>

text \<open>
  C0: A consumer batch becomes the fewest request bodies. The bodies carry exactly the items, in
  order, none empty; each is its items' JSON lines joined by newlines, and one that carries more
  than one item has at most 5 MiB; and no way of cutting the items at row boundaries into bodies
  within that bound needs fewer.
\<close>

lemma ndjson_bodies_bounded_and_fewest:
  assumes "f = (\<lambda>i. row_text num (toRow i))"
  shows "concat (map nb_items (ndjsonBatches num toRow items)) = items"
    "\<forall>b\<in>set (ndjsonBatches num toRow items). nb_items b \<noteq> [] \<and> nb_body b = body_text f (nb_items b)
       \<and> (1 < length (nb_items b) \<longrightarrow> byteLength (nb_body b) \<le> NDJSON_MAX_BYTES)"
    "divides (body_fits f) cs items \<Longrightarrow> length (ndjsonBatches num toRow items) \<le> length cs"
proof -
  have eq: "ndjsonBatches num toRow items = map (bounded_body f) (greedy (body_fits f) [] items)"
    by (simp add: assms ndjsonBatches_greedy)
  show "concat (map nb_items (ndjsonBatches num toRow items)) = items"
    using ndjson.greedy_divides[of f items] by (simp add: eq divides_def bounded_body_def comp_def)
  show "\<forall>b\<in>set (ndjsonBatches num toRow items). nb_items b \<noteq> [] \<and> nb_body b = body_text f (nb_items b)
       \<and> (1 < length (nb_items b) \<longrightarrow> byteLength (nb_body b) \<le> NDJSON_MAX_BYTES)"
    using ndjson.greedy_divides[of f items]
    by (auto simp: eq divides_def bounded_body_def body_fits_def list_all_iff)
  show "length (ndjsonBatches num toRow items) \<le> length cs" if "divides (body_fits f) cs items"
    using ndjson.greedy_fewest[OF that] by (simp add: eq)
qed

text \<open>
  C0: The delays between the deliveries of a message. Each lies between 5 and 639 seconds, also
  for an attempt number that is not finite or out of range; for the attempts 1 to 7 of one
  message it rises strictly; and the seven together take at least 635 and at most 1269 seconds.
\<close>

lemma retry_delays_rise_and_stay_bounded:
  "5 \<le> queueRetryDelaySeconds a m" "queueRetryDelaySeconds a m < 640"
  "i \<in> {1..6} \<Longrightarrow> queueRetryDelaySeconds (Fin (of_int i)) m < queueRetryDelaySeconds (Fin (of_int (i + 1))) m"
  "635 \<le> (\<Sum>i\<leftarrow>[1..7]. queueRetryDelaySeconds (Fin (of_int i)) m)"
  "(\<Sum>i\<leftarrow>[1..7]. queueRetryDelaySeconds (Fin (of_int i)) m) < 1270"
proof -
  have att: "retry_attempt (Fin (of_int i)) = i" if "i \<in> {1..7}" for i
    using that by (simp add: retry_attempt_def trunc_def QUEUE_MAX_RETRIES_def)
  show "5 \<le> queueRetryDelaySeconds a m" "queueRetryDelaySeconds a m < 640"
    using retry_delay_range[of a m] by auto
  show "queueRetryDelaySeconds (Fin (of_int i)) m < queueRetryDelaySeconds (Fin (of_int (i + 1))) m"
    if i: "i \<in> {1..6}"
  proof -
    have b: "2 * retry_base i = retry_base (i + 1)"
      using i by (simp add: retry_base_def nat_add_distrib nat_diff_distrib' Suc_nat_eq_nat_zadd1 flip: power_Suc)
    have "queueRetryDelaySeconds (Fin (of_int i)) m < 2 * retry_base i"
      using retry_delay_bounds(2)[of "Fin (of_int i)" m] att[of i] i by simp
    also have "\<dots> \<le> queueRetryDelaySeconds (Fin (of_int (i + 1))) m"
      using retry_delay_bounds(1)[of "Fin (of_int (i + 1))" m] att[of "i + 1"] i by (simp add: b)
    finally show ?thesis .
  qed
  have each: "retry_base i \<le> queueRetryDelaySeconds (Fin (of_int i)) m"
    "queueRetryDelaySeconds (Fin (of_int i)) m \<le> 2 * retry_base i - 1" if "i \<in> {1..7}" for i
    using retry_delay_bounds[of "Fin (of_int i)" m] att[OF that] by simp_all
  have seven: "[1..7] = [1, 2, 3, 4, 5, 6, 7 :: int]" by code_simp
  have "(\<Sum>i\<leftarrow>[1..7]. retry_base i) \<le> (\<Sum>i\<leftarrow>[1..7]. queueRetryDelaySeconds (Fin (of_int i)) m)"
    by (intro sum_list_mono) (auto intro: each)
  then show "635 \<le> (\<Sum>i\<leftarrow>[1..7]. queueRetryDelaySeconds (Fin (of_int i)) m)"
    by (simp add: seven retry_base_def)
  have "(\<Sum>i\<leftarrow>[1..7]. queueRetryDelaySeconds (Fin (of_int i)) m) \<le> (\<Sum>i\<leftarrow>[1..7]. 2 * retry_base i - 1)"
    by (intro sum_list_mono each(2)) auto
  then show "(\<Sum>i\<leftarrow>[1..7]. queueRetryDelaySeconds (Fin (of_int i)) m) < 1270"
    by (simp add: seven retry_base_def)
qed

end
