(* ===== verification/MetricOutbox.thy ===== *)
theory MetricOutbox
  imports Microbatch
begin

text \<open>
  The Metric Event outbox of \<open>apps/event-ingest-api/src\<close>: one Durable Object per dedup key, whose
  single record is the idempotency claim, the canonical row, the state of its publication to the
  queue and the write-ahead record of its delivery to Tinybird
  (\<open>metric-event-outbox.ts\<close>, \<open>metric-event-outbox-state.ts\<close>, \<open>metric-event-delivery-attempt.ts\<close>).
  A request touches storage only and is one step; the alarm awaits the queues, so it is a first
  part and a resumption per send. What a handler wrote before it threw stays written.
\<close>

section \<open>The delivery attempt (metric-event-delivery-attempt.ts)\<close>

datatype delivery_state = Attempting | RetryableState | DeliveredState | IndeterminateState
  | PoisonPending | PoisonTransferred

datatype copy_progress = CopyStarting string | CopyJob string

record delivery_attempt =
  at_id :: string
  at_state :: delivery_state
  at_attempts :: nat
  at_reason :: "string option"
  at_reconciliation :: "copy_progress option"

definition BLOCKS_DELETION :: "delivery_state list" where
  "BLOCKS_DELETION = [Attempting, IndeterminateState, PoisonPending]"

fun state_name :: "delivery_state \<Rightarrow> string" where
  "state_name Attempting = ''attempting''"
| "state_name RetryableState = ''retryable''"
| "state_name DeliveredState = ''delivered''"
| "state_name IndeterminateState = ''indeterminate''"
| "state_name PoisonPending = ''poison_pending''"
| "state_name PoisonTransferred = ''poison_transferred''"

definition isUnresolved :: "delivery_attempt option \<Rightarrow> bool" where
  "isUnresolved a = (case a of None \<Rightarrow> False | Some a \<Rightarrow> at_state a \<in> set BLOCKS_DELETION)"

datatype begin_outcome = Claimed event_row delivery_attempt | BeginDeleted | Settled delivery_state
  | Unresolved delivery_attempt | PoisonOwed delivery_attempt

definition new_attempt :: "string \<Rightarrow> nat \<Rightarrow> delivery_attempt" where
  "new_attempt attemptId n =
     \<lparr>at_id = attemptId, at_state = Attempting, at_attempts = n, at_reason = None, at_reconciliation = None\<rparr>"

text \<open>The answer, None where the row is to be claimed, and the attempt to write, if any.\<close>

definition beginDelivery ::
  "delivery_attempt option \<Rightarrow> string \<Rightarrow> begin_outcome option \<times> delivery_attempt option" where
  "beginDelivery existing attemptId = (case existing of
     None \<Rightarrow> (None, Some (new_attempt attemptId 1))
   | Some a \<Rightarrow>
       if at_state a = DeliveredState \<or> at_state a = PoisonTransferred then (Some (Settled (at_state a)), None)
       else if at_state a = IndeterminateState then (Some (Unresolved a), None)
       else if at_state a = Attempting then (Some (Unresolved a), None)
       else if at_state a = PoisonPending then (Some (PoisonOwed a), None)
       else let attempts = at_attempts a + 1 in
         if attempts > MAX_DELIVERY_ATTEMPTS
         then let attempt = \<lparr>at_id = attemptId, at_state = PoisonPending, at_attempts = attempts,
                  at_reason = at_reason a, at_reconciliation = None\<rparr>
              in (Some (PoisonOwed attempt), Some attempt)
         else (None, Some (new_attempt attemptId attempts)))"

section \<open>The record (metric-event-outbox-state.ts)\<close>

record claim_state =
  cs_fingerprint :: string
  cs_eventDefinitionId :: string
  cs_eventDefinitionVersionId :: string
  cs_row :: "event_row option"
  cs_activationRows :: "event_row list option"
  cs_activatedRuns :: "int option"
  cs_queued :: bool
  cs_metricQueued :: bool
  cs_activationsQueued :: bool
  cs_deleted :: bool
  cs_publishing :: bool
  cs_publicationAttempts :: "nat option"
  cs_publicationRetryAt :: "ms option"
  cs_delivery :: "delivery_attempt option"
  cs_expiresAt :: "ms option"

record metric_lookup =
  ml_fingerprint :: string
  ml_eventDefinitionId :: string
  ml_eventDefinitionVersionId :: string
  ml_activatedRuns :: int

datatype claim_kind = ClaimAccepted | ClaimDuplicate | ClaimConflict

record metric_claim =
  mc_outcome :: claim_kind
  mc_eventDefinitionId :: string
  mc_eventDefinitionVersionId :: string
  mc_activatedRuns :: int

definition asMetricEventClaim :: "claim_kind \<Rightarrow> claim_state \<Rightarrow> metric_claim" where
  "asMetricEventClaim k s = \<lparr>mc_outcome = k, mc_eventDefinitionId = cs_eventDefinitionId s,
     mc_eventDefinitionVersionId = cs_eventDefinitionVersionId s,
     mc_activatedRuns = nullish (cs_activatedRuns s) 0\<rparr>"

definition asMetricEventLookup :: "claim_state \<Rightarrow> metric_lookup" where
  "asMetricEventLookup s = \<lparr>ml_fingerprint = cs_fingerprint s, ml_eventDefinitionId = cs_eventDefinitionId s,
     ml_eventDefinitionVersionId = cs_eventDefinitionVersionId s,
     ml_activatedRuns = nullish (cs_activatedRuns s) 0\<rparr>"

text \<open>\<open>/^\d{4}-\d{2}-\d{2} /\<close>, and the first space replaced by a T.\<close>

definition spaced_date :: "string \<Rightarrow> bool" where
  "spaced_date v \<longleftrightarrow> 10 < length v \<and> list_all (\<lambda>i. is_digit (v ! i)) [0, 1, 2, 3, 5, 6, 8, 9]
     \<and> v ! 4 = CHR ''-'' \<and> v ! 7 = CHR ''-'' \<and> v ! 10 = CHR '' ''"

definition metricEventReceivedAt :: "js_host \<Rightarrow> string \<Rightarrow> string + ms" where
  "metricEventReceivedAt h v =
     (case h_dateParse h (if spaced_date v then v[10 := CHR ''T''] @ ''Z'' else v) of
        None \<Rightarrow> Inl ''Metric Event claim retention timestamp is invalid''
      | Some t \<Rightarrow> Inr t)"

definition METRIC_EVENT_CLAIM_RETENTION_MS :: ms where
  "METRIC_EVENT_CLAIM_RETENTION_MS = 90 * 24 * 60 * 60 * 1000"

text \<open>Both timestamps strings, and the same instant.\<close>

definition retention_conflict :: "js_host \<Rightarrow> jsval \<Rightarrow> jsval \<Rightarrow> string + bool" where
  "retention_conflict h a b = (case (a, b) of
     (JStr x, JStr y) \<Rightarrow> ebind (metricEventReceivedAt h x) (\<lambda>s.
       ebind (metricEventReceivedAt h y) (\<lambda>t. Inr (s \<noteq> t)))
   | _ \<Rightarrow> Inr True)"

definition claimExpiresAt :: "js_host \<Rightarrow> event_row option \<Rightarrow> ms option \<Rightarrow> jsval \<Rightarrow> string + ms" where
  "claimExpiresAt h row expiresAt supplied =
     (let held = (case row of None \<Rightarrow> Undefined | Some r \<Rightarrow> jprop (JObj r) ''server_received_at'') in
      ebind (if held \<noteq> Undefined \<and> supplied \<noteq> Undefined then retention_conflict h held supplied else Inr False)
        (\<lambda>conflict.
          if conflict then Inl ''Metric Event retention timestamp conflicts with the sealed row''
          else case expiresAt of
            Some e \<Rightarrow> Inr e
          | None \<Rightarrow> (case if held \<in> {Undefined, Null} then supplied else held of
              JStr t \<Rightarrow> ebind (metricEventReceivedAt h t) (\<lambda>ms. Inr (ms + METRIC_EVENT_CLAIM_RETENTION_MS))
            | _ \<Rightarrow> Inl ''Metric Event claim has no retention timestamp'')))"

section \<open>The Durable Object (metric-event-outbox.ts)\<close>

text \<open>The storage: the record under \<open>STATE_KEY\<close> and the alarm.\<close>

record outbox_do =
  stored :: "claim_state option"
  alarm_at :: "ms option"

definition put :: "claim_state \<Rightarrow> outbox_do \<Rightarrow> outbox_do" where
  "put s d = d\<lparr>stored := Some s\<rparr>"

definition set_alarm :: "ms \<Rightarrow> outbox_do \<Rightarrow> outbox_do" where
  "set_alarm t d = d\<lparr>alarm_at := Some t\<rparr>"

type_synonym 'r handled = "(string + 'r) \<times> outbox_do"

datatype outbox_response = NotFound | BadRequest string | Refused409 string
  | LookupIs metric_lookup | ExportIs bool "event_row option" "event_row list"
  | DeliveryIs delivery_attempt | ClaimIs metric_claim | RetainedUntil ms | RetentionExpired
  | DeletedProof string | BeginIs begin_outcome | SettledIs delivery_state

definition settled_alarm :: "claim_state \<Rightarrow> bool" where
  "settled_alarm s \<longleftrightarrow> cs_queued s \<or> cs_deleted s"

definition ROW_UNAVAILABLE :: string where
  "ROW_UNAVAILABLE = ''Metric Event outbox row is unavailable''"

definition schedulePublication :: "js_host \<Rightarrow> ms \<Rightarrow> claim_state \<Rightarrow> outbox_do \<Rightarrow> unit handled" where
  "schedulePublication h now s d =
     (if settled_alarm s then (case claimExpiresAt h (cs_row s) (cs_expiresAt s) Undefined of
         Inl e \<Rightarrow> (Inl e, d)
       | Inr t \<Rightarrow> (Inr (), set_alarm t d))
      else if cs_row s = None then (Inl ROW_UNAVAILABLE, d)
      else (Inr (), set_alarm (case cs_publicationRetryAt s of None \<Rightarrow> now | Some t \<Rightarrow> max now t) d))"

definition retain :: "js_host \<Rightarrow> ms \<Rightarrow> claim_state \<Rightarrow> outbox_do \<Rightarrow> claim_state handled" where
  "retain h now s d = (if cs_expiresAt s \<noteq> None then (Inr s, d)
     else case claimExpiresAt h (cs_row s) (cs_expiresAt s) Undefined of
       Inl e \<Rightarrow> (Inl e, d)
     | Inr t \<Rightarrow> let r = s\<lparr>cs_expiresAt := Some t\<rparr> in
         (Inr r, set_alarm (if settled_alarm s then t else now) (put r d)))"

text \<open>Answering after the publication was scheduled, or with its error.\<close>

definition after_schedule ::
  "js_host \<Rightarrow> ms \<Rightarrow> claim_state \<Rightarrow> outbox_response \<Rightarrow> outbox_do \<Rightarrow> outbox_response handled" where
  "after_schedule h now s r d = (case schedulePublication h now s d of
     (Inl e, d) \<Rightarrow> (Inl e, d)
   | (Inr _, d) \<Rightarrow> (Inr r, d))"

definition lookup :: "outbox_do \<Rightarrow> outbox_response handled" where
  "lookup d = (Inr (case stored d of None \<Rightarrow> NotFound | Some s \<Rightarrow> LookupIs (asMetricEventLookup s)), d)"

definition read_outbox :: "js_host \<Rightarrow> ms \<Rightarrow> string \<Rightarrow> outbox_do \<Rightarrow> outbox_response handled" where
  "read_outbox h now path d =
     (if path = ''/lookup'' then lookup d
      else if path \<noteq> ''/export'' \<and> path \<noteq> ''/delivery'' then (Inr NotFound, d)
      else case stored d of
        None \<Rightarrow> (Inr NotFound, d)
      | Some s \<Rightarrow> (case retain h now s d of
          (Inl e, d) \<Rightarrow> (Inl e, d)
        | (Inr x, d) \<Rightarrow> after_schedule h now x
            (if path = ''/delivery''
             then case cs_delivery x of None \<Rightarrow> NotFound | Some a \<Rightarrow> DeliveryIs a
             else ExportIs (cs_deleted x) (cs_row x) (nullish (cs_activationRows x) [])) d))"

definition claim_op :: "js_host \<Rightarrow> ms \<Rightarrow> claim_state \<Rightarrow> outbox_do \<Rightarrow> outbox_response handled" where
  "claim_op h now incoming d = (case stored d of
     Some s \<Rightarrow> (case retain h now s d of
       (Inl e, d) \<Rightarrow> (Inl e, d)
     | (Inr x, d) \<Rightarrow>
         if cs_fingerprint x \<noteq> cs_fingerprint incoming then (Inr (ClaimIs (asMetricEventClaim ClaimConflict x)), d)
         else after_schedule h now x (ClaimIs (asMetricEventClaim ClaimDuplicate x)) d)
   | None \<Rightarrow> (case claimExpiresAt h (cs_row incoming) (cs_expiresAt incoming) Undefined of
       Inl e \<Rightarrow> (Inl e, d)
     | Inr t \<Rightarrow> let accepted = incoming\<lparr>cs_expiresAt := Some t\<rparr> in
         after_schedule h now accepted (ClaimIs (asMetricEventClaim ClaimAccepted accepted)) (put accepted d)))"

definition retainExisting :: "js_host \<Rightarrow> ms \<Rightarrow> jsval \<Rightarrow> outbox_do \<Rightarrow> outbox_response handled" where
  "retainExisting h now serverReceivedAt d = (case serverReceivedAt of
     JStr _ \<Rightarrow> (case stored d of
       None \<Rightarrow> (Inr NotFound, d)
     | Some s \<Rightarrow> (case claimExpiresAt h (cs_row s) (cs_expiresAt s) serverReceivedAt of
         Inl e \<Rightarrow> (Inl e, d)
       | Inr t \<Rightarrow> if t \<le> now then (Inr RetentionExpired, d\<lparr>stored := None\<rparr>)
           else (Inr (RetainedUntil t),
             set_alarm (if settled_alarm s then t else now) (put (s\<lparr>cs_expiresAt := Some t\<rparr>) d))))
   | _ \<Rightarrow> (Inr (BadRequest ''invalid Metric Event retention timestamp''), d))"

definition begin_op :: "js_host \<Rightarrow> ms \<Rightarrow> jsval \<Rightarrow> outbox_do \<Rightarrow> outbox_response handled" where
  "begin_op h now attemptId d = (case attemptId of
     JStr i \<Rightarrow> if i = [] then (Inr (BadRequest ''invalid delivery attempt id''), d) else (case stored d of
       None \<Rightarrow> (Inl ''Metric Event outbox has no record for a queued delivery'', d)
     | Some s \<Rightarrow> (case retain h now s d of
         (Inl e, d) \<Rightarrow> (Inl e, d)
       | (Inr x, d) \<Rightarrow>
           if cs_deleted x then (Inr (BeginIs BeginDeleted), d)
           else (case beginDelivery (cs_delivery x) i of (outcome, next_attempt) \<Rightarrow>
             let d = (case next_attempt of None \<Rightarrow> d | Some a \<Rightarrow> put (x\<lparr>cs_delivery := Some a\<rparr>) d) in
             case outcome of
               Some r \<Rightarrow> (Inr (BeginIs r), d)
             | None \<Rightarrow> (case (cs_row x, next_attempt) of
                 (None, _) \<Rightarrow> (Inl ROW_UNAVAILABLE, d)
               | (Some r, None) \<Rightarrow> (Inl ''Metric Event outbox claimed a delivery without recording an attempt'', d)
               | (Some r, Some a) \<Rightarrow> (Inr (BeginIs (Claimed r a)), d)))))
   | _ \<Rightarrow> (Inr (BadRequest ''invalid delivery attempt id''), d))"

definition settle_op :: "delivery_attempt \<Rightarrow> outbox_do \<Rightarrow> outbox_response handled" where
  "settle_op attempt d = (case stored d of
     None \<Rightarrow> (Inl ''Metric Event outbox has no record for a settled delivery'', d)
   | Some s \<Rightarrow>
       if map_option at_id (cs_delivery s) \<noteq> Some (at_id attempt)
       then (Inr (Refused409 ''delivery attempt is no longer current''), d)
       else (Inr (SettledIs (at_state attempt)), put (s\<lparr>cs_delivery := Some attempt\<rparr>) d))"

text \<open>The body of a suppression: the inventory entry of the Entity privacy authority.\<close>

record suppression =
  su_fingerprint :: jsval
  su_eventDefinitionId :: jsval
  su_eventDefinitionVersionId :: jsval
  su_serverReceivedAt :: jsval

definition tombstone :: "string \<Rightarrow> string \<Rightarrow> string \<Rightarrow> ms \<Rightarrow> claim_state" where
  "tombstone fp def ver t = \<lparr>cs_fingerprint = fp, cs_eventDefinitionId = def, cs_eventDefinitionVersionId = ver,
     cs_row = None, cs_activationRows = None, cs_activatedRuns = None, cs_queued = False,
     cs_metricQueued = False, cs_activationsQueued = False, cs_deleted = True, cs_publishing = False,
     cs_publicationAttempts = None, cs_publicationRetryAt = None, cs_delivery = None, cs_expiresAt = Some t\<rparr>"

definition suppress_op :: "js_host \<Rightarrow> suppression \<Rightarrow> outbox_do \<Rightarrow> outbox_response handled" where
  "suppress_op h i d = (case (su_fingerprint i, su_eventDefinitionId i, su_eventDefinitionVersionId i) of
     (JStr fp, JStr def, JStr ver) \<Rightarrow> (case stored d of
       Some s \<Rightarrow>
         if cs_fingerprint s \<noteq> fp then (Inr (Refused409 ''suppression claim conflicts with existing event''), d)
         else if cs_publishing s then (Inr (Refused409 ''queue publication is unresolved''), d)
         else if isUnresolved (cs_delivery s)
         then (Inr (Refused409 (''delivery attempt '' @ (case cs_delivery s of None \<Rightarrow> ''undefined''
             | Some a \<Rightarrow> state_name (at_state a)) @ '' for this event is unresolved'')), d)
         else (case claimExpiresAt h (cs_row s) (cs_expiresAt s) (su_serverReceivedAt i) of
           Inl e \<Rightarrow> (Inl e, d)
         | Inr t \<Rightarrow> (Inr (DeletedProof ''metric-event-outbox-redacted-v1''),
             set_alarm t (put (tombstone fp (cs_eventDefinitionId s) (cs_eventDefinitionVersionId s) t) d)))
     | None \<Rightarrow> (case claimExpiresAt h None None (su_serverReceivedAt i) of
           Inl e \<Rightarrow> (Inl e, d)
         | Inr t \<Rightarrow> (Inr (DeletedProof ''metric-event-outbox-redacted-v1''),
             set_alarm t (put (tombstone fp def ver t) d))))
   | _ \<Rightarrow> (Inr (BadRequest ''invalid suppression claim''), d))"

section \<open>The alarm and the publication (metric-event-outbox.ts)\<close>

datatype pending_send = MetricSend | ActivationSend

text \<open>
  A publication that awaits a send: the record as it was written when the publication started
  and the expiry the alarm computed.
\<close>

record publication =
  pb_send :: pending_send
  pb_publishing :: claim_state
  pb_expiresAt :: ms

definition requiredCurrentState :: "outbox_do \<Rightarrow> string + claim_state" where
  "requiredCurrentState d = (case stored d of
     None \<Rightarrow> Inl ''Metric Event outbox changed during queue publication''
   | Some s \<Rightarrow> if cs_deleted s then Inl ''Metric Event outbox changed during queue publication'' else Inr s)"

definition retryPublication :: "ms \<Rightarrow> claim_state \<Rightarrow> outbox_do \<Rightarrow> publication option handled" where
  "retryPublication now publishing d = (case requiredCurrentState d of
     Inl e \<Rightarrow> (Inl e, d)
   | Inr s \<Rightarrow>
       let publicationAttempts = nullish (cs_publicationAttempts publishing) 1;
           retryAt = now + queueRetryDelaySeconds (Fin (of_nat publicationAttempts)) (cs_fingerprint publishing) * 1000 in
       (Inr None, set_alarm retryAt (put (s\<lparr>cs_publishing := False,
          cs_publicationAttempts := Some publicationAttempts, cs_publicationRetryAt := Some retryAt\<rparr>) d)))"

definition finish_publication :: "ms \<Rightarrow> outbox_do \<Rightarrow> publication option handled" where
  "finish_publication expiresAt d = (case requiredCurrentState d of
     Inl e \<Rightarrow> (Inl e, d)
   | Inr s \<Rightarrow> (Inr None, set_alarm expiresAt
       (put (s\<lparr>cs_expiresAt := Some expiresAt, cs_queued := True, cs_publishing := False\<rparr>) d)))"

text \<open>From a written record on: the next send it owes, or the end.\<close>

definition publish_from :: "claim_state \<Rightarrow> claim_state \<Rightarrow> ms \<Rightarrow> outbox_do \<Rightarrow> publication option handled" where
  "publish_from publishing s expiresAt d =
     (if \<not> cs_metricQueued s then (Inr (Some \<lparr>pb_send = MetricSend, pb_publishing = publishing, pb_expiresAt = expiresAt\<rparr>), d)
      else if \<not> cs_activationsQueued s
      then (Inr (Some \<lparr>pb_send = ActivationSend, pb_publishing = publishing, pb_expiresAt = expiresAt\<rparr>), d)
      else finish_publication expiresAt d)"

definition start_publication :: "bool \<Rightarrow> claim_state \<Rightarrow> ms \<Rightarrow> outbox_do \<Rightarrow> publication option handled" where
  "start_publication queueBound s expiresAt d =
     (if cs_row s = None then (Inl ROW_UNAVAILABLE, d)
      else if \<not> queueBound then (Inl ''METRIC_EVENTS_QUEUE binding is unavailable'', d)
      else let publishing = s\<lparr>cs_expiresAt := Some expiresAt, cs_publishing := True,
               cs_publicationAttempts := Some (nullish (cs_publicationAttempts s) 0 + 1)\<rparr> in
        publish_from publishing publishing expiresAt (put publishing d))"

text \<open>The send that was awaited came back: accepted by the queue, or thrown.\<close>

definition resume_publication :: "ms \<Rightarrow> publication \<Rightarrow> bool \<Rightarrow> outbox_do \<Rightarrow> publication option handled" where
  "resume_publication now p sent d =
     (if \<not> sent then retryPublication now (pb_publishing p) d
      else case requiredCurrentState d of
        Inl e \<Rightarrow> retryPublication now (pb_publishing p) d
      | Inr s \<Rightarrow>
          (case pb_send p of
             MetricSend \<Rightarrow> let s' = s\<lparr>cs_metricQueued := True\<rparr> in
               publish_from (pb_publishing p) s' (pb_expiresAt p) (put s' d)
           | ActivationSend \<Rightarrow> finish_publication (pb_expiresAt p) (put (s\<lparr>cs_activationsQueued := True\<rparr>) d)))"

text \<open>The alarm, which the platform has taken out of storage by the time it runs.\<close>

definition alarm_op :: "js_host \<Rightarrow> bool \<Rightarrow> ms \<Rightarrow> outbox_do \<Rightarrow> publication option handled" where
  "alarm_op h queueBound now d = (case stored d of
     None \<Rightarrow> (Inr None, d)
   | Some s \<Rightarrow> (case claimExpiresAt h (cs_row s) (cs_expiresAt s) Undefined of
       Inl e \<Rightarrow> (Inl e, d)
     | Inr t \<Rightarrow>
         let d = (if cs_expiresAt s = None then put (s\<lparr>cs_expiresAt := Some t\<rparr>) d else d) in
         if t \<le> now then (Inr None, d\<lparr>stored := None\<rparr>)
         else if settled_alarm s then (Inr None, set_alarm t d)
         else (case cs_publicationRetryAt s of
           Some r \<Rightarrow> if now < r then (Inr None, set_alarm r d) else start_publication queueBound s t d
         | None \<Rightarrow> start_publication queueBound s t d)))"

end
