(* ===== verification/MetricQueue.thy ===== *)
theory MetricQueue
  imports MetricOutbox
begin

text \<open>
  The Metric Event queue consumer of \<open>apps/event-ingest-api/src\<close>: admission and delivery of a
  batch (\<open>metric-event-batch-delivery.ts\<close>), the dead-letter copy (\<open>metric-event-dead-letter.ts\<close>),
  the hand-over to reconciliation (\<open>metric-event-reconciliation.ts\<close>) and the acknowledgement of
  the messages (\<open>metric-event-queue.ts\<close>). The services one invocation calls answer through
  \<open>consumer_services\<close>; a message is known by its place in the batch, and what the runtime is told
  about it is a verdict.
\<close>

section \<open>Messages, admission (metric-event-batch-delivery.ts)\<close>

record queue_message =
  qm_id :: string
  qm_attempts :: nat
  qm_body :: event_row

datatype verdict = Ack | RetryIn int

record admitted_row =
  ar_message :: queue_message
  ar_dedupKey :: string
  ar_row :: event_row
  ar_attempt :: delivery_attempt

text \<open>A message whose delivery failed for good, or is unresolved.\<close>

record held_message =
  hm_message :: queue_message
  hm_dedupKey :: string
  hm_attempt :: delivery_attempt
  hm_reason :: string

datatype admission = Send admitted_row | AckOnly string | Recover delivery_attempt string string

text \<open>
  What the services answer during one invocation: the configuration error, the privacy authority,
  the outbox's begin and settle, the upstream request of one body, and the two hand-over queues.
\<close>

record consumer_services =
  sv_config_error :: "string option"
  sv_url_error :: "string option"
  sv_privacy :: "queue_message \<Rightarrow> string + bool"
  sv_begin :: "queue_message \<Rightarrow> string \<Rightarrow> string + begin_outcome"
  sv_fetch :: "string \<Rightarrow> fetched"
  sv_settle :: "queue_message \<Rightarrow> delivery_attempt \<Rightarrow> string option"
  sv_reconciliation :: "jsval list \<Rightarrow> string option"
  sv_dead_letter :: "jsval list \<Rightarrow> string option"
  sv_now :: ms

definition row_field :: "event_row \<Rightarrow> string \<Rightarrow> jsval" where
  "row_field row k = jprop (JObj row) k"

definition admit_begun :: "queue_message \<Rightarrow> string \<Rightarrow> begin_outcome \<Rightarrow> admission" where
  "admit_begun m dedupKey b = (case b of
     Claimed row attempt \<Rightarrow> Send \<lparr>ar_message = m, ar_dedupKey = dedupKey, ar_row = row, ar_attempt = attempt\<rparr>
   | BeginDeleted \<Rightarrow> AckOnly ''privacy-deleted''
   | Settled st \<Rightarrow> AckOnly (state_name st)
   | Unresolved a \<Rightarrow> Recover a dedupKey (''unresolved '' @ state_name (at_state a) @ '' attempt'')
   | PoisonOwed a \<Rightarrow> Recover a dedupKey (nullish (at_reason a) ''delivery attempts exhausted''))"

definition admitMetricEvent :: "consumer_services \<Rightarrow> queue_message \<Rightarrow> string + admission" where
  "admitMetricEvent sv m = (case row_field (qm_body m) ''dedup_key'' of
     JStr k \<Rightarrow> if k = [] then Inl ''Metric Event row has no dedup_key''
       else ebind (sv_privacy sv m) (\<lambda>suppressed.
         if suppressed then Inr (AckOnly ''privacy-suppressed'')
         else ebind (sv_begin sv m k) (\<lambda>b. Inr (admit_begun m k b)))
   | _ \<Rightarrow> Inl ''Metric Event row has no dedup_key'')"

definition exhausted :: "queue_message \<Rightarrow> bool" where
  "exhausted m \<longleftrightarrow> MAX_DELIVERY_ATTEMPTS \<le> qm_attempts m"

definition poisonInsteadOfRetry :: "delivery_outcome \<Rightarrow> delivery_outcome" where
  "poisonInsteadOfRetry r = (case r of
     Retryable why after \<Rightarrow> Poison (why @ '' on the final of '' @ show_nat MAX_DELIVERY_ATTEMPTS @ '' delivery attempts'')
   | _ \<Rightarrow> r)"

fun settledState :: "delivery_outcome \<Rightarrow> delivery_state" where
  "settledState (Delivered n) = DeliveredState"
| "settledState (Retryable why after) = RetryableState"
| "settledState (Indeterminate why) = IndeterminateState"
| "settledState (Poison why) = PoisonPending"

fun outcome_reason :: "delivery_outcome \<Rightarrow> string option" where
  "outcome_reason (Delivered n) = None"
| "outcome_reason (Retryable why after) = Some why"
| "outcome_reason (Indeterminate why) = Some why"
| "outcome_reason (Poison why) = Some why"

text \<open>The attempt as it is settled with an outcome.\<close>

definition settled_attempt :: "delivery_attempt \<Rightarrow> delivery_outcome \<Rightarrow> delivery_attempt" where
  "settled_attempt a r = a\<lparr>at_state := settledState r, at_reason := outcome_reason r\<rparr>"

text \<open>The outcome and the settlement error of every admitted row, in order.\<close>

record delivery_result =
  dr_entry :: admitted_row
  dr_outcome :: delivery_outcome
  dr_failure :: "string option"

definition settle_entry :: "consumer_services \<Rightarrow> delivery_outcome \<Rightarrow> admitted_row \<Rightarrow> delivery_result" where
  "settle_entry sv outcome e =
     (let r = if exhausted (ar_message e) then poisonInsteadOfRetry outcome else outcome in
      \<lparr>dr_entry = e, dr_outcome = r, dr_failure = sv_settle sv (ar_message e) (settled_attempt (ar_attempt e) r)\<rparr>)"

definition deliverAdmittedRows ::
  "js_host \<Rightarrow> consumer_services \<Rightarrow> admitted_row list \<Rightarrow> string + delivery_result list" where
  "deliverAdmittedRows h sv admitted = (if admitted = [] then Inr []
     else case sv_url_error sv of
       Some e \<Rightarrow> Inl e
     | None \<Rightarrow> Inr (concat (map (\<lambda>b.
         map (settle_entry sv (sendNdjsonBatch h (sv_now sv) (sv_fetch sv (nb_body b)) (length (nb_items b))))
           (nb_items b)) (ndjsonBatches (h_num h) ar_row admitted))))"

section \<open>Dead-letter copies (metric-event-dead-letter.ts)\<close>

definition DLQ_MAX_MESSAGES :: nat where "DLQ_MAX_MESSAGES = 100"
definition DLQ_MAX_BATCH_BYTES :: nat where "DLQ_MAX_BATCH_BYTES = 240000"
definition DLQ_MAX_MESSAGE_BYTES :: nat where "DLQ_MAX_MESSAGE_BYTES = 120000"

definition DEAD_LETTER_KIND :: string where
  "DEAD_LETTER_KIND = ''metric-event-delivery-failure-v1''"

definition deadLetterEnvelope :: "held_message \<Rightarrow> event_row" where
  "deadLetterEnvelope e = [(''kind'', JStr DEAD_LETTER_KIND), (''row'', JObj (qm_body (hm_message e))),
     (''failure'', JObj [(''datasource'', JStr ''metric_events''), (''dedupKey'', JStr (hm_dedupKey e)),
       (''queueMessageId'', JStr (qm_id (hm_message e))), (''attemptId'', JStr (at_id (hm_attempt e))),
       (''attempts'', JNum (Fin (of_nat (at_attempts (hm_attempt e))))), (''reason'', JStr (hm_reason e))])]"

definition envelope_bytes :: "(rat \<Rightarrow> string) \<Rightarrow> held_message \<Rightarrow> nat" where
  "envelope_bytes num e = byteLength (row_text num (deadLetterEnvelope e))"

fun dead_letter_loop ::
  "(held_message \<Rightarrow> nat) \<Rightarrow> held_message list \<Rightarrow> held_message list \<Rightarrow> nat \<Rightarrow> string + held_message list list" where
  "dead_letter_loop size_of [] current bytes = Inr (if current = [] then [] else [current])"
| "dead_letter_loop size_of (entry # rest) current bytes =
     (let sz = size_of entry in
      if DLQ_MAX_MESSAGE_BYTES < sz
      then Inl (''Metric Event dead-letter envelope exceeds '' @ show_nat DLQ_MAX_MESSAGE_BYTES @ '' bytes'')
      else let full = DLQ_MAX_MESSAGES \<le> length current \<or> DLQ_MAX_BATCH_BYTES < bytes + sz in
        if current \<noteq> [] \<and> full
        then ebind (dead_letter_loop size_of rest [entry] sz) (\<lambda>cs. Inr (current # cs))
        else dead_letter_loop size_of rest (current @ [entry]) (bytes + sz))"

definition deadLetterChunks :: "(rat \<Rightarrow> string) \<Rightarrow> held_message list \<Rightarrow> string + held_message list list" where
  "deadLetterChunks num poisoned = dead_letter_loop (envelope_bytes num) poisoned [] 0"

definition transferred_attempt :: "held_message \<Rightarrow> delivery_attempt" where
  "transferred_attempt e = (hm_attempt e)\<lparr>at_state := PoisonTransferred, at_reason := Some (hm_reason e)\<rparr>"

text \<open>The chunks one after the other, each copied and then settled; the first error ends it.\<close>

fun transfer_chunks :: "consumer_services \<Rightarrow> held_message list list \<Rightarrow> string option" where
  "transfer_chunks sv [] = None"
| "transfer_chunks sv (c # cs) = (case sv_dead_letter sv (map (\<lambda>e. JObj (deadLetterEnvelope e)) c) of
     Some e \<Rightarrow> Some e
   | None \<Rightarrow> (case List.map_filter (\<lambda>e. sv_settle sv (hm_message e) (transferred_attempt e)) c of
       e # _ \<Rightarrow> Some e
     | [] \<Rightarrow> transfer_chunks sv cs))"

definition transferToDeadLetter :: "js_host \<Rightarrow> consumer_services \<Rightarrow> held_message list \<Rightarrow> string option" where
  "transferToDeadLetter h sv poisoned = (case deadLetterChunks (h_num h) poisoned of
     Inl e \<Rightarrow> Some e
   | Inr cs \<Rightarrow> transfer_chunks sv cs)"

section \<open>Hand-over to reconciliation (metric-event-reconciliation.ts)\<close>

definition RECONCILIATION_KIND :: string where
  "RECONCILIATION_KIND = ''metric-event-reconciliation-v1''"

definition requiredString :: "event_row \<Rightarrow> string \<Rightarrow> string + string" where
  "requiredString row field = (case row_field row field of
     JStr s \<Rightarrow> if s = [] then Inl (''Metric Event reconciliation has no '' @ field) else Inr s
   | _ \<Rightarrow> Inl (''Metric Event reconciliation has no '' @ field))"

fun copy_json :: "copy_progress \<Rightarrow> jsval" where
  "copy_json (CopyStarting t) = JObj [(''kind'', JStr ''copy-starting''), (''claimedAt'', JStr t)]"
| "copy_json (CopyJob j) = JObj [(''kind'', JStr ''copy-job''), (''jobId'', JStr j)]"

definition attempt_json :: "delivery_attempt \<Rightarrow> jsval" where
  "attempt_json a = JObj ([(''attemptId'', JStr (at_id a)), (''state'', JStr (state_name (at_state a))),
     (''attempts'', JNum (Fin (of_nat (at_attempts a))))]
     @ (case at_reason a of None \<Rightarrow> [] | Some s \<Rightarrow> [(''reason'', JStr s)])
     @ (case at_reconciliation a of None \<Rightarrow> [] | Some c \<Rightarrow> [(''reconciliation'', copy_json c)]))"

definition reconciliationEnvelope :: "held_message \<Rightarrow> string + jsval" where
  "reconciliationEnvelope e = (let row = qm_body (hm_message e) in
     ebind (requiredString row ''app_id'') (\<lambda>appId.
     ebind (requiredString row ''environment_id'') (\<lambda>environmentId.
     ebind (requiredString row ''event_definition_id'') (\<lambda>eventDefinitionId.
     ebind (requiredString row ''server_received_at'') (\<lambda>serverReceivedAt.
       Inr (JObj [(''kind'', JStr RECONCILIATION_KIND), (''dedupKey'', JStr (hm_dedupKey e)),
         (''attempt'', attempt_json (hm_attempt e)), (''appId'', JStr appId),
         (''environmentId'', JStr environmentId), (''eventDefinitionId'', JStr eventDefinitionId),
         (''serverReceivedAt'', JStr serverReceivedAt)]))))))"

text \<open>One \<open>sendBatch\<close> of every envelope, then the acknowledgements; an error acknowledges none.\<close>

definition transferToReconciliation ::
  "consumer_services \<Rightarrow> held_message list \<Rightarrow> string + (queue_message \<times> verdict) list" where
  "transferToReconciliation sv unresolved = (if unresolved = [] then Inr []
     else ebind (emap reconciliationEnvelope unresolved) (\<lambda>bodies.
       case sv_reconciliation sv bodies of
         Some e \<Rightarrow> Inl e
       | None \<Rightarrow> Inr (map (\<lambda>e. (hm_message e, Ack)) unresolved)))"

section \<open>The consumer (metric-event-queue.ts)\<close>

definition metricEventRetryDelaySeconds :: "nat \<Rightarrow> string \<Rightarrow> int" where
  "metricEventRetryDelaySeconds attempts messageId = queueRetryDelaySeconds (Fin (of_nat attempts)) messageId"

definition retryMessage :: "queue_message \<Rightarrow> queue_message \<times> verdict" where
  "retryMessage m = (m, RetryIn (metricEventRetryDelaySeconds (qm_attempts m) (qm_id m)))"

definition clampDelaySeconds :: "int option \<Rightarrow> int option" where
  "clampDelaySeconds s = map_option (\<lambda>s. min (max s 0) RETRY_MAX_SECONDS) s"

text \<open>The lists one invocation fills: verdicts given, rows to send, poisoned and unresolved messages.\<close>

record intake =
  in_verdicts :: "(queue_message \<times> verdict) list"
  in_admitted :: "admitted_row list"
  in_poisoned :: "held_message list"
  in_unresolved :: "held_message list"

definition empty_intake :: intake where
  "empty_intake = \<lparr>in_verdicts = [], in_admitted = [], in_poisoned = [], in_unresolved = []\<rparr>"

definition verdict_of :: "queue_message \<times> verdict \<Rightarrow> intake \<Rightarrow> intake" where
  "verdict_of v k = k\<lparr>in_verdicts := in_verdicts k @ [v]\<rparr>"

definition collectAdmission :: "queue_message \<Rightarrow> admission \<Rightarrow> intake \<Rightarrow> intake" where
  "collectAdmission m ad k = (case ad of
     Send a \<Rightarrow> k\<lparr>in_admitted := in_admitted k @ [a]\<rparr>
   | AckOnly why \<Rightarrow> verdict_of (m, Ack) k
   | Recover a dedupKey why \<Rightarrow>
       let held = \<lparr>hm_message = m, hm_dedupKey = dedupKey, hm_attempt = a, hm_reason = why\<rparr> in
       if at_state a \<noteq> PoisonPending then k\<lparr>in_unresolved := in_unresolved k @ [held]\<rparr>
       else k\<lparr>in_poisoned := in_poisoned k @ [held]\<rparr>)"

fun collect_admissions :: "consumer_services \<Rightarrow> queue_message list \<Rightarrow> intake \<Rightarrow> intake" where
  "collect_admissions sv [] k = k"
| "collect_admissions sv (m # ms) k = collect_admissions sv ms (case admitMetricEvent sv m of
     Inl e \<Rightarrow> verdict_of (retryMessage m) k
   | Inr ad \<Rightarrow> collectAdmission m ad k)"

definition settleAdmitted :: "admitted_row \<Rightarrow> delivery_outcome \<Rightarrow> intake \<Rightarrow> intake" where
  "settleAdmitted e outcome k = (let m = ar_message e in case outcome of
     Delivered n \<Rightarrow> verdict_of (m, Ack) k
   | Retryable why after \<Rightarrow> verdict_of (m, RetryIn (nullish (clampDelaySeconds after)
       (metricEventRetryDelaySeconds (qm_attempts m) (qm_id m)))) k
   | Indeterminate why \<Rightarrow> k\<lparr>in_unresolved := in_unresolved k @ [\<lparr>hm_message = m, hm_dedupKey = ar_dedupKey e,
       hm_attempt = (ar_attempt e)\<lparr>at_state := IndeterminateState, at_reason := Some why\<rparr>, hm_reason = why\<rparr>]\<rparr>
   | Poison why \<Rightarrow> k\<lparr>in_poisoned := in_poisoned k @ [\<lparr>hm_message = m, hm_dedupKey = ar_dedupKey e,
       hm_attempt = ar_attempt e, hm_reason = why\<rparr>]\<rparr>)"

fun settleDeliveryResults :: "delivery_result list \<Rightarrow> intake \<Rightarrow> intake" where
  "settleDeliveryResults [] k = k"
| "settleDeliveryResults (r # rs) k = settleDeliveryResults rs (case dr_failure r of
     Some e \<Rightarrow> verdict_of (retryMessage (ar_message (dr_entry r))) k
   | None \<Rightarrow> settleAdmitted (dr_entry r) (dr_outcome r) k)"

definition deliver_intake :: "js_host \<Rightarrow> consumer_services \<Rightarrow> intake \<Rightarrow> intake" where
  "deliver_intake h sv k = (case deliverAdmittedRows h sv (in_admitted k) of
     Inl e \<Rightarrow> k\<lparr>in_verdicts := in_verdicts k @ map (\<lambda>a. retryMessage (ar_message a)) (in_admitted k)\<rparr>
   | Inr rs \<Rightarrow> settleDeliveryResults rs k)"

definition transferUnresolved :: "consumer_services \<Rightarrow> held_message list \<Rightarrow> (queue_message \<times> verdict) list" where
  "transferUnresolved sv unresolved = (case transferToReconciliation sv unresolved of
     Inl e \<Rightarrow> map (\<lambda>e. retryMessage (hm_message e)) unresolved
   | Inr vs \<Rightarrow> vs)"

definition transferPoisoned ::
  "js_host \<Rightarrow> consumer_services \<Rightarrow> held_message list \<Rightarrow> (queue_message \<times> verdict) list" where
  "transferPoisoned h sv poisoned = (if poisoned = [] then []
     else case transferToDeadLetter h sv poisoned of
       None \<Rightarrow> map (\<lambda>e. (hm_message e, Ack)) poisoned
     | Some e \<Rightarrow> map (\<lambda>e. retryMessage (hm_message e)) poisoned)"

definition handleMetricEventQueue ::
  "js_host \<Rightarrow> consumer_services \<Rightarrow> queue_message list \<Rightarrow> (queue_message \<times> verdict) list" where
  "handleMetricEventQueue h sv messages = (case sv_config_error sv of
     Some e \<Rightarrow> map retryMessage messages
   | None \<Rightarrow> let k = deliver_intake h sv (collect_admissions sv messages empty_intake) in
       in_verdicts k @ transferUnresolved sv (in_unresolved k) @ transferPoisoned h sv (in_poisoned k))"

section \<open>Dead-letter chunks are filled greedily\<close>

definition chunk_fits :: "(held_message \<Rightarrow> nat) \<Rightarrow> held_message list \<Rightarrow> bool" where
  "chunk_fits size_of c \<longleftrightarrow> length c \<le> 1
     \<or> length c \<le> DLQ_MAX_MESSAGES \<and> sum_list (map size_of c) \<le> DLQ_MAX_BATCH_BYTES"

interpretation dead_letter: chunk_limit "chunk_fits size_of" for size_of
  by unfold_locales (auto simp: chunk_fits_def)

lemma dead_letter_loop_greedy:
  "dead_letter_loop f xs cur (sum_list (map f cur)) =
     (if \<forall>x\<in>set xs. f x \<le> DLQ_MAX_MESSAGE_BYTES then Inr (greedy (chunk_fits f) cur xs)
      else Inl (''Metric Event dead-letter envelope exceeds '' @ show_nat DLQ_MAX_MESSAGE_BYTES @ '' bytes''))"
proof (induction xs arbitrary: cur)
  case (Cons x xs)
  have fits: "chunk_fits f (cur @ [x]) \<longleftrightarrow> cur = [] \<or> \<not> (DLQ_MAX_MESSAGES \<le> length cur
      \<or> DLQ_MAX_BATCH_BYTES < sum_list (map f cur) + f x)"
    by (auto simp: chunk_fits_def)
  show ?case using Cons.IH[of "[x]"] Cons.IH[of "cur @ [x]"] by (auto simp: Let_def fits)
qed simp

lemma deadLetterChunks_greedy: "deadLetterChunks num xs =
    (if \<forall>x\<in>set xs. envelope_bytes num x \<le> DLQ_MAX_MESSAGE_BYTES
     then Inr (greedy (chunk_fits (envelope_bytes num)) [] xs)
     else Inl (''Metric Event dead-letter envelope exceeds '' @ show_nat DLQ_MAX_MESSAGE_BYTES @ '' bytes''))"
  using dead_letter_loop_greedy[of "envelope_bytes num" xs "[]"] by (simp add: deadLetterChunks_def)

section \<open>Every message is accounted for\<close>

text \<open>The messages an intake has decided or holds, those to be sent apart.\<close>

definition held :: "intake \<Rightarrow> queue_message multiset" where
  "held k = mset (map fst (in_verdicts k)) + mset (map hm_message (in_poisoned k))
     + mset (map hm_message (in_unresolved k))"

definition to_send :: "intake \<Rightarrow> queue_message multiset" where
  "to_send k = mset (map ar_message (in_admitted k))"

lemma held_verdict [simp]: "held (verdict_of v k) = add_mset (fst v) (held k)"
  "to_send (verdict_of v k) = to_send k" "in_admitted (verdict_of v k) = in_admitted k"
  by (simp_all add: held_def to_send_def verdict_of_def)

lemma admit_begun_message: "admit_begun m k b = Send a \<Longrightarrow> ar_message a = m"
  by (cases b) (auto simp: admit_begun_def)

lemma admitted_message: "admitMetricEvent sv m = Inr (Send a) \<Longrightarrow> ar_message a = m"
  by (auto simp: admitMetricEvent_def ebind_eq_Inr intro: admit_begun_message
      split: jsval.splits if_splits)

lemma collectAdmission_accounts: "admitMetricEvent sv m = Inr ad \<Longrightarrow>
    held (collectAdmission m ad k) + to_send (collectAdmission m ad k) = add_mset m (held k + to_send k)"
  by (cases ad) (auto simp: collectAdmission_def held_def to_send_def verdict_of_def Let_def admitted_message)

lemma collect_admissions_accounts:
  "held (collect_admissions sv ms k) + to_send (collect_admissions sv ms k) = mset ms + (held k + to_send k)"
proof (induction ms arbitrary: k)
  case (Cons m ms)
  have fst_retry: "fst (retryMessage m) = m" by (simp add: retryMessage_def)
  show ?case
    using Cons.IH collectAdmission_accounts[of sv m _ k]
    by (cases "admitMetricEvent sv m") (simp_all add: fst_retry)
qed simp

lemma settleAdmitted_accounts: "held (settleAdmitted e r k) = add_mset (ar_message e) (held k)"
  by (cases r) (simp_all add: settleAdmitted_def Let_def, simp_all add: held_def)

lemma settleDeliveryResults_accounts:
  "held (settleDeliveryResults rs k) = mset (map (\<lambda>r. ar_message (dr_entry r)) rs) + held k"
proof (induction rs arbitrary: k)
  case (Cons r rs)
  have fst_retry: "fst (retryMessage m) = m" for m by (simp add: retryMessage_def)
  show ?case using Cons.IH by (cases "dr_failure r") (simp_all add: fst_retry settleAdmitted_accounts)
qed simp

lemma dr_entry_settle [simp]: "dr_entry (settle_entry sv r e) = e"
  by (simp add: settle_entry_def Let_def)

text \<open>The results name the admitted rows, each once and in order.\<close>

lemma delivered_entries:
  assumes "deliverAdmittedRows h sv admitted = Inr rs"
  shows "map dr_entry rs = admitted"
proof (cases "admitted = []")
  case False
  define bs where "bs = ndjsonBatches (h_num h) ar_row admitted"
  have "concat (map nb_items bs) = admitted"
    using ndjson.concat_greedy[of _ "[]" admitted] by (simp add: bs_def ndjsonBatches_greedy bounded_body_def comp_def)
  moreover have "map dr_entry rs = concat (map nb_items bs)"
    using assms False by (auto simp: deliverAdmittedRows_def bs_def map_concat comp_def split: option.splits)
  ultimately show ?thesis by simp
qed (use assms in \<open>simp add: deliverAdmittedRows_def\<close>)

lemma deliver_intake_accounts: "held (deliver_intake h sv k) = held k + to_send k"
proof (cases "deliverAdmittedRows h sv (in_admitted k)")
  case (Inl e)
  then show ?thesis
    by (simp add: deliver_intake_def held_def to_send_def retryMessage_def comp_def)
next
  case (Inr rs)
  have "mset (map (\<lambda>r. ar_message (dr_entry r)) rs) = to_send k"
    using delivered_entries[OF Inr] by (metis (no_types, lifting) list.map_comp comp_def map_eq_conv to_send_def)
  then show ?thesis using Inr by (simp add: deliver_intake_def settleDeliveryResults_accounts)
qed

lemma transferred_messages:
  "image_mset fst (mset (transferUnresolved sv us)) = image_mset hm_message (mset us)"
  "image_mset fst (mset (transferPoisoned h sv ps)) = image_mset hm_message (mset ps)"
proof -
  have "map fst (transferUnresolved sv us) = map hm_message us"
    by (auto simp: transferUnresolved_def transferToReconciliation_def retryMessage_def comp_def ebind_eq_Inr
        split: sum.splits if_splits option.splits)
  then show "image_mset fst (mset (transferUnresolved sv us)) = image_mset hm_message (mset us)"
    by (metis mset_map)
  have "map fst (transferPoisoned h sv ps) = map hm_message ps"
    by (auto simp: transferPoisoned_def retryMessage_def comp_def split: option.splits)
  then show "image_mset fst (mset (transferPoisoned h sv ps)) = image_mset hm_message (mset ps)"
    by (metis mset_map)
qed

section \<open>What an acknowledgement rests on\<close>

definition reported :: "consumer_services \<Rightarrow> held_message \<Rightarrow> bool" where
  "reported sv e \<longleftrightarrow> (\<exists>bodies body. reconciliationEnvelope e = Inr body \<and> body \<in> set bodies
     \<and> sv_reconciliation sv bodies = None)"

definition dead_lettered :: "consumer_services \<Rightarrow> held_message \<Rightarrow> bool" where
  "dead_lettered sv e \<longleftrightarrow> sv_settle sv (hm_message e) (transferred_attempt e) = None
     \<and> (\<exists>c. e \<in> set c \<and> sv_dead_letter sv (map (\<lambda>e. JObj (deadLetterEnvelope e)) c) = None)"

text \<open>
  The message is suppressed or settled by its record, or delivered and recorded so, or its
  envelope is in the reconciliation queue, or its copy is in the dead-letter queue and recorded.
\<close>

definition ack_safe :: "consumer_services \<Rightarrow> queue_message \<Rightarrow> bool" where
  "ack_safe sv m \<longleftrightarrow> (\<exists>why. admitMetricEvent sv m = Inr (AckOnly why))
     \<or> (\<exists>a n. admitMetricEvent sv m = Inr (Send a)
          \<and> sv_settle sv m (settled_attempt (ar_attempt a) (Delivered n)) = None)
     \<or> (\<exists>e. hm_message e = m \<and> (reported sv e \<or> dead_lettered sv e))"

definition intake_safe :: "consumer_services \<Rightarrow> intake \<Rightarrow> bool" where
  "intake_safe sv k \<longleftrightarrow> (\<forall>m. (m, Ack) \<in> set (in_verdicts k) \<longrightarrow> ack_safe sv m)
     \<and> (\<forall>a\<in>set (in_admitted k). admitMetricEvent sv (ar_message a) = Inr (Send a))"

lemma intake_safe_retry: "intake_safe sv k \<Longrightarrow> intake_safe sv (verdict_of (m, RetryIn n) k)"
  by (auto simp: intake_safe_def verdict_of_def)

lemma intake_safe_ack: "intake_safe sv k \<Longrightarrow> ack_safe sv m \<Longrightarrow> intake_safe sv (verdict_of (m, Ack) k)"
  by (auto simp: intake_safe_def verdict_of_def)

lemma intake_safe_holds: "intake_safe sv k \<Longrightarrow> intake_safe sv (k\<lparr>in_poisoned := ps\<rparr>)"
  "intake_safe sv k \<Longrightarrow> intake_safe sv (k\<lparr>in_unresolved := ps\<rparr>)"
  by (auto simp: intake_safe_def)

lemma collectAdmission_safe: "\<lbrakk>intake_safe sv k; admitMetricEvent sv m = Inr ad\<rbrakk> \<Longrightarrow>
    intake_safe sv (collectAdmission m ad k)"
proof (cases ad)
  case (Send a)
  assume "intake_safe sv k" "admitMetricEvent sv m = Inr ad"
  then show ?thesis using admitted_message[of sv m a] Send
    by (auto simp: collectAdmission_def intake_safe_def)
next
  case (AckOnly why)
  assume "intake_safe sv k" "admitMetricEvent sv m = Inr ad"
  then show ?thesis using AckOnly
    by (auto simp: collectAdmission_def ack_safe_def intro: intake_safe_ack)
qed (simp add: collectAdmission_def Let_def intake_safe_holds)

lemma collect_admissions_safe: "intake_safe sv k \<Longrightarrow> intake_safe sv (collect_admissions sv ms k)"
proof (induction ms arbitrary: k)
  case (Cons m ms)
  then show ?case
    by (cases "admitMetricEvent sv m") (auto simp: retryMessage_def intake_safe_retry intro: collectAdmission_safe)
qed simp

lemma settleAdmitted_safe:
  assumes "intake_safe sv k" "\<And>n. r = Delivered n \<Longrightarrow> ack_safe sv (ar_message e)"
  shows "intake_safe sv (settleAdmitted e r k)"
  using assms by (cases r) (auto simp: settleAdmitted_def Let_def intake_safe_retry intake_safe_holds intro: intake_safe_ack)

lemma settleDeliveryResults_safe:
  assumes "intake_safe sv k"
    "\<And>r n. r \<in> set rs \<Longrightarrow> dr_failure r = None \<Longrightarrow> dr_outcome r = Delivered n \<Longrightarrow> ack_safe sv (ar_message (dr_entry r))"
  shows "intake_safe sv (settleDeliveryResults rs k)"
  using assms
proof (induction rs arbitrary: k)
  case (Cons r rs)
  then show ?case
    by (cases "dr_failure r") (auto simp: retryMessage_def intake_safe_retry intro: settleAdmitted_safe)
qed simp

lemma delivered_results_settled: "deliverAdmittedRows h sv admitted = Inr rs \<Longrightarrow> r \<in> set rs \<Longrightarrow>
    dr_failure r = sv_settle sv (ar_message (dr_entry r)) (settled_attempt (ar_attempt (dr_entry r)) (dr_outcome r))"
  by (auto simp: deliverAdmittedRows_def settle_entry_def Let_def split: if_splits option.splits)

lemma deliver_intake_safe:
  assumes "intake_safe sv k"
  shows "intake_safe sv (deliver_intake h sv k)"
proof (cases "deliverAdmittedRows h sv (in_admitted k)")
  case (Inl e)
  then show ?thesis using assms by (auto simp: deliver_intake_def intake_safe_def retryMessage_def)
next
  case (Inr rs)
  have "ack_safe sv (ar_message (dr_entry r))"
    if r: "r \<in> set rs" "dr_failure r = None" "dr_outcome r = Delivered n" for r n
  proof -
    have "dr_entry r \<in> set (in_admitted k)"
      using r(1) unfolding delivered_entries[OF Inr, symmetric] by simp
    then have "admitMetricEvent sv (ar_message (dr_entry r)) = Inr (Send (dr_entry r))"
      using assms by (simp add: intake_safe_def)
    moreover have "sv_settle sv (ar_message (dr_entry r)) (settled_attempt (ar_attempt (dr_entry r)) (Delivered n)) = None"
      using delivered_results_settled[OF Inr r(1)] r(2,3) by simp
    ultimately show ?thesis unfolding ack_safe_def by blast
  qed
  then show ?thesis using assms Inr by (simp add: deliver_intake_def settleDeliveryResults_safe)
qed

lemma transferUnresolved_safe:
  assumes "(m, Ack) \<in> set (transferUnresolved sv us)"
  shows "ack_safe sv m"
proof -
  from assms obtain vs where vs: "transferToReconciliation sv us = Inr vs" "(m, Ack) \<in> set vs"
    by (auto simp: transferUnresolved_def retryMessage_def split: sum.splits)
  then obtain bodies e where b: "emap reconciliationEnvelope us = Inr bodies" "sv_reconciliation sv bodies = None"
      "e \<in> set us" "hm_message e = m"
    by (auto simp: transferToReconciliation_def ebind_eq_Inr split: if_splits option.splits)
  from b(1,3) obtain body where "reconciliationEnvelope e = Inr body" "body \<in> set bodies"
    unfolding emap_eq_Inr by (auto simp: list_all2_conv_all_nth in_set_conv_nth) metis
  then have "reported sv e" using b(2) by (auto simp: reported_def)
  then show ?thesis using b(4) by (auto simp: ack_safe_def)
qed

lemma map_filter_None: "List.map_filter f xs = [] \<Longrightarrow> x \<in> set xs \<Longrightarrow> f x = None"
  by (induction xs) (auto simp: List.map_filter_simps split: option.splits)

lemma transfer_chunks_safe:
  "\<lbrakk>transfer_chunks sv cs = None; e \<in> set (concat cs)\<rbrakk> \<Longrightarrow> dead_lettered sv e"
proof (induction cs)
  case (Cons c cs)
  then have c: "sv_dead_letter sv (map (\<lambda>e. JObj (deadLetterEnvelope e)) c) = None"
    "List.map_filter (\<lambda>e. sv_settle sv (hm_message e) (transferred_attempt e)) c = []"
    "transfer_chunks sv cs = None"
    by (auto split: option.splits list.splits)
  show ?case
  proof (cases "e \<in> set c")
    case True
    then show ?thesis using c(1) map_filter_None[OF c(2)] by (auto simp: dead_lettered_def)
  next
    case False
    then show ?thesis using Cons c(3) by simp
  qed
qed simp

lemma transferPoisoned_safe:
  assumes "(m, Ack) \<in> set (transferPoisoned h sv ps)"
  shows "ack_safe sv m"
proof -
  from assms obtain e where e: "e \<in> set ps" "hm_message e = m" and t: "transferToDeadLetter h sv ps = None"
    by (auto simp: transferPoisoned_def retryMessage_def split: if_splits option.splits)
  from t obtain cs where cs: "deadLetterChunks (h_num h) ps = Inr cs" "transfer_chunks sv cs = None"
    by (auto simp: transferToDeadLetter_def split: sum.splits)
  have "concat cs = ps"
    using cs(1) dead_letter.concat_greedy[of "envelope_bytes (h_num h)" "[]" ps]
    by (simp add: deadLetterChunks_greedy split: if_splits)
  then have "dead_lettered sv e" using transfer_chunks_safe[OF cs(2)] e(1) by simp
  then show ?thesis using e(2) by (auto simp: ack_safe_def)
qed

section \<open>Properties\<close>

text \<open>
  C0: The consumer answers every message of a batch exactly once, whatever fails, and it
  acknowledges a message only when nothing more is owed to it: its event is suppressed or already
  settled by its record, or was delivered and recorded as delivered, or its envelope was accepted
  by the reconciliation queue, or its dead-letter copy was accepted and recorded. Everything else
  is handed back for a retry.
\<close>

lemma every_message_answered_safely:
  "mset (map fst (handleMetricEventQueue h sv messages)) = mset messages"
  "(m, Ack) \<in> set (handleMetricEventQueue h sv messages) \<Longrightarrow> ack_safe sv m"
proof -
  define k where "k = deliver_intake h sv (collect_admissions sv messages empty_intake)"
  have fst_retry: "fst (retryMessage m) = m" for m by (simp add: retryMessage_def)
  have "held k = mset messages"
    using collect_admissions_accounts[of sv messages empty_intake]
    by (simp add: k_def deliver_intake_accounts, simp add: held_def to_send_def empty_intake_def)
  then show "mset (map fst (handleMetricEventQueue h sv messages)) = mset messages"
    by (cases "sv_config_error sv")
      (simp_all add: handleMetricEventQueue_def k_def[symmetric] Let_def fst_retry comp_def held_def
        transferred_messages ac_simps)
  have "intake_safe sv empty_intake" by (simp add: intake_safe_def empty_intake_def)
  then have "intake_safe sv k" unfolding k_def by (intro deliver_intake_safe collect_admissions_safe)
  then show "ack_safe sv m" if "(m, Ack) \<in> set (handleMetricEventQueue h sv messages)"
    using that transferUnresolved_safe[of m sv] transferPoisoned_safe[of m h sv]
    by (auto simp: handleMetricEventQueue_def k_def[symmetric] Let_def retryMessage_def intake_safe_def
        split: option.splits)
qed

text \<open>
  The poisoned messages of a batch are copied in the fewest chunks: an envelope over 120000 bytes
  is refused before anything is sent, and otherwise the chunks are the messages in order, each
  within 100 messages and 240000 bytes, and no other division within those ceilings has fewer.
\<close>

lemma dead_letter_chunks_fit_and_fewest:
  assumes "deadLetterChunks num poisoned = Inr cs"
  shows "concat cs = poisoned" "c \<in> set cs \<Longrightarrow> c \<noteq> [] \<and> length c \<le> DLQ_MAX_MESSAGES
      \<and> sum_list (map (envelope_bytes num) c) \<le> DLQ_MAX_BATCH_BYTES"
    "divides (chunk_fits (envelope_bytes num)) ds poisoned \<Longrightarrow> length cs \<le> length ds"
proof -
  have small: "\<forall>x\<in>set poisoned. envelope_bytes num x \<le> DLQ_MAX_MESSAGE_BYTES"
    and cs: "cs = greedy (chunk_fits (envelope_bytes num)) [] poisoned"
    using assms by (auto simp: deadLetterChunks_greedy split: if_splits)
  have d: "divides (chunk_fits (envelope_bytes num)) cs poisoned"
    unfolding cs by (rule dead_letter.greedy_divides)
  then show "concat cs = poisoned" by (simp add: divides_def)
  show "c \<noteq> [] \<and> length c \<le> DLQ_MAX_MESSAGES \<and> sum_list (map (envelope_bytes num) c) \<le> DLQ_MAX_BATCH_BYTES"
    if c: "c \<in> set cs"
  proof -
    have fits: "c \<noteq> []" "chunk_fits (envelope_bytes num) c" "set c \<subseteq> set poisoned"
      using d c by (auto simp: divides_def list_all_iff)
    show ?thesis
    proof (cases "length c \<le> 1")
      case True
      then obtain x where "c = [x]" using fits(1) by (cases c) auto
      then show ?thesis using small fits(3)
        by (force simp: DLQ_MAX_MESSAGES_def DLQ_MAX_MESSAGE_BYTES_def DLQ_MAX_BATCH_BYTES_def)
    qed (use fits in \<open>simp add: chunk_fits_def\<close>)
  qed
  show "length cs \<le> length ds" if "divides (chunk_fits (envelope_bytes num)) ds poisoned"
    unfolding cs using that by (rule dead_letter.greedy_fewest)
qed

end
