(* ===== verification/MetricReconcile.thy ===== *)
theory MetricReconcile
  imports MetricQueue
begin

text \<open>
  The reconciliation consumer of \<open>apps/event-ingest-api/src/metric-event-reconciliation.ts\<close>: what
  became of a delivery attempt whose answer was ambiguous is read back from Tinybird. Raw rows
  with aggregate state prove the commit; raw rows alone start one Copy job, written ahead to the
  attempt; nothing proves absence, so the message is retried. The reads and writes of one message
  answer through \<open>reconcile_services\<close>, and its writes and Copy requests are the list of effects.
\<close>

section \<open>Envelopes\<close>

record reconciliation_envelope =
  re_dedupKey :: string
  re_attempt :: delivery_attempt

definition js_string :: "jsval \<Rightarrow> bool" where
  "js_string v = (case v of JStr s \<Rightarrow> True | _ \<Rightarrow> False)"

definition js_number :: "jsval \<Rightarrow> bool" where
  "js_number v = (case v of JNum n \<Rightarrow> True | _ \<Rightarrow> False)"

definition parseReconciliationEnvelope :: "event_row \<Rightarrow> string + event_row" where
  "parseReconciliationEnvelope v = (let attempt = row_field v ''attempt'' in
     if row_field v ''kind'' \<noteq> JStr RECONCILIATION_KIND \<or> \<not> is_record attempt
        \<or> \<not> js_string (jprop attempt ''attemptId'') \<or> \<not> js_string (jprop attempt ''state'')
        \<or> \<not> js_number (jprop attempt ''attempts'')
     then Inl ''Metric Event reconciliation envelope is invalid''
     else ebind (emap (requiredString v)
         [''dedupKey'', ''appId'', ''environmentId'', ''eventDefinitionId'', ''serverReceivedAt'']) (\<lambda>_. Inr v))"

text \<open>Reading the attempt of a parsed envelope, which the code casts.\<close>

definition state_of_name :: "string \<Rightarrow> delivery_state option" where
  "state_of_name s = map_of [(state_name st, st). st \<leftarrow> [Attempting, RetryableState, DeliveredState,
     IndeterminateState, PoisonPending, PoisonTransferred]] s"

definition js_opt_string :: "jsval \<Rightarrow> string option" where
  "js_opt_string v = (case v of JStr s \<Rightarrow> Some s | _ \<Rightarrow> None)"

definition copy_of_json :: "jsval \<Rightarrow> copy_progress option" where
  "copy_of_json v = (if jprop v ''kind'' = JStr ''copy-starting''
     then map_option CopyStarting (js_opt_string (jprop v ''claimedAt''))
     else if jprop v ''kind'' = JStr ''copy-job''
     then map_option CopyJob (js_opt_string (jprop v ''jobId'')) else None)"

definition attempt_of_json :: "jsval \<Rightarrow> delivery_attempt option" where
  "attempt_of_json v = (case (jprop v ''attemptId'', js_opt_string (jprop v ''state''), js_integer (jprop v ''attempts'')) of
     (JStr i, Some st, Some n) \<Rightarrow> map_option (\<lambda>st. \<lparr>at_id = i, at_state = st, at_attempts = nat n,
       at_reason = js_opt_string (jprop v ''reason''), at_reconciliation = copy_of_json (jprop v ''reconciliation'')\<rparr>)
       (state_of_name st)
   | _ \<Rightarrow> None)"

section \<open>Tinybird's evidence\<close>

datatype reconciliation_outcome = CommittedRows | AbsentRows | CopyPending

definition classifyEvidence :: "nat \<times> nat \<Rightarrow> string + reconciliation_outcome" where
  "classifyEvidence e = (case e of (rawRows, stateRows) \<Rightarrow>
     if 0 < rawRows \<and> 0 < stateRows then Inr CommittedRows
     else if rawRows = 0 \<and> stateRows = 0 then Inr AbsentRows
     else Inl (''Tinybird reconciliation returned mixed evidence raw='' @ show_nat rawRows @ '' state='' @ show_nat stateRows))"

definition response_ok :: "http_response \<Rightarrow> bool" where
  "response_ok r \<longleftrightarrow> 200 \<le> hr_status r \<and> hr_status r \<le> 299"

definition response_json :: "http_response \<Rightarrow> string + jsval" where
  "response_json r = (case hr_body r of None \<Rightarrow> Inl ''malformed JSON'' | Some v \<Rightarrow> Inr v)"

text \<open>\<open>fetch\<close> here throws its error; an answer other than 2xx is an error too.\<close>

definition fetched_json :: "string \<Rightarrow> fetched \<Rightarrow> string + jsval" where
  "fetched_json what f = (case f of
     NoResponse e \<Rightarrow> Inl e
   | Responded r \<Rightarrow> if response_ok r then response_json r
       else Inl (''Tinybird '' @ what @ '' returned HTTP '' @ show_nat (hr_status r)))"

definition readEvidence :: "fetched \<Rightarrow> string + nat \<times> nat" where
  "readEvidence f = ebind (fetched_json ''reconciliation'' f) (\<lambda>body. case jprop body ''data'' of
     JArr [d] \<Rightarrow> if \<not> is_record d then Inl ''Tinybird reconciliation returned a malformed result''
       else (case (js_integer (jprop d ''raw_rows''), js_integer (jprop d ''state_rows'')) of
         (Some raw, Some state) \<Rightarrow> if raw < 0 \<or> state < 0 then Inl ''Tinybird reconciliation returned invalid row counts''
           else Inr (nat raw, nat state)
       | _ \<Rightarrow> Inl ''Tinybird reconciliation returned invalid row counts'')
   | _ \<Rightarrow> Inl ''Tinybird reconciliation returned a malformed result'')"

definition startStatePopulate :: "fetched \<Rightarrow> string + string" where
  "startStatePopulate f = ebind (fetched_json ''state populate'' f) (\<lambda>body. case jprop body ''job'' of
     JObj job \<Rightarrow> (case jprop (JObj job) ''job_id'' of
       JStr j \<Rightarrow> if j = [] then Inl ''Tinybird state populate returned no job id'' else Inr j
     | _ \<Rightarrow> Inl ''Tinybird state populate returned no job id'')
   | _ \<Rightarrow> Inl ''Tinybird state populate returned no job id'')"

definition readCopyJobStatus :: "string \<Rightarrow> fetched \<Rightarrow> string + bool" where
  "readCopyJobStatus jobId f = ebind (fetched_json ''Copy job'' f) (\<lambda>body.
     let status = jprop body ''status'' in
     if status = JStr ''done'' then Inr True
     else if status = JStr ''waiting'' \<or> status = JStr ''working'' then Inr False
     else if status = JStr ''error'' then Inl (''Tinybird Copy job '' @ jobId @ '' failed'')
     else Inl ''Tinybird Copy job returned an invalid status'')"

section \<open>One message\<close>

record reconcile_services =
  rs_evidence :: fetched
  rs_current :: "string + delivery_attempt option"
  rs_settle :: "delivery_attempt \<Rightarrow> string option"
  rs_claimedAt :: string
  rs_copy :: fetched
  rs_job :: "string \<Rightarrow> fetched"
  rs_evidence_after :: fetched

datatype reconcile_effect = SettleWrite delivery_attempt | CopyRequest

text \<open>An attempt to write: the effect, and the error that ends the message if it was refused.\<close>

definition settle_effect :: "reconcile_services \<Rightarrow> delivery_attempt \<Rightarrow>
    (string + 'a) \<times> reconcile_effect list \<Rightarrow> (string + 'a) \<times> reconcile_effect list" where
  "settle_effect sv a k = (case rs_settle sv a of
     Some e \<Rightarrow> (Inl e, [SettleWrite a])
   | None \<Rightarrow> (fst k, SettleWrite a # snd k))"

definition currentAttempt :: "reconcile_services \<Rightarrow> reconciliation_envelope \<Rightarrow> string + delivery_attempt" where
  "currentAttempt sv v = ebind (rs_current sv) (\<lambda>c. case c of
     None \<Rightarrow> Inl ''Metric Event reconciliation has no delivery attempt''
   | Some a \<Rightarrow> if at_id a \<noteq> at_id (re_attempt v)
       then Inl ''Metric Event reconciliation attempt is no longer current'' else Inr a)"

definition copy_claim :: "string \<Rightarrow> delivery_attempt \<Rightarrow> delivery_attempt" where
  "copy_claim t a = a\<lparr>at_reconciliation := Some (CopyStarting t)\<rparr>"

definition copy_recorded :: "string \<Rightarrow> delivery_attempt \<Rightarrow> delivery_attempt" where
  "copy_recorded job a = a\<lparr>at_reconciliation := Some (CopyJob job)\<rparr>"

text \<open>The branch that claims, requests and records a Copy job.\<close>

definition start_copy :: "reconcile_services \<Rightarrow> delivery_attempt \<Rightarrow>
    (string + reconciliation_outcome) \<times> reconcile_effect list" where
  "start_copy sv current = (let claimed = copy_claim (rs_claimedAt sv) current in
     settle_effect sv claimed (case startStatePopulate (rs_copy sv) of
         Inl e \<Rightarrow> (Inl e, [CopyRequest])
       | Inr job \<Rightarrow> (case settle_effect sv (copy_recorded job claimed) (Inr CopyPending, []) of
           (r, es) \<Rightarrow> (r, CopyRequest # es))))"

definition reconcileRawOnlyEvidence :: "reconcile_services \<Rightarrow> reconciliation_envelope \<Rightarrow>
    (string + reconciliation_outcome) \<times> reconcile_effect list" where
  "reconcileRawOnlyEvidence sv v = (case currentAttempt sv v of
     Inl e \<Rightarrow> (Inl e, [])
   | Inr current \<Rightarrow> (case at_reconciliation current of
       Some (CopyStarting t) \<Rightarrow> (Inl ''Tinybird Copy job start outcome is unresolved'', [])
     | None \<Rightarrow> start_copy sv current
     | Some (CopyJob job) \<Rightarrow> (ebind (readCopyJobStatus job (rs_job sv job)) (\<lambda>finished.
         if \<not> finished then Inr CopyPending
         else ebind (readEvidence (rs_evidence_after sv)) classifyEvidence), [])))"

definition reconcileMetricEvent :: "reconcile_services \<Rightarrow> reconciliation_envelope \<Rightarrow>
    (string + reconciliation_outcome) \<times> reconcile_effect list" where
  "reconcileMetricEvent sv v = (case readEvidence (rs_evidence sv) of
     Inl e \<Rightarrow> (Inl e, [])
   | Inr (rawRows, stateRows) \<Rightarrow>
       if 0 < rawRows \<and> stateRows = 0 then reconcileRawOnlyEvidence sv v
       else (classifyEvidence (rawRows, stateRows), []))"

definition delivered_attempt :: "delivery_attempt \<Rightarrow> delivery_attempt" where
  "delivered_attempt a = a\<lparr>at_state := DeliveredState, at_reason := None\<rparr>"

definition handleReconciliationMessage :: "reconcile_services \<Rightarrow> queue_message \<Rightarrow> reconciliation_envelope \<Rightarrow>
    verdict \<times> reconcile_effect list" where
  "handleReconciliationMessage sv m v =
     (let retry = RetryIn (metricEventRetryDelaySeconds (qm_attempts m) (qm_id m)) in
      case parseReconciliationEnvelope (qm_body m) of
        Inl e \<Rightarrow> (retry, [])
      | Inr _ \<Rightarrow> (case reconcileMetricEvent sv v of
          (Inr CommittedRows, es) \<Rightarrow>
            (case rs_settle sv (delivered_attempt (re_attempt v)) of
               None \<Rightarrow> (Ack, es @ [SettleWrite (delivered_attempt (re_attempt v))])
             | Some e \<Rightarrow> (retry, es @ [SettleWrite (delivered_attempt (re_attempt v))]))
        | (_, es) \<Rightarrow> (retry, es)))"

section \<open>Properties\<close>

lemma row_field_simps [simp]: "row_field ((k, v) # ps) j = (if k = j then v else row_field ps j)"
  "row_field [] j = Undefined"
  by (simp_all add: row_field_def)

lemma jprop_Cons: "jprop (JObj ((k, v) # ps)) j = (if k = j then v else jprop (JObj ps) j)"
  "jprop (JObj []) j = Undefined"
  by simp_all

lemma state_of_name [simp]: "state_of_name (state_name st) = Some st"
  by (cases st) (simp_all add: state_of_name_def)

lemma copy_of_json [simp]: "copy_of_json (copy_json c) = Some c"
  by (cases c) (simp_all add: copy_of_json_def js_opt_string_def)

lemma attempt_roundtrip [simp]: "attempt_of_json (attempt_json a) = Some a"
proof -
  have "js_integer (JNum (Fin (rat_of_nat n))) = Some (int n)" for n
    using floor_of_int[of "int n", where ?'a = rat] by (simp del: floor_of_int)
  then show ?thesis
    by (cases "at_reason a"; cases "at_reconciliation a")
      (simp_all add: attempt_of_json_def attempt_json_def js_opt_string_def copy_of_json_def[of Undefined] del: js_integer.simps(1))
qed

text \<open>
  C0: An envelope the consumer writes for an unresolved message is accepted by the parser of the
  reconciliation queue and carries the attempt unchanged, provided the message has a dedup key.
\<close>

lemma envelope_roundtrip:
  assumes "reconciliationEnvelope e = Inr (JObj body)" "hm_dedupKey e \<noteq> []"
  shows "parseReconciliationEnvelope body = Inr body
    \<and> attempt_of_json (row_field body ''attempt'') = Some (hm_attempt e)"
proof -
  have rs: "\<And>row f s. requiredString row f = Inr s \<Longrightarrow> s \<noteq> []"
    by (auto simp: requiredString_def split: jsval.splits if_splits)
  define row where "row = qm_body (hm_message e)"
  from assms(1) obtain a b c d where
    "requiredString row ''app_id'' = Inr a" "requiredString row ''environment_id'' = Inr b"
    "requiredString row ''event_definition_id'' = Inr c" "requiredString row ''server_received_at'' = Inr d"
    and body: "body = [(''kind'', JStr RECONCILIATION_KIND), (''dedupKey'', JStr (hm_dedupKey e)),
       (''attempt'', attempt_json (hm_attempt e)), (''appId'', JStr a), (''environmentId'', JStr b),
       (''eventDefinitionId'', JStr c), (''serverReceivedAt'', JStr d)]"
    by (auto simp: reconciliationEnvelope_def ebind_eq_Inr Let_def row_def)
  then have ids: "a \<noteq> []" "b \<noteq> []" "c \<noteq> []" "d \<noteq> []" using rs by blast+
  have "is_record (attempt_json x) \<and> js_string (jprop (attempt_json x) ''attemptId'')
      \<and> js_string (jprop (attempt_json x) ''state'') \<and> js_number (jprop (attempt_json x) ''attempts'')" for x
    by (simp add: attempt_json_def js_string_def js_number_def)
  then show ?thesis using ids assms(2)
    by (simp add: body parseReconciliationEnvelope_def Let_def requiredString_def)
qed

lemma settle_effect_effects:
  "snd (settle_effect sv a k) = SettleWrite a # (if rs_settle sv a = None then snd k else [])"
  "fst (settle_effect sv a k) = (case rs_settle sv a of None \<Rightarrow> fst k | Some e \<Rightarrow> Inl e)"
  by (auto simp: settle_effect_def split: option.splits)

lemma start_copy_effects:
  "\<exists>es. snd (start_copy sv a) = SettleWrite (copy_claim (rs_claimedAt sv) a) # es
     \<and> (es = [] \<or> rs_settle sv (copy_claim (rs_claimedAt sv) a) = None
          \<and> (\<exists>ws. es = CopyRequest # map SettleWrite ws))
     \<and> fst (start_copy sv a) \<noteq> Inr CommittedRows"
proof -
  define c where "c = copy_claim (rs_claimedAt sv) a"
  have "settle_effect sv x (Inr CopyPending, []) = (r, es) \<Longrightarrow> \<exists>ws. es = map SettleWrite ws"
    "settle_effect sv x (Inr CopyPending, []) = (r, es) \<Longrightarrow> r \<noteq> Inr CommittedRows" for x r es
    by (auto simp: settle_effect_def split: option.splits intro: exI[of _ "[_]"])
  then show ?thesis
    unfolding start_copy_def Let_def c_def[symmetric]
    by (auto simp: settle_effect_effects split: option.splits sum.splits prod.splits)
qed

lemma committed_evidence: "classifyEvidence p = Inr CommittedRows \<Longrightarrow> 0 < fst p \<and> 0 < snd p"
  by (auto simp: classifyEvidence_def split: prod.splits if_splits)

definition commit_proved :: "fetched \<Rightarrow> bool" where
  "commit_proved f \<longleftrightarrow> (\<exists>n k. readEvidence f = Inr (n, k) \<and> 0 < n \<and> 0 < k)"

lemma raw_only_committed:
  "fst (reconcileRawOnlyEvidence sv v) = Inr CommittedRows \<Longrightarrow> commit_proved (rs_evidence_after sv)"
  using start_copy_effects[of sv]
  by (auto simp: reconcileRawOnlyEvidence_def commit_proved_def ebind_eq_Inr
      dest!: committed_evidence split: sum.splits option.splits copy_progress.splits if_splits)

lemma reconcile_committed:
  "reconcileMetricEvent sv v = (Inr CommittedRows, es) \<Longrightarrow>
    commit_proved (rs_evidence sv) \<or> commit_proved (rs_evidence_after sv)"
  using raw_only_committed[of sv v]
  by (auto simp: reconcileMetricEvent_def commit_proved_def
      dest!: committed_evidence split: sum.splits prod.splits if_splits)

text \<open>
  C0: The reconciliation consumer acknowledges a message only when Tinybird showed the row with
  its aggregate state and the outbox accepted the attempt as delivered; in particular absent rows
  are never taken for a failure that may be sent again, and no message makes it write the state
  retryable. It requests a Copy job only when the outbox's current attempt is this one and names
  no Copy job yet, not even one that was only starting, and only after the outbox has accepted
  that a Copy job is starting; and it requests at most one.
\<close>

lemma reconciliation_is_guarded:
  assumes "handleReconciliationMessage sv m v = (r, es)"
  shows "r = Ack \<Longrightarrow> rs_settle sv (delivered_attempt (re_attempt v)) = None
      \<and> (commit_proved (rs_evidence sv) \<or> commit_proved (rs_evidence_after sv))"
    "CopyRequest \<in> set es \<Longrightarrow> \<exists>a ws. rs_current sv = Inr (Some a) \<and> at_id a = at_id (re_attempt v)
      \<and> at_reconciliation a = None \<and> rs_settle sv (copy_claim (rs_claimedAt sv) a) = None
      \<and> es = SettleWrite (copy_claim (rs_claimedAt sv) a) # CopyRequest # map SettleWrite ws"
proof -
  obtain o' es' where rec: "reconcileMetricEvent sv v = (o', es')" by (cases "reconcileMetricEvent sv v")
  show "r = Ack \<Longrightarrow> rs_settle sv (delivered_attempt (re_attempt v)) = None
      \<and> (commit_proved (rs_evidence sv) \<or> commit_proved (rs_evidence_after sv))"
    using assms reconcile_committed[of sv v]
    by (auto simp: handleReconciliationMessage_def rec Let_def
        split: sum.splits reconciliation_outcome.splits option.splits)
  assume req: "CopyRequest \<in> set es"
  have "CopyRequest \<in> set es'" "o' \<noteq> Inr CommittedRows \<Longrightarrow> es = es'"
    using assms req by (auto simp: handleReconciliationMessage_def rec Let_def
        split: sum.splits reconciliation_outcome.splits option.splits)
  moreover then obtain a where a: "rs_current sv = Inr (Some a)" "at_id a = at_id (re_attempt v)"
      "at_reconciliation a = None" "(o', es') = start_copy sv a"
    using rec by (auto simp: reconcileMetricEvent_def reconcileRawOnlyEvidence_def currentAttempt_def ebind_eq_Inr
        split: sum.splits prod.splits if_splits option.splits copy_progress.splits)
  ultimately show "\<exists>a ws. rs_current sv = Inr (Some a) \<and> at_id a = at_id (re_attempt v)
      \<and> at_reconciliation a = None \<and> rs_settle sv (copy_claim (rs_claimedAt sv) a) = None
      \<and> es = SettleWrite (copy_claim (rs_claimedAt sv) a) # CopyRequest # map SettleWrite ws"
    using start_copy_effects[of sv a] a(4)[symmetric] by auto
qed

end
