(* ===== verification/MetricDelivery.thy ===== *)
theory MetricDelivery
  imports MetricReconcile
begin

text \<open>
  One Metric Event from its claim to Tinybird: the outbox of its dedup key, the publication its
  alarm runs, the consumers that hold a piece of work for it, and the requests made for its row.
  Every access to the outbox is one step, and between two of them the consumers are at the
  mercy of each other: any number may hold work for the same event, in any order, and any may be
  lost. The steps are those within the 90 days the record is retained.
\<close>

section \<open>State\<close>

text \<open>What has become of a request: not decided yet, its rows are stored, or they never will be.\<close>

datatype request_state = Open | Landed | Refused

text \<open>A piece of work between two accesses to the outbox, as its consumer holds it.\<close>

datatype task = Admitted admitted_row | Flying admitted_row | Answered admitted_row delivery_outcome
  | PoisonHeld held_message | PoisonCopied held_message | Envelope held_message
  | RawOnly held_message | CopyClaim delivery_attempt | CopyAsked delivery_attempt
  | CopyNamed delivery_attempt | Proven delivery_attempt

record delivery_world =
  w_box :: outbox_do
  w_now :: ms
  w_publication :: "publication option"
  w_sent :: "pending_send list"
  w_begun :: "string list"
  w_tasks :: "task list"
  w_requests :: "(string \<times> request_state) list"

definition unclaimed :: "ms \<Rightarrow> delivery_world" where
  "unclaimed t = \<lparr>w_box = \<lparr>stored = None, alarm_at = None\<rparr>, w_now = t, w_publication = None, w_sent = [],
     w_begun = [], w_tasks = [], w_requests = []\<rparr>"

definition retained :: "delivery_world \<Rightarrow> bool" where
  "retained w \<longleftrightarrow> (case stored (w_box w) of
     None \<Rightarrow> True
   | Some s \<Rightarrow> (case cs_expiresAt s of None \<Rightarrow> True | Some t \<Rightarrow> w_now w < t))"

text \<open>What a client sends: nothing published, nothing delivered, no expiry.\<close>

definition client_claim :: "claim_state \<Rightarrow> bool" where
  "client_claim s \<longleftrightarrow> \<not> cs_queued s \<and> \<not> cs_metricQueued s \<and> \<not> cs_activationsQueued s \<and> \<not> cs_deleted s
     \<and> \<not> cs_publishing s \<and> cs_publicationAttempts s = None \<and> cs_publicationRetryAt s = None
     \<and> cs_delivery s = None \<and> cs_expiresAt s = None"

text \<open>
  Tinybird's documented answers: 429, 500 and 503 mean nothing was stored; a complete commit
  means the rows are stored; any other answer with a status but 422 comes after the request is
  decided. No response, 422 and an unreadable commit say nothing.
\<close>

definition truthful_reply :: "fetched \<Rightarrow> nat \<Rightarrow> request_state \<Rightarrow> bool" where
  "truthful_reply f n q \<longleftrightarrow> (case f of
     NoResponse e \<Rightarrow> True
   | Responded r \<Rightarrow>
       if hr_status r = 422 then True
       else if hr_status r \<in> {429, 500, 503} then q = Refused
       else if \<not> response_ok r then q \<noteq> Open
       else (case readCommit r of
         None \<Rightarrow> True
       | Some (successful, quarantined) \<Rightarrow>
           q \<noteq> Open \<and> (quarantined \<le> 0 \<and> successful = int n \<longrightarrow> q = Landed)))"

text \<open>The work an admission or an answered row leaves with its consumer.\<close>

definition intake_tasks :: "intake \<Rightarrow> task list" where
  "intake_tasks k = map Admitted (in_admitted k) @ map PoisonHeld (in_poisoned k) @ map Envelope (in_unresolved k)"

definition begun_tasks :: "queue_message \<Rightarrow> string \<Rightarrow> string + outbox_response \<Rightarrow> task list" where
  "begun_tasks m k r = (case r of
     Inr (BeginIs b) \<Rightarrow> intake_tasks (collectAdmission m (admit_begun m k b) empty_intake)
   | _ \<Rightarrow> [])"

definition settled :: "string + outbox_response \<Rightarrow> bool" where
  "settled r = (case r of Inr (SettledIs st) \<Rightarrow> True | _ \<Rightarrow> False)"

definition answered_tasks :: "admitted_row \<Rightarrow> delivery_outcome \<Rightarrow> string + outbox_response \<Rightarrow> task list" where
  "answered_tasks e out r = (if settled r then intake_tasks (settleAdmitted e out empty_intake) else [])"

text \<open>The reconciler's decision on the attempt it read.\<close>

definition copy_tasks :: "string \<Rightarrow> held_message \<Rightarrow> string + outbox_response \<Rightarrow> task list" where
  "copy_tasks t e r = (case r of
     Inr (DeliveryIs a) \<Rightarrow> if at_id a = at_id (hm_attempt e) \<and> at_reconciliation a = None
       then [CopyClaim (copy_claim t a)] else []
   | _ \<Rightarrow> [])"

text \<open>The attempt of the record is the one with this id.\<close>

definition recorded :: "string \<Rightarrow> outbox_do \<Rightarrow> bool" where
  "recorded i d \<longleftrightarrow> (case stored d of None \<Rightarrow> False | Some s \<Rightarrow> map_option at_id (cs_delivery s) = Some i)"

text \<open>The same invocation begins a second message of the event: it still holds the first, unsent.\<close>

definition holds_begun :: "string \<Rightarrow> task list \<Rightarrow> (string \<times> request_state) list \<Rightarrow> bool" where
  "holds_begun i ts rq \<longleftrightarrow> map_of rq i = None \<and> list_ex (\<lambda>t. case t of Admitted e \<Rightarrow> at_id (ar_attempt e) = i
     | PoisonHeld e \<Rightarrow> at_id (hm_attempt e) = i | _ \<Rightarrow> False) ts"

definition swap :: "task \<Rightarrow> task list \<Rightarrow> delivery_world \<Rightarrow> delivery_world" where
  "swap t news w = w\<lparr>w_tasks := news @ remove1 t (w_tasks w)\<rparr>"

text \<open>An alarm whose handler did not return is run again by the platform.\<close>

definition rearm :: "ms \<Rightarrow> outbox_do \<Rightarrow> outbox_do" where
  "rearm t d = (if alarm_at d = None then set_alarm t d else d)"

definition publication_result ::
  "ms \<Rightarrow> publication option handled \<Rightarrow> delivery_world \<Rightarrow> delivery_world" where
  "publication_result t r w = (case r of
     (Inr p, d) \<Rightarrow> w\<lparr>w_box := d, w_publication := p\<rparr>
   | (Inl e, d) \<Rightarrow> w\<lparr>w_box := rearm t d, w_publication := None\<rparr>)"

definition some_landed :: "delivery_world \<Rightarrow> bool" where
  "some_landed w \<longleftrightarrow> list_ex (\<lambda>p. snd p = Landed) (w_requests w)"

section \<open>Steps\<close>

inductive delivery_move :: "js_host \<Rightarrow> bool \<Rightarrow> delivery_world \<Rightarrow> delivery_world \<Rightarrow> bool" for h bound where
  passes: "w_now w \<le> t \<Longrightarrow> delivery_move h bound w (w\<lparr>w_now := t\<rparr>)"
| claims: "\<lbrakk>client_claim incoming; claim_op h (w_now w) incoming (w_box w) = (r, d)\<rbrakk> \<Longrightarrow>
    delivery_move h bound w (w\<lparr>w_box := d\<rparr>)"
| reads: "read_outbox h (w_now w) path (w_box w) = (r, d) \<Longrightarrow> delivery_move h bound w (w\<lparr>w_box := d\<rparr>)"
| retains: "retainExisting h (w_now w) ts (w_box w) = (r, d) \<Longrightarrow> delivery_move h bound w (w\<lparr>w_box := d\<rparr>)"
| suppresses: "suppress_op h i (w_box w) = (r, d) \<Longrightarrow> delivery_move h bound w (w\<lparr>w_box := d\<rparr>)"
| fires: "\<lbrakk>w_publication w = None; alarm_at (w_box w) = Some a; a \<le> w_now w\<rbrakk> \<Longrightarrow>
    delivery_move h bound w (publication_result t (alarm_op h bound (w_now w) ((w_box w)\<lparr>alarm_at := None\<rparr>)) w)"
| resumes: "w_publication w = Some p \<Longrightarrow>
    delivery_move h bound w (publication_result t (resume_publication (w_now w) p sent (w_box w))
      (w\<lparr>w_sent := (if sent then [pb_send p] else []) @ w_sent w\<rparr>))"
| evicts: "w_publication w = Some p \<Longrightarrow>
    delivery_move h bound w (w\<lparr>w_box := rearm t (w_box w), w_publication := None\<rparr>)"
| begins: "\<lbrakk>begin_op h (w_now w) (JStr i) (w_box w) = (r, d);
      i \<notin> set (w_begun w) \<or> holds_begun i (w_tasks w) (w_requests w)\<rbrakk> \<Longrightarrow>
    delivery_move h bound w (w\<lparr>w_box := d, w_begun := (if recorded i d then [i] else []) @ w_begun w,
      w_tasks := begun_tasks m k r @ w_tasks w\<rparr>)"
| sends: "Admitted e \<in> set (w_tasks w) \<Longrightarrow>
    delivery_move h bound w ((swap (Admitted e) [Flying e] w)
      \<lparr>w_requests := (at_id (ar_attempt e), Open) # w_requests w\<rparr>)"
| decides: "\<lbrakk>map_of (w_requests w) i = Some Open; q \<noteq> Open\<rbrakk> \<Longrightarrow>
    delivery_move h bound w (w\<lparr>w_requests := AList.update i q (w_requests w)\<rparr>)"
| answers: "\<lbrakk>Flying e \<in> set (w_tasks w); map_of (w_requests w) (at_id (ar_attempt e)) = Some q;
      truthful_reply f n q; out = sendNdjsonBatch h (w_now w) f n\<rbrakk> \<Longrightarrow>
    delivery_move h bound w (swap (Flying e)
      [Answered e (if exhausted (ar_message e) then poisonInsteadOfRetry out else out)] w)"
| settles: "\<lbrakk>Answered e out \<in> set (w_tasks w); settle_op (settled_attempt (ar_attempt e) out) (w_box w) = (r, d)\<rbrakk> \<Longrightarrow>
    delivery_move h bound w ((swap (Answered e out) (answered_tasks e out r) w)\<lparr>w_box := d\<rparr>)"
| copies: "PoisonHeld e \<in> set (w_tasks w) \<Longrightarrow> delivery_move h bound w (swap (PoisonHeld e) [PoisonCopied e] w)"
| transfers: "\<lbrakk>PoisonCopied e \<in> set (w_tasks w); settle_op (transferred_attempt e) (w_box w) = (r, d)\<rbrakk> \<Longrightarrow>
    delivery_move h bound w ((swap (PoisonCopied e) [] w)\<lparr>w_box := d\<rparr>)"
| proves: "\<lbrakk>Envelope e \<in> set (w_tasks w); some_landed w\<rbrakk> \<Longrightarrow>
    delivery_move h bound w (w\<lparr>w_tasks := Proven (hm_attempt e) # w_tasks w\<rparr>)"
| finds_raw: "\<lbrakk>Envelope e \<in> set (w_tasks w); some_landed w\<rbrakk> \<Longrightarrow>
    delivery_move h bound w (w\<lparr>w_tasks := RawOnly e # w_tasks w\<rparr>)"
| reads_current: "\<lbrakk>RawOnly e \<in> set (w_tasks w); read_outbox h (w_now w) ''/delivery'' (w_box w) = (r, d)\<rbrakk> \<Longrightarrow>
    delivery_move h bound w ((swap (RawOnly e) (copy_tasks t e r) w)\<lparr>w_box := d\<rparr>)"
| claims_copy: "\<lbrakk>CopyClaim a \<in> set (w_tasks w); settle_op a (w_box w) = (r, d)\<rbrakk> \<Longrightarrow>
    delivery_move h bound w ((swap (CopyClaim a) (if settled r then [CopyAsked a] else []) w)\<lparr>w_box := d\<rparr>)"
| names_copy: "CopyAsked a \<in> set (w_tasks w) \<Longrightarrow>
    delivery_move h bound w (swap (CopyAsked a) [CopyNamed (copy_recorded job a)] w)"
| records_copy: "\<lbrakk>CopyNamed a \<in> set (w_tasks w); settle_op a (w_box w) = (r, d)\<rbrakk> \<Longrightarrow>
    delivery_move h bound w ((swap (CopyNamed a) [] w)\<lparr>w_box := d\<rparr>)"
| confirms: "\<lbrakk>Proven a \<in> set (w_tasks w); settle_op (delivered_attempt a) (w_box w) = (r, d)\<rbrakk> \<Longrightarrow>
    delivery_move h bound w ((swap (Proven a) [] w)\<lparr>w_box := d\<rparr>)"
| loses: "t \<in> set (w_tasks w) \<Longrightarrow> delivery_move h bound w (swap t [] w)"

definition delivery_step :: "js_host \<Rightarrow> bool \<Rightarrow> delivery_world \<Rightarrow> delivery_world \<Rightarrow> bool" where
  "delivery_step h bound w w' \<longleftrightarrow> retained w \<and> delivery_move h bound w w'"

section \<open>The outbox alone\<close>

text \<open>What the delivery depends on: whether the record is deleted, and its attempt.\<close>

definition view :: "outbox_do \<Rightarrow> (bool \<times> delivery_attempt option) option" where
  "view d = map_option (\<lambda>s. (cs_deleted s, cs_delivery s)) (stored d)"

text \<open>
  The record itself: it has an expiry; deleted, it is a tombstone; otherwise it holds its row. It
  is published exactly while a publication runs or until the alarm is run again, and otherwise
  the alarm is set; what it says was queued, a queue has accepted.
\<close>

fun record_ok :: "pending_send list \<Rightarrow> publication option \<Rightarrow> ms option \<Rightarrow> claim_state \<Rightarrow> bool" where
  "record_ok sent p al s \<longleftrightarrow> cs_expiresAt s \<noteq> None
     \<and> (cs_deleted s \<longrightarrow> cs_row s = None \<and> cs_activationRows s = None \<and> cs_delivery s = None \<and> p = None)
     \<and> (\<not> cs_deleted s \<longrightarrow> cs_row s \<noteq> None)
     \<and> (p \<noteq> None \<longrightarrow> cs_publishing s)
     \<and> (p = None \<longrightarrow> al \<noteq> None)
     \<and> (cs_metricQueued s \<longrightarrow> MetricSend \<in> set sent)
     \<and> (cs_activationsQueued s \<longrightarrow> ActivationSend \<in> set sent)
     \<and> (cs_queued s \<longrightarrow> MetricSend \<in> set sent \<and> ActivationSend \<in> set sent)
     \<and> (\<forall>x. p = Some x \<and> pb_send x = ActivationSend \<longrightarrow> cs_metricQueued s)"

definition box_ok :: "pending_send list \<Rightarrow> publication option \<Rightarrow> outbox_do \<Rightarrow> bool" where
  "box_ok sent p d \<longleftrightarrow> (case stored d of None \<Rightarrow> p = None | Some s \<Rightarrow> record_ok sent p (alarm_at d) s)"

lemma view_simps [simp]: "view (d\<lparr>alarm_at := a\<rparr>) = view d" "view (set_alarm t d) = view d"
  "view (rearm t d) = view d"
  by (simp_all add: view_def set_alarm_def rearm_def)

lemma stored_simps [simp]: "stored (set_alarm t d) = stored d" "alarm_at (set_alarm t d) = Some t"
  "stored (put s d) = Some s" "alarm_at (put s d) = alarm_at d" "stored (rearm t d) = stored d"
  "alarm_at (rearm t d) \<noteq> None"
  by (simp_all add: set_alarm_def put_def rearm_def)

lemma view_put [simp]: "view (put s d) = Some (cs_deleted s, cs_delivery s)"
  by (simp add: view_def)

text \<open>A known expiry is the expiry, unless the timestamps conflict.\<close>

lemma claimExpiresAt_known: "claimExpiresAt h row (Some t) v = Inr x \<Longrightarrow> x = t"
  by (auto simp: claimExpiresAt_def ebind_eq_Inr Let_def split: if_splits)

lemma claimExpiresAt_kept [simp]: "claimExpiresAt h row (Some t) Undefined = Inr t"
  by (simp add: claimExpiresAt_def Let_def)

lemma claimExpiresAt_row: "claimExpiresAt h row None Undefined = Inr x \<Longrightarrow> row \<noteq> None"
  by (cases row) (auto simp: claimExpiresAt_def Let_def)

lemma retain_known: "cs_expiresAt s = Some t \<Longrightarrow> retain h now s d = (Inr s, d)"
  by (simp add: retain_def)

lemma schedulePublication_known:
  assumes "cs_expiresAt s = Some t" "cs_deleted s \<or> cs_row s \<noteq> None"
  shows "\<exists>a. schedulePublication h now s d = (Inr (), set_alarm a d)"
  using assms by (auto simp: schedulePublication_def settled_alarm_def)

lemma after_schedule_known:
  assumes "cs_expiresAt s = Some t" "cs_deleted s \<or> cs_row s \<noteq> None"
  shows "\<exists>a. after_schedule h now s r d = (Inr r, set_alarm a d)"
  using schedulePublication_known[OF assms, of h now d] by (auto simp: after_schedule_def)

lemma box_ok_alarm [simp]: "box_ok sent p d \<Longrightarrow> box_ok sent p (set_alarm t d)"
  by (auto simp: box_ok_def split: option.splits)

text \<open>An operation that keeps the record sound, and what the delivery sees of it.\<close>

lemma claim_box:
  assumes "box_ok sent p d" "client_claim s" "claim_op h now s d = (r, d')"
  shows "box_ok sent p d'" "view d' = view d \<or> view d = None \<and> view d' = Some (False, None)"
proof -
  have "box_ok sent p d' \<and> (view d' = view d \<or> view d = None \<and> view d' = Some (False, None))"
  proof (cases "stored d")
    case None
    show ?thesis
    proof (cases "claimExpiresAt h (cs_row s) (cs_expiresAt s) Undefined")
      case (Inl e)
      then show ?thesis using assms None by (auto simp: claim_op_def)
    next
      case (Inr t)
      then have row: "cs_row s \<noteq> None"
        using assms(2) claimExpiresAt_row[of h "cs_row s" t] by (simp add: client_claim_def)
      define x where "x = s\<lparr>cs_expiresAt := Some t\<rparr>"
      obtain a where "after_schedule h now x (ClaimIs (asMetricEventClaim ClaimAccepted x)) (put x d)
          = (Inr (ClaimIs (asMetricEventClaim ClaimAccepted x)), set_alarm a (put x d))"
        using after_schedule_known[of x t h now _ "put x d"] row by (auto simp: x_def)
      then have "d' = set_alarm a (put x d)" using assms(3) None Inr by (simp add: claim_op_def x_def Let_def)
      then show ?thesis
        using assms(1,2) None row by (auto simp: box_ok_def x_def client_claim_def view_def)
    qed
  next
    case (Some y)
    then have y: "record_ok sent p (alarm_at d) y" using assms(1) by (simp add: box_ok_def)
    then obtain t where t: "cs_expiresAt y = Some t" "cs_deleted y \<or> cs_row y \<noteq> None" by auto
    then have "\<exists>a. d' = d \<or> d' = set_alarm a d"
      using assms(3) Some after_schedule_known[OF t, of h now "ClaimIs (asMetricEventClaim ClaimDuplicate y)" d]
      by (auto simp: claim_op_def retain_known split: if_splits)
    then show ?thesis using assms(1) by auto
  qed
  then show "box_ok sent p d'" "view d' = view d \<or> view d = None \<and> view d' = Some (False, None)" by auto
qed

lemma read_box:
  assumes "box_ok sent p d" "read_outbox h now path d = (r, d')"
  shows "box_ok sent p d'" "view d' = view d"
proof -
  have "\<exists>a. d' = d \<or> d' = set_alarm a d"
  proof (cases "stored d")
    case None
    then show ?thesis using assms(2) by (auto simp: read_outbox_def lookup_def split: if_splits)
  next
    case (Some y)
    then obtain t where t: "cs_expiresAt y = Some t" "cs_deleted y \<or> cs_row y \<noteq> None"
      using assms(1) by (auto simp: box_ok_def)
    define x where "x = (if path = ''/delivery''
        then case cs_delivery y of None \<Rightarrow> NotFound | Some a \<Rightarrow> DeliveryIs a
        else ExportIs (cs_deleted y) (cs_row y) (nullish (cs_activationRows y) []))"
    obtain a where "after_schedule h now y x d = (Inr x, set_alarm a d)" using after_schedule_known[OF t] by blast
    then show ?thesis using assms(2) Some
      by (auto simp: read_outbox_def lookup_def retain_known[OF t(1)] x_def[symmetric] split: if_splits)
  qed
  then show "box_ok sent p d'" "view d' = view d" using assms(1) by auto
qed

text \<open>Reading the delivery answers with the attempt of the record.\<close>

lemma read_delivery:
  assumes "box_ok sent p d" "read_outbox h now ''/delivery'' d = (Inr (DeliveryIs a), d')"
  shows "view d = Some (False, Some a)"
proof (cases "stored d")
  case None
  then show ?thesis using assms(2) by (simp add: read_outbox_def)
next
  case (Some y)
  then obtain t where t: "cs_expiresAt y = Some t" "cs_deleted y \<or> cs_row y \<noteq> None"
    and del: "cs_deleted y \<longrightarrow> cs_delivery y = None"
    using assms(1) by (auto simp: box_ok_def)
  show ?thesis
    using assms(2) Some del after_schedule_known[OF t, of h now "case cs_delivery y of None \<Rightarrow> NotFound | Some a \<Rightarrow> DeliveryIs a" d]
    by (auto simp: read_outbox_def retain_known[OF t(1)] view_def split: option.splits)
qed

lemma retain_box:
  assumes "box_ok sent p d" "retainExisting h now ts d = (r, d')"
    "\<And>s t. stored d = Some s \<Longrightarrow> cs_expiresAt s = Some t \<Longrightarrow> now < t"
  shows "box_ok sent p d'" "view d' = view d"
proof -
  have "d' = d \<or> (\<exists>a s t. stored d = Some s \<and> d' = set_alarm a (put (s\<lparr>cs_expiresAt := Some t\<rparr>) d))"
  proof (cases "stored d")
    case None
    then show ?thesis using assms(2) by (auto simp: retainExisting_def split: jsval.splits)
  next
    case (Some y)
    then obtain t where t: "cs_expiresAt y = Some t" using assms(1) by (auto simp: box_ok_def)
    then have "now < t" using assms(3)[OF Some t] by auto
    then show ?thesis using assms(2) Some t
      by (auto simp: retainExisting_def dest!: claimExpiresAt_known split: jsval.splits sum.splits if_splits)
  qed
  then show "box_ok sent p d'" "view d' = view d" using assms(1) by (auto simp: box_ok_def view_def)
qed

lemma suppress_box:
  assumes "box_ok sent p d" "suppress_op h i d = (r, d')"
  shows "box_ok sent p d'"
    "view d' = view d \<or> view d' = Some (True, None)
       \<and> (\<forall>b a. view d = Some (b, a) \<longrightarrow> \<not> isUnresolved a)"
proof -
  have "d' = d \<or> (\<exists>t fp def ver. d' = set_alarm t (put (tombstone fp def ver t) d) \<and> p = None
      \<and> (\<forall>b a. view d = Some (b, a) \<longrightarrow> \<not> isUnresolved a))"
  proof (cases "stored d")
    case None
    then show ?thesis using assms
      by (auto simp: suppress_op_def box_ok_def view_def split: jsval.splits sum.splits)
  next
    case (Some y)
    then have "p \<noteq> None \<longrightarrow> cs_publishing y" using assms(1) by (auto simp: box_ok_def)
    then show ?thesis using assms(2) Some
      by (auto simp: suppress_op_def view_def split: jsval.splits sum.splits if_splits)
  qed
  then show "box_ok sent p d'"
    "view d' = view d \<or> view d' = Some (True, None) \<and> (\<forall>b a. view d = Some (b, a) \<longrightarrow> \<not> isUnresolved a)"
    using assms(1) by (auto simp: box_ok_def tombstone_def)
qed

text \<open>
  Beginning either changes nothing and claims nothing, or records a new attempt with this id in a
  record that had none or a retryable one; then the row is claimed, or the attempts are used up.
\<close>

definition begin_effect :: "string \<Rightarrow> string + outbox_response \<Rightarrow> (bool \<times> delivery_attempt option) option \<Rightarrow>
    (bool \<times> delivery_attempt option) option \<Rightarrow> bool" where
  "begin_effect i r v v' \<longleftrightarrow>
     v' = v \<and> (\<forall>row a. r \<noteq> Inr (BeginIs (Claimed row a)))
       \<and> (\<forall>a. r = Inr (BeginIs (PoisonOwed a)) \<longrightarrow> v = Some (False, Some a) \<and> at_state a = PoisonPending)
       \<and> (\<forall>a. r = Inr (BeginIs (Unresolved a)) \<longrightarrow> at_state a \<noteq> PoisonPending)
       \<and> (\<forall>b. r = Inr (BeginIs b) \<longrightarrow> v \<noteq> None)
     \<or> (\<exists>a row. v' = Some (False, Some a) \<and> at_id a = i
          \<and> (v = Some (False, None) \<or> (\<exists>b. v = Some (False, Some b) \<and> at_state b = RetryableState))
          \<and> (r = Inr (BeginIs (Claimed row a)) \<and> at_state a = Attempting
             \<or> r = Inr (BeginIs (PoisonOwed a)) \<and> at_state a = PoisonPending))"

lemma begin_op_eq:
  assumes "stored d = Some y" "cs_expiresAt y = Some t" "\<not> cs_deleted y" "cs_row y = Some row" "i \<noteq> []"
  shows "begin_op h now (JStr i) d = (case beginDelivery (cs_delivery y) i of (outcome, next_attempt) \<Rightarrow>
     (case (outcome, next_attempt) of
        (Some b, None) \<Rightarrow> (Inr (BeginIs b), d)
      | (Some b, Some a) \<Rightarrow> (Inr (BeginIs b), put (y\<lparr>cs_delivery := Some a\<rparr>) d)
      | (None, Some a) \<Rightarrow> (Inr (BeginIs (Claimed row a)), put (y\<lparr>cs_delivery := Some a\<rparr>) d)
      | (None, None) \<Rightarrow> (Inl ''Metric Event outbox claimed a delivery without recording an attempt'', d)))"
  using assms by (simp add: begin_op_def retain_known[OF assms(2)] split: prod.split option.split)

lemma beginDelivery_cases:
  shows "beginDelivery None i = (None, Some (new_attempt i 1))"
    "at_state a \<in> {DeliveredState, PoisonTransferred} \<Longrightarrow> beginDelivery (Some a) i = (Some (Settled (at_state a)), None)"
    "at_state a \<in> {Attempting, IndeterminateState} \<Longrightarrow> beginDelivery (Some a) i = (Some (Unresolved a), None)"
    "at_state a = PoisonPending \<Longrightarrow> beginDelivery (Some a) i = (Some (PoisonOwed a), None)"
    "at_state a = RetryableState \<Longrightarrow> \<exists>b. at_id b = i \<and> (beginDelivery (Some a) i = (None, Some b) \<and> at_state b = Attempting
       \<or> beginDelivery (Some a) i = (Some (PoisonOwed b), Some b) \<and> at_state b = PoisonPending)"
  by (auto simp: beginDelivery_def new_attempt_def Let_def)

lemma begin_box:
  assumes ok: "box_ok sent p d" and b: "begin_op h now (JStr i) d = (r, d')"
  shows "box_ok sent p d' \<and> begin_effect i r (view d) (view d')"
proof (cases "stored d")
  case None
  then have "d' = d" "\<forall>x. r \<noteq> Inr (BeginIs x)" using b by (auto simp: begin_op_def split: if_splits)
  then show ?thesis using ok by (simp add: begin_effect_def)
next
  case (Some y)
  then have y: "record_ok sent p (alarm_at d) y" using ok by (simp add: box_ok_def)
  then obtain t where t: "cs_expiresAt y = Some t" by auto
  show ?thesis
  proof (cases "i = [] \<or> cs_deleted y")
    case True
    then have "d' = d" "\<forall>x. r = Inr (BeginIs x) \<longrightarrow> x = BeginDeleted"
      using b Some by (auto simp: begin_op_def retain_known[OF t] split: if_splits)
    then show ?thesis using ok Some by (auto simp: begin_effect_def view_def)
  next
    case False
    then obtain row where row: "cs_row y = Some row" using y by auto
    have v: "view d = Some (False, cs_delivery y)" using False Some by (simp add: view_def)
    have put_ok: "box_ok sent p (put (y\<lparr>cs_delivery := Some a\<rparr>) d)"
        "view (put (y\<lparr>cs_delivery := Some a\<rparr>) d) = Some (False, Some a)" for a
      using y False by (auto simp: box_ok_def)
    note eq = begin_op_eq[OF Some t _ row, of i h now, unfolded b]
    show ?thesis
    proof (cases "cs_delivery y")
      case None
      have "at_id (new_attempt i 1) = i" "at_state (new_attempt i 1) = Attempting" by (simp_all add: new_attempt_def)
      then show ?thesis using eq False v put_ok None by (simp add: beginDelivery_cases(1) begin_effect_def)
    next
      case (Some a)
      show ?thesis
      proof (cases "at_state a = RetryableState")
        case True
        then obtain c where c: "at_id c = i" "beginDelivery (Some a) i = (None, Some c) \<and> at_state c = Attempting
            \<or> beginDelivery (Some a) i = (Some (PoisonOwed c), Some c) \<and> at_state c = PoisonPending"
          using beginDelivery_cases(5)[of a i] by blast
        then show ?thesis using eq False v put_ok Some True by (auto simp: begin_effect_def)
      next
        case nr: False
        then have "d' = d" "\<forall>row x. r \<noteq> Inr (BeginIs (Claimed row x))"
            "\<forall>x. r = Inr (BeginIs (PoisonOwed x)) \<longrightarrow> x = a \<and> at_state a = PoisonPending"
            "\<forall>x. r = Inr (BeginIs (Unresolved x)) \<longrightarrow> at_state x \<noteq> PoisonPending"
          using eq False Some by (cases "at_state a"; simp add: beginDelivery_cases)+
        then have "view d' = view d \<and> (\<forall>row a. r \<noteq> Inr (BeginIs (Claimed row a)))
            \<and> (\<forall>x. r = Inr (BeginIs (PoisonOwed x)) \<longrightarrow> view d = Some (False, Some x) \<and> at_state x = PoisonPending)
            \<and> (\<forall>x. r = Inr (BeginIs (Unresolved x)) \<longrightarrow> at_state x \<noteq> PoisonPending)
            \<and> (\<forall>b. r = Inr (BeginIs b) \<longrightarrow> view d \<noteq> None)"
          using v Some by auto
        then show ?thesis using ok \<open>d' = d\<close> unfolding begin_effect_def by blast
      qed
    qed
  qed
qed

text \<open>Settling replaces the current attempt by one with the same id, or changes nothing.\<close>

lemma settle_box:
  assumes "box_ok sent p d" "settle_op a d = (r, d')"
  shows "box_ok sent p d' \<and> (d' = d \<and> \<not> settled r
     \<or> (\<exists>b. view d = Some (False, Some b) \<and> at_id b = at_id a \<and> view d' = Some (False, Some a) \<and> settled r))"
proof (cases "stored d")
  case None
  then show ?thesis using assms by (auto simp: settle_op_def settled_def)
next
  case (Some y)
  show ?thesis
  proof (cases "map_option at_id (cs_delivery y) = Some (at_id a)")
    case False
    then have "d' = d" "\<not> settled r" using assms(2) Some by (auto simp: settle_op_def settled_def)
    then show ?thesis using assms(1) by simp
  next
    case True
    then obtain b where b: "cs_delivery y = Some b" "at_id b = at_id a" by auto
    then have "\<not> cs_deleted y" using assms(1) Some by (auto simp: box_ok_def)
    moreover have "d' = put (y\<lparr>cs_delivery := Some a\<rparr>) d" "settled r"
      using assms(2) Some True by (auto simp: settle_op_def settled_def)
    ultimately show ?thesis using assms(1) Some b by (simp add: box_ok_def view_def[of d])
  qed
qed

section \<open>The publication\<close>

lemma finish_box:
  assumes "stored d = Some s" "\<not> cs_deleted s" "cs_row s \<noteq> None" "MetricSend \<in> set sent" "ActivationSend \<in> set sent"
  shows "\<exists>d'. finish_publication t d = (Inr None, d') \<and> box_ok sent None d' \<and> view d' = view d"
  using assms by (auto simp: finish_publication_def requiredCurrentState_def box_ok_def view_def)

lemma publish_box:
  assumes "stored d = Some s" "record_ok sent (Some q) al s" "\<not> cs_deleted s"
  shows "\<exists>p d'. publish_from pb s t d = (Inr p, d') \<and> box_ok sent p d' \<and> view d' = view d"
proof (cases "cs_metricQueued s \<and> cs_activationsQueued s")
  case True
  then show ?thesis using assms finish_box[of d s sent t] by (auto simp: publish_from_def)
next
  case False
  then show ?thesis using assms by (cases "cs_metricQueued s") (simp_all add: publish_from_def box_ok_def)
qed

lemma resume_box:
  assumes ok: "box_ok sent (Some p) d" and sent'_def: "sent' = (if accepted then [pb_send p] else []) @ sent"
  shows "\<exists>p' d'. resume_publication now p accepted d = (Inr p', d') \<and> box_ok sent' p' d' \<and> view d' = view d"
proof -
  from ok obtain s where s: "stored d = Some s" and rec: "record_ok sent (Some p) (alarm_at d) s"
    by (auto simp: box_ok_def split: option.splits)
  then have del: "\<not> cs_deleted s" by auto
  then have cur: "requiredCurrentState d = Inr s" by (simp add: requiredCurrentState_def s)
  show ?thesis
  proof (cases accepted)
    case False
    then show ?thesis using rec del s
      by (simp add: resume_publication_def retryPublication_def cur Let_def sent'_def box_ok_def view_def)
  next
    case acc: True
    show ?thesis
    proof (cases "pb_send p")
      case MetricSend
      define x where "x = s\<lparr>cs_metricQueued := True\<rparr>"
      define q where "q = \<lparr>pb_send = MetricSend, pb_publishing = s, pb_expiresAt = 0\<rparr>"
      have "record_ok sent' (Some q) (alarm_at d) x" "\<not> cs_deleted x"
        using rec del MetricSend acc by (auto simp: x_def q_def sent'_def)
      then obtain p' d' where "publish_from (pb_publishing p) x (pb_expiresAt p) (put x d) = (Inr p', d')"
          "box_ok sent' p' d'" "view d' = view (put x d)"
        using publish_box[where d = "put x d" and t = "pb_expiresAt p" and pb = "pb_publishing p"]
        by (metis stored_simps(3))
      moreover have "view (put x d) = view d" by (simp add: x_def view_def s)
      ultimately show ?thesis using acc MetricSend by (simp add: resume_publication_def cur x_def Let_def)
    next
      case ActivationSend
      define x where "x = s\<lparr>cs_activationsQueued := True\<rparr>"
      have "MetricSend \<in> set sent'" "ActivationSend \<in> set sent'"
        using rec del ActivationSend acc by (auto simp: sent'_def)
      then obtain d' where "finish_publication (pb_expiresAt p) (put x d) = (Inr None, d')"
          "box_ok sent' None d'" "view d' = view (put x d)"
        using finish_box[of "put x d" x sent' "pb_expiresAt p"] rec del by (auto simp: x_def)
      moreover have "view (put x d) = view d" by (simp add: x_def view_def s)
      ultimately show ?thesis using acc ActivationSend by (simp add: resume_publication_def cur x_def)
    qed
  qed
qed

lemma start_box:
  assumes "stored d = Some s" "\<not> cs_deleted s" "record_ok sent None (Some a) s" "cs_expiresAt s = Some t"
    "start_publication bound s t d = (r, d')"
  shows "view d' = view d" "r = Inr p \<Longrightarrow> box_ok sent p d'" "r = Inl e \<Longrightarrow> d' = d"
proof -
  define x where "x = s\<lparr>cs_expiresAt := Some t, cs_publishing := True,
      cs_publicationAttempts := Some (nullish (cs_publicationAttempts s) 0 + 1)\<rparr>"
  define q where "q = \<lparr>pb_send = MetricSend, pb_publishing = s, pb_expiresAt = 0\<rparr>"
  have "record_ok sent (Some q) (alarm_at d) x" "\<not> cs_deleted x" using assms by (auto simp: x_def q_def)
  then obtain p' d1 where pub: "publish_from x x t (put x d) = (Inr p', d1)" "box_ok sent p' d1" "view d1 = view (put x d)"
    using publish_box[where d = "put x d" and t = t and pb = x] by (metis stored_simps(3))
  have vx: "view (put x d) = view d" using assms by (simp add: x_def view_def)
  have start: "start_publication bound s t d = (if bound then (Inr p', d1)
      else (Inl ''METRIC_EVENTS_QUEUE binding is unavailable'', d))"
  proof -
    have "cs_row s \<noteq> None" using assms(2,3) by simp
    then show ?thesis
      unfolding start_publication_def Let_def x_def[symmetric] pub(1) by auto
  qed
  show "view d' = view d" "r = Inr p \<Longrightarrow> box_ok sent p d'" "r = Inl e \<Longrightarrow> d' = d"
    using start assms(5) pub vx by (auto split: if_splits)
qed

text \<open>Within the retention the alarm deletes nothing, and it leaves an alarm or a publication behind.\<close>

lemma alarm_box:
  assumes ok: "box_ok sent None d" and kept: "\<And>s t. stored d = Some s \<Longrightarrow> cs_expiresAt s = Some t \<Longrightarrow> now < t"
    and run: "alarm_op h bound now (d\<lparr>alarm_at := None\<rparr>) = (r, d')"
  shows "view d' = view d" "r = Inr p \<Longrightarrow> box_ok sent p d'" "r = Inl e \<Longrightarrow> box_ok sent None (rearm t d')"
proof -
  define d0 where "d0 = d\<lparr>alarm_at := None\<rparr>"
  have "view d' = view d \<and> (\<forall>p. r = Inr p \<longrightarrow> box_ok sent p d') \<and> (\<forall>e. r = Inl e \<longrightarrow> box_ok sent None (rearm t d'))"
  proof (cases "stored d")
    case None
    then show ?thesis using run by (auto simp: alarm_op_def box_ok_def view_def)
  next
    case (Some s)
    from ok Some obtain a where rec: "record_ok sent None (Some a) s" by (auto simp: box_ok_def)
    then obtain x where x: "cs_expiresAt s = Some x" by auto
    have s0: "stored d0 = Some s" and v0: "view d0 = view d" using Some by (simp_all add: d0_def)
    have now: "now < x" using kept[OF Some x] .
    have armed: "box_ok sent None (set_alarm y d0)" for y using rec s0 by (simp add: box_ok_def)
    have op: "alarm_op h bound now d0 = (if settled_alarm s then (Inr None, set_alarm x d0)
        else case cs_publicationRetryAt s of
          Some y \<Rightarrow> if now < y then (Inr None, set_alarm y d0) else start_publication bound s x d0
        | None \<Rightarrow> start_publication bound s x d0)"
      using s0 x now by (simp add: alarm_op_def)
    consider (sleeps) y where "alarm_op h bound now d0 = (Inr None, set_alarm y d0)"
      | (starts) "\<not> cs_deleted s" "alarm_op h bound now d0 = start_publication bound s x d0"
    proof (cases "settled_alarm s \<or> (\<exists>y. cs_publicationRetryAt s = Some y \<and> now < y)")
      case True
      then show ?thesis using that(1)[of x] that(1) unfolding op
        by (cases "settled_alarm s"; cases "cs_publicationRetryAt s") auto
    next
      case False
      then show ?thesis using that(2) unfolding op by (auto simp: settled_alarm_def split: option.splits)
    qed
    then show ?thesis
    proof cases
      case sleeps
      then show ?thesis using run armed v0 by (auto simp: d0_def)
    next
      case starts
      have re: "box_ok sent None (rearm t d0)" using armed[of t] by (simp add: d0_def rearm_def)
      show ?thesis
        using start_box[OF s0 starts(1) rec x, of bound r d'] run starts(2) v0 re
        by (auto simp: d0_def[symmetric])
    qed
  qed
  then show "view d' = view d" "r = Inr p \<Longrightarrow> box_ok sent p d'" "r = Inl e \<Longrightarrow> box_ok sent None (rearm t d')"
    by blast+
qed

end
