(* ===== verification/MetricInvariant.thy ===== *)
theory MetricInvariant
  imports MetricDelivery
begin

text \<open>
  The invariant of a Metric Event's delivery: at most one piece of work or undecided or stored
  request is in play for the row, the attempt of the record names it, and the states that allow
  another request or a deletion are only recorded when nothing is in play any more.
\<close>

section \<open>Statement\<close>

definition admitted_ids :: "task list \<Rightarrow> string list" where
  "admitted_ids ts = List.map_filter (\<lambda>t. case t of Admitted e \<Rightarrow> Some (at_id (ar_attempt e)) | _ \<Rightarrow> None) ts"

type_synonym requests = "(string \<times> request_state) list"

definition in_play :: "task list \<Rightarrow> requests \<Rightarrow> string \<Rightarrow> bool" where
  "in_play ts rq i \<longleftrightarrow> i \<in> set (admitted_ids ts) \<or> map_of rq i \<in> {Some Open, Some Landed}"

definition quiet :: "task list \<Rightarrow> requests \<Rightarrow> bool" where
  "quiet ts rq \<longleftrightarrow> admitted_ids ts = [] \<and> (\<forall>i. map_of rq i \<noteq> Some Open)"

definition landed :: "requests \<Rightarrow> bool" where
  "landed rq \<longleftrightarrow> (\<exists>i. map_of rq i = Some Landed)"

text \<open>What an outcome tells of the request.\<close>

fun fits_request :: "delivery_outcome \<Rightarrow> request_state \<Rightarrow> bool" where
  "fits_request (Delivered n) q \<longleftrightarrow> q = Landed"
| "fits_request (Retryable why after) q \<longleftrightarrow> q = Refused"
| "fits_request (Indeterminate why) q \<longleftrightarrow> True"
| "fits_request (Poison why) q \<longleftrightarrow> q \<noteq> Open"

definition poison_ok :: "string list \<Rightarrow> string list \<Rightarrow> requests \<Rightarrow> held_message \<Rightarrow> bool" where
  "poison_ok begun adm rq e \<longleftrightarrow> at_id (hm_attempt e) \<in> set begun \<and> at_id (hm_attempt e) \<notin> set adm
     \<and> map_of rq (at_id (hm_attempt e)) \<noteq> Some Open"

fun task_ok :: "string list \<Rightarrow> string list \<Rightarrow> requests \<Rightarrow> task \<Rightarrow> bool" where
  "task_ok begun adm rq (Admitted e) \<longleftrightarrow> True"
| "task_ok begun adm rq (Flying e) \<longleftrightarrow> map_of rq (at_id (ar_attempt e)) \<noteq> None"
| "task_ok begun adm rq (Answered e out) \<longleftrightarrow>
     (\<exists>q. map_of rq (at_id (ar_attempt e)) = Some q \<and> fits_request out q)"
| "task_ok begun adm rq (PoisonHeld e) \<longleftrightarrow> poison_ok begun adm rq e"
| "task_ok begun adm rq (PoisonCopied e) \<longleftrightarrow> poison_ok begun adm rq e"
| "task_ok begun adm rq (Envelope e) \<longleftrightarrow> True"
| "task_ok begun adm rq (RawOnly e) \<longleftrightarrow> landed rq"
| "task_ok begun adm rq (CopyClaim a) \<longleftrightarrow> landed rq \<and> at_state a \<noteq> RetryableState"
| "task_ok begun adm rq (CopyAsked a) \<longleftrightarrow> landed rq \<and> at_state a \<noteq> RetryableState"
| "task_ok begun adm rq (CopyNamed a) \<longleftrightarrow> landed rq \<and> at_state a \<noteq> RetryableState"
| "task_ok begun adm rq (Proven a) \<longleftrightarrow> landed rq"

definition closed_states :: "delivery_state set" where
  "closed_states = {DeliveredState, PoisonPending, PoisonTransferred}"

text \<open>Poisoned work whose attempt was never sent belongs to the current attempt.\<close>

definition poison_current :: "delivery_attempt option \<Rightarrow> task list \<Rightarrow> requests \<Rightarrow> bool" where
  "poison_current c ts rq \<longleftrightarrow> (\<forall>e. PoisonHeld e \<in> set ts \<longrightarrow> map_of rq (at_id (hm_attempt e)) = None \<longrightarrow>
     (\<exists>a. c = Some a \<and> at_id a = at_id (hm_attempt e) \<and> at_state a \<in> {PoisonPending, PoisonTransferred}))"

text \<open>What the view of the record says of the work and the requests.\<close>

fun view_ok :: "(bool \<times> delivery_attempt option) option \<Rightarrow> string list \<Rightarrow> task list \<Rightarrow> requests \<Rightarrow> bool" where
  "view_ok None begun ts rq \<longleftrightarrow> begun = [] \<and> ts = [] \<and> rq = []"
| "view_ok (Some (True, a)) begun ts rq \<longleftrightarrow> quiet ts rq"
| "view_ok (Some (False, None)) begun ts rq \<longleftrightarrow> (\<forall>i. \<not> in_play ts rq i)
     \<and> poison_current None ts rq"
| "view_ok (Some (False, Some a)) begun ts rq \<longleftrightarrow>
     (\<forall>i. in_play ts rq i \<longrightarrow> i = at_id a \<and> at_state a \<noteq> RetryableState)
     \<and> (at_state a \<in> closed_states \<longrightarrow> quiet ts rq)
     \<and> poison_current (Some a) ts rq"

definition delivery_inv :: "(bool \<times> delivery_attempt option) option \<Rightarrow> string list \<Rightarrow> task list \<Rightarrow> requests \<Rightarrow> bool" where
  "delivery_inv v begun ts rq \<longleftrightarrow> distinct (admitted_ids ts) \<and> distinct (map fst rq)
     \<and> (\<forall>i. i \<in> set (admitted_ids ts) \<longrightarrow> map_of rq i = None \<and> i \<in> set begun)
     \<and> (\<forall>i. map_of rq i \<noteq> None \<longrightarrow> i \<in> set begun)
     \<and> (\<forall>i j. in_play ts rq i \<and> in_play ts rq j \<longrightarrow> i = j)
     \<and> (\<forall>t\<in>set ts. task_ok begun (admitted_ids ts) rq t)
     \<and> (\<forall>a. v = Some (False, Some a) \<longrightarrow> at_id a \<in> set begun)
     \<and> view_ok v begun ts rq"

definition delivery_ok :: "delivery_world \<Rightarrow> bool" where
  "delivery_ok w \<longleftrightarrow> box_ok (w_sent w) (w_publication w) (w_box w)
     \<and> delivery_inv (view (w_box w)) (w_begun w) (w_tasks w) (w_requests w)"

lemma unclaimed_ok: "delivery_ok (unclaimed t)"
  by (simp add: delivery_ok_def unclaimed_def box_ok_def view_def delivery_inv_def admitted_ids_def
      in_play_def List.map_filter_simps)

section \<open>Work that is dropped or added\<close>

lemma admitted_ids_simps [simp]:
  "admitted_ids [] = []"
  "admitted_ids (Admitted e # ts) = at_id (ar_attempt e) # admitted_ids ts"
  "(\<And>e. t \<noteq> Admitted e) \<Longrightarrow> admitted_ids (t # ts) = admitted_ids ts"
  "admitted_ids (ts @ us) = admitted_ids ts @ admitted_ids us"
  by (auto simp: admitted_ids_def List.map_filter_def split: task.split)

lemma set_admitted_ids: "i \<in> set (admitted_ids ts) \<longleftrightarrow> (\<exists>e. Admitted e \<in> set ts \<and> at_id (ar_attempt e) = i)"
proof (induction ts)
  case (Cons t ts)
  then show ?case by (cases t) auto
qed simp

lemma admitted_ids_remove: "Admitted e \<in> set ts \<Longrightarrow>
    mset (admitted_ids ts) = add_mset (at_id (ar_attempt e)) (mset (admitted_ids (remove1 (Admitted e) ts)))"
proof (induction ts)
  case (Cons t ts)
  then show ?case by (cases t) auto
qed simp

lemma admitted_ids_remove_other: "(\<And>e. t \<noteq> Admitted e) \<Longrightarrow> admitted_ids (remove1 t ts) = admitted_ids ts"
proof (induction ts)
  case (Cons u ts)
  then show ?case by (cases u) auto
qed simp

lemma admitted_ids_remove_subset: "set (admitted_ids (remove1 t ts)) \<subseteq> set (admitted_ids ts)"
  using set_remove1_subset[of t ts] by (fastforce simp: set_admitted_ids)

lemma distinct_admitted_remove: "distinct (admitted_ids ts) \<Longrightarrow> distinct (admitted_ids (remove1 t ts))"
proof (cases "\<exists>e. t = Admitted e \<and> t \<in> set ts")
  case True
  then obtain e where "t = Admitted e" "t \<in> set ts" by blast
  moreover assume "distinct (admitted_ids ts)"
  ultimately show ?thesis using admitted_ids_remove[of e ts]
    by (metis distinct.simps(2) mset.simps(2) mset_eq_imp_distinct_iff)
next
  case False
  assume "distinct (admitted_ids ts)"
  then show ?thesis using False
    by (cases "t \<in> set ts") (auto simp: admitted_ids_remove_other remove1_idem)
qed

text \<open>The conditions get no harder when admitted work disappears.\<close>

lemma task_ok_less: "task_ok begun adm rq t \<Longrightarrow> set adm' \<subseteq> set adm \<Longrightarrow> set begun \<subseteq> set begun' \<Longrightarrow>
    task_ok begun' adm' rq t"
  by (cases t) (auto simp: poison_ok_def)

lemma in_play_less: "in_play ts' rq i \<Longrightarrow> set (admitted_ids ts') \<subseteq> set (admitted_ids ts) \<Longrightarrow> in_play ts rq i"
  by (auto simp: in_play_def)

lemma quiet_less: "quiet ts rq \<Longrightarrow> set (admitted_ids ts') \<subseteq> set (admitted_ids ts) \<Longrightarrow> quiet ts' rq"
  by (auto simp: quiet_def)

lemma poison_current_less: "\<lbrakk>poison_current c ts rq;
      \<And>e. PoisonHeld e \<in> set ts' \<Longrightarrow> PoisonHeld e \<in> set ts \<or> map_of rq (at_id (hm_attempt e)) \<noteq> None\<rbrakk> \<Longrightarrow>
    poison_current c ts' rq"
  unfolding poison_current_def by blast

lemma view_ok_less:
  assumes "view_ok v begun ts rq" "v \<noteq> None" "set (admitted_ids ts') \<subseteq> set (admitted_ids ts)"
    "\<And>e. PoisonHeld e \<in> set ts' \<Longrightarrow> PoisonHeld e \<in> set ts \<or> map_of rq (at_id (hm_attempt e)) \<noteq> None"
  shows "view_ok v begun' ts' rq"
proof -
  obtain b c where v: "v = Some (b, c)" using assms(2) by (cases v) auto
  show ?thesis
    using assms(1) quiet_less[OF _ assms(3), of rq] in_play_less[OF _ assms(3), of rq]
      poison_current_less[OF _ assms(4), of c]
    by (cases b; cases c) (auto simp: v)
qed

text \<open>Work is exchanged for work that admits nothing new and holds no poison that was never sent.\<close>

lemma delivery_inv_swap:
  assumes inv: "delivery_inv v begun ts rq" and ts: "ts \<noteq> []"
    and sub: "set (admitted_ids ts') \<subseteq> set (admitted_ids ts)" "distinct (admitted_ids ts')"
    and tasks: "\<And>t. t \<in> set ts' \<Longrightarrow> t \<in> set ts \<or> task_ok begun (admitted_ids ts) rq t"
    and poison: "\<And>e. PoisonHeld e \<in> set ts' \<Longrightarrow> PoisonHeld e \<in> set ts \<or> map_of rq (at_id (hm_attempt e)) \<noteq> None"
  shows "delivery_inv v begun ts' rq"
proof -
  have v: "v \<noteq> None" using inv ts by (cases v) (auto simp: delivery_inv_def)
  have "view_ok v begun ts' rq" using view_ok_less[OF _ v sub(1) poison] inv by (auto simp: delivery_inv_def)
  moreover have "task_ok begun (admitted_ids ts') rq t" if "t \<in> set ts'" for t
    using tasks[OF that] inv sub(1) by (auto simp: delivery_inv_def intro: task_ok_less)
  moreover have "\<forall>i j. in_play ts' rq i \<and> in_play ts' rq j \<longrightarrow> i = j"
    using inv in_play_less[OF _ sub(1), of rq] unfolding delivery_inv_def by blast
  moreover have "\<forall>i. i \<in> set (admitted_ids ts') \<longrightarrow> map_of rq i = None \<and> i \<in> set begun"
    using inv sub(1) unfolding delivery_inv_def by blast
  ultimately show ?thesis using inv sub(2) by (simp add: delivery_inv_def)
qed

lemma delivery_inv_loses:
  assumes "delivery_inv v begun ts rq" "t \<in> set ts"
  shows "delivery_inv v begun (remove1 t ts) rq"
  using assms(2) set_remove1_subset[of t ts] admitted_ids_remove_subset[of t ts] assms(1)
  by (intro delivery_inv_swap[OF assms(1)] distinct_admitted_remove) (auto simp: delivery_inv_def)

lemma delivery_inv_adds:
  assumes inv: "delivery_inv v begun ts rq" and ts: "ts \<noteq> []" and new: "admitted_ids news = []"
    and tasks: "\<And>t. t \<in> set news \<Longrightarrow> task_ok begun (admitted_ids ts) rq t"
    and poison: "\<And>e. PoisonHeld e \<in> set news \<Longrightarrow> map_of rq (at_id (hm_attempt e)) \<noteq> None"
  shows "delivery_inv v begun (news @ ts) rq"
  using inv new tasks poison by (intro delivery_inv_swap[OF inv ts]) (auto simp: delivery_inv_def)

lemma delivery_inv_replaces:
  assumes inv: "delivery_inv v begun ts rq" and t: "t \<in> set ts" and new: "admitted_ids news = []"
    and tasks: "\<And>t. t \<in> set news \<Longrightarrow> task_ok begun (admitted_ids ts) rq t"
    and poison: "\<And>e. PoisonHeld e \<in> set news \<Longrightarrow> map_of rq (at_id (hm_attempt e)) \<noteq> None"
  shows "delivery_inv v begun (news @ remove1 t ts) rq"
proof (rule delivery_inv_swap[OF inv])
  show "ts \<noteq> []" using t by auto
  show "set (admitted_ids (news @ remove1 t ts)) \<subseteq> set (admitted_ids ts)"
    using new admitted_ids_remove_subset[of t ts] by simp
  show "distinct (admitted_ids (news @ remove1 t ts))"
    using new inv distinct_admitted_remove by (simp add: delivery_inv_def)
  show "u \<in> set ts \<or> task_ok begun (admitted_ids ts) rq u" if "u \<in> set (news @ remove1 t ts)" for u
    using that tasks set_remove1_subset[of t ts] by auto
  show "PoisonHeld e \<in> set ts \<or> map_of rq (at_id (hm_attempt e)) \<noteq> None"
    if "PoisonHeld e \<in> set (news @ remove1 t ts)" for e
    using that poison set_remove1_subset[of t ts] by auto
qed

section \<open>Requests\<close>

lemma nothing_in_play_quiet: "\<forall>i. \<not> in_play ts rq i \<Longrightarrow> quiet ts rq"
  by (cases "admitted_ids ts") (auto simp: in_play_def quiet_def)

lemma task_ok_decided:
  "\<lbrakk>task_ok begun adm rq t; map_of rq i = Some Open; q \<noteq> Open\<rbrakk> \<Longrightarrow> task_ok begun adm (AList.update i q rq) t"
proof -
  assume t: "task_ok begun adm rq t" "map_of rq i = Some Open" "q \<noteq> Open"
  have "landed rq \<Longrightarrow> landed (AList.update i q rq)"
    using t(2) unfolding landed_def map_of_update by (metis fun_upd_apply option.inject request_state.distinct(1))
  moreover have "fits_request out Open \<Longrightarrow> fits_request out q" for out by (cases out) auto
  ultimately show ?thesis using t by (cases t) (auto simp: map_of_update poison_ok_def)
qed

lemma delivery_inv_decides:
  assumes inv: "delivery_inv v begun ts rq" and open_i: "map_of rq i = Some Open" "q \<noteq> Open"
  shows "delivery_inv v begun ts (AList.update i q rq)"
proof -
  let ?rq = "AList.update i q rq"
  have play: "in_play ts ?rq j \<Longrightarrow> in_play ts rq j" for j
    using open_i by (auto simp: in_play_def map_of_update split: if_splits)
  have noisy: "\<not> quiet ts rq" using open_i by (auto simp: quiet_def)
  have unsent: "map_of ?rq j = None \<longleftrightarrow> map_of rq j = None" for j using open_i by (auto simp: map_of_update)
  obtain b c where v: "v = Some (b, c)" using inv open_i by (cases v) (auto simp: delivery_inv_def)
  have "view_ok v begun ts rq" using inv by (simp add: delivery_inv_def)
  then have "view_ok v begun ts ?rq"
    using noisy play by (cases b; cases c) (auto simp: v poison_current_def unsent)
  moreover have "task_ok begun (admitted_ids ts) ?rq t" if "t \<in> set ts" for t
    using task_ok_decided[OF _ open_i] inv that by (simp add: delivery_inv_def)
  moreover have "\<forall>j k. in_play ts ?rq j \<and> in_play ts ?rq k \<longrightarrow> j = k"
    using inv play unfolding delivery_inv_def by blast
  moreover have "distinct (map fst ?rq)" using inv by (simp add: delivery_inv_def AList.distinct_update)
  ultimately show ?thesis using inv unfolding delivery_inv_def unsent by blast
qed

lemma task_ok_sent:
  assumes t: "task_ok begun adm rq t" and i: "map_of rq i = None" "i \<in> set adm"
  shows "task_ok begun adm ((i, Open) # rq) t"
proof -
  have keep: "map_of rq j = Some q \<Longrightarrow> map_of ((i, Open) # rq) j = Some q" for j q using i by auto
  then have "landed rq \<Longrightarrow> landed ((i, Open) # rq)" unfolding landed_def by blast
  moreover have "poison_ok begun adm rq e \<Longrightarrow> poison_ok begun adm ((i, Open) # rq) e" for e
    using i by (auto simp: poison_ok_def)
  ultimately show ?thesis using t
  proof (cases t)
    case (Answered e out)
    then show ?thesis using t keep by (simp only: task_ok.simps) blast
  next
    case (Flying e)
    then show ?thesis using t keep by (simp only: task_ok.simps) (metis not_Some_eq)
  qed simp_all
qed

lemma delivery_inv_sends:
  assumes inv: "delivery_inv v begun ts rq" and e: "Admitted e \<in> set ts"
  shows "delivery_inv v begun (Flying e # remove1 (Admitted e) ts) ((at_id (ar_attempt e), Open) # rq)"
proof -
  define i where "i = at_id (ar_attempt e)"
  let ?rq = "(i, Open) # rq" and ?ts = "Flying e # remove1 (Admitted e) ts"
  have adm: "i \<in> set (admitted_ids ts)" using e by (auto simp: set_admitted_ids i_def)
  then have fresh: "map_of rq i = None" "i \<in> set begun" using inv by (auto simp: delivery_inv_def)
  have same: "mset (admitted_ids ts) = mset (i # admitted_ids ?ts)" using admitted_ids_remove[OF e] by (simp add: i_def)
  have "distinct (i # admitted_ids ?ts)"
    using mset_eq_imp_distinct_iff[OF same] inv by (simp add: delivery_inv_def)
  then have ids: "set (admitted_ids ?ts) = set (admitted_ids ts) - {i}" "distinct (admitted_ids ?ts)"
    using mset_eq_setD[OF same] by auto
  have play: "in_play ?ts ?rq j \<Longrightarrow> in_play ts rq j" for j
    using adm ids(1) by (auto simp: in_play_def split: if_splits)
  have noisy: "\<not> quiet ts rq" using adm by (auto simp: quiet_def)
  have "v \<noteq> None" using inv e by (cases v) (auto simp: delivery_inv_def)
  then obtain b c where v: "v = Some (b, c)" by auto
  have "view_ok v begun ts rq" using inv by (simp add: delivery_inv_def)
  then have "view_ok v begun ?ts ?rq"
    using noisy play set_remove1_subset[of "Admitted e" ts]
    by (cases b; cases c) (auto simp: v poison_current_def)
  moreover have "task_ok begun (admitted_ids ?ts) ?rq t" if "t \<in> set ?ts" for t
  proof (cases "t = Flying e")
    case False
    then have "task_ok begun (admitted_ids ts) rq t" using that inv set_remove1_subset[of "Admitted e" ts]
      by (auto simp: delivery_inv_def)
    then show ?thesis using ids(1) by (intro task_ok_less[OF task_ok_sent[OF _ fresh(1) adm]]) auto
  qed (simp add: i_def)
  moreover have "\<forall>j k. in_play ?ts ?rq j \<and> in_play ?ts ?rq k \<longrightarrow> j = k"
    using inv play unfolding delivery_inv_def by blast
  moreover have "distinct (map fst ?rq)" using inv fresh by (simp add: delivery_inv_def map_of_eq_None)
  ultimately show ?thesis using inv ids fresh unfolding delivery_inv_def i_def[symmetric] by auto
qed

section \<open>Changes of the record\<close>

lemma delivery_inv_claimed: "delivery_inv None begun ts rq \<Longrightarrow> delivery_inv (Some (False, None)) begun ts rq"
  by (auto simp: delivery_inv_def in_play_def poison_current_def)

lemma delivery_inv_suppressed:
  assumes inv: "delivery_inv v begun ts rq" and free: "\<forall>b a. v = Some (b, a) \<longrightarrow> \<not> isUnresolved a"
  shows "delivery_inv (Some (True, None)) begun ts rq"
proof -
  have view: "view_ok v begun ts rq" using inv by (simp add: delivery_inv_def)
  have "quiet ts rq"
  proof (cases v)
    case None
    then show ?thesis using view by (simp add: quiet_def)
  next
    case (Some x)
    obtain b c where x: "x = (b, c)" by (cases x)
    show ?thesis
    proof (cases c)
      case None
      then show ?thesis using view nothing_in_play_quiet[of ts rq] by (cases b) (auto simp: Some x)
    next
      case a: (Some a)
      then have "\<not> isUnresolved (Some a)" using free Some x by blast
      then have "at_state a = RetryableState \<or> at_state a \<in> closed_states"
        by (cases "at_state a") (auto simp: isUnresolved_def BLOCKS_DELETION_def closed_states_def)
      then show ?thesis using view nothing_in_play_quiet[of ts rq] by (cases b) (auto simp: Some x a)
    qed
  qed
  then show ?thesis using inv by (simp add: delivery_inv_def)
qed

lemma delivery_inv_settled:
  assumes inv: "delivery_inv (Some (False, Some b)) begun ts rq" and same: "at_id b = at_id a"
    and retry: "at_state a = RetryableState \<Longrightarrow> \<forall>i. \<not> in_play ts rq i"
    and closed: "at_state a \<in> closed_states \<Longrightarrow> quiet ts rq"
    and sent: "map_of rq (at_id a) \<noteq> None \<or> at_state a \<in> {PoisonPending, PoisonTransferred}"
  shows "delivery_inv (Some (False, Some a)) begun ts rq"
proof -
  have "poison_current (Some b) ts rq" using inv by (simp add: delivery_inv_def)
  then have "poison_current (Some a) ts rq" using same sent unfolding poison_current_def by fastforce
  moreover have "in_play ts rq i \<Longrightarrow> i = at_id a \<and> at_state a \<noteq> RetryableState" for i
    using inv same retry by (auto simp: delivery_inv_def)
  ultimately show ?thesis using inv closed same by (simp add: delivery_inv_def)
qed

text \<open>A delivery begun: nothing new is in play, or the row is claimed under an id never used before.\<close>

lemma begun_tasks_cases:
  "\<exists>e. begun_tasks m k (Inr (BeginIs (Claimed row a))) = [Admitted e] \<and> ar_attempt e = a"
  "at_state a = PoisonPending \<Longrightarrow> \<exists>e. begun_tasks m k (Inr (BeginIs (PoisonOwed a))) = [PoisonHeld e] \<and> hm_attempt e = a"
  "at_state a \<noteq> PoisonPending \<Longrightarrow> \<exists>e. begun_tasks m k (Inr (BeginIs (Unresolved a))) = [Envelope e]"
  "begun_tasks m k (Inr (BeginIs BeginDeleted)) = []" "begun_tasks m k (Inr (BeginIs (Settled st))) = []"
  "(\<And>b. r \<noteq> Inr (BeginIs b)) \<Longrightarrow> begun_tasks m k r = []"
  by (auto simp: begun_tasks_def collectAdmission_def admit_begun_def intake_tasks_def empty_intake_def
      verdict_of_def Let_def split: sum.split outbox_response.split)

lemma begin_adds:
  assumes "\<forall>row a. r \<noteq> Inr (BeginIs (Claimed row a))"
    "\<forall>a. r = Inr (BeginIs (PoisonOwed a)) \<longrightarrow> v = Some (False, Some a) \<and> at_state a = PoisonPending"
    "\<forall>a. r = Inr (BeginIs (Unresolved a)) \<longrightarrow> at_state a \<noteq> PoisonPending"
    "\<forall>b. r = Inr (BeginIs b) \<longrightarrow> v \<noteq> None"
  obtains "begun_tasks m k r = []" | e where "begun_tasks m k r = [Envelope e]" "v \<noteq> None"
    | e where "begun_tasks m k r = [PoisonHeld e]" "v = Some (False, Some (hm_attempt e))" "at_state (hm_attempt e) = PoisonPending"
proof (cases "\<exists>b. r = Inr (BeginIs b)")
  case True
  then obtain b where b: "r = Inr (BeginIs b)" by blast
  show ?thesis
  proof (cases b)
    case (Unresolved a)
    then show ?thesis using that(2) assms(3,4) b begun_tasks_cases(3)[of a m k] by blast
  next
    case (PoisonOwed a)
    then show ?thesis using that(3) assms(2) b begun_tasks_cases(2)[of a m k] by blast
  qed (use that(1) assms(1) b begun_tasks_cases(4,5)[of m k] in auto)
next
  case False
  then show ?thesis using that(1) begun_tasks_cases(6)[of r m k] by blast
qed

lemma fresh_attempt:
  assumes inv: "delivery_inv v begun ts rq"
    and old: "v = Some (False, None) \<or> (\<exists>b. v = Some (False, Some b) \<and> at_state b = RetryableState)"
    and guard: "i \<notin> set begun \<or> holds_begun i ts rq"
  shows "\<forall>j. \<not> in_play ts rq j" "\<forall>e. PoisonHeld e \<in> set ts \<longrightarrow> map_of rq (at_id (hm_attempt e)) \<noteq> None" "i \<notin> set begun"
proof -
  show play: "\<forall>j. \<not> in_play ts rq j" using inv old by (auto simp: delivery_inv_def)
  have "\<exists>c. poison_current c ts rq \<and> (\<forall>a. c = Some a \<longrightarrow> at_state a = RetryableState)"
    using inv old by (auto simp: delivery_inv_def)
  then show held: "\<forall>e. PoisonHeld e \<in> set ts \<longrightarrow> map_of rq (at_id (hm_attempt e)) \<noteq> None"
    unfolding poison_current_def by fastforce
  have "\<not> holds_begun i ts rq"
  proof
    assume h: "holds_begun i ts rq"
    then obtain t where t: "t \<in> set ts" "map_of rq i = None"
      "case t of Admitted e \<Rightarrow> at_id (ar_attempt e) = i | PoisonHeld e \<Rightarrow> at_id (hm_attempt e) = i | _ \<Rightarrow> False"
      unfolding holds_begun_def list_ex_iff by blast
    consider e where "t = Admitted e" "at_id (ar_attempt e) = i" | e where "t = PoisonHeld e" "at_id (hm_attempt e) = i"
      using t(3) by (cases t) auto
    then show False using t play held by cases (auto simp: in_play_def set_admitted_ids)
  qed
  then show "i \<notin> set begun" using guard by blast
qed

lemma delivery_inv_more_begun:
  assumes inv: "delivery_inv v begun ts rq" and more: "set begun \<subseteq> set begun'" "v = None \<Longrightarrow> begun' = begun"
  shows "delivery_inv v begun' ts rq"
proof -
  have "view_ok v begun' ts rq"
  proof (cases v)
    case None
    then show ?thesis using inv more by (simp add: delivery_inv_def)
  next
    case (Some x)
    then show ?thesis using inv by (cases x; cases "fst x"; cases "snd x") (auto simp: delivery_inv_def)
  qed
  moreover have "\<forall>t\<in>set ts. task_ok begun' (admitted_ids ts) rq t"
    using inv task_ok_less[OF _ subset_refl more(1)] by (simp add: delivery_inv_def)
  ultimately show ?thesis using inv more(1) unfolding delivery_inv_def by blast
qed

text \<open>Work that admits nothing and holds no unsent poison but of the current attempt is added.\<close>

lemma delivery_inv_envelope:
  assumes "delivery_inv v begun ts rq" "v \<noteq> None"
  shows "delivery_inv v begun (Envelope e # ts) rq"
proof (cases "ts = []")
  case False
  then show ?thesis using delivery_inv_adds[OF assms(1), of "[Envelope e]"] by simp
next
  case True
  obtain b c where v: "v = Some (b, c)" using assms(2) by (cases v) auto
  have "in_play [Envelope e] rq j = in_play [] rq j" "quiet [Envelope e] rq = quiet [] rq"
    "poison_current c [Envelope e] rq = poison_current c [] rq" for j c
    by (simp_all add: in_play_def quiet_def poison_current_def)
  then show ?thesis using assms(1) v True by (cases b; cases c) (simp_all add: delivery_inv_def)
qed

lemma delivery_inv_poison:
  assumes inv: "delivery_inv (Some (False, Some (hm_attempt e))) begun ts rq"
    and st: "at_state (hm_attempt e) = PoisonPending"
  shows "delivery_inv (Some (False, Some (hm_attempt e))) begun (PoisonHeld e # ts) rq"
proof -
  have q: "quiet ts rq" "at_id (hm_attempt e) \<in> set begun" "poison_current (Some (hm_attempt e)) ts rq"
    using inv st by (auto simp: delivery_inv_def closed_states_def)
  have "poison_ok begun (admitted_ids ts) rq e" using q by (simp add: poison_ok_def quiet_def)
  moreover have "in_play (PoisonHeld e # ts) rq j = in_play ts rq j" "quiet (PoisonHeld e # ts) rq = quiet ts rq" for j
    by (simp_all add: in_play_def quiet_def)
  moreover have "poison_current (Some (hm_attempt e)) (PoisonHeld e # ts) rq"
    using q(3) st by (auto simp: poison_current_def)
  ultimately show ?thesis using inv by (simp add: delivery_inv_def)
qed

text \<open>A new attempt is recorded: the row is admitted under it, or it is poisoned at once.\<close>

lemma delivery_inv_new_attempt:
  assumes inv: "delivery_inv v begun ts rq"
    and old: "v = Some (False, None) \<or> (\<exists>b. v = Some (False, Some b) \<and> at_state b = RetryableState)"
    and guard: "at_id a \<notin> set begun \<or> holds_begun (at_id a) ts rq"
  shows "delivery_inv (Some (False, Some a)) (at_id a # begun) ts rq"
    "at_state a = Attempting \<Longrightarrow> ar_attempt e = a \<Longrightarrow>
      delivery_inv (Some (False, Some a)) (at_id a # begun) (Admitted e # ts) rq"
proof -
  note fresh = fresh_attempt[OF inv old guard]
  have quiet: "quiet ts rq" using nothing_in_play_quiet[OF fresh(1)] .
  have poison: "poison_current (Some a) ts rq" using fresh(2) by (auto simp: poison_current_def)
  have tasks: "\<forall>t\<in>set ts. task_ok (at_id a # begun) (admitted_ids ts) rq t"
  proof
    fix t
    assume "t \<in> set ts"
    then have "task_ok begun (admitted_ids ts) rq t" using inv by (simp add: delivery_inv_def)
    then show "task_ok (at_id a # begun) (admitted_ids ts) rq t" by (rule task_ok_less) auto
  qed
  show "delivery_inv (Some (False, Some a)) (at_id a # begun) ts rq"
    using inv fresh(1) quiet poison tasks by (simp add: delivery_inv_def)
  show "delivery_inv (Some (False, Some a)) (at_id a # begun) (Admitted e # ts) rq"
    if e: "at_state a = Attempting" "ar_attempt e = a"
  proof -
    have none: "admitted_ids ts = []" using quiet by (simp add: quiet_def)
    have unsent: "map_of rq (at_id a) = None"
      using inv fresh(3) unfolding delivery_inv_def by blast
    have play: "in_play (Admitted e # ts) rq j \<longleftrightarrow> j = at_id a" for j
      using fresh(1) e(2) none by (auto simp: in_play_def)
    have "task_ok (at_id a # begun) [at_id a] rq t" if t: "t \<in> set ts" for t
    proof -
      have "task_ok begun (admitted_ids ts) rq t" using inv t by (simp add: delivery_inv_def)
      then show ?thesis using fresh(3) by (cases t) (auto simp: poison_ok_def)
    qed
    moreover have "poison_current (Some a) (Admitted e # ts) rq" using poison by (auto simp: poison_current_def)
    moreover have "\<forall>i. map_of rq i \<noteq> None \<longrightarrow> i \<in> set (at_id a # begun)"
      using inv unfolding delivery_inv_def by auto
    ultimately show ?thesis
      using inv none unsent play e by (simp add: delivery_inv_def closed_states_def)
  qed
qed

lemma begin_effect_cases:
  assumes "begin_effect i r v v'"
  obtains (kept) "v' = v" "\<forall>row a. r \<noteq> Inr (BeginIs (Claimed row a))"
      "\<forall>a. r = Inr (BeginIs (PoisonOwed a)) \<longrightarrow> v = Some (False, Some a) \<and> at_state a = PoisonPending"
      "\<forall>a. r = Inr (BeginIs (Unresolved a)) \<longrightarrow> at_state a \<noteq> PoisonPending"
      "\<forall>b. r = Inr (BeginIs b) \<longrightarrow> v \<noteq> None"
    | (recorded) a row where "v' = Some (False, Some a)" "at_id a = i"
      "v = Some (False, None) \<or> (\<exists>b. v = Some (False, Some b) \<and> at_state b = RetryableState)"
      "r = Inr (BeginIs (Claimed row a)) \<and> at_state a = Attempting
        \<or> r = Inr (BeginIs (PoisonOwed a)) \<and> at_state a = PoisonPending"
  using assms[unfolded begin_effect_def]
proof (rule disjE, goal_cases)
  case 1
  show ?case by (rule kept) (insert 1(3), elim conjE, assumption)+
next
  case 2
  then obtain a row where "v' = Some (False, Some a) \<and> at_id a = i
      \<and> (v = Some (False, None) \<or> (\<exists>b. v = Some (False, Some b) \<and> at_state b = RetryableState))
      \<and> (r = Inr (BeginIs (Claimed row a)) \<and> at_state a = Attempting
         \<or> r = Inr (BeginIs (PoisonOwed a)) \<and> at_state a = PoisonPending)" by (elim exE)
  then show ?case by (intro recorded[of a row]) (elim conjE, assumption)+
qed

lemma delivery_inv_begins:
  assumes inv: "delivery_inv v begun ts rq" and eff: "begin_effect i r v v'"
    and guard: "i \<notin> set begun \<or> holds_begun i ts rq"
    and begun': "begun' = (if \<exists>b a. v' = Some (b, Some a) \<and> at_id a = i then [i] else []) @ begun"
  shows "delivery_inv v' begun' (begun_tasks m k r @ ts) rq"
proof -
  from eff show ?thesis
  proof (cases rule: begin_effect_cases)
    case kept
    have more: "delivery_inv v begun' ts rq"
      using inv by (rule delivery_inv_more_begun) (auto simp: begun' kept(1))
    show ?thesis
    proof (rule begin_adds[OF kept(2-5), of m k])
      show ?thesis if "begun_tasks m k r = []" using that more kept(1) by simp
      show ?thesis if "begun_tasks m k r = [Envelope e]" "v \<noteq> None" for e
        using that more kept(1) delivery_inv_envelope by simp
      show ?thesis if "begun_tasks m k r = [PoisonHeld e]" "v = Some (False, Some (hm_attempt e))"
          "at_state (hm_attempt e) = PoisonPending" for e
        using that more kept(1) delivery_inv_poison by simp
    qed
  next
    case (recorded a row)
    have b: "begun' = at_id a # begun" using recorded(1,2) by (auto simp: begun')
    note new = delivery_inv_new_attempt[OF inv recorded(3), of a]
    from recorded(4) show ?thesis
    proof
      assume c: "r = Inr (BeginIs (Claimed row a)) \<and> at_state a = Attempting"
      obtain e where "begun_tasks m k r = [Admitted e]" "ar_attempt e = a"
        using begun_tasks_cases(1)[of m k row a] c by auto
      then show ?thesis using new(2)[of e] guard recorded(1,2) b c by simp
    next
      assume c: "r = Inr (BeginIs (PoisonOwed a)) \<and> at_state a = PoisonPending"
      obtain e where "begun_tasks m k r = [PoisonHeld e]" "hm_attempt e = a"
        using begun_tasks_cases(2)[of a m k] c by auto
      then show ?thesis using new(1) delivery_inv_poison[of e] guard recorded(1,2) b c by simp
    qed
  qed
qed

section \<open>Writes of an attempt\<close>

text \<open>The record of the current attempt is replaced by this one, or the write is refused.\<close>

definition attempt_written :: "delivery_attempt \<Rightarrow> (bool \<times> delivery_attempt option) option \<Rightarrow>
    (bool \<times> delivery_attempt option) option \<Rightarrow> bool" where
  "attempt_written a v v' \<longleftrightarrow> v' = v
     \<or> (\<exists>b. v = Some (False, Some b) \<and> at_id b = at_id a \<and> v' = Some (False, Some a))"

lemma settle_written: "\<lbrakk>box_ok sent p d; settle_op a d = (r, d')\<rbrakk> \<Longrightarrow>
    box_ok sent p d' \<and> attempt_written a (view d) (view d')"
  using settle_box[of sent p d a r d'] unfolding attempt_written_def by blast

lemma delivery_inv_writes:
  assumes inv: "delivery_inv v begun ts rq" and w: "attempt_written a v v'"
    and retry: "at_state a = RetryableState \<Longrightarrow> map_of rq (at_id a) = Some Refused"
    and closed: "at_state a \<in> closed_states \<Longrightarrow> at_id a \<notin> set (admitted_ids ts) \<and> map_of rq (at_id a) \<noteq> Some Open"
    and sent: "map_of rq (at_id a) \<noteq> None \<or> at_state a \<in> {PoisonPending, PoisonTransferred}"
  shows "delivery_inv v' begun ts rq"
proof (cases "v' = v")
  case False
  then obtain b where b: "v = Some (False, Some b)" "at_id b = at_id a" "v' = Some (False, Some a)"
    using w by (auto simp: attempt_written_def)
  have only: "in_play ts rq i \<Longrightarrow> i = at_id a" for i using inv b by (auto simp: delivery_inv_def)
  have adm: "i \<in> set (admitted_ids ts) \<Longrightarrow> map_of rq i = None" for i using inv unfolding delivery_inv_def by blast
  have "delivery_inv (Some (False, Some a)) begun ts rq"
  proof (rule delivery_inv_settled[OF inv[unfolded b(1)] b(2) _ _ sent])
    show "\<forall>i. \<not> in_play ts rq i" if "at_state a = RetryableState"
      using only adm retry[OF that] by (fastforce simp: in_play_def)
    show "quiet ts rq" if "at_state a \<in> closed_states"
      using only closed[OF that] unfolding quiet_def in_play_def
      by (metis insertI1 list.set_intros(1) neq_Nil_conv)
  qed
  then show ?thesis by (simp add: b(3))
qed (use inv in simp)

text \<open>A write of the reconciler, who has seen rows stored.\<close>

lemma delivery_inv_writes_landed:
  assumes inv: "delivery_inv v begun ts rq" and w: "attempt_written a v v'"
    and landed: "landed rq" "at_state a \<noteq> RetryableState"
  shows "delivery_inv v' begun ts rq"
proof (cases "v' = v")
  case False
  then obtain b where b: "v = Some (False, Some b)" "at_id b = at_id a" using w by (auto simp: attempt_written_def)
  obtain i where i: "map_of rq i = Some Landed" using landed(1) by (auto simp: landed_def)
  then have "i = at_id a" using inv b by (auto simp: delivery_inv_def in_play_def)
  moreover have "at_id a \<notin> set (admitted_ids ts)"
    using inv i \<open>i = at_id a\<close> unfolding delivery_inv_def by (metis option.distinct(1))
  ultimately show ?thesis using delivery_inv_writes[OF inv w] i landed(2) by simp
qed (use inv in simp)

lemma fits_truthful: "truthful_reply f n q \<Longrightarrow> fits_request (sendNdjsonBatch h now f n) q"
  by (auto simp: truthful_reply_def sendNdjsonBatch_def classifyResponse_def classifyCommit_def response_ok_def
      split: fetched.splits if_splits option.splits prod.splits)

lemma fits_exhausted: "fits_request out q \<Longrightarrow> fits_request (if b then poisonInsteadOfRetry out else out) q"
  by (cases out) (auto simp: poisonInsteadOfRetry_def)

lemma answered_tasks_cases:
  "answered_tasks e out r = [] \<or> (\<exists>h. answered_tasks e out r = [Envelope h])
   \<or> (\<exists>h why. answered_tasks e out r = [PoisonHeld h] \<and> hm_attempt h = ar_attempt e \<and> out = Poison why)"
  by (cases out) (auto simp: answered_tasks_def settleAdmitted_def intake_tasks_def empty_intake_def verdict_of_def Let_def)

lemma settled_attempt_simps [simp]: "at_id (settled_attempt a out) = at_id a"
  "at_state (settled_attempt a out) = settledState out"
  by (simp_all add: settled_attempt_def)

lemma delivery_inv_answered:
  assumes inv: "delivery_inv v begun ts rq" and t: "Answered e out \<in> set ts"
    and w: "attempt_written (settled_attempt (ar_attempt e) out) v v'"
  shows "delivery_inv v' begun (answered_tasks e out r @ remove1 (Answered e out) ts) rq"
proof -
  define i where "i = at_id (ar_attempt e)"
  have "task_ok begun (admitted_ids ts) rq (Answered e out)" using inv t unfolding delivery_inv_def by blast
  then obtain q where q: "map_of rq i = Some q" "fits_request out q" by (auto simp: i_def)
  have adm: "i \<notin> set (admitted_ids ts)" and begun: "i \<in> set begun"
    using inv q(1) unfolding delivery_inv_def by (metis option.distinct(1))+
  have inv': "delivery_inv v' begun ts rq"
    by (rule delivery_inv_writes[OF inv w]; cases out; use q adm in \<open>simp add: i_def closed_states_def\<close>)
  have held: "task_ok begun (admitted_ids ts) rq (PoisonHeld h)" if "hm_attempt h = ar_attempt e" "out = Poison why" for h why
    using that q adm begun by (simp add: poison_ok_def i_def[symmetric])
  from answered_tasks_cases[of e out r] consider (gone) "answered_tasks e out r = []"
    | (envelope) h where "answered_tasks e out r = [Envelope h]"
    | (poison) h why where "answered_tasks e out r = [PoisonHeld h]" "hm_attempt h = ar_attempt e" "out = Poison why"
    by blast
  then show ?thesis
  proof cases
    case gone
    show ?thesis unfolding gone by (rule delivery_inv_replaces[OF inv' t]) simp_all
  next
    case envelope
    show ?thesis unfolding envelope by (rule delivery_inv_replaces[OF inv' t]) auto
  next
    case poison
    show ?thesis unfolding poison(1)
    proof (rule delivery_inv_replaces[OF inv' t])
      show "task_ok begun (admitted_ids ts) rq u" if "u \<in> set [PoisonHeld h]" for u
        using that held[OF poison(2,3)] by simp
      show "map_of rq (at_id (hm_attempt x)) \<noteq> None" if "PoisonHeld x \<in> set [PoisonHeld h]" for x
        using that q(1) poison(2) by (simp add: i_def)
    qed simp
  qed
qed

section \<open>Every step keeps the invariant\<close>

lemma recorded_view: "recorded i d \<longleftrightarrow> (\<exists>b a. view d = Some (b, Some a) \<and> at_id a = i)"
  by (auto simp: recorded_def view_def split: option.splits)

lemma some_landed_iff: "distinct (map fst (w_requests w)) \<Longrightarrow> some_landed w \<longleftrightarrow> landed (w_requests w)"
  by (force simp: some_landed_def landed_def list_ex_iff)

lemma delivery_ok_box: "\<lbrakk>delivery_ok w; box_ok sent p d; view d = view (w_box w)\<rbrakk> \<Longrightarrow>
    delivery_ok (w\<lparr>w_box := d, w_publication := p, w_sent := sent\<rparr>)"
  by (simp add: delivery_ok_def)

lemma delivery_ok_tasks: "delivery_ok w \<Longrightarrow> delivery_inv (view (w_box w)) (w_begun w) ts (w_requests w) \<Longrightarrow>
    delivery_ok (w\<lparr>w_tasks := ts\<rparr>)"
  by (simp add: delivery_ok_def)

lemma publication_result_ok:
  assumes "delivery_ok w" "view (snd r) = view (w_box w)"
    "\<And>p. fst r = Inr p \<Longrightarrow> box_ok (w_sent w) p (snd r)"
    "\<And>e. fst r = Inl e \<Longrightarrow> box_ok (w_sent w) None (rearm t (snd r))"
  shows "delivery_ok (publication_result t r w)"
  using assms by (cases r; cases "fst r") (simp_all add: publication_result_def delivery_ok_def)

end
