(* ===== verification/MetricProps.thy ===== *)
theory MetricProps
  imports MetricInvariant
begin

text \<open>
  Properties of the delivery of one Metric Event, over every interleaving of its consumers, the
  publication of its outbox, the privacy deletion and the reconciliation, within the retention.
\<close>

section \<open>The delivery is a machine with an invariant\<close>

lemma swap_fields [simp]: "w_box (swap t news w) = w_box w" "w_tasks (swap t news w) = news @ remove1 t (w_tasks w)"
  "w_requests (swap t news w) = w_requests w" "w_begun (swap t news w) = w_begun w"
  "w_publication (swap t news w) = w_publication w" "w_sent (swap t news w) = w_sent w"
  by (simp_all add: swap_def)

lemma retained_expiry: "\<lbrakk>retained w; stored (w_box w) = Some s; cs_expiresAt s = Some t\<rbrakk> \<Longrightarrow> w_now w < t"
  by (simp add: retained_def)

lemma ok_swap:
  assumes "delivery_ok w" "t \<in> set (w_tasks w)" "admitted_ids news = []"
    "\<And>u. u \<in> set news \<Longrightarrow> task_ok (w_begun w) (admitted_ids (w_tasks w)) (w_requests w) u"
    "\<And>e. PoisonHeld e \<in> set news \<Longrightarrow> map_of (w_requests w) (at_id (hm_attempt e)) \<noteq> None"
  shows "delivery_ok (swap t news w)"
  using assms(1) delivery_inv_replaces[OF _ assms(2,3,4,5), of "view (w_box w)"]
  by (simp add: delivery_ok_def)

text \<open>A write by the holder of a piece of work, which goes on with other work.\<close>

lemma ok_write:
  assumes ok: "delivery_ok w" and t: "t \<in> set (w_tasks w)" and settle: "settle_op a (w_box w) = (r, d)"
    and written: "\<And>v'. attempt_written a (view (w_box w)) v' \<Longrightarrow>
      delivery_inv v' (w_begun w) (w_tasks w) (w_requests w)"
    and news: "admitted_ids news = []" "\<And>e. PoisonHeld e \<notin> set news"
      "\<And>u. u \<in> set news \<Longrightarrow> task_ok (w_begun w) (admitted_ids (w_tasks w)) (w_requests w) u"
  shows "delivery_ok ((swap t news w)\<lparr>w_box := d\<rparr>)"
proof -
  have "box_ok (w_sent w) (w_publication w) d" "attempt_written a (view (w_box w)) (view d)"
    using settle_written[OF _ settle] ok by (auto simp: delivery_ok_def)
  moreover then have "delivery_inv (view d) (w_begun w) (news @ remove1 t (w_tasks w)) (w_requests w)"
    using delivery_inv_replaces[OF written t news(1,3)] news(2) by blast
  ultimately show ?thesis by (simp add: delivery_ok_def)
qed

lemma ok_task: "\<lbrakk>delivery_ok w; t \<in> set (w_tasks w)\<rbrakk> \<Longrightarrow>
    task_ok (w_begun w) (admitted_ids (w_tasks w)) (w_requests w) t"
  unfolding delivery_ok_def delivery_inv_def by blast

lemma ok_inv: "delivery_ok w \<Longrightarrow> delivery_inv (view (w_box w)) (w_begun w) (w_tasks w) (w_requests w)"
  by (simp add: delivery_ok_def)

lemma ok_write_landed:
  assumes "delivery_ok w" "t \<in> set (w_tasks w)" "settle_op a (w_box w) = (r, d)"
    and "landed (w_requests w)" "at_state a \<noteq> RetryableState"
    and "admitted_ids news = []" "\<And>e. PoisonHeld e \<notin> set news"
      "\<And>u. u \<in> set news \<Longrightarrow> task_ok (w_begun w) (admitted_ids (w_tasks w)) (w_requests w) u"
  shows "delivery_ok ((swap t news w)\<lparr>w_box := d\<rparr>)"
  using ok_write[OF assms(1-3) delivery_inv_writes_landed[OF ok_inv[OF assms(1)] _ assms(4,5)] assms(6-8)] .

lemma delivery_move_ok:
  assumes "delivery_move h bound w w'" "retained w" "delivery_ok w"
  shows "delivery_ok w'"
  using assms
proof (induction rule: delivery_move.induct)
  case (passes w t)
  then show ?case by (simp add: delivery_ok_def)
next
  case (claims incoming w r d)
  then have "box_ok (w_sent w) (w_publication w) d"
    "view d = view (w_box w) \<or> view (w_box w) = None \<and> view d = Some (False, None)"
    using claim_box[of "w_sent w" "w_publication w" "w_box w"] by (auto simp: delivery_ok_def)
  then show ?case using claims.prems(2) delivery_inv_claimed by (auto simp: delivery_ok_def)
next
  case (reads w path r d)
  then show ?case using read_box[of "w_sent w" "w_publication w" "w_box w"] by (auto simp: delivery_ok_def)
next
  case (retains w ts r d)
  have "box_ok (w_sent w) (w_publication w) d \<and> view d = view (w_box w)"
    using retain_box[OF _ retains.hyps, of "w_sent w" "w_publication w"] retained_expiry[OF retains.prems(1)] retains.prems(2)
    by (simp add: delivery_ok_def)
  then show ?case using retains.prems(2) by (simp add: delivery_ok_def)
next
  case (suppresses i w r d)
  have "box_ok (w_sent w) (w_publication w) (w_box w)" using suppresses.prems(2) by (simp add: delivery_ok_def)
  note box = suppress_box[OF this suppresses.hyps]
  moreover from box(2) have "delivery_inv (view d) (w_begun w) (w_tasks w) (w_requests w)"
    using suppresses.prems(2) delivery_inv_suppressed[of "view (w_box w)"] by (auto simp: delivery_ok_def)
  ultimately show ?case by (simp add: delivery_ok_def)
next
  case (fires w a t)
  obtain r d where run: "alarm_op h bound (w_now w) ((w_box w)\<lparr>alarm_at := None\<rparr>) = (r, d)" by (cases "alarm_op h bound (w_now w) ((w_box w)\<lparr>alarm_at := None\<rparr>)")
  have "box_ok (w_sent w) None (w_box w)" using fires by (simp add: delivery_ok_def)
  note box = alarm_box[OF this retained_expiry[OF fires.prems(1)] run]
  show ?case unfolding run
    by (rule publication_result_ok[OF fires.prems(2)]) (use box in simp_all)
next
  case (resumes w p t sent)
  have "box_ok (w_sent w) (Some p) (w_box w)" using resumes by (simp add: delivery_ok_def)
  from resume_box[OF this refl, of "w_now w" sent] obtain p' d where
    "resume_publication (w_now w) p sent (w_box w) = (Inr p', d)"
    "box_ok ((if sent then [pb_send p] else []) @ w_sent w) p' d" "view d = view (w_box w)" by blast
  then show ?case using resumes.prems(2) by (simp add: publication_result_def delivery_ok_def)
next
  case (evicts w p t)
  then have "box_ok (w_sent w) None (rearm t (w_box w))"
    by (auto simp: delivery_ok_def box_ok_def rearm_def split: option.splits)
  then show ?case using evicts.prems(2) by (simp add: delivery_ok_def)
next
  case (begins w i r d m k)
  have box: "box_ok (w_sent w) (w_publication w) d" "begin_effect i r (view (w_box w)) (view d)"
    using begin_box[OF _ begins.hyps(1)] begins.prems(2) by (auto simp: delivery_ok_def)
  have "delivery_inv (view d) ((if recorded i d then [i] else []) @ w_begun w) (begun_tasks m k r @ w_tasks w) (w_requests w)"
    using begins.prems(2) by (intro delivery_inv_begins[OF _ box(2) begins.hyps(2)]) (auto simp: delivery_ok_def recorded_view)
  then show ?case using box(1) by (simp add: delivery_ok_def)
next
  case (sends e w)
  then show ?case using delivery_inv_sends[of "view (w_box w)" "w_begun w" "w_tasks w" "w_requests w" e]
    by (simp add: delivery_ok_def)
next
  case (decides w i q)
  then show ?case using delivery_inv_decides[of "view (w_box w)" "w_begun w" "w_tasks w" "w_requests w" i q]
    by (simp add: delivery_ok_def)
next
  case (answers e w q f n out)
  have "fits_request (if exhausted (ar_message e) then poisonInsteadOfRetry out else out) q"
    using fits_exhausted fits_truthful[OF answers.hyps(3)] answers.hyps(4) by blast
  then show ?case using answers.hyps(1,2) by (intro ok_swap[OF answers.prems(2)]) (auto split: if_splits)
next
  case (settles e out w r d)
  have box: "box_ok (w_sent w) (w_publication w) d"
    "attempt_written (settled_attempt (ar_attempt e) out) (view (w_box w)) (view d)"
    using settle_written[OF _ settles.hyps(2)] settles.prems(2) by (auto simp: delivery_ok_def)
  then show ?case using delivery_inv_answered[OF ok_inv[OF settles.prems(2)] settles.hyps(1) box(2)] by (simp add: delivery_ok_def)
next
  case (copies e w)
  from ok_task[OF copies.prems(2) copies.hyps] show ?case
    by (intro ok_swap[OF copies.prems(2) copies.hyps]) auto
next
  case (transfers e w r d)
  have p: "poison_ok (w_begun w) (admitted_ids (w_tasks w)) (w_requests w) e"
    using ok_task[OF transfers.prems(2) transfers.hyps(1)] by simp
  have "delivery_inv v' (w_begun w) (w_tasks w) (w_requests w)"
    if "attempt_written (transferred_attempt e) (view (w_box w)) v'" for v'
    by (rule delivery_inv_writes[OF ok_inv[OF transfers.prems(2)] that]) (use p in \<open>simp_all add: transferred_attempt_def poison_ok_def\<close>)
  then show ?case by (intro ok_write[OF transfers.prems(2) transfers.hyps]) auto
next
  case (proves e w)
  have "landed (w_requests w)"
    using proves some_landed_iff by (auto simp: delivery_ok_def delivery_inv_def)
  moreover have "w_tasks w \<noteq> []" using proves.hyps(1) by auto
  ultimately show ?case using proves.prems(2) delivery_inv_adds[of "view (w_box w)" "w_begun w" "w_tasks w" "w_requests w" "[Proven (hm_attempt e)]"]
    by (simp add: delivery_ok_def)
next
  case (finds_raw e w)
  have "landed (w_requests w)"
    using finds_raw some_landed_iff by (auto simp: delivery_ok_def delivery_inv_def)
  moreover have "w_tasks w \<noteq> []" using finds_raw.hyps(1) by auto
  ultimately show ?case using finds_raw.prems(2) delivery_inv_adds[of "view (w_box w)" "w_begun w" "w_tasks w" "w_requests w" "[RawOnly e]"]
    by (simp add: delivery_ok_def)
next
  case (reads_current e w r d t)
  have "box_ok (w_sent w) (w_publication w) (w_box w)" using reads_current.prems(2) by (simp add: delivery_ok_def)
  note box = read_box[OF this reads_current.hyps(2)] and del = read_delivery[OF this]
  have landed: "landed (w_requests w)"
    using reads_current unfolding delivery_ok_def delivery_inv_def by (metis task_ok.simps(7))
  have "admitted_ids (copy_tasks t e r) = [] \<and> (\<forall>x. PoisonHeld x \<notin> set (copy_tasks t e r))
      \<and> (\<forall>u\<in>set (copy_tasks t e r). task_ok (w_begun w) (admitted_ids (w_tasks w)) (w_requests w) u)"
  proof (cases "\<exists>a. r = Inr (DeliveryIs a)")
    case True
    then obtain a where a: "r = Inr (DeliveryIs a)" by blast
    then have "view (w_box w) = Some (False, Some a)" using del reads_current.hyps(2) by blast
    moreover obtain i where "map_of (w_requests w) i = Some Landed" using landed by (auto simp: landed_def)
    ultimately have "at_state a \<noteq> RetryableState"
      using reads_current.prems(2) by (auto simp: delivery_ok_def delivery_inv_def in_play_def)
    then show ?thesis using landed by (simp add: a copy_tasks_def copy_claim_def)
  next
    case False
    then show ?thesis by (auto simp: copy_tasks_def split: sum.splits outbox_response.splits)
  qed
  then have "delivery_ok (swap (RawOnly e) (copy_tasks t e r) w)"
    by (intro ok_swap[OF reads_current.prems(2) reads_current.hyps(1)]) auto
  then show ?case using box by (simp add: delivery_ok_def)
next
  case (claims_copy a w r d)
  from ok_task[OF claims_copy.prems(2) claims_copy.hyps(1)] show ?case
    by (intro ok_write_landed[OF claims_copy.prems(2) claims_copy.hyps]) (simp_all split: if_splits)
next
  case (names_copy a w job)
  from ok_task[OF names_copy.prems(2) names_copy.hyps] show ?case
    by (intro ok_swap[OF names_copy.prems(2) names_copy.hyps]) (simp_all add: copy_recorded_def)
next
  case (records_copy a w r d)
  from ok_task[OF records_copy.prems(2) records_copy.hyps(1)] show ?case
    by (intro ok_write_landed[OF records_copy.prems(2) records_copy.hyps]) simp_all
next
  case (confirms a w r d)
  from ok_task[OF confirms.prems(2) confirms.hyps(1)] show ?case
    by (intro ok_write_landed[OF confirms.prems(2) confirms.hyps]) (simp_all add: delivered_attempt_def)
next
  case (loses t w)
  then show ?case by (intro ok_swap) auto
qed

interpretation delivery: machine "delivery_step h bound" delivery_ok for h bound
  by unfold_locales (auto simp: delivery_step_def intro: delivery_move_ok)

lemma reachable_ok: "reaches (delivery_step h bound) (unclaimed t) w \<Longrightarrow> delivery_ok w"
  using delivery.inv_reaches unclaimed_ok by blast

section \<open>What a step does to the record\<close>

text \<open>
  The contract of the outbox, as the rest of the pipeline sees it: a record appears unattempted,
  becomes a tombstone only while no attempt is unresolved, takes a new attempt only when it has
  none or a retryable one, and otherwise only moves the attempt it has.
\<close>

inductive contract_step :: "(bool \<times> delivery_attempt option) option \<Rightarrow> (bool \<times> delivery_attempt option) option \<Rightarrow> bool" where
  appears: "contract_step None (Some (False, None))"
| redacts: "(\<And>b a. v = Some (b, a) \<Longrightarrow> \<not> isUnresolved a) \<Longrightarrow> contract_step v (Some (True, None))"
| attempts: "\<lbrakk>c = None \<or> (\<exists>b. c = Some b \<and> at_state b = RetryableState); at_state a \<in> {Attempting, PoisonPending}\<rbrakk> \<Longrightarrow>
    contract_step (Some (False, c)) (Some (False, Some a))"
| moves: "at_id b = at_id a \<Longrightarrow> contract_step (Some (False, Some b)) (Some (False, Some a))"
| rests: "contract_step v v"

inductive_cases contract_tombstone: "contract_step (Some (True, c)) v"

lemma written_contract: "attempt_written a v v' \<Longrightarrow> contract_step v v'"
  by (auto simp: attempt_written_def intro: contract_step.intros)

lemma ok_box: "delivery_ok w \<Longrightarrow> box_ok (w_sent w) (w_publication w) (w_box w)"
  by (simp add: delivery_ok_def)

lemma publication_view: "view (w_box (publication_result t r w)) = view (snd r)"
  by (cases r; cases "fst r") (simp_all add: publication_result_def)

lemma move_contract:
  assumes "delivery_move h bound w w'" "retained w" "delivery_ok w"
  shows "contract_step (view (w_box w)) (view (w_box w'))"
  using assms
proof (induction rule: delivery_move.induct)
  case (claims incoming w r d)
  then show ?case using claim_box(2)[OF ok_box[OF claims.prems(2)] claims.hyps] appears rests by auto
next
  case (suppresses i w r d)
  have "box_ok (w_sent w) (w_publication w) (w_box w)" using suppresses.prems(2) by (simp add: delivery_ok_def)
  from suppress_box(2)[OF this suppresses.hyps] show ?case
    using redacts[of "view (w_box w)"] rests by (simp, metis)
next
  case (begins w i r d m k)
  have "begin_effect i r (view (w_box w)) (view d)"
    using begin_box[OF _ begins.hyps(1)] begins.prems(2) by (auto simp: delivery_ok_def)
  then show ?case
  proof (cases rule: begin_effect_cases)
    case (recorded a row)
    then show ?thesis by (auto intro!: attempts)
  qed (simp add: rests)
next
  case (fires w a t)
  have "box_ok (w_sent w) None (w_box w)" using fires by (simp add: delivery_ok_def)
  then have "view (snd (alarm_op h bound (w_now w) ((w_box w)\<lparr>alarm_at := None\<rparr>))) = view (w_box w)"
    by (rule alarm_box(1)[OF _ retained_expiry[OF fires.prems(1)] surjective_pairing])
  then show ?case by (simp add: publication_view rests)
next
  case (resumes w p t sent)
  have "box_ok (w_sent w) (Some p) (w_box w)" using resumes by (simp add: delivery_ok_def)
  from resume_box[OF this refl, of "w_now w" sent]
  have "view (snd (resume_publication (w_now w) p sent (w_box w))) = view (w_box w)" by auto
  then show ?case by (simp add: publication_view rests)
next
  case (reads w path r d)
  then show ?case using read_box(2)[OF ok_box[OF reads.prems(2)] reads.hyps] by (simp add: rests)
next
  case (reads_current e w r d t)
  then show ?case using read_box(2)[OF ok_box[OF reads_current.prems(2)] reads_current.hyps(2)] by (simp add: rests)
next
  case (retains w ts r d)
  have "view d = view (w_box w)"
    using retain_box(2)[OF _ retains.hyps, of "w_sent w" "w_publication w"] retained_expiry[OF retains.prems(1)] retains.prems(2)
    by (simp add: delivery_ok_def)
  then show ?case by (simp add: rests)
next
  case (settles e out w r d)
  then show ?case using settle_written[OF ok_box[OF settles.prems(2)] settles.hyps(2)] by (auto intro: written_contract)
next
  case (transfers e w r d)
  then show ?case using settle_written[OF ok_box[OF transfers.prems(2)] transfers.hyps(2)] by (auto intro: written_contract)
next
  case (claims_copy a w r d)
  then show ?case using settle_written[OF ok_box[OF claims_copy.prems(2)] claims_copy.hyps(2)] by (auto intro: written_contract)
next
  case (records_copy a w r d)
  then show ?case using settle_written[OF ok_box[OF records_copy.prems(2)] records_copy.hyps(2)] by (auto intro: written_contract)
next
  case (confirms a w r d)
  then show ?case using settle_written[OF ok_box[OF confirms.prems(2)] confirms.hyps(2)] by (auto intro: written_contract)
qed (simp_all add: rests)

text \<open>A tombstone stays, and with it no request is made or decided any more.\<close>

lemma tombstone_step:
  assumes step: "delivery_step h bound w w'" and ok: "delivery_ok w" and gone: "view (w_box w) = Some (True, c)"
  shows "view (w_box w') = Some (True, None) \<and> w_requests w' = w_requests w"
proof -
  have move: "delivery_move h bound w w'" "retained w" using step by (auto simp: delivery_step_def)
  have none: "c = None" using ok gone by (auto simp: delivery_ok_def box_ok_def view_def split: option.splits)
  have "contract_step (Some (True, None)) (view (w_box w'))" using move_contract[OF move ok] gone none by simp
  then have "view (w_box w') = Some (True, None)" by (rule contract_tombstone) simp_all
  moreover have "quiet (w_tasks w) (w_requests w)" using ok gone by (simp add: delivery_ok_def delivery_inv_def)
  then have "\<And>e. Admitted e \<notin> set (w_tasks w)" "\<And>i. map_of (w_requests w) i \<noteq> Some Open"
    using set_admitted_ids[of _ "w_tasks w"] by (auto simp: quiet_def)
  with move(1) have "w_requests w' = w_requests w"
    by cases (simp_all add: publication_result_def split: prod.split sum.split)
  ultimately show ?thesis by simp
qed

section \<open>A publication whose sends are accepted\<close>

lemma finish_queues:
  assumes "stored d = Some s" "\<not> cs_deleted s"
  shows "\<exists>d' s'. finish_publication t d = (Inr None, d') \<and> stored d' = Some s' \<and> cs_queued s'"
  using assms by (auto simp: finish_publication_def requiredCurrentState_def)

lemma publish_queues:
  assumes "stored d = Some s" "\<not> cs_deleted s"
  shows "(\<exists>d' s'. publish_from pb s t d = (Inr None, d') \<and> stored d' = Some s' \<and> cs_queued s')
    \<or> (\<exists>p. publish_from pb s t d = (Inr (Some p), d) \<and> (cs_metricQueued s \<longrightarrow> pb_send p = ActivationSend))"
  using finish_queues[OF assms, of t] assms by (auto simp: publish_from_def)

text \<open>An accepted send ends the publication, or leaves the activation rows to send.\<close>

lemma resume_queues:
  assumes "box_ok sent (Some p) d" "stored d = Some s"
  shows "(\<exists>d' s'. resume_publication now p True d = (Inr None, d') \<and> stored d' = Some s' \<and> cs_queued s')
    \<or> pb_send p = MetricSend \<and> (\<exists>q d' s'. resume_publication now p True d = (Inr (Some q), d')
         \<and> pb_send q = ActivationSend \<and> stored d' = Some s' \<and> cs_expiresAt s' = cs_expiresAt s)"
proof -
  have del: "\<not> cs_deleted s" using assms by (auto simp: box_ok_def)
  then have cur: "requiredCurrentState d = Inr s" by (simp add: requiredCurrentState_def assms(2))
  show ?thesis
  proof (cases "pb_send p")
    case MetricSend
    let ?x = "s\<lparr>cs_metricQueued := True\<rparr>"
    show ?thesis
      using publish_queues[of "put ?x d" ?x "pb_publishing p" "pb_expiresAt p"] del MetricSend
      by (auto simp: resume_publication_def cur Let_def)
  next
    case ActivationSend
    let ?x = "s\<lparr>cs_activationsQueued := True\<rparr>"
    show ?thesis
      using finish_queues[of "put ?x d" ?x "pb_expiresAt p"] del ActivationSend
      by (auto simp: resume_publication_def cur)
  qed
qed

lemma one_step: "delivery_step h bound w w' \<Longrightarrow> reaches (delivery_step h bound) w w'"
  by (rule reaches.there[where t = w]) (auto intro: reaches.here)

lemma resume_step: "\<lbrakk>retained w; w_publication w = Some p; resume_publication (w_now w) p True (w_box w) = (Inr p', d')\<rbrakk> \<Longrightarrow>
    delivery_step h bound w (w\<lparr>w_sent := pb_send p # w_sent w, w_box := d', w_publication := p'\<rparr>)"
  using delivery_move.resumes[of w p h bound undefined True] by (simp add: delivery_step_def publication_result_def)

lemma accepted_sends_queue:
  assumes ok: "delivery_ok w" and r: "retained w" and p: "w_publication w = Some p"
  shows "\<exists>w' s'. reaches (delivery_step h bound) w w' \<and> stored (w_box w') = Some s' \<and> cs_queued s'"
proof -
  have box: "box_ok (w_sent w) (Some p) (w_box w)" using ok p by (simp add: delivery_ok_def)
  then obtain s where s: "stored (w_box w) = Some s" by (auto simp: box_ok_def split: option.splits)
  from resume_queues[OF box s, of "w_now w"] show ?thesis
  proof
    assume "\<exists>d' s'. resume_publication (w_now w) p True (w_box w) = (Inr None, d') \<and> stored d' = Some s' \<and> cs_queued s'"
    then obtain d' s' where d: "resume_publication (w_now w) p True (w_box w) = (Inr None, d')" "stored d' = Some s'" "cs_queued s'"
      by blast
    then show ?thesis using one_step[OF resume_step[OF r p d(1), of h bound]] by fastforce
  next
    assume "pb_send p = MetricSend \<and> (\<exists>q d' s'. resume_publication (w_now w) p True (w_box w) = (Inr (Some q), d')
         \<and> pb_send q = ActivationSend \<and> stored d' = Some s' \<and> cs_expiresAt s' = cs_expiresAt s)"
    then obtain q d' s' where d: "resume_publication (w_now w) p True (w_box w) = (Inr (Some q), d')"
      "pb_send q = ActivationSend" "stored d' = Some s'" "cs_expiresAt s' = cs_expiresAt s" by blast
    define w1 where "w1 = w\<lparr>w_sent := pb_send p # w_sent w, w_box := d', w_publication := Some q\<rparr>"
    have one: "delivery_step h bound w w1" unfolding w1_def by (rule resume_step[OF r p d(1)])
    have r1: "retained w1" using r s d(3,4) by (simp add: retained_def w1_def split: option.splits)
    have "delivery_ok w1" using delivery_move_ok[of h bound w w1] one ok by (simp add: delivery_step_def)
    then have "box_ok (w_sent w1) (Some q) (w_box w1)" by (simp add: delivery_ok_def w1_def)
    from resume_queues[OF this, of s' "w_now w1"] d(2,3)
    obtain d2 s2 where d2: "resume_publication (w_now w1) q True (w_box w1) = (Inr None, d2)" "stored d2 = Some s2" "cs_queued s2"
      by (auto simp: w1_def)
    have "w_publication w1 = Some q" by (simp add: w1_def)
    note two = resume_step[OF r1 this d2(1), of h bound]
    show ?thesis using reaches_trans[OF one_step[OF one] one_step[OF two]] d2(2,3) by fastforce
  qed
qed

section \<open>Properties\<close>

text \<open>
  C0: However the consumers of an event interleave, crash and repeat, at most one request for its
  row is ever undecided or stored: a further request is made only after Tinybird refused the one
  before, so the pipeline never stores the row twice. Assumed of Tinybird are its documented
  answers (\<open>truthful_reply\<close>).
\<close>

lemma row_lands_at_most_once:
  assumes "reaches (delivery_step h bound) (unclaimed t) w"
  shows "length (filter (\<lambda>p. snd p \<noteq> Refused) (w_requests w)) \<le> 1"
proof -
  let ?ps = "filter (\<lambda>p. snd p \<noteq> Refused) (w_requests w)"
  have inv: "delivery_inv (view (w_box w)) (w_begun w) (w_tasks w) (w_requests w)"
    by (rule ok_inv[OF reachable_ok[OF assms]])
  then have dist: "distinct (map fst (w_requests w))" by (simp add: delivery_inv_def)
  have play: "in_play (w_tasks w) (w_requests w) (fst p)" if "p \<in> set ?ps" for p
  proof -
    have "map_of (w_requests w) (fst p) = Some (snd p)" using that dist by simp
    then show ?thesis using that by (cases "snd p") (auto simp: in_play_def)
  qed
  have "\<forall>x\<in>set (map fst ?ps). \<forall>y\<in>set (map fst ?ps). x = y"
    using play inv unfolding delivery_inv_def by (metis (no_types, lifting) image_iff list.set_map)
  then have "card (set (map fst ?ps)) \<le> Suc 0" by (simp add: card_le_Suc0_iff_eq)
  moreover have "distinct (map fst ?ps)" using dist by (rule distinct_map_filter)
  ultimately show ?thesis by (simp only: distinct_card length_map One_nat_def)
qed

text \<open>
  C0: A privacy deletion is final. From the moment the outbox answers a suppression with its
  proof, no request for the event's row is made or decided any more, no request is undecided, and
  the record holds neither the row nor its activation rows, whatever happens within the retention.
\<close>

lemma deletion_proof_is_final:
  assumes "reaches (delivery_step h bound) (unclaimed t) w" "retained w"
    "suppress_op h i (w_box w) = (Inr (DeletedProof x), d)"
    "reaches (delivery_step h bound) (w\<lparr>w_box := d\<rparr>) w'"
  shows "w_requests w' = w_requests w \<and> Open \<notin> snd ` set (w_requests w')
    \<and> (\<exists>s. stored (w_box w') = Some s \<and> cs_deleted s \<and> cs_row s = None \<and> cs_activationRows s = None)"
proof -
  define w1 where "w1 = w\<lparr>w_box := d\<rparr>"
  have ok: "delivery_ok w" by (rule reachable_ok[OF assms(1)])
  have "delivery_move h bound w w1" unfolding w1_def by (rule delivery_move.suppresses[OF assms(3)])
  then have ok1: "delivery_ok w1" using delivery_move_ok assms(2) ok by blast
  have gone: "view (w_box w1) = Some (True, None)"
    using assms(3) by (auto simp: w1_def suppress_op_def tombstone_def split: jsval.splits option.splits sum.splits if_splits)
  have "reaches (delivery_step h bound) w1 w'" using assms(4) by (simp add: w1_def)
  then have "view (w_box w') = Some (True, None) \<and> w_requests w' = w_requests w1 \<and> delivery_ok w'"
    using gone ok1
  proof (induction rule: reaches.induct)
    case (there s t u)
    then show ?case using tombstone_step delivery_move_ok by (metis delivery_step_def)
  qed simp
  then have w': "view (w_box w') = Some (True, None)" "w_requests w' = w_requests w" "delivery_ok w'"
    by (simp_all add: w1_def)
  have "quiet (w_tasks w') (w_requests w')" "distinct (map fst (w_requests w'))"
    using ok_inv[OF w'(3)] w'(1) by (simp_all add: delivery_inv_def)
  then have "Open \<notin> snd ` set (w_requests w')" unfolding quiet_def by (metis imageE map_of_is_SomeI prod.collapse)
  moreover have "\<exists>s. stored (w_box w') = Some s \<and> cs_deleted s \<and> cs_row s = None \<and> cs_activationRows s = None"
    using ok_box[OF w'(3)] w'(1) by (auto simp: box_ok_def view_def)
  ultimately show ?thesis using w'(2) by blast
qed

text \<open>
  C0: An accepted event is not forgotten. While its record is kept, either the alarm is set or a
  publication is running; the record keeps the row until a deletion; and it says that the event
  was queued only after the Metric Event queue and the raw event queue accepted their messages.
\<close>

lemma accepted_event_stays_armed:
  assumes "reaches (delivery_step h bound) (unclaimed t) w" "stored (w_box w) = Some s"
  shows "(alarm_at (w_box w) \<noteq> None \<or> w_publication w \<noteq> None) \<and> (cs_row s \<noteq> None \<or> cs_deleted s)
    \<and> (\<not> cs_queued s \<or> {MetricSend, ActivationSend} \<subseteq> set (w_sent w))"
  using ok_box[OF reachable_ok[OF assms(1)]] assms(2) by (auto simp: box_ok_def)

text \<open>
  C0: An accepted event is published once its alarm is due: from any state in which its record is
  not queued, no publication is running, and neither the alarm nor the retry lies in the future,
  the alarm and the queues' acceptance of what it sends lead to a queued record.
\<close>

lemma accepted_event_is_published:
  assumes reach: "reaches (delivery_step h True) (unclaimed t) w" and keep: "retained w"
    and s: "stored (w_box w) = Some s" "\<not> cs_queued s" "\<not> cs_deleted s"
    and due: "w_publication w = None" "alarm_at (w_box w) = Some a" "a \<le> w_now w"
      "\<forall>r. cs_publicationRetryAt s = Some r \<longrightarrow> r \<le> w_now w"
  shows "\<exists>w' s'. reaches (delivery_step h True) w w' \<and> stored (w_box w') = Some s' \<and> cs_queued s'"
proof -
  have ok: "delivery_ok w" by (rule reachable_ok[OF reach])
  from ok_box[OF ok] s obtain x where x: "cs_expiresAt s = Some x" and row: "cs_row s \<noteq> None" by (auto simp: box_ok_def)
  then have now: "w_now w < x" using retained_expiry[OF keep s(1)] by blast
  define d0 where "d0 = (w_box w)\<lparr>alarm_at := None\<rparr>"
  define y where "y = s\<lparr>cs_expiresAt := Some x, cs_publishing := True,
      cs_publicationAttempts := Some (nullish (cs_publicationAttempts s) 0 + 1)\<rparr>"
  have "alarm_op h True (w_now w) d0 = start_publication True s x d0"
    using s x now due(4) by (cases "cs_publicationRetryAt s") (simp_all add: alarm_op_def d0_def settled_alarm_def)
  then have op: "alarm_op h True (w_now w) d0 = publish_from y y x (put y d0)"
    using row unfolding start_publication_def Let_def y_def[symmetric] by simp
  have move: "delivery_move h True w (publication_result 0 (alarm_op h True (w_now w) d0) w)"
    unfolding d0_def by (rule delivery_move.fires[OF due(1-3)])
  from publish_queues[of "put y d0" y y x] s(3)
  consider d' s' where "alarm_op h True (w_now w) d0 = (Inr None, d')" "stored d' = Some s'" "cs_queued s'"
    | p where "alarm_op h True (w_now w) d0 = (Inr (Some p), put y d0)"
    unfolding op by (auto simp: y_def)
  then show ?thesis
  proof cases
    case 1
    then have "delivery_step h True w (w\<lparr>w_box := d', w_publication := None\<rparr>)"
      using move keep by (simp add: publication_result_def delivery_step_def)
    then show ?thesis using one_step 1(2,3) by fastforce
  next
    case (2 p)
    define w1 where "w1 = w\<lparr>w_box := put y d0, w_publication := Some p\<rparr>"
    have step: "delivery_step h True w w1" using move keep by (simp add: 2 publication_result_def w1_def delivery_step_def)
    then have "delivery_ok w1" using delivery_move_ok ok by (metis delivery_step_def)
    moreover have "retained w1" using now by (simp add: w1_def retained_def y_def)
    ultimately obtain w' s' where "reaches (delivery_step h True) w1 w'" "stored (w_box w') = Some s'" "cs_queued s'"
      using accepted_sends_queue[of w1 p h True] by (auto simp: w1_def)
    then show ?thesis using reaches_trans[OF one_step[OF step]] by blast
  qed
qed

text \<open>
  C0: The Durable Object implements the contract of an idempotent, deletable delivery attempt.
  Seen through its record alone, every step of the pipeline is a step of \<open>contract_step\<close>: in
  particular a deletion happens only while no attempt is unresolved, and a tombstone only rests.
\<close>

lemma outbox_refines_contract:
  assumes "reaches (delivery_step h bound) (unclaimed t) w" "delivery_step h bound w w'"
  shows "contract_step (view (w_box w)) (view (w_box w'))"
  using assms(2) move_contract reachable_ok[OF assms(1)] unfolding delivery_step_def by blast

end
