(* ===== verification/Spec2Isabelle.thy ===== *)
theory Spec2Isabelle
  imports EvaluateProps IdentityLifecycle AssignmentStore ExposureSweep SeenSet ExposureQueue Admission
    FamilyCorrection ShipRecommendation RunProps ControlSamples MetricProps
begin

text \<open>
  A verification library for Splitch, the feature flag and experimentation service.

  \<^bold>\<open>The program\<close>

  Splitch is a TypeScript monorepo: Cloudflare workers under \<open>apps\<close>, libraries under
  \<open>packages\<close>. An App owns Flags with Variants; each Environment has a Configuration of every
  Flag with its Targeting Rules. An Experiment on a Flag is started as a Run, whose snapshot
  is frozen; the evaluation core decides which Variant a Targeting Key gets and whether that is
  an Exposure; the SDK remembers the answers and queues the Exposures; the evaluation API
  claims each Exposure Ticket once and stores who was assigned what; the ingest API admits the
  events; statistics decide whether the outcome may be shipped; and a change of a protected
  Environment goes through an Approval Request. This library models the code that decides and
  the code that records; what only moves bytes is left out.

  \<^bold>\<open>How the code is rendered\<close>

  Definitions keep the names of the source where Isabelle allows it. A handler is one function
  on the explicit state, an error is a value (\<open>Inl\<close>, or a constructor of the component's own
  error type), a record type is a \<open>record\<close> whose fields carry a two-letter prefix. Numbers are
  integers where the code only counts, and JavaScript doubles where it computes: \<open>JsNumber\<close>
  gives them as rationals with the rounding \<open>fl\<close> to 53 bits written at every operation, and
  infinities and NaN as constructors. \<open>Json\<close> has the values \<open>JSON.parse\<close> returns. Strings have
  code units up to 255. An \<open>await\<close> splits an operation in two: what was read before it is an
  argument of what follows, so that other steps may come in between. A D1 batch
  (\<open>RunTables\<close>) is a list of statements, each a function on the tables that may fail; it is
  atomic, and \<open>changes()\<close> of SQLite is a field of the database. Code that is not in the
  repository is a parameter: HMAC, the regular expression engine, \<open>localeCompare\<close>,
  \<open>Date.parse\<close>, the Provider, the network, \<open>JSON.parse\<close> of stored texts, random ids.

  No definition runs on fuel. Recursion is structural, or over the pages of a store, or has a
  measure (\<open>decimal_shift\<close> of \<open>FamilyCorrection\<close>); the paged expiry sweep, which a host
  alarm repeats, has a theorem that bounds the number of alarms (\<open>sweep_terminates\<close>).

  \<^bold>\<open>Interfaces\<close>

  \<open>machine\<close> (\<open>Prelude\<close>): a step relation with an invariant; its interpretations are the App
  identity reset, the Assignment writer, the redemption claims and their sweep, the Seen-set, the
  Exposure queue, the Run lifecycle and the control plane's writes. \<open>kv_store\<close>: the laws of a
  key-value store. \<open>rounding\<close> (\<open>JsNumber\<close>): what proofs need of the double rounding.
  \<open>sorts_by\<close> (\<open>Stats\<close>): what a comparator sorts. \<open>retained_salts\<close>
  (\<open>IdentityLifecycle\<close>): provisioning and rotation of salts. \<open>first_touch\<close> (\<open>AssignmentStore\<close>):
  a store where the first put wins, in memory and durable. \<open>token_bucket\<close> (\<open>Admission\<close>): rows and
  bytes. \<open>step_up\<close> (\<open>FamilyCorrection\<close>): the step-up procedures.

  \<^bold>\<open>Evaluation core\<close> (\<open>packages/evaluation-core/src\<close>)

  \<^item> \<open>Bucketing\<close>: \<open>hash.ts\<close> and \<open>assignment.ts\<close>, FNV-1a with its avalanche on 32 bit words, the unit
    interval, the walk over cumulative weights.
  \<^item> \<open>Conditions\<close>: \<open>conditions.ts\<close>, the operators of Targeting Conditions.
  \<^item> \<open>Evaluate\<close>, \<open>EvaluateProps\<close>: \<open>evaluate.ts\<close> with its rules, rollouts and Experiments. Shown:
    an Exposure exactly for a live Run, holdovers are sticky and isolated per Experiment,
    well-formed input never errs, an error keeps the Default Variant, the first matching rule
    decides, a larger rollout keeps its members, each Variant owns its interval.

  \<^bold>\<open>Privacy\<close> (\<open>packages/privacy/src\<close>)

  \<^item> \<open>Identity\<close>: Targeting Key hashes, their key versions, retained epochs, analysis joins.
  \<^item> \<open>IdentityLifecycle\<close>: the App identity record, its JSON form, provisioning, and the
    resumable reset after a compromise, which refines a small machine, gates traffic until it is
    done and completes whenever its environment answers.

  \<^bold>\<open>Evaluation API\<close> (\<open>apps/evaluation-api/src\<close>)

  \<^item> \<open>AssignmentStore\<close>: the per-Entity writer and KV. Shown: the first touch wins, KV only shows
    answered puts, a deletion is final.
  \<^item> \<open>ExposureClaim\<close>, \<open>ExposureSweep\<close>: redemption claims. Shown: a ticket is exclusive, sealed
    claims stay armed for expiry, the sweep ends and removes exactly what has expired.

  \<^bold>\<open>SDK\<close> (\<open>packages/sdk/src\<close>)

  \<^item> \<open>SeenSet\<close>: the two-level LRU of resolved Variants: bounds, replay of the last recording.
  \<^item> \<open>ExposureQueue\<close>: batches, retries, overflow, page lifecycle, close. Shown: a redemption is
    never lost silently, a queue with work is armed.

  \<^bold>\<open>Event ingest API\<close> (\<open>apps/event-ingest-api/src\<close>)

  \<^item> \<open>Admission\<close>: the Ingest Admission Gate's buckets with every rounding, its transaction and wire
    form. Shown: the admitted rate is bounded, failure denies.

  \<^bold>\<open>Statistics\<close> (\<open>packages/stats/src\<close>)

  \<^item> \<open>Stats\<close>: shared data. \<open>FamilyCorrection\<close>: Benjamini-Hochberg over a decision family agrees
    with its textbook definition. \<open>DecisionGate\<close>: a ship is allowed only when every check passes;
    diagnostics show the verdict. \<open>ShipRecommendation\<close>: the precedence table of the locked ship rule.

  \<^bold>\<open>Database\<close> (\<open>packages/db/src\<close>, and the handlers of \<open>apps/control-plane-api/src\<close> around it)

  \<^item> \<open>RunTables\<close>: the tables, their unique indexes and foreign keys, batches, the audit log.
  \<^item> \<open>RunStart\<close>, \<open>RunEnd\<close>, \<open>Conclusion\<close>: starting, ending, concluding, archiving and purging Runs,
    alarms, the compare-and-set update of an Experiment.
  \<^item> \<open>RunInvariant\<close>, \<open>RunLifecycle\<close>, \<open>RunMachine\<close>, \<open>RunProps\<close>: what each operation keeps, the machine
    of all interleavings, and over every history: at most one live Run per Experiment, bound to
    it; a Run is frozen but for its one end; rows are well typed; a conclusion is all or nothing
    and barred by an alarm.
  \<^item> \<open>Approvals\<close>, \<open>FlagWrites\<close>: Approval Requests and Reviews; the direct and the approved writes of
    Configurations, Targeting Rules, Variants and Segments, the freeze of a Variant by a live Run.
  \<^item> \<open>ApprovalMachine\<close>: the machine of these writes in any order, the raw SQL and the query builder's
    spelling of the guard proved equal, and the verdicts of a Request. \<open>ControlHistory\<close>: what each
    step does to Requests. \<open>ConfigSignals\<close>: what each step does to Configurations and rules.
    \<open>ControlProps\<close>, \<open>ControlSamples\<close>: a Request is decided once and for all, the version of a
    Configuration signals every change, approved writes are atomic; and concrete states in which
    the approved change of the Variant catalogue is not.

  \<^bold>\<open>Not modelled\<close>

  The numerical estimators of \<open>packages/stats\<close> (intervals, variance, sequential tests), whose
  results are inputs here, are iterations over \<open>exp\<close>, \<open>log\<close> and \<open>gamma\<close> of the host, which specifies
  no rounding for them. The request handlers, authentication, sessions, the web panel, the CLI, the
  generated clients and schemas, pipelines in SQL, adapters of host platforms and the repository's own
  tooling only route or render. The delivery outboxes of the event ingest API, the holdover write saga
  and the orchestration of proposals and reviews in the control plane service are the natural next
  components; of the Flag repository the list reads in id batches, the creation of many Variants in one
  batch and the delete cascade are left out. Log lines and the wording of messages are never kept.
\<close>

end
